(* ===== verification/Prelude.thy ===== *)
theory Prelude
  imports Main "HOL-Library.Word" "HOL-Library.State_Monad"
begin

text \<open>
  Shared material of the development: names for the C integer types, the wrap-around of
  \<^verbatim>\<open>uint32_t\<close> index arithmetic, little-endian encoding of 32-bit words, reading a range of a
  byte-addressed memory, the order in which flash cells lose bits while they are programmed, and
  a weakest-precondition calculus for the state monad in which the stateful code is written.
\<close>

unbundle bit_operations_syntax

named_theorems wp_simps "computation rules of the weakest-precondition calculus"
named_theorems pres_rules "rules for predicates that a program preserves"

type_synonym u8 = "8 word"
type_synonym u16 = "16 word"
type_synonym u32 = "32 word"

abbreviation return :: "'a \<Rightarrow> ('s, 'a) state" where
  "return \<equiv> State_Monad.return"

section \<open>Unsigned 32-bit index arithmetic\<close>

text \<open>
  Addresses, lengths and counters are natural numbers; wherever the C code computes one of them in
  a \<^verbatim>\<open>uint32_t\<close>, the model writes the wrap-around out with this function.
\<close>

definition wrap32 :: "nat \<Rightarrow> nat" where
  "wrap32 n = n mod 4294967296"

lemma wrap32_small [simp]: "n < 4294967296 \<Longrightarrow> wrap32 n = n"
  by (simp add: wrap32_def)

lemma wrap32_less: "wrap32 n < 4294967296"
  by (simp add: wrap32_def)

section \<open>Ranges of a byte memory\<close>

definition mem_slice :: "(nat \<Rightarrow> 'a) \<Rightarrow> nat \<Rightarrow> nat \<Rightarrow> 'a list" where
  "mem_slice m a n = map m [a..<a + n]"

lemma length_mem_slice [simp]: "length (mem_slice m a n) = n"
  by (simp add: mem_slice_def)

lemma nth_mem_slice [simp]: "i < n \<Longrightarrow> mem_slice m a n ! i = m (a + i)"
  by (simp add: mem_slice_def)

lemma mem_slice_0 [simp]: "mem_slice m a 0 = []"
  by (simp add: mem_slice_def)

lemma mem_slice_add: "mem_slice m a (n + k) = mem_slice m a n @ mem_slice m (a + n) k"
proof -
  have "[a..<a + (n + k)] = [a..<a + n] @ [a + n..<a + n + k]"
    using upt_add_eq_append [of a "a + n" k] by (simp add: add.assoc)
  then show ?thesis by (simp add: mem_slice_def)
qed

lemma mem_slice_eq_iff: "mem_slice m a n = mem_slice m' b n \<longleftrightarrow> (\<forall>i<n. m (a + i) = m' (b + i))"
  by (auto simp: list_eq_iff_nth_eq)

lemma mem_slice_cong: "(\<And>x. a \<le> x \<Longrightarrow> x < a + n \<Longrightarrow> m x = m' x) \<Longrightarrow> mem_slice m a n = mem_slice m' a n"
  by (simp add: mem_slice_def)

lemma mem_slice_eq_listI:
  "length bs = n \<Longrightarrow> (\<And>x. a \<le> x \<Longrightarrow> x < a + n \<Longrightarrow> m x = bs ! (x - a)) \<Longrightarrow> mem_slice m a n = bs"
  by (auto simp: list_eq_iff_nth_eq)

lemma take_mem_slice: "k \<le> n \<Longrightarrow> take k (mem_slice m a n) = mem_slice m a k"
  by (auto simp: list_eq_iff_nth_eq)

text \<open>\<^verbatim>\<open>memcpy\<close> into a byte memory, and into an array kept as a list.\<close>

definition mem_write :: "(nat \<Rightarrow> 'a) \<Rightarrow> nat \<Rightarrow> 'a list \<Rightarrow> nat \<Rightarrow> 'a" where
  "mem_write m a bs x = (if a \<le> x \<and> x < a + length bs then bs ! (x - a) else m x)"

lemma mem_write_Nil [simp]: "mem_write m a [] = m"
  by (rule ext) (auto simp: mem_write_def)

lemma mem_slice_write_append: "mem_slice (mem_write m (a + n) bs) a (n + length bs) = mem_slice m a n @ bs"
  by (rule mem_slice_eq_listI) (auto simp: mem_write_def nth_append)

definition array_write :: "'a list \<Rightarrow> nat \<Rightarrow> 'a list \<Rightarrow> 'a list" where
  "array_write xs off bs = take off xs @ bs @ drop (off + length bs) xs"

lemma length_array_write [simp]: "off + length bs \<le> length xs \<Longrightarrow> length (array_write xs off bs) = length xs"
  by (simp add: array_write_def)

lemma take_array_write: "off \<le> length xs \<Longrightarrow> take (off + length bs) (array_write xs off bs) = take off xs @ bs"
  by (simp add: array_write_def)

section \<open>Little-endian words\<close>

definition le32_bytes :: "u32 \<Rightarrow> u8 list" where
  "le32_bytes w = [ucast w, ucast (drop_bit 8 w), ucast (drop_bit 16 w), ucast (drop_bit 24 w)]"

definition le32 :: "u8 list \<Rightarrow> u32" where
  "le32 bs = ucast (bs ! 0) OR push_bit 8 (ucast (bs ! 1)) OR push_bit 16 (ucast (bs ! 2))
     OR push_bit 24 (ucast (bs ! 3))"

lemma length_le32_bytes [simp]: "length (le32_bytes w) = 4"
  by (simp add: le32_bytes_def)

lemma le32_bytes_inverse [simp]: "le32 (le32_bytes w) = w"
proof (rule bit_word_eqI)
  fix n assume "n < LENGTH(32)"
  then have n: "n < 32" by simp
  consider "n < 8" | "8 \<le> n" "n < 16" | "16 \<le> n" "n < 24" | "24 \<le> n" by linarith
  then show "bit (le32 (le32_bytes w)) n = bit w n"
    using n by cases (auto simp: le32_def le32_bytes_def bit_simps)
qed

lemma le32_inverse: "length bs = 4 \<Longrightarrow> le32_bytes (le32 bs) = bs"
proof -
  assume "length bs = 4"
  then obtain b0 b1 b2 b3 where bs: "bs = [b0, b1, b2, b3]"
    by (auto simp: numeral_eq_Suc length_Suc_conv)
  have "ucast (le32 bs) = b0" "ucast (drop_bit 8 (le32 bs)) = b1"
    "ucast (drop_bit 16 (le32 bs)) = b2" "ucast (drop_bit 24 (le32 bs)) = b3"
    unfolding bs le32_def
    by (rule bit_word_eqI; auto simp: bit_simps dest: bit_imp_le_length)+
  then show ?thesis by (simp add: le32_bytes_def bs)
qed

lemma u8_eq_iff: "(x :: u8) = y \<longleftrightarrow> (\<forall>n<8. bit x n = bit y n)"
  by (auto intro: bit_word_eqI)

section \<open>Flash cells: programming clears bits\<close>

text \<open>
  Programming a flash cell clears the bits that are 0 in the data and no others. A program
  operation that is interrupted leaves a byte between the old value and the finished one:
  \<open>between old data new\<close>.
\<close>

definition between :: "u8 \<Rightarrow> u8 \<Rightarrow> u8 \<Rightarrow> bool" where
  "between old data new \<longleftrightarrow> new OR old = old \<and> (old AND data) AND new = old AND data"

lemma between_iff:
  "between old data new \<longleftrightarrow> (\<forall>n < 8. (bit new n \<longrightarrow> bit old n) \<and> (bit old n \<and> bit data n \<longrightarrow> bit new n))"
proof -
  have "new OR old = old \<longleftrightarrow> (\<forall>n < 8. bit new n \<longrightarrow> bit old n)"
    by (auto simp: u8_eq_iff bit_simps)
  moreover have "(old AND data) AND new = old AND data \<longleftrightarrow> (\<forall>n < 8. bit old n \<and> bit data n \<longrightarrow> bit new n)"
    by (auto simp: u8_eq_iff bit_simps)
  ultimately show ?thesis by (auto simp: between_def)
qed

lemma between_refl [simp, intro]: "between old data old"
  by (simp add: between_iff)
lemma between_finished [simp, intro]: "between old data (old AND data)"
  by (auto simp: between_iff bit_simps)

lemma between_trans: "between a data b \<Longrightarrow> between b data c \<Longrightarrow> between a data c"
  unfolding between_iff by blast

lemma between_and: "between old data new \<Longrightarrow> new AND data = old AND data"
  by (auto simp: between_iff u8_eq_iff bit_simps)

lemma and_erased [simp]: "(0xFF :: u8) AND b = b"
proof -
  have "(0xFF :: u8) = - 1" by simp
  then show ?thesis by (simp only: and.left_neutral)
qed

section \<open>Weakest preconditions for the state monad\<close>

definition wp :: "('s, 'a) state \<Rightarrow> ('a \<Rightarrow> 's \<Rightarrow> bool) \<Rightarrow> 's \<Rightarrow> bool" where
  "wp m Q s = (case run_state m s of (r, s') \<Rightarrow> Q r s')"

text \<open>The rules leave the final state implicit, so that they apply under a bound result.\<close>

lemma wp_return [simp, wp_simps]: "wp (return x) Q = Q x"
  by (simp add: wp_def fun_eq_iff)

lemma wp_bind [simp, wp_simps]: "wp (State_Monad.bind m f) Q = wp m (\<lambda>r. wp (f r) Q)"
  by (simp add: wp_def fun_eq_iff split: prod.splits)

lemma wp_if [simp, wp_simps]: "wp (if b then m else n) Q = (\<lambda>s. if b then wp m Q s else wp n Q s)"
  by simp

lemma wp_let [wp_simps]: "wp (Let x f) Q = (\<lambda>s. Let x (\<lambda>y. wp (f y) Q s))"
  by simp

lemma wp_case_prod [simp, wp_simps]:
  "wp (case p of (x, y) \<Rightarrow> f x y) Q = (\<lambda>s. case p of (x, y) \<Rightarrow> wp (f x y) Q s)"
  by (cases p) simp

lemma wp_State [simp, wp_simps]: "wp (State f) Q = (\<lambda>s. case f s of (r, s') \<Rightarrow> Q r s')"
  by (simp add: wp_def fun_eq_iff)

lemma wp_get [simp, wp_simps]: "wp State_Monad.get Q = (\<lambda>s. Q s s)"
  by (simp add: State_Monad.get_def)

lemma wpI: "(\<And>r s'. run_state m s = (r, s') \<Longrightarrow> Q r s') \<Longrightarrow> wp m Q s"
  by (simp add: wp_def split: prod.splits)

lemma wpD: "wp m Q s \<Longrightarrow> run_state m s = (r, s') \<Longrightarrow> Q r s'"
  by (simp add: wp_def)

lemma wp_mono: "wp m Q s \<Longrightarrow> (\<And>r s'. Q r s' \<Longrightarrow> R r s') \<Longrightarrow> wp m R s"
  by (auto simp: wp_def split: prod.splits)

lemma wp_conj: "wp m Q s \<Longrightarrow> wp m R s \<Longrightarrow> wp m (\<lambda>r s'. Q r s' \<and> R r s') s"
  by (auto simp: wp_def split: prod.splits)

lemma wp_result: "wp m Q s \<longleftrightarrow> Q (fst (run_state m s)) (snd (run_state m s))"
  by (simp add: wp_def split: prod.splits)

section \<open>Preserved predicates\<close>

text \<open>Preservation of a predicate by a program, and its rules.\<close>

definition pres :: "('s \<Rightarrow> bool) \<Rightarrow> ('s, 'a) state \<Rightarrow> bool" where
  "pres P m \<longleftrightarrow> (\<forall>s. P s \<longrightarrow> wp m (\<lambda>_. P) s)"

lemma pres_return [pres_rules]: "pres P (return x)"
  by (simp add: pres_def)

lemma pres_bind [pres_rules]: "pres P m \<Longrightarrow> (\<And>r. pres P (f r)) \<Longrightarrow> pres P (State_Monad.bind m f)"
  unfolding pres_def wp_bind by (blast intro: wp_mono)

lemma pres_if [pres_rules]: "(b \<Longrightarrow> pres P m) \<Longrightarrow> (\<not> b \<Longrightarrow> pres P n) \<Longrightarrow> pres P (if b then m else n)"
  by simp

lemma pres_let [pres_rules]: "(\<And>y. pres P (f y)) \<Longrightarrow> pres P (Let x f)"
  by simp

lemma pres_case_prod [pres_rules]: "(\<And>x y. pres P (f x y)) \<Longrightarrow> pres P (case p of (x, y) \<Rightarrow> f x y)"
  by (cases p) simp

lemma presD: "pres P m \<Longrightarrow> P s \<Longrightarrow> wp m (\<lambda>_. P) s"
  by (simp add: pres_def)

lemma pres_run: "pres P m \<Longrightarrow> P s \<Longrightarrow> run_state m s = (r, s') \<Longrightarrow> P s'"
  by (auto simp: pres_def wp_def)

lemma presI: "(\<And>s r s'. P s \<Longrightarrow> run_state m s = (r, s') \<Longrightarrow> P s') \<Longrightarrow> pres P m"
  unfolding pres_def by (auto intro: wpI)

lemma pres_conj: "pres P m \<Longrightarrow> pres Q m \<Longrightarrow> pres (\<lambda>s. P s \<and> Q s) m"
  by (auto simp: pres_def wp_result)

lemma pres_bind_dep:
  "(\<And>s. P s \<Longrightarrow> wp m C s) \<Longrightarrow> (\<And>r s. C r s \<Longrightarrow> wp (f r) (\<lambda>_. P) s) \<Longrightarrow> pres P (State_Monad.bind m f)"
  unfolding pres_def wp_bind by (blast intro: wp_mono)

text \<open>A postcondition that holds from every initial state.\<close>

definition always :: "('s, 'a) state \<Rightarrow> ('a \<Rightarrow> 's \<Rightarrow> bool) \<Rightarrow> bool" where
  "always m Q \<longleftrightarrow> (\<forall>s. wp m Q s)"

lemma alwaysI: "(\<And>s. wp m Q s) \<Longrightarrow> always m Q"
  by (simp add: always_def)

lemma alwaysD: "always m Q \<Longrightarrow> wp m Q s"
  by (simp add: always_def)

lemma always_return: "(\<And>s. Q x s) \<Longrightarrow> always (return x) Q"
  by (simp add: always_def)

lemma always_bind: "(\<And>r. always (f r) Q) \<Longrightarrow> always (State_Monad.bind m f) Q"
  by (simp add: always_def wp_result)

lemma always_if: "(b \<Longrightarrow> always m Q) \<Longrightarrow> (\<not> b \<Longrightarrow> always n Q) \<Longrightarrow> always (if b then m else n) Q"
  by simp

lemma always_case_prod: "(\<And>x y. always (f x y) Q) \<Longrightarrow> always (case p of (x, y) \<Rightarrow> f x y) Q"
  by (cases p) simp

lemmas always_rules = always_if always_return always_bind always_case_prod

end
