(* ===== verification/Hal.thy ===== *)
theory Hal
  imports Prelude
begin

text \<open>
  The hardware abstraction layer, the flash chips and the processor's registers are not part of the
  repository: the drivers receive them as one record of operations over an arbitrary device state,
  \<open>'d hal\<close>. What the drivers rely on is stated here as named hypotheses, following the data sheet
  of the W25Q256 NOR flash (write-enable latch, page program that wraps inside a 256-byte page,
  64 KB block erase, busy bit), the STM32H7 reference manual (128 KB flash sectors, 32-byte flash
  words, flash lock) and the HAL documentation (a status other than \<^verbatim>\<open>HAL_OK\<close> promises nothing but
  that cells outside the addressed region are untouched).
\<close>

section \<open>Types of the HAL interface\<close>

datatype HAL_StatusTypeDef = HAL_OK | HAL_ERROR | HAL_BUSY | HAL_TIMEOUT

datatype QSPI_Lines = QSPI_LINES_NONE | QSPI_1_LINE | QSPI_4_LINES

datatype QSPI_AddrBits = QSPI_ADDRESS_8_BITS | QSPI_ADDRESS_16_BITS | QSPI_ADDRESS_24_BITS
  | QSPI_ADDRESS_32_BITS

datatype QSPI_DdrMode = QSPI_DDR_MODE_DISABLE | QSPI_DDR_MODE_ENABLE

datatype QSPI_DdrHold = QSPI_DDR_HHC_ANALOG_DELAY | QSPI_DDR_HHC_HALF_CLK_DELAY

datatype QSPI_SIOO = QSPI_SIOO_INST_EVERY_CMD | QSPI_SIOO_INST_ONLY_FIRST_CMD

record QSPI_CommandTypeDef =
  Instruction :: u8
  Address :: nat
  AddressSize :: QSPI_AddrBits
  DummyCycles :: nat
  InstructionMode :: QSPI_Lines
  AddressMode :: QSPI_Lines
  AlternateByteMode :: QSPI_Lines
  DataMode :: QSPI_Lines
  NbData :: nat
  DdrMode :: QSPI_DdrMode
  DdrHoldHalfCycle :: QSPI_DdrHold
  SIOOMode :: QSPI_SIOO

datatype QSPI_MatchMode = QSPI_MATCH_MODE_AND | QSPI_MATCH_MODE_OR

record QSPI_AutoPollingTypeDef =
  Match :: u16
  Mask :: u16
  Interval :: nat
  StatusBytesSize :: nat
  MatchMode :: QSPI_MatchMode
  AutomaticStop :: bool

record QSPI_MemoryMappedTypeDef =
  TimeOutPeriod :: nat
  TimeOutActivation :: bool

datatype QSPI_SampleShift = QSPI_SAMPLE_SHIFTING_NONE | QSPI_SAMPLE_SHIFTING_HALFCYCLE

record QSPI_InitTypeDef =
  ClockPrescaler :: nat
  FifoThreshold :: nat
  SampleShifting :: QSPI_SampleShift
  FlashSize :: nat
  ChipSelectHighTime :: nat
  ClockMode :: nat
  FlashID :: nat
  DualFlash :: bool

datatype GPIO_TypeDef = GPIOA | GPIOB | GPIOC | GPIOF | GPIOG

datatype GPIO_Mode = GPIO_MODE_INPUT | GPIO_MODE_OUTPUT_PP | GPIO_MODE_AF_PP

datatype GPIO_Pull = GPIO_NOPULL | GPIO_PULLUP

datatype GPIO_Speed = GPIO_SPEED_FREQ_LOW | GPIO_SPEED_FREQ_HIGH | GPIO_SPEED_FREQ_VERY_HIGH

record GPIO_InitTypeDef =
  Pin :: u16
  Mode :: GPIO_Mode
  Pull :: GPIO_Pull
  Speed :: GPIO_Speed
  Alternate :: nat

datatype FLASH_Bank = FLASH_BANK_1 | FLASH_BANK_2

record FLASH_EraseInitTypeDef =
  Banks :: FLASH_Bank
  Sector :: nat
  NbSectors :: nat

datatype RegAddr = RCC_CSR | RCC_RSR | IWDG1_KR | IWDG1_PR | IWDG1_RLR | SysTick_CTRL
  | SysTick_LOAD | SysTick_VAL | NVIC_ICER nat | NVIC_ICPR nat | SCB_VTOR

section \<open>The operations the drivers call\<close>

text \<open>
  \<open>ld8\<close> is a load from the memory-mapped internal flash. \<open>HAL_QSPI_Receive\<close> returns the bytes it
  stored at the caller's pointer; \<open>HAL_QSPI_Transmit\<close> gets the bytes from the caller's pointer on
  and reads as many as the preceding command announced. \<open>FLASH_SR2_busy\<close> is one read of
  \<^verbatim>\<open>FLASH->SR2 & (FLASH_SR_BSY | FLASH_SR_QW)\<close>. \<open>hw_op\<close> are the remaining calls without arguments or
  results that matter here, by name (\<^verbatim>\<open>__disable_irq\<close>, \<^verbatim>\<open>SCB_CleanDCache\<close>, \<^verbatim>\<open>HAL_ETH_Stop\<close>, ...).
\<close>

record 'd hal =
  HAL_QSPI_DeInit :: "('d, HAL_StatusTypeDef) state"
  HAL_QSPI_Init :: "QSPI_InitTypeDef \<Rightarrow> ('d, HAL_StatusTypeDef) state"
  HAL_QSPI_Command :: "QSPI_CommandTypeDef \<Rightarrow> ('d, HAL_StatusTypeDef) state"
  HAL_QSPI_Transmit :: "u8 list \<Rightarrow> ('d, HAL_StatusTypeDef) state"
  HAL_QSPI_Receive :: "('d, HAL_StatusTypeDef \<times> u8 list) state"
  HAL_QSPI_AutoPolling :: "QSPI_CommandTypeDef \<Rightarrow> QSPI_AutoPollingTypeDef \<Rightarrow> ('d, HAL_StatusTypeDef) state"
  HAL_QSPI_MemoryMapped :: "QSPI_CommandTypeDef \<Rightarrow> QSPI_MemoryMappedTypeDef \<Rightarrow> ('d, HAL_StatusTypeDef) state"
  HAL_QSPI_Abort :: "('d, HAL_StatusTypeDef) state"
  HAL_QSPI_CLEAR_FLAG :: "('d, unit) state"
  HAL_QSPI_FLAG_BUSY :: "('d, bool) state"
  HAL_GPIO_Init :: "GPIO_TypeDef \<Rightarrow> GPIO_InitTypeDef \<Rightarrow> ('d, unit) state"
  HAL_RCC_CLK_ENABLE :: "string \<Rightarrow> ('d, unit) state"
  HAL_Delay :: "nat \<Rightarrow> ('d, unit) state"
  HAL_FLASH_Unlock :: "('d, HAL_StatusTypeDef) state"
  HAL_FLASH_Lock :: "('d, HAL_StatusTypeDef) state"
  HAL_FLASHEx_Erase :: "FLASH_EraseInitTypeDef \<Rightarrow> ('d, HAL_StatusTypeDef \<times> u32) state"
  HAL_FLASH_Program :: "nat \<Rightarrow> u8 list \<Rightarrow> ('d, HAL_StatusTypeDef) state"
  HAL_FLASH_CLEAR_FLAG :: "('d, unit) state"
  FLASH_SR2_busy :: "('d, bool) state"
  SCB_InvalidateDCache :: "('d, unit) state"
  rd_reg :: "RegAddr \<Rightarrow> ('d, u32) state"
  wr_reg :: "RegAddr \<Rightarrow> u32 \<Rightarrow> ('d, unit) state"
  hw_op :: "string \<Rightarrow> ('d, unit) state"
  ld8 :: "'d \<Rightarrow> nat \<Rightarrow> u8"

section \<open>What the data sheet says of the NOR flash\<close>

text \<open>
  The operation the chip is carrying out: none, programming bytes from an address on (inside one
  page), or erasing a region.
\<close>

datatype nor_op = NOR_Idle | NOR_Program nat "u8 list" | NOR_Erase nat nat

text \<open>The byte that a page program at \<open>a\<close> puts into cell \<open>x\<close>; the page wraps around at 256.\<close>

definition prog_byte :: "nat \<Rightarrow> u8 list \<Rightarrow> nat \<Rightarrow> u8 option" where
  "prog_byte a bs x =
     (let i = (x + 256 - a mod 256) mod 256
      in if x div 256 = a div 256 \<and> i < length bs then Some (bs ! i) else None)"

text \<open>How a cell may change while an operation is under way, and what the operation ends with.\<close>

fun nor_touch :: "nor_op \<Rightarrow> nat \<Rightarrow> u8 \<Rightarrow> u8 \<Rightarrow> bool" where
  "nor_touch NOR_Idle x old new = (new = old)"
| "nor_touch (NOR_Program a bs) x old new =
     (case prog_byte a bs x of None \<Rightarrow> new = old | Some b \<Rightarrow> between old b new)"
| "nor_touch (NOR_Erase lo n) x old new = (lo \<le> x \<and> x < lo + n \<or> new = old)"

fun nor_finish :: "nor_op \<Rightarrow> (nat \<Rightarrow> u8) \<Rightarrow> nat \<Rightarrow> u8" where
  "nor_finish NOR_Idle m x = m x"
| "nor_finish (NOR_Program a bs) m x =
     (case prog_byte a bs x of None \<Rightarrow> m x | Some b \<Rightarrow> m x AND b)"
| "nor_finish (NOR_Erase lo n) m x = (if lo \<le> x \<and> x < lo + n then 0xFF else m x)"

text \<open>A part of an operation: what may be under way after a transfer that broke off.\<close>

fun nor_part :: "nor_op \<Rightarrow> nor_op \<Rightarrow> bool" where
  "nor_part NOR_Idle op = True"
| "nor_part (NOR_Program a bs) (NOR_Program a' bs') = (a = a' \<and> bs = take (length bs) bs')"
| "nor_part (NOR_Erase lo n) (NOR_Erase lo' n') = (lo = lo' \<and> n = n')"
| "nor_part _ _ = False"

record nor_view =
  nv_mem :: "nat \<Rightarrow> u8"
  nv_wel :: bool
  nv_op :: nor_op
  nv_cmd :: "QSPI_CommandTypeDef option"

text \<open>Bits 0 (write in progress) and 1 (write-enable latch) of the status register.\<close>

definition nor_sr :: "nor_view \<Rightarrow> u16" where
  "nor_sr v = (if nv_op v = NOR_Idle then 0 else 1) OR (if nv_wel v then 2 else 0)"

definition NOR_SIZE :: nat where
  "NOR_SIZE = 0x2000000"

text \<open>The operation a command starts, and the one that the data phase of a page program starts.\<close>

definition nor_cmd_op :: "QSPI_CommandTypeDef \<Rightarrow> nor_op" where
  "nor_cmd_op c =
     (if Instruction c = 0x21 then NOR_Erase (Address c - Address c mod 4096) 4096
      else if Instruction c = 0xDC then NOR_Erase (Address c - Address c mod 65536) 65536
      else if Instruction c = 0xC7 then NOR_Erase 0 NOR_SIZE
      else NOR_Idle)"

definition nor_data_op :: "QSPI_CommandTypeDef option \<Rightarrow> u8 list \<Rightarrow> nor_op" where
  "nor_data_op c bs =
     (case c of None \<Rightarrow> NOR_Idle
      | Some c \<Rightarrow> if Instruction c = 0x12 then NOR_Program (Address c) (take (NbData c) bs) else NOR_Idle)"

text \<open>
  One call of the HAL: cells change only as the operation under way, and then the one the call may
  start, allow; afterwards the chip is still at the old operation, at (a part of) the new one, or
  idle. Only a reset of the chip (\<open>rst\<close>) stops an operation half way; otherwise a chip that has
  become idle has finished what it was doing.
\<close>

definition nor_evolve :: "bool \<Rightarrow> nor_op \<Rightarrow> nor_view \<Rightarrow> nor_view \<Rightarrow> bool" where
  "nor_evolve rst op v v' \<longleftrightarrow>
     (\<forall>x. \<exists>b. nor_touch (nv_op v) x (nv_mem v x) b \<and> nor_touch op x b (nv_mem v' x)) \<and>
     (nv_op v' = nv_op v \<or> nor_part (nv_op v') op) \<and>
     (\<not> rst \<and> nv_op v \<noteq> NOR_Idle \<and> nv_op v' = NOR_Idle \<longrightarrow>
        nv_mem v' = nor_finish (nv_op v) (nv_mem v) \<or>
        nv_mem v' = nor_finish op (nor_finish (nv_op v) (nv_mem v)))"

section \<open>What the reference manual says of the internal flash\<close>

fun bank_base :: "FLASH_Bank \<Rightarrow> nat" where
  "bank_base FLASH_BANK_1 = 0x08000000"
| "bank_base FLASH_BANK_2 = 0x08100000"

definition in_sectors :: "FLASH_EraseInitTypeDef \<Rightarrow> nat \<Rightarrow> bool" where
  "in_sectors e x \<longleftrightarrow>
     bank_base (Banks e) + Sector e * 131072 \<le> x \<and>
     x < bank_base (Banks e) + (Sector e + NbSectors e) * 131072"

text \<open>The internal flash, as loads see it, and its lock.\<close>

definition same_flash :: "'d hal \<Rightarrow> ('d \<Rightarrow> bool) \<Rightarrow> 'd \<Rightarrow> 'd \<Rightarrow> bool" where
  "same_flash H locked d d' \<longleftrightarrow> ld8 H d' = ld8 H d \<and> locked d' = locked d"

text \<open>An operation that neither starts a NOR operation nor touches the internal flash.\<close>

definition quiet :: "'d hal \<Rightarrow> ('d \<Rightarrow> nor_view) \<Rightarrow> ('d \<Rightarrow> bool) \<Rightarrow> ('d, 'a) state \<Rightarrow> bool" where
  "quiet H nor locked m \<longleftrightarrow>
     (\<forall>d r d'. run_state m d = (r, d') \<longrightarrow>
        nor_evolve False NOR_Idle (nor d) (nor d') \<and> same_flash H locked d d')"

section \<open>What a chip operation may do to the cells\<close>

text \<open>
  \<open>R x a b\<close> says that cell \<open>x\<close> may go from \<open>a\<close> to \<open>b\<close>. The relations of interest (nothing changes, a
  region is erased, given data is programmed) are reflexive and transitive, so they are kept by
  sequences of calls, whether the calls succeed or not.
\<close>

definition cell_rel :: "(nat \<Rightarrow> u8 \<Rightarrow> u8 \<Rightarrow> bool) \<Rightarrow> bool" where
  "cell_rel R \<longleftrightarrow> (\<forall>x a. R x a a) \<and> (\<forall>x a b c. R x a b \<longrightarrow> R x b c \<longrightarrow> R x a c)"

definition op_within :: "(nat \<Rightarrow> u8 \<Rightarrow> u8 \<Rightarrow> bool) \<Rightarrow> nor_op \<Rightarrow> bool" where
  "op_within R op \<longleftrightarrow> (\<forall>x a b. nor_touch op x a b \<longrightarrow> R x a b)"

definition nor_within :: "(nat \<Rightarrow> u8 \<Rightarrow> u8 \<Rightarrow> bool) \<Rightarrow> (nat \<Rightarrow> u8) \<Rightarrow> nor_view \<Rightarrow> bool" where
  "nor_within R m0 v \<longleftrightarrow> (\<forall>x. R x (m0 x) (nv_mem v x)) \<and> op_within R (nv_op v)"

lemma op_within_Idle [simp]: "cell_rel R \<Longrightarrow> op_within R NOR_Idle"
  by (simp add: op_within_def cell_rel_def)

lemma prog_byte_take:
  "prog_byte a (take n bs) x = Some b \<Longrightarrow> prog_byte a bs x = Some b"
  by (auto simp: prog_byte_def Let_def split: if_splits)

lemma op_within_part: "cell_rel R \<Longrightarrow> op_within R op \<Longrightarrow> nor_part op' op \<Longrightarrow> op_within R op'"
proof (cases "(op', op)" rule: nor_part.cases)
  case (2 a bs a' bs')
  assume R: "cell_rel R" "op_within R op" "nor_part op' op"
  have "nor_touch op x u v" if "nor_touch op' x u v" "u \<noteq> v" for x u v
    using that R(3) 2 by (auto split: option.splits dest: prog_byte_take [of _ "length bs" bs'])
      (metis prog_byte_take option.distinct(1) option.inject)+
  with R(1,2) show ?thesis
    unfolding op_within_def cell_rel_def by blast
qed auto

lemma nor_within_evolve:
  assumes R: "cell_rel R" and v: "nor_within R m0 v" and ev: "nor_evolve rst op v v'"
    and op: "op_within R op"
  shows "nor_within R m0 v'"
proof -
  have "op_within R (nv_op v')"
    using v ev op_within_part [OF R op, of "nv_op v'"] by (auto simp: nor_within_def nor_evolve_def)
  moreover have "R x (m0 x) (nv_mem v' x)" for x
  proof -
    from ev obtain b where "nor_touch (nv_op v) x (nv_mem v x) b" "nor_touch op x b (nv_mem v' x)"
      unfolding nor_evolve_def by blast
    with v op have "R x (nv_mem v x) b" "R x b (nv_mem v' x)" "R x (m0 x) (nv_mem v x)"
      unfolding nor_within_def op_within_def by blast+
    with R show ?thesis unfolding cell_rel_def by blast
  qed
  ultimately show ?thesis unfolding nor_within_def by blast
qed

text \<open>The finished effect of programming \<open>bs\<close> from \<open>a\<close> on, and the relations of programming and erasing.\<close>

definition prog_mem :: "nat \<Rightarrow> u8 list \<Rightarrow> (nat \<Rightarrow> u8) \<Rightarrow> nat \<Rightarrow> u8" where
  "prog_mem a bs m x = (if a \<le> x \<and> x < a + length bs then m x AND bs ! (x - a) else m x)"

definition prog_rel :: "nat \<Rightarrow> u8 list \<Rightarrow> nat \<Rightarrow> u8 \<Rightarrow> u8 \<Rightarrow> bool" where
  "prog_rel a bs x old new \<longleftrightarrow>
     (if a \<le> x \<and> x < a + length bs then between old (bs ! (x - a)) new else new = old)"

definition erase_rel :: "nat \<Rightarrow> nat \<Rightarrow> nat \<Rightarrow> u8 \<Rightarrow> u8 \<Rightarrow> bool" where
  "erase_rel lo n x old new \<longleftrightarrow> lo \<le> x \<and> x < lo + n \<or> new = old"

lemma cell_rel_prog [simp]: "cell_rel (prog_rel a bs)"
  unfolding cell_rel_def prog_rel_def by (auto split: if_splits intro: between_trans)

lemma cell_rel_erase [simp]: "cell_rel (erase_rel lo n)"
  unfolding cell_rel_def erase_rel_def by auto

lemma cell_rel_eq [simp]: "cell_rel (\<lambda>x a b. b = a)"
  unfolding cell_rel_def by auto

lemma prog_mem_Nil [simp]: "prog_mem a [] m = m"
  by (auto simp: prog_mem_def fun_eq_iff)

lemma prog_mem_append: "prog_mem (a + length xs) ys (prog_mem a xs m) = prog_mem a (xs @ ys) m"
  by (auto simp: prog_mem_def fun_eq_iff nth_append diff_diff_left)

lemma prog_byte_in_page:
  assumes "a mod 256 + length bs \<le> 256"
  shows "prog_byte a bs x = (if a \<le> x \<and> x < a + length bs then Some (bs ! (x - a)) else None)"
proof -
  define q r where "q = a div 256" and "r = a mod 256"
  then have a: "a = 256 * q + r" and r: "r < 256" by simp_all
  have a': "a div 256 = q" "a mod 256 = r" by (simp_all add: q_def r_def)
  define qx rx where "qx = x div 256" and "rx = x mod 256"
  then have x: "x = 256 * qx + rx" and rx: "rx < 256" by simp_all
  have x': "x div 256 = qx" by (simp add: qx_def)
  have len: "r + length bs \<le> 256" using assms a' by simp
  have i: "(x + 256 - r) mod 256 = (if r \<le> rx then rx - r else rx + 256 - r)"
  proof (cases "r \<le> rx")
    case True
    then have "x + 256 - r = 256 * (qx + 1) + (rx - r)" using x by simp
    moreover have "(256 * (qx + 1) + (rx - r)) mod 256 = (rx - r) mod 256" by (rule mod_mult_self4)
    ultimately show ?thesis using True rx by simp
  next
    case False
    then have "x + 256 - r = 256 * qx + (rx + 256 - r)" using x r by simp
    moreover have "(256 * qx + (rx + 256 - r)) mod 256 = (rx + 256 - r) mod 256" by (rule mod_mult_self4)
    ultimately show ?thesis using False by simp
  qed
  show ?thesis
  proof (cases "qx = q")
    case True
    then show ?thesis using i len r rx a x a' x' by (auto simp: prog_byte_def Let_def)
  next
    case False
    moreover have "\<not> (a \<le> x \<and> x < a + length bs)"
      using False len r rx a x by (cases qx q rule: linorder_cases) auto
    ultimately show ?thesis using x' a' by (simp add: prog_byte_def)
  qed
qed

lemma nor_finish_page:
  "a mod 256 + length bs \<le> 256 \<Longrightarrow> nor_finish (NOR_Program a bs) m = prog_mem a bs m"
  by (rule ext) (simp add: prog_byte_in_page prog_mem_def)

lemma op_within_page:
  assumes "a mod 256 + length bs \<le> 256" and "\<And>x. a \<le> x \<Longrightarrow> x < a + length bs \<Longrightarrow> a' \<le> x \<and> x < a' + length bs' \<and> bs ! (x - a) = bs' ! (x - a')"
  shows "op_within (prog_rel a' bs') (NOR_Program a bs)"
  using assms by (auto simp: op_within_def prog_byte_in_page prog_rel_def split: if_splits)

lemma op_within_erase: "lo' \<le> lo \<Longrightarrow> lo + n \<le> lo' + n' \<Longrightarrow> op_within (erase_rel lo' n') (NOR_Erase lo n)"
  by (auto simp: op_within_def erase_rel_def)

lemma erase_rel_mono: "erase_rel lo n x a b \<Longrightarrow> lo' \<le> lo \<Longrightarrow> lo + n \<le> lo' + n' \<Longrightarrow> erase_rel lo' n' x a b"
  by (auto simp: erase_rel_def)

lemma part_Erase: "nor_part op (NOR_Erase lo n) \<longleftrightarrow> op \<in> {NOR_Idle, NOR_Erase lo n}"
  by (cases op) auto

lemma part_Idle: "nor_part op NOR_Idle \<longleftrightarrow> op = NOR_Idle"
  by (cases op) auto

section \<open>The contract of the hardware\<close>

text \<open>
  \<open>nor d\<close> and \<open>locked d\<close> are what a device state \<open>d\<close> says of the NOR chip and of the flash lock.
  The laws are those of the data sheets; a failed call promises only where cells may have changed.
\<close>

locale hal_laws =
  fixes H :: "'d hal" and nor :: "'d \<Rightarrow> nor_view" and locked :: "'d \<Rightarrow> bool"
  assumes quiet_deinit: "quiet H nor locked (HAL_QSPI_DeInit H)"
    and quiet_init: "quiet H nor locked (HAL_QSPI_Init H i)"
    and quiet_receive: "quiet H nor locked (HAL_QSPI_Receive H)"
    and quiet_poll: "quiet H nor locked (HAL_QSPI_AutoPolling H c cfg)"
    and quiet_memmap: "quiet H nor locked (HAL_QSPI_MemoryMapped H c mm)"
    and quiet_abort: "quiet H nor locked (HAL_QSPI_Abort H)"
    and quiet_clear: "quiet H nor locked (HAL_QSPI_CLEAR_FLAG H)"
    and quiet_busy: "quiet H nor locked (HAL_QSPI_FLAG_BUSY H)"
    and quiet_gpio: "quiet H nor locked (HAL_GPIO_Init H p g)"
    and quiet_clk: "quiet H nor locked (HAL_RCC_CLK_ENABLE H n)"
    and quiet_delay: "quiet H nor locked (HAL_Delay H ms)"
    and quiet_fclear: "quiet H nor locked (HAL_FLASH_CLEAR_FLAG H)"
    and quiet_sr2: "quiet H nor locked (FLASH_SR2_busy H)"
    and quiet_dcache: "quiet H nor locked (SCB_InvalidateDCache H)"
    and quiet_rd_reg: "quiet H nor locked (rd_reg H ra)"
    and quiet_wr_reg: "quiet H nor locked (wr_reg H ra w)"
    and quiet_hw: "quiet H nor locked (hw_op H nm)"
    and command: "run_state (HAL_QSPI_Command H c) d = (r, d') \<Longrightarrow>
      nor_evolve (Instruction c = 0x99) (nor_cmd_op c) (nor d) (nor d') \<and> same_flash H locked d d'"
    and command_erase: "run_state (HAL_QSPI_Command H c) d = (HAL_OK, d') \<Longrightarrow>
      nv_op (nor d) = NOR_Idle \<Longrightarrow> nv_wel (nor d) \<Longrightarrow> nv_op (nor d') = nor_cmd_op c"
    and command_data: "run_state (HAL_QSPI_Command H c) d = (HAL_OK, d') \<Longrightarrow>
      DataMode c \<noteq> QSPI_LINES_NONE \<Longrightarrow>
      nv_cmd (nor d') = Some c \<and> (nv_op (nor d) = NOR_Idle \<longrightarrow> nv_wel (nor d') = nv_wel (nor d))"
    and transmit: "run_state (HAL_QSPI_Transmit H bs) d = (r, d') \<Longrightarrow>
      nor_evolve False (nor_data_op (nv_cmd (nor d)) bs) (nor d) (nor d') \<and> same_flash H locked d d'"
    and transmit_ok: "run_state (HAL_QSPI_Transmit H bs) d = (HAL_OK, d') \<Longrightarrow>
      nv_op (nor d) = NOR_Idle \<Longrightarrow> nv_wel (nor d) \<Longrightarrow>
      nv_op (nor d') = nor_data_op (nv_cmd (nor d)) bs"
    and receive_ok: "run_state (HAL_QSPI_Receive H) d = ((HAL_OK, bs), d') \<Longrightarrow>
      nv_op (nor d) = NOR_Idle \<Longrightarrow> nv_cmd (nor d) = Some c \<Longrightarrow> Instruction c = 0x13 \<Longrightarrow>
      Address c + NbData c \<le> NOR_SIZE \<Longrightarrow> bs = mem_slice (nv_mem (nor d)) (Address c) (NbData c)"
    and poll_ok: "run_state (HAL_QSPI_AutoPolling H c cfg) d = (HAL_OK, d') \<Longrightarrow>
      MatchMode cfg = QSPI_MATCH_MODE_AND \<Longrightarrow> nor_sr (nor d') AND Mask cfg = Match cfg"
    and flash_unlock: "run_state (HAL_FLASH_Unlock H) d = (r, d') \<Longrightarrow>
      nor_evolve False NOR_Idle (nor d) (nor d') \<and> ld8 H d' = ld8 H d"
    and flash_lock: "run_state (HAL_FLASH_Lock H) d = (r, d') \<Longrightarrow>
      nor_evolve False NOR_Idle (nor d) (nor d') \<and> ld8 H d' = ld8 H d \<and> locked d'"
    and flash_erase: "run_state (HAL_FLASHEx_Erase H e) d = ((r, se), d') \<Longrightarrow>
      nor_evolve False NOR_Idle (nor d) (nor d') \<and> locked d' = locked d \<and>
      (\<forall>x. \<not> in_sectors e x \<longrightarrow> ld8 H d' x = ld8 H d x) \<and>
      (r = HAL_OK \<longrightarrow> (\<forall>x. in_sectors e x \<longrightarrow> ld8 H d' x = 0xFF))"
    and flash_program: "run_state (HAL_FLASH_Program H a bs) d = (r, d') \<Longrightarrow>
      a mod 32 = 0 \<Longrightarrow> length bs = 32 \<Longrightarrow>
      nor_evolve False NOR_Idle (nor d) (nor d') \<and> locked d' = locked d \<and>
      (\<forall>x. \<not> (a \<le> x \<and> x < a + 32) \<longrightarrow> ld8 H d' x = ld8 H d x) \<and>
      (\<forall>i < 32. between (ld8 H d (a + i)) (bs ! i) (ld8 H d' (a + i))) \<and>
      (r = HAL_OK \<longrightarrow> (\<forall>i < 32. ld8 H d' (a + i) = ld8 H d (a + i) AND bs ! i))"

section \<open>Consequences of the contract\<close>

context hal_laws
begin

subsection \<open>Device states reached while cells change as \<open>R\<close> allows\<close>

definition within :: "(nat \<Rightarrow> u8 \<Rightarrow> u8 \<Rightarrow> bool) \<Rightarrow> 'd \<Rightarrow> 'd \<Rightarrow> bool" where
  "within R d0 d \<longleftrightarrow> nor_within R (nv_mem (nor d0)) (nor d) \<and> same_flash H locked d0 d"

lemma within_step:
  assumes "cell_rel R" "within R d0 d" "nor_evolve rst op (nor d) (nor d')" "op_within R op"
    "same_flash H locked d d'"
  shows "within R d0 d'"
  using assms nor_within_evolve unfolding within_def same_flash_def by metis

lemma within_quiet: "cell_rel R \<Longrightarrow> quiet H nor locked m \<Longrightarrow> pres (within R d0) m"
  unfolding quiet_def by (rule presI) (metis within_step op_within_Idle)

lemma within_command:
  "cell_rel R \<Longrightarrow> op_within R (nor_cmd_op c) \<Longrightarrow> pres (within R d0) (HAL_QSPI_Command H c)"
  by (auto intro!: presI intro: within_step dest: command)

lemmas within_quiets = within_quiet [OF _ quiet_deinit] within_quiet [OF _ quiet_init]
  within_quiet [OF _ quiet_receive] within_quiet [OF _ quiet_poll] within_quiet [OF _ quiet_memmap]
  within_quiet [OF _ quiet_abort] within_quiet [OF _ quiet_clear] within_quiet [OF _ quiet_busy]
  within_quiet [OF _ quiet_gpio] within_quiet [OF _ quiet_clk] within_quiet [OF _ quiet_delay]
  within_quiet [OF _ quiet_fclear] within_quiet [OF _ quiet_sr2] within_quiet [OF _ quiet_dcache]
  within_quiet [OF _ quiet_rd_reg] within_quiet [OF _ quiet_wr_reg] within_quiet [OF _ quiet_hw]

lemma within_refl: "cell_rel R \<Longrightarrow> nv_op (nor d) = NOR_Idle \<Longrightarrow> within R d d"
  by (simp add: within_def nor_within_def same_flash_def cell_rel_def op_within_def)

lemma within_trans:
  assumes "cell_rel R" "within R d0 d" "within R d d'"
  shows "within R d0 d'"
  using assms unfolding within_def nor_within_def same_flash_def cell_rel_def by metis

lemma within_mono: "within R d0 d \<Longrightarrow> (\<And>x a b. R x a b \<Longrightarrow> R' x a b) \<Longrightarrow> within R' d0 d"
  unfolding within_def nor_within_def op_within_def by blast

lemma within_erase_mono:
  "within (erase_rel lo n) d d' \<Longrightarrow> lo' \<le> lo \<Longrightarrow> lo + n \<le> lo' + n' \<Longrightarrow> within (erase_rel lo' n') d d'"
  using within_mono erase_rel_mono by metis

subsection \<open>Idle chip\<close>

definition idle_at :: "(nat \<Rightarrow> u8) \<Rightarrow> 'd \<Rightarrow> bool" where
  "idle_at m d \<longleftrightarrow> nv_op (nor d) = NOR_Idle \<and> nv_mem (nor d) = m"

lemma idle_at_step: "idle_at m d \<Longrightarrow> nor_evolve rst NOR_Idle (nor d) (nor d') \<Longrightarrow> idle_at m d'"
  by (cases "nv_op (nor d')") (auto simp: idle_at_def nor_evolve_def)

lemma idle_quiet: "quiet H nor locked m \<Longrightarrow> pres (idle_at mm) m"
  unfolding quiet_def by (rule presI) (metis idle_at_step)

lemma idle_command: "nor_cmd_op c = NOR_Idle \<Longrightarrow> pres (idle_at m) (HAL_QSPI_Command H c)"
  by (rule presI) (metis idle_at_step command)

lemmas idle_quiets = idle_quiet [OF quiet_deinit] idle_quiet [OF quiet_init]
  idle_quiet [OF quiet_receive] idle_quiet [OF quiet_poll] idle_quiet [OF quiet_memmap]
  idle_quiet [OF quiet_abort] idle_quiet [OF quiet_clear] idle_quiet [OF quiet_busy]
  idle_quiet [OF quiet_gpio] idle_quiet [OF quiet_clk] idle_quiet [OF quiet_delay]
  idle_quiet [OF quiet_fclear] idle_quiet [OF quiet_sr2] idle_quiet [OF quiet_dcache]
  idle_quiet [OF quiet_rd_reg] idle_quiet [OF quiet_wr_reg] idle_quiet [OF quiet_hw]

subsection \<open>A chip that is idle or erasing a given region\<close>

definition erasing :: "nat \<Rightarrow> nat \<Rightarrow> 'd \<Rightarrow> bool" where
  "erasing lo n d \<longleftrightarrow> nv_op (nor d) \<in> {NOR_Idle, NOR_Erase lo n}"

definition erased :: "nat \<Rightarrow> nat \<Rightarrow> 'd \<Rightarrow> bool" where
  "erased lo n d \<longleftrightarrow> nv_op (nor d) = NOR_Idle \<and> (\<forall>x. lo \<le> x \<and> x < lo + n \<longrightarrow> nv_mem (nor d) x = 0xFF)"

lemma erasing_step:
  "erasing lo n d \<Longrightarrow> nor_evolve rst op (nor d) (nor d') \<Longrightarrow> op \<in> {NOR_Idle, NOR_Erase lo n} \<Longrightarrow> erasing lo n d'"
  by (auto simp: erasing_def nor_evolve_def part_Erase part_Idle)

lemma erasing_quiet: "quiet H nor locked m \<Longrightarrow> pres (erasing lo n) m"
  unfolding quiet_def by (rule presI) (metis erasing_step insertI1)

lemma erasing_command:
  "nor_cmd_op c \<in> {NOR_Idle, NOR_Erase lo n} \<Longrightarrow> pres (erasing lo n) (HAL_QSPI_Command H c)"
  by (rule presI) (metis erasing_step command)

lemmas erasing_quiets = erasing_quiet [OF quiet_deinit] erasing_quiet [OF quiet_init]
  erasing_quiet [OF quiet_receive] erasing_quiet [OF quiet_poll] erasing_quiet [OF quiet_memmap]
  erasing_quiet [OF quiet_abort] erasing_quiet [OF quiet_clear] erasing_quiet [OF quiet_busy]
  erasing_quiet [OF quiet_gpio] erasing_quiet [OF quiet_clk] erasing_quiet [OF quiet_delay]

subsection \<open>The internal flash\<close>

text \<open>
  Between \<open>d0\<close> and \<open>d\<close> the internal flash changes only as \<open>R\<close> allows, and an idle NOR chip is left
  alone.
\<close>

definition nor_kept :: "'d \<Rightarrow> 'd \<Rightarrow> bool" where
  "nor_kept d0 d \<longleftrightarrow> (nv_op (nor d0) = NOR_Idle \<longrightarrow> idle_at (nv_mem (nor d0)) d)"

definition flash_within :: "(nat \<Rightarrow> u8 \<Rightarrow> u8 \<Rightarrow> bool) \<Rightarrow> 'd \<Rightarrow> 'd \<Rightarrow> bool" where
  "flash_within R d0 d \<longleftrightarrow> (\<forall>x. R x (ld8 H d0 x) (ld8 H d x)) \<and> nor_kept d0 d"

lemma nor_kept_step: "nor_kept d0 d \<Longrightarrow> nor_evolve rst NOR_Idle (nor d) (nor d') \<Longrightarrow> nor_kept d0 d'"
  unfolding nor_kept_def using idle_at_step by blast

lemma flash_within_refl: "cell_rel R \<Longrightarrow> flash_within R d d"
  by (simp add: flash_within_def nor_kept_def idle_at_def cell_rel_def)

lemma flash_within_trans:
  "cell_rel R \<Longrightarrow> flash_within R d0 d \<Longrightarrow> flash_within R d d' \<Longrightarrow> flash_within R d0 d'"
  unfolding flash_within_def nor_kept_def idle_at_def cell_rel_def by metis

lemma flash_within_mono:
  "flash_within R d0 d \<Longrightarrow> (\<And>x a b. R x a b \<Longrightarrow> R' x a b) \<Longrightarrow> flash_within R' d0 d"
  unfolding flash_within_def by blast

lemma flash_within_quiet: "quiet H nor locked m \<Longrightarrow> pres (flash_within R d0) m"
  unfolding quiet_def flash_within_def same_flash_def by (rule presI) (metis nor_kept_step)

lemmas flash_quiets = flash_within_quiet [OF quiet_fclear] flash_within_quiet [OF quiet_sr2]
  flash_within_quiet [OF quiet_dcache] flash_within_quiet [OF quiet_delay] flash_within_quiet [OF quiet_busy]
  flash_within_quiet [OF quiet_rd_reg] flash_within_quiet [OF quiet_wr_reg] flash_within_quiet [OF quiet_hw]

lemma flash_within_unlock: "pres (flash_within R d0) (HAL_FLASH_Unlock H)"
  by (rule presI) (use flash_unlock nor_kept_step in \<open>fastforce simp: flash_within_def\<close>)

lemma flash_within_lock: "pres (flash_within R d0) (HAL_FLASH_Lock H)"
  by (rule presI) (use flash_lock nor_kept_step in \<open>fastforce simp: flash_within_def\<close>)

lemmas flash_pres = flash_quiets flash_within_unlock flash_within_lock

text \<open>Erasing sectors and programming a flash word, possibly after attempts that failed.\<close>

definition sectors_rel :: "FLASH_EraseInitTypeDef \<Rightarrow> nat \<Rightarrow> u8 \<Rightarrow> u8 \<Rightarrow> bool" where
  "sectors_rel e = erase_rel (bank_base (Banks e) + Sector e * 131072) (NbSectors e * 131072)"

lemma in_sectors_rel: "sectors_rel e x a b \<longleftrightarrow> in_sectors e x \<or> b = a"
  by (auto simp: sectors_rel_def erase_rel_def in_sectors_def add_mult_distrib)

lemma cell_rel_sectors [simp]: "cell_rel (sectors_rel e)"
  by (simp add: sectors_rel_def)

lemma erase_again:
  assumes "flash_within (sectors_rel e) d0 d"
  shows "wp (HAL_FLASHEx_Erase H e) (\<lambda>(r, se) d'. flash_within (sectors_rel e) d0 d' \<and>
     (r = HAL_OK \<longrightarrow> (\<forall>x. in_sectors e x \<longrightarrow> ld8 H d' x = 0xFF))) d"
proof (rule wpI, clarify)
  fix r se d' assume "run_state (HAL_FLASHEx_Erase H e) d = ((r, se), d')"
  from flash_erase [OF this] show "flash_within (sectors_rel e) d0 d' \<and>
     (r = HAL_OK \<longrightarrow> (\<forall>x. in_sectors e x \<longrightarrow> ld8 H d' x = 0xFF))"
    using assms nor_kept_step unfolding flash_within_def in_sectors_rel by metis
qed

lemma program_again:
  assumes "flash_within (prog_rel a bs) d0 d" "a mod 32 = 0" "length bs = 32"
  shows "wp (HAL_FLASH_Program H a bs) (\<lambda>r d'. flash_within (prog_rel a bs) d0 d' \<and>
     (r = HAL_OK \<longrightarrow> ld8 H d' = prog_mem a bs (ld8 H d0))) d"
proof (rule wpI)
  fix r d' assume "run_state (HAL_FLASH_Program H a bs) d = (r, d')"
  note law = flash_program [OF this assms(2,3)]
  have old: "prog_rel a bs x (ld8 H d0 x) (ld8 H d x)" for x
    using assms(1) by (simp add: flash_within_def)
  have idx: "\<exists>i<32. x = a + i \<and> x - a = i" if "a \<le> x" "x < a + 32" for x
    using that by (intro exI [of _ "x - a"]) auto
  have new: "prog_rel a bs x (ld8 H d x) (ld8 H d' x)" for x
    using law idx [of x] assms(3) by (auto simp: prog_rel_def)
  have "prog_rel a bs x (ld8 H d0 x) (ld8 H d' x)" for x
    using old new cell_rel_prog unfolding cell_rel_def by blast
  moreover have "nor_kept d0 d'" using assms(1) law nor_kept_step by (auto simp: flash_within_def)
  moreover have "ld8 H d' x = prog_mem a bs (ld8 H d0) x" if "r = HAL_OK" for x
    using old [of x] law that idx [of x] assms(3)
    by (auto simp: prog_rel_def prog_mem_def between_and split: if_splits)
  ultimately show "flash_within (prog_rel a bs) d0 d' \<and> (r = HAL_OK \<longrightarrow> ld8 H d' = prog_mem a bs (ld8 H d0))"
    by (auto simp: flash_within_def fun_eq_iff)
qed

text \<open>The lock stays as it is until it is set.\<close>

lemma Lock_locked: "wp (HAL_FLASH_Lock H) (\<lambda>_ d'. locked d') d"
  by (rule wpI) (simp add: flash_lock)

end

end
