(* ===== verification/Fault_Budget.thy ===== *)
theory Fault_Budget
  imports Hal
begin

text \<open>
  A contract for statements that something succeeds: the hardware has a finite number of faults
  left, a failing call uses one up, and otherwise calls do what the data sheets say. With no fault
  left every call succeeds.
\<close>

definition spends :: "('d \<Rightarrow> nat) \<Rightarrow> ('a \<Rightarrow> bool) \<Rightarrow> ('d, 'a) state \<Rightarrow> bool" where
  "spends budget ok m \<longleftrightarrow>
     (\<forall>d. wp m (\<lambda>r d'. budget d' \<le> budget d \<and> (\<not> ok r \<longrightarrow> budget d' < budget d)) d)"

locale hal_budget = hal_laws +
  fixes budget :: "'a \<Rightarrow> nat"
  assumes b_deinit: "spends budget (\<lambda>r. r = HAL_OK) (HAL_QSPI_DeInit H)"
    and b_init: "spends budget (\<lambda>r. r = HAL_OK) (HAL_QSPI_Init H i)"
    and b_command: "spends budget (\<lambda>r. r = HAL_OK) (HAL_QSPI_Command H c)"
    and b_transmit: "spends budget (\<lambda>r. r = HAL_OK) (HAL_QSPI_Transmit H bs)"
    and b_receive: "spends budget (\<lambda>r. fst r = HAL_OK) (HAL_QSPI_Receive H)"
    and b_poll: "spends budget (\<lambda>_. True) (HAL_QSPI_AutoPolling H c cfg)"
    and b_abort: "spends budget (\<lambda>_. True) (HAL_QSPI_Abort H)"
    and b_clear: "spends budget (\<lambda>_. True) (HAL_QSPI_CLEAR_FLAG H)"
    and b_busy: "spends budget (\<lambda>_. True) (HAL_QSPI_FLAG_BUSY H)"
    and b_gpio: "spends budget (\<lambda>_. True) (HAL_GPIO_Init H p g)"
    and b_clk: "spends budget (\<lambda>_. True) (HAL_RCC_CLK_ENABLE H n)"
    and b_delay: "spends budget (\<lambda>_. True) (HAL_Delay H ms)"
    and b_fclear: "spends budget (\<lambda>_. True) (HAL_FLASH_CLEAR_FLAG H)"
    and b_sr2: "spends budget (\<lambda>_. True) (FLASH_SR2_busy H)"
    and b_dcache: "spends budget (\<lambda>_. True) (SCB_InvalidateDCache H)"
    and b_rd_reg: "spends budget (\<lambda>_. True) (rd_reg H ra)"
    and b_wr_reg: "spends budget (\<lambda>_. True) (wr_reg H ra w)"
    and b_unlock: "spends budget (\<lambda>_. True) (HAL_FLASH_Unlock H)"
    and b_lock: "spends budget (\<lambda>_. True) (HAL_FLASH_Lock H)"
    and unlock_works: "wp (HAL_FLASH_Unlock H) (\<lambda>r d'. \<not> locked d') d"
    and b_ferase: "wp (HAL_FLASHEx_Erase H e) (\<lambda>(r, se) d'. budget d' \<le> budget d \<and>
      (r \<noteq> HAL_OK \<and> \<not> locked d \<longrightarrow> budget d' < budget d)) d"
    and b_fprogram: "a mod 32 = 0 \<Longrightarrow> length bs = 32 \<Longrightarrow> wp (HAL_FLASH_Program H a bs) (\<lambda>r d'. budget d' \<le> budget d \<and>
      (r \<noteq> HAL_OK \<and> \<not> locked d \<longrightarrow> budget d' < budget d)) d"
    and wren_works: "run_state (HAL_QSPI_Command H c) d = (HAL_OK, d') \<Longrightarrow> Instruction c = 0x06 \<Longrightarrow>
      DataMode c = QSPI_LINES_NONE \<Longrightarrow> nv_op (nor d) = NOR_Idle \<Longrightarrow> nv_wel (nor d')"
    and poll_wip: "Mask cfg = 1 \<Longrightarrow> Match cfg = 0 \<Longrightarrow> spends budget (\<lambda>r. r = HAL_OK) (HAL_QSPI_AutoPolling H c cfg)"
    and poll_wel: "nv_op (nor d) = NOR_Idle \<Longrightarrow> nv_wel (nor d) \<Longrightarrow> Mask cfg = 2 \<Longrightarrow> Match cfg = 2 \<Longrightarrow>
      MatchMode cfg = QSPI_MATCH_MODE_AND \<Longrightarrow>
      wp (HAL_QSPI_AutoPolling H c cfg) (\<lambda>r d'. r \<noteq> HAL_OK \<longrightarrow> budget d' < budget d) d"
begin

lemma spendsD: "spends budget ok m \<Longrightarrow> wp m (\<lambda>r d'. budget d' \<le> budget d \<and> (\<not> ok r \<longrightarrow> budget d' < budget d)) d"
  by (simp add: spends_def)

lemma spends_le: "spends budget ok m \<Longrightarrow> budget d \<le> k \<Longrightarrow> wp m (\<lambda>_ d'. budget d' \<le> k) d"
  by (drule spendsD [of _ _ d]) (auto elim!: wp_mono)

lemma works: "spends budget ok m \<Longrightarrow> budget d = 0 \<Longrightarrow> wp m (\<lambda>r d'. budget d' = 0 \<and> ok r) d"
  by (drule spendsD [of _ _ d]) (auto elim!: wp_mono)

lemma spends_pres: "spends budget (\<lambda>_. True) m \<Longrightarrow> pres (\<lambda>d. budget d \<le> k) m"
  unfolding pres_def by (blast intro: spends_le)

lemmas budget_pres = spends_pres [OF b_abort] spends_pres [OF b_clear] spends_pres [OF b_busy]
  spends_pres [OF b_gpio] spends_pres [OF b_clk] spends_pres [OF b_delay] spends_pres [OF b_fclear]
  spends_pres [OF b_sr2] spends_pres [OF b_dcache] spends_pres [OF b_rd_reg] spends_pres [OF b_wr_reg]
  spends_pres [OF b_unlock] spends_pres [OF b_lock]

end

end
