(* ===== verification/Crc32.thy ===== *)
theory Crc32
  imports Prelude
begin

text \<open>
  \<^verbatim>\<open>src/STM32/Bootloader/User/crc32/crc32.c\<close>: the table-driven CRC-32 that decides whether a
  received image is accepted, and the bit-at-a-time CRC-32 that \<^verbatim>\<open>ota.c\<close> computes while it reads
  the staged image back. The table is the one of the source, entry by entry. Shown here: both
  computations agree on every input, the update of the register is injective, and no change
  confined to four consecutive bytes of an image goes unnoticed.
\<close>

section \<open>The table-driven CRC\<close>

definition crc32_table :: "u32 list" where
  "crc32_table = [
    0x00000000, 0x77073096, 0xEE0E612C, 0x990951BA, 0x076DC419, 0x706AF48F,
    0xE963A535, 0x9E6495A3, 0x0EDB8832, 0x79DCB8A4, 0xE0D5E91E, 0x97D2D988,
    0x09B64C2B, 0x7EB17CBD, 0xE7B82D07, 0x90BF1D91, 0x1DB71064, 0x6AB020F2,
    0xF3B97148, 0x84BE41DE, 0x1ADAD47D, 0x6DDDE4EB, 0xF4D4B551, 0x83D385C7,
    0x136C9856, 0x646BA8C0, 0xFD62F97A, 0x8A65C9EC, 0x14015C4F, 0x63066CD9,
    0xFA0F3D63, 0x8D080DF5, 0x3B6E20C8, 0x4C69105E, 0xD56041E4, 0xA2677172,
    0x3C03E4D1, 0x4B04D447, 0xD20D85FD, 0xA50AB56B, 0x35B5A8FA, 0x42B2986C,
    0xDBBBC9D6, 0xACBCF940, 0x32D86CE3, 0x45DF5C75, 0xDCD60DCF, 0xABD13D59,
    0x26D930AC, 0x51DE003A, 0xC8D75180, 0xBFD06116, 0x21B4F4B5, 0x56B3C423,
    0xCFBA9599, 0xB8BDA50F, 0x2802B89E, 0x5F058808, 0xC60CD9B2, 0xB10BE924,
    0x2F6F7C87, 0x58684C11, 0xC1611DAB, 0xB6662D3D, 0x76DC4190, 0x01DB7106,
    0x98D220BC, 0xEFD5102A, 0x71B18589, 0x06B6B51F, 0x9FBFE4A5, 0xE8B8D433,
    0x7807C9A2, 0x0F00F934, 0x9609A88E, 0xE10E9818, 0x7F6A0DBB, 0x086D3D2D,
    0x91646C97, 0xE6635C01, 0x6B6B51F4, 0x1C6C6162, 0x856530D8, 0xF262004E,
    0x6C0695ED, 0x1B01A57B, 0x8208F4C1, 0xF50FC457, 0x65B0D9C6, 0x12B7E950,
    0x8BBEB8EA, 0xFCB9887C, 0x62DD1DDF, 0x15DA2D49, 0x8CD37CF3, 0xFBD44C65,
    0x4DB26158, 0x3AB551CE, 0xA3BC0074, 0xD4BB30E2, 0x4ADFA541, 0x3DD895D7,
    0xA4D1C46D, 0xD3D6F4FB, 0x4369E96A, 0x346ED9FC, 0xAD678846, 0xDA60B8D0,
    0x44042D73, 0x33031DE5, 0xAA0A4C5F, 0xDD0D7CC9, 0x5005713C, 0x270241AA,
    0xBE0B1010, 0xC90C2086, 0x5768B525, 0x206F85B3, 0xB966D409, 0xCE61E49F,
    0x5EDEF90E, 0x29D9C998, 0xB0D09822, 0xC7D7A8B4, 0x59B33D17, 0x2EB40D81,
    0xB7BD5C3B, 0xC0BA6CAD, 0xEDB88320, 0x9ABFB3B6, 0x03B6E20C, 0x74B1D29A,
    0xEAD54739, 0x9DD277AF, 0x04DB2615, 0x73DC1683, 0xE3630B12, 0x94643B84,
    0x0D6D6A3E, 0x7A6A5AA8, 0xE40ECF0B, 0x9309FF9D, 0x0A00AE27, 0x7D079EB1,
    0xF00F9344, 0x8708A3D2, 0x1E01F268, 0x6906C2FE, 0xF762575D, 0x806567CB,
    0x196C3671, 0x6E6B06E7, 0xFED41B76, 0x89D32BE0, 0x10DA7A5A, 0x67DD4ACC,
    0xF9B9DF6F, 0x8EBEEFF9, 0x17B7BE43, 0x60B08ED5, 0xD6D6A3E8, 0xA1D1937E,
    0x38D8C2C4, 0x4FDFF252, 0xD1BB67F1, 0xA6BC5767, 0x3FB506DD, 0x48B2364B,
    0xD80D2BDA, 0xAF0A1B4C, 0x36034AF6, 0x41047A60, 0xDF60EFC3, 0xA867DF55,
    0x316E8EEF, 0x4669BE79, 0xCB61B38C, 0xBC66831A, 0x256FD2A0, 0x5268E236,
    0xCC0C7795, 0xBB0B4703, 0x220216B9, 0x5505262F, 0xC5BA3BBE, 0xB2BD0B28,
    0x2BB45A92, 0x5CB36A04, 0xC2D7FFA7, 0xB5D0CF31, 0x2CD99E8B, 0x5BDEAE1D,
    0x9B64C2B0, 0xEC63F226, 0x756AA39C, 0x026D930A, 0x9C0906A9, 0xEB0E363F,
    0x72076785, 0x05005713, 0x95BF4A82, 0xE2B87A14, 0x7BB12BAE, 0x0CB61B38,
    0x92D28E9B, 0xE5D5BE0D, 0x7CDCEFB7, 0x0BDBDF21, 0x86D3D2D4, 0xF1D4E242,
    0x68DDB3F8, 0x1FDA836E, 0x81BE16CD, 0xF6B9265B, 0x6FB077E1, 0x18B74777,
    0x88085AE6, 0xFF0F6A70, 0x66063BCA, 0x11010B5C, 0x8F659EFF, 0xF862AE69,
    0x616BFFD3, 0x166CCF45, 0xA00AE278, 0xD70DD2EE, 0x4E048354, 0x3903B3C2,
    0xA7672661, 0xD06016F7, 0x4969474D, 0x3E6E77DB, 0xAED16A4A, 0xD9D65ADC,
    0x40DF0B66, 0x37D83BF0, 0xA9BCAE53, 0xDEBB9EC5, 0x47B2CF7F, 0x30B5FFE9,
    0xBDBDF21C, 0xCABAC28A, 0x53B39330, 0x24B4A3A6, 0xBAD03605, 0xCDD70693,
    0x54DE5729, 0x23D967BF, 0xB3667A2E, 0xC4614AB8, 0x5D681B02, 0x2A6F2B94,
    0xB40BBE37, 0xC30C8EA1, 0x5A05DF1B, 0x2D02EF8D]"

fun crc32_loop :: "u32 \<Rightarrow> u8 list \<Rightarrow> u32" where
  "crc32_loop crc [] = crc"
| "crc32_loop crc (p # ps) =
     crc32_loop (crc32_table ! unat ((crc XOR ucast p) AND 0xFF) XOR drop_bit 8 crc) ps"

text \<open>The argument is the list of the \<^verbatim>\<open>length\<close> bytes at \<^verbatim>\<open>data\<close>.\<close>

definition CRC32_Calculate :: "u8 list \<Rightarrow> u32" where
  "CRC32_Calculate data = crc32_loop 0xFFFFFFFF data XOR 0xFFFFFFFF"

section \<open>The bit-at-a-time CRC of the staging read-back\<close>

definition crc_bit :: "u32 \<Rightarrow> u32" where
  "crc_bit crc = drop_bit 1 crc XOR (0xEDB88320 AND - (crc AND 1))"

text \<open>One byte: \<^verbatim>\<open>crc_rb ^= b\<close> and the inner loop over the eight bits.\<close>

definition crc_byte :: "u32 \<Rightarrow> u8 \<Rightarrow> u32" where
  "crc_byte crc b = (crc_bit ^^ 8) (crc XOR ucast b)"

definition crc_bytes :: "u32 \<Rightarrow> u8 list \<Rightarrow> u32" where
  "crc_bytes crc bs = foldl crc_byte crc bs"

section \<open>Linearity and injectivity of the register update\<close>

lemma crc_bit_alt: "crc_bit c = drop_bit 1 c XOR (if bit c 0 then 0xEDB88320 else 0)"
proof -
  have "c AND 1 = of_bool (bit c 0)"
    by (simp add: and_one_eq bit_0 mod_2_eq_odd)
  then show ?thesis by (simp add: crc_bit_def and.right_neutral)
qed

lemma crc_bit_xor: "crc_bit (a XOR b) = crc_bit a XOR crc_bit b"
  by (auto simp: crc_bit_alt bit_simps ac_simps)

lemma crc_bit_0 [simp]: "crc_bit 0 = 0"
  by (simp add: crc_bit_alt)

lemma crc_bits_xor: "(crc_bit ^^ n) (a XOR b) = (crc_bit ^^ n) a XOR (crc_bit ^^ n) b"
  by (induction n) (simp_all add: crc_bit_xor)

lemma crc_bit_eq_0: "crc_bit c = 0 \<Longrightarrow> c = 0"
proof -
  assume eq: "crc_bit c = 0"
  have "bit (crc_bit c) 31 = bit c 0"
    using bit_imp_le_length [of c 32] by (auto simp: crc_bit_alt bit_simps)
  with eq have lsb: "\<not> bit c 0" by simp
  with eq have "drop_bit 1 c = 0" by (simp add: crc_bit_alt)
  moreover have "bit (drop_bit 1 c) n = bit c (Suc n)" for n
    by (simp add: bit_drop_bit_eq)
  ultimately have "\<not> bit c (Suc n)" for n
    by (metis bit_0_eq bot_apply bot_bool_def)
  with lsb have "\<not> bit c n" for n by (cases n) simp_all
  then show "c = 0" by (simp add: bit_eq_iff)
qed

lemma inj_crc_bit: "inj crc_bit"
proof (rule injI)
  fix a b assume "crc_bit a = crc_bit b"
  then have "crc_bit (a XOR b) = 0" by (simp add: crc_bit_xor)
  then have "a XOR b = 0" by (rule crc_bit_eq_0)
  then show "a = b" by (metis xor.right_neutral xor_self_eq bit.xor_left_self)
qed

lemma inj_crc_bits: "inj (crc_bit ^^ n)"
  by (rule inj_fn) (rule inj_crc_bit)

lemma crc_bit_push:
  assumes "\<And>k. 24 \<le> k \<Longrightarrow> \<not> bit v k" and "n < 8"
  shows "crc_bit (push_bit (Suc n) v) = push_bit n v"
proof -
  have "\<not> bit (push_bit (Suc n) v) 0"
    by (simp only: bit_push_bit_iff) simp
  then have "crc_bit (push_bit (Suc n) v) = drop_bit 1 (push_bit (Suc n) v)"
    by (simp add: crc_bit_alt)
  also have "\<dots> = push_bit n v"
  proof (rule bit_word_eqI)
    fix k assume "k < LENGTH(32)"
    moreover have no: "\<not> (24 \<le> k - n \<and> bit v (k - n))" using assms(1) by blast
    ultimately show "bit (drop_bit 1 (push_bit (Suc n) v)) k = bit (push_bit n v) k"
      using no assms(2)
      by (simp only: bit_drop_bit_eq comp_apply bit_push_bit_iff) auto
  qed
  finally show ?thesis .
qed

lemma crc_bits8:
  "(crc_bit ^^ 8) c = crc_bit (crc_bit (crc_bit (crc_bit (crc_bit (crc_bit (crc_bit (crc_bit c)))))))"
  by (simp add: eval_nat_numeral)

lemma crc_bits_push:
  assumes "\<And>k. 24 \<le> k \<Longrightarrow> \<not> bit v k"
  shows "(crc_bit ^^ 8) (push_bit 8 v) = v"
proof -
  have "(crc_bit ^^ n) (push_bit n v) = v" if "n \<le> 8" for n
    using that
  proof (induction n)
    case (Suc n)
    then show ?case
      using crc_bit_push [OF assms, of n] by (simp only: funpow_Suc_right comp_apply)
  qed simp
  then show ?thesis by simp
qed

section \<open>Both computations agree\<close>

lemma crc32_table_map: "crc32_table = map (crc_bit ^^ 8) [
     0, 1, 2, 3, 4, 5, 6, 7, 8, 9, 10, 11, 12, 13, 14, 15, 16, 17, 18, 19, 20, 21, 22, 23, 24,
      25, 26, 27, 28, 29, 30, 31, 32, 33, 34, 35, 36, 37, 38, 39, 40, 41, 42, 43, 44, 45, 46,
      47, 48, 49, 50, 51, 52, 53, 54, 55, 56, 57, 58, 59, 60, 61, 62, 63, 64, 65, 66, 67, 68,
      69, 70, 71, 72, 73, 74, 75, 76, 77, 78, 79, 80, 81, 82, 83, 84, 85, 86, 87, 88, 89, 90,
      91, 92, 93, 94, 95, 96, 97, 98, 99, 100, 101, 102, 103, 104, 105, 106, 107, 108, 109,
      110, 111, 112, 113, 114, 115, 116, 117, 118, 119, 120, 121, 122, 123, 124, 125, 126,
      127, 128, 129, 130, 131, 132, 133, 134, 135, 136, 137, 138, 139, 140, 141, 142, 143,
      144, 145, 146, 147, 148, 149, 150, 151, 152, 153, 154, 155, 156, 157, 158, 159, 160,
      161, 162, 163, 164, 165, 166, 167, 168, 169, 170, 171, 172, 173, 174, 175, 176, 177,
      178, 179, 180, 181, 182, 183, 184, 185, 186, 187, 188, 189, 190, 191, 192, 193, 194,
      195, 196, 197, 198, 199, 200, 201, 202, 203, 204, 205, 206, 207, 208, 209, 210, 211,
      212, 213, 214, 215, 216, 217, 218, 219, 220, 221, 222, 223, 224, 225, 226, 227, 228,
      229, 230, 231, 232, 233, 234, 235, 236, 237, 238, 239, 240, 241, 242, 243, 244, 245,
      246, 247, 248, 249, 250, 251, 252, 253, 254, 255]"
  by (simp add: crc_bits8 crc_bit_alt crc32_table_def)

lemma numerals_256: "map of_nat [0..<256] = ([
     0, 1, 2, 3, 4, 5, 6, 7, 8, 9, 10, 11, 12, 13, 14, 15, 16, 17, 18, 19, 20, 21, 22, 23, 24,
      25, 26, 27, 28, 29, 30, 31, 32, 33, 34, 35, 36, 37, 38, 39, 40, 41, 42, 43, 44, 45, 46,
      47, 48, 49, 50, 51, 52, 53, 54, 55, 56, 57, 58, 59, 60, 61, 62, 63, 64, 65, 66, 67, 68,
      69, 70, 71, 72, 73, 74, 75, 76, 77, 78, 79, 80, 81, 82, 83, 84, 85, 86, 87, 88, 89, 90,
      91, 92, 93, 94, 95, 96, 97, 98, 99, 100, 101, 102, 103, 104, 105, 106, 107, 108, 109,
      110, 111, 112, 113, 114, 115, 116, 117, 118, 119, 120, 121, 122, 123, 124, 125, 126,
      127, 128, 129, 130, 131, 132, 133, 134, 135, 136, 137, 138, 139, 140, 141, 142, 143,
      144, 145, 146, 147, 148, 149, 150, 151, 152, 153, 154, 155, 156, 157, 158, 159, 160,
      161, 162, 163, 164, 165, 166, 167, 168, 169, 170, 171, 172, 173, 174, 175, 176, 177,
      178, 179, 180, 181, 182, 183, 184, 185, 186, 187, 188, 189, 190, 191, 192, 193, 194,
      195, 196, 197, 198, 199, 200, 201, 202, 203, 204, 205, 206, 207, 208, 209, 210, 211,
      212, 213, 214, 215, 216, 217, 218, 219, 220, 221, 222, 223, 224, 225, 226, 227, 228,
      229, 230, 231, 232, 233, 234, 235, 236, 237, 238, 239, 240, 241, 242, 243, 244, 245,
      246, 247, 248, 249, 250, 251, 252, 253, 254, 255] :: u32 list)"
  by code_simp

lemma crc32_table_nth: "i < 256 \<Longrightarrow> crc32_table ! i = (crc_bit ^^ 8) (of_nat i)"
proof -
  assume i: "i < 256"
  have "crc32_table ! i = map (crc_bit ^^ 8) (map of_nat [0..<256]) ! i"
    by (simp only: crc32_table_map numerals_256)
  with i show ?thesis by (simp add: nth_append)
qed

text \<open>The register splits into its low byte, which the table handles, and the rest, which shifts.\<close>

lemma crc_bits8_split: "(crc_bit ^^ 8) c = (crc_bit ^^ 8) (c AND 0xFF) XOR drop_bit 8 c"
proof -
  have "c = (c AND 0xFF) XOR push_bit 8 (drop_bit 8 c)"
  proof (rule bit_word_eqI)
    fix n assume "n < LENGTH(32)"
    then have "n < 32" by simp
    moreover from this have "bit (0xFF :: u32) n \<longleftrightarrow> n < 8"
      using bit_mask_iff [where ?'a = u32, of 8 n] by (simp add: mask_eq_exp_minus_1)
    ultimately show "bit c n = bit ((c AND 0xFF) XOR push_bit 8 (drop_bit 8 c)) n"
      by (auto simp: bit_simps)
  qed
  then have "(crc_bit ^^ 8) c = (crc_bit ^^ 8) ((c AND 0xFF) XOR push_bit 8 (drop_bit 8 c))"
    by simp
  also have "\<dots> = (crc_bit ^^ 8) (c AND 0xFF) XOR (crc_bit ^^ 8) (push_bit 8 (drop_bit 8 c))"
    by (rule crc_bits_xor)
  also have "(crc_bit ^^ 8) (push_bit 8 (drop_bit 8 c)) = drop_bit 8 c"
    by (rule crc_bits_push) (auto simp: bit_drop_bit_eq dest: bit_imp_le_length)
  finally show ?thesis .
qed

lemma low_byte_bound: "unat ((c :: u32) AND 0xFF) < 256"
proof -
  have "unat (c AND 0xFF) \<le> unat (0xFF :: u32)"
    by (rule word_and_le1 [THEN word_le_nat_alt [THEN iffD1]])
  then show ?thesis by simp
qed

lemma crc_byte_table:
  "crc_byte c b = crc32_table ! unat ((c XOR ucast b) AND 0xFF) XOR drop_bit 8 c"
proof -
  have "drop_bit 8 (ucast b :: u32) = 0"
    by (rule bit_word_eqI) (auto simp: bit_simps dest: bit_imp_le_length)
  then have "drop_bit 8 (c XOR ucast b) = drop_bit 8 c"
    by (simp add: drop_bit_xor)
  moreover have "crc32_table ! unat ((c XOR ucast b) AND 0xFF) = (crc_bit ^^ 8) ((c XOR ucast b) AND 0xFF)"
    by (simp add: crc32_table_nth low_byte_bound)
  ultimately show ?thesis
    unfolding crc_byte_def by (subst crc_bits8_split) simp
qed

lemma crc32_loop_bytes: "crc32_loop c bs = crc_bytes c bs"
  by (induction c bs rule: crc32_loop.induct) (simp_all add: crc_bytes_def crc_byte_table)

lemma CRC32_Calculate_bytes: "CRC32_Calculate bs = crc_bytes 0xFFFFFFFF bs XOR 0xFFFFFFFF"
  by (simp add: CRC32_Calculate_def crc32_loop_bytes)

lemma crc_bytes_Nil [simp]: "crc_bytes c [] = c"
  and crc_bytes_Cons [simp]: "crc_bytes c (b # bs) = crc_bytes (crc_byte c b) bs"
  and crc_bytes_append: "crc_bytes c (xs @ ys) = crc_bytes (crc_bytes c xs) ys"
  by (simp_all add: crc_bytes_def)

lemma xor_cancel_right: "(a :: u32) XOR c = b XOR c \<longleftrightarrow> a = b"
  by (metis xor.assoc xor.right_neutral xor_self_eq)

lemma xor_cancel_left: "(c :: u32) XOR a = c XOR b \<longleftrightarrow> a = b"
  by (simp add: xor.commute [of c] xor_cancel_right)

section \<open>Burst errors\<close>

text \<open>The value of at most four bytes as a little-endian number.\<close>

primrec le_num :: "u8 list \<Rightarrow> u32" where
  "le_num [] = 0"
| "le_num (b # bs) = ucast b XOR push_bit 8 (le_num bs)"

lemma le_num_bits: "8 * length bs \<le> k \<Longrightarrow> \<not> bit (le_num bs) k"
proof (induction bs arbitrary: k)
  case (Cons b bs)
  then have "\<not> bit (le_num bs) (k - 8)" by simp
  with Cons.prems show ?case by (auto simp: bit_simps dest: bit_imp_le_length)
qed simp

lemma le_num_inj: "length xs = length ys \<Longrightarrow> length xs \<le> 4 \<Longrightarrow> le_num xs = le_num ys \<Longrightarrow> xs = ys"
proof (induction xs ys rule: list_induct2)
  case (Cons x xs y ys)
  have bits: "bit (le_num (z # zs)) k = (if k < 8 then bit z k else k < 32 \<and> bit (le_num zs) (k - 8))" for z zs k
    by (auto simp: bit_simps dest: bit_imp_le_length)
  have "bit x k = bit y k" if "k < 8" for k
    using bits [of x xs k] bits [of y ys k] Cons.prems(2) that by simp
  then have "x = y" by (simp add: u8_eq_iff)
  moreover have "le_num xs = le_num ys"
  proof (rule bit_word_eqI)
    fix k
    show "bit (le_num xs) k = bit (le_num ys) k"
    proof (cases "k < 24")
      case True
      then show ?thesis
        using bits [of x xs "k + 8"] bits [of y ys "k + 8"] Cons.prems(2) by simp
    next
      case False
      with Cons.prems(1) Cons.hyps show ?thesis by (simp add: le_num_bits)
    qed
  qed
  ultimately show ?case using Cons by simp
qed simp

lemma crc_bytes_le_num:
  "length bs \<le> 4 \<Longrightarrow> crc_bytes c bs = (crc_bit ^^ (8 * length bs)) (c XOR le_num bs)"
proof (induction bs arbitrary: c)
  case (Cons b bs)
  have push: "(crc_bit ^^ 8) (push_bit 8 (le_num bs)) = le_num bs"
    using Cons.prems by (intro crc_bits_push) (simp add: le_num_bits)
  have "crc_bytes c (b # bs) = (crc_bit ^^ (8 * length bs)) (crc_byte c b XOR le_num bs)"
    using Cons by simp
  also have "crc_byte c b XOR le_num bs = (crc_bit ^^ 8) ((c XOR ucast b) XOR push_bit 8 (le_num bs))"
    by (simp add: crc_byte_def crc_bits_xor push)
  also have "(crc_bit ^^ (8 * length bs)) \<dots> = (crc_bit ^^ (8 * length (b # bs))) (c XOR le_num (b # bs))"
    by (simp add: funpow_add add.commute [of 8] xor.assoc)
  finally show ?case .
qed simp

lemma crc_byte_inj: "crc_byte c b = crc_byte c' b \<Longrightarrow> c = c'"
  using inj_crc_bits [of 8, THEN injD, of "c XOR ucast b" "c' XOR ucast b"]
  by (simp add: crc_byte_def xor_cancel_right)

lemma crc_bytes_inj: "crc_bytes c bs = crc_bytes c' bs \<Longrightarrow> c = c'"
  by (induction bs arbitrary: c c') (auto dest: crc_byte_inj)

lemma crc_burst:
  assumes "length x = length y" and "length x \<le> 4" and "x \<noteq> y"
  shows "CRC32_Calculate (p @ x @ s) \<noteq> CRC32_Calculate (p @ y @ s)"
proof
  let ?c = "crc_bytes 0xFFFFFFFF p"
  assume "CRC32_Calculate (p @ x @ s) = CRC32_Calculate (p @ y @ s)"
  then have "crc_bytes (crc_bytes ?c x) s = crc_bytes (crc_bytes ?c y) s"
    by (simp add: CRC32_Calculate_bytes crc_bytes_append xor_cancel_right)
  then have "crc_bytes ?c x = crc_bytes ?c y" by (rule crc_bytes_inj)
  with assms have "?c XOR le_num x = ?c XOR le_num y"
    by (simp add: crc_bytes_le_num inj_crc_bits [THEN inj_eq])
  then have "le_num x = le_num y" by (simp add: xor_cancel_left)
  with assms show False using le_num_inj by blast
qed

end
