(* ===== verification/Qspi_Flash.thy ===== *)
theory Qspi_Flash
  imports Hal
begin

text \<open>
  \<^verbatim>\<open>src/STM32/Bootloader/User/flash/bsp_qspi_flash.c\<close>: the driver of the W25Q256JV NOR flash. One
  definition per function of the file, in the state monad over the device state, with the HAL
  record \<open>H\<close> as an argument. The results \<^verbatim>\<open>QSPI_OK\<close> and \<^verbatim>\<open>QSPI_ERROR\<close> are the \<^verbatim>\<open>uint8_t\<close> values of
  the header.
\<close>

section \<open>Constants\<close>

definition QSPI_FLASH_SIZE :: nat where "QSPI_FLASH_SIZE = 0x2000000"
definition QSPI_PAGE_SIZE :: nat where "QSPI_PAGE_SIZE = 256"
definition QSPI_BLOCK_64K_SIZE :: nat where "QSPI_BLOCK_64K_SIZE = 65536"

abbreviation QSPI_OK :: u8 where "QSPI_OK \<equiv> 0"
abbreviation QSPI_ERROR :: u8 where "QSPI_ERROR \<equiv> 1"

definition W25Q_CMD_WRITE_ENABLE :: u8 where "W25Q_CMD_WRITE_ENABLE = 0x06"
definition W25Q_CMD_READ_STATUS_REG1 :: u8 where "W25Q_CMD_READ_STATUS_REG1 = 0x05"
definition W25Q_CMD_READ_DATA_4B :: u8 where "W25Q_CMD_READ_DATA_4B = 0x13"
definition W25Q_CMD_QUAD_READ_4B :: u8 where "W25Q_CMD_QUAD_READ_4B = 0xEC"
definition W25Q_CMD_PAGE_PROGRAM_4B :: u8 where "W25Q_CMD_PAGE_PROGRAM_4B = 0x12"
definition W25Q_CMD_SECTOR_ERASE_4KB_4B :: u8 where "W25Q_CMD_SECTOR_ERASE_4KB_4B = 0x21"
definition W25Q_CMD_BLOCK_ERASE_64KB_4B :: u8 where "W25Q_CMD_BLOCK_ERASE_64KB_4B = 0xDC"
definition W25Q_CMD_CHIP_ERASE :: u8 where "W25Q_CMD_CHIP_ERASE = 0xC7"
definition W25Q_CMD_RESET_ENABLE :: u8 where "W25Q_CMD_RESET_ENABLE = 0x66"
definition W25Q_CMD_RESET_MEMORY :: u8 where "W25Q_CMD_RESET_MEMORY = 0x99"
definition W25Q_CMD_READ_JEDEC_ID :: u8 where "W25Q_CMD_READ_JEDEC_ID = 0x9F"
definition W25Q_CMD_ENTER_4B_ADDR :: u8 where "W25Q_CMD_ENTER_4B_ADDR = 0xB7"
definition W25Q_SR1_WIP :: u16 where "W25Q_SR1_WIP = 0x01"
definition W25Q_SR1_WEL :: u16 where "W25Q_SR1_WEL = 0x02"

lemmas w25q_defs = W25Q_CMD_WRITE_ENABLE_def W25Q_CMD_READ_STATUS_REG1_def
  W25Q_CMD_READ_DATA_4B_def W25Q_CMD_QUAD_READ_4B_def W25Q_CMD_PAGE_PROGRAM_4B_def
  W25Q_CMD_SECTOR_ERASE_4KB_4B_def W25Q_CMD_BLOCK_ERASE_64KB_4B_def W25Q_CMD_CHIP_ERASE_def
  W25Q_CMD_RESET_ENABLE_def W25Q_CMD_RESET_MEMORY_def W25Q_CMD_READ_JEDEC_ID_def
  W25Q_CMD_ENTER_4B_ADDR_def W25Q_SR1_WIP_def W25Q_SR1_WEL_def

text \<open>\<^verbatim>\<open>QSPI_CommandTypeDef s_command = {0}\<close>, and the fields that every command of the driver sets.\<close>

definition s_command_0 :: QSPI_CommandTypeDef where
  "s_command_0 = \<lparr>Instruction = 0, Address = 0, AddressSize = QSPI_ADDRESS_8_BITS, DummyCycles = 0,
     InstructionMode = QSPI_LINES_NONE, AddressMode = QSPI_LINES_NONE,
     AlternateByteMode = QSPI_LINES_NONE, DataMode = QSPI_LINES_NONE, NbData = 0,
     DdrMode = QSPI_DDR_MODE_DISABLE, DdrHoldHalfCycle = QSPI_DDR_HHC_ANALOG_DELAY,
     SIOOMode = QSPI_SIOO_INST_EVERY_CMD\<rparr>"

definition cmd_no_address :: "u8 \<Rightarrow> QSPI_Lines \<Rightarrow> nat \<Rightarrow> QSPI_CommandTypeDef" where
  "cmd_no_address instr dmode n = s_command_0\<lparr>InstructionMode := QSPI_1_LINE, Instruction := instr,
     AddressMode := QSPI_LINES_NONE, AlternateByteMode := QSPI_LINES_NONE, DataMode := dmode,
     DummyCycles := 0, NbData := n, DdrMode := QSPI_DDR_MODE_DISABLE,
     DdrHoldHalfCycle := QSPI_DDR_HHC_ANALOG_DELAY, SIOOMode := QSPI_SIOO_INST_EVERY_CMD\<rparr>"

definition cmd_address :: "u8 \<Rightarrow> nat \<Rightarrow> QSPI_Lines \<Rightarrow> nat \<Rightarrow> QSPI_CommandTypeDef" where
  "cmd_address instr a dmode n = s_command_0\<lparr>InstructionMode := QSPI_1_LINE, Instruction := instr,
     AddressMode := QSPI_1_LINE, AddressSize := QSPI_ADDRESS_32_BITS, Address := a,
     AlternateByteMode := QSPI_LINES_NONE, DataMode := dmode, DummyCycles := 0, NbData := n,
     DdrMode := QSPI_DDR_MODE_DISABLE, DdrHoldHalfCycle := QSPI_DDR_HHC_ANALOG_DELAY,
     SIOOMode := QSPI_SIOO_INST_EVERY_CMD\<rparr>"

definition poll_config :: "u16 \<Rightarrow> u16 \<Rightarrow> QSPI_AutoPollingTypeDef" where
  "poll_config m k = \<lparr>Match = m, Mask = k, Interval = 0x10, StatusBytesSize = 2,
     MatchMode = QSPI_MATCH_MODE_AND, AutomaticStop = True\<rparr>"

section \<open>Private functions\<close>

definition QSPI_WriteEnable :: "'d hal \<Rightarrow> ('d, u8) state" where
  "QSPI_WriteEnable H = do {
     r \<leftarrow> HAL_QSPI_Command H (cmd_no_address W25Q_CMD_WRITE_ENABLE QSPI_LINES_NONE 0);
     if r \<noteq> HAL_OK then return QSPI_ERROR
     else do {
       r \<leftarrow> HAL_QSPI_AutoPolling H (cmd_no_address W25Q_CMD_READ_STATUS_REG1 QSPI_1_LINE 0)
              (poll_config W25Q_SR1_WEL W25Q_SR1_WEL);
       if r \<noteq> HAL_OK then return QSPI_ERROR else return QSPI_OK
     }
   }"

definition QSPI_AutoPollingMemReady :: "'d hal \<Rightarrow> ('d, u8) state" where
  "QSPI_AutoPollingMemReady H = do {
     r \<leftarrow> HAL_QSPI_AutoPolling H (cmd_no_address W25Q_CMD_READ_STATUS_REG1 QSPI_1_LINE 0)
            (poll_config 0 W25Q_SR1_WIP);
     if r \<noteq> HAL_OK then return QSPI_ERROR else return QSPI_OK
   }"

definition QSPI_EnterFourBytesAddress :: "'d hal \<Rightarrow> ('d, u8) state" where
  "QSPI_EnterFourBytesAddress H = do {
     r \<leftarrow> HAL_QSPI_Command H (cmd_no_address W25Q_CMD_ENTER_4B_ADDR QSPI_LINES_NONE 0);
     if r \<noteq> HAL_OK then return QSPI_ERROR else return QSPI_OK
   }"

section \<open>Initialisation, read and write\<close>

definition qspi_init_params :: QSPI_InitTypeDef where
  "qspi_init_params = \<lparr>ClockPrescaler = 7, FifoThreshold = 1,
     SampleShifting = QSPI_SAMPLE_SHIFTING_HALFCYCLE, FlashSize = 24, ChipSelectHighTime = 4,
     ClockMode = 0, FlashID = 1, DualFlash = False\<rparr>"

text \<open>The pin block: CLK (PB2), D0/D1 (PF8, PF9), D2/D3 (PF6, PF7), NCS (PG6); pins are bit masks.\<close>

definition qspi_gpio_init :: "'d hal \<Rightarrow> ('d, unit) state" where
  "qspi_gpio_init H = do {
     HAL_RCC_CLK_ENABLE H ''GPIOB'';
     HAL_RCC_CLK_ENABLE H ''GPIOF'';
     HAL_RCC_CLK_ENABLE H ''GPIOG'';
     let g = \<lparr>Pin = 2 ^ 2, Mode = GPIO_MODE_AF_PP, Pull = GPIO_NOPULL,
              Speed = GPIO_SPEED_FREQ_VERY_HIGH, Alternate = 9\<rparr>;
     HAL_GPIO_Init H GPIOB g;
     let g = g\<lparr>Pin := 2 ^ 8 OR 2 ^ 9, Alternate := 10\<rparr>;
     HAL_GPIO_Init H GPIOF g;
     let g = g\<lparr>Pin := 2 ^ 6 OR 2 ^ 7, Alternate := 9\<rparr>;
     HAL_GPIO_Init H GPIOF g;
     let g = g\<lparr>Pin := 2 ^ 6, Pull := GPIO_PULLUP, Alternate := 10\<rparr>;
     HAL_GPIO_Init H GPIOG g
   }"

definition BSP_QSPI_Init :: "'d hal \<Rightarrow> ('d, u8) state" where
  "BSP_QSPI_Init H = do {
     r \<leftarrow> HAL_QSPI_DeInit H;
     if r \<noteq> HAL_OK then return QSPI_ERROR
     else do {
       HAL_RCC_CLK_ENABLE H ''QSPI'';
       r \<leftarrow> HAL_QSPI_Init H qspi_init_params;
       if r \<noteq> HAL_OK then return QSPI_ERROR
       else do {
         qspi_gpio_init H;
         r \<leftarrow> HAL_QSPI_Command H (cmd_no_address W25Q_CMD_RESET_ENABLE QSPI_LINES_NONE 0);
         if r \<noteq> HAL_OK then return QSPI_ERROR
         else do {
           r \<leftarrow> HAL_QSPI_Command H (cmd_no_address W25Q_CMD_RESET_MEMORY QSPI_LINES_NONE 0);
           if r \<noteq> HAL_OK then return QSPI_ERROR
           else do {
             r \<leftarrow> QSPI_AutoPollingMemReady H;
             if r \<noteq> QSPI_OK then return QSPI_ERROR
             else do {
               r \<leftarrow> QSPI_EnterFourBytesAddress H;
               if r \<noteq> QSPI_OK then return QSPI_ERROR else return QSPI_OK
             }
           }
         }
       }
     }
   }"

text \<open>The second component is what the function stored at \<^verbatim>\<open>pData\<close> (nothing before the receive).\<close>

definition BSP_QSPI_Read :: "'d hal \<Rightarrow> nat \<Rightarrow> nat \<Rightarrow> ('d, u8 \<times> u8 list) state" where
  "BSP_QSPI_Read H ReadAddr Size = do {
     r \<leftarrow> HAL_QSPI_Command H (cmd_address W25Q_CMD_READ_DATA_4B ReadAddr QSPI_1_LINE Size);
     if r \<noteq> HAL_OK then return (QSPI_ERROR, [])
     else do {
       (r, bs) \<leftarrow> HAL_QSPI_Receive H;
       if r \<noteq> HAL_OK then return (QSPI_ERROR, bs) else return (QSPI_OK, bs)
     }
   }"

text \<open>
  The loop of \<^verbatim>\<open>BSP_QSPI_Write\<close>: \<open>pData\<close> is the buffer from \<^verbatim>\<open>pData + offset\<close> on, so advancing
  \<^verbatim>\<open>offset\<close> drops the bytes written.
\<close>

function qspi_write_loop :: "'d hal \<Rightarrow> u8 list \<Rightarrow> nat \<Rightarrow> nat \<Rightarrow> ('d, u8) state" where
  "qspi_write_loop H pData WriteAddr remaining =
     (if remaining = 0 then return QSPI_OK
      else let page_avail = QSPI_PAGE_SIZE - WriteAddr mod QSPI_PAGE_SIZE;
               chunk = (if remaining < page_avail then remaining else page_avail)
      in do {
        r \<leftarrow> QSPI_WriteEnable H;
        if r \<noteq> QSPI_OK then return QSPI_ERROR
        else do {
          r \<leftarrow> HAL_QSPI_Command H (cmd_address W25Q_CMD_PAGE_PROGRAM_4B WriteAddr QSPI_1_LINE chunk);
          if r \<noteq> HAL_OK then return QSPI_ERROR
          else do {
            r \<leftarrow> HAL_QSPI_Transmit H pData;
            if r \<noteq> HAL_OK then return QSPI_ERROR
            else do {
              r \<leftarrow> QSPI_AutoPollingMemReady H;
              if r \<noteq> QSPI_OK then return QSPI_ERROR
              else qspi_write_loop H (drop chunk pData) (wrap32 (WriteAddr + chunk)) (remaining - chunk)
            }
          }
        }
      })"
  by pat_completeness auto
termination
  by (relation "measure (\<lambda>(H, pData, a, n). n)") (auto simp: QSPI_PAGE_SIZE_def)

definition BSP_QSPI_Write :: "'d hal \<Rightarrow> u8 list \<Rightarrow> nat \<Rightarrow> nat \<Rightarrow> ('d, u8) state" where
  "BSP_QSPI_Write H pData WriteAddr Size = qspi_write_loop H pData WriteAddr Size"

section \<open>Erasing\<close>

definition BSP_QSPI_Erase_Sector :: "'d hal \<Rightarrow> nat \<Rightarrow> ('d, u8) state" where
  "BSP_QSPI_Erase_Sector H SectorAddress = do {
     r \<leftarrow> QSPI_WriteEnable H;
     if r \<noteq> QSPI_OK then return QSPI_ERROR
     else do {
       r \<leftarrow> HAL_QSPI_Command H (cmd_address W25Q_CMD_SECTOR_ERASE_4KB_4B SectorAddress QSPI_LINES_NONE 0);
       if r \<noteq> HAL_OK then return QSPI_ERROR
       else do {
         r \<leftarrow> QSPI_AutoPollingMemReady H;
         if r \<noteq> QSPI_OK then return QSPI_ERROR else return QSPI_OK
       }
     }
   }"

text \<open>One pass of the retry loop: 1 is the \<^verbatim>\<open>return QSPI_OK\<close>, 0 the fall through to \<^verbatim>\<open>retry\<close>.\<close>

definition erase_block_attempt :: "'d hal \<Rightarrow> nat \<Rightarrow> ('d, bool) state" where
  "erase_block_attempt H BlockAddress = do {
     r \<leftarrow> QSPI_WriteEnable H;
     if r \<noteq> QSPI_OK then return False
     else do {
       r \<leftarrow> HAL_QSPI_Command H (cmd_address W25Q_CMD_BLOCK_ERASE_64KB_4B BlockAddress QSPI_LINES_NONE 0);
       if r \<noteq> HAL_OK then return False
       else do {
         r \<leftarrow> QSPI_AutoPollingMemReady H;
         if r \<noteq> QSPI_OK then return False else return True
       }
     }
   }"

fun erase_block_loop :: "'d hal \<Rightarrow> nat \<Rightarrow> nat \<Rightarrow> ('d, u8) state" where
  "erase_block_loop H BlockAddress 0 = return QSPI_ERROR"
| "erase_block_loop H BlockAddress (Suc attempts) = do {
     ok \<leftarrow> erase_block_attempt H BlockAddress;
     if ok then return QSPI_OK
     else do {
       HAL_QSPI_Abort H;
       HAL_QSPI_CLEAR_FLAG H;
       HAL_Delay H 10;
       erase_block_loop H BlockAddress attempts
     }
   }"

definition BSP_QSPI_Erase_Block64K :: "'d hal \<Rightarrow> nat \<Rightarrow> ('d, u8) state" where
  "BSP_QSPI_Erase_Block64K H BlockAddress = erase_block_loop H BlockAddress 3"

text \<open>
  \<^verbatim>\<open>QSPI_Erase_Blocks\<close> steps a \<^verbatim>\<open>uint32_t\<close> address by 64 KB while it is below \<^verbatim>\<open>start + size\<close>. After
  65536 steps the address is back where it started, so a loop that has not ended by then does not
  end: that is the value \<open>None\<close>. \<open>erase_block_failed\<close> is the body's erase with its one retry.
\<close>

definition erase_block_failed :: "'d hal \<Rightarrow> nat \<Rightarrow> ('d, bool) state" where
  "erase_block_failed H addr = do {
     r \<leftarrow> BSP_QSPI_Erase_Block64K H addr;
     if r \<noteq> QSPI_OK then do {
       BSP_QSPI_Init H;
       r \<leftarrow> BSP_QSPI_Erase_Block64K H addr;
       return (r \<noteq> QSPI_OK)
     } else return False
   }"

fun erase_blocks_loop :: "'d hal \<Rightarrow> nat \<Rightarrow> nat \<Rightarrow> nat \<Rightarrow> nat \<Rightarrow> ('d, int option) state" where
  "erase_blocks_loop H 0 addr lim cnt = return (if addr < lim then None else Some 0)"
| "erase_blocks_loop H (Suc fuel) addr lim cnt =
     (if addr < lim then do {
        fail \<leftarrow> erase_block_failed H addr;
        if fail then return (Some 1)
        else do {
          (if (cnt + 1) mod 8 = 0 then do { BSP_QSPI_Init H; return () } else return ());
          erase_blocks_loop H fuel (wrap32 (addr + QSPI_BLOCK_64K_SIZE)) lim (wrap32 (cnt + 1))
        }
      } else return (Some 0))"

definition QSPI_Erase_Blocks :: "'d hal \<Rightarrow> nat \<Rightarrow> nat \<Rightarrow> ('d, int option) state" where
  "QSPI_Erase_Blocks H start sz = erase_blocks_loop H 65536 start (wrap32 (start + sz)) 0"

definition BSP_QSPI_Erase_Chip :: "'d hal \<Rightarrow> ('d, u8) state" where
  "BSP_QSPI_Erase_Chip H = do {
     r \<leftarrow> QSPI_WriteEnable H;
     if r \<noteq> QSPI_OK then return QSPI_ERROR
     else do {
       r \<leftarrow> HAL_QSPI_Command H (cmd_no_address W25Q_CMD_CHIP_ERASE QSPI_LINES_NONE 0);
       if r \<noteq> HAL_OK then return QSPI_ERROR
       else do {
         r \<leftarrow> QSPI_AutoPollingMemReady H;
         if r \<noteq> QSPI_OK then return QSPI_ERROR else return QSPI_OK
       }
     }
   }"

section \<open>Identification and memory-mapped mode\<close>

definition BSP_QSPI_ReadJedecID :: "'d hal \<Rightarrow> ('d, u32) state" where
  "BSP_QSPI_ReadJedecID H = do {
     r \<leftarrow> HAL_QSPI_Command H (cmd_no_address W25Q_CMD_READ_JEDEC_ID QSPI_1_LINE 3);
     if r \<noteq> HAL_OK then return 0
     else do {
       (r, data) \<leftarrow> HAL_QSPI_Receive H;
       if r \<noteq> HAL_OK then return 0
       else return (push_bit 16 (ucast (data ! 0)) OR push_bit 8 (ucast (data ! 1)) OR ucast (data ! 2))
     }
   }"

definition BSP_QSPI_EnterMemoryMapped :: "'d hal \<Rightarrow> ('d, u8) state" where
  "BSP_QSPI_EnterMemoryMapped H = do {
     r \<leftarrow> HAL_QSPI_MemoryMapped H
            (s_command_0\<lparr>InstructionMode := QSPI_1_LINE, Instruction := W25Q_CMD_QUAD_READ_4B,
               AddressMode := QSPI_4_LINES, AddressSize := QSPI_ADDRESS_32_BITS,
               AlternateByteMode := QSPI_LINES_NONE, DataMode := QSPI_4_LINES, DummyCycles := 6,
               DdrMode := QSPI_DDR_MODE_DISABLE, DdrHoldHalfCycle := QSPI_DDR_HHC_ANALOG_DELAY,
               SIOOMode := QSPI_SIOO_INST_EVERY_CMD\<rparr>)
            \<lparr>TimeOutPeriod = 0, TimeOutActivation = False\<rparr>;
     if r \<noteq> HAL_OK then return QSPI_ERROR else return QSPI_OK
   }"

definition BSP_QSPI_ExitMemoryMapped :: "'d hal \<Rightarrow> ('d, u8) state" where
  "BSP_QSPI_ExitMemoryMapped H = do {
     r \<leftarrow> HAL_QSPI_Abort H;
     if r \<noteq> HAL_OK then return QSPI_ERROR else return QSPI_OK
   }"

end
