(* ===== verification/Nor_Store.thy ===== *)
theory Nor_Store
  imports Hal
begin

text \<open>
  The contract between the NOR flash driver and its clients (the OTA writer, the backup and the
  rollback). \<open>keep R d0 d\<close> says that between \<open>d0\<close> and \<open>d\<close>, and for as long as an operation that is
  still under way may go on, cells change only as \<open>R\<close> allows and nothing else of the machine
  changes. The lemmas of the locale are what the clients need: a write that follows an attempt
  that broke off, and reading back what was written.
\<close>

locale nor_store =
  fixes mem :: "'d \<Rightarrow> nat \<Rightarrow> u8" and idle :: "'d \<Rightarrow> bool"
    and keep :: "(nat \<Rightarrow> u8 \<Rightarrow> u8 \<Rightarrow> bool) \<Rightarrow> 'd \<Rightarrow> 'd \<Rightarrow> bool"
    and others :: "'d \<Rightarrow> 'x"
    and do_init :: "('d, u8) state" and do_read :: "nat \<Rightarrow> nat \<Rightarrow> ('d, u8 \<times> u8 list) state"
    and do_write :: "u8 list \<Rightarrow> nat \<Rightarrow> nat \<Rightarrow> ('d, u8) state"
    and do_erase :: "nat \<Rightarrow> nat \<Rightarrow> ('d, int option) state"
  assumes keep_refl: "cell_rel R \<Longrightarrow> idle d \<Longrightarrow> keep R d d"
    and keep_trans: "cell_rel R \<Longrightarrow> keep R d0 d \<Longrightarrow> keep R d d' \<Longrightarrow> keep R d0 d'"
    and keep_mono: "keep R d0 d \<Longrightarrow> (\<And>x a b. R x a b \<Longrightarrow> R' x a b) \<Longrightarrow> keep R' d0 d"
    and keep_cell: "keep R d0 d \<Longrightarrow> R x (mem d0 x) (mem d x)"
    and keep_others: "keep R d0 d \<Longrightarrow> others d = others d0"
    and init_keep: "cell_rel R \<Longrightarrow> pres (keep R d0) do_init"
    and read_keep: "cell_rel R \<Longrightarrow> pres (keep R d0) (do_read a n)"
    and write_keep: "a + n \<le> NOR_SIZE \<Longrightarrow> n \<le> length p \<Longrightarrow>
      pres (keep (prog_rel a (take n p)) d0) (do_write p a n)"
    and erase_keep: "a mod 65536 = 0 \<Longrightarrow> n mod 65536 = 0 \<Longrightarrow> a + n \<le> NOR_SIZE \<Longrightarrow> idle d \<Longrightarrow>
      wp (do_erase a n) (\<lambda>_ d'. keep (erase_rel a n) d d') d"
    and init_idle: "wp do_init (\<lambda>r d'. r = 0 \<longrightarrow> idle d') d"
    and init_same: "idle d \<Longrightarrow> wp do_init (\<lambda>r d'. idle d' \<and> mem d' = mem d) d"
    and read_ok: "idle d \<Longrightarrow> a + n \<le> NOR_SIZE \<Longrightarrow>
      wp (do_read a n) (\<lambda>(r, bs) d'. idle d' \<and> mem d' = mem d \<and> (r = 0 \<longrightarrow> bs = mem_slice (mem d) a n)) d"
    and write_ok: "idle d \<Longrightarrow> a + n \<le> NOR_SIZE \<Longrightarrow> n \<le> length p \<Longrightarrow>
      wp (do_write p a n) (\<lambda>r d'. r = 0 \<longrightarrow> idle d' \<and> mem d' = prog_mem a (take n p) (mem d)) d"
    and erase_ok: "a mod 65536 = 0 \<Longrightarrow> n mod 65536 = 0 \<Longrightarrow> a + n \<le> NOR_SIZE \<Longrightarrow> idle d \<Longrightarrow>
      wp (do_erase a n) (\<lambda>r d'. r \<noteq> None \<and> (r = Some 0 \<longrightarrow> idle d' \<and> mem_slice (mem d') a n = replicate n 0xFF)) d"
begin

lemma keep_erase_mono:
  "keep (erase_rel lo n) d d' \<Longrightarrow> lo' \<le> lo \<Longrightarrow> lo + n \<le> lo' + n' \<Longrightarrow> keep (erase_rel lo' n') d d'"
  using keep_mono erase_rel_mono by metis

lemma keep_prog_erase:
  "keep (prog_rel a bs) d d' \<Longrightarrow> lo \<le> a \<Longrightarrow> a + length bs \<le> lo + n \<Longrightarrow> keep (erase_rel lo n) d d'"
  by (erule keep_mono) (auto simp: prog_rel_def erase_rel_def split: if_splits)

text \<open>A broken-off write of the same data does not spoil a later one.\<close>

lemma prog_after_partial:
  assumes "keep (prog_rel a bs) d0 d" shows "prog_mem a bs (mem d) = prog_mem a bs (mem d0)"
proof (rule ext)
  fix x show "prog_mem a bs (mem d) x = prog_mem a bs (mem d0) x"
    using keep_cell [OF assms, of x] by (auto simp: prog_mem_def prog_rel_def between_and split: if_splits)
qed

lemma write_again:
  assumes "keep (prog_rel a (take n p)) d0 d" "idle d" "a + n \<le> NOR_SIZE" "n \<le> length p"
  shows "wp (do_write p a n) (\<lambda>r d'. keep (prog_rel a (take n p)) d0 d' \<and>
     (r = 0 \<longrightarrow> idle d' \<and> mem d' = prog_mem a (take n p) (mem d0))) d"
  using wp_conj [OF presD [OF write_keep [OF assms(3,4)] assms(1)] write_ok [OF assms(2-4)]]
  by (rule wp_mono) (simp add: prog_after_partial [OF assms(1)])

lemma init_again:
  assumes "cell_rel R" "keep R d0 d"
  shows "wp do_init (\<lambda>r d'. keep R d0 d' \<and> (r = 0 \<longrightarrow> idle d')) d"
  using wp_conj [OF presD [OF init_keep [OF assms(1)] assms(2)] init_idle] .

end

text \<open>Programming an erased region stores the data.\<close>

lemma prog_mem_erased:
  "mem_slice m a (length bs) = replicate (length bs) 0xFF \<Longrightarrow> mem_slice (prog_mem a bs m) a (length bs) = bs"
proof (rule mem_slice_eq_listI)
  fix x assume ff: "mem_slice m a (length bs) = replicate (length bs) 0xFF" and x: "a \<le> x" "x < a + length bs"
  moreover from x have "x - a < length bs" by linarith
  ultimately have "m x = 0xFF"
    by (metis nth_mem_slice nth_replicate le_add_diff_inverse)
  then show "prog_mem a bs m x = bs ! (x - a)" using x by (simp add: prog_mem_def)
qed simp

lemma prog_mem_outside: "x < a \<or> a + length bs \<le> x \<Longrightarrow> prog_mem a bs m x = m x"
  by (auto simp: prog_mem_def)

end
