(* ===== verification/Qspi_Correct.thy ===== *)
theory Qspi_Correct
  imports Qspi_Flash Nor_Store
begin

text \<open>
  Correctness of the NOR flash driver under the hardware contract \<open>hal_laws\<close>, with any pattern of
  failing HAL calls: what each operation guarantees when it reports success, and which cells it may
  have changed when it does not. The contract that the rest of the bootloader uses is the locale
  \<open>nor_store\<close>, which the driver satisfies.
\<close>

declare qspi_write_loop.simps [simp del]

lemma cmd_fields [simp]:
  "Instruction (cmd_address i a l n) = i" "Address (cmd_address i a l n) = a"
  "NbData (cmd_address i a l n) = n" "DataMode (cmd_address i a l n) = l"
  "Instruction (cmd_no_address i l n) = i" "DataMode (cmd_no_address i l n) = l"
  "NbData (cmd_no_address i l n) = n"
  by (simp_all add: cmd_address_def cmd_no_address_def s_command_0_def)

lemma nor_data_op_program [simp]:
  "nor_data_op (Some (cmd_address W25Q_CMD_PAGE_PROGRAM_4B a l n)) bs = NOR_Program a (take n bs)"
  by (simp add: nor_data_op_def W25Q_CMD_PAGE_PROGRAM_4B_def)

lemma nor_cmd_op_cmd [simp]:
  "nor_cmd_op (cmd_no_address W25Q_CMD_WRITE_ENABLE l n) = NOR_Idle"
  "nor_cmd_op (cmd_no_address W25Q_CMD_ENTER_4B_ADDR l n) = NOR_Idle"
  "nor_cmd_op (cmd_no_address W25Q_CMD_RESET_ENABLE l n) = NOR_Idle"
  "nor_cmd_op (cmd_no_address W25Q_CMD_RESET_MEMORY l n) = NOR_Idle"
  "nor_cmd_op (cmd_no_address W25Q_CMD_READ_JEDEC_ID l n) = NOR_Idle"
  "nor_cmd_op (cmd_address W25Q_CMD_READ_DATA_4B a l n) = NOR_Idle"
  "nor_cmd_op (cmd_address W25Q_CMD_PAGE_PROGRAM_4B a l n) = NOR_Idle"
  "nor_cmd_op (cmd_address W25Q_CMD_BLOCK_ERASE_64KB_4B a l n) = NOR_Erase (a - a mod 65536) 65536"
  "nor_cmd_op (cmd_address W25Q_CMD_SECTOR_ERASE_4KB_4B a l n) = NOR_Erase (a - a mod 4096) 4096"
  "nor_cmd_op (cmd_no_address W25Q_CMD_CHIP_ERASE l n) = NOR_Erase 0 NOR_SIZE"
  by (simp_all add: nor_cmd_op_def cmd_no_address_def cmd_address_def s_command_0_def w25q_defs)

section \<open>Operations of the driver\<close>

context hal_laws
begin

subsection \<open>Write enable, waiting, initialisation\<close>

lemma pres_WriteEnable: "cell_rel R \<Longrightarrow> pres (within R d0) (QSPI_WriteEnable H)"
  unfolding QSPI_WriteEnable_def
  by (intro pres_rules within_quiets within_command) simp_all

lemma pres_AutoPollingMemReady: "cell_rel R \<Longrightarrow> pres (within R d0) (QSPI_AutoPollingMemReady H)"
  unfolding QSPI_AutoPollingMemReady_def
  by (intro pres_rules within_quiets within_command) simp_all

lemma pres_Init: "cell_rel R \<Longrightarrow> pres (within R d0) (BSP_QSPI_Init H)"
  unfolding BSP_QSPI_Init_def qspi_gpio_init_def QSPI_EnterFourBytesAddress_def
  by (intro pres_rules within_quiets within_command pres_AutoPollingMemReady) simp_all

lemma pres_Read: "cell_rel R \<Longrightarrow> pres (within R d0) (BSP_QSPI_Read H a n)"
  unfolding BSP_QSPI_Read_def
  by (intro pres_rules within_quiets within_command) simp_all

lemma idle_WriteEnable: "pres (idle_at m) (QSPI_WriteEnable H)"
  unfolding QSPI_WriteEnable_def by (intro pres_rules idle_quiets idle_command) simp_all

lemma idle_Init: "pres (idle_at m) (BSP_QSPI_Init H)"
  unfolding BSP_QSPI_Init_def qspi_gpio_init_def QSPI_EnterFourBytesAddress_def QSPI_AutoPollingMemReady_def
  by (intro pres_rules idle_quiets idle_command) simp_all

lemma idle_Read: "pres (idle_at m) (BSP_QSPI_Read H a n)"
  unfolding BSP_QSPI_Read_def by (intro pres_rules idle_quiets idle_command) simp_all

lemma WriteEnable_wel: "wp (QSPI_WriteEnable H) (\<lambda>r d'. r = QSPI_OK \<longrightarrow> nv_wel (nor d')) d"
proof -
  have "nv_wel v" if "nor_sr v AND W25Q_SR1_WEL = W25Q_SR1_WEL" for v
    using that by (auto simp: nor_sr_def W25Q_SR1_WEL_def split: if_splits)
  then show ?thesis
    unfolding QSPI_WriteEnable_def
    by (auto simp: poll_config_def intro!: wpI dest!: poll_ok)
qed

lemma AutoPollingMemReady_idle:
  "wp (QSPI_AutoPollingMemReady H)
     (\<lambda>r d'. r = QSPI_OK \<longrightarrow> idle_at (nor_finish (nv_op (nor d)) (nv_mem (nor d))) d') d"
proof -
  have sr: "nv_op v = NOR_Idle" if "nor_sr v AND W25Q_SR1_WIP = 0" for v
    using that by (auto simp: nor_sr_def W25Q_SR1_WIP_def split: if_splits)
  have fin: "idle_at (nor_finish (nv_op (nor d)) (nv_mem (nor d))) d'"
    if "nor_evolve False NOR_Idle (nor d) (nor d')" "nv_op (nor d') = NOR_Idle" for d'
    using that by (cases "nv_op (nor d)") (auto simp: nor_evolve_def idle_at_def fun_eq_iff)
  show ?thesis
    unfolding QSPI_AutoPollingMemReady_def
    by (auto simp: poll_config_def intro!: wpI fin sr dest: poll_ok quiet_poll [unfolded quiet_def, rule_format])
qed

lemma erasing_WriteEnable: "pres (erasing lo n) (QSPI_WriteEnable H)"
  unfolding QSPI_WriteEnable_def by (intro pres_rules erasing_quiets erasing_command) simp_all

lemma erasing_AutoPollingMemReady: "pres (erasing lo n) (QSPI_AutoPollingMemReady H)"
  unfolding QSPI_AutoPollingMemReady_def by (intro pres_rules erasing_quiets)

lemma erasing_Init: "pres (erasing lo n) (BSP_QSPI_Init H)"
  unfolding BSP_QSPI_Init_def qspi_gpio_init_def QSPI_EnterFourBytesAddress_def
  by (intro pres_rules erasing_quiets erasing_command erasing_AutoPollingMemReady) simp_all

subsection \<open>Initialisation and reading\<close>

lemma Init_idle: "wp (BSP_QSPI_Init H) (\<lambda>r d'. r = QSPI_OK \<longrightarrow> nv_op (nor d') = NOR_Idle) d"
proof -
  have four: "wp (QSPI_EnterFourBytesAddress H) (\<lambda>_ d'. nv_op (nor d') = NOR_Idle) s"
    if "nv_op (nor s) = NOR_Idle" for s
    using presD [OF idle_command [of "cmd_no_address W25Q_CMD_ENTER_4B_ADDR QSPI_LINES_NONE 0" "nv_mem (nor s)"], of s] that
    by (auto simp: QSPI_EnterFourBytesAddress_def idle_at_def elim!: wp_mono)
  define tail where "tail = do {
      r \<leftarrow> QSPI_AutoPollingMemReady H;
      if r \<noteq> QSPI_OK then return QSPI_ERROR
      else do {
        r \<leftarrow> QSPI_EnterFourBytesAddress H;
        if r \<noteq> QSPI_OK then return QSPI_ERROR else return QSPI_OK
      }
    }"
  have "always tail (\<lambda>r d'. r = QSPI_OK \<longrightarrow> nv_op (nor d') = NOR_Idle)" (is "always _ ?Q")
  proof (rule alwaysI)
    fix s show "wp tail ?Q s"
      unfolding tail_def using AutoPollingMemReady_idle [of s]
      by (auto elim!: wp_mono simp: idle_at_def intro: wp_mono [OF four])
  qed
  then have "always (BSP_QSPI_Init H) ?Q"
    unfolding BSP_QSPI_Init_def tail_def [symmetric] by (intro always_rules) simp_all
  then show ?thesis by (rule alwaysD)
qed

lemma Read_ok:
  assumes "idle_at m d" and "a + n \<le> NOR_SIZE"
  shows "wp (BSP_QSPI_Read H a n) (\<lambda>(r, bs) d'. r = QSPI_OK \<longrightarrow> bs = mem_slice m a n) d"
proof -
  let ?c = "cmd_address W25Q_CMD_READ_DATA_4B a QSPI_1_LINE n"
  have "bs = mem_slice m a n"
    if c: "run_state (HAL_QSPI_Command H ?c) d = (HAL_OK, d1)"
      and r: "run_state (HAL_QSPI_Receive H) d1 = ((HAL_OK, bs), d2)" for d1 d2 bs
  proof -
    have "idle_at m d1" by (rule pres_run [OF idle_command assms(1) c]) simp
    moreover have "nv_cmd (nor d1) = Some ?c" using command_data [OF c] by simp
    ultimately show ?thesis
      using receive_ok [OF r, of ?c] assms(2) by (simp add: idle_at_def W25Q_CMD_READ_DATA_4B_def)
  qed
  then show ?thesis
    unfolding BSP_QSPI_Read_def by (auto intro!: wpI split: prod.splits)
qed


subsection \<open>Writing\<close>

text \<open>One page program, from the command to the end of the wait.\<close>

lemma page_program_ok:
  assumes idle: "idle_at m d" and wel: "nv_wel (nor d)" and page: "a mod 256 + n \<le> 256" and len: "n \<le> length p"
    and ok: "\<And>d'. idle_at (prog_mem a (take n p) m) d' \<Longrightarrow> Q d'"
  shows "wp (HAL_QSPI_Command H (cmd_address W25Q_CMD_PAGE_PROGRAM_4B a QSPI_1_LINE n))
     (\<lambda>r s. r = HAL_OK \<longrightarrow> wp (HAL_QSPI_Transmit H p)
       (\<lambda>r s. r = HAL_OK \<longrightarrow> wp (QSPI_AutoPollingMemReady H) (\<lambda>r s. r = QSPI_OK \<longrightarrow> Q s) s) s) d"
proof (rule wpI, rule impI, rule wpI, rule impI)
  let ?c = "cmd_address W25Q_CMD_PAGE_PROGRAM_4B a QSPI_1_LINE n"
  fix r d1 r2 d2
  assume "run_state (HAL_QSPI_Command H ?c) d = (r, d1)" "r = HAL_OK"
    and "run_state (HAL_QSPI_Transmit H p) d1 = (r2, d2)" "r2 = HAL_OK"
  then have c: "run_state (HAL_QSPI_Command H ?c) d = (HAL_OK, d1)"
    and t: "run_state (HAL_QSPI_Transmit H p) d1 = (HAL_OK, d2)" by simp_all
  have d1: "idle_at m d1" by (rule pres_run [OF idle_command idle c]) simp
  have cmd: "nv_cmd (nor d1) = Some ?c" "nv_wel (nor d1)"
    using command_data [OF c] idle wel by (simp_all add: idle_at_def)
  have op: "nv_op (nor d2) = NOR_Program a (take n p)"
    using transmit_ok [OF t] d1 cmd by (simp add: idle_at_def)
  have touch: "nor_touch (NOR_Program a (take n p)) x (m x) (nv_mem (nor d2) x)" for x
    using transmit [OF t] d1 cmd by (auto simp: nor_evolve_def idle_at_def)
  have "nor_finish (NOR_Program a (take n p)) (nv_mem (nor d2)) x = nor_finish (NOR_Program a (take n p)) m x" for x
    using touch [of x] by (auto split: option.splits intro: between_and)
  moreover have "nor_finish (NOR_Program a (take n p)) m = prog_mem a (take n p) m"
    using page len by (intro nor_finish_page) simp
  ultimately have "nor_finish (nv_op (nor d2)) (nv_mem (nor d2)) = prog_mem a (take n p) m"
    by (simp add: op fun_eq_iff)
  then show "wp (QSPI_AutoPollingMemReady H) (\<lambda>r s. r = QSPI_OK \<longrightarrow> Q s) d2"
    using AutoPollingMemReady_idle [of d2] by (auto elim!: wp_mono intro: ok)
qed

lemma qspi_write_loop_step:
  assumes "n \<noteq> 0" and "avail = QSPI_PAGE_SIZE - a mod QSPI_PAGE_SIZE" and "k = (if n < avail then n else avail)"
  shows "qspi_write_loop H p a n = do {
        r \<leftarrow> QSPI_WriteEnable H;
        if r \<noteq> QSPI_OK then return QSPI_ERROR
        else do {
          r \<leftarrow> HAL_QSPI_Command H (cmd_address W25Q_CMD_PAGE_PROGRAM_4B a QSPI_1_LINE k);
          if r \<noteq> HAL_OK then return QSPI_ERROR
          else do {
            r \<leftarrow> HAL_QSPI_Transmit H p;
            if r \<noteq> HAL_OK then return QSPI_ERROR
            else do {
              r \<leftarrow> QSPI_AutoPollingMemReady H;
              if r \<noteq> QSPI_OK then return QSPI_ERROR
              else qspi_write_loop H (drop k p) (wrap32 (a + k)) (n - k)
            }
          }
        }
      }"
  unfolding assms(3) assms(2) using assms(1) by (subst qspi_write_loop.simps) (simp only: Let_def if_False)

lemma write_loop_ok:
  "idle_at m d \<Longrightarrow> a + n \<le> NOR_SIZE \<Longrightarrow> n \<le> length p \<Longrightarrow>
   wp (qspi_write_loop H p a n) (\<lambda>r d'. r = QSPI_OK \<longrightarrow> idle_at (prog_mem a (take n p) m) d') d"
proof (induction n arbitrary: p a m d rule: less_induct)
  case (less n)
  show ?case
  proof (cases "n = 0")
    case True
    then show ?thesis using less.prems by (subst qspi_write_loop.simps) simp
  next
    case False
    define avail where "avail = QSPI_PAGE_SIZE - a mod QSPI_PAGE_SIZE"
    define k where "k = (if n < avail then n else avail)"
    have k: "0 < k" "k \<le> n" "a mod 256 + k \<le> 256"
      using False by (auto simp: k_def avail_def QSPI_PAGE_SIZE_def)
    have wr: "wrap32 (a + k) = a + k" using less.prems(2) k by (simp add: NOR_SIZE_def)
    let ?Q = "\<lambda>r d'. r = QSPI_OK \<longrightarrow> idle_at (prog_mem a (take n p) m) d'"
    have rest: "wp (qspi_write_loop H (drop k p) (a + k) (n - k)) ?Q d'"
      if "idle_at (prog_mem a (take k p) m) d'" for d'
    proof -
      have "take k p @ take (n - k) (drop k p) = take n p"
        using k by (simp flip: take_add)
      moreover have "length (take k p) = k" using k less.prems(3) by simp
      ultimately have "prog_mem (a + k) (take (n - k) (drop k p)) (prog_mem a (take k p) m) = prog_mem a (take n p) m"
        using prog_mem_append [of a "take k p"] by simp
      moreover have "wp (qspi_write_loop H (drop k p) (a + k) (n - k))
          (\<lambda>r d'. r = QSPI_OK \<longrightarrow> idle_at (prog_mem (a + k) (take (n - k) (drop k p)) (prog_mem a (take k p) m)) d') d'"
        using less.prems k that by (intro less.IH) auto
      ultimately show ?thesis by simp
    qed
    note step = qspi_write_loop_step [OF False avail_def k_def, where p = p, unfolded wr]
    have "wp (qspi_write_loop H p a n) ?Q d"
      unfolding step wp_simps
    proof (rule wp_mono [OF wp_conj [OF WriteEnable_wel presD [OF idle_WriteEnable less.prems(1)]]])
      fix r s assume rs: "(r = QSPI_OK \<longrightarrow> nv_wel (nor s)) \<and> idle_at m s"
      show "if r \<noteq> QSPI_OK then ?Q QSPI_ERROR s
          else wp (HAL_QSPI_Command H (cmd_address W25Q_CMD_PAGE_PROGRAM_4B a QSPI_1_LINE k))
            (\<lambda>r s. if r \<noteq> HAL_OK then ?Q QSPI_ERROR s
              else wp (HAL_QSPI_Transmit H p)
                (\<lambda>r s. if r \<noteq> HAL_OK then ?Q QSPI_ERROR s
                  else wp (QSPI_AutoPollingMemReady H)
                    (\<lambda>r s. if r \<noteq> QSPI_OK then ?Q QSPI_ERROR s
                      else wp (qspi_write_loop H (drop k p) (a + k) (n - k)) ?Q s) s) s) s"
        using rs k less.prems(3) by (cases "r = QSPI_OK") (auto intro!: page_program_ok [where m = m] rest)
    qed
    then show ?thesis .
  qed
qed

lemma within_transmit:
  assumes "cell_rel R" and "op_within R (NOR_Program a (take n p))"
    and "within R d0 d" and "nv_cmd (nor d) = Some (cmd_address W25Q_CMD_PAGE_PROGRAM_4B a l n)"
  shows "wp (HAL_QSPI_Transmit H p) (\<lambda>_. within R d0) d"
  using assms by (auto intro!: wpI intro: within_step dest: transmit)

lemma pres_write_loop:
  assumes R: "cell_rel R"
  shows "\<lbrakk>\<And>x old new. a \<le> x \<Longrightarrow> x < a + n \<Longrightarrow> between old (p ! (x - a)) new \<Longrightarrow> R x old new; n \<le> length p;
     a + n \<le> NOR_SIZE\<rbrakk> \<Longrightarrow> pres (within R d0) (qspi_write_loop H p a n)"
proof (induction n arbitrary: p a rule: less_induct)
  case (less n)
  show ?case
  proof (cases "n = 0")
    case True
    then show ?thesis by (subst qspi_write_loop.simps) (simp add: pres_return)
  next
    case False
    define avail where "avail = QSPI_PAGE_SIZE - a mod QSPI_PAGE_SIZE"
    define k where "k = (if n < avail then n else avail)"
    have k: "0 < k" "k \<le> n" "a mod 256 + k \<le> 256"
      using False by (auto simp: k_def avail_def QSPI_PAGE_SIZE_def)
    have wr: "wrap32 (a + k) = a + k" using less.prems(3) k by (simp add: NOR_SIZE_def)
    note step = qspi_write_loop_step [OF False avail_def k_def, where p = p, unfolded wr]
    have rest: "pres (within R d0) (qspi_write_loop H (drop k p) (a + k) (n - k))"
    proof (rule less.IH)
      fix x old new assume "a + k \<le> x" "x < a + k + (n - k)" "between old (drop k p ! (x - (a + k))) new"
      then show "R x old new" using k less.prems(2) by (intro less.prems(1)) auto
    qed (use k less.prems in auto)
    have op: "op_within R (NOR_Program a (take k p))"
      using k less.prems R
      by (auto simp: op_within_def prog_byte_in_page cell_rel_def split: if_splits)
    let ?c = "cmd_address W25Q_CMD_PAGE_PROGRAM_4B a QSPI_1_LINE k"
    define tail where "tail = do {
            r \<leftarrow> HAL_QSPI_Transmit H p;
            if r \<noteq> HAL_OK then return QSPI_ERROR
            else do {
              r \<leftarrow> QSPI_AutoPollingMemReady H;
              if r \<noteq> QSPI_OK then return QSPI_ERROR
              else qspi_write_loop H (drop k p) (a + k) (n - k)
            }
          }"
    have tail: "wp tail (\<lambda>_. within R d0) s" if "within R d0 s" "nv_cmd (nor s) = Some ?c" for s
      unfolding tail_def wp_bind
      by (rule wp_mono [OF within_transmit [OF R op that]], rule presD)
        (intro pres_rules pres_AutoPollingMemReady R rest)+
    have cmd: "wp (HAL_QSPI_Command H ?c) (\<lambda>r s'. within R d0 s' \<and> (r = HAL_OK \<longrightarrow> nv_cmd (nor s') = Some ?c)) s"
      if "within R d0 s" for s
      using presD [OF within_command [OF R, of ?c] that] R by (auto intro!: wpI dest: command_data wpD)
    show ?thesis
      unfolding step tail_def [symmetric]
    proof (rule pres_bind [OF pres_WriteEnable [OF R]], rule pres_if [OF pres_return], rule pres_bind_dep [OF cmd])
      fix r s assume "within R d0 s \<and> (r = HAL_OK \<longrightarrow> nv_cmd (nor s) = Some ?c)"
      then show "wp (if r \<noteq> HAL_OK then return QSPI_ERROR else tail) (\<lambda>_. within R d0) s"
        using tail by simp
    qed
  qed
qed

subsection \<open>Erasing\<close>

text \<open>The command and the wait, from a state whose write-enable latch is set.\<close>

lemma erase_command_ok:
  assumes op: "nor_cmd_op c = NOR_Erase lo n" and rst: "Instruction c \<noteq> 0x99"
    and d: "erasing lo n d" "nv_wel (nor d)"
  shows "wp (HAL_QSPI_Command H c) (\<lambda>r s. r = HAL_OK \<longrightarrow>
     wp (QSPI_AutoPollingMemReady H) (\<lambda>r d'. r = QSPI_OK \<longrightarrow> erased lo n d') s) d"
proof (rule wpI, rule impI)
  fix r d1 assume "run_state (HAL_QSPI_Command H c) d = (r, d1)" "r = HAL_OK"
  then have c: "run_state (HAL_QSPI_Command H c) d = (HAL_OK, d1)" by simp
  have "nv_op (nor d1) = NOR_Erase lo n \<or> erased lo n d1"
  proof (cases "nv_op (nor d) = NOR_Idle")
    case True
    then show ?thesis using command_erase [OF c True d(2)] op by simp
  next
    case False
    then have "nv_op (nor d) = NOR_Erase lo n" using d(1) by (simp add: erasing_def)
    then show ?thesis
      using command [OF c] rst by (auto simp: nor_evolve_def op part_Erase erased_def)
  qed
  then have "idle_at (nor_finish (nv_op (nor d1)) (nv_mem (nor d1))) d' \<Longrightarrow> erased lo n d'" for d'
    by (auto simp: erased_def idle_at_def)
  then show "wp (QSPI_AutoPollingMemReady H) (\<lambda>r d'. r = QSPI_OK \<longrightarrow> erased lo n d') d1"
    using AutoPollingMemReady_idle [of d1] by (auto elim!: wp_mono)
qed

lemma erase_attempt_ok:
  assumes a: "a mod 65536 = 0" and d: "erasing a 65536 d"
  shows "wp (erase_block_attempt H a) (\<lambda>ok d'. ok \<longrightarrow> erased a 65536 d') d"
proof -
  have i: "Instruction (cmd_address W25Q_CMD_BLOCK_ERASE_64KB_4B a QSPI_LINES_NONE 0) \<noteq> 0x99"
    by (simp add: W25Q_CMD_BLOCK_ERASE_64KB_4B_def)
  show ?thesis
    unfolding erase_block_attempt_def wp_simps
    by (rule wp_mono [OF wp_conj [OF WriteEnable_wel presD [OF erasing_WriteEnable d]]])
      (use erase_command_ok [OF _ i] a in auto)
qed

lemma pres_erasing_attempt: "a mod 65536 = 0 \<Longrightarrow> pres (erasing a 65536) (erase_block_attempt H a)"
  unfolding erase_block_attempt_def
  by (intro pres_rules erasing_WriteEnable erasing_AutoPollingMemReady erasing_command) simp_all

lemma erase_block_loop_ok:
  "a mod 65536 = 0 \<Longrightarrow> erasing a 65536 d \<Longrightarrow>
   wp (erase_block_loop H a k) (\<lambda>r d'. erasing a 65536 d' \<and> (r = QSPI_OK \<longrightarrow> erased a 65536 d')) d"
proof (induction k arbitrary: d)
  case (Suc k)
  have retry: "wp (do { HAL_QSPI_Abort H; HAL_QSPI_CLEAR_FLAG H; HAL_Delay H 10; erase_block_loop H a k })
      (\<lambda>r d'. erasing a 65536 d' \<and> (r = QSPI_OK \<longrightarrow> erased a 65536 d')) s" if "erasing a 65536 s" for s
    unfolding wp_bind
    by (rule wp_mono [OF presD [OF erasing_quiets(6) that]], rule wp_mono [OF presD [OF erasing_quiets(7)]], assumption,
        rule wp_mono [OF presD [OF erasing_quiets(11)]], assumption, rule Suc.IH [OF Suc.prems(1)])
  show ?case
    using wp_conj [OF presD [OF pres_erasing_attempt [OF Suc.prems(1)] Suc.prems(2)] erase_attempt_ok [OF Suc.prems]]
    by (auto elim!: wp_mono intro: retry [unfolded wp_bind])
qed simp

lemma pres_erase_attempt:
  "cell_rel R \<Longrightarrow> op_within R (NOR_Erase (a - a mod 65536) 65536) \<Longrightarrow> pres (within R d0) (erase_block_attempt H a)"
  unfolding erase_block_attempt_def
  by (intro pres_rules pres_WriteEnable pres_AutoPollingMemReady within_command) simp_all

lemma pres_erase_block:
  assumes "cell_rel R" "op_within R (NOR_Erase (a - a mod 65536) 65536)"
  shows "pres (within R d0) (erase_block_loop H a k)"
  by (induction k) (simp_all, (intro pres_rules pres_erase_attempt within_quiets assms | assumption)+)

lemma erase_block_step:
  assumes a: "a mod 65536 = 0" and d: "nv_op (nor d) = NOR_Idle"
  shows "wp (erase_block_failed H a)
     (\<lambda>fail d'. within (erase_rel a 65536) d d' \<and> (\<not> fail \<longrightarrow> erased a 65536 d')) d"
proof -
  let ?E = "erase_block_loop H a 3"
  have op: "op_within (erase_rel a 65536) (NOR_Erase (a - a mod 65536) 65536)"
    using a by (intro op_within_erase) auto
  note pw = presD [OF pres_erase_block [OF cell_rel_erase op]]
  let ?W = "\<lambda>s. within (erase_rel a 65536) d s \<and> erasing a 65536 s"
  have blk: "wp ?E (\<lambda>r s'. ?W s' \<and> (r = QSPI_OK \<longrightarrow> erased a 65536 s')) s" if "?W s" for s
    using wp_conj [OF pw [of d s 3] erase_block_loop_ok [OF a, of s 3]] that by (auto elim!: wp_mono)
  have ini: "wp (BSP_QSPI_Init H) (\<lambda>_. ?W) s" if "?W s" for s
    using that presD [OF pres_conj [OF pres_Init [OF cell_rel_erase] erasing_Init]] by blast
  have "?W d" using d by (simp add: within_refl erasing_def)
  then show ?thesis
    unfolding erase_block_failed_def BSP_QSPI_Erase_Block64K_def wp_simps
    by (rule wp_mono [OF blk]) (auto intro!: wp_mono [OF ini] wp_mono [OF blk])
qed

lemma erased_extend:
  assumes "\<forall>x. lo \<le> x \<and> x < a \<longrightarrow> nv_mem (nor d) x = 0xFF" "within (erase_rel a 65536) d d'" "erased a 65536 d'"
    "lo \<le> a"
  shows "\<forall>x. lo \<le> x \<and> x < a + 65536 \<longrightarrow> nv_mem (nor d') x = 0xFF"
  using assms unfolding within_def nor_within_def erase_rel_def erased_def
  by (metis linorder_not_less)

lemma erase_blocks_loop_ok:
  assumes "nv_op (nor d) = NOR_Idle" and "a mod 65536 = 0" and "lim \<le> NOR_SIZE" and "lo \<le> a"
    and "lim \<le> a + fuel * 65536" and "\<forall>x. lo \<le> x \<and> x < a \<longrightarrow> nv_mem (nor d) x = 0xFF"
    and "hi mod 65536 = 0" and "lim \<le> hi"
  shows "wp (erase_blocks_loop H fuel a lim cnt)
     (\<lambda>r d'. r \<noteq> None \<and> within (erase_rel a (hi - a)) d d' \<and>
       (r = Some 0 \<longrightarrow> nv_op (nor d') = NOR_Idle \<and> (\<forall>x. lo \<le> x \<and> x < lim \<longrightarrow> nv_mem (nor d') x = 0xFF))) d"
  using assms
proof (induction fuel arbitrary: a d cnt)
  case 0
  then show ?case by (auto intro: within_refl)
next
  case (Suc fuel)
  show ?case
  proof (cases "a < lim")
    case False
    then show ?thesis using Suc.prems by (auto intro: within_refl)
  next
    case True
    let ?Q = "\<lambda>r d'. r \<noteq> None \<and> within (erase_rel a (hi - a)) d d' \<and>
       (r = Some 0 \<longrightarrow> nv_op (nor d') = NOR_Idle \<and> (\<forall>x. lo \<le> x \<and> x < lim \<longrightarrow> nv_mem (nor d') x = 0xFF))"
    have hi: "a + 65536 \<le> hi"
      using True Suc.prems(2,7,8) dvd_imp_le [of 65536 "hi - a"] by (auto simp: mod_eq_0_iff_dvd)
    have wr: "wrap32 (a + QSPI_BLOCK_64K_SIZE) = a + 65536"
      using True Suc.prems(3) by (simp add: QSPI_BLOCK_64K_SIZE_def NOR_SIZE_def)
    have R: "within (erase_rel a (hi - a)) d s" if "within (erase_rel a 65536) d s" for s
      using that by (rule within_erase_mono) (use hi in auto)
    have rest: "wp (erase_blocks_loop H fuel (a + 65536) lim (wrap32 (cnt + 1))) ?Q s"
      if s: "within (erase_rel a 65536) d s" "erased a 65536 s" for s
    proof -
      have "wp (erase_blocks_loop H fuel (a + 65536) lim (wrap32 (cnt + 1)))
        (\<lambda>r d'. r \<noteq> None \<and> within (erase_rel (a + 65536) (hi - (a + 65536))) s d' \<and>
       (r = Some 0 \<longrightarrow> nv_op (nor d') = NOR_Idle \<and> (\<forall>x. lo \<le> x \<and> x < lim \<longrightarrow> nv_mem (nor d') x = 0xFF))) s"
      proof (rule Suc.IH)
        show "nv_op (nor s) = NOR_Idle" using s by (simp add: erased_def)
        show "(a + 65536) mod 65536 = 0" using Suc.prems(2) by simp
        show "\<forall>x. lo \<le> x \<and> x < a + 65536 \<longrightarrow> nv_mem (nor s) x = 0xFF"
          by (rule erased_extend [OF Suc.prems(6) s Suc.prems(4)])
      qed (use Suc.prems True hi in auto)
      then show ?thesis
      proof (rule wp_mono)
        fix r d' assume *: "r \<noteq> None \<and> within (erase_rel (a + 65536) (hi - (a + 65536))) s d' \<and>
         (r = Some 0 \<longrightarrow> nv_op (nor d') = NOR_Idle \<and> (\<forall>x. lo \<le> x \<and> x < lim \<longrightarrow> nv_mem (nor d') x = 0xFF))"
        have "within (erase_rel a (hi - a)) s d'"
          using * hi within_erase_mono [of "a + 65536" "hi - (a + 65536)" s d' a "hi - a"] by auto
        with * R [OF s(1)] show "?Q r d'" using within_trans [OF cell_rel_erase] by blast
      qed
    qed
    have init: "wp (BSP_QSPI_Init H) (\<lambda>_ s'. within (erase_rel a 65536) d s' \<and> erased a 65536 s') s"
      if "within (erase_rel a 65536) d s" "erased a 65536 s" for s
      using that presD [OF pres_conj [OF pres_Init [OF cell_rel_erase] idle_Init], of a 65536 d s "nv_mem (nor s)"]
      by (auto simp: erased_def idle_at_def elim!: wp_mono)
    have tail: "wp (do {
          (if b then do { BSP_QSPI_Init H; return () } else return ());
          erase_blocks_loop H fuel (a + 65536) lim (wrap32 (cnt + 1))
        }) ?Q s" if "within (erase_rel a 65536) d s" "erased a 65536 s" for s b
      using wp_mono [OF init [OF that]] rest that by simp
    have "wp (erase_block_failed H a) (\<lambda>fail. wp (if fail then return (Some 1) else do {
          (if (cnt + 1) mod 8 = 0 then do { BSP_QSPI_Init H; return () } else return ());
          erase_blocks_loop H fuel (a + 65536) lim (wrap32 (cnt + 1))
        }) ?Q) d"
      by (rule wp_mono [OF erase_block_step [OF Suc.prems(2,1)]]) 
        (split if_split, intro conjI impI, simp add: R, rule tail, simp_all)
    then show ?thesis
      unfolding erase_blocks_loop.simps wr wp_bind [symmetric] using True by (simp only: if_True)
  qed
qed

lemma write_loop_idle:
  "nv_op (nor d) = NOR_Idle \<or> 0 < n \<Longrightarrow>
   wp (qspi_write_loop H p a n) (\<lambda>r d'. r = QSPI_OK \<longrightarrow> nv_op (nor d') = NOR_Idle) d"
proof (induction n arbitrary: p a d rule: less_induct)
  case (less n)
  show ?case
  proof (cases "n = 0")
    case True
    then show ?thesis using less.prems by (subst qspi_write_loop.simps) simp
  next
    case False
    define avail where "avail = QSPI_PAGE_SIZE - a mod QSPI_PAGE_SIZE"
    define k where "k = (if n < avail then n else avail)"
    have "k > 0" using False by (auto simp: k_def avail_def QSPI_PAGE_SIZE_def)
    then have rest: "wp (qspi_write_loop H (drop k p) (wrap32 (a + k)) (n - k)) (\<lambda>r d'. r = QSPI_OK \<longrightarrow> nv_op (nor d') = NOR_Idle) s"
      if "nv_op (nor s) = NOR_Idle" for s using less.IH that False by simp
    let ?Q = "\<lambda>r d'. r = QSPI_OK \<longrightarrow> nv_op (nor d') = NOR_Idle"
    define tail where "tail = do {
              r \<leftarrow> QSPI_AutoPollingMemReady H;
              if r \<noteq> QSPI_OK then return QSPI_ERROR
              else qspi_write_loop H (drop k p) (wrap32 (a + k)) (n - k)
            }"
    have "always tail ?Q"
    proof (rule alwaysI)
      fix s show "wp tail ?Q s"
        unfolding tail_def wp_bind
        by (rule wp_mono [OF AutoPollingMemReady_idle]) (simp add: idle_at_def rest)
    qed
    then have "always (qspi_write_loop H p a n) ?Q"
      unfolding qspi_write_loop_step [OF False avail_def k_def] tail_def [symmetric]
      by (intro always_rules) simp_all
    then show ?thesis by (rule alwaysD)
  qed
qed

lemma Write_idle: "0 < n \<Longrightarrow> wp (BSP_QSPI_Write H p a n) (\<lambda>r d'. r = QSPI_OK \<longrightarrow> nv_op (nor d') = NOR_Idle) d"
  unfolding BSP_QSPI_Write_def by (rule write_loop_idle) simp

lemma Write_region:
  assumes "lo \<le> a" "a + n \<le> lo + k" "lo + k \<le> NOR_SIZE" "n \<le> length p"
  shows "pres (within (erase_rel lo k) d0) (BSP_QSPI_Write H p a n)"
  unfolding BSP_QSPI_Write_def
  by (rule pres_write_loop) (use assms in \<open>auto simp: erase_rel_def\<close>)

subsection \<open>The driver as a store\<close>

lemma Erase_Blocks_ok:
  assumes "nv_op (nor d) = NOR_Idle" "a mod 65536 = 0" "n mod 65536 = 0" "a + n \<le> NOR_SIZE"
  shows "wp (QSPI_Erase_Blocks H a n) (\<lambda>r d'. r \<noteq> None \<and> within (erase_rel a n) d d' \<and>
     (r = Some 0 \<longrightarrow> nv_op (nor d') = NOR_Idle \<and> mem_slice (nv_mem (nor d')) a n = replicate n 0xFF)) d"
proof -
  have "(a + n) mod 65536 = 0" using assms(2,3) by (simp add: mod_eq_0_iff_dvd)
  then have "wp (erase_blocks_loop H 65536 a (a + n) 0)
     (\<lambda>r d'. r \<noteq> None \<and> within (erase_rel a (a + n - a)) d d' \<and> (r = Some 0 \<longrightarrow>
       nv_op (nor d') = NOR_Idle \<and> (\<forall>x. a \<le> x \<and> x < a + n \<longrightarrow> nv_mem (nor d') x = 0xFF))) d"
    using assms by (intro erase_blocks_loop_ok) (auto simp: NOR_SIZE_def)
  moreover have "wrap32 (a + n) = a + n" using assms(4) by (simp add: NOR_SIZE_def)
  ultimately show ?thesis
    unfolding QSPI_Erase_Blocks_def by (auto elim!: wp_mono intro!: mem_slice_eq_listI)
qed

lemma Write_keep:
  assumes "a + n \<le> NOR_SIZE" "n \<le> length p"
  shows "pres (within (prog_rel a (take n p)) d0) (BSP_QSPI_Write H p a n)"
  unfolding BSP_QSPI_Write_def
proof (rule pres_write_loop [OF cell_rel_prog _ assms(2,1)])
  fix x old new assume "a \<le> x" "x < a + n" "between old (p ! (x - a)) new"
  moreover from this have "x - a < n" by linarith
  ultimately show "prog_rel a (take n p) x old new" using assms(2) by (simp add: prog_rel_def)
qed

lemma Read_store:
  assumes "nv_op (nor d) = NOR_Idle" "a + n \<le> NOR_SIZE"
  shows "wp (BSP_QSPI_Read H a n) (\<lambda>(r, bs) d'. nv_op (nor d') = NOR_Idle \<and> nv_mem (nor d') = nv_mem (nor d) \<and>
     (r = QSPI_OK \<longrightarrow> bs = mem_slice (nv_mem (nor d)) a n)) d"
proof -
  have i: "idle_at (nv_mem (nor d)) d" using assms(1) by (simp add: idle_at_def)
  show ?thesis
    by (rule wp_mono [OF wp_conj [OF Read_ok [OF i assms(2)] presD [OF idle_Read i]]])
      (auto simp: idle_at_def)
qed

end

sublocale hal_laws \<subseteq> store: nor_store "\<lambda>d. nv_mem (nor d)" "\<lambda>d. nv_op (nor d) = NOR_Idle" within
    "\<lambda>d. (ld8 H d, locked d)" "BSP_QSPI_Init H" "BSP_QSPI_Read H" "BSP_QSPI_Write H" "QSPI_Erase_Blocks H"
proof (unfold_locales, goal_cases)
  case (3 R d0 d R') then show ?case using within_mono by blast
next
  case (4 R d0 d x) then show ?case by (simp add: within_def nor_within_def)
next
  case (5 R d0 d) then show ?case by (simp add: within_def same_flash_def)
next
  case (9 a n d) show ?case by (rule wp_mono [OF Erase_Blocks_ok [OF 9(4) 9(1-3)]]) simp
next
  case (11 d) then show ?case
    using presD [OF idle_Init, of "nv_mem (nor d)" d] by (auto simp: idle_at_def elim!: wp_mono)
next
  case (13 d a n p) then show ?case
    using write_loop_ok [of "nv_mem (nor d)" d a n p] by (auto simp: BSP_QSPI_Write_def idle_at_def elim!: wp_mono)
next
  case (14 a n d) show ?case by (rule wp_mono [OF Erase_Blocks_ok [OF 14(4) 14(1-3)]]) simp
qed (blast intro: within_refl within_trans pres_Init pres_Read Write_keep Init_idle Read_store)+

end
