(* ===== verification/Metadata.thy ===== *)
theory Metadata
  imports Hal
begin

text \<open>
  \<^verbatim>\<open>src/STM32/Bootloader/User/metadata/metadata.h\<close> and \<^verbatim>\<open>metadata.c\<close>: the 64-byte record that tells
  bootloader and application what is in the application slot. It is stored in sector 1 of the
  internal flash; loads of it are loads of the memory-mapped flash.
\<close>

section \<open>The structure\<close>

definition METADATA_ADDR :: nat where "METADATA_ADDR = 0x08020000"
definition METADATA_MAGIC :: u32 where "METADATA_MAGIC = 0x4D455441"

definition STATE_EMPTY :: u32 where "STATE_EMPTY = 0xFFFFFFFF"
definition STATE_PENDING_UPDATE :: u32 where "STATE_PENDING_UPDATE = 0x50454E44"
definition STATE_TESTING :: u32 where "STATE_TESTING = 0x54455354"
definition STATE_CONFIRMED :: u32 where "STATE_CONFIRMED = 0x434F4E46"

lemmas state_defs = STATE_EMPTY_def STATE_PENDING_UPDATE_def STATE_TESTING_def STATE_CONFIRMED_def

lemma states_distinct [simp]:
  "STATE_PENDING_UPDATE \<noteq> STATE_TESTING" "STATE_PENDING_UPDATE \<noteq> STATE_CONFIRMED"
  "STATE_PENDING_UPDATE \<noteq> STATE_EMPTY" "STATE_TESTING \<noteq> STATE_CONFIRMED" "STATE_TESTING \<noteq> STATE_EMPTY"
  "STATE_CONFIRMED \<noteq> STATE_EMPTY" "STATE_TESTING \<noteq> STATE_PENDING_UPDATE"
  "STATE_CONFIRMED \<noteq> STATE_PENDING_UPDATE" "STATE_EMPTY \<noteq> STATE_PENDING_UPDATE"
  "STATE_CONFIRMED \<noteq> STATE_TESTING" "STATE_EMPTY \<noteq> STATE_TESTING" "STATE_EMPTY \<noteq> STATE_CONFIRMED"
  by (simp_all add: state_defs)

record Metadata =
  magic :: u32
  state :: u32
  version_major :: u32
  version_minor :: u32
  version_patch :: u32
  crc32 :: u32
  fw_size :: u32
  reserved :: "u32 list"

text \<open>\<^verbatim>\<open>reserved\<close> is an array of nine words.\<close>

definition meta_wf :: "Metadata \<Rightarrow> bool" where
  "meta_wf m \<longleftrightarrow> length (reserved m) = 9"

text \<open>The object representation: sixteen little-endian words in the order of the fields.\<close>

definition meta_words :: "Metadata \<Rightarrow> u32 list" where
  "meta_words m = [magic m, state m, version_major m, version_minor m, version_patch m, crc32 m, fw_size m]
     @ reserved m"

definition words_meta :: "u32 list \<Rightarrow> Metadata" where
  "words_meta ws = \<lparr>magic = ws ! 0, state = ws ! 1, version_major = ws ! 2, version_minor = ws ! 3,
     version_patch = ws ! 4, crc32 = ws ! 5, fw_size = ws ! 6, reserved = drop 7 ws\<rparr>"

definition meta_bytes :: "Metadata \<Rightarrow> u8 list" where
  "meta_bytes m = concat (map le32_bytes (meta_words m))"

definition bytes_words :: "u8 list \<Rightarrow> u32 list" where
  "bytes_words bs = map (\<lambda>i. le32 (take 4 (drop (4 * i) bs))) [0..<length bs div 4]"

definition bytes_meta :: "u8 list \<Rightarrow> Metadata" where
  "bytes_meta bs = words_meta (bytes_words bs)"

section \<open>Operations\<close>

definition Metadata_Default :: Metadata where
  "Metadata_Default = (words_meta (replicate 16 0))\<lparr>magic := METADATA_MAGIC, state := STATE_EMPTY,
     version_major := 0, version_minor := 0, version_patch := 0, crc32 := 0, fw_size := 0\<rparr>"

definition Metadata_Of :: "(nat \<Rightarrow> u8) \<Rightarrow> Metadata" where
  "Metadata_Of flash =
     (let meta = bytes_meta (mem_slice flash METADATA_ADDR 64)
      in if magic meta \<noteq> METADATA_MAGIC then Metadata_Default else meta)"

definition Metadata_Read :: "'d hal \<Rightarrow> ('d, Metadata) state" where
  "Metadata_Read H = do {
     d \<leftarrow> State_Monad.get;
     return (Metadata_Of (ld8 H d))
   }"

definition meta_erase :: FLASH_EraseInitTypeDef where
  "meta_erase = \<lparr>Banks = FLASH_BANK_1, Sector = 1, NbSectors = 1\<rparr>"

text \<open>The retry loops; the number of attempts left bounds them. Busy-wait delays have no effect.\<close>

fun meta_erase_loop :: "'d hal \<Rightarrow> nat \<Rightarrow> ('d, bool) state" where
  "meta_erase_loop H 0 = return False"
| "meta_erase_loop H (Suc attempts) = do {
     HAL_FLASH_CLEAR_FLAG H;
     (st, SectorError) \<leftarrow> HAL_FLASHEx_Erase H meta_erase;
     if st = HAL_OK then return True else meta_erase_loop H attempts
   }"

fun meta_prog_loop :: "'d hal \<Rightarrow> nat \<Rightarrow> u8 list \<Rightarrow> nat \<Rightarrow> ('d, bool) state" where
  "meta_prog_loop H addr bs 0 = return False"
| "meta_prog_loop H addr bs (Suc attempts) = do {
     HAL_FLASH_CLEAR_FLAG H;
     st \<leftarrow> HAL_FLASH_Program H addr bs;
     if st = HAL_OK then return True else meta_prog_loop H addr bs attempts
   }"

text \<open>The loop over the flash words of \<open>aligned\<close>, from the \<open>i\<close>-th on.\<close>

fun meta_words_loop :: "'d hal \<Rightarrow> u8 list \<Rightarrow> nat \<Rightarrow> nat \<Rightarrow> ('d, bool) state" where
  "meta_words_loop H aligned i 0 = return True"
| "meta_words_loop H aligned i (Suc n) = do {
     prog_ok \<leftarrow> meta_prog_loop H (METADATA_ADDR + i * 32) (take 32 (drop (i * 32) aligned)) 3;
     if \<not> prog_ok then return False else meta_words_loop H aligned (Suc i) n
   }"

text \<open>The caller's structure, whose \<^verbatim>\<open>magic\<close> the function sets, is the second result.\<close>

definition Metadata_Write :: "'d hal \<Rightarrow> Metadata \<Rightarrow> ('d, int \<times> Metadata) state" where
  "Metadata_Write H meta0 = do {
     let meta = meta0\<lparr>magic := METADATA_MAGIC\<rparr>;
     let aligned = meta_bytes meta;
     HAL_FLASH_Unlock H;
     ok \<leftarrow> meta_erase_loop H 10;
     if \<not> ok then do { HAL_FLASH_Lock H; return (-1, meta) }
     else do {
       ok \<leftarrow> meta_words_loop H aligned 0 (64 div 32);
       if \<not> ok then do { HAL_FLASH_Lock H; return (-1, meta) }
       else do {
         HAL_FLASH_Lock H;
         SCB_InvalidateDCache H;
         d \<leftarrow> State_Monad.get;
         if mem_slice (ld8 H d) METADATA_ADDR 64 \<noteq> meta_bytes meta then return (-1, meta)
         else return (0, meta)
       }
     }
   }"

definition Metadata_StateStr :: "u32 \<Rightarrow> string" where
  "Metadata_StateStr s =
     (if s = STATE_PENDING_UPDATE then ''PENDING_UPDATE''
      else if s = STATE_TESTING then ''TESTING''
      else if s = STATE_CONFIRMED then ''CONFIRMED''
      else ''EMPTY'')"

definition Metadata_IsValid :: "Metadata \<Rightarrow> int" where
  "Metadata_IsValid meta = (if magic meta = METADATA_MAGIC then 1 else 0)"

text \<open>\<^verbatim>\<open>%u\<close> of \<^verbatim>\<open>sprintf\<close>: the decimal digits of an unsigned number.\<close>

fun dec_digits :: "nat \<Rightarrow> string" where
  "dec_digits n = (if n < 10 then [char_of (48 + n)] else dec_digits (n div 10) @ [char_of (48 + n mod 10)])"

declare dec_digits.simps [simp del]

definition Metadata_ReadVersion :: "'d hal \<Rightarrow> ('d, string) state" where
  "Metadata_ReadVersion H = do {
     meta \<leftarrow> Metadata_Read H;
     return (''v'' @ dec_digits (unat (version_major meta)) @ ''.'' @ dec_digits (unat (version_minor meta))
       @ ''.'' @ dec_digits (unat (version_patch meta)))
   }"

text \<open>
  \<^verbatim>\<open>ota.c\<close> and \<^verbatim>\<open>menu.c\<close> also use members that the structure of \<^verbatim>\<open>metadata.h\<close> does not declare. Which
  of the sixteen words holds each of them is the argument \<open>lay\<close>; a sensible layout puts them into
  distinct words that do not hold \<^verbatim>\<open>magic\<close>, \<^verbatim>\<open>state\<close>, \<^verbatim>\<open>crc32\<close> or \<^verbatim>\<open>fw_size\<close>.
\<close>

datatype meta_field = cur_major | cur_minor | cur_patch | bak_major | bak_minor | bak_patch
  | bak_crc32 | bak_fw_size | ota_major | ota_minor | ota_patch

type_synonym meta_layout = "meta_field \<Rightarrow> nat"

definition layout_ok :: "meta_layout \<Rightarrow> bool" where
  "layout_ok lay \<longleftrightarrow> inj lay \<and> (\<forall>f. lay f < 16 \<and> lay f \<notin> {0, 1, 5, 6})"

definition get_field :: "meta_layout \<Rightarrow> meta_field \<Rightarrow> Metadata \<Rightarrow> u32" where
  "get_field lay f m = meta_words m ! lay f"

definition set_field :: "meta_layout \<Rightarrow> meta_field \<Rightarrow> u32 \<Rightarrow> Metadata \<Rightarrow> Metadata" where
  "set_field lay f v m = words_meta ((meta_words m)[lay f := v])"

section \<open>The encoding is lossless\<close>

lemma length_meta_words [simp]: "length (meta_words m) = 7 + length (reserved m)"
  by (simp add: meta_words_def)

lemma words_meta_words [simp]: "words_meta (meta_words m) = m"
  by (simp add: words_meta_def meta_words_def nth_Cons' numeral_eq_Suc)

lemma meta_words_meta: "length ws = 16 \<Longrightarrow> meta_words (words_meta ws) = ws"
  by (rule nth_equalityI) (auto simp: meta_words_def words_meta_def nth_append nth_Cons' less_Suc_eq numeral_eq_Suc)

lemma take_drop_concat_le32:
  "i < length ws \<Longrightarrow> take 4 (drop (4 * i) (concat (map le32_bytes ws))) = le32_bytes (ws ! i)"
proof (induction ws arbitrary: i)
  case (Cons w ws) then show ?case by (cases i) simp_all
qed simp

lemma length_concat_le32 [simp]: "length (concat (map le32_bytes ws)) = 4 * length ws"
  by (induction ws) auto

lemma bytes_words_concat [simp]: "bytes_words (concat (map le32_bytes ws)) = ws"
  by (rule nth_equalityI) (auto simp: bytes_words_def take_drop_concat_le32)

lemma bytes_meta_bytes [simp]: "bytes_meta (meta_bytes m) = m"
  by (simp add: bytes_meta_def meta_bytes_def)

lemma length_meta_bytes: "meta_wf m \<Longrightarrow> length (meta_bytes m) = 64"
  by (simp add: meta_bytes_def meta_wf_def)

lemma meta_wf_bytes_meta: "length bs = 64 \<Longrightarrow> meta_wf (bytes_meta bs)"
  by (simp add: bytes_meta_def meta_wf_def words_meta_def bytes_words_def)

lemma meta_wf_Of: "meta_wf (Metadata_Of flash)"
  by (simp add: Metadata_Of_def Let_def meta_wf_bytes_meta)
    (simp add: Metadata_Default_def words_meta_def meta_wf_def)

lemma magic_Of [simp]: "magic (Metadata_Of flash) = METADATA_MAGIC"
  by (simp add: Metadata_Of_def Let_def Metadata_Default_def)

lemma Metadata_Of_bytes:
  "mem_slice flash METADATA_ADDR 64 = meta_bytes m \<Longrightarrow> magic m = METADATA_MAGIC \<Longrightarrow> Metadata_Of flash = m"
  by (simp add: Metadata_Of_def Let_def)

lemma Metadata_Of_cong:
  "mem_slice f METADATA_ADDR 64 = mem_slice g METADATA_ADDR 64 \<Longrightarrow> Metadata_Of f = Metadata_Of g"
  by (simp add: Metadata_Of_def)

lemma meta_wf_set [simp]: "meta_wf (set_field lay f v m) = meta_wf m"
  by (simp add: meta_wf_def set_field_def words_meta_def)

lemma meta_wf_upd [simp]:
  "meta_wf (m\<lparr>state := a\<rparr>) = meta_wf m" "meta_wf (m\<lparr>crc32 := a\<rparr>) = meta_wf m"
  "meta_wf (m\<lparr>fw_size := a\<rparr>) = meta_wf m" "meta_wf (m\<lparr>magic := a\<rparr>) = meta_wf m"
  by (simp_all add: meta_wf_def)

lemma meta_words_nth:
  "meta_words m ! 0 = magic m" "meta_words m ! 1 = state m" "meta_words m ! 5 = crc32 m" "meta_words m ! 6 = fw_size m"
  by (simp_all add: meta_words_def numeral_eq_Suc)

lemma set_field_fixed:
  assumes "layout_ok lay"
  shows "magic (set_field lay f v m) = magic m" "state (set_field lay f v m) = state m"
    "crc32 (set_field lay f v m) = crc32 m" "fw_size (set_field lay f v m) = fw_size m"
proof -
  have "lay f \<noteq> 0" "lay f \<noteq> 1" "lay f \<noteq> 5" "lay f \<noteq> 6" using assms by (auto simp: layout_ok_def)
  then show "magic (set_field lay f v m) = magic m" "state (set_field lay f v m) = state m"
    "crc32 (set_field lay f v m) = crc32 m" "fw_size (set_field lay f v m) = fw_size m"
    by (simp_all add: set_field_def words_meta_def meta_words_nth del: One_nat_def)
qed

lemma get_set_field:
  assumes "layout_ok lay" "meta_wf m"
  shows "get_field lay f (set_field lay g v m) = (if f = g then v else get_field lay f m)"
  using assms by (auto simp: get_field_def set_field_def layout_ok_def meta_words_meta meta_wf_def nth_list_update
    dest: injD)

lemma meta_words_upd:
  "meta_words (m\<lparr>magic := a\<rparr>) = (meta_words m)[0 := a]" "meta_words (m\<lparr>state := a\<rparr>) = (meta_words m)[1 := a]"
  "meta_words (m\<lparr>crc32 := a\<rparr>) = (meta_words m)[5 := a]" "meta_words (m\<lparr>fw_size := a\<rparr>) = (meta_words m)[6 := a]"
  by (simp_all add: meta_words_def numeral_eq_Suc)

lemma get_field_upd:
  assumes "layout_ok lay"
  shows "get_field lay f (m\<lparr>state := a\<rparr>) = get_field lay f m"
    "get_field lay f (m\<lparr>crc32 := a\<rparr>) = get_field lay f m"
    "get_field lay f (m\<lparr>fw_size := a\<rparr>) = get_field lay f m"
    "get_field lay f (m\<lparr>magic := a\<rparr>) = get_field lay f m"
proof -
  have "0 \<noteq> lay f" "1 \<noteq> lay f" "5 \<noteq> lay f" "6 \<noteq> lay f" using assms unfolding layout_ok_def by (metis insertCI)+
  then show "get_field lay f (m\<lparr>state := a\<rparr>) = get_field lay f m"
    "get_field lay f (m\<lparr>crc32 := a\<rparr>) = get_field lay f m"
    "get_field lay f (m\<lparr>fw_size := a\<rparr>) = get_field lay f m"
    "get_field lay f (m\<lparr>magic := a\<rparr>) = get_field lay f m"
    by (simp_all add: get_field_def meta_words_upd)
qed

section \<open>Reading and writing under failing flash operations\<close>

abbreviation "in_meta_sector x \<equiv> in_sectors meta_erase x"

lemma in_meta_sector: "in_meta_sector x \<longleftrightarrow> 0x08020000 \<le> x \<and> x < 0x08040000"
  by (simp add: in_sectors_def meta_erase_def)

context hal_laws
begin

abbreviation meta_keep :: "'d \<Rightarrow> 'd \<Rightarrow> bool" where
  "meta_keep \<equiv> flash_within (sectors_rel meta_erase)"

lemma prog_rel_in_sector:
  "prog_rel (METADATA_ADDR + i * 32) bs x a b \<Longrightarrow> length bs = 32 \<Longrightarrow> i < 2 \<Longrightarrow> sectors_rel meta_erase x a b"
  by (auto simp: prog_rel_def sectors_rel_def erase_rel_def meta_erase_def METADATA_ADDR_def split: if_splits)

lemma meta_erase_loop_ok:
  "meta_keep d0 d \<Longrightarrow> wp (meta_erase_loop H k) (\<lambda>ok d'. meta_keep d0 d' \<and>
     (ok \<longrightarrow> (\<forall>x. in_meta_sector x \<longrightarrow> ld8 H d' x = 0xFF))) d"
proof (induction k arbitrary: d)
  case (Suc k)
  have er: "wp (HAL_FLASHEx_Erase H meta_erase) (\<lambda>p s. wp (case p of (st, SectorError) \<Rightarrow>
      if st = HAL_OK then return True else meta_erase_loop H k) (\<lambda>ok d'. meta_keep d0 d' \<and>
     (ok \<longrightarrow> (\<forall>x. in_meta_sector x \<longrightarrow> ld8 H d' x = 0xFF))) s) s" if "meta_keep d0 s" for s
    by (rule wp_mono [OF erase_again [OF that]]) (use Suc.IH in \<open>auto split: prod.splits\<close>)
  show ?case
    unfolding meta_erase_loop.simps wp_bind by (rule wp_mono [OF presD [OF flash_quiets(1) Suc.prems] er])
qed simp

lemma meta_prog_loop_ok:
  assumes a: "a mod 32 = 0" "length bs = 32"
  shows "flash_within (prog_rel a bs) d0 d \<Longrightarrow>
    wp (meta_prog_loop H a bs k) (\<lambda>ok d'. flash_within (prog_rel a bs) d0 d' \<and>
     (ok \<longrightarrow> ld8 H d' = prog_mem a bs (ld8 H d0))) d"
proof (induction k arbitrary: d)
  case (Suc k)
  have pr: "wp (HAL_FLASH_Program H a bs) (\<lambda>st. wp (if st = HAL_OK then return True else meta_prog_loop H a bs k)
      (\<lambda>ok d'. flash_within (prog_rel a bs) d0 d' \<and> (ok \<longrightarrow> ld8 H d' = prog_mem a bs (ld8 H d0)))) s"
    if "flash_within (prog_rel a bs) d0 s" for s
    by (rule wp_mono [OF program_again [OF that a]]) (use Suc.IH in auto)
  show ?case
    unfolding meta_prog_loop.simps wp_bind by (rule wp_mono [OF presD [OF flash_quiets(1) Suc.prems] pr])
qed simp

lemma meta_words_loop_ok:
  assumes "(i + n) * 32 \<le> length bs" "i + n \<le> 2" "meta_keep d0 d"
  shows "wp (meta_words_loop H bs i n) (\<lambda>ok d'. meta_keep d0 d' \<and> (ok \<longrightarrow>
     ld8 H d' = prog_mem (METADATA_ADDR + i * 32) (take (n * 32) (drop (i * 32) bs)) (ld8 H d))) d"
  using assms
proof (induction n arbitrary: i d)
  case (Suc n)
  let ?w = "take 32 (drop (i * 32) bs)" and ?a = "METADATA_ADDR + i * 32"
  have w: "length ?w = 32" "?a mod 32 = 0" using Suc.prems(1) by (simp_all add: METADATA_ADDR_def)
  have split: "take (Suc n * 32) (drop (i * 32) bs) = ?w @ take (n * 32) (drop (Suc i * 32) bs)"
    using take_add [of 32 "n * 32" "drop (i * 32) bs"] by (simp add: add.commute)
  have keep: "meta_keep d0 s" if "flash_within (prog_rel ?a ?w) d s" for s
  proof (rule flash_within_trans [OF cell_rel_sectors Suc.prems(3) flash_within_mono [OF that]])
    fix x a b assume "prog_rel ?a ?w x a b"
    then show "sectors_rel meta_erase x a b" using w Suc.prems(2) by (intro prog_rel_in_sector) auto
  qed
  have rest: "wp (meta_words_loop H bs (Suc i) n) (\<lambda>ok d'. meta_keep d0 d' \<and> (ok \<longrightarrow>
      ld8 H d' = prog_mem ?a (take (Suc n * 32) (drop (i * 32) bs)) (ld8 H d))) s"
    if "meta_keep d0 s" "ld8 H s = prog_mem ?a ?w (ld8 H d)" for s
  proof (rule wp_mono [OF Suc.IH])
    fix ok s' assume "meta_keep d0 s' \<and> (ok \<longrightarrow> ld8 H s' =
      prog_mem (METADATA_ADDR + Suc i * 32) (take (n * 32) (drop (Suc i * 32) bs)) (ld8 H s))"
    moreover have "METADATA_ADDR + Suc i * 32 = ?a + length ?w" using w by simp
    ultimately show "meta_keep d0 s' \<and> (ok \<longrightarrow> ld8 H s' =
      prog_mem ?a (take (Suc n * 32) (drop (i * 32) bs)) (ld8 H d))"
      unfolding split that(2) by (metis prog_mem_append)
  qed (use Suc.prems that in auto)
  show ?case
    unfolding meta_words_loop.simps wp_bind
    by (rule wp_mono [OF meta_prog_loop_ok [OF w(2,1) flash_within_refl]]) (use keep rest in auto)
qed simp

lemma Metadata_Write_ok:
  assumes "meta_wf m"
  shows "wp (Metadata_Write H m) (\<lambda>(r, m') d'. m' = m\<lparr>magic := METADATA_MAGIC\<rparr> \<and> meta_keep d d' \<and> locked d' \<and>
     r \<in> {0, -1} \<and> (r = 0 \<longrightarrow> Metadata_Of (ld8 H d') = m')) d"
proof -
  define m' where "m' = m\<lparr>magic := METADATA_MAGIC\<rparr>"
  have m': "meta_wf m'" "magic m' = METADATA_MAGIC" using assms by (simp_all add: m'_def meta_wf_def)
  let ?Q = "\<lambda>(r :: int, m2) d'. m2 = m' \<and> meta_keep d d' \<and> locked d' \<and>
     r \<in> {0, -1} \<and> (r = 0 \<longrightarrow> Metadata_Of (ld8 H d') = m')"
  have lock: "wp (HAL_FLASH_Lock H) (\<lambda>_ s'. meta_keep d s' \<and> locked s') s" if "meta_keep d s" for s
    by (rule wp_conj [OF presD [OF flash_within_lock that] Lock_locked])
  have dc: "wp (SCB_InvalidateDCache H) (\<lambda>_ s'. meta_keep d s' \<and> locked s') s" if "meta_keep d s \<and> locked s" for s
    using presD [OF flash_quiets(3)] that quiet_dcache unfolding quiet_def same_flash_def
    by (intro wp_conj) (auto intro!: wpI)
  have words: "wp (meta_words_loop H (meta_bytes m') 0 2) (\<lambda>_ s'. meta_keep d s') s" if "meta_keep d s" for s
    by (rule wp_mono [OF meta_words_loop_ok [where ?d0.0 = d]]) (use that m' in \<open>auto simp: length_meta_bytes\<close>)
  show ?thesis
    unfolding Metadata_Write_def Let_def m'_def [symmetric] wp_bind
    by (rule wp_mono [OF presD [OF flash_within_unlock flash_within_refl [OF cell_rel_sectors]]],
        rule wp_mono [OF meta_erase_loop_ok], assumption)
      (auto simp: Metadata_Of_bytes m' intro!: wp_mono [OF words] wp_mono [OF lock] wp_mono [OF dc])
qed

end

end
