(* ===== verification/Ota_Receive.thy ===== *)
theory Ota_Receive
  imports Prelude
begin

text \<open>
  The network half of \<^verbatim>\<open>src/STM32/Bootloader/User/ota/ota.c\<close>: the TCP server on port 8000 and its lwIP
  callbacks. The file's globals are one record, passed explicitly. What the code asks of lwIP is
  logged in the record (\<open>lw\<close>), what lwIP answers is the argument \<open>L\<close>; lwIP calls the error callback of
  a connection that is aborted, so \<open>err_cbs\<close> remembers for which connections it is registered. A
  \<^verbatim>\<open>memcpy\<close> outside its array, a null pointer given to \<^verbatim>\<open>tcp_abort\<close> and the use of a connection that was
  freed are undefined behaviour: the value \<open>None\<close>.
\<close>

type_synonym pcb = nat
type_synonym err_t = int

abbreviation ERR_OK :: err_t where "ERR_OK \<equiv> 0"
abbreviation ERR_ABRT :: err_t where "ERR_ABRT \<equiv> -13"

definition OTA_PORT :: nat where "OTA_PORT = 8000"
definition OTA_MAGIC :: u32 where "OTA_MAGIC = 0x0041544F"
definition OTA_TRIGGER_PORT :: nat where "OTA_TRIGGER_PORT = 8002"
definition OTA_TRIGGER_MAGIC :: string where "OTA_TRIGGER_MAGIC = ''OTA_TRIGGER''"
definition OTA_BUF_SIZE :: nat where "OTA_BUF_SIZE = 512 * 1024"

datatype ota_state_t = OTA_STATE_IDLE | OTA_STATE_RECEIVING | OTA_STATE_VERIFY | OTA_STATE_CONFIRM
  | OTA_STATE_DONE | OTA_STATE_ERROR

datatype lwip_call = Tcp_new | Tcp_bind pcb nat | Tcp_listen pcb | Tcp_accept "pcb option"
  | Tcp_recv "pcb option" | Tcp_err "pcb option" | So_reuseaddr pcb | Tcp_recved pcb nat | Pbuf_free | Tcp_close pcb | Tcp_abort pcb
  | Udp_new | Pbuf_alloc nat | Udp_sendto string nat | Udp_remove
  | Tcp_connect pcb nat | Tcp_write pcb string | Tcp_output pcb

record lwip_env =
  tcp_new_res :: "pcb option"
  tcp_bind_res :: err_t
  tcp_listen_res :: "pcb option"
  tcp_close_res :: "pcb \<Rightarrow> err_t"
  tcp_connect_res :: err_t
  udp_new_res :: bool
  pbuf_alloc_res :: bool

record ota =
  ota_server_pcb :: "pcb option"
  ota_client_pcb :: "pcb option"
  ota_state :: ota_state_t
  ota_header_parsed :: bool
  ota_expected :: nat
  ota_received :: nat
  ota_crc_expected :: u32
  ota_stage :: "u8 list"
  ota_buf :: "nat \<Rightarrow> u8"
  err_cbs :: "pcb list"
  lw :: "lwip_call list"

definition ota_init :: ota where
  "ota_init = \<lparr>ota_server_pcb = None, ota_client_pcb = None, ota_state = OTA_STATE_IDLE,
     ota_header_parsed = False, ota_expected = 0, ota_received = 0, ota_crc_expected = 0,
     ota_stage = replicate 8 0, ota_buf = (\<lambda>_. 0), err_cbs = [], lw = []\<rparr>"

definition lw_do :: "lwip_call \<Rightarrow> ota \<Rightarrow> ota" where
  "lw_do c s = s\<lparr>lw := lw s @ [c]\<rparr>"

section \<open>Callbacks\<close>

definition ota_err_cb :: "ota \<Rightarrow> ota" where
  "ota_err_cb s =
     (let s = s\<lparr>ota_client_pcb := None\<rparr>
      in if ota_state s = OTA_STATE_RECEIVING then s\<lparr>ota_state := OTA_STATE_ERROR\<rparr> else s)"

text \<open>\<^verbatim>\<open>tcp_abort\<close> ends in \<^verbatim>\<open>tcp_abandon\<close>, which frees the pcb and then calls its error callback.\<close>

definition tcp_abort_ota :: "pcb \<Rightarrow> ota \<Rightarrow> ota" where
  "tcp_abort_ota pcb s =
     (let s1 = lw_do (Tcp_abort pcb) (s\<lparr>err_cbs := filter (\<lambda>c. c \<noteq> pcb) (err_cbs s)\<rparr>)
      in if pcb \<in> set (err_cbs s) then ota_err_cb s1 else s1)"

text \<open>
  \<open>None\<close> as the new connection is the null pointer with which lwIP reports that it could not allocate
  one. \<^verbatim>\<open>tcp_recv\<close> and \<^verbatim>\<open>tcp_err\<close> ignore a null pointer; \<^verbatim>\<open>tcp_abort\<close> dereferences it.
\<close>

definition ota_accept_cb :: "pcb option \<Rightarrow> ota \<Rightarrow> (err_t \<times> ota) option" where
  "ota_accept_cb newpcb s =
     (if ota_client_pcb s \<noteq> None then
        (case newpcb of None \<Rightarrow> None | Some p \<Rightarrow> Some (ERR_ABRT, tcp_abort_ota p s))
      else
        let s = s\<lparr>ota_client_pcb := newpcb\<rparr>;
            s = lw_do (Tcp_recv newpcb) s;
            s = lw_do (Tcp_err newpcb) (case newpcb of None \<Rightarrow> s | Some p \<Rightarrow> s\<lparr>err_cbs := p # err_cbs s\<rparr>)
        in Some (ERR_OK, s))"

text \<open>
  The \<^verbatim>\<open>while (len > 0)\<close> loop over one pbuf, \<open>data\<close> being the bytes from \<^verbatim>\<open>data\<close> on. The result says
  whether the loop fell through (\<open>True\<close>) or the callback returned from inside it.
\<close>

function ota_recv_bytes :: "u8 list \<Rightarrow> ota \<Rightarrow> (bool \<times> ota) option" where
  "ota_recv_bytes data s =
     (if data = [] then Some (True, s)
      else if \<not> ota_header_parsed s then
        let len = length data;
            need = 8 - int (ota_received s);
            tk = (if int len < need mod 4294967296 then int len else need)
        in if tk < 0 \<or> 8 < ota_received s + nat tk then None
           else let s1 = s\<lparr>ota_stage := array_write (ota_stage s) (ota_received s) (take (nat tk) data),
                           ota_received := wrap32 (ota_received s + nat tk)\<rparr>;
                    rest = drop (nat tk) data
                in if ota_received s1 = 8 then
                     (if le32 (take 4 (ota_stage s1)) \<noteq> OTA_MAGIC
                      then Some (False, s1\<lparr>ota_state := OTA_STATE_ERROR\<rparr>)
                      else ota_recv_bytes rest
                             (s1\<lparr>ota_expected := unat (le32 (drop 4 (ota_stage s1))), ota_received := 0,
                                 ota_header_parsed := True\<rparr>))
                   else ota_recv_bytes rest s1
      else if OTA_BUF_SIZE < ota_received s + length data then None
      else ota_recv_bytes []
             (s\<lparr>ota_buf := mem_write (ota_buf s) (ota_received s) data,
               ota_received := wrap32 (ota_received s + length data)\<rparr>))"
  by pat_completeness auto
termination
  by (relation "measures [\<lambda>(data, s). if ota_header_parsed s then 0 else 1, \<lambda>(data, s). length data]")
    (auto simp: wrap32_def split: if_splits)

declare ota_recv_bytes.simps [simp del]

text \<open>The loop over the pbufs of a chain.\<close>

fun ota_recv_pbufs :: "u8 list list \<Rightarrow> ota \<Rightarrow> ota option" where
  "ota_recv_pbufs [] s = Some s"
| "ota_recv_pbufs (q # qs) s =
     (if OTA_BUF_SIZE < wrap32 (ota_received s + length q) then Some (s\<lparr>ota_state := OTA_STATE_ERROR\<rparr>)
      else case ota_recv_bytes q s of
        None \<Rightarrow> None
      | Some (cont, s') \<Rightarrow> if cont then ota_recv_pbufs qs s' else Some s')"

text \<open>\<open>None\<close> as the pbuf is the null pointer with which lwIP reports that the peer has closed.\<close>

definition ota_recv_cb :: "lwip_env \<Rightarrow> pcb \<Rightarrow> u8 list list option \<Rightarrow> ota \<Rightarrow> (err_t \<times> ota) option" where
  "ota_recv_cb L pcb p s =
     (case p of
        None \<Rightarrow>
          let s = lw_do (Tcp_close pcb) (s\<lparr>ota_client_pcb := None\<rparr>);
              s = (if tcp_close_res L pcb \<noteq> ERR_OK then tcp_abort_ota pcb s else s);
              s = (if ota_state s = OTA_STATE_RECEIVING
                   then s\<lparr>ota_state := if ota_expected s \<noteq> 0 \<and> ota_expected s \<le> ota_received s
                                       then OTA_STATE_VERIFY else OTA_STATE_ERROR\<rparr>
                   else s)
          in Some (ERR_OK, s)
      | Some chain \<Rightarrow>
          (case ota_recv_pbufs chain s of
             None \<Rightarrow> None
           | Some s' \<Rightarrow> Some (ERR_OK,
               lw_do Pbuf_free (lw_do (Tcp_recved pcb (sum_list (map length chain))) s'))))"

text \<open>
  After a callback of a connection lwIP goes on with that connection, unless the callback returned
  \<^verbatim>\<open>ERR_ABRT\<close>. One that the callback aborted is freed by then.
\<close>

definition tcp_input_after :: "pcb \<Rightarrow> ota \<Rightarrow> (err_t \<times> ota) option \<Rightarrow> ota option" where
  "tcp_input_after pcb s r =
     (case r of None \<Rightarrow> None
      | Some (e, s') \<Rightarrow> if e \<noteq> ERR_ABRT \<and> Tcp_abort pcb \<in> set (drop (length (lw s)) (lw s')) then None else Some s')"

section \<open>The server\<close>

definition OTA_Server_Stop :: "lwip_env \<Rightarrow> ota \<Rightarrow> ota" where
  "OTA_Server_Stop L s =
     (let s = (case ota_client_pcb s of None \<Rightarrow> s | Some c \<Rightarrow> (tcp_abort_ota c s)\<lparr>ota_client_pcb := None\<rparr>);
          s = (case ota_server_pcb s of None \<Rightarrow> s
               | Some l \<Rightarrow> let s1 = lw_do (Tcp_close l) s;
                             s2 = (if tcp_close_res L l \<noteq> ERR_OK then tcp_abort_ota l s1 else s1)
                         in s2\<lparr>ota_server_pcb := None\<rparr>)
      in s\<lparr>ota_state := OTA_STATE_IDLE\<rparr>)"

definition OTA_Server_Start :: "lwip_env \<Rightarrow> ota \<Rightarrow> int \<times> ota" where
  "OTA_Server_Start L s =
     (let s = (OTA_Server_Stop L s)\<lparr>ota_state := OTA_STATE_RECEIVING, ota_header_parsed := False,
                ota_expected := 0, ota_received := 0\<rparr>;
          s = lw_do Tcp_new (s\<lparr>ota_server_pcb := tcp_new_res L\<rparr>)
      in case tcp_new_res L of
           None \<Rightarrow> (-1, s\<lparr>ota_state := OTA_STATE_ERROR\<rparr>)
         | Some l \<Rightarrow>
             let s = lw_do (So_reuseaddr l) s;
                 s = lw_do (Tcp_bind l OTA_PORT) s
             in if tcp_bind_res L \<noteq> ERR_OK then (-1, OTA_Server_Stop L s)
                else let s = (lw_do (Tcp_listen l) s)\<lparr>ota_server_pcb := tcp_listen_res L\<rparr>
                     in (0, lw_do (Tcp_accept (tcp_listen_res L)) s))"

definition OTA_SendTrigger :: "lwip_env \<Rightarrow> ota \<Rightarrow> ota" where
  "OTA_SendTrigger L s =
     (let s = lw_do Udp_new s
      in if \<not> udp_new_res L then s
         else let s = lw_do (Pbuf_alloc (length OTA_TRIGGER_MAGIC)) s
              in if \<not> pbuf_alloc_res L then lw_do Udp_remove s
                 else lw_do Udp_remove (lw_do Pbuf_free
                        (lw_do (Udp_sendto OTA_TRIGGER_MAGIC OTA_TRIGGER_PORT) s)))"

definition OTA_Abort :: "lwip_env \<Rightarrow> ota \<Rightarrow> ota" where
  "OTA_Abort L s = OTA_Server_Stop L s"

definition OTA_ResetState :: "ota \<Rightarrow> ota" where
  "OTA_ResetState s = s\<lparr>ota_state := OTA_STATE_IDLE\<rparr>"

definition OTA_IsConfirm :: "ota \<Rightarrow> bool" where
  "OTA_IsConfirm s \<longleftrightarrow> ota_state s = OTA_STATE_CONFIRM"

definition OTA_IsReceiving :: "ota \<Rightarrow> bool" where
  "OTA_IsReceiving s \<longleftrightarrow> ota_state s = OTA_STATE_RECEIVING"

definition OTA_GetState :: "ota \<Rightarrow> ota_state_t" where
  "OTA_GetState s = ota_state s"

definition OTA_GetReceived :: "ota \<Rightarrow> nat" where
  "OTA_GetReceived s = ota_received s"

definition OTA_GetExpected :: "ota \<Rightarrow> nat" where
  "OTA_GetExpected s = ota_expected s"

definition OTA_GetClientPcb :: "ota \<Rightarrow> pcb option" where
  "OTA_GetClientPcb s = ota_client_pcb s"

definition OTA_SetExpectedCRC :: "u32 \<Rightarrow> ota \<Rightarrow> ota" where
  "OTA_SetExpectedCRC crc s = s\<lparr>ota_crc_expected := crc\<rparr>"

section \<open>One pbuf\<close>

text \<open>What one pbuf does, in closed form.\<close>

lemma recv_bytes_Nil [simp]: "ota_recv_bytes [] s = Some (True, s)"
  by (simp add: ota_recv_bytes.simps)

lemma recv_bytes_data:
  assumes "ota_header_parsed s" "ota_received s + length data \<le> OTA_BUF_SIZE"
  shows "ota_recv_bytes data s = Some (True, s\<lparr>ota_buf := mem_write (ota_buf s) (ota_received s) data,
     ota_received := ota_received s + length data\<rparr>)"
proof (cases "data = []")
  case False
  have "ota_received s + length data < 4294967296" using assms(2) by (simp add: OTA_BUF_SIZE_def)
  with False assms show ?thesis by (subst ota_recv_bytes.simps) simp
qed simp

lemma recv_bytes_short:
  assumes "\<not> ota_header_parsed s" "ota_received s + length data < 8"
  shows "ota_recv_bytes data s = Some (True, s\<lparr>ota_stage := array_write (ota_stage s) (ota_received s) data,
     ota_received := ota_received s + length data\<rparr>)"
proof (cases "data = []")
  case True
  then show ?thesis by (simp add: array_write_def)
next
  case False
  have "int (length data) < (8 - int (ota_received s)) mod 4294967296" using assms(2) by simp
  with False assms show ?thesis by (subst ota_recv_bytes.simps) (simp add: Let_def)
qed

lemma recv_bytes_header:
  assumes "\<not> ota_header_parsed s" "ota_received s \<le> 8" "8 \<le> ota_received s + length data" "data \<noteq> []"
    and st: "st = array_write (ota_stage s) (ota_received s) (take (8 - ota_received s) data)"
    and len: "length data \<le> OTA_BUF_SIZE"
  shows "ota_recv_bytes data s =
    (if le32 (take 4 st) \<noteq> OTA_MAGIC
     then Some (False, s\<lparr>ota_stage := st, ota_received := 8, ota_state := OTA_STATE_ERROR\<rparr>)
     else Some (True, s\<lparr>ota_stage := st, ota_expected := unat (le32 (drop 4 st)), ota_header_parsed := True,
        ota_buf := mem_write (ota_buf s) 0 (drop (8 - ota_received s) data),
        ota_received := length data - (8 - ota_received s)\<rparr>))"
proof -
  have n: "(8 - int (ota_received s)) mod 4294967296 = 8 - int (ota_received s)" using assms(2) by simp
  have nn: "nat (8 - int (ota_received s)) = 8 - ota_received s" using assms(2) by linarith
  have tk: "(if int (length data) < (8 - int (ota_received s)) mod 4294967296 then int (length data)
      else 8 - int (ota_received s)) = 8 - int (ota_received s)"
    unfolding n using assms(3) by auto
  have sum: "ota_received s + (8 - ota_received s) = 8" using assms(2) by simp
  show ?thesis
    using assms(1,4) len
    by (subst ota_recv_bytes.simps) (simp only: Let_def tk nn st [symmetric] sum simp_thms if_False,
        use assms(2) in \<open>simp add: recv_bytes_data n\<close>)
qed

section \<open>Memory safety\<close>

definition ota_wf :: "ota \<Rightarrow> bool" where
  "ota_wf s \<longleftrightarrow> length (ota_stage s) = 8 \<and>
     (if ota_header_parsed s then ota_received s \<le> OTA_BUF_SIZE
      else ota_received s \<le> 8 \<and> (ota_received s = 8 \<longrightarrow> le32 (take 4 (ota_stage s)) \<noteq> OTA_MAGIC))"

text \<open>\<^verbatim>\<open>len\<close> of a pbuf is a 16-bit number.\<close>

definition pbufs_ok :: "u8 list list \<Rightarrow> bool" where
  "pbufs_ok qs \<longleftrightarrow> (\<forall>q \<in> set qs. length q < 65536)"

lemma recv_bytes_wf:
  assumes "ota_wf s" "ota_received s + length data \<le> OTA_BUF_SIZE"
  shows "\<exists>c s'. ota_recv_bytes data s = Some (c, s') \<and> ota_wf s' \<and> lw s' = lw s"
proof -
  consider "data = []" | "ota_header_parsed s" | "\<not> ota_header_parsed s" "ota_received s + length data < 8"
    | "data \<noteq> []" "\<not> ota_header_parsed s" "8 \<le> ota_received s + length data" by fastforce
  then show ?thesis
  proof cases
    case 2 then show ?thesis using assms by (auto simp: recv_bytes_data ota_wf_def)
  next
    case 3 then show ?thesis using assms by (auto simp: recv_bytes_short ota_wf_def)
  next
    case 4
    then show ?thesis using assms recv_bytes_header [OF 4(2) _ 4(3,1) refl]
      by (auto simp: ota_wf_def)
  qed (use assms in auto)
qed

lemma recv_pbufs_wf:
  "ota_wf s \<Longrightarrow> pbufs_ok qs \<Longrightarrow> \<exists>s'. ota_recv_pbufs qs s = Some s' \<and> ota_wf s' \<and> lw s' = lw s"
proof (induction qs arbitrary: s)
  case (Cons q qs)
  show ?case
  proof (cases "OTA_BUF_SIZE < wrap32 (ota_received s + length q)")
    case True then show ?thesis using Cons.prems by (simp add: ota_wf_def)
  next
    case False
    have "ota_received s + length q < 4294967296"
      using Cons.prems by (auto simp: ota_wf_def pbufs_ok_def OTA_BUF_SIZE_def split: if_splits)
    with False have "ota_received s + length q \<le> OTA_BUF_SIZE" by simp
    from recv_bytes_wf [OF Cons.prems(1) this] obtain c s'
      where s': "ota_recv_bytes q s = Some (c, s')" "ota_wf s'" "lw s' = lw s" by blast
    show ?thesis using Cons.IH [OF s'(2)] Cons.prems s' False by (simp add: pbufs_ok_def)
  qed
qed simp

section \<open>The byte stream, whatever its segmentation\<close>

definition stream_ok :: "u8 list \<Rightarrow> bool" where
  "stream_ok bs \<longleftrightarrow> (8 \<le> length bs \<longrightarrow> le32 (take 4 bs) = OTA_MAGIC) \<and> length bs \<le> 8 + OTA_BUF_SIZE"

definition stream_size :: "u8 list \<Rightarrow> nat" where
  "stream_size bs = unat (le32 (take 4 (drop 4 bs)))"

definition ota_repr :: "u8 list \<Rightarrow> ota \<Rightarrow> bool" where
  "ota_repr bs s \<longleftrightarrow> stream_ok bs \<and> length (ota_stage s) = 8 \<and>
     (if length bs < 8 then \<not> ota_header_parsed s \<and> ota_expected s = 0 \<and> ota_received s = length bs \<and> take (length bs) (ota_stage s) = bs
      else ota_header_parsed s \<and> ota_expected s = stream_size bs \<and> ota_received s = length bs - 8 \<and>
        mem_slice (ota_buf s) 0 (length bs - 8) = drop 8 bs)"

lemma ota_repr_wf: "ota_repr bs s \<Longrightarrow> ota_wf s"
  by (auto simp: ota_repr_def ota_wf_def stream_ok_def split: if_splits)

lemma mem_slice_write_0: "mem_slice (mem_write m 0 bs) 0 (length bs) = bs"
  using mem_slice_write_append [of m 0 0 bs] by simp

lemma recv_bytes_repr:
  assumes r: "ota_repr bs s" and len: "ota_received s + length data \<le> OTA_BUF_SIZE"
  shows "if stream_ok (bs @ data)
    then \<exists>s'. ota_recv_bytes data s = Some (True, s') \<and> ota_repr (bs @ data) s' \<and> ota_state s' = ota_state s
    else \<exists>s'. ota_recv_bytes data s = Some (False, s') \<and> ota_state s' = OTA_STATE_ERROR"
proof -
  consider "8 \<le> length bs" | "length bs + length data < 8" | "length bs < 8" "8 \<le> length bs + length data" by linarith
  then show ?thesis
  proof cases
    case 1
    have ok: "stream_ok (bs @ data)" using r 1 len by (auto simp: ota_repr_def stream_ok_def)
    have sl: "mem_slice (mem_write (ota_buf s) (length bs - 8) data) 0 (length bs - 8 + length data) = drop 8 bs @ data"
      using mem_slice_write_append [of "ota_buf s" 0 "length bs - 8" data] r 1 by (simp add: ota_repr_def)
    have e: "length bs - 8 + length data = length bs + length data - 8" using 1 by simp
    show ?thesis using r 1 len ok sl [unfolded e] recv_bytes_data [of s data]
      by (simp add: ota_repr_def stream_size_def e)
  next
    case 2
    then have ok: "stream_ok (bs @ data)" by (auto simp: stream_ok_def)
    have "take (length bs + length data) (array_write (ota_stage s) (length bs) data) = bs @ data"
      using take_array_write [of "length bs" "ota_stage s" data] r 2 by (simp add: ota_repr_def)
    then show ?thesis using r 2 ok recv_bytes_short [of s data] by (simp add: ota_repr_def)
  next
    case 3
    define k where "k = 8 - length bs"
    have rs: "ota_received s = length bs" "\<not> ota_header_parsed s" "length (ota_stage s) = 8"
      "take (length bs) (ota_stage s) = bs" using r 3 by (auto simp: ota_repr_def)
    have k: "length bs + k = 8" "k \<le> length data" using 3 by (auto simp: k_def)
    define st where "st = array_write (ota_stage s) (length bs) (take k data)"
    have st: "st = bs @ take k data"
      using take_array_write [of "length bs" "ota_stage s" "take k data"] rs 3 k
      by (simp add: st_def array_write_def)
    have b: "take 4 st = take 4 (bs @ data)" "drop 4 st = take 4 (drop 4 (bs @ data))"
    proof -
      have "st = take 8 (bs @ data)" using st 3 by (simp add: k_def)
      then show "take 4 st = take 4 (bs @ data)" "drop 4 st = take 4 (drop 4 (bs @ data))"
        by (simp_all only: take_take take_drop) simp_all
    qed
    have d: "drop 8 (bs @ data) = drop k data" using 3 by (simp add: k_def)
    have ok: "stream_ok (bs @ data) \<longleftrightarrow> le32 (take 4 st) = OTA_MAGIC"
      using 3 len rs unfolding stream_ok_def b by auto
    have "data \<noteq> []" "length data \<le> OTA_BUF_SIZE" using 3 len by auto
    note hd = recv_bytes_header [OF rs(2) _ _ this(1) _ this(2), unfolded rs(1), of st, folded k_def, OF _ _ st_def]
    have sl: "mem_slice (mem_write (ota_buf s) 0 (drop k data)) 0 (length data - k) = drop k data"
      using mem_slice_write_0 [of "ota_buf s" "drop k data"] by simp
    have e: "length data - k = length bs + length data - 8" using k by simp
    have l: "length st = 8" using st k by simp
    show ?thesis
      using hd 3 ok sl [unfolded e] l unfolding ota_repr_def stream_size_def b(2) [symmetric] d
      by (auto simp: e)
  qed
qed

lemma stream_ok_prefix: "stream_ok (a @ b) \<Longrightarrow> stream_ok a"
  by (auto simp: stream_ok_def)

lemma recv_pbufs_repr:
  "ota_repr bs s \<Longrightarrow> pbufs_ok qs \<Longrightarrow>
   if stream_ok (bs @ concat qs)
   then \<exists>s'. ota_recv_pbufs qs s = Some s' \<and> ota_repr (bs @ concat qs) s' \<and> ota_state s' = ota_state s
   else \<exists>s'. ota_recv_pbufs qs s = Some s' \<and> ota_state s' = OTA_STATE_ERROR"
proof (induction qs arbitrary: s bs)
  case Nil
  then show ?case by (auto simp: ota_repr_def)
next
  case (Cons q qs)
  have q: "length q < 65536" "pbufs_ok qs" using Cons.prems(2) by (auto simp: pbufs_ok_def)
  have rl: "ota_received s \<le> OTA_BUF_SIZE"
    using ota_repr_wf [OF Cons.prems(1)] by (auto simp: ota_wf_def OTA_BUF_SIZE_def split: if_splits)
  then have wr: "wrap32 (ota_received s + length q) = ota_received s + length q"
    using q(1) by (simp add: OTA_BUF_SIZE_def)
  show ?case
  proof (cases "OTA_BUF_SIZE < ota_received s + length q")
    case True
    then have "\<not> stream_ok (bs @ q @ concat qs)"
      using Cons.prems(1) q(1) by (auto simp: ota_repr_def stream_ok_def OTA_BUF_SIZE_def split: if_splits)
    then show ?thesis using True wr by simp
  next
    case False
    then have len: "ota_received s + length q \<le> OTA_BUF_SIZE" by simp
    show ?thesis
    proof (cases "stream_ok (bs @ q)")
      case True
      with recv_bytes_repr [OF Cons.prems(1) len] obtain s'
        where "ota_recv_bytes q s = Some (True, s')" "ota_repr (bs @ q) s'" "ota_state s' = ota_state s" by auto
      with Cons.IH [OF this(2) q(2)] False wr show ?thesis by (auto split: if_splits)
    next
      case bad: False
      then have "\<not> stream_ok (bs @ q @ concat qs)" using stream_ok_prefix [of "bs @ q" "concat qs"] by auto
      with recv_bytes_repr [OF Cons.prems(1) len] bad False wr show ?thesis by auto
    qed
  qed
qed

text \<open>A connection: the chains lwIP delivers one after the other, then the close of the peer.\<close>

fun ota_recv_all :: "lwip_env \<Rightarrow> pcb \<Rightarrow> u8 list list list \<Rightarrow> ota \<Rightarrow> ota option" where
  "ota_recv_all L pcb [] s = Some s"
| "ota_recv_all L pcb (c # cs) s =
     (case tcp_input_after pcb s (ota_recv_cb L pcb (Some c) s) of None \<Rightarrow> None | Some s' \<Rightarrow> ota_recv_all L pcb cs s')"

definition ota_connection :: "lwip_env \<Rightarrow> pcb \<Rightarrow> u8 list list list \<Rightarrow> ota \<Rightarrow> ota option" where
  "ota_connection L pcb cs s =
     (case ota_recv_all L pcb cs s of None \<Rightarrow> None
      | Some s' \<Rightarrow> tcp_input_after pcb s' (ota_recv_cb L pcb None s'))"

lemma lw_do_fields [simp]:
  "ota_state (lw_do c s) = ota_state s" "ota_received (lw_do c s) = ota_received s"
  "ota_expected (lw_do c s) = ota_expected s" "ota_buf (lw_do c s) = ota_buf s"
  "ota_stage (lw_do c s) = ota_stage s" "ota_header_parsed (lw_do c s) = ota_header_parsed s"
  "ota_client_pcb (lw_do c s) = ota_client_pcb s" "ota_server_pcb (lw_do c s) = ota_server_pcb s"
  "err_cbs (lw_do c s) = err_cbs s" "ota_crc_expected (lw_do c s) = ota_crc_expected s"
  "lw (lw_do c s) = lw s @ [c]"
  by (simp_all add: lw_do_def)

lemma ota_wf_cong:
  "ota_stage s' = ota_stage s \<Longrightarrow> ota_header_parsed s' = ota_header_parsed s \<Longrightarrow> ota_received s' = ota_received s \<Longrightarrow>
   ota_wf s' = ota_wf s"
  by (simp add: ota_wf_def)

lemma ota_repr_lw_do [simp]: "ota_repr bs (lw_do c s) = ota_repr bs s" "ota_wf (lw_do c s) = ota_wf s"
  by (simp_all add: ota_repr_def ota_wf_def)

text \<open>What lwIP goes on with after the two kinds of receive callbacks.\<close>

lemma after_data:
  assumes "ota_recv_pbufs c s = Some s'" "lw s' = lw s"
  shows "tcp_input_after pcb s (ota_recv_cb L pcb (Some c) s) =
    Some (lw_do Pbuf_free (lw_do (Tcp_recved pcb (sum_list (map length c))) s'))"
  using assms by (simp add: tcp_input_after_def ota_recv_cb_def)

lemma abort_lw: "lw (tcp_abort_ota p s) = lw s @ [Tcp_abort p]"
  by (simp add: tcp_abort_ota_def ota_err_cb_def Let_def)

lemma after_close:
  "tcp_input_after pcb s (ota_recv_cb L pcb None s) =
    (if tcp_close_res L pcb = ERR_OK then map_option snd (ota_recv_cb L pcb None s) else None)"
  by (simp add: tcp_input_after_def ota_recv_cb_def Let_def abort_lw)

lemma recv_bytes_error:
  assumes "ota_wf s" "ota_received s + length data \<le> OTA_BUF_SIZE" "ota_state s = OTA_STATE_ERROR"
    "ota_recv_bytes data s = Some (c, s')"
  shows "ota_state s' = OTA_STATE_ERROR"
proof -
  consider "data = []" | "ota_header_parsed s" | "\<not> ota_header_parsed s" "ota_received s + length data < 8"
    | "data \<noteq> []" "\<not> ota_header_parsed s" "8 \<le> ota_received s + length data" by fastforce
  then show ?thesis
  proof cases
    case 4
    then show ?thesis using assms recv_bytes_header [OF 4(2) _ 4(3,1) refl] by (auto simp: ota_wf_def split: if_splits)
  qed (use assms in \<open>auto simp: recv_bytes_data recv_bytes_short\<close>)
qed

lemma recv_pbufs_error:
  "ota_wf s \<Longrightarrow> pbufs_ok qs \<Longrightarrow> ota_state s = OTA_STATE_ERROR \<Longrightarrow> ota_recv_pbufs qs s = Some s' \<Longrightarrow>
   ota_state s' = OTA_STATE_ERROR"
proof (induction qs arbitrary: s)
  case (Cons q qs)
  have wr: "wrap32 (ota_received s + length q) = ota_received s + length q"
    using Cons.prems by (auto simp: ota_wf_def pbufs_ok_def OTA_BUF_SIZE_def split: if_splits)
  show ?case
  proof (cases "OTA_BUF_SIZE < ota_received s + length q")
    case True then show ?thesis using Cons.prems(4) wr by auto
  next
    case False
    then obtain c s1 where s1: "ota_recv_bytes q s = Some (c, s1)" "ota_wf s1"
      using recv_bytes_wf [OF Cons.prems(1)] by force
    moreover have "ota_state s1 = OTA_STATE_ERROR"
      using recv_bytes_error [OF Cons.prems(1) _ Cons.prems(3) s1(1)] False by simp
    ultimately show ?thesis using Cons.IH [OF s1(2)] Cons.prems(2,4) False wr
      by (auto simp: pbufs_ok_def split: if_splits)
  qed
qed simp

lemma recv_all_error:
  "ota_wf s \<Longrightarrow> \<forall>c \<in> set cs. pbufs_ok c \<Longrightarrow> ota_state s = OTA_STATE_ERROR \<Longrightarrow>
   \<exists>s'. ota_recv_all L pcb cs s = Some s' \<and> ota_state s' = OTA_STATE_ERROR"
proof (induction cs arbitrary: s)
  case (Cons c cs)
  obtain s1 where s1: "ota_recv_pbufs c s = Some s1" "ota_wf s1" "lw s1 = lw s"
    using recv_pbufs_wf [OF Cons.prems(1), of c] Cons.prems(2) by auto
  then have "ota_state s1 = OTA_STATE_ERROR" using recv_pbufs_error Cons.prems by auto
  with s1 Cons.IH [of "lw_do Pbuf_free (lw_do (Tcp_recved pcb (sum_list (map length c))) s1)"] Cons.prems(2)
  show ?case by (auto simp: after_data)
qed simp

lemma recv_all_repr:
  "ota_repr bs s \<Longrightarrow> \<forall>c \<in> set cs. pbufs_ok c \<Longrightarrow>
   if stream_ok (bs @ concat (concat cs))
   then \<exists>s'. ota_recv_all L pcb cs s = Some s' \<and> ota_repr (bs @ concat (concat cs)) s' \<and> ota_state s' = ota_state s
   else \<exists>s'. ota_recv_all L pcb cs s = Some s' \<and> ota_state s' = OTA_STATE_ERROR"
proof (induction cs arbitrary: s bs)
  case Nil
  then show ?case by (auto simp: ota_repr_def)
next
  case (Cons c cs)
  have c: "pbufs_ok c" using Cons.prems(2) by simp
  obtain s1 where s1: "ota_recv_pbufs c s = Some s1" "ota_wf s1" "lw s1 = lw s"
    using recv_pbufs_wf [OF ota_repr_wf [OF Cons.prems(1)] c] by auto
  let ?s1 = "lw_do Pbuf_free (lw_do (Tcp_recved pcb (sum_list (map length c))) s1)"
  have step: "tcp_input_after pcb s (ota_recv_cb L pcb (Some c) s) = Some ?s1"
    by (rule after_data [OF s1(1,3)])
  show ?case
  proof (cases "stream_ok (bs @ concat c)")
    case True
    then have "ota_repr (bs @ concat c) ?s1" "ota_state ?s1 = ota_state s"
      using recv_pbufs_repr [OF Cons.prems(1) c] s1 by simp_all
    with Cons.IH [OF this(1)] Cons.prems(2) step show ?thesis by (auto split: if_splits)
  next
    case False
    then have "ota_state ?s1 = OTA_STATE_ERROR" using recv_pbufs_repr [OF Cons.prems(1) c] s1 by simp
    moreover have "\<not> stream_ok (bs @ concat c @ concat (concat cs))"
      using False stream_ok_prefix [of "bs @ concat c" "concat (concat cs)"] by auto
    ultimately show ?thesis using recv_all_error [of ?s1 cs L pcb] s1(2) Cons.prems(2) step by simp
  qed
qed

definition stream_complete :: "u8 list \<Rightarrow> bool" where
  "stream_complete bs \<longleftrightarrow> stream_ok bs \<and> 8 \<le> length bs \<and> stream_size bs \<noteq> 0 \<and> stream_size bs \<le> length bs - 8"

text \<open>When lwIP cannot close the connection, the callback aborts it and lets lwIP go on with freed memory.\<close>

lemma connection_close_fails:
  assumes "ota_repr [] s" "\<forall>c \<in> set cs. pbufs_ok c" "tcp_close_res L pcb \<noteq> ERR_OK"
  shows "ota_connection L pcb cs s = None"
proof -
  have "\<exists>s'. ota_recv_all L pcb cs s = Some s'"
    using recv_all_repr [OF assms(1,2), of L pcb] by (auto split: if_splits)
  then show ?thesis using assms(3) by (auto simp: ota_connection_def after_close)
qed

lemma connection_outcome:
  assumes "ota_repr [] s" "ota_state s = OTA_STATE_RECEIVING" "\<forall>c \<in> set cs. pbufs_ok c"
    "tcp_close_res L pcb = ERR_OK" "bs = concat (concat cs)"
  shows "\<exists>s'. ota_connection L pcb cs s = Some s' \<and> ota_client_pcb s' = None \<and>
     ota_state s' = (if stream_complete bs then OTA_STATE_VERIFY else OTA_STATE_ERROR) \<and>
     (stream_complete bs \<longrightarrow> ota_received s' = length bs - 8 \<and> mem_slice (ota_buf s') 0 (length bs - 8) = drop 8 bs)"
proof (cases "stream_ok bs")
  case True
  with recv_all_repr [OF assms(1,3), of L pcb] assms(2,5) obtain s1
    where s1: "ota_recv_all L pcb cs s = Some s1" "ota_repr bs s1" "ota_state s1 = OTA_STATE_RECEIVING" by auto
  have "(ota_expected s1 \<noteq> 0 \<and> ota_expected s1 \<le> ota_received s1) = stream_complete bs"
    using s1(2) True by (auto simp: ota_repr_def stream_complete_def split: if_splits)
  then show ?thesis using s1 assms(4)
    by (auto simp: ota_connection_def tcp_input_after_def ota_recv_cb_def Let_def ota_repr_def stream_complete_def split: if_splits)
next
  case False
  with recv_all_repr [OF assms(1,3), of L pcb] assms(5) obtain s1
    where "ota_recv_all L pcb cs s = Some s1" "ota_state s1 = OTA_STATE_ERROR" by auto
  moreover have "\<not> stream_complete bs" using False by (simp add: stream_complete_def)
  ultimately show ?thesis using assms(4) by (simp add: ota_connection_def tcp_input_after_def ota_recv_cb_def Let_def)
qed

section \<open>Starting and stopping\<close>

lemma abort_fields [simp]:
  "ota_header_parsed (tcp_abort_ota p s) = ota_header_parsed s" "ota_received (tcp_abort_ota p s) = ota_received s"
  "ota_stage (tcp_abort_ota p s) = ota_stage s" "ota_server_pcb (tcp_abort_ota p s) = ota_server_pcb s"
  "ota_crc_expected (tcp_abort_ota p s) = ota_crc_expected s" "ota_expected (tcp_abort_ota p s) = ota_expected s"
  "ota_buf (tcp_abort_ota p s) = ota_buf s" "ota_client_pcb s = None \<Longrightarrow> ota_client_pcb (tcp_abort_ota p s) = None"
  by (simp_all add: tcp_abort_ota_def ota_err_cb_def Let_def)

lemma Stop_fields [simp]:
  "ota_state (OTA_Server_Stop L s) = OTA_STATE_IDLE" "ota_client_pcb (OTA_Server_Stop L s) = None"
  "ota_server_pcb (OTA_Server_Stop L s) = None" "ota_stage (OTA_Server_Stop L s) = ota_stage s"
  "ota_header_parsed (OTA_Server_Stop L s) = ota_header_parsed s"
  "ota_received (OTA_Server_Stop L s) = ota_received s" "ota_crc_expected (OTA_Server_Stop L s) = ota_crc_expected s"
  by (simp_all add: OTA_Server_Stop_def Let_def split: option.splits)

lemma Start_ok:
  assumes "OTA_Server_Start L s = (0, s')" "length (ota_stage s) = 8"
  shows "ota_repr [] s'" "ota_state s' = OTA_STATE_RECEIVING" "ota_client_pcb s' = None"
    "ota_crc_expected s' = ota_crc_expected s"
  using assms by (auto simp: OTA_Server_Start_def Let_def ota_repr_def stream_ok_def split: option.splits if_splits)

lemma Start_fail:
  assumes "OTA_Server_Start L s = (r, s')" "r \<noteq> 0"
  shows "ota_state s' \<in> {OTA_STATE_IDLE, OTA_STATE_ERROR}" "ota_server_pcb s' = None"
  using assms by (auto simp: OTA_Server_Start_def Let_def split: option.splits if_splits)

lemma accept_ok:
  "ota_client_pcb s = None \<Longrightarrow> ota_accept_cb (Some pcb) s = Some (e, s') \<Longrightarrow>
   e = ERR_OK \<and> ota_client_pcb s' = Some pcb \<and> ota_state s' = ota_state s \<and> (ota_repr bs s' \<longleftrightarrow> ota_repr bs s)"
  by (auto simp: ota_accept_cb_def Let_def ota_repr_def)

end
