(* ===== verification/Ota_Flash.thy ===== *)
theory Ota_Flash
  imports Crc32 Qspi_Correct Metadata Ota_Receive
begin

text \<open>
  The storage half of \<^verbatim>\<open>src/STM32/Bootloader/User/ota/ota.c\<close>: \<^verbatim>\<open>OTA_Poll\<close>, which checks the received
  image and stages it in the NOR flash, and \<^verbatim>\<open>OTA_Flash_Write\<close>, which backs the old application up,
  programs the new one into bank 2 and records the pending update. Programs of the device; the
  globals of the file are passed in and returned. \<open>None\<close> stands for a call that never returns.
\<close>

section \<open>Constants\<close>

definition OTA_STAGING_ADDR :: nat where "OTA_STAGING_ADDR = 0"
definition APP_ADDR :: nat where "APP_ADDR = 0x08100000"
definition APP_SIZE :: nat where "APP_SIZE = 0x00100000"
definition BACKUP_OFFSET :: nat where "BACKUP_OFFSET = 0x200000"
definition STAGING_SIZE :: nat where "STAGING_SIZE = 2 * 1024 * 1024"

lemmas area_defs = OTA_STAGING_ADDR_def APP_ADDR_def APP_SIZE_def BACKUP_OFFSET_def STAGING_SIZE_def

section \<open>Staging the image\<close>

text \<open>The read-back loop: \<open>crc_rb\<close> over the staging area in 64-byte chunks; \<open>None\<close> on a failed read.\<close>

function ota_readback :: "'d hal \<Rightarrow> nat \<Rightarrow> nat \<Rightarrow> u32 \<Rightarrow> ('d, u32 option) state" where
  "ota_readback H received off crc_rb =
     (if off < received then
        let chunk = (if received - off < 64 then received - off else 64)
        in do {
          (r, tmp) \<leftarrow> BSP_QSPI_Read H (OTA_STAGING_ADDR + off) chunk;
          if r \<noteq> QSPI_OK then return None
          else ota_readback H received (off + chunk) (crc_bytes crc_rb tmp)
        }
      else return (Some (crc_rb XOR 0xFFFFFFFF)))"
  by pat_completeness auto
termination
  by (relation "measure (\<lambda>(H, received, off, crc). received - off)") auto

declare ota_readback.simps [simp del]

text \<open>\<^verbatim>\<open>BSP_QSPI_Write\<close> of the buffer, with one retry after a re-initialisation.\<close>

definition ota_stage_write :: "'d hal \<Rightarrow> u8 list \<Rightarrow> ('d, bool) state" where
  "ota_stage_write H buf = do {
     r \<leftarrow> BSP_QSPI_Write H buf OTA_STAGING_ADDR (length buf);
     if r \<noteq> QSPI_OK then do {
       BSP_QSPI_Init H;
       r \<leftarrow> BSP_QSPI_Write H buf OTA_STAGING_ADDR (length buf);
       return (r = QSPI_OK)
     } else return True
   }"

definition OTA_Poll :: "'d hal \<Rightarrow> ota \<Rightarrow> ('d, ota option) state" where
  "OTA_Poll H g =
     (if ota_state g \<noteq> OTA_STATE_VERIFY then return (Some g)
      else
        let buf = mem_slice (ota_buf g) 0 (ota_received g);
            failed = g\<lparr>ota_state := OTA_STATE_ERROR\<rparr>
        in if CRC32_Calculate buf \<noteq> ota_crc_expected g then return (Some failed)
           else do {
             er \<leftarrow> QSPI_Erase_Blocks H 0 STAGING_SIZE;
             case er of None \<Rightarrow> return None
             | Some _ \<Rightarrow> do {
                 r \<leftarrow> BSP_QSPI_Init H;
                 if r \<noteq> QSPI_OK then return (Some failed)
                 else do {
                   ok \<leftarrow> ota_stage_write H buf;
                   if \<not> ok then return (Some failed)
                   else do {
                     rb \<leftarrow> ota_readback H (ota_received g) 0 0xFFFFFFFF;
                     case rb of None \<Rightarrow> return (Some failed)
                     | Some crc_rb \<Rightarrow>
                         if crc_rb = ota_crc_expected g
                         then return (Some (g\<lparr>ota_state := OTA_STATE_CONFIRM\<rparr>))
                         else return (Some failed)
                   }
                 }
               }
           })"

section \<open>Writing the application\<close>

text \<open>\<^verbatim>\<open>while ((FLASH->SR2 & (BSY | QW)) && guard--) { }\<close>\<close>

fun sr2_wait :: "'d hal \<Rightarrow> nat \<Rightarrow> ('d, unit) state" where
  "sr2_wait H 0 = do { busy \<leftarrow> FLASH_SR2_busy H; return () }"
| "sr2_wait H (Suc guard) = do {
     busy \<leftarrow> FLASH_SR2_busy H;
     if busy then sr2_wait H guard else return ()
   }"

definition bank2_sector :: "nat \<Rightarrow> FLASH_EraseInitTypeDef" where
  "bank2_sector s = \<lparr>Banks = FLASH_BANK_2, Sector = s, NbSectors = 1\<rparr>"

text \<open>The attempts to erase one sector of bank 2.\<close>

fun bank2_erase_attempts :: "'d hal \<Rightarrow> nat \<Rightarrow> nat \<Rightarrow> ('d, bool) state" where
  "bank2_erase_attempts H s 0 = return False"
| "bank2_erase_attempts H s (Suc attempts) = do {
     sr2_wait H 1000000;
     HAL_FLASH_CLEAR_FLAG H;
     (r, SectorError) \<leftarrow> HAL_FLASHEx_Erase H (bank2_sector s);
     if r \<noteq> HAL_OK then do {
       sr2_wait H 3000000;
       bank2_erase_attempts H s attempts
     } else return True
   }"

text \<open>The loop over the \<open>n\<close> sectors from \<open>s\<close> on; it stops at the first one the image does not reach.\<close>

fun bank2_erase_loop :: "'d hal \<Rightarrow> nat \<Rightarrow> nat \<Rightarrow> nat \<Rightarrow> nat \<Rightarrow> ('d, bool) state" where
  "bank2_erase_loop H attempts received s 0 = return True"
| "bank2_erase_loop H attempts received s (Suc n) =
     (if received \<le> s * (128 * 1024) then return True
      else do {
        ok \<leftarrow> bank2_erase_attempts H s attempts;
        if \<not> ok then return False
        else do {
          sr2_wait H 1000000;
          bank2_erase_loop H attempts received (Suc s) n
        }
      })"

fun bank2_prog_attempts :: "'d hal \<Rightarrow> nat \<Rightarrow> u8 list \<Rightarrow> nat \<Rightarrow> ('d, bool) state" where
  "bank2_prog_attempts H addr wbuf 0 = return False"
| "bank2_prog_attempts H addr wbuf (Suc attempts) = do {
     r \<leftarrow> HAL_FLASH_Program H addr wbuf;
     if r = HAL_OK then return True
     else do {
       HAL_FLASH_CLEAR_FLAG H;
       bank2_prog_attempts H addr wbuf attempts
     }
   }"

text \<open>
  The copy from the NOR flash (from \<open>src\<close> on) into bank 2, one flash word at a time, \<open>off\<close> being
  \<^verbatim>\<open>addr - APP_ADDR\<close>; \<open>pre\<close> is what the caller does before each read.
\<close>

function bank2_copy_loop :: "'d hal \<Rightarrow> ('d, unit) state \<Rightarrow> nat \<Rightarrow> nat \<Rightarrow> nat \<Rightarrow> ('d, bool) state" where
  "bank2_copy_loop H pre src off remain =
     (if remain = 0 then return True
      else let chunk = (if 32 \<le> remain then 32 else remain)
      in do {
        pre;
        (r, bs) \<leftarrow> BSP_QSPI_Read H (src + off) chunk;
        if r \<noteq> QSPI_OK then return False
        else do {
          HAL_FLASH_CLEAR_FLAG H;
          ok \<leftarrow> bank2_prog_attempts H (APP_ADDR + off) (array_write (replicate 32 0xFF) 0 bs) 3;
          if \<not> ok then return False
          else bank2_copy_loop H pre src (off + chunk) (remain - chunk)
        }
      })"
  by pat_completeness auto
termination
  by (relation "measure (\<lambda>(H, pre, src, off, remain). remain)") auto

declare bank2_copy_loop.simps [simp del]

text \<open>Backing up: up to three writes of a chunk, each failure followed by a re-initialisation.\<close>

fun backup_attempts :: "'d hal \<Rightarrow> u8 list \<Rightarrow> nat \<Rightarrow> nat \<Rightarrow> ('d, bool) state" where
  "backup_attempts H tmp addr 0 = return False"
| "backup_attempts H tmp addr (Suc n) = do {
     r \<leftarrow> BSP_QSPI_Write H tmp addr 64;
     if r = QSPI_OK then return True
     else do {
       BSP_QSPI_Init H;
       backup_attempts H tmp addr n
     }
   }"

text \<open>The loop over the application area; \<open>n\<close> is the number of 64-byte chunks from offset \<open>i\<close> on.\<close>

fun ota_backup_loop :: "'d hal \<Rightarrow> nat \<Rightarrow> nat \<Rightarrow> ('d, bool) state" where
  "ota_backup_loop H i 0 = return True"
| "ota_backup_loop H i (Suc n) = do {
     (if i \<noteq> 0 \<and> i mod (128 * 1024) = 0 then do { BSP_QSPI_Init H; return () } else return ());
     d \<leftarrow> State_Monad.get;
     wok \<leftarrow> backup_attempts H (mem_slice (ld8 H d) (APP_ADDR + i) 64) (BACKUP_OFFSET + i) 3;
     if \<not> wok then do { BSP_QSPI_Init H; return False }
     else ota_backup_loop H (i + 64) n
   }"

text \<open>\<^verbatim>\<open>meta.bak_* = meta.cur_*\<close>, also done by the manual backup of \<^verbatim>\<open>menu.c\<close>.\<close>

definition meta_record_backup :: "meta_layout \<Rightarrow> Metadata \<Rightarrow> Metadata" where
  "meta_record_backup lay m =
     (let m = set_field lay bak_major (get_field lay cur_major m) m;
          m = set_field lay bak_minor (get_field lay cur_minor m) m;
          m = set_field lay bak_patch (get_field lay cur_patch m) m;
          m = set_field lay bak_crc32 (crc32 m) m
      in set_field lay bak_fw_size (fw_size m) m)"

text \<open>Step 3; \<open>ver\<close> is what \<^verbatim>\<open>Version_Check_GetVersionNumbers\<close> returns, which the repository lacks.\<close>

definition meta_pending :: "meta_layout \<Rightarrow> u32 \<times> u32 \<times> u32 \<Rightarrow> ota \<Rightarrow> Metadata \<Rightarrow> Metadata" where
  "meta_pending lay ver g m =
     (case ver of (vm, vn, vp) \<Rightarrow>
        let m = set_field lay ota_major vm (set_field lay cur_major vm m);
            m = set_field lay ota_minor vn (set_field lay cur_minor vn m);
            m = set_field lay ota_patch vp (set_field lay cur_patch vp m)
        in m\<lparr>crc32 := ota_crc_expected g, fw_size := of_nat (ota_received g), state := STATE_PENDING_UPDATE\<rparr>)"

text \<open>Steps 2 to 4: program bank 2 from the staging area and record the pending update.\<close>

definition ota_program_app ::
  "'d hal \<Rightarrow> meta_layout \<Rightarrow> u32 \<times> u32 \<times> u32 \<Rightarrow> ota \<Rightarrow> ('d, int \<times> ota) state" where
  "ota_program_app H lay ver g = do {
     HAL_FLASH_Unlock H;
     eok \<leftarrow> bank2_erase_loop H 8 (ota_received g) 0 8;
     if \<not> eok then do { HAL_FLASH_Lock H; return (1, g) }
     else do {
       pok \<leftarrow> bank2_copy_loop H (return ()) OTA_STAGING_ADDR 0 (ota_received g);
       if \<not> pok then do { HAL_FLASH_Lock H; return (1, g) }
       else do {
         HAL_FLASH_Lock H;
         meta \<leftarrow> Metadata_Read H;
         (w, meta) \<leftarrow> Metadata_Write H (meta_pending lay ver g meta);
         if w \<noteq> 0 then return (1, g)
         else return (0, g\<lparr>ota_state := OTA_STATE_DONE\<rparr>)
       }
     }
   }"

definition OTA_Flash_Write ::
  "'d hal \<Rightarrow> meta_layout \<Rightarrow> u32 \<times> u32 \<times> u32 \<Rightarrow> ota \<Rightarrow> ('d, (int \<times> ota) option) state" where
  "OTA_Flash_Write H lay ver g = do {
     er \<leftarrow> QSPI_Erase_Blocks H BACKUP_OFFSET APP_SIZE;
     case er of None \<Rightarrow> return None
     | Some e \<Rightarrow>
       if e \<noteq> 0 then return (Some (1, g))
       else do {
         bok \<leftarrow> ota_backup_loop H 0 (APP_SIZE div 64);
         if \<not> bok then return (Some (1, g))
         else do {
           meta \<leftarrow> Metadata_Read H;
           Metadata_Write H (meta_record_backup lay meta);
           r \<leftarrow> ota_program_app H lay ver g;
           return (Some r)
         }
       }
   }"

end
