(* ===== verification/Menu.thy ===== *)
theory Menu
  imports Ota_Flash
begin

text \<open>
  \<^verbatim>\<open>src/STM32/Bootloader/User/menu/menu.c\<close>: manual backup and restore, the rollback of a failed
  update, the boot decision from the metadata, the watchdog and the jump into the application.
  Programs of the device; the global \<^verbatim>\<open>qspi_inited\<close> is passed in and returned.
\<close>

definition APP_RUN_ADDR :: nat where "APP_RUN_ADDR = 0x08100000"
definition APP_SIZE_C :: nat where "APP_SIZE_C = 1 * 1024 * 1024"

lemma app_area [simp]: "APP_RUN_ADDR = APP_ADDR" "APP_SIZE_C = APP_SIZE"
  by (simp_all add: APP_RUN_ADDR_def APP_SIZE_C_def APP_ADDR_def APP_SIZE_def)

section \<open>Backup and restore\<close>

text \<open>\<^verbatim>\<open>while (BUSY && guard--) { }\<close> with a guard of 1000000.\<close>

fun qspi_wait :: "'d hal \<Rightarrow> nat \<Rightarrow> ('d, unit) state" where
  "qspi_wait H 0 = do { busy \<leftarrow> HAL_QSPI_FLAG_BUSY H; return () }"
| "qspi_wait H (Suc guard) = do {
     busy \<leftarrow> HAL_QSPI_FLAG_BUSY H;
     if busy then qspi_wait H guard else return ()
   }"

definition QSPI_WaitIdle :: "'d hal \<Rightarrow> ('d, unit) state" where
  "QSPI_WaitIdle H = qspi_wait H 1000000"

text \<open>\<open>n\<close> is the number of 4096-byte chunks from offset \<open>off\<close> on.\<close>

fun slot_backup_loop :: "'d hal \<Rightarrow> nat \<Rightarrow> nat \<Rightarrow> ('d, bool) state" where
  "slot_backup_loop H off 0 = return True"
| "slot_backup_loop H off (Suc n) = do {
     QSPI_WaitIdle H;
     d \<leftarrow> State_Monad.get;
     r \<leftarrow> BSP_QSPI_Write H (mem_slice (ld8 H d) (APP_RUN_ADDR + off) 4096) (BACKUP_OFFSET + off) 4096;
     if r \<noteq> QSPI_OK then return False else slot_backup_loop H (off + 4096) n
   }"

text \<open>
  The result says whether the function got as far as recording the backup; \<open>None\<close> is a call that
  does not return.
\<close>

definition Backup_SlotA :: "'d hal \<Rightarrow> meta_layout \<Rightarrow> ('d, bool option) state" where
  "Backup_SlotA H lay = do {
     d \<leftarrow> State_Monad.get;
     let msp = le32 (mem_slice (ld8 H d) APP_RUN_ADDR 4);
     if msp = 0xFFFFFFFF \<or> msp = 0 then return (Some False)
     else do {
       er \<leftarrow> QSPI_Erase_Blocks H BACKUP_OFFSET APP_SIZE_C;
       case er of None \<Rightarrow> return None
       | Some e \<Rightarrow>
         if e \<noteq> 0 then return (Some False)
         else do {
           ok \<leftarrow> slot_backup_loop H 0 (APP_SIZE_C div 4096);
           if \<not> ok then return (Some False)
           else do {
             meta \<leftarrow> Metadata_Read H;
             Metadata_Write H (meta_record_backup lay meta);
             return (Some True)
           }
         }
     }
   }"

text \<open>The eight sectors of bank 2, four attempts each.\<close>

fun bank2_erase_all :: "'d hal \<Rightarrow> nat \<Rightarrow> nat \<Rightarrow> ('d, bool) state" where
  "bank2_erase_all H s 0 = return True"
| "bank2_erase_all H s (Suc n) = do {
     ok \<leftarrow> bank2_erase_attempts H s 4;
     if \<not> ok then return False
     else do {
       sr2_wait H 1000000;
       bank2_erase_all H (Suc s) n
     }
   }"

text \<open>
  Erase bank 2 and copy the backup area into it, as \<^verbatim>\<open>Restore_SlotA\<close> and \<^verbatim>\<open>Boot_DoRollback\<close> both do;
  every way out locks the flash.
\<close>

definition bank2_restore :: "'d hal \<Rightarrow> ('d, bool) state" where
  "bank2_restore H = do {
     HAL_FLASH_Unlock H;
     ok \<leftarrow> bank2_erase_all H 0 8;
     if \<not> ok then do { HAL_FLASH_Lock H; return False }
     else do {
       ok \<leftarrow> bank2_copy_loop H (QSPI_WaitIdle H) BACKUP_OFFSET 0 APP_SIZE_C;
       HAL_FLASH_Lock H;
       return ok
     }
   }"

text \<open>\<^verbatim>\<open>meta.cur_* = meta.bak_*\<close> and \<^verbatim>\<open>STATE_CONFIRMED\<close>, after a restore and after a rollback.\<close>

definition meta_restored :: "meta_layout \<Rightarrow> Metadata \<Rightarrow> Metadata" where
  "meta_restored lay m =
     (let m = set_field lay cur_major (get_field lay bak_major m) m;
          m = set_field lay cur_minor (get_field lay bak_minor m) m;
          m = set_field lay cur_patch (get_field lay bak_patch m) m;
          m = m\<lparr>crc32 := get_field lay bak_crc32 m\<rparr>;
          m = m\<lparr>fw_size := get_field lay bak_fw_size m\<rparr>
      in m\<lparr>state := STATE_CONFIRMED\<rparr>)"

definition backup_header_empty :: "u8 list \<Rightarrow> bool" where
  "backup_header_empty hdr \<longleftrightarrow> hdr ! 0 = 0xFF \<and> hdr ! 1 = 0xFF \<and> hdr ! 2 = 0xFF \<and> hdr ! 3 = 0xFF"

definition Restore_SlotA :: "'d hal \<Rightarrow> meta_layout \<Rightarrow> ('d, bool) state" where
  "Restore_SlotA H lay = do {
     QSPI_WaitIdle H;
     (r, hdr) \<leftarrow> BSP_QSPI_Read H BACKUP_OFFSET 4;
     if r \<noteq> QSPI_OK then return False
     else if backup_header_empty hdr then return False
     else do {
       ok \<leftarrow> bank2_restore H;
       if \<not> ok then return False
       else do {
         meta \<leftarrow> Metadata_Read H;
         Metadata_Write H (meta_restored lay meta);
         return True
       }
     }
   }"

section \<open>Watchdog and reset reason\<close>

definition IWDG_KR_RELOAD :: u32 where "IWDG_KR_RELOAD = 0xAAAA"
definition IWDG_KR_UNLOCK :: u32 where "IWDG_KR_UNLOCK = 0x5555"
definition IWDG_KR_START :: u32 where "IWDG_KR_START = 0xCCCC"
definition RCC_RSR_IWDG1RSTF_Msk :: u32 where "RCC_RSR_IWDG1RSTF_Msk = push_bit 26 1"

text \<open>Bits of the register description of the processor.\<close>

definition RCC_CSR_LSION :: u32 where "RCC_CSR_LSION = 1"
definition RCC_CSR_LSIRDY :: u32 where "RCC_CSR_LSIRDY = 2"
definition RCC_RSR_RMVF :: u32 where "RCC_RSR_RMVF = push_bit 16 1"

text \<open>\<^verbatim>\<open>while (!(RCC->CSR & RCC_CSR_LSIRDY)) { }\<close>; \<open>False\<close> when it is still waiting after \<open>fuel\<close> reads.\<close>

fun lsi_wait :: "'d hal \<Rightarrow> nat \<Rightarrow> ('d, bool) state" where
  "lsi_wait H 0 = return False"
| "lsi_wait H (Suc fuel) = do {
     csr \<leftarrow> rd_reg H RCC_CSR;
     if csr AND RCC_CSR_LSIRDY \<noteq> 0 then return True else lsi_wait H fuel
   }"

definition Iwdg_Enable :: "'d hal \<Rightarrow> nat \<Rightarrow> u32 \<Rightarrow> ('d, bool) state" where
  "Iwdg_Enable H fuel timeout_ms = do {
     csr \<leftarrow> rd_reg H RCC_CSR;
     wr_reg H RCC_CSR (csr OR RCC_CSR_LSION);
     ready \<leftarrow> lsi_wait H fuel;
     if \<not> ready then return False
     else do {
       wr_reg H IWDG1_KR IWDG_KR_UNLOCK;
       wr_reg H IWDG1_PR 3;
       wr_reg H IWDG1_RLR (timeout_ms div 2 - 1);
       wr_reg H IWDG1_KR IWDG_KR_START;
       return True
     }
   }"

definition Iwdg_Refresh :: "'d hal \<Rightarrow> ('d, unit) state" where
  "Iwdg_Refresh H = wr_reg H IWDG1_KR IWDG_KR_RELOAD"

definition Reset_Reason_Is_IWDG :: "'d hal \<Rightarrow> ('d, bool) state" where
  "Reset_Reason_Is_IWDG H = do {
     rsr \<leftarrow> rd_reg H RCC_RSR;
     if rsr AND RCC_RSR_IWDG1RSTF_Msk \<noteq> 0 then do {
       v \<leftarrow> rd_reg H RCC_RSR;
       wr_reg H RCC_RSR (v OR RCC_RSR_RMVF);
       return True
     } else do {
       v \<leftarrow> rd_reg H RCC_RSR;
       wr_reg H RCC_RSR (v OR RCC_RSR_RMVF);
       return False
     }
   }"

section \<open>Boot decision\<close>

text \<open>The results are the value returned and the new \<^verbatim>\<open>qspi_inited\<close>.\<close>

definition Boot_DoRollback :: "'d hal \<Rightarrow> bool \<Rightarrow> ('d, int \<times> bool) state" where
  "Boot_DoRollback H qspi_inited = do {
     r \<leftarrow> (if \<not> qspi_inited then BSP_QSPI_Init H else return QSPI_OK);
     if r \<noteq> QSPI_OK then return (-1, False)
     else do {
       QSPI_WaitIdle H;
       (r, hdr) \<leftarrow> BSP_QSPI_Read H BACKUP_OFFSET 4;
       if r \<noteq> QSPI_OK then return (-1, True)
       else if backup_header_empty hdr then return (-1, True)
       else do {
         ok \<leftarrow> bank2_restore H;
         return (if ok then 0 else -1, True)
       }
     }
   }"

definition Boot_Metadata_Step :: "'d hal \<Rightarrow> meta_layout \<Rightarrow> bool \<Rightarrow> ('d, int \<times> bool) state" where
  "Boot_Metadata_Step H lay qspi_inited = do {
     meta \<leftarrow> Metadata_Read H;
     if magic meta \<noteq> METADATA_MAGIC \<or> state meta = STATE_EMPTY then return (0, qspi_inited)
     else if state meta = STATE_PENDING_UPDATE then do {
       Metadata_Write H (meta\<lparr>state := STATE_TESTING\<rparr>);
       return (1, qspi_inited)
     }
     else if state meta = STATE_TESTING then do {
       iwdg \<leftarrow> Reset_Reason_Is_IWDG H;
       if iwdg then do {
         (rb, qi) \<leftarrow> Boot_DoRollback H qspi_inited;
         if rb = 0 then do {
           Metadata_Write H (meta_restored lay meta);
           return (2, qi)
         } else return (0, qi)
       } else return (1, qspi_inited)
     }
     else return (2, qspi_inited)
   }"

text \<open>
  The jump: what the processor starts with is the result, the stack pointer and the entry point
  from the application's vector table. The second result is the new \<^verbatim>\<open>eth_inited\<close>.
\<close>

fun nvic_clear :: "'d hal \<Rightarrow> nat \<Rightarrow> nat \<Rightarrow> ('d, unit) state" where
  "nvic_clear H i 0 = return ()"
| "nvic_clear H i (Suc n) = do {
     wr_reg H (NVIC_ICER i) 0xFFFFFFFF;
     wr_reg H (NVIC_ICPR i) 0xFFFFFFFF;
     nvic_clear H (Suc i) n
   }"

definition JumpToApp :: "'d hal \<Rightarrow> bool \<Rightarrow> ('d, (u32 \<times> u32) \<times> bool) state" where
  "JumpToApp H eth_inited = do {
     HAL_Delay H 50;
     hw_op H ''__disable_irq'';
     wr_reg H SysTick_CTRL 0;
     wr_reg H SysTick_LOAD 0;
     wr_reg H SysTick_VAL 0;
     (if eth_inited then do {
        hw_op H ''HAL_ETH_Stop'';
        hw_op H ''HAL_ETH_DeInit''
      } else return ());
     HAL_QSPI_DeInit H;
     nvic_clear H 0 8;
     hw_op H ''SCB_CleanDCache'';
     SCB_InvalidateDCache H;
     hw_op H ''SCB_InvalidateICache'';
     wr_reg H SCB_VTOR (of_nat APP_RUN_ADDR);
     d \<leftarrow> State_Monad.get;
     return ((le32 (mem_slice (ld8 H d) APP_RUN_ADDR 4), le32 (mem_slice (ld8 H d) (APP_RUN_ADDR + 4) 4)), False)
   }"

end
