(* ===== verification/Ota_Correct.thy ===== *)
theory Ota_Correct
  imports Ota_Flash
begin

text \<open>
  Correctness of staging and writing an update, for every pattern of failing HAL calls: an image is
  confirmed only if buffer and staging area have the announced checksum; a completed write has put
  the staged image into bank 2, the old one into the backup area and the pending update into the
  metadata; and a write that fails has either not touched the internal flash or left a complete
  backup of the old application.
\<close>

lemma meta_wf_record [simp]: "meta_wf (meta_record_backup lay m) = meta_wf m"
  by (simp add: meta_record_backup_def Let_def)

lemma meta_wf_pending [simp]: "meta_wf (meta_pending lay ver g m) = meta_wf m"
  by (simp add: meta_pending_def Let_def split: prod.splits)

lemma meta_pending_fields:
  "state (meta_pending lay ver g m) = STATE_PENDING_UPDATE"
  "crc32 (meta_pending lay ver g m) = ota_crc_expected g"
  "fw_size (meta_pending lay ver g m) = of_nat (ota_received g)"
  by (simp_all add: meta_pending_def Let_def split: prod.splits)

text \<open>Padding a flash word with erased bytes does not program them.\<close>

lemma prog_mem_pad:
  assumes "length bs \<le> 32"
  shows "prog_mem a (array_write (replicate 32 0xFF) 0 bs) m = prog_mem a bs m"
proof (rule ext)
  fix x
  have "array_write (replicate 32 (0xFF :: u8)) 0 bs = bs @ replicate (32 - length bs) 0xFF"
    by (simp add: array_write_def)
  moreover have "m x AND 0xFF = m x" using and_erased [of "m x"] by (simp add: and.commute)
  ultimately show "prog_mem a (array_write (replicate 32 0xFF) 0 bs) m x = prog_mem a bs m x"
    using assms by (auto simp: prog_mem_def nth_append)
qed

lemma app_aligned: "off mod 32 = 0 \<Longrightarrow> (APP_ADDR + off) mod 32 = 0"
  by (simp add: APP_ADDR_def mod_eq_0_iff_dvd)

lemma bank2_copy_loop_step:
  assumes "n \<noteq> 0" "k = (if 32 \<le> n then 32 else n)"
  shows "bank2_copy_loop H pre src off n = do {
        pre;
        (r, bs) \<leftarrow> BSP_QSPI_Read H (src + off) k;
        if r \<noteq> QSPI_OK then return False
        else do {
          HAL_FLASH_CLEAR_FLAG H;
          ok \<leftarrow> bank2_prog_attempts H (APP_ADDR + off) (array_write (replicate 32 0xFF) 0 bs) 3;
          if \<not> ok then return False else bank2_copy_loop H pre src (off + k) (n - k)
        } }"
  unfolding assms(2) using assms(1) by (subst bank2_copy_loop.simps) (simp only: if_False Let_def)

section \<open>Staging\<close>

context hal_laws
begin

subsection \<open>Reading back\<close>

lemma readback_ok:
  assumes "idle_at m d" "n \<le> NOR_SIZE" "off \<le> n"
  shows "wp (ota_readback H n off c) (\<lambda>r d'. idle_at m d' \<and>
     (\<forall>x. r = Some x \<longrightarrow> x = crc_bytes c (mem_slice m off (n - off)) XOR 0xFFFFFFFF)) d"
  using assms
proof (induction "n - off" arbitrary: off c d rule: less_induct)
  case less
  show ?case
  proof (cases "off < n")
    case False
    then show ?thesis using less.prems by (subst ota_readback.simps) simp
  next
    case True
    define k where "k = (if n - off < 64 then n - off else 64)"
    have k: "0 < k" "off + k \<le> n" using True by (auto simp: k_def)
    let ?Q = "\<lambda>r d'. idle_at m d' \<and> (\<forall>x. r = Some x \<longrightarrow> x = crc_bytes c (mem_slice m off (n - off)) XOR 0xFFFFFFFF)"
    have rest: "wp (ota_readback H n (off + k) (crc_bytes c (mem_slice m off k))) ?Q s" if "idle_at m s" for s
    proof -
      have "mem_slice m off (n - off) = mem_slice m off k @ mem_slice m (off + k) (n - (off + k))"
        using mem_slice_add [of m off k "n - (off + k)"] k by simp
      then show ?thesis
        using less.hyps [of "off + k" s] k that less.prems True by (auto simp: crc_bytes_append elim!: wp_mono)
    qed
    have eq: "ota_readback H n off c = do {
          (r, tmp) \<leftarrow> BSP_QSPI_Read H (OTA_STAGING_ADDR + off) k;
          if r \<noteq> QSPI_OK then return None else ota_readback H n (off + k) (crc_bytes c tmp) }"
      using True by (subst ota_readback.simps) (simp only: if_True Let_def k_def [symmetric])
    have "wp (BSP_QSPI_Read H off k) (\<lambda>(r, bs) d'. idle_at m d' \<and> (r = QSPI_OK \<longrightarrow> bs = mem_slice m off k)) d"
      by (rule wp_mono [OF wp_conj [OF Read_ok presD [OF idle_Read]]]) (use less.prems k in auto)
    note rd = this
    show ?thesis
      unfolding eq wp_bind OTA_STAGING_ADDR_def add_0
      by (rule wp_mono [OF rd]) (auto simp: rest split: prod.splits)
  qed
qed

subsection \<open>Staging the image\<close>

abbreviation staging :: "'d \<Rightarrow> 'd \<Rightarrow> bool" where
  "staging \<equiv> within (erase_rel 0 STAGING_SIZE)"

lemma stage_write_ok:
  assumes "staging d0 d" "nv_op (nor d) = NOR_Idle" "buf \<noteq> []" "length buf \<le> STAGING_SIZE"
  shows "wp (ota_stage_write H buf) (\<lambda>ok d'. staging d0 d' \<and> (ok \<longrightarrow> nv_op (nor d') = NOR_Idle)) d"
proof -
  have w: "wp (BSP_QSPI_Write H buf 0 (length buf)) (\<lambda>r d'. staging d0 d' \<and> (r = QSPI_OK \<longrightarrow> nv_op (nor d') = NOR_Idle)) s"
    if "staging d0 s" for s
    by (rule wp_conj [OF presD [OF Write_region that] Write_idle])
      (use assms in \<open>auto simp: STAGING_SIZE_def NOR_SIZE_def\<close>)
  show ?thesis
    unfolding ota_stage_write_def OTA_STAGING_ADDR_def wp_bind
    by (rule wp_mono [OF w [OF assms(1)]])
      (auto intro!: wp_mono [OF presD [OF pres_Init [OF cell_rel_erase]]] wp_mono [OF w])
qed

lemma Poll_ok:
  assumes v: "ota_state g = OTA_STATE_VERIFY" and n: "0 < ota_received g" "ota_received g \<le> OTA_BUF_SIZE"
    and d: "nv_op (nor d) = NOR_Idle"
  shows "wp (OTA_Poll H g) (\<lambda>r d'. staging d d' \<and>
     (r = Some (g\<lparr>ota_state := OTA_STATE_ERROR\<rparr>) \<or>
      r = Some (g\<lparr>ota_state := OTA_STATE_CONFIRM\<rparr>) \<and> nv_op (nor d') = NOR_Idle \<and>
      CRC32_Calculate (mem_slice (ota_buf g) 0 (ota_received g)) = ota_crc_expected g \<and>
      CRC32_Calculate (mem_slice (nv_mem (nor d')) OTA_STAGING_ADDR (ota_received g)) = ota_crc_expected g)) d"
proof -
  let ?buf = "mem_slice (ota_buf g) 0 (ota_received g)"
  have st: "staging d d" using d by (simp add: within_refl)
  have er: "wp (QSPI_Erase_Blocks H 0 STAGING_SIZE) (\<lambda>r s. r \<noteq> None \<and> staging d s) d"
    by (rule wp_mono [OF Erase_Blocks_ok]) (use d in \<open>auto simp: STAGING_SIZE_def NOR_SIZE_def\<close>)
  have ini: "wp (BSP_QSPI_Init H) (\<lambda>r s'. staging d s' \<and> (r = QSPI_OK \<longrightarrow> nv_op (nor s') = NOR_Idle)) s"
    if "staging d s" for s by (rule store.init_again [OF cell_rel_erase that])
  have w: "wp (ota_stage_write H ?buf) (\<lambda>ok s'. staging d s' \<and> (ok \<longrightarrow> nv_op (nor s') = NOR_Idle)) s"
    if "staging d s" "nv_op (nor s) = NOR_Idle" for s
    by (rule stage_write_ok [OF that]) (use n in \<open>auto simp: mem_slice_def STAGING_SIZE_def OTA_BUF_SIZE_def\<close>)
  have pr: "pres (staging d) (ota_readback H n off c)" for n off c
    by (induction "n - off" arbitrary: off c rule: less_induct, subst ota_readback.simps)
      (auto simp: Let_def intro!: pres_rules pres_Read)
  have rb: "wp (ota_readback H (ota_received g) 0 0xFFFFFFFF) (\<lambda>r s'. staging d s' \<and> nv_op (nor s') = NOR_Idle \<and>
      (\<forall>x. r = Some x \<longrightarrow> x = CRC32_Calculate (mem_slice (nv_mem (nor s')) OTA_STAGING_ADDR (ota_received g)))) s"
    if "staging d s" "nv_op (nor s) = NOR_Idle" for s
    by (rule wp_mono [OF wp_conj [OF presD [OF pr that(1)] readback_ok [where m = "nv_mem (nor s)"]]])
      (use n that in \<open>auto simp: idle_at_def CRC32_Calculate_bytes OTA_STAGING_ADDR_def NOR_SIZE_def OTA_BUF_SIZE_def\<close>)
  show ?thesis
    unfolding OTA_Poll_def Let_def using v st
    by (auto simp: split: option.splits intro!: wp_mono [OF er] wp_mono [OF ini] wp_mono [OF w] wp_mono [OF rb])
qed

subsection \<open>Backing up\<close>

text \<open>
  Whatever happens, a backup that gets to the end leaves an idle chip and changes only the backup
  area. That it is complete needs the re-initialisation after a failed write, whose result the code ignores, to
  succeed: \<open>I\<close> is a property of the device under which it does.
\<close>

definition reinit_ok :: "('d \<Rightarrow> bool) \<Rightarrow> bool" where
  "reinit_ok I \<longleftrightarrow> (\<forall>s. I s \<longrightarrow> wp (BSP_QSPI_Init H) (\<lambda>r s'. r = QSPI_OK \<and> I s') s) \<and>
     (\<forall>s tmp a. I s \<longrightarrow> wp (BSP_QSPI_Write H tmp a 64) (\<lambda>_ s'. I s') s)"

lemma backup_attempts_any:
  assumes a: "a + 64 \<le> NOR_SIZE" "length tmp = 64"
  shows "within (prog_rel a tmp) d0 d \<Longrightarrow>
    wp (backup_attempts H tmp a k) (\<lambda>ok d'. within (prog_rel a tmp) d0 d' \<and> (ok \<longrightarrow> nv_op (nor d') = NOR_Idle)) d"
proof (induction k arbitrary: d)
  case (Suc k)
  have w: "wp (BSP_QSPI_Write H tmp a 64) (\<lambda>r d'. within (prog_rel a tmp) d0 d' \<and> (r = QSPI_OK \<longrightarrow> nv_op (nor d') = NOR_Idle)) d"
    using wp_conj [OF presD [OF store.write_keep [of a 64 tmp d0]] Write_idle [of 64 tmp a]] Suc.prems a by simp
  show ?case
    unfolding backup_attempts.simps wp_bind
    by (rule wp_mono [OF w]) (auto intro!: wp_mono [OF presD [OF pres_Init [OF cell_rel_prog]]] Suc.IH)
qed simp

lemma backup_loop_any:
  "within (erase_rel BACKUP_OFFSET APP_SIZE) d0 d \<Longrightarrow> nv_op (nor d) = NOR_Idle \<Longrightarrow> i + 64 * n = APP_SIZE \<Longrightarrow>
    wp (ota_backup_loop H i n) (\<lambda>ok d'. within (erase_rel BACKUP_OFFSET APP_SIZE) d0 d' \<and> (ok \<longrightarrow> nv_op (nor d') = NOR_Idle)) d"
proof (induction n arbitrary: i d)
  case (Suc n)
  let ?R = "erase_rel BACKUP_OFFSET APP_SIZE"
  have i: "wp (BSP_QSPI_Init H) (\<lambda>_ s'. within ?R d0 s' \<and> nv_op (nor s') = NOR_Idle) s"
    if "within ?R d0 s" "nv_op (nor s) = NOR_Idle" for s
    by (rule wp_mono [OF wp_conj [OF presD [OF pres_Init [OF cell_rel_erase] that(1)] store.init_same [OF that(2)]]]) simp
  have at: "wp (backup_attempts H tmp (BACKUP_OFFSET + i) 3) (\<lambda>ok s'. within ?R d0 s' \<and> (ok \<longrightarrow> nv_op (nor s') = NOR_Idle)) s"
    if s: "within ?R d0 s" "nv_op (nor s) = NOR_Idle" and tmp: "length tmp = 64" for s tmp
  proof (rule wp_mono [OF backup_attempts_any [where ?d0.0 = s]])
    show "BACKUP_OFFSET + i + 64 \<le> NOR_SIZE" using Suc.prems(3) by (simp add: area_defs NOR_SIZE_def)
    fix ok s' assume *: "within (prog_rel (BACKUP_OFFSET + i) tmp) s s' \<and> (ok \<longrightarrow> nv_op (nor s') = NOR_Idle)"
    then have "within ?R s s'"
      using store.keep_prog_erase [of "BACKUP_OFFSET + i" tmp s s' BACKUP_OFFSET APP_SIZE] Suc.prems(3) tmp by simp
    then show "within ?R d0 s' \<and> (ok \<longrightarrow> nv_op (nor s') = NOR_Idle)" using * within_trans [OF cell_rel_erase s(1)] by simp
  qed (use s tmp in \<open>auto simp: within_refl\<close>)
  have body: "wp (do { d \<leftarrow> State_Monad.get;
     wok \<leftarrow> backup_attempts H (mem_slice (ld8 H d) (APP_ADDR + i) 64) (BACKUP_OFFSET + i) 3;
     if \<not> wok then do { BSP_QSPI_Init H; return False } else ota_backup_loop H (i + 64) n })
     (\<lambda>ok d'. within ?R d0 d' \<and> (ok \<longrightarrow> nv_op (nor d') = NOR_Idle)) s"
    if s: "within ?R d0 s" "nv_op (nor s) = NOR_Idle" for s
    unfolding wp_bind wp_get
    by (rule wp_mono [OF at [OF s]])
      (use Suc.prems(3) in \<open>auto intro!: wp_mono [OF presD [OF pres_Init [OF cell_rel_erase]]] Suc.IH\<close>)
  show ?case
    unfolding ota_backup_loop.simps wp_bind [of "if _ then _ else _"]
    using Suc.prems(1,2) body by (auto simp del: wp_bind simp: wp_bind [of "BSP_QSPI_Init H"] intro!: wp_mono [OF i])
qed simp

lemma backup_attempts_ok:
  assumes I: "reinit_ok I" and a: "a + 64 \<le> NOR_SIZE" "length tmp = 64"
  shows "within (prog_rel a tmp) d0 d \<Longrightarrow> nv_op (nor d) = NOR_Idle \<Longrightarrow> I d \<Longrightarrow>
    wp (backup_attempts H tmp a k) (\<lambda>ok d'. within (prog_rel a tmp) d0 d' \<and> nv_op (nor d') = NOR_Idle \<and> I d' \<and>
      (ok \<longrightarrow> nv_mem (nor d') = prog_mem a tmp (nv_mem (nor d0)))) d"
proof (induction k arbitrary: d)
  case (Suc k)
  have "wp (BSP_QSPI_Write H tmp a 64) (\<lambda>r d'. within (prog_rel a tmp) d0 d' \<and>
      (r = QSPI_OK \<longrightarrow> nv_op (nor d') = NOR_Idle \<and> nv_mem (nor d') = prog_mem a tmp (nv_mem (nor d0)))) d"
    using store.write_again [of a 64 tmp d0 d] Suc.prems a by simp
  moreover have "wp (BSP_QSPI_Write H tmp a 64) (\<lambda>_ d'. I d') d" using I Suc.prems(3) by (simp add: reinit_ok_def)
  ultimately have w: "wp (BSP_QSPI_Write H tmp a 64) (\<lambda>r d'. (within (prog_rel a tmp) d0 d' \<and>
      (r = QSPI_OK \<longrightarrow> nv_op (nor d') = NOR_Idle \<and> nv_mem (nor d') = prog_mem a tmp (nv_mem (nor d0)))) \<and> I d') d"
    by (rule wp_conj)
  have i: "wp (BSP_QSPI_Init H) (\<lambda>_ s'. within (prog_rel a tmp) d0 s' \<and> nv_op (nor s') = NOR_Idle \<and> I s') s"
    if "within (prog_rel a tmp) d0 s" "I s" for s
  proof -
    have "wp (BSP_QSPI_Init H) (\<lambda>r s'. r = QSPI_OK \<and> I s') s" using I that(2) by (simp add: reinit_ok_def)
    from wp_conj [OF store.init_again [OF cell_rel_prog that(1)] this] show ?thesis by (rule wp_mono) simp
  qed
  show ?case
    unfolding backup_attempts.simps wp_bind
    by (rule wp_mono [OF w]) (auto intro!: wp_mono [OF i] Suc.IH)
qed simp

lemma backup_loop_ok:
  assumes I: "reinit_ok I"
  shows "nv_op (nor d) = NOR_Idle \<Longrightarrow> i + 64 * n = APP_SIZE \<Longrightarrow> I d \<Longrightarrow>
    wp (ota_backup_loop H i n) (\<lambda>ok d'. within (erase_rel BACKUP_OFFSET APP_SIZE) d d' \<and> nv_op (nor d') = NOR_Idle \<and>
      (ok \<longrightarrow> nv_mem (nor d') = prog_mem (BACKUP_OFFSET + i) (mem_slice (ld8 H d) (APP_ADDR + i) (64 * n)) (nv_mem (nor d)))) d"
proof (induction n arbitrary: i d)
  case 0
  then show ?case by (simp add: within_refl)
next
  case (Suc n)
  let ?R = "erase_rel BACKUP_OFFSET APP_SIZE"
  let ?a = "BACKUP_OFFSET + i" and ?tmp = "mem_slice (ld8 H d) (APP_ADDR + i) 64"
  let ?Q = "\<lambda>ok d'. within ?R d d' \<and> nv_op (nor d') = NOR_Idle \<and> (ok \<longrightarrow> nv_mem (nor d') =
      prog_mem ?a (mem_slice (ld8 H d) (APP_ADDR + i) (64 * Suc n)) (nv_mem (nor d)))"
  have i: "wp (BSP_QSPI_Init H) (\<lambda>_ s'. within ?R d s' \<and> nv_op (nor s') = NOR_Idle \<and> nv_mem (nor s') = nv_mem (nor s) \<and> I s') s"
    if "within ?R d s" "nv_op (nor s) = NOR_Idle" "I s" for s
  proof -
    have "wp (BSP_QSPI_Init H) (\<lambda>r s'. r = QSPI_OK \<and> I s') s" using I that(3) by (simp add: reinit_ok_def)
    from wp_conj [OF presD [OF pres_Init [OF cell_rel_erase] that(1)] wp_conj [OF store.init_same [OF that(2)] this]]
    show ?thesis by (rule wp_mono) simp
  qed
  have ld: "ld8 H s = ld8 H d" if "within ?R d s" for s
    using store.keep_others [OF that] by simp
  have rest: "wp (ota_backup_loop H (i + 64) n) ?Q s"
    if s: "within ?R d s" "nv_op (nor s) = NOR_Idle" "nv_mem (nor s) = prog_mem ?a ?tmp (nv_mem (nor d))" "I s" for s
  proof (rule wp_mono [OF Suc.IH [OF s(2) _ s(4)]])
    show "i + 64 + 64 * n = APP_SIZE" using Suc.prems(2) by simp
    fix ok d' assume *: "within ?R s d' \<and> nv_op (nor d') = NOR_Idle \<and> (ok \<longrightarrow> nv_mem (nor d') =
      prog_mem (BACKUP_OFFSET + (i + 64)) (mem_slice (ld8 H s) (APP_ADDR + (i + 64)) (64 * n)) (nv_mem (nor s)))"
    have "mem_slice (ld8 H d) (APP_ADDR + i) (64 * Suc n) = ?tmp @ mem_slice (ld8 H d) (APP_ADDR + (i + 64)) (64 * n)"
      using mem_slice_add [of "ld8 H d" "APP_ADDR + i" 64 "64 * n"] by (simp add: add.assoc)
    moreover have "BACKUP_OFFSET + (i + 64) = ?a + length ?tmp" by simp
    ultimately show "?Q ok d'"
      using * within_trans [OF cell_rel_erase s(1)] unfolding s(3) ld [OF s(1)] by (metis prog_mem_append)
  qed
  have at: "wp (backup_attempts H ?tmp ?a 3) (\<lambda>ok s'. within ?R d s' \<and> nv_op (nor s') = NOR_Idle \<and> I s' \<and>
      (ok \<longrightarrow> nv_mem (nor s') = prog_mem ?a ?tmp (nv_mem (nor d)))) s"
    if s: "within ?R d s" "nv_op (nor s) = NOR_Idle" "nv_mem (nor s) = nv_mem (nor d)" "I s" for s
  proof (rule wp_mono [OF backup_attempts_ok [OF I, where ?d0.0 = s]])
    show "?a + 64 \<le> NOR_SIZE" using Suc.prems(2) by (simp add: area_defs NOR_SIZE_def)
    fix ok s' assume *: "within (prog_rel ?a ?tmp) s s' \<and> nv_op (nor s') = NOR_Idle \<and> I s' \<and>
      (ok \<longrightarrow> nv_mem (nor s') = prog_mem ?a ?tmp (nv_mem (nor s)))"
    then have "within ?R s s'"
      using store.keep_prog_erase [of ?a ?tmp s s' BACKUP_OFFSET APP_SIZE] Suc.prems(2) by simp
    then show "within ?R d s' \<and> nv_op (nor s') = NOR_Idle \<and> I s' \<and> (ok \<longrightarrow> nv_mem (nor s') = prog_mem ?a ?tmp (nv_mem (nor d)))"
      using * s within_trans [OF cell_rel_erase s(1)] by simp
  qed (use s in \<open>auto simp: within_refl\<close>)
  have body: "wp (do { d \<leftarrow> State_Monad.get;
     wok \<leftarrow> backup_attempts H (mem_slice (ld8 H d) (APP_ADDR + i) 64) ?a 3;
     if \<not> wok then do { BSP_QSPI_Init H; return False } else ota_backup_loop H (i + 64) n }) ?Q s"
    if s: "within ?R d s" "nv_op (nor s) = NOR_Idle" "nv_mem (nor s) = nv_mem (nor d)" "I s" for s
    unfolding wp_bind wp_get ld [OF s(1)]
    by (rule wp_mono [OF at [OF s]]) (auto intro!: rest wp_mono [OF i] simp del: mult_Suc_right)
  show ?case
    unfolding ota_backup_loop.simps wp_bind [of "if _ then _ else _"]
    using Suc.prems(1,3) i [of d] body by (auto simp del: wp_bind simp: wp_bind [of "BSP_QSPI_Init H"] within_refl elim!: wp_mono)
qed

subsection \<open>Erasing and programming bank 2\<close>

abbreviation app_keep :: "'d \<Rightarrow> 'd \<Rightarrow> bool" where
  "app_keep \<equiv> flash_within (erase_rel APP_ADDR APP_SIZE)"

lemma flash_sr2_wait: "pres (flash_within R d0) (sr2_wait H k)"
  by (induction k) (auto intro!: pres_rules flash_pres)

lemma sector_rel_app: "s < 8 \<Longrightarrow> sectors_rel (bank2_sector s) x a b \<Longrightarrow> erase_rel APP_ADDR APP_SIZE x a b"
  by (auto simp: sectors_rel_def bank2_sector_def erase_rel_def APP_ADDR_def APP_SIZE_def)

lemma in_sector_iff:
  "in_sectors (bank2_sector s) x \<longleftrightarrow> APP_ADDR + s * 131072 \<le> x \<and> x < APP_ADDR + Suc s * 131072"
  by (simp add: in_sectors_def bank2_sector_def APP_ADDR_def)

lemma erase_attempts_ok:
  "flash_within (sectors_rel (bank2_sector s)) d0 d \<Longrightarrow>
   wp (bank2_erase_attempts H s k) (\<lambda>ok d'. flash_within (sectors_rel (bank2_sector s)) d0 d' \<and>
     (ok \<longrightarrow> (\<forall>x. in_sectors (bank2_sector s) x \<longrightarrow> ld8 H d' x = 0xFF))) d"
proof (induction k arbitrary: d)
  case (Suc k)
  let ?W = "flash_within (sectors_rel (bank2_sector s)) d0"
  show ?case
    unfolding bank2_erase_attempts.simps wp_bind
  proof (rule wp_mono [OF presD [OF flash_sr2_wait Suc.prems]], rule wp_mono [OF presD [OF flash_quiets(1)]], assumption,
      rule wp_mono [OF erase_again], assumption)
    fix r s' assume "(\<lambda>(r, se) d'. ?W d' \<and> (r = HAL_OK \<longrightarrow> (\<forall>x. in_sectors (bank2_sector s) x \<longrightarrow> ld8 H d' x = 0xFF))) r s'"
    then show "wp (case r of (r, SectorError) \<Rightarrow> if r \<noteq> HAL_OK then do { sr2_wait H 3000000; bank2_erase_attempts H s k }
        else return True) (\<lambda>ok d'. ?W d' \<and> (ok \<longrightarrow> (\<forall>x. in_sectors (bank2_sector s) x \<longrightarrow> ld8 H d' x = 0xFF))) s'"
      by (auto split: prod.splits intro!: wp_mono [OF presD [OF flash_sr2_wait]] Suc.IH)
  qed
qed simp

text \<open>The sectors erased so far stay erased while the next one is erased.\<close>

lemma erased_next:
  assumes "\<forall>x. APP_ADDR \<le> x \<and> x < APP_ADDR + s * 131072 \<longrightarrow> ld8 H d x = 0xFF"
    "flash_within (sectors_rel (bank2_sector s)) d d'" "\<forall>x. in_sectors (bank2_sector s) x \<longrightarrow> ld8 H d' x = 0xFF"
  shows "\<forall>x. APP_ADDR \<le> x \<and> x < APP_ADDR + Suc s * 131072 \<longrightarrow> ld8 H d' x = 0xFF"
proof (intro allI impI)
  fix x assume x: "APP_ADDR \<le> x \<and> x < APP_ADDR + Suc s * 131072"
  show "ld8 H d' x = 0xFF"
  proof (cases "in_sectors (bank2_sector s) x")
    case False
    then have "ld8 H d' x = ld8 H d x" using assms(2) by (auto simp: flash_within_def in_sectors_rel)
    then show ?thesis using assms(1) x False by (auto simp: in_sector_iff)
  qed (use assms(3) in blast)
qed

lemma bank2_erase_ok:
  "app_keep d0 d \<Longrightarrow> s + n = 8 \<Longrightarrow> received \<le> APP_SIZE \<Longrightarrow>
   \<forall>x. APP_ADDR \<le> x \<and> x < APP_ADDR + s * 131072 \<longrightarrow> ld8 H d x = 0xFF \<Longrightarrow>
   wp (bank2_erase_loop H k received s n) (\<lambda>ok d'. app_keep d0 d' \<and>
     (ok \<longrightarrow> (\<forall>x. APP_ADDR \<le> x \<and> x < APP_ADDR + received \<longrightarrow> ld8 H d' x = 0xFF))) d"
proof (induction n arbitrary: s d)
  case 0
  then show ?case by (auto simp: APP_SIZE_def)
next
  case (Suc n)
  show ?case
  proof (cases "received \<le> s * (128 * 1024)")
    case True
    then show ?thesis using Suc.prems by simp
  next
    case False
    let ?Q = "\<lambda>ok d'. app_keep d0 d' \<and> (ok \<longrightarrow> (\<forall>x. APP_ADDR \<le> x \<and> x < APP_ADDR + received \<longrightarrow> ld8 H d' x = 0xFF))"
    let ?ff = "\<lambda>d'. \<forall>x. APP_ADDR \<le> x \<and> x < APP_ADDR + Suc s * 131072 \<longrightarrow> ld8 H d' x = 0xFF"
    have wt: "wp (sr2_wait H 1000000) (\<lambda>_ d2. app_keep d0 d2 \<and> ?ff d2) d1" if "app_keep d0 d1" "?ff d1" for d1
    proof -
      have "flash_within (\<lambda>x a b. b = a) d1 d1" by (simp add: flash_within_refl)
      from presD [OF flash_sr2_wait this] presD [OF flash_sr2_wait that(1)] show ?thesis
        using that(2) by (auto simp: wp_result flash_within_def)
    qed
    have rest: "wp (do { sr2_wait H 1000000; bank2_erase_loop H k received (Suc s) n }) ?Q d1"
      if "app_keep d0 d1" "?ff d1" for d1
      unfolding wp_bind by (rule wp_mono [OF wt [OF that]]) (use Suc.IH [of _ "Suc s"] Suc.prems in auto)
    have at: "wp (bank2_erase_attempts H s k) (\<lambda>ok d1. app_keep d0 d1 \<and> (ok \<longrightarrow> ?ff d1)) d"
    proof (rule wp_mono [OF erase_attempts_ok [OF flash_within_refl [OF cell_rel_sectors]]])
      fix ok d1 assume *: "flash_within (sectors_rel (bank2_sector s)) d d1 \<and>
        (ok \<longrightarrow> (\<forall>x. in_sectors (bank2_sector s) x \<longrightarrow> ld8 H d1 x = 0xFF))"
      then have "app_keep d d1"
        using flash_within_mono sector_rel_app [of s] Suc.prems(2) by (metis less_add_same_cancel1 zero_less_Suc)
      then show "app_keep d0 d1 \<and> (ok \<longrightarrow> ?ff d1)"
        using * erased_next [OF Suc.prems(4)] flash_within_trans [OF cell_rel_erase Suc.prems(1)] by blast
    qed
    show ?thesis
      using False unfolding bank2_erase_loop.simps
      by (simp only: if_False, unfold wp_bind [of "bank2_erase_attempts _ _ _"])
        (rule wp_mono [OF at], auto simp del: wp_bind intro: rest)
  qed
qed

lemma prog_attempts_ok:
  assumes a: "a mod 32 = 0" "length bs = 32"
  shows "flash_within (prog_rel a bs) d0 d \<Longrightarrow>
    wp (bank2_prog_attempts H a bs k) (\<lambda>ok d'. flash_within (prog_rel a bs) d0 d' \<and>
     (ok \<longrightarrow> ld8 H d' = prog_mem a bs (ld8 H d0))) d"
proof (induction k arbitrary: d)
  case (Suc k)
  show ?case
    unfolding bank2_prog_attempts.simps wp_bind
    by (rule wp_mono [OF program_again [OF Suc.prems a]])
      (auto intro!: wp_mono [OF presD [OF flash_quiets(1)]] Suc.IH)
qed simp

lemma flash_Read: "nv_op (nor d0) = NOR_Idle \<Longrightarrow> pres (flash_within R d0) (BSP_QSPI_Read H a n)"
proof (rule presI)
  fix d r d' assume "nv_op (nor d0) = NOR_Idle" "flash_within R d0 d" "run_state (BSP_QSPI_Read H a n) d = (r, d')"
  moreover from this have i: "idle_at (nv_mem (nor d0)) d" by (simp add: flash_within_def nor_kept_def)
  moreover from this have "within (\<lambda>x a b. b = a) d d" by (simp add: within_refl idle_at_def)
  ultimately show "flash_within R d0 d'"
    using pres_run [OF idle_Read i] pres_run [OF pres_Read, of "\<lambda>x a b. b = a" d d]
    by (auto simp: flash_within_def nor_kept_def within_def same_flash_def)
qed

lemma copy_loop_ok:
  assumes pre: "\<And>R d0. nv_op (nor d0) = NOR_Idle \<Longrightarrow> pres (flash_within R d0) pre"
  shows "idle_at m d \<Longrightarrow> off mod 32 = 0 \<Longrightarrow> off + remain \<le> APP_SIZE \<Longrightarrow> src + APP_SIZE \<le> NOR_SIZE \<Longrightarrow>
    wp (bank2_copy_loop H pre src off remain) (\<lambda>ok d'. app_keep d d' \<and>
      (ok \<longrightarrow> ld8 H d' = prog_mem (APP_ADDR + off) (mem_slice m (src + off) remain) (ld8 H d))) d"
proof (induction remain arbitrary: off d rule: less_induct)
  case (less n)
  show ?case
  proof (cases "n = 0")
    case True
    then show ?thesis by (subst bank2_copy_loop.simps) (simp add: flash_within_refl)
  next
    case False
    define k where "k = (if 32 \<le> n then 32 else n)"
    have k: "0 < k" "k \<le> 32" "k \<le> n" using False by (auto simp: k_def)
    let ?a = "APP_ADDR + off" and ?bs = "mem_slice m (src + off) k"
    define w where "w = array_write (replicate 32 (0xFF :: u8)) 0 ?bs"
    have w: "length w = 32" "?a mod 32 = 0" using k app_aligned [OF less.prems(2)] by (simp_all add: w_def)
    have wm: "prog_mem ?a w mm = prog_mem ?a ?bs mm" for mm using k by (simp add: w_def prog_mem_pad)
    have idle: "nv_op (nor d) = NOR_Idle" "nv_mem (nor d) = m" using less.prems(1) by (simp_all add: idle_at_def)
    let ?W = "flash_within (\<lambda>x a b. b = a) d"
    let ?Q = "\<lambda>ok d'. app_keep d d' \<and> (ok \<longrightarrow> ld8 H d' = prog_mem ?a (mem_slice m (src + off) n) (ld8 H d))"
    have eqW: "app_keep d s \<and> idle_at m s \<and> ld8 H s = ld8 H d" if "?W s" for s
      using that idle by (auto simp: flash_within_def nor_kept_def erase_rel_def)
    have rd: "wp (BSP_QSPI_Read H (src + off) k) (\<lambda>(r, bs) s'. ?W s' \<and> (r = QSPI_OK \<longrightarrow> bs = ?bs)) s" if "?W s" for s
      by (rule wp_mono [OF wp_conj [OF presD [OF flash_Read [OF idle(1)] that] Read_ok [where m = m]]])
        (use eqW [OF that] less.prems k in auto)
    have rest: "wp (bank2_copy_loop H pre src (off + k) (n - k)) ?Q s"
      if s: "app_keep d s" "idle_at m s" "ld8 H s = prog_mem ?a ?bs (ld8 H d)" for s
    proof (cases "k = n")
      case True
      then show ?thesis using s by (subst bank2_copy_loop.simps) simp
    next
      case ne: False
      then have k32: "k = 32" "32 < n" using k by (auto simp: k_def split: if_splits)
      show ?thesis
      proof (rule wp_mono [OF less.IH [OF _ s(2)]])
        fix ok d' assume *: "app_keep s d' \<and> (ok \<longrightarrow> ld8 H d' =
          prog_mem (APP_ADDR + (off + k)) (mem_slice m (src + (off + k)) (n - k)) (ld8 H s))"
        have "mem_slice m (src + off) n = ?bs @ mem_slice m (src + (off + k)) (n - k)"
          using mem_slice_add [of m "src + off" k "n - k"] k by (simp add: add.assoc)
        moreover have "APP_ADDR + (off + k) = ?a + length ?bs" by simp
        ultimately show "?Q ok d'"
          using * flash_within_trans [OF cell_rel_erase s(1)] unfolding s(3) by (metis prog_mem_append)
      qed (use less.prems k k32 in \<open>auto simp: mod_add_eq\<close>)
    qed
    have pg: "wp (bank2_prog_attempts H ?a w 3) (\<lambda>ok s'. app_keep d s' \<and> idle_at m s' \<and>
        (ok \<longrightarrow> ld8 H s' = prog_mem ?a ?bs (ld8 H d))) s" if s: "?W s" for s
    proof (rule wp_mono [OF prog_attempts_ok [OF w(2,1) flash_within_refl [OF cell_rel_prog]]])
      fix ok s' assume *: "flash_within (prog_rel ?a w) s s' \<and> (ok \<longrightarrow> ld8 H s' = prog_mem ?a w (ld8 H s))"
      have rel: "erase_rel APP_ADDR APP_SIZE x u v" if "prog_rel ?a w x u v" for x u v
      proof -
        have "off + 32 \<le> APP_SIZE"
        proof -
          have "off < APP_SIZE" using less.prems(3) k by linarith
          moreover have "off mod 32 = 0" by (rule less.prems(2))
          ultimately show ?thesis by (auto simp: APP_SIZE_def mod_eq_0_iff_dvd elim!: dvdE)
        qed
        with that w(1) show ?thesis by (auto simp: prog_rel_def erase_rel_def split: if_splits)
      qed
      have "app_keep s s'" using * rel by (blast intro: flash_within_mono)
      then show "app_keep d s' \<and> idle_at m s' \<and> (ok \<longrightarrow> ld8 H s' = prog_mem ?a ?bs (ld8 H d))"
        using * eqW [OF s] flash_within_trans [OF cell_rel_erase, of APP_ADDR APP_SIZE d s s']
        by (auto simp: flash_within_def nor_kept_def wm idle_at_def)
    qed
    note eq = bank2_copy_loop_step [OF False k_def]
    have step: "wp (do { HAL_FLASH_CLEAR_FLAG H;
          ok \<leftarrow> bank2_prog_attempts H ?a w 3;
          if \<not> ok then return False else bank2_copy_loop H pre src (off + k) (n - k) }) ?Q s" if "?W s" for s
      unfolding wp_bind
      by (rule wp_mono [OF presD [OF flash_quiets(1) that]], rule wp_mono [OF pg], assumption) (auto intro: rest)
    show ?thesis
      unfolding eq wp_bind [of pre] wp_bind [of "BSP_QSPI_Read _ _ _"]
    proof (rule wp_mono [OF presD [OF pre [OF idle(1)] flash_within_refl [OF cell_rel_eq]]], rule wp_mono [OF rd], assumption)
      fix r s' assume "(\<lambda>(r, bs) s'. ?W s' \<and> (r = QSPI_OK \<longrightarrow> bs = ?bs)) r s'"
      then show "wp (case r of (r, bs) \<Rightarrow> if r \<noteq> QSPI_OK then return False
        else do {
          HAL_FLASH_CLEAR_FLAG H;
          ok \<leftarrow> bank2_prog_attempts H ?a (array_write (replicate 32 0xFF) 0 bs) 3;
          if \<not> ok then return False else bank2_copy_loop H pre src (off + k) (n - k)
        }) ?Q s'"
        using step eqW by (auto simp del: wp_bind simp: w_def [symmetric] split: prod.splits)
    qed
  qed
qed

subsection \<open>The whole write\<close>

text \<open>
  What is known once the backup has got to the end: the NOR chip is idle, holds the staged image and,
  if the backup is known to be complete (\<open>B\<close>), the old application.
\<close>

definition backed_up :: "bool \<Rightarrow> 'd \<Rightarrow> 'd \<Rightarrow> bool" where
  "backed_up B d d' \<longleftrightarrow> nv_op (nor d') = NOR_Idle \<and>
     (B \<longrightarrow> mem_slice (nv_mem (nor d')) BACKUP_OFFSET APP_SIZE = mem_slice (ld8 H d) APP_ADDR APP_SIZE) \<and>
     mem_slice (nv_mem (nor d')) OTA_STAGING_ADDR STAGING_SIZE = mem_slice (nv_mem (nor d)) OTA_STAGING_ADDR STAGING_SIZE"

lemma backed_up_kept: "backed_up B d d1 \<Longrightarrow> nor_kept d1 d2 \<Longrightarrow> backed_up B d d2"
  by (auto simp: backed_up_def nor_kept_def idle_at_def)

lemma backed_up_flash: "backed_up B d d1 \<Longrightarrow> flash_within R d1 d2 \<Longrightarrow> backed_up B d d2"
  using backed_up_kept by (auto simp: flash_within_def)

lemma staging_disjoint:
  assumes "within (erase_rel BACKUP_OFFSET APP_SIZE) d d'"
  shows "mem_slice (nv_mem (nor d')) OTA_STAGING_ADDR STAGING_SIZE = mem_slice (nv_mem (nor d)) OTA_STAGING_ADDR STAGING_SIZE"
proof (rule mem_slice_cong)
  fix x assume "OTA_STAGING_ADDR \<le> x" "x < OTA_STAGING_ADDR + STAGING_SIZE"
  then show "nv_mem (nor d') x = nv_mem (nor d) x"
    using store.keep_cell [OF assms, of x] by (auto simp: erase_rel_def area_defs)
qed

lemma backup_ok:
  assumes I: "reinit_ok I" "I d1" and d1: "within (erase_rel BACKUP_OFFSET APP_SIZE) d d1" "nv_op (nor d1) = NOR_Idle"
      "mem_slice (nv_mem (nor d1)) BACKUP_OFFSET APP_SIZE = replicate APP_SIZE 0xFF"
  shows "wp (ota_backup_loop H 0 (APP_SIZE div 64)) (\<lambda>ok d2. ld8 H d2 = ld8 H d \<and> (ok \<longrightarrow> backed_up True d d2)) d1"
proof (rule wp_mono [OF backup_loop_ok [OF I(1) d1(2) _ I(2)]])
  show "0 + 64 * (APP_SIZE div 64) = APP_SIZE" by (simp add: APP_SIZE_def)
  have ld: "ld8 H d1 = ld8 H d" using store.keep_others [OF d1(1)] by simp
  let ?old = "mem_slice (ld8 H d) APP_ADDR APP_SIZE"
  fix ok d2 assume *: "within (erase_rel BACKUP_OFFSET APP_SIZE) d1 d2 \<and> nv_op (nor d2) = NOR_Idle \<and>
    (ok \<longrightarrow> nv_mem (nor d2) = prog_mem (BACKUP_OFFSET + 0) (mem_slice (ld8 H d1) (APP_ADDR + 0) (64 * (APP_SIZE div 64))) (nv_mem (nor d1)))"
  have w: "within (erase_rel BACKUP_OFFSET APP_SIZE) d d2" using * within_trans [OF cell_rel_erase d1(1)] by blast
  have "64 * (APP_SIZE div 64) = APP_SIZE" by (simp add: APP_SIZE_def)
  then have "ok \<Longrightarrow> nv_mem (nor d2) = prog_mem BACKUP_OFFSET ?old (nv_mem (nor d1))" using * ld by simp
  then have "ok \<Longrightarrow> mem_slice (nv_mem (nor d2)) BACKUP_OFFSET APP_SIZE = ?old"
    using prog_mem_erased [of "nv_mem (nor d1)" BACKUP_OFFSET ?old] d1(3) by simp
  moreover have "nv_op (nor d2) = NOR_Idle" using * by blast
  ultimately show "ld8 H d2 = ld8 H d \<and> (ok \<longrightarrow> backed_up True d d2)"
    using staging_disjoint [OF w] store.keep_others [OF w] by (simp add: backed_up_def)
qed

lemma backup_ok_any:
  assumes d1: "within (erase_rel BACKUP_OFFSET APP_SIZE) d d1" "nv_op (nor d1) = NOR_Idle"
  shows "wp (ota_backup_loop H 0 (APP_SIZE div 64)) (\<lambda>ok d2. ld8 H d2 = ld8 H d \<and> (ok \<longrightarrow> backed_up False d d2)) d1"
proof (rule wp_mono [OF backup_loop_any [OF d1]])
  fix ok d2 assume *: "within (erase_rel BACKUP_OFFSET APP_SIZE) d d2 \<and> (ok \<longrightarrow> nv_op (nor d2) = NOR_Idle)"
  then show "ld8 H d2 = ld8 H d \<and> (ok \<longrightarrow> backed_up False d d2)"
    using staging_disjoint [of d d2] store.keep_others by (auto simp: backed_up_def)
qed (simp add: APP_SIZE_def)

text \<open>Metadata and application area do not overlap.\<close>

lemma meta_keep_app: "meta_keep d d' \<Longrightarrow> n \<le> APP_SIZE \<Longrightarrow> mem_slice (ld8 H d') APP_ADDR n = mem_slice (ld8 H d) APP_ADDR n"
proof (rule mem_slice_cong)
  fix x assume "meta_keep d d'" "n \<le> APP_SIZE" "APP_ADDR \<le> x" "x < APP_ADDR + n"
  moreover from this have "sectors_rel meta_erase x (ld8 H d x) (ld8 H d' x)" by (simp add: flash_within_def)
  ultimately show "ld8 H d' x = ld8 H d x" by (auto simp: sectors_rel_def erase_rel_def meta_erase_def area_defs)
qed

definition updated :: "bool \<Rightarrow> ota \<Rightarrow> 'd \<Rightarrow> 'd \<Rightarrow> bool" where
  "updated B g d d' \<longleftrightarrow> backed_up B d d' \<and> locked d' \<and>
     mem_slice (ld8 H d') APP_ADDR (ota_received g) = mem_slice (nv_mem (nor d)) OTA_STAGING_ADDR (ota_received g)"

lemma program_ok:
  assumes n: "ota_received g \<le> APP_SIZE" and s: "backed_up B d s"
    "\<forall>x. APP_ADDR \<le> x \<and> x < APP_ADDR + ota_received g \<longrightarrow> ld8 H s x = 0xFF"
  shows "wp (bank2_copy_loop H (return ()) OTA_STAGING_ADDR 0 (ota_received g)) (\<lambda>ok s'. backed_up B d s' \<and>
     (ok \<longrightarrow> mem_slice (ld8 H s') APP_ADDR (ota_received g) = mem_slice (nv_mem (nor d)) OTA_STAGING_ADDR (ota_received g))) s"
proof (rule wp_mono [OF copy_loop_ok [where m = "nv_mem (nor s)"]])
  show "idle_at (nv_mem (nor s)) s" using s(1) by (simp add: backed_up_def idle_at_def)
  let ?img = "mem_slice (nv_mem (nor s)) OTA_STAGING_ADDR (ota_received g)"
  have img: "?img = mem_slice (nv_mem (nor d)) OTA_STAGING_ADDR (ota_received g)"
    using s(1) n by (auto simp: backed_up_def mem_slice_eq_iff area_defs)
  fix ok s' assume *: "app_keep s s' \<and> (ok \<longrightarrow> ld8 H s' =
    prog_mem (APP_ADDR + 0) (mem_slice (nv_mem (nor s)) (OTA_STAGING_ADDR + 0) (ota_received g)) (ld8 H s))"
  have "mem_slice (ld8 H s) APP_ADDR (length ?img) = replicate (length ?img) 0xFF"
    using s(2) by (intro mem_slice_eq_listI) auto
  from prog_mem_erased [OF this]
  have "ok \<Longrightarrow> mem_slice (ld8 H s') APP_ADDR (ota_received g) = ?img" using * by simp
  then show "backed_up B d s' \<and> (ok \<longrightarrow> mem_slice (ld8 H s') APP_ADDR (ota_received g) =
     mem_slice (nv_mem (nor d)) OTA_STAGING_ADDR (ota_received g))"
    using * backed_up_flash [OF s(1)] img by auto
qed (use n in \<open>auto simp: pres_return area_defs NOR_SIZE_def\<close>)

lemma pending_ok:
  assumes s: "updated B g d s" and n: "ota_received g \<le> APP_SIZE"
  shows "wp (Metadata_Write H (meta_pending lay ver g (Metadata_Of (ld8 H s)))) (\<lambda>(w, m) s'. backed_up B d s' \<and>
     (w = 0 \<longrightarrow> updated B g d s' \<and> state (Metadata_Of (ld8 H s')) = STATE_PENDING_UPDATE \<and>
       crc32 (Metadata_Of (ld8 H s')) = ota_crc_expected g \<and> fw_size (Metadata_Of (ld8 H s')) = of_nat (ota_received g))) s"
proof (rule wp_mono [OF Metadata_Write_ok], simp add: meta_wf_Of, clarify)
  let ?m = "meta_pending lay ver g (Metadata_Of (ld8 H s))"
  fix w :: int and m s'
  assume k: "meta_keep s s'" and l: "locked s'" and w: "w = 0 \<longrightarrow> Metadata_Of (ld8 H s') = ?m\<lparr>magic := METADATA_MAGIC\<rparr>"
  have b: "backed_up B d s'" using s backed_up_flash [OF _ k] by (simp add: updated_def)
  with s k l meta_keep_app [OF k n] have "updated B g d s'" by (simp add: updated_def)
  with b w show "backed_up B d s' \<and> (w = 0 \<longrightarrow> updated B g d s' \<and> state (Metadata_Of (ld8 H s')) = STATE_PENDING_UPDATE \<and>
       crc32 (Metadata_Of (ld8 H s')) = ota_crc_expected g \<and> fw_size (Metadata_Of (ld8 H s')) = of_nat (ota_received g))"
    by (simp add: meta_pending_fields)
qed

lemma Unlock_backed_up: "backed_up B d s \<Longrightarrow> wp (HAL_FLASH_Unlock H) (\<lambda>_ s'. backed_up B d s') s"
  by (rule wp_mono [OF presD [OF flash_within_unlock flash_within_refl [OF cell_rel_eq]]])
    (use backed_up_flash in blast)

lemma Lock_backed_up:
  "backed_up B d s \<Longrightarrow> wp (HAL_FLASH_Lock H) (\<lambda>_ s'. backed_up B d s' \<and> locked s' \<and> ld8 H s' = ld8 H s) s"
  by (rule wp_mono [OF wp_conj [OF presD [OF flash_within_lock flash_within_refl [OF cell_rel_eq]] Lock_locked]])
    (use backed_up_flash in \<open>auto simp: flash_within_def dest: backed_up_kept\<close>)

definition update_outcome :: "bool \<Rightarrow> ota \<Rightarrow> 'd \<Rightarrow> int \<times> ota \<Rightarrow> 'd \<Rightarrow> bool" where
  "update_outcome B g d r d' \<longleftrightarrow>
     r = (1, g) \<or>
     r = (0, g\<lparr>ota_state := OTA_STATE_DONE\<rparr>) \<and> updated B g d d' \<and>
       state (Metadata_Of (ld8 H d')) = STATE_PENDING_UPDATE \<and>
       crc32 (Metadata_Of (ld8 H d')) = ota_crc_expected g \<and>
       fw_size (Metadata_Of (ld8 H d')) = of_nat (ota_received g)"

lemma program_app_ok:
  assumes s: "backed_up B d s" and n: "ota_received g \<le> APP_SIZE"
  shows "wp (ota_program_app H lay ver g) (\<lambda>r d'. backed_up B d d' \<and> update_outcome B g d r d') s"
proof -
  let ?Q = "\<lambda>r d'. backed_up B d d' \<and> update_outcome B g d r d'"
  have ers: "wp (bank2_erase_loop H 8 (ota_received g) 0 8) (\<lambda>ok s'. backed_up B d s' \<and>
      (ok \<longrightarrow> (\<forall>x. APP_ADDR \<le> x \<and> x < APP_ADDR + ota_received g \<longrightarrow> ld8 H s' x = 0xFF))) s" if "backed_up B d s" for s
    by (rule wp_mono [OF bank2_erase_ok [OF flash_within_refl [OF cell_rel_erase]]])
      (use that n backed_up_flash in auto)
  have fin: "wp (do { meta \<leftarrow> Metadata_Read H; (w, meta) \<leftarrow> Metadata_Write H (meta_pending lay ver g meta);
         if w \<noteq> 0 then return (1, g) else return (0, g\<lparr>ota_state := OTA_STATE_DONE\<rparr>) }) ?Q s" if "updated B g d s" for s
    unfolding Metadata_Read_def wp_bind wp_get wp_return
    by (rule wp_mono [OF pending_ok [OF that n]]) (auto simp: update_outcome_def split: prod.splits)
  have fail: "wp (do { HAL_FLASH_Lock H; return (1, g) }) ?Q s" if "backed_up B d s" for s
    unfolding wp_bind by (rule wp_mono [OF Lock_backed_up [OF that]]) (simp add: update_outcome_def)
  have lck: "wp (do { HAL_FLASH_Lock H; meta \<leftarrow> Metadata_Read H; (w, meta) \<leftarrow> Metadata_Write H (meta_pending lay ver g meta);
         if w \<noteq> 0 then return (1, g) else return (0, g\<lparr>ota_state := OTA_STATE_DONE\<rparr>) }) ?Q s"
    if "backed_up B d s" "mem_slice (ld8 H s) APP_ADDR (ota_received g) = mem_slice (nv_mem (nor d)) OTA_STAGING_ADDR (ota_received g)" for s
    unfolding wp_bind [of "HAL_FLASH_Lock H"]
    by (rule wp_mono [OF Lock_backed_up [OF that(1)]]) (use that fin in \<open>simp add: updated_def del: wp_bind\<close>)
  show ?thesis
    unfolding ota_program_app_def wp_bind [of "HAL_FLASH_Unlock H"] wp_bind [of "bank2_erase_loop _ _ _ _ _"]
    by (rule wp_mono [OF Unlock_backed_up [OF s]], rule wp_mono [OF ers], assumption)
      (auto simp: wp_bind [of "bank2_copy_loop _ _ _ _ _"] simp del: wp_bind
        intro: fail lck intro!: wp_mono [OF program_ok [OF n]])
qed

lemma Flash_Write_ok:
  assumes d: "nv_op (nor d) = NOR_Idle" and n: "ota_received g \<le> APP_SIZE"
    and I: "wp (QSPI_Erase_Blocks H BACKUP_OFFSET APP_SIZE) (\<lambda>_ s. I s) d"
    and loop: "\<And>s. I s \<Longrightarrow> within (erase_rel BACKUP_OFFSET APP_SIZE) d s \<Longrightarrow> nv_op (nor s) = NOR_Idle \<Longrightarrow>
      mem_slice (nv_mem (nor s)) BACKUP_OFFSET APP_SIZE = replicate APP_SIZE 0xFF \<Longrightarrow>
      wp (ota_backup_loop H 0 (APP_SIZE div 64)) (\<lambda>ok d2. ld8 H d2 = ld8 H d \<and> (ok \<longrightarrow> backed_up B d d2)) s"
  shows "wp (OTA_Flash_Write H lay ver g) (\<lambda>r d'. \<exists>r'. r = Some r' \<and> update_outcome B g d r' d' \<and>
     (ld8 H d' = ld8 H d \<or> backed_up B d d')) d"
proof -
  let ?Q = "\<lambda>r d'. \<exists>r'. r = Some r' \<and> update_outcome B g d r' d' \<and> (ld8 H d' = ld8 H d \<or> backed_up B d d')"
  have er: "wp (QSPI_Erase_Blocks H BACKUP_OFFSET APP_SIZE) (\<lambda>r d1. r \<noteq> None \<and> within (erase_rel BACKUP_OFFSET APP_SIZE) d d1 \<and>
      (r = Some 0 \<longrightarrow> nv_op (nor d1) = NOR_Idle \<and> mem_slice (nv_mem (nor d1)) BACKUP_OFFSET APP_SIZE = replicate APP_SIZE 0xFF)) d"
    by (rule Erase_Blocks_ok [OF d]) (simp_all add: area_defs NOR_SIZE_def)
  note er = wp_conj [OF I er]
  have rec: "wp (Metadata_Write H (meta_record_backup lay (Metadata_Of (ld8 H s)))) (\<lambda>_ s'. backed_up B d s') s"
    if "backed_up B d s" for s
    by (rule wp_mono [OF Metadata_Write_ok]) (use that in \<open>auto simp: meta_wf_Of intro: backed_up_flash\<close>)
  have prog: "wp (do { meta \<leftarrow> Metadata_Read H; Metadata_Write H (meta_record_backup lay meta);
      r \<leftarrow> ota_program_app H lay ver g; return (Some r) }) ?Q s" if "backed_up B d s" for s
    unfolding Metadata_Read_def wp_bind wp_get wp_return
    by (rule wp_mono [OF rec [OF that]], rule wp_mono [OF program_app_ok [OF _ n]]) auto
  have bak: "wp (do { bok \<leftarrow> ota_backup_loop H 0 (APP_SIZE div 64);
      if \<not> bok then return (Some (1, g)) else do { meta \<leftarrow> Metadata_Read H; Metadata_Write H (meta_record_backup lay meta);
      r \<leftarrow> ota_program_app H lay ver g; return (Some r) } }) ?Q s"
    if "within (erase_rel BACKUP_OFFSET APP_SIZE) d s" "nv_op (nor s) = NOR_Idle"
      "mem_slice (nv_mem (nor s)) BACKUP_OFFSET APP_SIZE = replicate APP_SIZE 0xFF" "I s" for s
    unfolding wp_bind [of "ota_backup_loop _ _ _"]
    by (rule wp_mono [OF loop [OF that(4,1-3)]]) (use prog in \<open>auto simp: update_outcome_def simp del: wp_bind\<close>)
  show ?thesis
    unfolding OTA_Flash_Write_def wp_bind [of "QSPI_Erase_Blocks _ _ _"]
  proof (rule wp_mono [OF er])
    fix r s assume *: "I s \<and> r \<noteq> None \<and> within (erase_rel BACKUP_OFFSET APP_SIZE) d s \<and>
      (r = Some 0 \<longrightarrow> nv_op (nor s) = NOR_Idle \<and> mem_slice (nv_mem (nor s)) BACKUP_OFFSET APP_SIZE = replicate APP_SIZE 0xFF)"
    then obtain e where "r = Some e" by blast
    moreover have "ld8 H s = ld8 H d" using * store.keep_others by blast
    ultimately show "wp (case r of None \<Rightarrow> return None | Some e \<Rightarrow> if e \<noteq> 0 then return (Some (1, g)) else
      do { bok \<leftarrow> ota_backup_loop H 0 (APP_SIZE div 64);
      if \<not> bok then return (Some (1, g)) else do { meta \<leftarrow> Metadata_Read H; Metadata_Write H (meta_record_backup lay meta);
      r \<leftarrow> ota_program_app H lay ver g; return (Some r) } }) ?Q s"
      using * bak by (auto simp: update_outcome_def simp del: wp_bind)
  qed
qed

lemma wp_True [simp]: "wp m (\<lambda>_ _. True) d"
  by (simp add: wp_result)

lemma Flash_Write_any:
  assumes "nv_op (nor d) = NOR_Idle" "ota_received g \<le> APP_SIZE"
  shows "wp (OTA_Flash_Write H lay ver g) (\<lambda>r d'. \<exists>r'. r = Some r' \<and> update_outcome False g d r' d') d"
  by (rule wp_mono [OF Flash_Write_ok [OF assms wp_True backup_ok_any]]) auto

lemma Flash_Write_reinit:
  assumes "nv_op (nor d) = NOR_Idle" "ota_received g \<le> APP_SIZE" and ini: "\<forall>s. fst (run_state (BSP_QSPI_Init H) s) = QSPI_OK"
  shows "wp (OTA_Flash_Write H lay ver g) (\<lambda>r d'. \<exists>r'. r = Some r' \<and> update_outcome True g d r' d' \<and>
     (ld8 H d' = ld8 H d \<or> backed_up True d d')) d"
proof -
  have I: "reinit_ok (\<lambda>_. True)" using ini by (simp add: reinit_ok_def wp_result)
  show ?thesis
    by (rule Flash_Write_ok [OF assms(1,2) wp_True backup_ok [OF I TrueI]])
qed

end

end
