(* ===== verification/Menu_Correct.thy ===== *)
theory Menu_Correct
  imports Menu Ota_Correct
begin

text \<open>
  Correctness of restore, rollback, manual backup and the boot decision for every pattern of
  failing HAL calls.
\<close>

lemma meta_wf_restored [simp]: "meta_wf (meta_restored lay m) = meta_wf m"
  by (simp add: meta_restored_def Let_def)

lemma state_meta_restored [simp]: "state (meta_restored lay m) = STATE_CONFIRMED"
  by (simp add: meta_restored_def Let_def)

text \<open>Recording a backup and restoring it brings checksum, size and version back.\<close>

lemma meta_restored_record:
  assumes "layout_ok lay" "meta_wf m"
  shows "crc32 (meta_restored lay (meta_record_backup lay m)) = crc32 m"
    "fw_size (meta_restored lay (meta_record_backup lay m)) = fw_size m"
    "get_field lay cur_major (meta_restored lay (meta_record_backup lay m)) = get_field lay cur_major m"
  using assms by (simp_all add: meta_restored_def meta_record_backup_def Let_def get_set_field get_field_upd set_field_fixed)

section \<open>Restoring bank 2\<close>

lemma bank2_erase_all_loop: "s + n = 8 \<Longrightarrow> bank2_erase_all H s n = bank2_erase_loop H 4 APP_SIZE s n"
proof (induction n arbitrary: s)
  case (Suc n)
  then have "\<not> APP_SIZE \<le> s * (128 * 1024)" by (simp add: APP_SIZE_def)
  moreover have "bank2_erase_all H (Suc s) n = bank2_erase_loop H 4 APP_SIZE (Suc s) n"
    using Suc by (intro Suc.IH) simp
  ultimately show ?case by (simp cong: if_cong)
qed simp

context hal_laws
begin

lemma pres_qspi_wait: "quiet H nor locked (HAL_QSPI_FLAG_BUSY H) \<Longrightarrow> pres (flash_within R d0) (qspi_wait H k)"
  by (induction k) (auto intro!: pres_rules flash_pres)

lemma pres_WaitIdle: "pres (flash_within R d0) (QSPI_WaitIdle H)"
  unfolding QSPI_WaitIdle_def by (rule pres_qspi_wait [OF quiet_busy])

lemma within_WaitIdle: "cell_rel R \<Longrightarrow> pres (within R d0) (QSPI_WaitIdle H)"
proof -
  assume R: "cell_rel R"
  have "pres (within R d0) (qspi_wait H k)" for k
    using R by (induction k) (auto intro!: pres_rules within_quiets)
  then show ?thesis by (simp add: QSPI_WaitIdle_def)
qed

abbreviation old_image :: "'d \<Rightarrow> u8 list" where
  "old_image d \<equiv> mem_slice (nv_mem (nor d)) BACKUP_OFFSET APP_SIZE"

abbreviation app_image :: "'d \<Rightarrow> u8 list" where
  "app_image d \<equiv> mem_slice (ld8 H d) APP_ADDR APP_SIZE"

text \<open>A metadata write leaves the application and the NOR chip alone.\<close>

lemma Metadata_Write_frame:
  assumes "meta_wf m" "nv_op (nor s) = NOR_Idle"
  shows "wp (Metadata_Write H m) (\<lambda>(r, m') s'. app_image s' = app_image s \<and> nv_op (nor s') = NOR_Idle \<and>
     nv_mem (nor s') = nv_mem (nor s) \<and> locked s' \<and> r \<in> {0, -1} \<and>
     (r = 0 \<longrightarrow> Metadata_Of (ld8 H s') = m\<lparr>magic := METADATA_MAGIC\<rparr>)) s"
proof (rule wp_mono [OF Metadata_Write_ok [OF assms(1)]], clarify)
  fix r :: int and s' assume k: "meta_keep s s'" "locked s'" "r \<in> {0, -1}"
    "r = 0 \<longrightarrow> Metadata_Of (ld8 H s') = m\<lparr>magic := METADATA_MAGIC\<rparr>"
  show "app_image s' = app_image s \<and> nv_op (nor s') = NOR_Idle \<and> nv_mem (nor s') = nv_mem (nor s) \<and> locked s' \<and>
     r \<in> {0, -1} \<and> (r = 0 \<longrightarrow> Metadata_Of (ld8 H s') = m\<lparr>magic := METADATA_MAGIC\<rparr>)"
    using k meta_keep_app [OF k(1) order_refl] assms(2) by (simp add: flash_within_def nor_kept_def idle_at_def)
qed

lemma app_keep_idle: "app_keep d d' \<Longrightarrow> nv_op (nor d) = NOR_Idle \<Longrightarrow> idle_at (nv_mem (nor d)) d'"
  by (simp add: flash_within_def nor_kept_def)

lemma copy_backup_ok:
  assumes d: "nv_op (nor d) = NOR_Idle" "\<forall>x. APP_ADDR \<le> x \<and> x < APP_ADDR + APP_SIZE \<longrightarrow> ld8 H d x = 0xFF"
  shows "wp (bank2_copy_loop H (QSPI_WaitIdle H) BACKUP_OFFSET 0 APP_SIZE) (\<lambda>ok d'. app_keep d d' \<and>
     (ok \<longrightarrow> app_image d' = old_image d)) d"
proof (rule wp_mono [OF copy_loop_ok [where m = "nv_mem (nor d)"]])
  show "idle_at (nv_mem (nor d)) d" using d by (simp add: idle_at_def)
  fix ok d' assume *: "app_keep d d' \<and> (ok \<longrightarrow> ld8 H d' =
    prog_mem (APP_ADDR + 0) (mem_slice (nv_mem (nor d)) (BACKUP_OFFSET + 0) APP_SIZE) (ld8 H d))"
  have "mem_slice (ld8 H d) APP_ADDR (length (old_image d)) = replicate (length (old_image d)) 0xFF"
    using d(2) by (intro mem_slice_eq_listI) auto
  from prog_mem_erased [OF this] show "app_keep d d' \<and> (ok \<longrightarrow> app_image d' = old_image d)" using * by simp
qed (auto simp: area_defs NOR_SIZE_def intro: pres_WaitIdle)

lemma app_unlock: "app_keep d s \<Longrightarrow> wp (HAL_FLASH_Unlock H) (\<lambda>_ s'. app_keep d s') s"
  by (rule presD [OF flash_within_unlock])

lemma app_lock: "app_keep d s \<Longrightarrow> wp (HAL_FLASH_Lock H) (\<lambda>_ s'. app_keep d s' \<and> locked s' \<and> ld8 H s' = ld8 H s) s"
  by (rule wp_mono [OF wp_conj [OF presD [OF flash_within_lock] wp_conj [OF Lock_locked
      presD [OF flash_within_lock flash_within_refl [OF cell_rel_eq]]]]]) (auto simp: flash_within_def fun_eq_iff)

lemma bank2_restore_ok:
  assumes d: "nv_op (nor d) = NOR_Idle"
  shows "wp (bank2_restore H) (\<lambda>ok d'. app_keep d d' \<and> locked d' \<and> (ok \<longrightarrow> app_image d' = old_image d)) d"
proof -
  let ?ff = "\<lambda>s. \<forall>x. APP_ADDR \<le> x \<and> x < APP_ADDR + APP_SIZE \<longrightarrow> ld8 H s x = 0xFF"
  have er: "wp (bank2_erase_all H 0 8) (\<lambda>ok s'. app_keep d s' \<and> (ok \<longrightarrow> ?ff s')) s" if "app_keep d s" for s
    unfolding bank2_erase_all_loop [of 0 8 H, simplified] by (rule bank2_erase_ok [OF that]) auto
  have cp: "wp (bank2_copy_loop H (QSPI_WaitIdle H) BACKUP_OFFSET 0 APP_SIZE)
      (\<lambda>ok s'. app_keep d s' \<and> (ok \<longrightarrow> app_image s' = old_image d)) s" if "app_keep d s" "?ff s" for s
  proof -
    have s: "nv_op (nor s) = NOR_Idle" "nv_mem (nor s) = nv_mem (nor d)"
      using app_keep_idle [OF that(1) d] by (simp_all add: idle_at_def)
    show ?thesis
      by (rule wp_mono [OF copy_backup_ok [OF s(1) that(2)]])
        (use flash_within_trans [OF cell_rel_erase that(1)] s(2) in auto)
  qed
  show ?thesis
    unfolding bank2_restore_def wp_bind app_area
    by (rule wp_mono [OF app_unlock [OF flash_within_refl [OF cell_rel_erase]]], rule wp_mono [OF er], assumption)
      (auto intro!: wp_mono [OF app_lock] wp_mono [OF cp])
qed

lemma read_header:
  assumes "app_keep d s" "nv_op (nor d) = NOR_Idle"
  shows "wp (BSP_QSPI_Read H BACKUP_OFFSET 4) (\<lambda>_ s'. app_keep d s') s"
  by (rule presD [OF flash_Read [OF assms(2)] assms(1)])

lemma restore_ok:
  assumes "app_keep d s" "nv_op (nor d) = NOR_Idle"
  shows "wp (bank2_restore H) (\<lambda>ok s'. app_keep d s' \<and> locked s' \<and> (ok \<longrightarrow> app_image s' = old_image d)) s"
proof -
  have s: "nv_op (nor s) = NOR_Idle" "nv_mem (nor s) = nv_mem (nor d)"
    using app_keep_idle [OF assms] by (simp_all add: idle_at_def)
  show ?thesis
    by (rule wp_mono [OF bank2_restore_ok [OF s(1)]])
      (use flash_within_trans [OF cell_rel_erase assms(1)] s(2) in auto)
qed

lemma init_app_keep:
  assumes "nv_op (nor d) = NOR_Idle"
  shows "wp (BSP_QSPI_Init H) (\<lambda>_ s. app_keep d s) d"
proof -
  have i: "idle_at (nv_mem (nor d)) d" and w: "within (\<lambda>x a b. b = a) d d" using assms by (simp_all add: idle_at_def within_refl)
  show ?thesis
    by (rule wp_mono [OF wp_conj [OF presD [OF idle_Init i] presD [OF pres_Init [OF cell_rel_eq] w]]])
      (auto simp: flash_within_def nor_kept_def within_def same_flash_def erase_rel_def)
qed

lemma Rollback_ok:
  assumes d: "nv_op (nor d) = NOR_Idle"
  shows "wp (Boot_DoRollback H qi) (\<lambda>(r, qi') d'. app_keep d d' \<and> r \<in> {0, -1} \<and>
     (r = 0 \<longrightarrow> locked d' \<and> app_image d' = old_image d)) d"
proof -
  have ini: "wp (if \<not> qi then BSP_QSPI_Init H else return QSPI_OK) (\<lambda>_ s. app_keep d s) d"
    using init_app_keep [OF d] by (simp add: flash_within_refl)
  show ?thesis
    unfolding Boot_DoRollback_def wp_bind [of "if \<not> qi then BSP_QSPI_Init H else return QSPI_OK"]
    by (rule wp_mono [OF ini])
      (auto split: prod.splits if_splits intro!: wp_mono [OF presD [OF pres_WaitIdle]] wp_mono [OF read_header [OF _ d]]
        wp_mono [OF restore_ok [OF _ d]])
qed

lemma Restore_SlotA_ok:
  assumes d: "nv_op (nor d) = NOR_Idle"
  shows "wp (Restore_SlotA H lay) (\<lambda>ok d'. nv_mem (nor d') = nv_mem (nor d) \<and> nv_op (nor d') = NOR_Idle \<and>
     (ok \<longrightarrow> locked d' \<and> app_image d' = old_image d)) d"
proof -
  have idle: "nv_mem (nor s) = nv_mem (nor d) \<and> nv_op (nor s) = NOR_Idle" if "flash_within R d s" for R s
    using that d by (simp add: flash_within_def nor_kept_def idle_at_def)
  have mw: "wp (Metadata_Write H (meta_restored lay (Metadata_Of (ld8 H s)))) (\<lambda>_ s'. nv_mem (nor s') = nv_mem (nor d) \<and>
      nv_op (nor s') = NOR_Idle \<and> locked s' \<and> app_image s' = old_image d) s"
    if s: "app_keep d s" "app_image s = old_image d" for s
    by (rule wp_mono [OF Metadata_Write_frame]) (use s idle [OF s(1)] in \<open>auto simp: meta_wf_Of\<close>)
  show ?thesis
    unfolding Restore_SlotA_def Metadata_Read_def
    by (auto split: prod.splits dest: idle intro!: wp_mono [OF presD [OF pres_WaitIdle flash_within_refl [OF cell_rel_erase, of APP_ADDR APP_SIZE]]]
        wp_mono [OF read_header [OF _ d]] wp_mono [OF restore_ok [OF _ d]] wp_mono [OF mw])
qed

subsection \<open>The manual backup\<close>

lemma slot_backup_ok:
  "nv_op (nor d) = NOR_Idle \<Longrightarrow> off + 4096 * n = APP_SIZE \<Longrightarrow>
   wp (slot_backup_loop H off n) (\<lambda>ok d'. within (erase_rel BACKUP_OFFSET APP_SIZE) d d' \<and> (ok \<longrightarrow> nv_op (nor d') = NOR_Idle \<and>
     nv_mem (nor d') = prog_mem (BACKUP_OFFSET + off) (mem_slice (ld8 H d) (APP_ADDR + off) (4096 * n)) (nv_mem (nor d)))) d"
proof (induction n arbitrary: off d)
  case 0
  then show ?case by (simp add: within_refl)
next
  case (Suc n)
  let ?R = "erase_rel BACKUP_OFFSET APP_SIZE" and ?a = "BACKUP_OFFSET + off"
  let ?buf = "mem_slice (ld8 H d) (APP_ADDR + off) 4096"
  let ?Q = "\<lambda>ok d'. within ?R d d' \<and> (ok \<longrightarrow> nv_op (nor d') = NOR_Idle \<and> nv_mem (nor d') =
      prog_mem ?a (mem_slice (ld8 H d) (APP_ADDR + off) (4096 * Suc n)) (nv_mem (nor d)))"
  have rest: "wp (slot_backup_loop H (off + 4096) n) ?Q s"
    if s: "within ?R d s" "nv_op (nor s) = NOR_Idle" "nv_mem (nor s) = prog_mem ?a ?buf (nv_mem (nor d))" for s
  proof (rule wp_mono [OF Suc.IH [OF s(2)]])
    show "off + 4096 + 4096 * n = APP_SIZE" using Suc.prems(2) by simp
    fix ok d' assume *: "within ?R s d' \<and> (ok \<longrightarrow> nv_op (nor d') = NOR_Idle \<and> nv_mem (nor d') =
      prog_mem (BACKUP_OFFSET + (off + 4096)) (mem_slice (ld8 H s) (APP_ADDR + (off + 4096)) (4096 * n)) (nv_mem (nor s)))"
    have ld: "ld8 H s = ld8 H d" using store.keep_others [OF s(1)] by simp
    have "mem_slice (ld8 H d) (APP_ADDR + off) (4096 * Suc n) = ?buf @ mem_slice (ld8 H d) (APP_ADDR + (off + 4096)) (4096 * n)"
      using mem_slice_add [of "ld8 H d" "APP_ADDR + off" 4096 "4096 * n"] by (simp add: add.assoc)
    moreover have "BACKUP_OFFSET + (off + 4096) = ?a + length ?buf" by simp
    ultimately show "?Q ok d'"
      using * within_trans [OF cell_rel_erase s(1)] unfolding s(3) ld by (metis prog_mem_append)
  qed
  have wt: "wp (QSPI_WaitIdle H) (\<lambda>_ s. idle_at (nv_mem (nor d)) s \<and> within ?R d s) d"
    using wp_conj [OF presD [OF pres_WaitIdle flash_within_refl [OF cell_rel_eq]]
        presD [OF within_WaitIdle [OF cell_rel_erase] within_refl [OF cell_rel_erase Suc.prems(1)]]]
    by (rule wp_mono) (use Suc.prems(1) in \<open>auto simp: flash_within_def nor_kept_def\<close>)
  have sz: "?a + 4096 \<le> NOR_SIZE" "BACKUP_OFFSET + APP_SIZE \<le> NOR_SIZE" "?a + 4096 \<le> BACKUP_OFFSET + APP_SIZE"
    using Suc.prems(2) by (auto simp: area_defs NOR_SIZE_def)
  have wr: "wp (BSP_QSPI_Write H ?buf ?a 4096) (\<lambda>r s'. within ?R d s' \<and> (r = QSPI_OK \<longrightarrow> nv_op (nor s') = NOR_Idle \<and>
      nv_mem (nor s') = prog_mem ?a ?buf (nv_mem (nor d)))) s" if "idle_at (nv_mem (nor d)) s" "within ?R d s" for s
    using wp_conj [OF presD [OF Write_region that(2), of ?a 4096 ?buf] store.write_ok [of s ?a 4096 ?buf]] that sz
    by (simp add: idle_at_def)
  show ?case
    unfolding slot_backup_loop.simps wp_bind app_area
  proof (rule wp_mono [OF wt], unfold wp_get, rule wp_mono)
    fix s assume s: "idle_at (nv_mem (nor d)) s \<and> within ?R d s"
    then have ld: "ld8 H s = ld8 H d" using store.keep_others by blast
    show "wp (BSP_QSPI_Write H (mem_slice (ld8 H s) (APP_ADDR + off) 4096) ?a 4096) (\<lambda>r s'. within ?R d s' \<and>
      (r = QSPI_OK \<longrightarrow> nv_op (nor s') = NOR_Idle \<and> nv_mem (nor s') = prog_mem ?a ?buf (nv_mem (nor d)))) s"
      unfolding ld using wr s by blast
  qed (use rest in \<open>auto simp del: mult_Suc_right\<close>)
qed

lemma Backup_SlotA_ok:
  assumes d: "nv_op (nor d) = NOR_Idle"
  shows "wp (Backup_SlotA H lay) (\<lambda>r d'. r \<in> {Some True, Some False} \<and> app_image d' = app_image d \<and>
     (r = Some True \<longrightarrow> nv_op (nor d') = NOR_Idle \<and> old_image d' = app_image d)) d"
proof -
  let ?R = "erase_rel BACKUP_OFFSET APP_SIZE"
  have er: "wp (QSPI_Erase_Blocks H BACKUP_OFFSET APP_SIZE) (\<lambda>r s. r \<noteq> None \<and> within ?R d s \<and>
      (r = Some 0 \<longrightarrow> nv_op (nor s) = NOR_Idle \<and> old_image s = replicate APP_SIZE 0xFF)) d"
    by (rule Erase_Blocks_ok [OF d]) (simp_all add: area_defs NOR_SIZE_def)
  have ld: "ld8 H s = ld8 H d" if "within ?R d s" for s using store.keep_others [OF that] by simp
  have bk: "wp (slot_backup_loop H 0 (APP_SIZE div 4096)) (\<lambda>ok s'. ld8 H s' = ld8 H d \<and> (ok \<longrightarrow> nv_op (nor s') = NOR_Idle \<and>
      old_image s' = app_image d)) s"
    if s: "within ?R d s" "nv_op (nor s) = NOR_Idle" "old_image s = replicate APP_SIZE 0xFF" for s
  proof (rule wp_mono [OF slot_backup_ok [OF s(2)]])
    show "0 + 4096 * (APP_SIZE div 4096) = APP_SIZE" by (simp add: APP_SIZE_def)
    then have sz: "4096 * (APP_SIZE div 4096) = APP_SIZE" by simp
    fix ok s' assume *: "within ?R s s' \<and> (ok \<longrightarrow> nv_op (nor s') = NOR_Idle \<and> nv_mem (nor s') =
      prog_mem (BACKUP_OFFSET + 0) (mem_slice (ld8 H s) (APP_ADDR + 0) (4096 * (APP_SIZE div 4096))) (nv_mem (nor s)))"
    have w: "within ?R d s'" using * within_trans [OF cell_rel_erase s(1)] by blast
    have "old_image s' = app_image d" if ok
      using prog_mem_erased [of "nv_mem (nor s)" BACKUP_OFFSET "app_image d"] s(3) * that
      unfolding sz ld [OF s(1)] by simp
    then show "ld8 H s' = ld8 H d \<and> (ok \<longrightarrow> nv_op (nor s') = NOR_Idle \<and> old_image s' = app_image d)"
      using * ld [OF w] by blast
  qed
  have mw: "wp (Metadata_Write H (meta_record_backup lay (Metadata_Of (ld8 H d)))) (\<lambda>_ s'. app_image s' = app_image d \<and>
      nv_op (nor s') = NOR_Idle \<and> old_image s' = app_image d) s"
    if s: "ld8 H s = ld8 H d" "nv_op (nor s) = NOR_Idle" "old_image s = app_image d" for s
    by (rule wp_mono [OF Metadata_Write_frame]) (use s in \<open>auto simp: meta_wf_Of\<close>)
  let ?Q = "\<lambda>r d'. r \<in> {Some True, Some False} \<and> app_image d' = app_image d \<and>
     (r = Some True \<longrightarrow> nv_op (nor d') = NOR_Idle \<and> old_image d' = app_image d)"
  have tail: "wp (do { ok \<leftarrow> slot_backup_loop H 0 (APP_SIZE div 4096);
      if \<not> ok then return (Some False)
      else do { meta \<leftarrow> Metadata_Read H; Metadata_Write H (meta_record_backup lay meta); return (Some True) } }) ?Q s"
    if "within ?R d s" "nv_op (nor s) = NOR_Idle" "old_image s = replicate APP_SIZE 0xFF" for s
    unfolding wp_bind [of "slot_backup_loop _ _ _"] Metadata_Read_def
    by (rule wp_mono [OF bk [OF that]]) (auto intro!: wp_mono [OF mw])
  have body: "wp (do { er \<leftarrow> QSPI_Erase_Blocks H BACKUP_OFFSET APP_SIZE;
       case er of None \<Rightarrow> return None
       | Some e \<Rightarrow> if e \<noteq> 0 then return (Some False)
         else do { ok \<leftarrow> slot_backup_loop H 0 (APP_SIZE div 4096);
           if \<not> ok then return (Some False)
           else do { meta \<leftarrow> Metadata_Read H; Metadata_Write H (meta_record_backup lay meta); return (Some True) } } }) ?Q d"
    unfolding wp_bind [of "QSPI_Erase_Blocks _ _ _"]
  proof (rule wp_mono [OF er])
    fix r s assume *: "r \<noteq> None \<and> within ?R d s \<and> (r = Some 0 \<longrightarrow> nv_op (nor s) = NOR_Idle \<and> old_image s = replicate APP_SIZE 0xFF)"
    then obtain e where r: "r = Some e" by blast
    show "wp (case r of None \<Rightarrow> return None
       | Some e \<Rightarrow> if e \<noteq> 0 then return (Some False)
         else do { ok \<leftarrow> slot_backup_loop H 0 (APP_SIZE div 4096);
           if \<not> ok then return (Some False)
           else do { meta \<leftarrow> Metadata_Read H; Metadata_Write H (meta_record_backup lay meta); return (Some True) } }) ?Q s"
      using * r tail [of s] ld [of s] by (cases "e = 0") (simp_all del: wp_bind)
  qed
  show ?thesis
    unfolding Backup_SlotA_def Let_def app_area wp_bind [of State_Monad.get] wp_get
    using body by (simp del: wp_bind)
qed

subsection \<open>The boot decision\<close>

definition iwdg_flag :: "'d \<Rightarrow> bool" where
  "iwdg_flag d \<longleftrightarrow> fst (run_state (rd_reg H RCC_RSR) d) AND RCC_RSR_IWDG1RSTF_Msk \<noteq> 0"

lemma Reset_Reason_ok:
  "wp (Reset_Reason_Is_IWDG H) (\<lambda>r d'. r = iwdg_flag d \<and> flash_within (\<lambda>x a b. b = a) d d') d"
proof -
  let ?W = "flash_within (\<lambda>x a b. b = a) d"
  have rd: "wp (rd_reg H RCC_RSR) (\<lambda>v s'. ?W s' \<and> v = fst (run_state (rd_reg H RCC_RSR) s)) s" if "?W s" for s
    using presD [OF flash_within_quiet [OF quiet_rd_reg] that] by (simp add: wp_result)
  have wr: "wp (wr_reg H RCC_RSR v) (\<lambda>_ s'. ?W s') s" if "?W s" for s v
    by (rule presD [OF flash_within_quiet [OF quiet_wr_reg] that])
  have tail: "wp (do { v \<leftarrow> rd_reg H RCC_RSR; wr_reg H RCC_RSR (v OR RCC_RSR_RMVF); return b })
      (\<lambda>r d'. r = b \<and> ?W d') s" if "?W s" for s b
    by (auto intro!: wp_mono [OF rd [OF that]] wp_mono [OF wr])
  show ?thesis
    unfolding Reset_Reason_Is_IWDG_def wp_bind [of "rd_reg H RCC_RSR" "\<lambda>rsr. if _ rsr then _ rsr else _ rsr"]
    by (rule wp_mono [OF rd [OF flash_within_refl [OF cell_rel_eq]]]) 
      (use tail [of _ True] tail [of _ False] in \<open>auto simp: iwdg_flag_def simp del: wp_bind\<close>)
qed

text \<open>What a boot step does in each state of the metadata.\<close>

definition step_outcome :: "meta_layout \<Rightarrow> 'd \<Rightarrow> int \<Rightarrow> 'd \<Rightarrow> bool" where
  "step_outcome lay d r d' \<longleftrightarrow>
     (let m = Metadata_Of (ld8 H d)
      in if state m = STATE_EMPTY then r = 0 \<and> d' = d
         else if state m = STATE_PENDING_UPDATE then r = 1 \<and> app_image d' = app_image d
         else if state m = STATE_TESTING then
           (if iwdg_flag d then r = 0 \<or> r = 2 \<and> app_image d' = old_image d
            else r = 1 \<and> ld8 H d' = ld8 H d)
         else r = 2 \<and> d' = d)"

lemma Boot_Metadata_Step_ok:
  assumes d: "nv_op (nor d) = NOR_Idle"
  shows "wp (Boot_Metadata_Step H lay qi) (\<lambda>(r, qi') d'. nv_op (nor d') = NOR_Idle \<and> nv_mem (nor d') = nv_mem (nor d) \<and>
     step_outcome lay d r d') d"
proof -
  let ?m = "Metadata_Of (ld8 H d)"
  let ?I = "\<lambda>s. nv_op (nor s) = NOR_Idle \<and> nv_mem (nor s) = nv_mem (nor d)"
  let ?Q = "\<lambda>(r, qi') d'. ?I d' \<and> step_outcome lay d r d'"
  have keep: "?I s" if "flash_within R d s" for R s
    using that d by (simp add: flash_within_def nor_kept_def idle_at_def)
  have rb: "wp (Boot_DoRollback H qi) (\<lambda>(r, qi') s'. ?I s' \<and> (r = 0 \<longrightarrow> app_image s' = old_image d)) s" if "?I s" for s
    by (rule wp_mono [OF Rollback_ok])
      (use that in \<open>auto simp: flash_within_def nor_kept_def idle_at_def split: prod.splits\<close>)
  have mw: "wp (Metadata_Write H (meta_restored lay ?m)) (\<lambda>_ s'. ?I s' \<and> app_image s' = app_image s) s" if "?I s" for s
    by (rule wp_mono [OF Metadata_Write_frame]) (use that in \<open>auto simp: meta_wf_Of\<close>)
  have pend: "wp (Metadata_Write H (?m\<lparr>state := STATE_TESTING\<rparr>)) (\<lambda>_ s'. ?I s' \<and> app_image s' = app_image d) d"
    by (rule wp_mono [OF Metadata_Write_frame]) (use d in \<open>auto simp: meta_wf_Of\<close>)
  have roll: "wp (do { (rb, qi) \<leftarrow> Boot_DoRollback H qi;
        if rb = 0 then do { Metadata_Write H (meta_restored lay ?m); return (2, qi) } else return (0, qi) }) ?Q s"
    if s: "?I s" and t: "state ?m = STATE_TESTING" "iwdg_flag d" for s
    by (auto simp: step_outcome_def t split: prod.splits intro!: wp_mono [OF rb [OF s]] wp_mono [OF mw])
  have test: "wp (do { iwdg \<leftarrow> Reset_Reason_Is_IWDG H;
       if iwdg then do { (rb, qi) \<leftarrow> Boot_DoRollback H qi;
         if rb = 0 then do { Metadata_Write H (meta_restored lay ?m); return (2, qi) } else return (0, qi) }
       else return (1, qi) }) ?Q d" if t: "state ?m = STATE_TESTING"
    unfolding wp_bind [of "Reset_Reason_Is_IWDG H"]
  proof (rule wp_mono [OF Reset_Reason_ok])
    fix r s assume *: "r = iwdg_flag d \<and> flash_within (\<lambda>x a b. b = a) d s"
    then have s: "?I s" "ld8 H s = ld8 H d" using keep by (auto simp: flash_within_def)
    show "wp (if r then do { (rb, qi) \<leftarrow> Boot_DoRollback H qi;
         if rb = 0 then do { Metadata_Write H (meta_restored lay ?m); return (2, qi) } else return (0, qi) }
       else return (1, qi)) ?Q s"
      using * s t roll by (auto simp: step_outcome_def simp del: wp_bind)
  qed
  have p: "wp (do { Metadata_Write H (?m\<lparr>state := STATE_TESTING\<rparr>); return (1, qi) }) ?Q d"
    if "state ?m = STATE_PENDING_UPDATE"
    using that by (auto simp: step_outcome_def intro!: wp_mono [OF pend])
  show ?thesis
    unfolding Boot_Metadata_Step_def Metadata_Read_def
    using p test d by (auto simp: step_outcome_def simp del: wp_bind simp: wp_bind [of "State_Monad.bind _ _"] wp_bind [of State_Monad.get])
qed

end

end
