(* ===== verification/Liveness.thy ===== *)
theory Liveness
  imports Fault_Budget Menu_Correct
begin

text \<open>
  What succeeds when faults are few: a metadata write survives two faults anywhere, and with no
  fault left staging, writing an update, rolling back and booting do exactly what they promise. The
  boot decision refines an abstract state machine.
\<close>

section \<open>The boot state machine\<close>

text \<open>The abstract machine: what the metadata say, and what a boot does with it.\<close>

datatype boot_state = B_Empty | B_Pending | B_Testing | B_Confirmed

definition boot_state_of :: "Metadata \<Rightarrow> boot_state" where
  "boot_state_of m =
     (if state m = STATE_EMPTY then B_Empty else if state m = STATE_PENDING_UPDATE then B_Pending
      else if state m = STATE_TESTING then B_Testing else B_Confirmed)"

text \<open>Results: 0 stay in the menu, 1 start the watchdog and run the application, 2 run it.\<close>

fun boot_spec :: "boot_state \<Rightarrow> bool \<Rightarrow> bool \<Rightarrow> int \<times> boot_state" where
  "boot_spec B_Empty watchdog backup = (0, B_Empty)"
| "boot_spec B_Pending watchdog backup = (1, B_Testing)"
| "boot_spec B_Testing watchdog backup =
     (if \<not> watchdog then (1, B_Testing) else if backup then (2, B_Confirmed) else (0, B_Testing))"
| "boot_spec B_Confirmed watchdog backup = (2, B_Confirmed)"

section \<open>Success with few faults\<close>

context hal_budget
begin

subsection \<open>Internal flash: retries pay for faults\<close>

text \<open>A state in which the flash is unlocked and at most \<open>k\<close> faults are left.\<close>

definition ready :: "nat \<Rightarrow> 'a \<Rightarrow> bool" where
  "ready k d \<longleftrightarrow> budget d \<le> k \<and> \<not> locked d"

lemma ready_quiet: "quiet H nor locked m \<Longrightarrow> spends budget (\<lambda>_. True) m \<Longrightarrow> pres (ready k) m"
  unfolding quiet_def same_flash_def ready_def
  by (rule presI) (metis spends_pres pres_run)

lemmas ready_fclear = ready_quiet [OF quiet_fclear b_fclear]

lemma ready_erase:
  "ready k d \<Longrightarrow> wp (HAL_FLASHEx_Erase H e) (\<lambda>(r, se) d'. ready k d' \<and> (r \<noteq> HAL_OK \<longrightarrow> 0 < k \<and> ready (k - 1) d')) d"
  using wpD [OF b_ferase [of e d]] flash_erase [of e d]
  by (intro wpI) (fastforce simp: ready_def split: prod.splits)

lemma ready_program:
  "ready k d \<Longrightarrow> a mod 32 = 0 \<Longrightarrow> length bs = 32 \<Longrightarrow>
   wp (HAL_FLASH_Program H a bs) (\<lambda>r d'. ready k d' \<and> (r \<noteq> HAL_OK \<longrightarrow> 0 < k \<and> ready (k - 1) d')) d"
  using wpD [OF b_fprogram [of a bs d]] flash_program [of a bs d]
  by (intro wpI) (fastforce simp: ready_def)

lemma meta_erase_works:
  "ready k d \<Longrightarrow> k < n \<Longrightarrow> wp (meta_erase_loop H n) (\<lambda>ok d'. ok \<and> ready k d') d"
proof (induction n arbitrary: k d)
  case (Suc n)
  have e: "wp (HAL_FLASHEx_Erase H meta_erase) (\<lambda>p. wp (case p of (st, SectorError) \<Rightarrow>
      if st = HAL_OK then return True else meta_erase_loop H n) (\<lambda>ok d'. ok \<and> ready k d')) s" if "ready k s" for s
  proof (rule wp_mono [OF ready_erase [OF that]], clarify)
    fix r se s' assume *: "ready k s'" "r \<noteq> HAL_OK \<longrightarrow> 0 < k \<and> ready (k - 1) s'"
    show "wp (if r = HAL_OK then return True else meta_erase_loop H n) (\<lambda>ok d'. ok \<and> ready k d') s'"
    proof (cases "r = HAL_OK")
      case False
      then have "wp (meta_erase_loop H n) (\<lambda>ok d'. ok \<and> ready k d') s'"
        by (intro wp_mono [OF Suc.IH [of "k - 1"]]) (use * Suc.prems(2) in \<open>auto simp: ready_def\<close>)
      with False show ?thesis by simp
    qed (use * in simp)
  qed
  show ?case
    unfolding meta_erase_loop.simps wp_bind by (rule wp_mono [OF presD [OF ready_fclear Suc.prems(1)] e])
qed simp

lemma meta_prog_works:
  "ready k d \<Longrightarrow> k < n \<Longrightarrow> a mod 32 = 0 \<Longrightarrow> length bs = 32 \<Longrightarrow>
   wp (meta_prog_loop H a bs n) (\<lambda>ok d'. ok \<and> ready k d') d"
proof (induction n arbitrary: k d)
  case (Suc n)
  have e: "wp (HAL_FLASH_Program H a bs) (\<lambda>st. wp (if st = HAL_OK then return True else meta_prog_loop H a bs n)
      (\<lambda>ok d'. ok \<and> ready k d')) s" if "ready k s" for s
  proof (rule wp_mono [OF ready_program [OF that Suc.prems(3,4)]])
    fix r s' assume *: "ready k s' \<and> (r \<noteq> HAL_OK \<longrightarrow> 0 < k \<and> ready (k - 1) s')"
    show "wp (if r = HAL_OK then return True else meta_prog_loop H a bs n) (\<lambda>ok d'. ok \<and> ready k d') s'"
    proof (cases "r = HAL_OK")
      case False
      then have "wp (meta_prog_loop H a bs n) (\<lambda>ok d'. ok \<and> ready k d') s'"
        by (intro wp_mono [OF Suc.IH [of "k - 1"]]) (use * Suc.prems(2-) in \<open>auto simp: ready_def\<close>)
      with False show ?thesis by simp
    qed (use * in simp)
  qed
  show ?case
    unfolding meta_prog_loop.simps wp_bind by (rule wp_mono [OF presD [OF ready_fclear Suc.prems(1)] e])
qed simp

lemma meta_words_works:
  "ready k d \<Longrightarrow> k < 3 \<Longrightarrow> (i + n) * 32 \<le> length bs \<Longrightarrow>
   wp (meta_words_loop H bs i n) (\<lambda>ok d'. ok \<and> ready k d') d"
proof (induction n arbitrary: i d)
  case (Suc n)
  have w: "length (take 32 (drop (i * 32) bs)) = 32" "(METADATA_ADDR + i * 32) mod 32 = 0"
    using Suc.prems(3) by (simp_all add: METADATA_ADDR_def)
  show ?case
    unfolding meta_words_loop.simps wp_bind
    by (rule wp_mono [OF meta_prog_works [OF Suc.prems(1,2) w(2,1)]]) (use Suc in auto)
qed simp

text \<open>What a completed write has programmed, so that the read-back succeeds.\<close>

lemma words_written:
  assumes "meta_wf m" "\<forall>x. in_meta_sector x \<longrightarrow> ld8 H d x = 0xFF"
  shows "wp (meta_words_loop H (meta_bytes m) 0 2) (\<lambda>ok d'. ok \<longrightarrow> mem_slice (ld8 H d') METADATA_ADDR 64 = meta_bytes m) d"
proof (rule wp_mono [OF meta_words_loop_ok [OF _ _ flash_within_refl [OF cell_rel_sectors]]])
  have len: "length (meta_bytes m) = 64" by (rule length_meta_bytes [OF assms(1)])
  then show "(0 + 2) * 32 \<le> length (meta_bytes m)" by simp
  fix ok d' assume *: "meta_keep d d' \<and> (ok \<longrightarrow> ld8 H d' =
    prog_mem (METADATA_ADDR + 0 * 32) (take (2 * 32) (drop (0 * 32) (meta_bytes m))) (ld8 H d))"
  have "mem_slice (ld8 H d) METADATA_ADDR (length (meta_bytes m)) = replicate (length (meta_bytes m)) 0xFF"
    using assms(2) len by (intro mem_slice_eq_listI) (auto simp: in_meta_sector METADATA_ADDR_def)
  from prog_mem_erased [OF this] show "ok \<longrightarrow> mem_slice (ld8 H d') METADATA_ADDR 64 = meta_bytes m"
    using * len by simp
qed simp

lemma Metadata_Write_works:
  assumes "meta_wf m" "budget d \<le> 2"
  shows "wp (Metadata_Write H m) (\<lambda>(r, m') d'. r = 0 \<and> budget d' \<le> budget d) d"
proof -
  define m' where "m' = m\<lparr>magic := METADATA_MAGIC\<rparr>"
  have m': "meta_wf m'" using assms(1) by (simp add: m'_def)
  define k where "k = budget d"
  have unl: "wp (HAL_FLASH_Unlock H) (\<lambda>_ s. ready k s) d"
    using wp_conj [OF unlock_works spends_le [OF b_unlock, of d k]] by (auto simp: ready_def k_def elim!: wp_mono)
  have er: "wp (meta_erase_loop H 10) (\<lambda>ok s'. ok \<and> ready k s' \<and> (\<forall>x. in_meta_sector x \<longrightarrow> ld8 H s' x = 0xFF)) s"
    if "ready k s" for s
    by (rule wp_mono [OF wp_conj [OF meta_erase_works [OF that] meta_erase_loop_ok [OF flash_within_refl [OF cell_rel_sectors]]]])
      (use assms(2) in \<open>auto simp: k_def\<close>)
  have wd: "wp (meta_words_loop H (meta_bytes m') 0 2) (\<lambda>ok s'. ok \<and> budget s' \<le> k \<and>
      mem_slice (ld8 H s') METADATA_ADDR 64 = meta_bytes m') s"
    if "ready k s" "\<forall>x. in_meta_sector x \<longrightarrow> ld8 H s x = 0xFF" for s
    by (rule wp_mono [OF wp_conj [OF meta_words_works [OF that(1)] words_written [OF m' that(2)]]])
      (use assms(2) m' in \<open>auto simp: k_def ready_def length_meta_bytes\<close>)
  have lk: "wp (HAL_FLASH_Lock H) (\<lambda>_ s'. budget s' \<le> k \<and> ld8 H s' = ld8 H s) s" if "budget s \<le> k" for s
    by (rule wp_conj [OF spends_le [OF b_lock that]], rule wpI, drule flash_lock, simp)
  have dc: "wp (SCB_InvalidateDCache H) (\<lambda>_ s'. budget s' \<le> k \<and> ld8 H s' = ld8 H s) s" if "budget s \<le> k" for s
    using quiet_dcache unfolding quiet_def same_flash_def
    by (intro wp_conj [OF spends_le [OF b_dcache that]] wpI) blast
  show ?thesis
    unfolding Metadata_Write_def Let_def m'_def [symmetric] k_def [symmetric] wp_bind
    by (rule wp_mono [OF unl], rule wp_mono [OF er], assumption)
      (auto intro!: wp_mono [OF wd] wp_mono [OF lk] wp_mono [OF dc])
qed

subsection \<open>No faults left: every operation of the driver succeeds\<close>

definition good :: "'a \<Rightarrow> bool" where
  "good d \<longleftrightarrow> budget d = 0 \<and> nv_op (nor d) = NOR_Idle"

lemma good_quiet: "quiet H nor locked m \<Longrightarrow> spends budget (\<lambda>_. True) m \<Longrightarrow> pres good m"
  unfolding good_def
proof (rule presI)
  fix s r s' assume q: "quiet H nor locked m" "spends budget (\<lambda>_. True) m" "budget s = 0 \<and> nv_op (nor s) = NOR_Idle"
    "run_state m s = (r, s')"
  have "budget s' \<le> 0" by (rule pres_run [OF spends_pres [OF q(2)] _ q(4)]) (use q(3) in simp)
  moreover have "idle_at (nv_mem (nor s)) s'"
    by (rule pres_run [OF idle_quiet [OF q(1)] _ q(4)]) (use q(3) in \<open>simp add: idle_at_def\<close>)
  ultimately show "budget s' = 0 \<and> nv_op (nor s') = NOR_Idle" by (simp add: idle_at_def)
qed

lemma AutoPollingMemReady_works: "budget d = 0 \<Longrightarrow> wp (QSPI_AutoPollingMemReady H) (\<lambda>r d'. r = QSPI_OK \<and> budget d' = 0) d"
  unfolding QSPI_AutoPollingMemReady_def
  by (auto simp: poll_config_def W25Q_SR1_WIP_def intro!: wp_mono [OF works [OF poll_wip]])

lemma command_works: "budget d = 0 \<Longrightarrow> wp (HAL_QSPI_Command H c) (\<lambda>r d'. r = HAL_OK \<and> budget d' = 0) d"
  by (rule wp_mono [OF works [OF b_command]]) auto

lemma Init_works: "budget d = 0 \<Longrightarrow> wp (BSP_QSPI_Init H) (\<lambda>r d'. r = QSPI_OK \<and> budget d' = 0) d"
  unfolding BSP_QSPI_Init_def qspi_gpio_init_def QSPI_EnterFourBytesAddress_def
  by (auto simp: Let_def intro!: wp_mono [OF works [OF b_deinit]] wp_mono [OF works [OF b_clk]] wp_mono [OF works [OF b_init]]
    wp_mono [OF works [OF b_gpio]] wp_mono [OF command_works] wp_mono [OF AutoPollingMemReady_works])

lemma Init_good: "good d \<Longrightarrow> wp (BSP_QSPI_Init H) (\<lambda>r d'. r = QSPI_OK \<and> good d' \<and> nv_mem (nor d') = nv_mem (nor d)) d"
  using wp_conj [OF Init_works [of d] store.init_same [of d]] by (auto simp: good_def elim!: wp_mono)

lemma Read_works: "budget d = 0 \<Longrightarrow> wp (BSP_QSPI_Read H a n) (\<lambda>(r, bs) d'. r = QSPI_OK \<and> budget d' = 0) d"
  unfolding BSP_QSPI_Read_def
  by (auto split: prod.splits intro!: wp_mono [OF command_works] wp_mono [OF works [OF b_receive]])

lemma WriteEnable_works:
  assumes "good d"
  shows "wp (QSPI_WriteEnable H) (\<lambda>r d'. r = QSPI_OK \<and> good d' \<and> nv_mem (nor d') = nv_mem (nor d) \<and> nv_wel (nor d')) d"
proof -
  let ?c = "cmd_no_address W25Q_CMD_WRITE_ENABLE QSPI_LINES_NONE 0"
  have i: "idle_at (nv_mem (nor d)) d" using assms by (simp add: good_def idle_at_def)
  have c: "wp (HAL_QSPI_Command H ?c) (\<lambda>r s. r = HAL_OK \<and> good s \<and> nv_wel (nor s)) d"
  proof (rule wp_mono [OF wp_conj [OF command_works wp_conj [OF presD [OF idle_command i]]]])
    show "wp (HAL_QSPI_Command H ?c) (\<lambda>r s. r = HAL_OK \<longrightarrow> nv_wel (nor s)) d"
      using i by (intro wpI impI) (auto simp: idle_at_def W25Q_CMD_WRITE_ENABLE_def intro: wren_works)
  qed (use assms in \<open>auto simp: good_def idle_at_def\<close>)
  have p: "wp (HAL_QSPI_AutoPolling H c (poll_config W25Q_SR1_WEL W25Q_SR1_WEL)) (\<lambda>r s'. r = HAL_OK \<and> budget s' = 0) s"
    if "good s" "nv_wel (nor s)" for s c
    using wp_conj [OF works [OF b_poll, of s c "poll_config W25Q_SR1_WEL W25Q_SR1_WEL"] poll_wel [of s "poll_config W25Q_SR1_WEL W25Q_SR1_WEL" c]] that
    by (auto simp: good_def poll_config_def W25Q_SR1_WEL_def elim!: wp_mono)
  have "wp (QSPI_WriteEnable H) (\<lambda>r d'. r = QSPI_OK \<and> budget d' = 0) d"
    unfolding QSPI_WriteEnable_def by (auto intro!: wp_mono [OF c] wp_mono [OF p])
  from wp_conj [OF this wp_conj [OF WriteEnable_wel presD [OF idle_WriteEnable i]]] show ?thesis
    by (auto simp: good_def idle_at_def elim!: wp_mono)
qed

lemma page_works:
  assumes "good d" "nv_wel (nor d)" "a mod 256 + n \<le> 256" "n \<le> length p"
    and "\<And>s. good s \<Longrightarrow> Q s"
  shows "wp (HAL_QSPI_Command H (cmd_address W25Q_CMD_PAGE_PROGRAM_4B a QSPI_1_LINE n))
     (\<lambda>r s. r = HAL_OK \<and> wp (HAL_QSPI_Transmit H p)
       (\<lambda>r s. r = HAL_OK \<and> wp (QSPI_AutoPollingMemReady H) (\<lambda>r s. r = QSPI_OK \<and> Q s) s) s) d"
proof -
  have i: "idle_at (nv_mem (nor d)) d" "budget d = 0" using assms(1) by (simp_all add: good_def idle_at_def)
  note pp = page_program_ok [OF i(1) assms(2-4), where Q = "\<lambda>s. nv_op (nor s) = NOR_Idle"]
  have t: "wp (HAL_QSPI_Transmit H p) (\<lambda>r s. r = HAL_OK \<and> wp (QSPI_AutoPollingMemReady H) (\<lambda>r s. r = QSPI_OK \<and> Q s) s) s"
    if "budget s = 0" "wp (HAL_QSPI_Transmit H p) (\<lambda>r s. r = HAL_OK \<longrightarrow>
      wp (QSPI_AutoPollingMemReady H) (\<lambda>r s. r = QSPI_OK \<longrightarrow> nv_op (nor s) = NOR_Idle) s) s" for s
  proof (rule wp_mono [OF wp_conj [OF works [OF b_transmit that(1)] that(2)]], intro conjI)
    fix r s assume *: "(budget s = 0 \<and> r = HAL_OK) \<and> (r = HAL_OK \<longrightarrow>
      wp (QSPI_AutoPollingMemReady H) (\<lambda>r s. r = QSPI_OK \<longrightarrow> nv_op (nor s) = NOR_Idle) s)"
    then show "r = HAL_OK" by blast
    from * have "budget s = 0" and "wp (QSPI_AutoPollingMemReady H) (\<lambda>r s. r = QSPI_OK \<longrightarrow> nv_op (nor s) = NOR_Idle) s"
      by blast+
    from wp_conj [OF AutoPollingMemReady_works [OF this(1)] this(2)]
    show "wp (QSPI_AutoPollingMemReady H) (\<lambda>r s. r = QSPI_OK \<and> Q s) s"
      by (rule wp_mono) (auto simp: good_def intro: assms(5))
  qed
  show ?thesis
    by (rule wp_mono [OF wp_conj [OF command_works [OF i(2)] pp]]) (auto simp: idle_at_def intro: t)
qed

lemma write_loop_works:
  "good d \<Longrightarrow> n \<le> length p \<Longrightarrow> wp (qspi_write_loop H p a n) (\<lambda>r d'. r = QSPI_OK \<and> good d') d"
proof (induction n arbitrary: p a d rule: less_induct)
  case (less n)
  show ?case
  proof (cases "n = 0")
    case True
    then show ?thesis using less.prems by (subst qspi_write_loop.simps) simp
  next
    case False
    define avail where "avail = QSPI_PAGE_SIZE - a mod QSPI_PAGE_SIZE"
    define k where "k = (if n < avail then n else avail)"
    have k: "0 < k" "k \<le> n" "a mod 256 + k \<le> 256" using False by (auto simp: k_def avail_def QSPI_PAGE_SIZE_def)
    have rest: "wp (qspi_write_loop H (drop k p) (wrap32 (a + k)) (n - k)) (\<lambda>r d'. r = QSPI_OK \<and> good d') s" if "good s" for s
      using less.IH [of "n - k" s "drop k p"] that k less.prems by simp
    have step: "wp (HAL_QSPI_Command H (cmd_address W25Q_CMD_PAGE_PROGRAM_4B a QSPI_1_LINE k)) (\<lambda>r s. r = HAL_OK \<and>
        wp (HAL_QSPI_Transmit H p) (\<lambda>r s. r = HAL_OK \<and> wp (QSPI_AutoPollingMemReady H) (\<lambda>r s. r = QSPI_OK \<and>
          wp (qspi_write_loop H (drop k p) (wrap32 (a + k)) (n - k)) (\<lambda>r d'. r = QSPI_OK \<and> good d') s) s) s) s"
      if "good s" "nv_wel (nor s)" for s
      by (rule page_works [OF that k(3)]) (use k less.prems rest in auto)
    show ?thesis
      unfolding qspi_write_loop_step [OF False avail_def k_def] wp_bind
    proof (rule wp_mono [OF WriteEnable_works [OF less.prems(1)]])
      fix r s assume rs: "r = QSPI_OK \<and> good s \<and> nv_mem (nor s) = nv_mem (nor d) \<and> nv_wel (nor s)"
      then have "wp (HAL_QSPI_Command H (cmd_address W25Q_CMD_PAGE_PROGRAM_4B a QSPI_1_LINE k)) (\<lambda>r s. r = HAL_OK \<and>
        wp (HAL_QSPI_Transmit H p) (\<lambda>r s. r = HAL_OK \<and> wp (QSPI_AutoPollingMemReady H) (\<lambda>r s. r = QSPI_OK \<and>
          wp (qspi_write_loop H (drop k p) (wrap32 (a + k)) (n - k)) (\<lambda>r d'. r = QSPI_OK \<and> good d') s) s) s) s"
        using step by blast
      then show "wp (if r \<noteq> QSPI_OK then return QSPI_ERROR else do {
          r \<leftarrow> HAL_QSPI_Command H (cmd_address W25Q_CMD_PAGE_PROGRAM_4B a QSPI_1_LINE k);
          if r \<noteq> HAL_OK then return QSPI_ERROR
          else do {
            r \<leftarrow> HAL_QSPI_Transmit H p;
            if r \<noteq> HAL_OK then return QSPI_ERROR
            else do {
              r \<leftarrow> QSPI_AutoPollingMemReady H;
              if r \<noteq> QSPI_OK then return QSPI_ERROR
              else qspi_write_loop H (drop k p) (wrap32 (a + k)) (n - k)
            } } }) (\<lambda>r d'. r = QSPI_OK \<and> good d') s"
        using rs by (auto elim!: wp_mono)
    qed
  qed
qed

lemma Write_works: "good d \<Longrightarrow> n \<le> length p \<Longrightarrow> wp (BSP_QSPI_Write H p a n) (\<lambda>r d'. r = QSPI_OK \<and> good d') d"
  unfolding BSP_QSPI_Write_def by (rule write_loop_works)

lemma erase_block_works:
  assumes "good d" "a mod 65536 = 0"
  shows "wp (BSP_QSPI_Erase_Block64K H a) (\<lambda>r d'. r = QSPI_OK \<and> good d') d"
proof -
  have p: "wp (QSPI_AutoPollingMemReady H) (\<lambda>r s'. r = QSPI_OK \<and> good s') s" if "budget s = 0" for s
    by (rule wp_mono [OF wp_conj [OF AutoPollingMemReady_works [OF that] AutoPollingMemReady_idle]])
      (auto simp: good_def idle_at_def)
  have "wp (erase_block_attempt H a) (\<lambda>ok d'. ok \<and> good d') d"
    unfolding erase_block_attempt_def
    by (auto simp: good_def intro!: wp_mono [OF WriteEnable_works [OF assms(1)]] wp_mono [OF command_works] wp_mono [OF p [unfolded good_def]])
  then show ?thesis
    unfolding BSP_QSPI_Erase_Block64K_def numeral_3_eq_3 erase_block_loop.simps wp_bind by (rule wp_mono) simp
qed

lemma erase_blocks_works:
  "good d \<Longrightarrow> a mod 65536 = 0 \<Longrightarrow> lim \<le> NOR_SIZE \<Longrightarrow> lim \<le> a + fuel * 65536 \<Longrightarrow>
   wp (erase_blocks_loop H fuel a lim cnt) (\<lambda>r d'. r = Some 0 \<and> good d') d"
proof (induction fuel arbitrary: a d cnt)
  case (Suc fuel)
  have e: "wp (erase_block_failed H a) (\<lambda>f s. \<not> f \<and> good s) d"
    unfolding erase_block_failed_def by (auto intro!: wp_mono [OF erase_block_works [OF Suc.prems(1,2)]])
  have rest: "wp (erase_blocks_loop H fuel (wrap32 (a + QSPI_BLOCK_64K_SIZE)) lim c) (\<lambda>r d'. r = Some 0 \<and> good d') s"
    if "good s" "a < lim" for s c
  proof -
    have "wrap32 (a + QSPI_BLOCK_64K_SIZE) = a + 65536"
      using that(2) Suc.prems(3) by (simp add: QSPI_BLOCK_64K_SIZE_def NOR_SIZE_def)
    then show ?thesis using Suc.IH [OF that(1), of "a + 65536"] Suc.prems by simp
  qed
  have i: "wp (BSP_QSPI_Init H) (\<lambda>_ s'. good s') s" if "good s" for s
    using Init_good [OF that] by (rule wp_mono) simp
  show ?case
    using Suc.prems(1) by (auto intro!: wp_mono [OF e] wp_mono [OF i] rest)
qed simp

lemma Erase_Blocks_works:
  assumes "good d" "a mod 65536 = 0" "a + n \<le> NOR_SIZE"
  shows "wp (QSPI_Erase_Blocks H a n) (\<lambda>r d'. r = Some 0 \<and> good d') d"
proof -
  have "wrap32 (a + n) = a + n" using assms(3) by (simp add: NOR_SIZE_def)
  then show ?thesis
    unfolding QSPI_Erase_Blocks_def by (simp only:) (rule erase_blocks_works; use assms in \<open>simp add: NOR_SIZE_def\<close>)
qed

subsection \<open>No faults left: bank 2\<close>

definition up :: "'a \<Rightarrow> bool" where
  "up d \<longleftrightarrow> good d \<and> \<not> locked d"

lemma up_ready: "up d \<longleftrightarrow> ready 0 d \<and> nv_op (nor d) = NOR_Idle"
  by (auto simp: up_def good_def ready_def)

lemma up_quiet: "quiet H nor locked m \<Longrightarrow> spends budget (\<lambda>_. True) m \<Longrightarrow> pres up m"
  using pres_conj [OF good_quiet ready_quiet [of m 0]] by (auto simp: up_def good_def ready_def pres_def wp_result)

lemma idle_evolve: "nor_evolve rst NOR_Idle (nor d) (nor d') \<Longrightarrow> nv_op (nor d) = NOR_Idle \<Longrightarrow> nv_op (nor d') = NOR_Idle"
  using idle_at_step [of "nv_mem (nor d)" d rst d'] by (simp add: idle_at_def)

lemma up_erase: "up d \<Longrightarrow> wp (HAL_FLASHEx_Erase H e) (\<lambda>(r, se) d'. r = HAL_OK \<and> up d') d"
  using wpD [OF ready_erase [of 0 d e]] flash_erase [of e d] idle_evolve [of False d]
  by (intro wpI) (fastforce simp: up_ready split: prod.splits)

lemma up_program:
  "up d \<Longrightarrow> a mod 32 = 0 \<Longrightarrow> length bs = 32 \<Longrightarrow> wp (HAL_FLASH_Program H a bs) (\<lambda>r d'. r = HAL_OK \<and> up d') d"
  using wpD [OF ready_program [of 0 d a bs]] flash_program [of a bs d] idle_evolve [of False d]
  by (intro wpI) (fastforce simp: up_ready)

lemma up_sr2_wait: "pres up (sr2_wait H k)"
  by (induction k) (auto intro!: pres_rules up_quiet [OF quiet_sr2 b_sr2])

lemma up_WaitIdle: "pres up (QSPI_WaitIdle H)"
proof -
  have "pres up (qspi_wait H k)" for k
    by (induction k) (auto intro!: pres_rules up_quiet [OF quiet_busy b_busy])
  then show ?thesis by (simp add: QSPI_WaitIdle_def)
qed

lemma up_Read:
  assumes "up d" "a + n \<le> NOR_SIZE"
  shows "wp (BSP_QSPI_Read H a n) (\<lambda>(r, bs) d'. r = QSPI_OK \<and> up d' \<and> length bs = n) d"
proof -
  have d: "budget d = 0" "nv_op (nor d) = NOR_Idle" "\<not> locked d" using assms(1) by (simp_all add: up_def good_def)
  have w: "within (\<lambda>x a b. b = a) d d" by (simp add: within_refl d)
  show ?thesis
    by (rule wp_mono [OF wp_conj [OF Read_works [OF d(1)] wp_conj [OF Read_store [OF d(2) assms(2)] presD [OF pres_Read [OF cell_rel_eq] w]]]])
      (use d(3) in \<open>auto simp: up_def good_def within_def same_flash_def\<close>)
qed

lemma erase_sector_works: "up d \<Longrightarrow> 0 < k \<Longrightarrow> wp (bank2_erase_attempts H s k) (\<lambda>ok d'. ok \<and> up d') d"
  by (cases k) (auto intro!: wp_mono [OF presD [OF up_sr2_wait]] wp_mono [OF presD [OF up_quiet [OF quiet_fclear b_fclear]]]
    wp_mono [OF up_erase] split: prod.splits)

lemma erase_bank_works: "up d \<Longrightarrow> 0 < k \<Longrightarrow> wp (bank2_erase_loop H k n s i) (\<lambda>ok d'. ok \<and> up d') d"
  by (induction i arbitrary: s d)
    (auto intro!: wp_mono [OF erase_sector_works] wp_mono [OF presD [OF up_sr2_wait]])

lemma prog_word_works:
  "up d \<Longrightarrow> 0 < k \<Longrightarrow> a mod 32 = 0 \<Longrightarrow> length bs = 32 \<Longrightarrow> wp (bank2_prog_attempts H a bs k) (\<lambda>ok d'. ok \<and> up d') d"
  by (cases k) (auto intro!: wp_mono [OF up_program])

lemma copy_works:
  assumes pre: "pres up pre"
  shows "up d \<Longrightarrow> off mod 32 = 0 \<Longrightarrow> src + off + remain \<le> NOR_SIZE \<Longrightarrow>
    wp (bank2_copy_loop H pre src off remain) (\<lambda>ok d'. ok \<and> up d') d"
proof (induction remain arbitrary: off d rule: less_induct)
  case (less n)
  show ?case
  proof (cases "n = 0")
    case True
    then show ?thesis using less.prems by (subst bank2_copy_loop.simps) simp
  next
    case False
    define k where "k = (if 32 \<le> n then 32 else n)"
    have k: "0 < k" "k \<le> n" "k \<le> 32" "k = 32 \<or> k = n" using False by (auto simp: k_def)
    have rest: "wp (bank2_copy_loop H pre src (off + k) (n - k)) (\<lambda>ok d'. ok \<and> up d') s" if "up s" for s
    proof (cases "k = n")
      case True
      then show ?thesis using that by (subst bank2_copy_loop.simps) simp
    next
      case False
      then have "k = 32" using k(4) by simp
      then show ?thesis using less.IH [of "n - k" s "off + k"] k less.prems that by (simp add: mod_add_eq [symmetric])
    qed
    have body: "wp (do { HAL_FLASH_CLEAR_FLAG H;
        ok \<leftarrow> bank2_prog_attempts H (APP_ADDR + off) (array_write (replicate 32 0xFF) 0 bs) 3;
        if \<not> ok then return False else bank2_copy_loop H pre src (off + k) (n - k) }) (\<lambda>ok d'. ok \<and> up d') s"
      if "up s" "length bs = k" for s bs
      unfolding wp_bind
      by (rule wp_mono [OF presD [OF up_quiet [OF quiet_fclear b_fclear] that(1)]], rule wp_mono [OF prog_word_works])
        (use that(2) k(3) less.prems(2) app_aligned rest in auto)
    have "src + off + k \<le> NOR_SIZE" using less.prems(3) k by linarith
    note rd = up_Read [OF _ this]
    show ?thesis
      unfolding bank2_copy_loop_step [OF False k_def] wp_bind [of pre] wp_bind [of "BSP_QSPI_Read _ _ _"]
      by (rule wp_mono [OF presD [OF pre less.prems(1)]], rule wp_mono [OF rd])
        (use body in \<open>auto simp del: wp_bind split: prod.splits\<close>)
  qed
qed

subsection \<open>No faults left: the update completes\<close>

lemma Metadata_Write_good:
  assumes "meta_wf m" "good d"
  shows "wp (Metadata_Write H m) (\<lambda>(r, m') d'. r = 0 \<and> good d') d"
  by (rule wp_mono [OF wp_conj [OF Metadata_Write_works [OF assms(1)] Metadata_Write_frame [OF assms(1)]]])
    (use assms(2) in \<open>auto simp: good_def\<close>)

lemma Unlock_up: "good d \<Longrightarrow> wp (HAL_FLASH_Unlock H) (\<lambda>_ d'. up d') d"
  using wp_conj [OF unlock_works works [OF b_unlock, of d]] flash_unlock [of d] idle_evolve [of False d]
  by (intro wpI) (auto simp: up_def good_def wp_def)

lemma Lock_good: "up d \<Longrightarrow> wp (HAL_FLASH_Lock H) (\<lambda>_ d'. good d') d"
  using works [OF b_lock, of d] flash_lock [of d] idle_evolve [of False d]
  by (intro wpI) (auto simp: up_def good_def wp_def)

lemma backup_works: "good d \<Longrightarrow> wp (ota_backup_loop H i n) (\<lambda>ok d'. ok \<and> good d') d"
proof (induction n arbitrary: i d)
  case (Suc n)
  have w: "wp (backup_attempts H tmp a 3) (\<lambda>ok s'. ok \<and> good s') s" if "good s" "length tmp = 64" for s tmp a
    unfolding numeral_3_eq_3 backup_attempts.simps
    using that by (auto intro!: wp_mono [OF Write_works])
  have i: "wp (BSP_QSPI_Init H) (\<lambda>_ s'. good s') s" if "good s" for s
    using Init_good [OF that] by (rule wp_mono) simp
  show ?case
    using Suc.prems by (auto intro!: wp_mono [OF i] wp_mono [OF w] Suc.IH)
qed simp

lemma program_app_works:
  assumes "good d" "ota_received g \<le> STAGING_SIZE"
  shows "wp (ota_program_app H lay ver g) (\<lambda>r d'. r = (0, g\<lparr>ota_state := OTA_STATE_DONE\<rparr>) \<and> good d') d"
  unfolding ota_program_app_def Metadata_Read_def
  using assms
  by (auto intro!: wp_mono [OF Unlock_up] wp_mono [OF erase_bank_works] wp_mono [OF copy_works] wp_mono [OF Lock_good]
    wp_mono [OF Metadata_Write_good] pres_return simp: area_defs NOR_SIZE_def meta_wf_Of split: prod.splits)

lemma Flash_Write_works:
  assumes "good d" "ota_received g \<le> STAGING_SIZE"
  shows "wp (OTA_Flash_Write H lay ver g) (\<lambda>r d'. r = Some (0, g\<lparr>ota_state := OTA_STATE_DONE\<rparr>) \<and> good d') d"
proof -
  have e: "wp (QSPI_Erase_Blocks H BACKUP_OFFSET APP_SIZE) (\<lambda>r d'. r = Some 0 \<and> good d') d"
    by (rule Erase_Blocks_works [OF assms(1)]) (simp_all add: area_defs NOR_SIZE_def)
  show ?thesis
    unfolding OTA_Flash_Write_def Metadata_Read_def
    by (auto intro!: wp_mono [OF e] wp_mono [OF backup_works] wp_mono [OF Metadata_Write_good]
      wp_mono [OF program_app_works [OF _ assms(2)]] simp: meta_wf_Of)
qed

text \<open>Without faults the re-initialisations of the backup succeed, so the backup is complete.\<close>

lemma spends_budget: "spends budget ok m \<Longrightarrow> pres (\<lambda>d. budget d \<le> k) m"
  unfolding pres_def by (blast intro: spends_le)

lemma Write_budget: "pres (\<lambda>d. budget d \<le> k) (BSP_QSPI_Write H p a n)"
  unfolding BSP_QSPI_Write_def
proof (induction n arbitrary: p a rule: less_induct)
  case (less n)
  show ?case
    by (subst qspi_write_loop.simps, unfold QSPI_WriteEnable_def QSPI_AutoPollingMemReady_def Let_def,
        intro pres_rules spends_budget [OF b_command] spends_budget [OF b_transmit] spends_budget [OF b_poll])
      (rule less, simp add: QSPI_PAGE_SIZE_def)
qed

lemma reinit_good: "reinit_ok (\<lambda>d. budget d = 0)"
  using Init_works presD [OF Write_budget [of 0]] by (auto simp: reinit_ok_def)

lemma Flash_Write_good:
  assumes "good d" "ota_received g \<le> APP_SIZE"
  shows "wp (OTA_Flash_Write H lay ver g) (\<lambda>r d'. r = Some (0, g\<lparr>ota_state := OTA_STATE_DONE\<rparr>) \<and> good d' \<and>
     update_outcome True g d (0, g\<lparr>ota_state := OTA_STATE_DONE\<rparr>) d') d"
proof -
  have n: "ota_received g \<le> STAGING_SIZE" "nv_op (nor d) = NOR_Idle" using assms by (simp_all add: area_defs good_def)
  have e: "wp (QSPI_Erase_Blocks H BACKUP_OFFSET APP_SIZE) (\<lambda>_ s. budget s = 0) d"
    by (rule wp_mono [OF Erase_Blocks_works [OF assms(1)]]) (simp_all add: area_defs NOR_SIZE_def good_def)
  show ?thesis
    by (rule wp_mono [OF wp_conj [OF Flash_Write_works [OF assms(1) n(1)] Flash_Write_ok [OF n(2) assms(2) e backup_ok [OF reinit_good]]]])
      auto
qed

lemma bank2_restore_works: "good d \<Longrightarrow> wp (bank2_restore H) (\<lambda>ok d'. ok \<and> good d') d"
  unfolding bank2_restore_def bank2_erase_all_loop [of 0 8, simplified]
  by (auto intro!: wp_mono [OF Unlock_up] wp_mono [OF erase_bank_works] wp_mono [OF copy_works [OF up_WaitIdle]]
    wp_mono [OF Lock_good] simp: area_defs NOR_SIZE_def)

text \<open>Before it touches the flash, a rollback leaves everything as it was.\<close>

definition still :: "'a \<Rightarrow> 'a \<Rightarrow> bool" where
  "still d s \<longleftrightarrow> good s \<and> nv_mem (nor s) = nv_mem (nor d) \<and> ld8 H s = ld8 H d"

lemma still_refl: "good d \<Longrightarrow> still d d"
  by (simp add: still_def)

lemma still_quiet:
  assumes q: "quiet H nor locked m" "spends budget (\<lambda>_. True) m"
  shows "pres (still d) m"
proof (rule presI)
  fix s r s' assume s: "still d s" and run: "run_state m s = (r, s')"
  have "good s'" using pres_run [OF good_quiet [OF q] _ run] s by (simp add: still_def)
  moreover have "idle_at (nv_mem (nor s)) s'"
    using pres_run [OF idle_quiet [OF q(1)] _ run] s by (simp add: still_def good_def idle_at_def)
  moreover have "ld8 H s' = ld8 H s" using q(1) run by (simp add: quiet_def same_flash_def)
  ultimately show "still d s'" using s by (simp add: still_def idle_at_def)
qed

lemma still_WaitIdle: "pres (still d) (QSPI_WaitIdle H)"
proof -
  have "pres (still d) (qspi_wait H k)" for k
    by (induction k) (auto intro!: pres_rules still_quiet [OF quiet_busy b_busy])
  then show ?thesis by (simp add: QSPI_WaitIdle_def)
qed

lemma still_Init: "good d \<Longrightarrow> wp (BSP_QSPI_Init H) (\<lambda>r s. r = QSPI_OK \<and> still d s) d"
  using wp_conj [OF Init_good [of d] presD [OF pres_Init [OF cell_rel_eq] within_refl [OF cell_rel_eq], of d]]
  by (auto simp: good_def still_def within_def same_flash_def elim!: wp_mono)

lemma still_Read:
  assumes "still d s" "a + n \<le> NOR_SIZE"
  shows "wp (BSP_QSPI_Read H a n) (\<lambda>(r, bs) s'. r = QSPI_OK \<and> still d s' \<and> bs = mem_slice (nv_mem (nor d)) a n) s"
proof -
  have s: "budget s = 0" "nv_op (nor s) = NOR_Idle" using assms(1) by (simp_all add: still_def good_def)
  show ?thesis
    by (rule wp_mono [OF wp_conj [OF Read_works [OF s(1)] wp_conj [OF Read_store [OF s(2) assms(2)]
        presD [OF pres_Read [OF cell_rel_eq] within_refl [OF cell_rel_eq s(2)]]]]])
      (use assms(1) in \<open>auto simp: still_def good_def within_def same_flash_def\<close>)
qed

lemma rollback_start: "good d \<Longrightarrow> wp (if \<not> qi then BSP_QSPI_Init H else return QSPI_OK) (\<lambda>r s. r = QSPI_OK \<and> still d s) d"
  using still_Init [of d] by (auto simp: still_refl)

lemma Rollback_works:
  assumes d: "good d" and h: "\<not> backup_header_empty (mem_slice (nv_mem (nor d)) BACKUP_OFFSET 4)"
  shows "wp (Boot_DoRollback H qi) (\<lambda>(r, qi') d'. r = 0 \<and> good d') d"
  unfolding Boot_DoRollback_def wp_bind [of "if \<not> qi then BSP_QSPI_Init H else return QSPI_OK"]
  by (rule wp_mono [OF rollback_start [OF d]])
    (use h in \<open>auto split: prod.splits intro!: wp_mono [OF presD [OF still_WaitIdle]] wp_mono [OF still_Read]
      wp_mono [OF bank2_restore_works] simp: area_defs NOR_SIZE_def still_def\<close>)

lemma Rollback_no_backup:
  assumes d: "good d" and h: "backup_header_empty (mem_slice (nv_mem (nor d)) BACKUP_OFFSET 4)"
  shows "wp (Boot_DoRollback H qi) (\<lambda>(r, qi') d'. r = -1 \<and> still d d') d"
  unfolding Boot_DoRollback_def wp_bind [of "if \<not> qi then BSP_QSPI_Init H else return QSPI_OK"]
  by (rule wp_mono [OF rollback_start [OF d]])
    (use h in \<open>auto split: prod.splits intro!: wp_mono [OF presD [OF still_WaitIdle]] wp_mono [OF still_Read]
      simp: area_defs NOR_SIZE_def\<close>)

lemma Poll_works:
  assumes v: "ota_state g = OTA_STATE_VERIFY" and n: "0 < ota_received g" "ota_received g \<le> OTA_BUF_SIZE"
    and d: "good d" and crc: "CRC32_Calculate (mem_slice (ota_buf g) 0 (ota_received g)) = ota_crc_expected g"
  shows "wp (OTA_Poll H g) (\<lambda>r d'. r = Some (g\<lparr>ota_state := OTA_STATE_CONFIRM\<rparr>) \<and>
     mem_slice (nv_mem (nor d')) OTA_STAGING_ADDR (ota_received g) = mem_slice (ota_buf g) 0 (ota_received g)) d"
proof -
  let ?n = "ota_received g"
  let ?buf = "mem_slice (ota_buf g) 0 ?n"
  have sz: "?n \<le> STAGING_SIZE" "?n \<le> NOR_SIZE" using n(2) by (simp_all add: OTA_BUF_SIZE_def STAGING_SIZE_def NOR_SIZE_def)
  have er: "wp (QSPI_Erase_Blocks H 0 STAGING_SIZE) (\<lambda>r s. r = Some 0 \<and> good s \<and> mem_slice (nv_mem (nor s)) 0 ?n = replicate ?n 0xFF) d"
  proof (rule wp_mono [OF wp_conj [OF Erase_Blocks_works [OF d] Erase_Blocks_ok]])
    fix r s assume *: "(r = Some 0 \<and> good s) \<and> r \<noteq> None \<and> within (erase_rel 0 STAGING_SIZE) d s \<and> (r = Some 0 \<longrightarrow>
      nv_op (nor s) = NOR_Idle \<and> mem_slice (nv_mem (nor s)) 0 STAGING_SIZE = replicate STAGING_SIZE 0xFF)"
    then have ff: "mem_slice (nv_mem (nor s)) 0 STAGING_SIZE = replicate STAGING_SIZE 0xFF" by blast
    have "mem_slice (nv_mem (nor s)) 0 ?n = replicate ?n 0xFF"
      using arg_cong [OF ff, of "take ?n"] sz(1) mem_slice_add [of "nv_mem (nor s)" 0 ?n "STAGING_SIZE - ?n"] by simp
    with * show "r = Some 0 \<and> good s \<and> mem_slice (nv_mem (nor s)) 0 ?n = replicate ?n 0xFF" by blast
  qed (use d in \<open>auto simp: good_def STAGING_SIZE_def NOR_SIZE_def\<close>)
  have wr: "wp (ota_stage_write H ?buf) (\<lambda>ok s'. ok \<and> good s' \<and> mem_slice (nv_mem (nor s')) 0 ?n = ?buf) s"
    if s: "good s" "mem_slice (nv_mem (nor s)) 0 ?n = replicate ?n 0xFF" for s
  proof -
    have "wp (BSP_QSPI_Write H ?buf 0 ?n) (\<lambda>r s'. r = QSPI_OK \<and> good s' \<and> nv_mem (nor s') = prog_mem 0 ?buf (nv_mem (nor s))) s"
      using wp_conj [OF Write_works [OF s(1), of ?n ?buf 0] store.write_ok [of s 0 ?n ?buf]] s(1) sz
      by (auto simp: good_def elim!: wp_mono)
    then show ?thesis
      unfolding ota_stage_write_def OTA_STAGING_ADDR_def
      using prog_mem_erased [of "nv_mem (nor s)" 0 ?buf] s(2) by (auto elim!: wp_mono)
  qed
  have rb: "wp (ota_readback H ?n off c) (\<lambda>r s'. r \<noteq> None) s" if "budget s = 0" for off c s
    using that
  proof (induction "?n - off" arbitrary: off c s rule: less_induct)
    case less
    show ?case
      by (subst ota_readback.simps) (auto simp: Let_def simp del: not_None_eq split: prod.splits
        intro!: wp_mono [OF Read_works [OF less.prems]] less.hyps)
  qed
  have rbk: "wp (ota_readback H ?n 0 0xFFFFFFFF) (\<lambda>r s'. r = Some (ota_crc_expected g) \<and>
      mem_slice (nv_mem (nor s')) 0 ?n = ?buf) s" if s: "good s" "mem_slice (nv_mem (nor s)) 0 ?n = ?buf" for s
    by (rule wp_mono [OF wp_conj [OF rb readback_ok [where m = "nv_mem (nor s)"]]])
      (use s sz crc in \<open>auto simp: good_def idle_at_def CRC32_Calculate_bytes\<close>)
  show ?thesis
    unfolding OTA_Poll_def Let_def using v crc
    by (auto simp: OTA_STAGING_ADDR_def intro!: wp_mono [OF er] wp_mono [OF Init_good] wp_mono [OF wr] wp_mono [OF rbk])
qed

lemma Boot_Step_refines:
  assumes d: "good d"
  shows "wp (Boot_Metadata_Step H lay qi) (\<lambda>(r, qi') d'. good d' \<and>
     (r, boot_state_of (Metadata_Of (ld8 H d'))) =
       boot_spec (boot_state_of (Metadata_Of (ld8 H d))) (iwdg_flag d)
         (\<not> backup_header_empty (mem_slice (nv_mem (nor d)) BACKUP_OFFSET 4))) d"
proof -
  let ?m = "Metadata_Of (ld8 H d)" and ?b = "\<not> backup_header_empty (mem_slice (nv_mem (nor d)) BACKUP_OFFSET 4)"
  let ?Q = "\<lambda>(r, qi') d'. good d' \<and> (r, boot_state_of (Metadata_Of (ld8 H d'))) = boot_spec (boot_state_of ?m) (iwdg_flag d) ?b"
  have mw: "wp (Metadata_Write H m) (\<lambda>_ s'. good s' \<and> Metadata_Of (ld8 H s') = m\<lparr>magic := METADATA_MAGIC\<rparr>) s" if "meta_wf m" "good s" for m s
    by (rule wp_mono [OF wp_conj [OF Metadata_Write_good [OF that] Metadata_Write_ok [OF that(1)]]]) auto
  have rr: "wp (Reset_Reason_Is_IWDG H) (\<lambda>r s. r = iwdg_flag d \<and> still d s) d"
  proof -
    have "pres (still d) (Reset_Reason_Is_IWDG H)"
      unfolding Reset_Reason_Is_IWDG_def
      by (intro pres_rules still_quiet quiet_rd_reg quiet_wr_reg b_rd_reg b_wr_reg)
    from wp_conj [OF Reset_Reason_ok presD [OF this still_refl [OF d]]] show ?thesis by (rule wp_mono) simp
  qed
  have roll: "wp (Boot_DoRollback H qi) (\<lambda>(r, qi') s'. if ?b then r = 0 \<and> good s' else r = -1 \<and> good s' \<and> ld8 H s' = ld8 H d) s"
    if s: "still d s" for s
  proof -
    have "good s" "nv_mem (nor s) = nv_mem (nor d)" using s by (simp_all add: still_def)
    then have g: "good s" and b: "?b = (\<not> backup_header_empty (mem_slice (nv_mem (nor s)) BACKUP_OFFSET 4))" by simp_all
    show ?thesis
    proof (cases ?b)
      case True
      show ?thesis by (rule wp_mono [OF Rollback_works [OF g]]) (use True b in auto)
    next
      case False
      show ?thesis by (rule wp_mono [OF Rollback_no_backup [OF g]]) (use False b s in \<open>auto simp: still_def\<close>)
    qed
  qed
  have t: "wp (do { (rb, qi) \<leftarrow> Boot_DoRollback H qi;
      if rb = 0 then do { Metadata_Write H (meta_restored lay ?m); return (2, qi) } else return (0, qi) }) ?Q s"
    if "still d s" "state ?m = STATE_TESTING" "iwdg_flag d" for s
    unfolding wp_bind [of "Boot_DoRollback _ _"]
    by (rule wp_mono [OF roll [OF that(1)]])
      (use that in \<open>auto simp: boot_state_of_def meta_wf_Of split: prod.splits if_splits intro!: wp_mono [OF mw]\<close>)
  have p: "wp (do { Metadata_Write H (?m\<lparr>state := STATE_TESTING\<rparr>); return (1, qi) }) ?Q d" if "state ?m = STATE_PENDING_UPDATE"
    using that d by (auto simp: boot_state_of_def meta_wf_Of intro!: wp_mono [OF mw])
  have u: "wp (do { iwdg \<leftarrow> Reset_Reason_Is_IWDG H;
       if iwdg then do { (rb, qi) \<leftarrow> Boot_DoRollback H qi;
         if rb = 0 then do { Metadata_Write H (meta_restored lay ?m); return (2, qi) } else return (0, qi) }
       else return (1, qi) }) ?Q d" if "state ?m = STATE_TESTING"
    unfolding wp_bind [of "Reset_Reason_Is_IWDG H"]
    by (rule wp_mono [OF rr]) (use that t in \<open>auto simp: boot_state_of_def still_def simp del: wp_bind\<close>)
  show ?thesis
    unfolding Boot_Metadata_Step_def Metadata_Read_def
    using p u d by (auto simp: boot_state_of_def simp del: wp_bind simp: wp_bind [of "State_Monad.bind _ _"] wp_bind [of State_Monad.get])
qed

end

end
