(* ===== verification/Sim_Device.thy ===== *)
theory Sim_Device
  imports Liveness
begin

text \<open>
  An executable device on which the contracts of the hardware are interpreted and the witnesses
  run: a NOR chip with write-enable latch and busy operations, the internal flash with its lock,
  and registers. A schedule of faults (one entry per data transfer, addressed command or flash
  operation; the empty schedule is fault free) makes calls fail, and a transfer that fails half way
  leaves the chip programming the first half of the data.
\<close>

record sim =
  sim_mem :: "nat \<Rightarrow> u8"
  sim_wel :: bool
  sim_op :: nor_op
  sim_cmd :: "QSPI_CommandTypeDef option"
  sim_flash :: "nat \<Rightarrow> u8"
  sim_locked :: bool
  sim_faults :: "bool list"
  sim_regs :: "RegAddr \<Rightarrow> u32"

definition sim_nor :: "sim \<Rightarrow> nor_view" where
  "sim_nor d = \<lparr>nv_mem = sim_mem d, nv_wel = sim_wel d, nv_op = sim_op d, nv_cmd = sim_cmd d\<rparr>"

definition sim_pop :: "sim \<Rightarrow> bool \<times> sim" where
  "sim_pop d = (case sim_faults d of [] \<Rightarrow> (False, d) | f # fs \<Rightarrow> (f, d\<lparr>sim_faults := fs\<rparr>))"

text \<open>The chip carries on to the end of what it is doing.\<close>

definition sim_wait :: "sim \<Rightarrow> sim" where
  "sim_wait d = (if sim_op d = NOR_Idle then d
     else d\<lparr>sim_mem := nor_finish (sim_op d) (sim_mem d), sim_op := NOR_Idle, sim_wel := False\<rparr>)"

definition sim_accept :: "QSPI_CommandTypeDef \<Rightarrow> sim \<Rightarrow> sim" where
  "sim_accept c d =
     (let d = (if DataMode c \<noteq> QSPI_LINES_NONE then d\<lparr>sim_cmd := Some c\<rparr> else d)
      in if Instruction c = 0x99 then d\<lparr>sim_op := NOR_Idle\<rparr>
         else if sim_op d \<noteq> NOR_Idle then d
         else if Instruction c = 0x06 \<and> DataMode c = QSPI_LINES_NONE then d\<lparr>sim_wel := True\<rparr>
         else if sim_wel d then d\<lparr>sim_op := nor_cmd_op c\<rparr>
         else d)"

definition sim_command :: "QSPI_CommandTypeDef \<Rightarrow> sim \<Rightarrow> HAL_StatusTypeDef \<times> sim" where
  "sim_command c d =
     (if AddressMode c = QSPI_LINES_NONE then (HAL_OK, sim_accept c d)
      else case sim_pop d of (f, d) \<Rightarrow> if f then (HAL_ERROR, d) else (HAL_OK, sim_accept c d))"

fun nor_half :: "nor_op \<Rightarrow> nor_op" where
  "nor_half (NOR_Program a bs) = NOR_Program a (take (length bs div 2) bs)"
| "nor_half op = NOR_Idle"

definition sim_transmit :: "u8 list \<Rightarrow> sim \<Rightarrow> HAL_StatusTypeDef \<times> sim" where
  "sim_transmit bs d =
     (case sim_pop d of (f, d) \<Rightarrow>
        let op = nor_data_op (sim_cmd d) bs;
            ready = (sim_op d = NOR_Idle \<and> sim_wel d)
        in if f then (HAL_ERROR, if ready then d\<lparr>sim_op := nor_half op\<rparr> else d)
           else (HAL_OK, if ready then d\<lparr>sim_op := op\<rparr> else d))"

definition sim_receive :: "sim \<Rightarrow> (HAL_StatusTypeDef \<times> u8 list) \<times> sim" where
  "sim_receive d =
     (case sim_pop d of (f, d) \<Rightarrow>
        if f then ((HAL_ERROR, []), d)
        else case sim_cmd d of None \<Rightarrow> ((HAL_OK, []), d)
          | Some c \<Rightarrow> ((HAL_OK, if Instruction c = 0x9F then [0xEF, 0x40, 0x19]
                                else mem_slice (sim_mem d) (Address c) (NbData c)), d))"

definition sim_poll :: "QSPI_AutoPollingTypeDef \<Rightarrow> sim \<Rightarrow> HAL_StatusTypeDef \<times> sim" where
  "sim_poll cfg d =
     (if nor_sr (sim_nor d) AND Mask cfg = Match cfg then (HAL_OK, d)
      else let d = sim_wait d
           in (if nor_sr (sim_nor d) AND Mask cfg = Match cfg then HAL_OK else HAL_TIMEOUT, d))"

definition sim_ferase :: "FLASH_EraseInitTypeDef \<Rightarrow> sim \<Rightarrow> (HAL_StatusTypeDef \<times> u32) \<times> sim" where
  "sim_ferase e d =
     (case sim_pop d of (f, d) \<Rightarrow>
        if f \<or> sim_locked d then ((HAL_ERROR, of_nat (Sector e)), d)
        else ((HAL_OK, 0xFFFFFFFF), d\<lparr>sim_flash := (\<lambda>x. if in_sectors e x then 0xFF else sim_flash d x)\<rparr>))"

definition sim_fprogram :: "nat \<Rightarrow> u8 list \<Rightarrow> sim \<Rightarrow> HAL_StatusTypeDef \<times> sim" where
  "sim_fprogram a bs d =
     (case sim_pop d of (f, d) \<Rightarrow>
        if f \<or> sim_locked d then (HAL_ERROR, d)
        else (HAL_OK, d\<lparr>sim_flash := prog_mem a bs (sim_flash d)\<rparr>))"

definition sim_hal :: "sim hal" where
  "sim_hal = \<lparr>
     HAL_QSPI_DeInit = return HAL_OK,
     HAL_QSPI_Init = (\<lambda>_. return HAL_OK),
     HAL_QSPI_Command = (\<lambda>c. State (sim_command c)),
     HAL_QSPI_Transmit = (\<lambda>bs. State (sim_transmit bs)),
     HAL_QSPI_Receive = State sim_receive,
     HAL_QSPI_AutoPolling = (\<lambda>c cfg. State (sim_poll cfg)),
     HAL_QSPI_MemoryMapped = (\<lambda>c m. return HAL_OK),
     HAL_QSPI_Abort = return HAL_OK,
     HAL_QSPI_CLEAR_FLAG = return (),
     HAL_QSPI_FLAG_BUSY = return False,
     HAL_GPIO_Init = (\<lambda>p g. return ()),
     HAL_RCC_CLK_ENABLE = (\<lambda>n. return ()),
     HAL_Delay = (\<lambda>n. return ()),
     HAL_FLASH_Unlock = State (\<lambda>d. (HAL_OK, d\<lparr>sim_locked := False\<rparr>)),
     HAL_FLASH_Lock = State (\<lambda>d. (HAL_OK, d\<lparr>sim_locked := True\<rparr>)),
     HAL_FLASHEx_Erase = (\<lambda>e. State (sim_ferase e)),
     HAL_FLASH_Program = (\<lambda>a bs. State (sim_fprogram a bs)),
     HAL_FLASH_CLEAR_FLAG = return (),
     FLASH_SR2_busy = return False,
     SCB_InvalidateDCache = return (),
     rd_reg = (\<lambda>r. State (\<lambda>d. (sim_regs d r, d))),
     wr_reg = (\<lambda>r w. State (\<lambda>d. ((), d\<lparr>sim_regs := (sim_regs d)(r := w)\<rparr>))),
     hw_op = (\<lambda>n. return ()),
     ld8 = sim_flash\<rparr>"

section \<open>The device satisfies the contract\<close>

lemma touch_refl [simp]: "nor_touch op x a a"
  by (cases op) (auto split: option.splits)

lemma touch_finish: "nor_touch op x (m x) (nor_finish op m x)"
  by (cases op) (auto split: option.splits)

lemma part_refl [simp]: "nor_part op op"
  by (cases op) auto

lemma part_half [simp]: "nor_part (nor_half op) op"
  by (cases op) auto

lemma evolve_refl [simp]: "nor_evolve rst op v v"
  by (auto simp: nor_evolve_def intro: touch_refl)

lemma evolve_start:
  "nv_mem v' = nv_mem v \<Longrightarrow> nv_op v = NOR_Idle \<Longrightarrow> nor_part (nv_op v') op \<Longrightarrow> nor_evolve rst op v v'"
  by (auto simp: nor_evolve_def intro: touch_refl)

lemma evolve_same:
  "nv_mem v' = nv_mem v \<Longrightarrow> nv_op v' = nv_op v \<Longrightarrow> nor_evolve rst op v v'"
  by (auto simp: nor_evolve_def intro: touch_refl)

lemma evolve_reset: "nv_mem v' = nv_mem v \<Longrightarrow> nv_op v' = NOR_Idle \<Longrightarrow> nor_evolve True op v v'"
  by (auto simp: nor_evolve_def intro: touch_refl)

lemma evolve_wait: "nor_evolve False NOR_Idle (sim_nor d) (sim_nor (sim_wait d))"
  by (auto simp: nor_evolve_def sim_nor_def sim_wait_def intro: touch_finish)

lemma sim_pop_eq: "sim_pop d = (hd (sim_faults d @ [False]), d\<lparr>sim_faults := tl (sim_faults d)\<rparr>)"
  by (cases "sim_faults d") (simp_all add: sim_pop_def)

lemma sim_quiet_return [simp]: "quiet sim_hal sim_nor sim_locked (return x)"
  by (auto simp: quiet_def same_flash_def)

lemma sim_accept_fields:
  "sim_op d = NOR_Idle \<Longrightarrow> sim_wel d \<Longrightarrow> sim_op (sim_accept c d) = nor_cmd_op c"
  "DataMode c \<noteq> QSPI_LINES_NONE \<Longrightarrow> sim_cmd (sim_accept c d) = Some c \<and> sim_wel (sim_accept c d) = sim_wel d"
  by (simp_all add: sim_accept_def Let_def nor_cmd_op_def)

lemma sim_command_law:
  assumes "sim_command c d = (r, d')"
  shows "nor_evolve (Instruction c = 0x99) (nor_cmd_op c) (sim_nor d) (sim_nor d') \<and>
    same_flash sim_hal sim_locked d d'"
proof -
  have acc: "nor_evolve (Instruction c = 0x99) (nor_cmd_op c) (sim_nor d) (sim_nor (sim_accept c e)) \<and>
      same_flash sim_hal sim_locked d (sim_accept c e)"
    if "e = d\<lparr>sim_faults := fs\<rparr>" for e fs
    using that by (auto simp: sim_accept_def Let_def sim_nor_def same_flash_def sim_hal_def
      intro: evolve_start evolve_same evolve_reset)
  have d: "d = d\<lparr>sim_faults := sim_faults d\<rparr>" by simp
  show ?thesis
    using assms acc [OF d] acc [OF refl]
    by (auto simp: sim_command_def sim_pop_eq sim_nor_def same_flash_def sim_hal_def split: if_splits intro: evolve_same)
qed

lemma sim_transmit_law:
  assumes "sim_transmit bs d = (r, d')"
  shows "nor_evolve False (nor_data_op (sim_cmd d) bs) (sim_nor d) (sim_nor d') \<and>
    same_flash sim_hal sim_locked d d'"
  using assms
  by (auto simp: sim_transmit_def sim_pop_eq Let_def sim_nor_def same_flash_def sim_hal_def split: if_splits
      intro: evolve_same evolve_start)

lemma same_flash_wait: "same_flash sim_hal sim_locked d (sim_wait d)"
  by (simp add: same_flash_def sim_wait_def sim_hal_def)

lemma sim_poll_law:
  "sim_poll cfg d = (r, d') \<Longrightarrow> nor_evolve False NOR_Idle (sim_nor d) (sim_nor d') \<and>
    same_flash sim_hal sim_locked d d'"
  using evolve_wait [of d] same_flash_wait [of d]
  by (auto simp: sim_poll_def Let_def split: if_splits) (simp_all add: same_flash_def)

interpretation sim: hal_laws sim_hal sim_nor sim_locked
proof (unfold_locales, goal_cases)
  case (3) show ?case
    by (auto simp: quiet_def sim_hal_def sim_receive_def sim_pop_eq same_flash_def sim_nor_def
      split: if_splits option.splits intro: evolve_same)
next
  case (4 c cfg) show ?case using sim_poll_law by (auto simp: quiet_def sim_hal_def)
next
  case (18 c d r d') then show ?case using sim_command_law [of c d r d'] by (simp add: sim_hal_def)
next
  case (19 c d d') then show ?case
    by (auto simp: sim_hal_def sim_command_def sim_pop_eq sim_nor_def sim_accept_fields split: if_splits)
next
  case (20 c d d') then show ?case
    by (auto simp: sim_hal_def sim_command_def sim_pop_eq sim_nor_def sim_accept_fields split: if_splits)
next
  case (21 bs d r d') then show ?case
    using sim_transmit_law [of bs d r d'] by (simp add: sim_hal_def sim_nor_def)
next
  case (22 bs d d') then show ?case
    by (auto simp: sim_hal_def sim_transmit_def Let_def sim_pop_eq sim_nor_def split: if_splits)
next
  case (23 d bs d' c) then show ?case
    by (auto simp: sim_hal_def sim_receive_def sim_pop_eq sim_nor_def split: if_splits)
next
  case (24 c cfg d d') then show ?case
    by (auto simp: sim_hal_def sim_poll_def Let_def split: if_splits)
next
  case (27 e d r se d') then show ?case
    by (auto simp: sim_hal_def sim_ferase_def sim_pop_eq sim_nor_def split: if_splits intro: evolve_same)
next
  case (28 a bs d r d') then show ?case
    by (auto simp: sim_hal_def sim_fprogram_def sim_pop_eq sim_nor_def prog_mem_def split: if_splits intro: evolve_same)
qed (auto simp: sim_hal_def quiet_def same_flash_def sim_nor_def intro: evolve_same)

section \<open>Faults of the device\<close>

definition sim_budget :: "sim \<Rightarrow> nat" where
  "sim_budget d = length (filter id (sim_faults d))"

lemma sim_budget_wait [simp]: "sim_budget (sim_wait d) = sim_budget d"
  by (simp add: sim_budget_def sim_wait_def)

lemma sim_budget_accept [simp]: "sim_budget (sim_accept c d) = sim_budget d"
  by (simp add: sim_budget_def sim_accept_def Let_def)

lemma sim_pop_budget:
  "sim_pop d = (f, d') \<Longrightarrow> sim_budget d' \<le> sim_budget d \<and> (f \<longrightarrow> sim_budget d' < sim_budget d)"
  by (cases "sim_faults d") (auto simp: sim_pop_def sim_budget_def)

lemma sim_pop_locked: "sim_pop d = (f, d') \<Longrightarrow> sim_locked d' = sim_locked d"
  by (auto simp: sim_pop_eq)

lemma sim_spends_return [simp]: "spends sim_budget (\<lambda>_. True) (return x)" "spends sim_budget (\<lambda>r. r = HAL_OK) (return HAL_OK)"
  by (simp_all add: spends_def)

lemma sim_poll_budget: "sim_poll cfg d = (r, d') \<Longrightarrow> sim_budget d' = sim_budget d"
  by (auto simp: sim_poll_def Let_def split: if_splits)

lemma sim_budget_update [simp]:
  "sim_budget (d\<lparr>sim_op := x\<rparr>) = sim_budget d" "sim_budget (d\<lparr>sim_flash := y\<rparr>) = sim_budget d"
  "sim_budget (d\<lparr>sim_locked := l\<rparr>) = sim_budget d" "sim_budget (d\<lparr>sim_regs := z\<rparr>) = sim_budget d"
  by (simp_all add: sim_budget_def)

interpretation sim: hal_budget sim_hal sim_nor sim_locked sim_budget
proof (unfold_locales, goal_cases)
  case (3 c) show ?case
    using sim_pop_budget by (auto simp: spends_def sim_hal_def sim_command_def split: prod.splits if_splits)
next
  case (4 bs) show ?case
    using sim_pop_budget by (auto simp: spends_def sim_hal_def sim_transmit_def Let_def split: prod.splits if_splits)
next
  case 5 show ?case
    using sim_pop_budget by (auto simp: spends_def sim_hal_def sim_receive_def split: prod.splits if_splits option.splits)
next
  case (6 c cfg) show ?case
    using sim_poll_budget by (auto simp: spends_def sim_hal_def split: prod.splits)
next
  case (21 e d) show ?case
    using sim_pop_budget by (auto simp: sim_hal_def sim_ferase_def sim_pop_locked split: prod.splits if_splits)
next
  case (22 a bs d) show ?case
    using sim_pop_budget by (auto simp: sim_hal_def sim_fprogram_def sim_pop_locked split: prod.splits if_splits)
next
  case (23 c d d') then show ?case
    by (auto simp: sim_hal_def sim_command_def sim_pop_eq sim_accept_def Let_def sim_nor_def split: if_splits)
next
  case (24 cfg c) then show ?case
    by (auto simp: spends_def sim_hal_def sim_poll_def Let_def sim_wait_def nor_sr_def sim_budget_def sim_nor_def split: prod.splits if_splits)
next
  case (25 d cfg c) then show ?case
    by (auto simp: sim_hal_def sim_poll_def Let_def sim_wait_def nor_sr_def sim_nor_def split: prod.splits if_splits)
qed (auto simp: sim_hal_def spends_def)

section \<open>A device as it leaves the factory\<close>

definition sim0 :: "bool list \<Rightarrow> sim" where
  "sim0 faults = \<lparr>sim_mem = (\<lambda>_. 0xFF), sim_wel = False, sim_op = NOR_Idle, sim_cmd = None,
     sim_flash = (\<lambda>_. 0xFF), sim_locked = True, sim_faults = faults, sim_regs = (\<lambda>_. 0)\<rparr>"

lemma sim0_simps [simp]:
  "nv_op (sim_nor (sim0 fs)) = NOR_Idle" "nv_mem (sim_nor (sim0 fs)) = (\<lambda>_. 0xFF)" "sim_locked (sim0 fs)"
  "ld8 sim_hal (sim0 fs) = (\<lambda>_. 0xFF)"
  by (simp_all add: sim0_def sim_nor_def sim_hal_def)

text \<open>The commands of the initialisation carry no address: they do not fail, so it always succeeds.\<close>

lemma sim_wait_idle: "nor_sr (sim_nor (sim_wait d)) AND W25Q_SR1_WIP = 0"
  by (auto simp: sim_wait_def nor_sr_def sim_nor_def W25Q_SR1_WIP_def)

lemma sim_poll_ready: "fst (sim_poll (poll_config 0 W25Q_SR1_WIP) d) = HAL_OK"
  by (simp add: sim_poll_def poll_config_def Let_def sim_wait_idle)

lemma sim_Init: "fst (run_state (BSP_QSPI_Init sim_hal) d) = QSPI_OK"
proof -
  have p: "\<exists>d'. sim_poll (poll_config 0 W25Q_SR1_WIP) x = (HAL_OK, d')" for x
    using sim_poll_ready [of x] by (metis prod.collapse)
  have c: "sim_command (cmd_no_address i l n) x = (HAL_OK, sim_accept (cmd_no_address i l n) x)" for i l n x
    by (simp add: sim_command_def cmd_no_address_def)
  show ?thesis
    using p by (auto simp: BSP_QSPI_Init_def qspi_gpio_init_def QSPI_AutoPollingMemReady_def
      QSPI_EnterFourBytesAddress_def sim_hal_def c Let_def split: prod.splits)
      (metis fst_conv)+
qed

end
