(* ===== verification/Flash_Properties.thy ===== *)
theory Flash_Properties
  imports Sim_Device
begin

text \<open>
  The properties of the storage components: the CRC, the NOR flash driver and the metadata record,
  each stated over the definitions of the model and over an arbitrary device that satisfies the
  data sheets. The witnesses run on the simulated device.
\<close>

lemma meta_wf_Default: "meta_wf Metadata_Default"
  by (simp add: Metadata_Default_def words_meta_def meta_wf_def)

lemma sim0_good: "sim.good (sim0 [])"
  by (simp add: sim.good_def sim_budget_def) (simp add: sim0_def)

section \<open>What the drivers do, without reference to the locales\<close>

context hal_laws
begin

lemma within_cells:
  "within R d d' \<Longrightarrow> R x (nv_mem (nor d) x) (nv_mem (nor d') x) \<and> ld8 H d' = ld8 H d \<and> locked d' = locked d"
  using store.keep_cell store.keep_others by fastforce

lemma Write_full:
  assumes "nv_op (nor d) = NOR_Idle" "a + n \<le> NOR_SIZE" "n \<le> length p"
  shows "wp (BSP_QSPI_Write H p a n) (\<lambda>r d'. (\<forall>x. prog_rel a (take n p) x (nv_mem (nor d) x) (nv_mem (nor d') x)) \<and>
     ld8 H d' = ld8 H d \<and> locked d' = locked d \<and>
     (r = QSPI_OK \<longrightarrow> nv_op (nor d') = NOR_Idle \<and> nv_mem (nor d') = prog_mem a (take n p) (nv_mem (nor d)))) d"
  by (rule wp_mono [OF store.write_again [OF within_refl [OF cell_rel_prog assms(1)] assms]])
    (use within_cells in blast)

lemma Erase_full:
  assumes "a mod 65536 = 0" "n mod 65536 = 0" "a + n \<le> NOR_SIZE" "nv_op (nor d) = NOR_Idle"
  shows "wp (QSPI_Erase_Blocks H a n) (\<lambda>r d'. r \<noteq> None \<and>
     (\<forall>x. x < a \<or> a + n \<le> x \<longrightarrow> nv_mem (nor d') x = nv_mem (nor d) x) \<and> ld8 H d' = ld8 H d \<and>
     (r = Some 0 \<longrightarrow> nv_op (nor d') = NOR_Idle \<and> mem_slice (nv_mem (nor d')) a n = replicate n 0xFF)) d"
proof (rule wp_mono [OF wp_conj [OF store.erase_keep [OF assms] store.erase_ok [OF assms]]])
  fix r d' assume *: "within (erase_rel a n) d d' \<and> r \<noteq> None \<and>
     (r = Some 0 \<longrightarrow> nv_op (nor d') = NOR_Idle \<and> mem_slice (nv_mem (nor d')) a n = replicate n 0xFF)"
  have "erase_rel a n x (nv_mem (nor d) x) (nv_mem (nor d') x)" for x using * within_cells by blast
  moreover have "ld8 H d' = ld8 H d" using * within_cells by blast
  ultimately show "r \<noteq> None \<and>
     (\<forall>x. x < a \<or> a + n \<le> x \<longrightarrow> nv_mem (nor d') x = nv_mem (nor d) x) \<and> ld8 H d' = ld8 H d \<and>
     (r = Some 0 \<longrightarrow> nv_op (nor d') = NOR_Idle \<and> mem_slice (nv_mem (nor d')) a n = replicate n 0xFF)"
    using * unfolding erase_rel_def by (metis linorder_not_less)
qed

text \<open>Erase, write, read.\<close>

lemma Erase_write_read:
  assumes "a mod 65536 = 0" "n mod 65536 = 0" "a + n \<le> NOR_SIZE" "nv_op (nor d) = NOR_Idle" "length bs \<le> n"
  shows "wp (do {
       e \<leftarrow> QSPI_Erase_Blocks H a n;
       w \<leftarrow> BSP_QSPI_Write H bs a (length bs);
       (r, out) \<leftarrow> BSP_QSPI_Read H a (length bs);
       return (e, w, r, out)
     }) (\<lambda>(e, w, r, out) d'. e = Some 0 \<and> w = QSPI_OK \<and> r = QSPI_OK \<longrightarrow> out = bs) d"
proof -
  have rd: "wp (BSP_QSPI_Read H a (length bs)) (\<lambda>(r, out) _. e = Some 0 \<and> w = QSPI_OK \<and> r = QSPI_OK \<longrightarrow> out = bs) s"
    if "e = Some 0 \<and> w = QSPI_OK \<longrightarrow> nv_op (nor s) = NOR_Idle \<and> mem_slice (nv_mem (nor s)) a (length bs) = bs" for s e w
  proof (cases "e = Some 0 \<and> w = QSPI_OK")
    case True
    with that have "nv_op (nor s) = NOR_Idle" "mem_slice (nv_mem (nor s)) a (length bs) = bs" by auto
    with store.read_ok [of s a "length bs"] assms(3,5) show ?thesis
      by (auto elim!: wp_mono)
  qed (auto intro!: wpI)
  have wr: "wp (BSP_QSPI_Write H bs a (length bs)) (\<lambda>w s'. e = Some 0 \<and> w = QSPI_OK \<longrightarrow>
      nv_op (nor s') = NOR_Idle \<and> mem_slice (nv_mem (nor s')) a (length bs) = bs) s"
    if "e = Some 0 \<longrightarrow> nv_op (nor s) = NOR_Idle \<and> mem_slice (nv_mem (nor s)) a n = replicate n 0xFF" for s e
  proof (cases "e = Some 0")
    case True
    have "mem_slice (nv_mem (nor s)) a (length bs) = replicate (length bs) 0xFF"
      using that True assms(5) mem_slice_add [of "nv_mem (nor s)" a "length bs" "n - length bs"]
      by (metis append_eq_append_conv le_add_diff_inverse length_mem_slice length_replicate replicate_add)
    from prog_mem_erased [OF this] store.write_ok [of s a "length bs" bs] that True assms(3,5) show ?thesis
      by (auto elim!: wp_mono)
  qed (auto intro!: wpI)
  have rdr: "wp (do { (r, out) \<leftarrow> BSP_QSPI_Read H a (length bs); return (e, w, r, out) })
      (\<lambda>(e, w, r, out) d'. e = Some 0 \<and> w = QSPI_OK \<and> r = QSPI_OK \<longrightarrow> out = bs) s"
    if "e = Some 0 \<and> w = QSPI_OK \<longrightarrow> nv_op (nor s) = NOR_Idle \<and> mem_slice (nv_mem (nor s)) a (length bs) = bs"
    for s and e :: "int option" and w :: u8
    unfolding wp_bind by (rule wp_mono [OF rd [OF that]]) (simp split: prod.splits)
  show ?thesis
    by (subst wp_bind, rule wp_mono [OF Erase_full [OF assms(1-4)]], subst wp_bind, rule wp_mono [OF wr rdr])
      auto
qed

text \<open>Writing the metadata and reading them back.\<close>

lemma Metadata_full:
  assumes "meta_wf m"
  shows "wp (Metadata_Write H m) (\<lambda>(r, m') d'. m' = m\<lparr>magic := METADATA_MAGIC\<rparr> \<and> r \<in> {0, -1} \<and> locked d' \<and>
     (\<forall>x. x < 0x08020000 \<or> 0x08040000 \<le> x \<longrightarrow> ld8 H d' x = ld8 H d x) \<and>
     (nv_op (nor d) = NOR_Idle \<longrightarrow> nv_mem (nor d') = nv_mem (nor d)) \<and>
     (r = 0 \<longrightarrow> run_state (Metadata_Read H) d' = (m', d'))) d"
proof (rule wp_mono [OF Metadata_Write_ok [OF assms]], clarify)
  fix r m' d' assume *: "meta_keep d d'" "locked d'" "r \<in> {0, -1}" "r = 0 \<longrightarrow> Metadata_Of (ld8 H d') = m\<lparr>magic := METADATA_MAGIC\<rparr>"
  have "ld8 H d' x = ld8 H d x" if "x < 0x08020000 \<or> 0x08040000 \<le> x" for x
  proof -
    have "\<not> in_meta_sector x" using that unfolding in_meta_sector by linarith
    then show ?thesis using *(1) unfolding flash_within_def in_sectors_rel by metis
  qed
  moreover have "nv_op (nor d) = NOR_Idle \<longrightarrow> nv_mem (nor d') = nv_mem (nor d)"
    using *(1) by (simp add: flash_within_def nor_kept_def idle_at_def)
  ultimately show "m\<lparr>magic := METADATA_MAGIC\<rparr> = m\<lparr>magic := METADATA_MAGIC\<rparr> \<and> r \<in> {0, -1} \<and> locked d' \<and>
     (\<forall>x. x < 0x08020000 \<or> 0x08040000 \<le> x \<longrightarrow> ld8 H d' x = ld8 H d x) \<and>
     (nv_op (nor d) = NOR_Idle \<longrightarrow> nv_mem (nor d') = nv_mem (nor d)) \<and>
     (r = 0 \<longrightarrow> run_state (Metadata_Read H) d' = (m\<lparr>magic := METADATA_MAGIC\<rparr>, d'))"
    using * by (simp add: Metadata_Read_def State_Monad.get_def)
qed

end

text \<open>Sixty-four bytes are the bytes of the record they decode to.\<close>

lemma bytes_words_inverse: "length bs = 4 * n \<Longrightarrow> concat (map le32_bytes (bytes_words bs)) = bs"
proof (induction n arbitrary: bs)
  case (Suc n)
  have l: "length (take 4 bs) = 4" "length (drop 4 bs) = 4 * n" using Suc.prems by simp_all
  have "bytes_words bs = le32 (take 4 bs) # bytes_words (drop 4 bs)"
    using Suc.prems by (simp add: bytes_words_def upt_conv_Cons map_Suc_upt [symmetric] comp_def add.commute del: upt_Suc)
  then show ?case using Suc.IH [OF l(2)] le32_inverse [OF l(1)] by simp
qed (simp add: bytes_words_def)

lemma meta_bytes_bytes_meta: "length bs = 64 \<Longrightarrow> meta_bytes (bytes_meta bs) = bs"
  using bytes_words_inverse [of bs 16]
  by (simp add: meta_bytes_def bytes_meta_def meta_words_meta bytes_words_def)

section \<open>CRC-32\<close>

text \<open>
  C8. \<^verbatim>\<open>CRC32_Calculate\<close>, which goes through the 256-entry table, computes the same checksum as the
  bit-at-a-time loop with which \<^verbatim>\<open>OTA_Poll\<close> checks the staged copy, on every input.
\<close>

theorem crc_table_is_bitwise: "CRC32_Calculate bs = foldl crc_byte 0xFFFFFFFF bs XOR 0xFFFFFFFF"
  by (simp add: CRC32_Calculate_bytes crc_bytes_def)

text \<open>
  The checksum detects every corruption confined to four consecutive bytes, wherever it is and
  whatever surrounds it.
\<close>

theorem crc_detects_bursts:
  assumes "length x = length y" and "length x \<le> 4" and "x \<noteq> y"
  shows "CRC32_Calculate (p @ x @ s) \<noteq> CRC32_Calculate (p @ y @ s)"
  by (rule crc_burst [OF assms])

theorem crc_detects_bursts_witness:
  "CRC32_Calculate ([1, 2] @ [3, 4, 5] @ [6]) \<noteq> CRC32_Calculate ([1, 2] @ [3, 0x44, 5] @ [6])"
  by (rule crc_detects_bursts) simp_all

section \<open>The NOR flash driver\<close>

text \<open>
  C10. A write of up to the whole chip that reports success has programmed exactly the data, page by
  page, and has waited for the chip. Whatever it reports, no cell outside the range and nothing of
  the internal flash has changed, and cells inside have at most lost bits that are 0 in the data.
\<close>

theorem qspi_write_programs:
  assumes "hal_laws H nor locked" and "nv_op (nor d) = NOR_Idle" and "a + n \<le> NOR_SIZE" and "n \<le> length p"
    and "run_state (BSP_QSPI_Write H p a n) d = (r, d')"
  shows "(\<forall>x. prog_rel a (take n p) x (nv_mem (nor d) x) (nv_mem (nor d') x)) \<and> ld8 H d' = ld8 H d \<and>
    (r = QSPI_OK \<longrightarrow> nv_op (nor d') = NOR_Idle \<and> nv_mem (nor d') = prog_mem a (take n p) (nv_mem (nor d)))"
  using wpD [OF hal_laws.Write_full [OF assms(1-4)] assms(5)] by blast

theorem qspi_write_programs_witness:
  "\<exists>d'. run_state (BSP_QSPI_Write sim_hal (replicate 300 7) 250 300) (sim0 []) = (QSPI_OK, d') \<and>
     nv_mem (sim_nor d') = prog_mem 250 (take 300 (replicate 300 7)) (\<lambda>_. 0xFF)"
proof -
  obtain r d' where run: "run_state (BSP_QSPI_Write sim_hal (replicate 300 7) 250 300) (sim0 []) = (r, d')"
    by (rule prod.exhaust)
  have r: "r = QSPI_OK" using wpD [OF sim.Write_works [OF sim0_good, of 300 "replicate 300 7"] run] by simp
  from qspi_write_programs [OF sim.hal_laws_axioms _ _ _ run] r run show ?thesis
    by (simp add: NOR_SIZE_def)
qed

text \<open>
  \<^verbatim>\<open>QSPI_Erase_Blocks\<close> on whole 64 KB blocks always returns; it changes no cell outside the
  blocks, and a result of 0 means that every cell of them is erased and the chip idle.
\<close>

theorem qspi_erase_erases:
  assumes "hal_laws H nor locked" and "a mod 65536 = 0" and "n mod 65536 = 0" and "a + n \<le> NOR_SIZE"
    and "nv_op (nor d) = NOR_Idle" and "run_state (QSPI_Erase_Blocks H a n) d = (r, d')"
  shows "r \<noteq> None \<and> (\<forall>x. x < a \<or> a + n \<le> x \<longrightarrow> nv_mem (nor d') x = nv_mem (nor d) x) \<and> ld8 H d' = ld8 H d \<and>
    (r = Some 0 \<longrightarrow> nv_op (nor d') = NOR_Idle \<and> mem_slice (nv_mem (nor d')) a n = replicate n 0xFF)"
  by (rule wpD [OF hal_laws.Erase_full [OF assms(1-5)] assms(6)])

theorem qspi_erase_erases_witness:
  "\<exists>d'. run_state (QSPI_Erase_Blocks sim_hal 131072 65536) (sim0 []) = (Some 0, d') \<and>
     mem_slice (nv_mem (sim_nor d')) 131072 65536 = replicate 65536 0xFF"
proof -
  obtain r d' where run: "run_state (QSPI_Erase_Blocks sim_hal 131072 65536) (sim0 []) = (r, d')"
    by (rule prod.exhaust)
  have r: "r = Some 0" using wpD [OF sim.Erase_Blocks_works [OF sim0_good, of 131072 65536] run] by (simp add: NOR_SIZE_def)
  from qspi_erase_erases [OF sim.hal_laws_axioms _ _ _ _ run] r run show ?thesis
    by (simp add: NOR_SIZE_def)
qed

text \<open>
  What is written into freshly erased blocks is what is read back, byte for byte, for any data
  that fits, provided each of the three calls reports success.
\<close>

theorem qspi_roundtrip:
  assumes "hal_laws H nor locked" and "a mod 65536 = 0" and "n mod 65536 = 0" and "a + n \<le> NOR_SIZE"
    and "nv_op (nor d) = NOR_Idle" and "length bs \<le> n"
    and "run_state (do {
       e \<leftarrow> QSPI_Erase_Blocks H a n;
       w \<leftarrow> BSP_QSPI_Write H bs a (length bs);
       (r, out) \<leftarrow> BSP_QSPI_Read H a (length bs);
       return (e, w, r, out)
     }) d = ((Some 0, QSPI_OK, QSPI_OK, out), d')"
  shows "out = bs"
  using wpD [OF hal_laws.Erase_write_read [OF assms(1-6)] assms(7)] by simp

theorem qspi_roundtrip_witness:
  "\<exists>d'. run_state (do {
       e \<leftarrow> QSPI_Erase_Blocks sim_hal 65536 65536;
       w \<leftarrow> BSP_QSPI_Write sim_hal [1, 2, 3] 65536 (length [1, 2, 3 :: u8]);
       (r, out) \<leftarrow> BSP_QSPI_Read sim_hal 65536 (length [1, 2, 3 :: u8]);
       return (e, w, r, out)
     }) (sim0 []) = ((Some 0, QSPI_OK, QSPI_OK, [1, 2, 3]), d')"
proof -
  let ?m = "do {
       e \<leftarrow> QSPI_Erase_Blocks sim_hal 65536 65536;
       w \<leftarrow> BSP_QSPI_Write sim_hal [1, 2, 3] 65536 (length [1, 2, 3 :: u8]);
       (r, out) \<leftarrow> BSP_QSPI_Read sim_hal 65536 (length [1, 2, 3 :: u8]);
       return (e, w, r, out)
     }"
  obtain e w r out d' where run: "run_state ?m (sim0 []) = ((e, w, r, out), d')"
    using prod.exhaust by metis
  have rd: "wp (do { (r, out) \<leftarrow> BSP_QSPI_Read sim_hal 65536 (length [1, 2, 3 :: u8]); return (Some 0, QSPI_OK, r, out) })
      (\<lambda>(e, w, r, out) _. e = Some 0 \<and> w = QSPI_OK \<and> r = QSPI_OK) s" if "sim.good s" for s
    unfolding wp_bind
    by (rule wp_mono [OF sim.Read_works]) (use that in \<open>auto simp: sim.good_def split: prod.splits\<close>)
  have "wp ?m (\<lambda>(e, w, r, out) _. e = Some 0 \<and> w = QSPI_OK \<and> r = QSPI_OK) (sim0 [])"
    by (subst wp_bind, rule wp_mono [OF sim.Erase_Blocks_works [OF sim0_good]], simp, simp add: NOR_SIZE_def,
        subst wp_bind, rule wp_mono [OF sim.Write_works [of _ "length [1, 2, 3 :: u8]" "[1, 2, 3]"]])
      (use rd in auto)
  from wpD [OF this run] have "e = Some 0 \<and> w = QSPI_OK \<and> r = QSPI_OK" by simp
  then show ?thesis
    using qspi_roundtrip [OF sim.hal_laws_axioms, of 65536 65536 "sim0 []" "[1, 2, 3]" out d'] run
    by (simp add: NOR_SIZE_def)
qed

section \<open>The metadata record\<close>

text \<open>
  The sixty-four bytes stored in the flash determine the record and are determined by it: no
  field is lost or confused with another.
\<close>

theorem metadata_bytes_roundtrip:
  "bytes_meta (meta_bytes m) = m \<and> (length bs = 64 \<longrightarrow> meta_bytes (bytes_meta bs) = bs)"
  by (simp add: meta_bytes_bytes_meta)

theorem metadata_bytes_roundtrip_witness:
  "meta_bytes (bytes_meta (replicate 64 7)) = replicate 64 7"
  using metadata_bytes_roundtrip [of Metadata_Default "replicate 64 7"] by simp

text \<open>
  C9. \<^verbatim>\<open>Metadata_Write\<close> returns 0 or -1 and leaves the flash locked; it changes nothing outside its
  sector, neither in the internal flash nor in an idle NOR chip; and after a 0,
  \<^verbatim>\<open>Metadata_Read\<close> returns exactly the record written, with the magic number set.
\<close>

theorem metadata_write_read:
  assumes "hal_laws H nor locked" and "meta_wf m" and "run_state (Metadata_Write H m) d = ((r, m'), d')"
  shows "m' = m\<lparr>magic := METADATA_MAGIC\<rparr> \<and> r \<in> {0, -1} \<and> locked d' \<and>
    (\<forall>x. x < 0x08020000 \<or> 0x08040000 \<le> x \<longrightarrow> ld8 H d' x = ld8 H d x) \<and>
    (nv_op (nor d) = NOR_Idle \<longrightarrow> nv_mem (nor d') = nv_mem (nor d)) \<and>
    (r = 0 \<longrightarrow> run_state (Metadata_Read H) d' = (m', d'))"
  using wpD [OF hal_laws.Metadata_full [OF assms(1,2)] assms(3)] by simp

theorem metadata_write_read_witness:
  "\<exists>r d'. run_state (Metadata_Write sim_hal Metadata_Default) (sim0 (replicate 20 True)) = ((r, Metadata_Default), d') \<and>
     r \<in> {0, -1} \<and> sim_locked d' \<and> nv_mem (sim_nor d') = (\<lambda>_. 0xFF)"
proof -
  obtain r m' d' where run: "run_state (Metadata_Write sim_hal Metadata_Default) (sim0 (replicate 20 True)) = ((r, m'), d')"
    using prod.exhaust by metis
  have m: "Metadata_Default\<lparr>magic := METADATA_MAGIC\<rparr> = Metadata_Default" by (simp add: Metadata_Default_def)
  from metadata_write_read [OF sim.hal_laws_axioms meta_wf_Default run] run show ?thesis by (simp add: m)
qed

text \<open>
  Two faults of the flash, wherever they fall, do not keep \<^verbatim>\<open>Metadata_Write\<close> from succeeding: the
  attempts of its loops pay for them, and the record read afterwards is the one written.
\<close>

theorem metadata_write_survives_faults:
  assumes "hal_budget H nor locked budget" and "meta_wf m" and "budget d \<le> 2"
    and "run_state (Metadata_Write H m) d = ((r, m'), d')"
  shows "r = 0 \<and> run_state (Metadata_Read H) d' = (m\<lparr>magic := METADATA_MAGIC\<rparr>, d')"
  using wpD [OF hal_budget.Metadata_Write_works [OF assms(1-3)] assms(4)]
    wpD [OF hal_laws.Metadata_full [OF hal_budget.axioms(1) [OF assms(1)] assms(2)] assms(4)] by auto

theorem metadata_write_survives_faults_witness:
  "\<exists>d'. run_state (Metadata_Write sim_hal Metadata_Default) (sim0 [False, True, True]) = ((0, Metadata_Default), d') \<and>
     run_state (Metadata_Read sim_hal) d' = (Metadata_Default, d')"
proof -
  obtain r m' d' where run: "run_state (Metadata_Write sim_hal Metadata_Default) (sim0 [False, True, True]) = ((r, m'), d')"
    using prod.exhaust by metis
  have b: "sim_budget (sim0 [False, True, True]) \<le> 2" by (simp add: sim_budget_def sim0_def)
  have m: "Metadata_Default\<lparr>magic := METADATA_MAGIC\<rparr> = Metadata_Default" by (simp add: Metadata_Default_def)
  show ?thesis
    using metadata_write_survives_faults [OF sim.hal_budget_axioms meta_wf_Default b run]
      wpD [OF sim.Metadata_full [OF meta_wf_Default] run] run by (simp add: m)
qed

end
