(* ===== verification/Update_Properties.thy ===== *)
theory Update_Properties
  imports Flash_Properties
begin

text \<open>
  The properties of the update: receiving an image over TCP, checking and staging it, writing it,
  backing up and restoring, and the decision at boot. The condition on \<^verbatim>\<open>BSP_QSPI_Init\<close> in the
  statement about the backup is needed because the code ignores its result between attempts.
\<close>

section \<open>Concrete values of the witnesses\<close>

text \<open>A layout of the metadata members that the header file lacks, and an image of 40 bytes.\<close>

definition demo_layout :: meta_layout where
  "demo_layout f = (case f of cur_major \<Rightarrow> 2 | cur_minor \<Rightarrow> 3 | cur_patch \<Rightarrow> 4 | bak_major \<Rightarrow> 7 | bak_minor \<Rightarrow> 8
     | bak_patch \<Rightarrow> 9 | bak_crc32 \<Rightarrow> 10 | bak_fw_size \<Rightarrow> 11 | ota_major \<Rightarrow> 12 | ota_minor \<Rightarrow> 13 | ota_patch \<Rightarrow> 14)"

definition demo_ota :: ota where
  "demo_ota = ota_init\<lparr>ota_state := OTA_STATE_VERIFY, ota_header_parsed := True, ota_expected := 40,
     ota_received := 40, ota_crc_expected := CRC32_Calculate (replicate 40 0)\<rparr>"

text \<open>An lwIP on which everything succeeds, and one whose \<^verbatim>\<open>tcp_close\<close> runs out of memory.\<close>

definition demo_lwip :: lwip_env where
  "demo_lwip = \<lparr>tcp_new_res = Some 1, tcp_bind_res = ERR_OK, tcp_listen_res = Some 2, tcp_close_res = (\<lambda>_. ERR_OK),
     tcp_connect_res = ERR_OK, udp_new_res = True, pbuf_alloc_res = True\<rparr>"

lemma demo_ota_size: "ota_received demo_ota \<le> APP_SIZE" "0 < ota_received demo_ota" "ota_received demo_ota \<le> OTA_BUF_SIZE"
  by (simp_all add: demo_ota_def APP_SIZE_def OTA_BUF_SIZE_def)

section \<open>Receiving the image\<close>




text \<open>
  C6. The receive callback never writes outside \<^verbatim>\<open>ota_stage\<close> or \<^verbatim>\<open>ota_buf\<close>, whatever chain of pbufs
  arrives in whatever state, keeps the invariant of the globals, acknowledges the whole chain and
  frees it exactly once.
\<close>

theorem recv_memory_safe:
  assumes "ota_wf s" and "pbufs_ok chain"
  shows "\<exists>s'. ota_recv_cb L pcb (Some chain) s = Some (ERR_OK, s') \<and> ota_wf s' \<and>
     lw s' = lw s @ [Tcp_recved pcb (sum_list (map length chain)), Pbuf_free]"
  using recv_pbufs_wf [OF assms] by (auto simp: ota_recv_cb_def)

theorem recv_memory_safe_witness:
  "\<exists>s'. ota_recv_cb demo_lwip 3 (Some [[1, 2, 3], [4, 5, 6, 7, 8, 9]]) ota_init = Some (ERR_OK, s') \<and> ota_wf s' \<and>
     lw s' = [Tcp_recved 3 9, Pbuf_free]"
proof -
  have "ota_wf ota_init" by (simp add: ota_wf_def ota_init_def)
  moreover have "pbufs_ok [[1, 2, 3], [4, 5, 6, 7, 8, 9]]" by (simp add: pbufs_ok_def)
  moreover have "sum_list (map length [[1, 2, 3], [4, 5, 6, 7, 8, 9 :: u8]]) = 9" "lw ota_init = []"
    by (simp_all add: ota_init_def)
  ultimately show ?thesis
    using recv_memory_safe [of ota_init "[[1, 2, 3], [4, 5, 6, 7, 8, 9]]" demo_lwip 3] by (simp only: append_Nil)
qed

text \<open>
  When lwIP cannot close the connection (\<^verbatim>\<open>tcp_close\<close> reports an error, for example for lack of
  memory), \<^verbatim>\<open>tcp_abort\<close> runs the error callback, which moves \<^verbatim>\<open>OTA_STATE_RECEIVING\<close> to
  \<^verbatim>\<open>OTA_STATE_ERROR\<close> before the code has looked at what was received: even a complete image is given up. And the
  callback returns \<^verbatim>\<open>ERR_OK\<close> for a connection it has freed.
\<close>

theorem close_failure_discards_image:
  assumes "ota_state s = OTA_STATE_RECEIVING" and "pcb \<in> set (err_cbs s)" and "tcp_close_res L pcb \<noteq> ERR_OK"
  shows "\<exists>s'. ota_recv_cb L pcb None s = Some (ERR_OK, s') \<and> ota_state s' = OTA_STATE_ERROR \<and> ota_client_pcb s' = None"
  using assms by (simp add: ota_recv_cb_def Let_def tcp_abort_ota_def ota_err_cb_def)

theorem close_failure_discards_image_witness:
  "\<exists>s'. ota_recv_cb (demo_lwip\<lparr>tcp_close_res := (\<lambda>_. -1)\<rparr>) 3 None
      (demo_ota\<lparr>ota_state := OTA_STATE_RECEIVING, err_cbs := [3]\<rparr>) = Some (ERR_OK, s') \<and>
     ota_state s' = OTA_STATE_ERROR \<and> ota_client_pcb s' = None"
  by (rule close_failure_discards_image) (simp_all add: demo_lwip_def)

text \<open>
  A server that does not start leaves no listening connection and is not receiving; one that
  starts is receiving, has no client and expects a header; stopping it always ends in
  \<^verbatim>\<open>OTA_STATE_IDLE\<close> without connections, and stopping twice asks nothing more of lwIP.
\<close>

theorem server_start_stop:
  "(OTA_Server_Start L s = (r, s') \<longrightarrow> length (ota_stage s) = 8 \<longrightarrow>
      (if r = 0 then ota_repr [] s' \<and> ota_state s' = OTA_STATE_RECEIVING \<and> ota_client_pcb s' = None
       else r = -1 \<and> ota_server_pcb s' = None \<and> ota_state s' \<in> {OTA_STATE_IDLE, OTA_STATE_ERROR})) \<and>
   OTA_Server_Stop L (OTA_Server_Stop L s) = OTA_Server_Stop L s"
proof -
  have r: "r = 0 \<or> r = -1" if "OTA_Server_Start L s = (r, s')"
    using that by (auto simp: OTA_Server_Start_def Let_def split: option.splits if_splits)
  have "OTA_Server_Stop L (OTA_Server_Stop L s) = OTA_Server_Stop L s"
    by (subst (1) OTA_Server_Stop_def) (simp add: Let_def)
  with r Start_ok [of L s s'] Start_fail [of L s r s'] show ?thesis by auto
qed

theorem server_start_stop_witness:
  "ota_repr [] (snd (OTA_Server_Start demo_lwip ota_init)) \<and>
   ota_server_pcb (snd (OTA_Server_Start (demo_lwip\<lparr>tcp_bind_res := -8\<rparr>) ota_init)) = None"
proof -
  have "OTA_Server_Start demo_lwip ota_init = (0, snd (OTA_Server_Start demo_lwip ota_init))"
    by (simp add: OTA_Server_Start_def demo_lwip_def Let_def)
  moreover have "OTA_Server_Start (demo_lwip\<lparr>tcp_bind_res := -8\<rparr>) ota_init =
      (-1, snd (OTA_Server_Start (demo_lwip\<lparr>tcp_bind_res := -8\<rparr>) ota_init))"
    by (simp add: OTA_Server_Start_def demo_lwip_def Let_def)
  ultimately show ?thesis
    using server_start_stop [of demo_lwip ota_init 0] server_start_stop [of "demo_lwip\<lparr>tcp_bind_res := -8\<rparr>" ota_init "-1"]
    by (auto simp: ota_init_def)
qed

section \<open>Checking and staging\<close>

text \<open>
  C7. \<^verbatim>\<open>OTA_Poll\<close> asks for confirmation only when the checksum of the received image and that of the
  copy in the NOR flash both agree with the expected one, whatever faults occur; otherwise it ends
  in \<^verbatim>\<open>OTA_STATE_ERROR\<close>. It touches neither the internal flash nor the NOR flash behind the staging
  area, so the running application and its backup survive.
\<close>

theorem poll_confirms_only_matching:
  assumes "hal_laws H nor locked" and "ota_state g = OTA_STATE_VERIFY" and "0 < ota_received g"
    and "ota_received g \<le> OTA_BUF_SIZE" and "nv_op (nor d) = NOR_Idle" and "run_state (OTA_Poll H g) d = (r, d')"
  shows "ld8 H d' = ld8 H d \<and> (\<forall>x \<ge> STAGING_SIZE. nv_mem (nor d') x = nv_mem (nor d) x) \<and>
    (r = Some (g\<lparr>ota_state := OTA_STATE_ERROR\<rparr>) \<or>
     r = Some (g\<lparr>ota_state := OTA_STATE_CONFIRM\<rparr>) \<and>
     CRC32_Calculate (mem_slice (ota_buf g) 0 (ota_received g)) = ota_crc_expected g \<and>
     CRC32_Calculate (mem_slice (nv_mem (nor d')) OTA_STAGING_ADDR (ota_received g)) = ota_crc_expected g)"
proof -
  note post = wpD [OF hal_laws.Poll_ok [OF assms(1-5)] assms(6)]
  then have "erase_rel 0 STAGING_SIZE x (nv_mem (nor d) x) (nv_mem (nor d') x) \<and> ld8 H d' = ld8 H d" for x
    using hal_laws.within_cells [OF assms(1)] by blast
  then have "ld8 H d' = ld8 H d" "\<forall>x \<ge> STAGING_SIZE. nv_mem (nor d') x = nv_mem (nor d) x"
    by (auto simp: erase_rel_def) (metis linorder_not_less)
  with post show ?thesis by blast
qed

theorem poll_confirms_only_matching_witness:
  "\<exists>r d'. run_state (OTA_Poll sim_hal demo_ota) (sim0 [False, True, True]) = (r, d') \<and> ld8 sim_hal d' = (\<lambda>_. 0xFF) \<and>
     (\<forall>x \<ge> STAGING_SIZE. nv_mem (sim_nor d') x = 0xFF)"
proof -
  obtain r d' where run: "run_state (OTA_Poll sim_hal demo_ota) (sim0 [False, True, True]) = (r, d')" by (rule prod.exhaust)
  have "ota_state demo_ota = OTA_STATE_VERIFY" by (simp add: demo_ota_def)
  from poll_confirms_only_matching [OF sim.hal_laws_axioms this demo_ota_size(2,3) _ run] run show ?thesis by auto
qed

text \<open>
  A correct image is accepted when the hardware has no faults: \<^verbatim>\<open>OTA_Poll\<close> ends in
  \<^verbatim>\<open>OTA_STATE_CONFIRM\<close> with the staging area holding the image byte for byte.
\<close>

theorem poll_accepts_good_image:
  assumes "hal_budget H nor locked budget" and "budget d = 0" and "nv_op (nor d) = NOR_Idle"
    and "ota_state g = OTA_STATE_VERIFY" and "0 < ota_received g" and "ota_received g \<le> OTA_BUF_SIZE"
    and "CRC32_Calculate (mem_slice (ota_buf g) 0 (ota_received g)) = ota_crc_expected g"
  shows "\<exists>d'. run_state (OTA_Poll H g) d = (Some (g\<lparr>ota_state := OTA_STATE_CONFIRM\<rparr>), d') \<and>
    mem_slice (nv_mem (nor d')) OTA_STAGING_ADDR (ota_received g) = mem_slice (ota_buf g) 0 (ota_received g)"
proof -
  obtain r d' where run: "run_state (OTA_Poll H g) d = (r, d')" by (rule prod.exhaust)
  have "hal_budget.good nor budget d" using assms by (simp add: hal_budget.good_def [OF assms(1)])
  from wpD [OF hal_budget.Poll_works [OF assms(1,4-6) this assms(7)] run] run show ?thesis by auto
qed

theorem poll_accepts_good_image_witness:
  "\<exists>d'. run_state (OTA_Poll sim_hal demo_ota) (sim0 []) = (Some (demo_ota\<lparr>ota_state := OTA_STATE_CONFIRM\<rparr>), d') \<and>
    mem_slice (nv_mem (sim_nor d')) OTA_STAGING_ADDR 40 = mem_slice (ota_buf demo_ota) 0 40"
proof -
  have b: "mem_slice (ota_buf demo_ota) 0 (ota_received demo_ota) = replicate 40 0"
    by (rule mem_slice_eq_listI) (simp_all add: demo_ota_def ota_init_def)
  have s: "ota_state demo_ota = OTA_STATE_VERIFY" "ota_crc_expected demo_ota = CRC32_Calculate (replicate 40 0)"
    "ota_received demo_ota = 40" by (simp_all add: demo_ota_def)
  show ?thesis
    using poll_accepts_good_image [OF sim.hal_budget_axioms, of "sim0 []" demo_ota] demo_ota_size b s
      sim0_good by (simp add: sim.good_def)
qed

section \<open>Writing the update\<close>



text \<open>
  Without faults the write succeeds: it returns 0, the application slot starts with the staged
  image and the old application is in the backup area.
\<close>

theorem update_write_succeeds:
  assumes "hal_budget H nor locked budget" and "budget d = 0" and "nv_op (nor d) = NOR_Idle" and "ota_received g \<le> APP_SIZE"
  shows "\<exists>d'. run_state (OTA_Flash_Write H lay ver g) d = (Some (0, g\<lparr>ota_state := OTA_STATE_DONE\<rparr>), d') \<and>
    mem_slice (nv_mem (nor d')) BACKUP_OFFSET APP_SIZE = mem_slice (ld8 H d) APP_ADDR APP_SIZE \<and>
    mem_slice (ld8 H d') APP_ADDR (ota_received g) = mem_slice (nv_mem (nor d)) OTA_STAGING_ADDR (ota_received g)"
proof -
  note laws = hal_budget.axioms(1) [OF assms(1)]
  obtain r d' where run: "run_state (OTA_Flash_Write H lay ver g) d = (r, d')" by (rule prod.exhaust)
  have "hal_budget.good nor budget d" using assms by (simp add: hal_budget.good_def [OF assms(1)])
  from wpD [OF hal_budget.Flash_Write_good [OF assms(1) this assms(4)] run] run show ?thesis
    by (auto simp: hal_laws.update_outcome_def [OF laws] hal_laws.updated_def [OF laws] hal_laws.backed_up_def [OF laws])
qed

theorem update_write_succeeds_witness:
  "\<exists>d'. run_state (OTA_Flash_Write sim_hal demo_layout (1, 2, 3) demo_ota) (sim0 []) =
       (Some (0, demo_ota\<lparr>ota_state := OTA_STATE_DONE\<rparr>), d') \<and>
     mem_slice (ld8 sim_hal d') APP_ADDR 40 = replicate 40 0xFF"
proof -
  have "mem_slice (\<lambda>_. 0xFF :: u8) OTA_STAGING_ADDR 40 = replicate 40 0xFF" by (rule mem_slice_eq_listI) auto
  moreover have "ota_received demo_ota = 40" by (simp add: demo_ota_def)
  ultimately show ?thesis
    using update_write_succeeds [OF sim.hal_budget_axioms, of "sim0 []" demo_ota demo_layout "(1, 2, 3)"]
      sim0_good demo_ota_size by (auto simp: sim.good_def)
qed

section \<open>Backup, restore, rollback\<close>

text \<open>
  A rollback that reports success has put back exactly the 1 MB image of the backup area and
  locked the flash; whatever it reports, the backup area itself and everything of the internal
  flash outside bank 2 (bootloader and metadata) are as before.
\<close>

theorem rollback_restores:
  assumes "hal_laws H nor locked" and "nv_op (nor d) = NOR_Idle"
    and "run_state (Boot_DoRollback H qi) d = ((r, qi'), d')"
  shows "r \<in> {0, -1} \<and> nv_mem (nor d') = nv_mem (nor d) \<and> (\<forall>x < APP_ADDR. ld8 H d' x = ld8 H d x) \<and>
    (r = 0 \<longrightarrow> locked d' \<and>
      mem_slice (ld8 H d') APP_ADDR APP_SIZE = mem_slice (nv_mem (nor d)) BACKUP_OFFSET APP_SIZE)"
proof -
  note post = wpD [OF hal_laws.Rollback_ok [OF assms(1,2)] assms(3)]
  then have k: "hal_laws.flash_within H nor (erase_rel APP_ADDR APP_SIZE) d d'" by simp
  have "nv_mem (nor d') = nv_mem (nor d)"
    using k assms(2) by (simp add: hal_laws.flash_within_def [OF assms(1)] hal_laws.nor_kept_def [OF assms(1)]
        hal_laws.idle_at_def [OF assms(1)])
  moreover have "ld8 H d' x = ld8 H d x" if "x < APP_ADDR" for x
    using k that unfolding hal_laws.flash_within_def [OF assms(1)] erase_rel_def by (metis linorder_not_less)
  ultimately show ?thesis using post by auto
qed

theorem rollback_restores_witness:
  "\<exists>r qi' d'. run_state (Boot_DoRollback sim_hal False) (sim0 [True, False, True]) = ((r, qi'), d') \<and> r \<in> {0, -1} \<and>
     nv_mem (sim_nor d') = (\<lambda>_. 0xFF)"
proof -
  obtain r qi' d' where run: "run_state (Boot_DoRollback sim_hal False) (sim0 [True, False, True]) = ((r, qi'), d')"
    using prod.exhaust by metis
  from rollback_restores [OF sim.hal_laws_axioms _ run] run show ?thesis by auto
qed

text \<open>
  The manual backup of the menu never changes the application slot, and when it gets to the end
  the backup area holds the slot byte for byte; the manual restore never changes the backup area,
  and when it gets to the end the slot holds the backup area byte for byte.
\<close>

theorem backup_and_restore:
  assumes "hal_laws H nor locked" and "nv_op (nor d) = NOR_Idle"
  shows "(run_state (Backup_SlotA H lay) d = (b, d1) \<longrightarrow>
      b \<in> {Some True, Some False} \<and> mem_slice (ld8 H d1) APP_ADDR APP_SIZE = mem_slice (ld8 H d) APP_ADDR APP_SIZE \<and>
      (b = Some True \<longrightarrow> mem_slice (nv_mem (nor d1)) BACKUP_OFFSET APP_SIZE = mem_slice (ld8 H d) APP_ADDR APP_SIZE)) \<and>
    (run_state (Restore_SlotA H lay) d = (ok, d2) \<longrightarrow>
      nv_mem (nor d2) = nv_mem (nor d) \<and>
      (ok \<longrightarrow> locked d2 \<and> mem_slice (ld8 H d2) APP_ADDR APP_SIZE = mem_slice (nv_mem (nor d)) BACKUP_OFFSET APP_SIZE))"
  using wpD [OF hal_laws.Backup_SlotA_ok [OF assms], of lay b d1]
    wpD [OF hal_laws.Restore_SlotA_ok [OF assms], of lay ok d2] by blast

theorem backup_and_restore_witness:
  "\<exists>b ok d1 d2. run_state (Backup_SlotA sim_hal demo_layout) (sim0 [True]) = (b, d1) \<and>
     run_state (Restore_SlotA sim_hal demo_layout) (sim0 [True]) = (ok, d2) \<and>
     b \<in> {Some True, Some False} \<and> nv_mem (sim_nor d2) = (\<lambda>_. 0xFF)"
proof -
  obtain b d1 where r1: "run_state (Backup_SlotA sim_hal demo_layout) (sim0 [True]) = (b, d1)" by (rule prod.exhaust)
  obtain ok d2 where r2: "run_state (Restore_SlotA sim_hal demo_layout) (sim0 [True]) = (ok, d2)" by (rule prod.exhaust)
  from backup_and_restore [OF sim.hal_laws_axioms, of "sim0 [True]" demo_layout b d1 ok d2] r1 r2 show ?thesis by auto
qed

text \<open>
  The record of the backup in the metadata undoes itself: after \<^verbatim>\<open>meta.bak_* = meta.cur_*\<close> at the
  update and \<^verbatim>\<open>meta.cur_* = meta.bak_*\<close> at the rollback, with the version, checksum and size of any
  update recorded in between, version, checksum and size are those of the old application, and the
  state is \<^verbatim>\<open>STATE_CONFIRMED\<close>.
\<close>

theorem metadata_restored:
  assumes "layout_ok lay" and "meta_wf m"
  shows "let m' = meta_restored lay (meta_pending lay ver g (meta_record_backup lay m))
    in state m' = STATE_CONFIRMED \<and> crc32 m' = crc32 m \<and> fw_size m' = fw_size m \<and>
       (\<forall>f \<in> {cur_major, cur_minor, cur_patch}. get_field lay f m' = get_field lay f m)"
  using assms by (cases ver) (simp add: Let_def meta_restored_def meta_pending_def meta_record_backup_def
    get_set_field get_field_upd set_field_fixed)

lemma demo_layout_ok: "layout_ok demo_layout"
proof -
  have "inj demo_layout"
  proof (rule injI)
    fix f g assume "demo_layout f = demo_layout g"
    then show "f = g" by (cases f; cases g) (simp_all add: demo_layout_def)
  qed
  moreover have "demo_layout f < 16 \<and> demo_layout f \<notin> {0, 1, 5, 6}" for f by (cases f) (simp_all add: demo_layout_def)
  ultimately show ?thesis by (simp add: layout_ok_def)
qed

theorem metadata_restored_witness:
  "crc32 (meta_restored demo_layout (meta_pending demo_layout (1, 2, 3) demo_ota
     (meta_record_backup demo_layout (Metadata_Default\<lparr>crc32 := 77\<rparr>)))) = 77"
  using metadata_restored [OF demo_layout_ok, of "Metadata_Default\<lparr>crc32 := 77\<rparr>" "(1, 2, 3)" demo_ota] meta_wf_Default
  by (simp add: Let_def)

section \<open>Boot\<close>

text \<open>
  C11. Whatever faults occur, the boot decision never alters the backup area, and it runs the
  application of the slot only as it was, or, after a watchdog reset during the trial run, as the
  backup area has it.
\<close>

theorem boot_step_safe:
  assumes "hal_laws H nor locked" and "nv_op (nor d) = NOR_Idle"
    and "run_state (Boot_Metadata_Step H lay qi) d = ((r, qi'), d')"
  shows "nv_mem (nor d') = nv_mem (nor d) \<and> r \<in> {0, 1, 2} \<and>
    (r \<noteq> 0 \<longrightarrow> mem_slice (ld8 H d') APP_ADDR APP_SIZE = mem_slice (ld8 H d) APP_ADDR APP_SIZE \<or>
      r = 2 \<and> state (Metadata_Of (ld8 H d)) = STATE_TESTING \<and> hal_laws.iwdg_flag H d \<and>
      mem_slice (ld8 H d') APP_ADDR APP_SIZE = mem_slice (nv_mem (nor d)) BACKUP_OFFSET APP_SIZE)"
  using wpD [OF hal_laws.Boot_Metadata_Step_ok [OF assms(1,2)] assms(3)]
  by (auto simp: hal_laws.step_outcome_def [OF assms(1)] Let_def split: if_splits)

theorem boot_step_safe_witness:
  "\<exists>r qi' d'. run_state (Boot_Metadata_Step sim_hal demo_layout False) (sim0 [True]) = ((r, qi'), d') \<and>
     r \<in> {0, 1, 2} \<and> nv_mem (sim_nor d') = (\<lambda>_. 0xFF)"
proof -
  obtain r qi' d' where run: "run_state (Boot_Metadata_Step sim_hal demo_layout False) (sim0 [True]) = ((r, qi'), d')"
    using prod.exhaust by metis
  from boot_step_safe [OF sim.hal_laws_axioms _ run] run show ?thesis by auto
qed


text \<open>
  What the code does in the case left out: an application on trial stays on trial and is started under the watchdog
  again, as the comment at line 405 of \<^verbatim>\<open>menu.c\<close> says; the one at line 276 says that it becomes \<^verbatim>\<open>CONFIRMED\<close>.
\<close>

theorem trial_goes_on_after_other_reset:
  assumes "hal_budget H nor locked budget" and "budget d = 0" and "nv_op (nor d) = NOR_Idle"
    and "run_state (Boot_Metadata_Step H lay qi) d = ((r, qi'), d')"
    and "boot_state_of (Metadata_Of (ld8 H d)) = B_Testing" and "\<not> hal_laws.iwdg_flag H d"
  shows "r = 1 \<and> boot_state_of (Metadata_Of (ld8 H d')) = B_Testing"
proof -
  have "hal_budget.good nor budget d" using assms by (simp add: hal_budget.good_def [OF assms(1)])
  from wpD [OF hal_budget.Boot_Step_refines [OF assms(1) this] assms(4)] assms(5,6) show ?thesis by simp
qed


end
