(* ===== verification/Lifecycle.thy ===== *)
theory Lifecycle
  imports Update_Properties
begin

text \<open>
  The life of the machine on hardware without faults: what an update and a boot do to the last image
  known to be good, and an inductive relation for sequences of updates, boots, resets and
  confirmations by the application.
\<close>

section \<open>Single steps\<close>

lemma mem_slice_prefix:
  "mem_slice m a n = mem_slice m' b n \<Longrightarrow> k \<le> n \<Longrightarrow> mem_slice m a k = mem_slice m' b k"
  by (auto simp: mem_slice_eq_iff)

lemma boot_state_of_eq:
  "boot_state_of m = B_Pending \<longleftrightarrow> state m = STATE_PENDING_UPDATE"
  "boot_state_of m = B_Testing \<longleftrightarrow> state m = STATE_TESTING"
  by (auto simp: boot_state_of_def)

text \<open>The two boots after an update, on hardware without faults.\<close>

context hal_budget
begin

lemma boot_trial:
  assumes d: "good d" "state (Metadata_Of (ld8 H d)) = STATE_PENDING_UPDATE"
    and run: "run_state (Boot_Metadata_Step H lay qi) d = ((r, qi'), d')"
  shows "r = 1 \<and> good d' \<and> state (Metadata_Of (ld8 H d')) = STATE_TESTING \<and> app_image d' = app_image d \<and>
    nv_mem (nor d') = nv_mem (nor d)"
proof -
  have "nv_op (nor d) = NOR_Idle" using d by (simp add: good_def)
  with wpD [OF Boot_Step_refines [OF d(1)] run] wpD [OF Boot_Metadata_Step_ok run] d(2) show ?thesis
    by (auto simp: step_outcome_def Let_def boot_state_of_eq(2) boot_state_of_eq(1) [THEN iffD2])
qed

lemma boot_rollback:
  assumes d: "good d" "state (Metadata_Of (ld8 H d)) = STATE_TESTING" "iwdg_flag d"
      "\<not> backup_header_empty (mem_slice (nv_mem (nor d)) BACKUP_OFFSET 4)"
    and run: "run_state (Boot_Metadata_Step H lay qi) d = ((r, qi'), d')"
  shows "r = 2 \<and> app_image d' = old_image d \<and> boot_state_of (Metadata_Of (ld8 H d')) = B_Confirmed"
proof -
  have "nv_op (nor d) = NOR_Idle" using d by (simp add: good_def)
  with wpD [OF Boot_Step_refines [OF d(1)] run] wpD [OF Boot_Metadata_Step_ok run] d(2-) show ?thesis
    by (auto simp: step_outcome_def Let_def boot_state_of_eq(2) [THEN iffD2])
qed

lemma update_written:
  assumes d: "good d" "ota_received g \<le> APP_SIZE"
    and run: "run_state (OTA_Flash_Write H lay ver g) d = (w, d')"
  shows "w = Some (0, g\<lparr>ota_state := OTA_STATE_DONE\<rparr>) \<and> good d' \<and> old_image d' = app_image d \<and>
    mem_slice (ld8 H d') APP_ADDR (ota_received g) = mem_slice (nv_mem (nor d)) OTA_STAGING_ADDR (ota_received g) \<and>
    state (Metadata_Of (ld8 H d')) = STATE_PENDING_UPDATE"
  using wpD [OF Flash_Write_good [OF d] run] by (auto simp: update_outcome_def updated_def backed_up_def)

lemma boot_keep:
  assumes d: "good d" and s: "boot_state_of (Metadata_Of (ld8 H d)) = B_Confirmed \<or>
      boot_state_of (Metadata_Of (ld8 H d)) = B_Testing \<and> \<not> iwdg_flag d"
    and run: "run_state (Boot_Metadata_Step H lay qi) d = ((r, qi'), d')"
  shows "good d' \<and> ld8 H d' = ld8 H d \<and> nv_mem (nor d') = nv_mem (nor d) \<and>
    r = (if boot_state_of (Metadata_Of (ld8 H d)) = B_Testing then 1 else 2)"
proof -
  have "nv_op (nor d) = NOR_Idle" using d by (simp add: good_def)
  with wpD [OF Boot_Step_refines [OF d] run] wpD [OF Boot_Metadata_Step_ok run] s show ?thesis
    by (auto simp: step_outcome_def Let_def boot_state_of_def split: if_splits)
qed

end

section \<open>The life of the machine\<close>

text \<open>
  The states that follow from a start with a confirmed application. Each comes with the image that the
  machine can fall back to (\<open>img\<close>), the image that was confirmed last (\<open>good\<close>), and whether every update since
  that confirmation started from a confirmed application (\<open>proper\<close>), which the code does not check. An update may come
  at any time; what is in the slot must not begin with an erased word, which is how the code recognises an
  empty backup. The application under trial may confirm itself, which changes nothing but the record. A reset keeps
  the memories; it may set the flag of the watchdog at any time.
\<close>

inductive life ::
  "'d hal \<Rightarrow> meta_layout \<Rightarrow> ('d \<Rightarrow> 'd \<Rightarrow> bool) \<Rightarrow> ('d \<Rightarrow> 'd \<Rightarrow> bool) \<Rightarrow> 'd \<Rightarrow> 'd \<Rightarrow> u8 list \<Rightarrow> u8 list \<Rightarrow> bool \<Rightarrow> bool"
  for H lay reset confirm d0 where
  start: "img = mem_slice (ld8 H d0) APP_ADDR APP_SIZE \<Longrightarrow> life H lay reset confirm d0 d0 img img True"
| update: "life H lay reset confirm d0 d img good proper \<Longrightarrow> ota_received g \<le> APP_SIZE \<Longrightarrow>
    \<not> backup_header_empty (mem_slice (ld8 H d) APP_ADDR 4) \<Longrightarrow> run_state (OTA_Flash_Write H lay ver g) d = (w, d') \<Longrightarrow>
    life H lay reset confirm d0 d' (mem_slice (ld8 H d) APP_ADDR APP_SIZE) good
      (proper \<and> boot_state_of (Metadata_Of (ld8 H d)) = B_Confirmed)"
| boot: "life H lay reset confirm d0 d img good proper \<Longrightarrow> run_state (Boot_Metadata_Step H lay qi) d = (x, d') \<Longrightarrow>
    life H lay reset confirm d0 d' img good proper"
| reset: "life H lay reset confirm d0 d img good proper \<Longrightarrow> reset d d' \<Longrightarrow> life H lay reset confirm d0 d' img good proper"
| confirm: "life H lay reset confirm d0 d img good proper \<Longrightarrow> boot_state_of (Metadata_Of (ld8 H d)) = B_Testing \<Longrightarrow>
    \<not> backup_header_empty (mem_slice (ld8 H d) APP_ADDR 4) \<Longrightarrow> confirm d d' \<Longrightarrow> img' = mem_slice (ld8 H d') APP_ADDR APP_SIZE \<Longrightarrow>
    life H lay reset confirm d0 d' img' img' True"

text \<open>The invariant: the image to fall back to is in the slot when the state is confirmed, and in the backup otherwise.\<close>

definition recoverable :: "'d hal \<Rightarrow> ('d \<Rightarrow> nor_view) \<Rightarrow> 'd \<Rightarrow> u8 list \<Rightarrow> bool" where
  "recoverable H nor d img \<longleftrightarrow> length img = APP_SIZE \<and> \<not> backup_header_empty (take 4 img) \<and>
     (case boot_state_of (Metadata_Of (ld8 H d)) of
        B_Empty \<Rightarrow> False
      | B_Confirmed \<Rightarrow> mem_slice (ld8 H d) APP_ADDR APP_SIZE = img
      | _ \<Rightarrow> mem_slice (nv_mem (nor d)) BACKUP_OFFSET APP_SIZE = img)"

lemma image_header: "take 4 (mem_slice m a APP_SIZE) = mem_slice m a 4"
  by (rule take_mem_slice) (simp add: APP_SIZE_def)

context hal_budget
begin

lemma recoverable_update:
  assumes d: "good d" and g: "ota_received g \<le> APP_SIZE" and h: "\<not> backup_header_empty (mem_slice (ld8 H d) APP_ADDR 4)"
    and run: "run_state (OTA_Flash_Write H lay ver g) d = (w, d')"
  shows "good d' \<and> recoverable H nor d' (app_image d)"
  using update_written [OF d g run] h boot_state_of_eq(1) [of "Metadata_Of (ld8 H d')"]
  by (simp add: recoverable_def image_header)

lemma recoverable_header:
  assumes "recoverable H nor d img" "boot_state_of (Metadata_Of (ld8 H d)) \<in> {B_Pending, B_Testing}"
  shows "\<not> backup_header_empty (mem_slice (nv_mem (nor d)) BACKUP_OFFSET 4)"
  using assms image_header [of "nv_mem (nor d)" BACKUP_OFFSET]
  by (auto simp: recoverable_def split: boot_state.splits)

text \<open>A boot from a recoverable state runs the image to fall back to, or the new one on trial with the former in the backup.\<close>

lemma recoverable_boot:
  assumes d: "good d" "recoverable H nor d img" and run: "run_state (Boot_Metadata_Step H lay qi) d = ((r, qi'), d')"
  shows "good d' \<and> recoverable H nor d' img \<and>
    (r = 2 \<and> boot_state_of (Metadata_Of (ld8 H d')) = B_Confirmed \<or> r = 1 \<and> boot_state_of (Metadata_Of (ld8 H d')) = B_Testing)"
proof -
  let ?s = "boot_state_of (Metadata_Of (ld8 H d))"
  have g: "good d'" using wpD [OF Boot_Step_refines [OF d(1)] run] by simp
  consider "?s = B_Pending" | "?s = B_Testing" "iwdg_flag d" | "?s = B_Confirmed \<or> ?s = B_Testing \<and> \<not> iwdg_flag d"
    using d(2) by (cases ?s) (auto simp: recoverable_def)
  then show ?thesis
  proof cases
    case 1
    then have "state (Metadata_Of (ld8 H d)) = STATE_PENDING_UPDATE" by (simp add: boot_state_of_eq)
    from boot_trial [OF d(1) this run] 1 d(2) show ?thesis
      using boot_state_of_eq(2) [of "Metadata_Of (ld8 H d')"] by (auto simp: recoverable_def)
  next
    case 2
    then have "state (Metadata_Of (ld8 H d)) = STATE_TESTING" by (simp add: boot_state_of_eq)
    from boot_rollback [OF d(1) this 2(2) recoverable_header [OF d(2)] run] 2 d(2) g show ?thesis
      by (auto simp: recoverable_def)
  next
    case 3
    from boot_keep [OF d(1) 3 run] 3 d(2) show ?thesis by (auto simp: recoverable_def)
  qed
qed

lemma life_recoverable:
  assumes "life H lay reset confirm d0 d img good_img proper"
    and d0: "good d0" "boot_state_of (Metadata_Of (ld8 H d0)) = B_Confirmed" "\<not> backup_header_empty (mem_slice (ld8 H d0) APP_ADDR 4)"
    and reset: "\<And>a b. good a \<Longrightarrow> reset a b \<Longrightarrow> good b \<and> ld8 H b = ld8 H a \<and> nv_mem (nor b) = nv_mem (nor a)"
    and confirm: "\<And>a b. good a \<Longrightarrow> confirm a b \<Longrightarrow> good b \<and> app_image b = app_image a \<and> boot_state_of (Metadata_Of (ld8 H b)) = B_Confirmed"
  shows "good d \<and> recoverable H nor d img \<and> (proper \<longrightarrow> img = good_img)"
  using assms(1)
proof (induction rule: life.induct)
  case (start img)
  then show ?case using d0 by (simp add: recoverable_def image_header)
next
  case (update d img good_img proper g ver w d')
  then have "boot_state_of (Metadata_Of (ld8 H d)) = B_Confirmed \<Longrightarrow> app_image d = img" by (auto simp: recoverable_def)
  then show ?case using update recoverable_update [of d g lay ver w d'] by auto
next
  case (boot d img good_img proper qi x d')
  then show ?case using recoverable_boot [of d img lay qi] by (metis prod.exhaust)
next
  case (reset d img good_img proper d')
  then show ?case using assms(5) [of d d'] by (simp add: recoverable_def split: boot_state.splits)
next
  case (confirm d img good_img proper d' img')
  then have "app_image d' = app_image d" "boot_state_of (Metadata_Of (ld8 H d')) = B_Confirmed" "good d'" using assms(6) by auto
  moreover have "mem_slice (ld8 H d') APP_ADDR 4 = mem_slice (ld8 H d) APP_ADDR 4"
    by (rule mem_slice_prefix [OF calculation(1)]) (simp add: APP_SIZE_def)
  ultimately show ?case using confirm by (simp add: recoverable_def image_header)
qed

end

end
