(* ===== verification/Version_Check.thy ===== *)
theory Version_Check
  imports Metadata Ota_Receive
begin

text \<open>
  \<^verbatim>\<open>src/STM32/Bootloader/User/version_check/version_check.c\<close>: the TCP client that asks the server on
  port 8001 for a newer firmware and parses its answer \<^verbatim>\<open>RESP|version|length|crc\<close>. The globals of the
  file are one record; strings are lists of bytes, and a read or write outside an array is the value
  \<open>None\<close>. The C library functions the parser uses (\<^verbatim>\<open>strtok\<close>, \<^verbatim>\<open>strtoul\<close>, \<^verbatim>\<open>strncpy\<close>) are
  modelled as the language standard describes them, with a 32-bit \<^verbatim>\<open>unsigned long\<close>.
\<close>

section \<open>C strings\<close>

definition ascii :: "string \<Rightarrow> u8 list" where
  "ascii s = map of_char s"

text \<open>The string that starts at position \<open>p\<close> of an array.\<close>

definition cstr :: "u8 list \<Rightarrow> nat \<Rightarrow> u8 list" where
  "cstr buf p = takeWhile (\<lambda>c. c \<noteq> 0) (drop p buf)"

text \<open>
  One call of \<^verbatim>\<open>strtok\<close> with delimiter \<^verbatim>\<open>|\<close> that goes on from position \<open>p\<close>: the token's position, the
  array with the terminator stored, and where the next call goes on. Without a terminating zero it
  runs off the array.
\<close>

definition strtok :: "u8 list \<Rightarrow> nat \<Rightarrow> (nat option \<times> u8 list \<times> nat) option" where
  "strtok buf p =
     (let p0 = p + length (takeWhile (\<lambda>c. c = 0x7C) (drop p buf));
          e = p0 + length (takeWhile (\<lambda>c. c \<noteq> 0 \<and> c \<noteq> 0x7C) (drop p0 buf))
      in if length buf \<le> p0 \<or> length buf \<le> e then None
         else if buf ! p0 = 0 then Some (None, buf, p0)
         else if buf ! e = 0 then Some (Some p0, buf, e)
         else Some (Some p0, buf[e := 0], Suc e))"

text \<open>\<^verbatim>\<open>strncpy(dst, src, n)\<close>: copies up to \<open>n\<close> characters and pads with zeros.\<close>

definition strncpy :: "u8 list \<Rightarrow> u8 list \<Rightarrow> nat \<Rightarrow> u8 list" where
  "strncpy dst src n = array_write dst 0 (take n src @ replicate (n - length src) 0)"

definition digit_val :: "u8 \<Rightarrow> nat option" where
  "digit_val c =
     (if 0x30 \<le> c \<and> c \<le> 0x39 then Some (unat c - 0x30)
      else if 0x41 \<le> c \<and> c \<le> 0x5A then Some (unat c - 0x41 + 10)
      else if 0x61 \<le> c \<and> c \<le> 0x7A then Some (unat c - 0x61 + 10)
      else None)"

fun strtoul_digits :: "nat \<Rightarrow> nat \<Rightarrow> u8 list \<Rightarrow> nat" where
  "strtoul_digits base acc [] = acc"
| "strtoul_digits base acc (c # cs) =
     (case digit_val c of None \<Rightarrow> acc
      | Some d \<Rightarrow> if d < base then strtoul_digits base (acc * base + d) cs else acc)"

definition strtoul :: "u8 list \<Rightarrow> nat \<Rightarrow> u32" where
  "strtoul s base =
     (let s = dropWhile (\<lambda>c. c = 0x20 \<or> 0x09 \<le> c \<and> c \<le> 0x0D) s;
          neg = (s \<noteq> [] \<and> hd s = 0x2D);
          s = (if s \<noteq> [] \<and> (hd s = 0x2D \<or> hd s = 0x2B) then tl s else s);
          s = (if base = 16 \<and> 2 \<le> length s \<and> s ! 0 = 0x30 \<and> (s ! 1 = 0x78 \<or> s ! 1 = 0x58) then drop 2 s else s);
          n = strtoul_digits base 0 s
      in if 4294967295 < n then 0xFFFFFFFF else if neg then - of_nat n else of_nat n)"

section \<open>State\<close>

definition VCHECK_PORT :: nat where "VCHECK_PORT = 8001"

record vcheck =
  v_pcb :: "pcb option"
  v_done :: bool
  v_ok :: bool
  v_connected :: bool
  v_resp :: "u8 list"
  v_resp_len :: nat
  v_version :: "u8 list"
  v_length :: u32
  v_crc :: u32
  v_lw :: "lwip_call list"

definition vcheck_init :: vcheck where
  "vcheck_init = \<lparr>v_pcb = None, v_done = False, v_ok = False, v_connected = False, v_resp = replicate 128 0,
     v_resp_len = 0, v_version = replicate 16 0, v_length = 0, v_crc = 0, v_lw = []\<rparr>"

definition v_do :: "lwip_call \<Rightarrow> vcheck \<Rightarrow> vcheck" where
  "v_do c s = s\<lparr>v_lw := v_lw s @ [c]\<rparr>"

section \<open>Operations\<close>

definition Version_Check_Start :: "lwip_env \<Rightarrow> vcheck \<Rightarrow> vcheck" where
  "Version_Check_Start L s =
     (if v_pcb s \<noteq> None then s
      else
        let s = s\<lparr>v_done := False, v_ok := False, v_connected := False, v_resp_len := 0, v_resp := replicate 128 0\<rparr>;
            s = v_do Tcp_new (s\<lparr>v_pcb := tcp_new_res L\<rparr>)
        in case tcp_new_res L of
             None \<Rightarrow> s\<lparr>v_done := True\<rparr>
           | Some pcb \<Rightarrow>
               let s = v_do (Tcp_connect pcb VCHECK_PORT) s
               in if tcp_connect_res L \<noteq> ERR_OK then (v_do (Tcp_close pcb) s)\<lparr>v_pcb := None, v_done := True\<rparr> else s)"

definition Version_Check_IsDone :: "vcheck \<Rightarrow> bool" where
  "Version_Check_IsDone s = v_done s"

definition Version_Check_IsOK :: "vcheck \<Rightarrow> bool" where
  "Version_Check_IsOK s = v_ok s"

definition Version_Check_IsConnected :: "vcheck \<Rightarrow> bool" where
  "Version_Check_IsConnected s = v_connected s"

definition v_connect_cb :: "pcb \<Rightarrow> err_t \<Rightarrow> vcheck \<Rightarrow> err_t \<times> vcheck" where
  "v_connect_cb pcb err s =
     (if err \<noteq> ERR_OK then (ERR_OK, s\<lparr>v_done := True\<rparr>)
      else (ERR_OK, v_do (Tcp_output pcb) (v_do (Tcp_write pcb (''VERSION|0.1.0'' @ [CHR 0x0D, CHR 0x0A]))
              (v_do (Tcp_err (Some pcb)) (v_do (Tcp_recv (Some pcb)) s)))))"

text \<open>The loop that appends the pbufs to \<^verbatim>\<open>v_resp\<close>, clipping at 127 bytes.\<close>

fun v_recv_pbufs :: "u8 list list \<Rightarrow> vcheck \<Rightarrow> vcheck option" where
  "v_recv_pbufs [] s = Some s"
| "v_recv_pbufs (q # qs) s =
     (let clen = (if 128 - 1 < wrap32 (v_resp_len s + length q) then wrap32 (128 - 1 + 4294967296 - v_resp_len s) else length q)
      in if length q < clen \<or> 128 < v_resp_len s + clen then None
         else v_recv_pbufs qs (s\<lparr>v_resp := array_write (v_resp s) (v_resp_len s) (take clen q),
                                 v_resp_len := wrap32 (v_resp_len s + clen)\<rparr>))"

text \<open>The parser: \<^verbatim>\<open>RESP\<close>, version, length, checksum. Missing tokens leave the old values.\<close>

definition v_parse :: "vcheck \<Rightarrow> vcheck option" where
  "v_parse s =
     (case strtok (v_resp s) 0 of None \<Rightarrow> None | Some (tok, buf, p) \<Rightarrow>
      case strtok buf p of None \<Rightarrow> None | Some (tok, buf, p) \<Rightarrow>
      let s = (case tok of None \<Rightarrow> s | Some t \<Rightarrow> s\<lparr>v_version := (strncpy (v_version s) (cstr buf t) 15)[15 := 0]\<rparr>) in
      case strtok buf p of None \<Rightarrow> None | Some (tok, buf, p) \<Rightarrow>
      let s = (case tok of None \<Rightarrow> s | Some t \<Rightarrow> s\<lparr>v_length := strtoul (cstr buf t) 10\<rparr>) in
      case strtok buf p of None \<Rightarrow> None | Some (tok, buf, p) \<Rightarrow>
      let s = (case tok of None \<Rightarrow> s | Some t \<Rightarrow> s\<lparr>v_crc := strtoul (cstr buf t) 16\<rparr>)
      in Some (s\<lparr>v_resp := buf, v_ok := True\<rparr>))"

definition v_recv_cb :: "pcb \<Rightarrow> u8 list list option \<Rightarrow> vcheck \<Rightarrow> (err_t \<times> vcheck) option" where
  "v_recv_cb pcb p s =
     (case p of
        None \<Rightarrow> Some (ERR_OK, s\<lparr>v_done := True\<rparr>)
      | Some chain \<Rightarrow>
          (case v_recv_pbufs chain s of None \<Rightarrow> None
           | Some s \<Rightarrow>
               if length (v_resp s) \<le> v_resp_len s then None
               else
                 let s = s\<lparr>v_resp := (v_resp s)[v_resp_len s := 0]\<rparr>;
                     s = v_do Pbuf_free (v_do (Tcp_recved pcb (sum_list (map length chain))) s)
                 in if 0 < v_resp_len s \<and> v_resp s ! (v_resp_len s - 1) = 0x0A then
                      (case (if take 5 (v_resp s) = ascii ''RESP|'' then v_parse (s\<lparr>v_connected := True\<rparr>)
                             else Some (s\<lparr>v_connected := True, v_ok := False\<rparr>)) of
                         None \<Rightarrow> None
                       | Some s \<Rightarrow> Some (ERR_OK, (v_do (Tcp_close pcb) s)\<lparr>v_pcb := None, v_done := True\<rparr>))
                    else Some (ERR_OK, s)))"

definition v_err_cb :: "vcheck \<Rightarrow> vcheck" where
  "v_err_cb s = s\<lparr>v_pcb := None, v_done := True, v_ok := False\<rparr>"

definition Version_Check_Get :: "vcheck \<Rightarrow> u8 list \<times> u32 \<times> u32" where
  "Version_Check_Get s =
     (if v_version s ! 0 \<noteq> 0 then cstr (v_version s) 0 else ascii ''0.0.0'', v_length s, v_crc s)"

section \<open>Memory safety\<close>

definition vc_wf :: "vcheck \<Rightarrow> bool" where
  "vc_wf s \<longleftrightarrow> length (v_resp s) = 128 \<and> v_resp_len s \<le> 127 \<and> length (v_version s) = 16 \<and> v_version s ! 15 = 0"

lemma takeWhile_dropped_bound:
  assumes "p \<le> z" "z < length buf" "\<not> P (buf ! z)"
  shows "p + length (takeWhile P (drop p buf)) \<le> z"
proof (rule ccontr)
  assume "\<not> ?thesis"
  then have *: "z - p < length (takeWhile P (drop p buf))" using assms(1) by linarith
  have "takeWhile P (drop p buf) ! (z - p) = buf ! z"
    using takeWhile_nth [OF *] assms(1,2) by simp
  with set_takeWhileD nth_mem [OF *] assms(3) show False by metis
qed

text \<open>While there is a terminator at or behind the position, \<^verbatim>\<open>strtok\<close> stays inside and keeps it.\<close>

lemma strtok_safe:
  assumes "p \<le> z" "z < length buf" "buf ! z = 0"
  shows "\<exists>tok buf' p'. strtok buf p = Some (tok, buf', p') \<and> p' \<le> z \<and> length buf' = length buf \<and> buf' ! z = 0"
proof -
  define p0 where "p0 = p + length (takeWhile (\<lambda>c. c = 0x7C) (drop p buf))"
  define e where "e = p0 + length (takeWhile (\<lambda>c. c \<noteq> 0 \<and> c \<noteq> 0x7C) (drop p0 buf))"
  have p0: "p0 \<le> z" unfolding p0_def by (rule takeWhile_dropped_bound [OF assms(1,2)]) (simp add: assms(3))
  have e: "e \<le> z" unfolding e_def by (rule takeWhile_dropped_bound [OF p0 assms(2)]) (simp add: assms(3))
  have "buf ! e = 0 \<or> e < z" using e assms(3) by (cases "e = z") auto
  then show ?thesis
    using assms p0 e unfolding strtok_def Let_def p0_def [symmetric] e_def [symmetric]
    by (auto simp: nth_list_update)
qed

lemma v_recv_pbufs_wf:
  "vc_wf s \<Longrightarrow> pbufs_ok qs \<Longrightarrow> \<exists>s'. v_recv_pbufs qs s = Some s' \<and> vc_wf s' \<and> v_lw s' = v_lw s"
proof (induction qs arbitrary: s)
  case (Cons q qs)
  have n: "v_resp_len s \<le> 127" "length q < 65536" "length (v_resp s) = 128"
    using Cons.prems by (auto simp: vc_wf_def pbufs_ok_def)
  define clen where "clen = (if 127 < v_resp_len s + length q then 127 - v_resp_len s else length q)"
  have c: "(if 128 - 1 < wrap32 (v_resp_len s + length q) then wrap32 (128 - 1 + 4294967296 - v_resp_len s) else length q) = clen"
    using n by (auto simp: clen_def wrap32_def mod_if)
  have "clen \<le> length q" "v_resp_len s + clen \<le> 127" using n by (auto simp: clen_def)
  then show ?case
    using Cons.IH [of "s\<lparr>v_resp := array_write (v_resp s) (v_resp_len s) (take clen q), v_resp_len := v_resp_len s + clen\<rparr>"]
      Cons.prems n by (simp only: v_recv_pbufs.simps c Let_def) (auto simp: vc_wf_def pbufs_ok_def)
qed simp

lemma strncpy_version: "length v = 16 \<Longrightarrow> length ((strncpy v s 15)[15 := 0]) = 16 \<and> (strncpy v s 15)[15 := 0] ! 15 = 0"
  by (simp add: strncpy_def min_def)

lemma v_parse_wf:
  assumes "vc_wf s" "z \<le> 127" "v_resp s ! z = 0"
  shows "\<exists>s'. v_parse s = Some s' \<and> vc_wf s' \<and> v_lw s' = v_lw s"
proof -
  have l: "length (v_resp s) = 128" using assms(1) by (simp add: vc_wf_def)
  obtain t1 b1 p1 where 1: "strtok (v_resp s) 0 = Some (t1, b1, p1)" "p1 \<le> z" "length b1 = 128" "b1 ! z = 0"
    using strtok_safe [of 0 z "v_resp s"] assms l by auto
  obtain t2 b2 p2 where 2: "strtok b1 p1 = Some (t2, b2, p2)" "p2 \<le> z" "length b2 = 128" "b2 ! z = 0"
    using strtok_safe [of p1 z b1] assms 1 by auto
  obtain t3 b3 p3 where 3: "strtok b2 p2 = Some (t3, b3, p3)" "p3 \<le> z" "length b3 = 128" "b3 ! z = 0"
    using strtok_safe [of p2 z b2] assms 2 by auto
  obtain t4 b4 p4 where 4: "strtok b3 p3 = Some (t4, b4, p4)" "length b4 = 128"
    using strtok_safe [of p3 z b3] assms 3 by auto
  show ?thesis
    using assms(1) strncpy_version
    by (auto simp: v_parse_def 1(1) 2(1) 3(1) 4 vc_wf_def Let_def split: option.splits)
qed

lemma v_recv_cb_wf:
  assumes "vc_wf s" "pbufs_ok chain"
  shows "\<exists>s'. v_recv_cb pcb (Some chain) s = Some (ERR_OK, s') \<and> vc_wf s' \<and>
     (\<exists>rest. v_lw s' = v_lw s @ [Tcp_recved pcb (sum_list (map length chain)), Pbuf_free] @ rest \<and> rest \<in> {[], [Tcp_close pcb]})"
proof -
  obtain s1 where s1: "v_recv_pbufs chain s = Some s1" "vc_wf s1" "v_lw s1 = v_lw s"
    using v_recv_pbufs_wf [OF assms] by blast
  define s2 where "s2 = v_do Pbuf_free (v_do (Tcp_recved pcb (sum_list (map length chain)))
    (s1\<lparr>v_resp := (v_resp s1)[v_resp_len s1 := 0]\<rparr>))"
  have s2: "vc_wf s2" "v_resp s2 ! v_resp_len s2 = 0" "v_resp_len s2 \<le> 127"
    "v_lw s2 = v_lw s @ [Tcp_recved pcb (sum_list (map length chain)), Pbuf_free]"
    using s1 by (auto simp: s2_def v_do_def vc_wf_def)
  obtain s3 where s3: "v_parse (s2\<lparr>v_connected := True\<rparr>) = Some s3" "vc_wf s3" "v_lw s3 = v_lw s2"
    using v_parse_wf [of "s2\<lparr>v_connected := True\<rparr>" "v_resp_len s2"] s2 by (auto simp: vc_wf_def)
  have "\<not> length (v_resp s1) \<le> v_resp_len s1" using s1(2) by (simp add: vc_wf_def)
  then show ?thesis
    using s2 s3 unfolding v_recv_cb_def option.case s1(1) Let_def s2_def [symmetric]
    by (auto simp: v_do_def vc_wf_def)
qed

section \<open>The answer of the server is understood\<close>

text \<open>
  The fields of an answer: a version, a decimal length and a hexadecimal checksum, in either case and with
  any number of leading zeros, after \<^verbatim>\<open>0x\<close> or nothing. \<^verbatim>\<open>RESP|1.6.3|7816|0x7A9EF17D\<close> is the answer on the
  screenshot \<^verbatim>\<open>src/STM32/UpdateFirmwareAndRollback_1.png\<close>.
\<close>

definition is_digit :: "nat \<Rightarrow> u8 \<Rightarrow> bool" where
  "is_digit base c \<longleftrightarrow> (case digit_val c of None \<Rightarrow> False | Some d \<Rightarrow> d < base)"

definition number_of :: "nat \<Rightarrow> u8 list \<Rightarrow> nat" where
  "number_of base cs = foldl (\<lambda>n c. n * base + the (digit_val c)) 0 cs"

definition number_field :: "nat \<Rightarrow> u8 list \<Rightarrow> bool" where
  "number_field base cs \<longleftrightarrow> cs \<noteq> [] \<and> list_all (is_digit base) cs \<and> number_of base cs < 4294967296"

definition v_reply :: "u8 list \<Rightarrow> u8 list \<Rightarrow> u8 list \<Rightarrow> u8 list \<Rightarrow> u8 list" where
  "v_reply ver len pre crc = ascii ''RESP'' @ [0x7C] @ ver @ [0x7C] @ len @ [0x7C] @ pre @ crc @ [0x0A]"

lemma digit_range:
  assumes "is_digit base c" "base \<le> 16"
  shows "48 \<le> unat c \<and> unat c \<le> 57 \<or> 65 \<le> unat c \<and> unat c \<le> 70 \<or> 97 \<le> unat c \<and> unat c \<le> 102"
  using assms by (auto simp: is_digit_def digit_val_def word_le_nat_alt split: if_splits)

lemma digit_not:
  assumes "is_digit base c" "base \<le> 16"
  shows "c \<noteq> 0 \<and> c \<noteq> 0x7C \<and> c \<noteq> 0x0A \<and> c \<noteq> 0x78 \<and> c \<noteq> 0x58 \<and> c \<noteq> 0x2D \<and> c \<noteq> 0x2B \<and>
    \<not> (c = 0x20 \<or> 0x09 \<le> c \<and> c \<le> 0x0D)"
  using digit_range [OF assms] by (auto simp: word_le_nat_alt)

lemma strtoul_digits_field:
  assumes "list_all (is_digit base) cs" "r = [] \<or> hd r = 0x0A"
  shows "strtoul_digits base acc (cs @ r) = foldl (\<lambda>n c. n * base + the (digit_val c)) acc cs"
  using assms(1)
proof (induction cs arbitrary: acc)
  case Nil
  then show ?case using assms(2) by (cases r) (auto simp: digit_val_def)
qed (auto simp: is_digit_def split: option.splits)

lemma strtoul_field:
  assumes b: "base = 10 \<or> base = 16" and f: "number_field base cs" and r: "r = [] \<or> hd r = 0x0A"
    and pre: "pre = [] \<or> base = 16 \<and> pre = [0x30, 0x78]"
  shows "strtoul (pre @ cs @ r) base = of_nat (number_of base cs)"
proof -
  obtain c ds where cs: "cs = c # ds" using f by (cases cs) (auto simp: number_field_def)
  have d: "list_all (is_digit base) cs" "is_digit base c" "\<not> 4294967295 < number_of base cs"
    using f cs by (auto simp: number_field_def)
  have b16: "base \<le> 16" using b by auto
  note c = digit_not [OF d(2) b16]
  have n: "strtoul_digits base 0 (cs @ r) = number_of base cs"
    using strtoul_digits_field [OF d(1) r] by (simp add: number_of_def)
  have x: "\<not> (cs @ r) ! 1 = 0x78 \<and> \<not> (cs @ r) ! 1 = 0x58" if "2 \<le> length (cs @ r)"
  proof (cases ds)
    case Nil
    with that cs r show ?thesis by (cases r) auto
  next
    case (Cons y ys)
    then have "is_digit base y" using d(1) cs by simp
    from digit_not [OF this b16] show ?thesis using cs Cons by simp
  qed
  have ws: "dropWhile (\<lambda>c. c = 0x20 \<or> 0x09 \<le> c \<and> c \<le> 0x0D) (pre @ cs @ r) = pre @ cs @ r"
    using pre c cs by auto
  have sg: "hd (pre @ cs @ r) \<noteq> 0x2D" "hd (pre @ cs @ r) \<noteq> 0x2B" "pre @ cs @ r \<noteq> []" using pre c cs by auto
  have px: "(if base = 16 \<and> 2 \<le> length (pre @ cs @ r) \<and> (pre @ cs @ r) ! 0 = 0x30 \<and>
      ((pre @ cs @ r) ! 1 = 0x78 \<or> (pre @ cs @ r) ! 1 = 0x58) then drop 2 (pre @ cs @ r) else pre @ cs @ r) = cs @ r"
    using pre x by auto
  show ?thesis
    unfolding strtoul_def Let_def ws by (simp only: sg simp_thms if_False px n d(3))
qed

text \<open>One token and its delimiter.\<close>

lemma takeWhile_token: "\<forall>c \<in> set tok. P c \<Longrightarrow> \<not> P d \<Longrightarrow> takeWhile P (tok @ d # r) = tok"
  by (simp add: takeWhile_append)

lemma strtok_token:
  assumes "drop p buf = tok @ d # r" "tok \<noteq> []" "\<forall>c \<in> set tok. c \<noteq> 0 \<and> c \<noteq> 0x7C" "d = 0 \<or> d = 0x7C"
  shows "\<exists>buf'. strtok buf p = Some (Some p, buf', if d = 0 then p + length tok else p + length tok + 1) \<and>
     cstr buf' p = tok \<and> drop (p + length tok + 1) buf' = r"
proof -
  obtain t ts where t: "tok = t # ts" using assms(2) by (cases tok) auto
  have len: "p + length tok < length buf" using assms(1) by (metis length_append length_drop length_Cons
      add_Suc_right less_add_Suc1 less_diff_conv add.commute)
  have nth: "buf ! (p + i) = (tok @ d # r) ! i" if "p + i < length buf" for i
    using that assms(1) by (metis nth_drop less_imp_le add_leD1)
  have p: "takeWhile (\<lambda>c. c = 0x7C) (drop p buf) = []" using assms(1,3) t by simp
  have e: "takeWhile (\<lambda>c. c \<noteq> 0 \<and> c \<noteq> 0x7C) (drop p buf) = tok"
    unfolding assms(1) using assms(3,4) by (intro takeWhile_token) auto
  have b: "buf ! p = t" "buf ! (p + length tok) = d"
    using nth [of 0] nth [of "length tok"] len t by (simp_all add: nth_append)
  have tk: "t \<noteq> 0" using assms(3) t by simp
  define buf' where "buf' = (if d = 0 then buf else buf[p + length tok := 0])"
  have d': "drop p buf' = tok @ 0 # r"
    using assms(1) len by (auto simp: buf'_def drop_update_swap list_update_append)
  have "strtok buf p = Some (Some p, buf', if d = 0 then p + length tok else p + length tok + 1)"
    using assms(4) len b tk by (auto simp: strtok_def Let_def p e buf'_def)
  moreover have "cstr buf' p = tok" unfolding cstr_def d' using assms(3) by (intro takeWhile_token) auto
  moreover have "drop (p + length tok + 1) buf' = r"
    using arg_cong [OF d', of "drop (length tok + 1)"] by (simp add: add.commute add.left_commute)
  ultimately show ?thesis by blast
qed

lemma v_parse_reply:
  assumes "v_resp s = v_reply ver len pre crc @ 0 # r" "length (v_version s) = 16"
    and ver: "ver \<noteq> []" "length ver \<le> 15" "\<forall>c \<in> set ver. c \<noteq> 0 \<and> c \<noteq> 0x7C"
    and n: "number_field 10 len" "number_field 16 crc" "pre = [] \<or> pre = [0x30, 0x78]"
  shows "\<exists>s'. v_parse s = Some s' \<and> v_ok s' \<and> cstr (v_version s') 0 = ver \<and> v_version s' ! 0 = hd ver \<and>
     v_length s' = of_nat (number_of 10 len) \<and> v_crc s' = of_nat (number_of 16 crc)"
proof -
  define hx where "hx = pre @ crc @ [0x0A]"
  have dig: "\<forall>c \<in> set len. c \<noteq> 0 \<and> c \<noteq> 0x7C" "\<forall>c \<in> set hx. c \<noteq> 0 \<and> c \<noteq> 0x7C" "len \<noteq> []" "hx \<noteq> []"
    using n digit_not [of 10] digit_not [of 16] by (auto simp: number_field_def list_all_iff hx_def)
  have resp: "\<forall>c \<in> set (ascii ''RESP''). c \<noteq> 0 \<and> c \<noteq> 0x7C" "ascii ''RESP'' \<noteq> []" "length (ascii ''RESP'') = 4"
    by (simp_all add: ascii_def of_char_def)
  obtain b1 where 1: "strtok (v_resp s) 0 = Some (Some 0, b1, 5)"
    "drop 5 b1 = ver @ 0x7C # len @ [0x7C] @ hx @ 0 # r"
    using strtok_token [of 0 "v_resp s" "ascii ''RESP''" "0x7C" "ver @ 0x7C # len @ [0x7C] @ hx @ 0 # r"] resp assms(1)
    by (auto simp: v_reply_def hx_def)
  obtain b2 where 2: "strtok b1 5 = Some (Some 5, b2, 5 + length ver + 1)" "cstr b2 5 = ver"
    "drop (5 + length ver + 1) b2 = len @ 0x7C # hx @ 0 # r"
    using strtok_token [of 5 b1 ver "0x7C" "len @ 0x7C # hx @ 0 # r"] 1 ver by auto
  define p2 where "p2 = 5 + length ver + 1"
  define p3 where "p3 = p2 + length len + 1"
  obtain b3 where 3: "strtok b2 p2 = Some (Some p2, b3, p3)" "cstr b3 p2 = len" "drop p3 b3 = hx @ 0 # r"
    using strtok_token [of p2 b2 len "0x7C" "hx @ 0 # r"] 2(3) dig by (auto simp: p2_def p3_def)
  obtain b4 p4 where 4: "strtok b3 p3 = Some (Some p3, b4, p4)" "cstr b4 p3 = hx"
    using strtok_token [of p3 b3 hx 0 r] 3(3) dig by auto
  define v where "v = (strncpy (v_version s) ver 15)[15 := 0]"
  have v: "v = ver @ replicate (16 - length ver) 0"
    unfolding v_def using assms(2) ver(2)
    by (auto simp: strncpy_def array_write_def list_update_append min_def nth_append nth_list_update intro!: nth_equalityI)
  obtain k where k: "16 - length ver = Suc k" using ver(2) by (cases "16 - length ver") simp_all
  have "cstr v 0 = ver" unfolding cstr_def v k using ver(3) takeWhile_token [of ver "\<lambda>c. c \<noteq> 0" 0] by simp
  moreover have "v ! 0 = hd ver" using v ver(1) by (cases ver) auto
  moreover have "strtoul len 10 = of_nat (number_of 10 len)" "strtoul hx 16 = of_nat (number_of 16 crc)"
    using strtoul_field [of 10 len "[]" "[]"] strtoul_field [of 16 crc "[0x0A]" pre] n by (simp_all add: hx_def)
  ultimately show ?thesis
    using 1(1) 2(1,2) 3(1,2) 4 by (simp add: v_parse_def Let_def p2_def v_def)
qed

text \<open>The buffer after the bytes \<open>bs\<close> have arrived, and the callbacks that deliver them.\<close>

definition vc_repr :: "u8 list \<Rightarrow> vcheck \<Rightarrow> bool" where
  "vc_repr bs s \<longleftrightarrow> length bs \<le> 127 \<and> v_resp s = bs @ replicate (128 - length bs) 0 \<and> v_resp_len s = length bs \<and>
     length (v_version s) = 16"

fun v_recv_all :: "pcb \<Rightarrow> u8 list list list \<Rightarrow> vcheck \<Rightarrow> vcheck option" where
  "v_recv_all pcb [] s = Some s"
| "v_recv_all pcb (c # cs) s =
     (case v_recv_cb pcb (Some c) s of None \<Rightarrow> None | Some (e, s') \<Rightarrow> v_recv_all pcb cs s')"

lemma v_recv_pbufs_repr:
  "vc_repr bs s \<Longrightarrow> length (bs @ concat qs) \<le> 127 \<Longrightarrow> \<exists>s'. v_recv_pbufs qs s = Some s' \<and> vc_repr (bs @ concat qs) s'"
proof (induction qs arbitrary: bs s)
  case (Cons q qs)
  have r: "v_resp s = bs @ replicate (128 - length bs) 0" "v_resp_len s = length bs" using Cons.prems by (simp_all add: vc_repr_def)
  have n: "length bs + length q \<le> 127" using Cons.prems(2) by simp
  have c: "(if 128 - 1 < wrap32 (v_resp_len s + length q) then wrap32 (128 - 1 + 4294967296 - v_resp_len s) else length q) = length q"
    using n r(2) by simp
  have "vc_repr (bs @ q) (s\<lparr>v_resp := array_write (v_resp s) (v_resp_len s) q, v_resp_len := length bs + length q\<rparr>)"
    using n Cons.prems(1) by (simp add: vc_repr_def array_write_def)
  from Cons.IH [OF this] Cons.prems(2) n r(2) show ?case
    by (simp only: v_recv_pbufs.simps c Let_def) simp
qed simp

lemma v_recv_cb_repr:
  assumes "vc_repr bs s" "length (bs @ concat c) \<le> 127" "concat c \<noteq> []" "last (concat c) \<noteq> 0x0A"
  shows "\<exists>s'. v_recv_cb pcb (Some c) s = Some (ERR_OK, s') \<and> vc_repr (bs @ concat c) s'"
proof -
  let ?b = "bs @ concat c"
  obtain s1 where s1: "v_recv_pbufs c s = Some s1" "vc_repr ?b s1"
    using v_recv_pbufs_repr [OF assms(1,2)] by blast
  have r: "v_resp s1 = ?b @ replicate (128 - length ?b) 0" "v_resp_len s1 = length ?b" "length ?b \<le> 127"
    using s1 by (simp_all add: vc_repr_def)
  have z: "(v_resp s1)[length ?b := 0] = v_resp s1"
    unfolding r(1) by (rule nth_equalityI) (auto simp: nth_list_update nth_append)
  have "?b ! (length ?b - 1) = last (concat c)" using assms(3) by (metis Nil_is_append_conv last_append last_conv_nth)
  then have "v_resp s1 ! (length ?b - 1) \<noteq> 0x0A" using assms(3,4) unfolding r(1)
    by (subst nth_append) (auto simp: last_conv_nth)
  then show ?thesis using s1 z r by (auto simp: v_recv_cb_def Let_def v_do_def vc_repr_def)
qed

lemma v_recv_cb_reply:
  assumes "vc_repr bs s" "bs @ concat c = v_reply ver len pre crc" "length (v_reply ver len pre crc) \<le> 127"
    and "ver \<noteq> []" "length ver \<le> 15" "\<forall>x \<in> set ver. x \<noteq> 0 \<and> x \<noteq> 0x7C"
      "number_field 10 len" "number_field 16 crc" "pre = [] \<or> pre = [0x30, 0x78]"
  shows "\<exists>s'. v_recv_cb pcb (Some c) s = Some (ERR_OK, s') \<and> v_done s' \<and> v_ok s' \<and> v_pcb s' = None \<and>
     Version_Check_Get s' = (ver, of_nat (number_of 10 len), of_nat (number_of 16 crc))"
proof -
  let ?b = "v_reply ver len pre crc"
  obtain s1 where s1: "v_recv_pbufs c s = Some s1" "vc_repr ?b s1"
    using v_recv_pbufs_repr [OF assms(1), of c] assms(2,3) by auto
  have r: "v_resp s1 = ?b @ replicate (128 - length ?b) 0" "v_resp_len s1 = length ?b" "length (v_version s1) = 16"
    using s1 by (simp_all add: vc_repr_def)
  obtain k where k: "128 - length ?b = Suc k" using assms(3) by (cases "128 - length ?b") simp_all
  have z: "(v_resp s1)[length ?b := 0] = v_resp s1"
    unfolding r(1) by (rule nth_equalityI) (auto simp: nth_list_update nth_append)
  define s2 where "s2 = v_do Pbuf_free (v_do (Tcp_recved pcb (sum_list (map length c)))
    (s1\<lparr>v_resp := (v_resp s1)[v_resp_len s1 := 0]\<rparr>))"
  have s2: "v_resp s2 = ?b @ 0 # replicate k 0" "v_resp_len s2 = length ?b" "length (v_version s2) = 16"
    using r z k by (simp_all add: s2_def v_do_def)
  obtain s3 where s3: "v_parse (s2\<lparr>v_connected := True\<rparr>) = Some s3" "v_ok s3" "cstr (v_version s3) 0 = ver"
      "v_version s3 ! 0 = hd ver" "v_length s3 = of_nat (number_of 10 len)" "v_crc s3 = of_nat (number_of 16 crc)"
    using v_parse_reply [of "s2\<lparr>v_connected := True\<rparr>" ver len pre crc "replicate k 0"] s2 assms(4-) by auto
  have "take 5 (v_resp s2) = ascii ''RESP|''" by (simp add: s2 v_reply_def ascii_def of_char_def)
  moreover have "v_resp s2 ! (length ?b - 1) = 0x0A" "0 < length ?b" by (simp_all add: s2 v_reply_def nth_append)
  moreover have "\<not> length (v_resp s1) \<le> v_resp_len s1" using r assms(3) by simp
  moreover have "hd ver \<noteq> 0" using assms(4,6) by (cases ver) auto
  ultimately show ?thesis
    using s3 s2(2) unfolding v_recv_cb_def option.case s1(1) Let_def s2_def [symmetric]
    by (simp add: v_do_def Version_Check_Get_def)
qed

lemma reply_last: "bs @ b = v_reply ver len pre crc \<Longrightarrow> b \<noteq> [] \<Longrightarrow> last b = 0x0A"
  by (metis v_reply_def append_assoc last_appendR last_snoc)

lemma reply_butlast:
  assumes "a @ b = v_reply ver len pre crc" "b \<noteq> []" "x \<in> set a" "0x0A \<notin> set ver"
    and n: "number_field 10 len" "number_field 16 crc" "pre = [] \<or> pre = [0x30, 0x78]"
  shows "x \<noteq> 0x0A"
proof -
  have "a @ butlast b = butlast (v_reply ver len pre crc)" using assms(1,2) by (metis butlast_append)
  then have "x \<in> set (butlast (v_reply ver len pre crc))" using assms(3) by (metis Un_iff set_append)
  then have x: "x \<in> set (ascii ''RESP'' @ [0x7C] @ ver @ [0x7C] @ len @ [0x7C] @ pre @ crc)"
    by (simp add: v_reply_def butlast_append)
  have "0x0A \<notin> set len" "0x0A \<notin> set crc"
    using n digit_not [of 10] digit_not [of 16] by (auto simp: number_field_def list_all_iff)
  with x n(3) assms(4) show ?thesis by (auto simp: ascii_def of_char_def)
qed

lemma v_recv_all_reply:
  assumes ok: "length (v_reply ver len pre crc) \<le> 127"
    "ver \<noteq> []" "length ver \<le> 15" "\<forall>x \<in> set ver. x \<noteq> 0 \<and> x \<noteq> 0x7C \<and> x \<noteq> 0x0A"
    "number_field 10 len" "number_field 16 crc" "pre = [] \<or> pre = [0x30, 0x78]"
  shows "vc_repr bs s \<Longrightarrow> bs @ concat (concat cs) = v_reply ver len pre crc \<Longrightarrow> cs \<noteq> [] \<Longrightarrow> \<forall>c \<in> set cs. concat c \<noteq> [] \<Longrightarrow>
    \<exists>s'. v_recv_all pcb cs s = Some s' \<and> v_done s' \<and> v_ok s' \<and> v_pcb s' = None \<and>
      Version_Check_Get s' = (ver, of_nat (number_of 10 len), of_nat (number_of 16 crc))"
proof (induction cs arbitrary: bs s)
  case (Cons c cs)
  show ?case
  proof (cases "cs = []")
    case True
    have v: "\<forall>x \<in> set ver. x \<noteq> 0 \<and> x \<noteq> 0x7C" using ok(4) by blast
    have e: "bs @ concat c = v_reply ver len pre crc" using Cons.prems(2) True by simp
    from v_recv_cb_reply [OF Cons.prems(1) e ok(1-3) v ok(5-7), of pcb] True show ?thesis by auto
  next
    case False
    then have rest: "concat (concat cs) \<noteq> []" using Cons.prems(4) by (cases cs) auto
    have e: "(bs @ concat c) @ concat (concat cs) = v_reply ver len pre crc" using Cons.prems(2) by simp
    have "concat c \<noteq> []" using Cons.prems(4) by auto
    then have "last (concat c) \<in> set (bs @ concat c)" by (metis last_in_set Un_iff set_append)
    then have l: "last (concat c) \<noteq> 0x0A" using reply_butlast [OF e rest _ _ ok(5-7)] ok(4) by blast
    have "length (bs @ concat c) \<le> 127" using arg_cong [OF e, of length] ok(1) by simp
    from v_recv_cb_repr [OF Cons.prems(1) this _ l] Cons.prems(4) obtain s1
      where "v_recv_cb pcb (Some c) s = Some (ERR_OK, s1)" "vc_repr (bs @ concat c) s1" by auto
    with Cons.IH [OF this(2) e False] Cons.prems(4) show ?thesis by simp
  qed
qed simp

section \<open>Properties\<close>

text \<open>
  The client never writes outside its buffers, whatever the server sends and however it is cut
  into pbufs; each chain is acknowledged in full and freed once, and the parser stays inside the
  buffer.
\<close>

theorem version_reply_memory_safe:
  assumes "vc_wf s" and "pbufs_ok chain"
  shows "\<exists>s' rest. v_recv_cb pcb (Some chain) s = Some (ERR_OK, s') \<and> vc_wf s' \<and> rest \<in> {[], [Tcp_close pcb]} \<and>
     v_lw s' = v_lw s @ [Tcp_recved pcb (sum_list (map length chain)), Pbuf_free] @ rest"
  using v_recv_cb_wf [OF assms] by blast

theorem version_reply_memory_safe_witness:
  "\<exists>s'. v_recv_cb 3 (Some [replicate 200 0x7C, [0x0A]]) vcheck_init = Some (ERR_OK, s') \<and> vc_wf s'"
proof -
  have "vc_wf vcheck_init" "pbufs_ok [replicate 200 0x7C, [0x0A]]"
    by (simp_all add: vc_wf_def vcheck_init_def pbufs_ok_def)
  from version_reply_memory_safe [OF this] show ?thesis by blast
qed

text \<open>
  C15. An answer \<^verbatim>\<open>RESP|version|length|crc\<close> of at most 127 bytes with a version of at most 15 characters, a
  decimal length and a hexadecimal checksum below \<open>2 ^ 32\<close>, the latter with or without \<^verbatim>\<open>0x\<close>, in either case
  and with any leading zeros, is understood exactly, however TCP cuts it up: after the last
  segment the query is done and successful, the connection is given up, and
  \<^verbatim>\<open>Version_Check_Get\<close> returns the version, the length and the checksum the server sent. The witness is the
  answer recorded in \<^verbatim>\<open>src/STM32/UpdateFirmwareAndRollback_1.png\<close>.
\<close>

theorem version_reply_understood:
  assumes "Version_Check_Start L s = s1" and "v_pcb s = None" and "length (v_version s) = 16"
    and "length (v_reply ver len pre crc) \<le> 127" and "ver \<noteq> []" and "length ver \<le> 15"
    and "\<forall>x \<in> set ver. x \<noteq> 0 \<and> x \<noteq> 0x7C \<and> x \<noteq> 0x0A" and "number_field 10 len" and "number_field 16 crc"
    and "pre = [] \<or> pre = ascii ''0x''"
    and "concat (concat cs) = v_reply ver len pre crc" and "\<forall>c \<in> set cs. concat c \<noteq> []"
  shows "\<exists>s'. v_recv_all pcb cs s1 = Some s' \<and> v_done s' \<and> v_ok s' \<and> v_pcb s' = None \<and>
     Version_Check_Get s' = (ver, of_nat (number_of 10 len), of_nat (number_of 16 crc))"
proof -
  have "vc_repr [] s1" unfolding assms(1) [symmetric] using assms(2,3)
    by (auto simp: Version_Check_Start_def vc_repr_def Let_def v_do_def split: option.splits)
  moreover have "cs \<noteq> []" using assms(11) by (auto simp: v_reply_def)
  moreover have "pre = [] \<or> pre = [0x30, 0x78]" using assms(10) by (simp add: ascii_def of_char_def)
  ultimately show ?thesis using v_recv_all_reply [OF assms(4-9), of "[]" s1 cs pcb] assms(11,12) by simp
qed

theorem version_reply_understood_witness:
  "\<exists>s'. v_recv_all 3 [[ascii ''RE'', ascii ''SP|1.6''], [ascii ''.3|7816|0x7A9EF17D'' @ [0x0A]]]
      (Version_Check_Start \<lparr>tcp_new_res = Some 3, tcp_bind_res = 0, tcp_listen_res = None, tcp_close_res = (\<lambda>_. 0),
        tcp_connect_res = 0, udp_new_res = True, pbuf_alloc_res = True\<rparr> vcheck_init) = Some s' \<and>
     Version_Check_Get s' = (ascii ''1.6.3'', 7816, 0x7A9EF17D)"
proof -
  let ?len = "ascii ''7816''" and ?crc = "ascii ''7A9EF17D''" and ?pre = "ascii ''0x''"
  have r: "v_reply (ascii ''1.6.3'') ?len ?pre ?crc = ascii ''RESP|1.6.3|7816|0x7A9EF17D'' @ [0x0A]"
    by (simp add: v_reply_def ascii_def of_char_def)
  let ?cs = "[[ascii ''RE'', ascii ''SP|1.6''], [ascii ''.3|7816|0x7A9EF17D'' @ [0x0A]]]"
  have i: "v_pcb vcheck_init = None" "length (v_version vcheck_init) = 16" by (simp_all add: vcheck_init_def)
  have l: "length (v_reply (ascii ''1.6.3'') ?len ?pre ?crc) \<le> 127" unfolding r by (simp add: ascii_def)
  have v: "ascii ''1.6.3'' \<noteq> []" "length (ascii ''1.6.3'') \<le> 15" "\<forall>x \<in> set (ascii ''1.6.3''). x \<noteq> 0 \<and> x \<noteq> 0x7C \<and> x \<noteq> 0x0A"
    by (simp_all add: ascii_def of_char_def)
  have n: "number_of 10 ?len = 7816" "number_of 16 ?crc = 0x7A9EF17D"
    by (simp_all add: number_of_def ascii_def of_char_def digit_val_def)
  have f: "number_field 10 ?len" "number_field 16 ?crc"
    unfolding number_field_def n by (simp_all add: ascii_def of_char_def is_digit_def digit_val_def)
  have c: "concat (concat ?cs) = v_reply (ascii ''1.6.3'') ?len ?pre ?crc" "\<forall>c \<in> set ?cs. concat c \<noteq> []"
    unfolding r by (simp_all add: ascii_def)
  from version_reply_understood [OF refl i l v f disjI2 [OF refl] c] show ?thesis unfolding n by auto
qed

text \<open>
  When the server closes the connection before its answer is complete, the client keeps its
  pointer to the connection: every later \<^verbatim>\<open>Version_Check_Start\<close> returns at once, with the query already
  done and not successful, so that the retry of the menu can never succeed again.
\<close>

theorem closed_query_blocks_retry:
  assumes "v_pcb s \<noteq> None" and "\<not> v_ok s"
  shows "\<exists>s'. v_recv_cb pcb None s = Some (ERR_OK, s') \<and> Version_Check_Start L s' = s' \<and>
     Version_Check_IsDone s' \<and> \<not> Version_Check_IsOK s'"
  using assms by (simp add: v_recv_cb_def Version_Check_Start_def Version_Check_IsDone_def Version_Check_IsOK_def)

theorem closed_query_blocks_retry_witness:
  "\<exists>s'. v_recv_cb 3 None (vcheck_init\<lparr>v_pcb := Some 3\<rparr>) = Some (ERR_OK, s') \<and>
     Version_Check_Start \<lparr>tcp_new_res = Some 3, tcp_bind_res = 0, tcp_listen_res = None, tcp_close_res = (\<lambda>_. 0),
        tcp_connect_res = 0, udp_new_res = True, pbuf_alloc_res = True\<rparr> s' = s'"
  using closed_query_blocks_retry [of "vcheck_init\<lparr>v_pcb := Some 3\<rparr>" 3] by (auto simp: vcheck_init_def)

end
