(* ===== verification/Console.thy ===== *)
theory Console
  imports Menu_Correct Version_Check
begin

text \<open>
  The console of the bootloader: the rest of \<^verbatim>\<open>src/STM32/Bootloader/User/menu/menu.c\<close> (information,
  firmware update, dispatch of the keys) and \<^verbatim>\<open>src/STM32/Bootloader/User/main.c\<close> (the interactive loop
  and the start). What happens outside is the input of the model: for each pass of a loop, the
  events lwIP delivers, the value of \<^verbatim>\<open>HAL_GetTick\<close> and the key that was typed. The texts printed are
  kept only for the menu, the help and the information screen.
\<close>

section \<open>State and inputs\<close>

text \<open>The globals of the program that the console uses.\<close>

record boot =
  b_ota :: ota
  b_vc :: vcheck
  b_flag :: bool
  b_eth_inited :: bool
  b_qspi_inited :: bool
  b_confirm_prompted :: bool
  b_last_pct :: u32
  b_last_tick :: u32
  b_out :: "string list"

definition boot_init :: boot where
  "boot_init = \<lparr>b_ota = ota_init, b_vc = vcheck_init, b_flag = False, b_eth_inited = False, b_qspi_inited = False,
     b_confirm_prompted = False, b_last_pct = 0xFFFFFFFF, b_last_tick = 0, b_out = []\<rparr>"

text \<open>
  The callbacks lwIP may run while it processes frames or timers; \<open>Ev_accept None\<close> is the report that a
  connection could not be allocated.
\<close>

datatype net_event =
    Ev_v_connect pcb err_t | Ev_v_recv pcb "u8 list list option" | Ev_v_err
  | Ev_accept "pcb option" | Ev_recv pcb "u8 list list option" | Ev_err

fun net_deliver :: "lwip_env \<Rightarrow> net_event \<Rightarrow> boot \<Rightarrow> boot option" where
  "net_deliver L (Ev_v_connect pcb e) w = Some (w\<lparr>b_vc := snd (v_connect_cb pcb e (b_vc w))\<rparr>)"
| "net_deliver L (Ev_v_recv pcb p) w = map_option (\<lambda>(e, v). w\<lparr>b_vc := v\<rparr>) (v_recv_cb pcb p (b_vc w))"
| "net_deliver L Ev_v_err w = Some (w\<lparr>b_vc := v_err_cb (b_vc w)\<rparr>)"
| "net_deliver L (Ev_accept pcb) w = map_option (\<lambda>(e, g). w\<lparr>b_ota := g\<rparr>) (ota_accept_cb pcb (b_ota w))"
| "net_deliver L (Ev_recv pcb p) w = map_option (\<lambda>g. w\<lparr>b_ota := g\<rparr>) (tcp_input_after pcb (b_ota w) (ota_recv_cb L pcb p (b_ota w)))"
| "net_deliver L Ev_err w = Some (w\<lparr>b_ota := ota_err_cb (b_ota w)\<rparr>)"

fun net_events :: "lwip_env \<Rightarrow> net_event list \<Rightarrow> boot \<Rightarrow> boot option" where
  "net_events L [] w = Some w"
| "net_events L (e # es) w = (case net_deliver L e w of None \<Rightarrow> None | Some w' \<Rightarrow> net_events L es w')"

text \<open>
  One pass of a waiting loop: whether the interrupt had set \<^verbatim>\<open>flag\<close>, what \<^verbatim>\<open>ethernetif_input\<close> and
  \<^verbatim>\<open>sys_check_timeouts\<close> then deliver, the tick and the key (0 for none).
\<close>

record poll =
  p_irq :: bool
  p_rx :: "net_event list"
  p_tmo :: "net_event list"
  p_tick :: u32
  p_key :: nat

definition net_poll :: "lwip_env \<Rightarrow> poll \<Rightarrow> boot \<Rightarrow> boot option" where
  "net_poll L p w =
     (let w = w\<lparr>b_flag := b_flag w \<or> p_irq p\<rparr>
      in case (if b_flag w then net_events L (p_rx p) (w\<lparr>b_flag := False\<rparr>) else Some w) of
           None \<Rightarrow> None
         | Some w \<Rightarrow> net_events L (p_tmo p) w)"

text \<open>A waiting loop returns, is still waiting when the inputs end, or has left its arrays.\<close>

datatype 'a wait = Ret 'a "poll list" boot | Waiting boot | Undef

section \<open>Screens\<close>

definition crlf :: string where "crlf = [CHR 0x0D, CHR 0x0A]"

definition Display_Menu :: "string list" where
  "Display_Menu =
     [crlf,
      ''===== OTA Bootloader v1.0 (Bare-metal) ====='' @ crlf,
      ''  [1] Info              [2] Firmware Update'' @ crlf,
      ''  [3] Backup            [4] Restore'' @ crlf,
      ''  [5] Run App           [6] Reboot'' @ crlf,
      ''  [0] Help'' @ crlf,
      ''============================================'' @ crlf,
      ''Select (0-6): '']"

definition Show_Help :: "string list" where
  "Show_Help =
     [crlf @ ''--- Help ---'' @ crlf,
      ''  [1] Info         - Show system info'' @ crlf,
      ''  [2] Firmware     - OTA update from PC server'' @ crlf,
      ''  [3] Backup       - Copy Slot A to NOR backup'' @ crlf,
      ''  [4] Restore      - Copy NOR backup to Slot A'' @ crlf,
      ''  [5] Run App      - Jump to Slot A / App'' @ crlf,
      ''  [6] Reboot       - Software reset'' @ crlf,
      ''  ESC / other     - Cancel or ignore'' @ crlf]"

text \<open>\<^verbatim>\<open>%lu\<close> and \<^verbatim>\<open>0x%08lX\<close>.\<close>

definition fmt_u :: "u32 \<Rightarrow> string" where
  "fmt_u w = dec_digits (unat w)"

definition hex_digit :: "nat \<Rightarrow> char" where
  "hex_digit d = (if d < 10 then char_of (48 + d) else char_of (55 + d))"

definition fmt_x8 :: "u32 \<Rightarrow> string" where
  "fmt_x8 w = ''0x'' @ map (\<lambda>i. hex_digit (unat (drop_bit (4 * i) w AND 0xF))) [7, 6, 5, 4, 3, 2, 1, 0]"

definition fmt_version :: "u32 \<Rightarrow> u32 \<Rightarrow> u32 \<Rightarrow> string" where
  "fmt_version a b c = fmt_u a @ ''.'' @ fmt_u b @ ''.'' @ fmt_u c"

text \<open>The lines for the reset reasons, in the order of the tests.\<close>

definition reset_reasons :: "u32 \<Rightarrow> string list" where
  "reset_reasons rsr =
     map (\<lambda>(n, s). ''                '' @ s @ crlf)
       (filter (\<lambda>(n, s). bit rsr n)
         [(26, ''IWDG1 reset''), (22, ''PIN reset''), (21, ''BOR reset''), (20, ''D2 reset''), (19, ''D1 reset''),
          (17, ''CPU reset''), (24, ''Software reset'')])"

definition Show_Info :: "'d hal \<Rightarrow> meta_layout \<Rightarrow> ('d, string list) state" where
  "Show_Info H lay = do {
     rsr \<leftarrow> rd_reg H RCC_RSR;
     meta \<leftarrow> Metadata_Read H;
     return (
       [crlf @ ''--- System Info ---'' @ crlf,
        ''  MCU        : STM32H743XIH6 @ 480MHz'' @ crlf,
        ''  IP         : 192.168.1.2'' @ crlf,
        ''  Slot A     : 0x08100000'' @ crlf,
        ''  NOR staging: 0x90000000 (offset 0x000000)'' @ crlf,
        ''  NOR backup : 0x90200000 (offset 0x200000)'' @ crlf,
        ''  Reset reason: '' @ fmt_x8 rsr @ crlf] @
       reset_reasons rsr @
       [crlf @ ''--- Metadata ---'' @ crlf,
        ''  magic       : '' @ fmt_x8 (magic meta) @ (if magic meta = METADATA_MAGIC then '' (OK)'' else '' (INVALID)'') @ crlf,
        ''  state       : '' @ fmt_x8 (state meta) @ '' ('' @ Metadata_StateStr (state meta) @ '')'' @ crlf,
        ''  current     : '' @ fmt_version (get_field lay cur_major meta) (get_field lay cur_minor meta) (get_field lay cur_patch meta)
          @ ''  CRC='' @ fmt_x8 (crc32 meta) @ '' size='' @ fmt_u (fw_size meta) @ crlf,
        ''  backup      : '' @ fmt_version (get_field lay bak_major meta) (get_field lay bak_minor meta) (get_field lay bak_patch meta)
          @ ''  CRC='' @ fmt_x8 (get_field lay bak_crc32 meta) @ '' size='' @ fmt_u (get_field lay bak_fw_size meta) @ crlf,
        ''  ota         : '' @ fmt_version (get_field lay ota_major meta) (get_field lay ota_minor meta) (get_field lay ota_patch meta) @ crlf])
   }"

section \<open>Firmware update\<close>

text \<open>\<^verbatim>\<open>lwip_init\<close>, the configuration of the interface and its notification happen once.\<close>

definition Eth_Init_Once :: "boot \<Rightarrow> boot" where
  "Eth_Init_Once w = (if b_eth_inited w then w else w\<lparr>b_eth_inited := True\<rparr>)"

definition WaitKey_WithLwIP :: "lwip_env \<Rightarrow> poll \<Rightarrow> boot \<Rightarrow> (nat \<times> boot) option" where
  "WaitKey_WithLwIP L p w = map_option (\<lambda>w. (p_key p, w)) (net_poll L p w)"

text \<open>The wait for the end of the version query, at most 6000 ms from \<open>t0\<close> on.\<close>

fun fu_query :: "lwip_env \<Rightarrow> u32 \<Rightarrow> poll list \<Rightarrow> boot \<Rightarrow> unit wait" where
  "fu_query L t0 [] w = (if Version_Check_IsDone (b_vc w) then Ret () [] w else Waiting w)"
| "fu_query L t0 (p # ps) w =
     (if Version_Check_IsDone (b_vc w) then Ret () (p # ps) w
      else case net_poll L p w of None \<Rightarrow> Undef
        | Some w \<Rightarrow> if 6000 < p_tick p - t0 then Ret () ps w else fu_query L t0 ps w)"

text \<open>One round of waiting for the PC to connect, 2000 ms from \<open>tw0\<close> on.\<close>

fun fu_connect :: "lwip_env \<Rightarrow> u32 \<Rightarrow> poll list \<Rightarrow> boot \<Rightarrow> bool wait" where
  "fu_connect L tw0 [] w = Waiting w"
| "fu_connect L tw0 (p # ps) w =
     (if p_tick p - tw0 < 2000
      then case net_poll L p w of None \<Rightarrow> Undef
        | Some w \<Rightarrow> if OTA_GetClientPcb (b_ota w) \<noteq> None then Ret True ps w else fu_connect L tw0 ps w
      else Ret False ps w)"

text \<open>The rounds: send the trigger, read the tick, wait.\<close>

fun fu_trigger :: "lwip_env \<Rightarrow> nat \<Rightarrow> poll list \<Rightarrow> boot \<Rightarrow> bool wait" where
  "fu_trigger L 0 ps w = Ret False ps w"
| "fu_trigger L (Suc t) [] w = Waiting w"
| "fu_trigger L (Suc t) (p # ps) w =
     (let w = w\<lparr>b_ota := OTA_SendTrigger L (b_ota w)\<rparr>
      in case fu_connect L (p_tick p) ps w of
           Ret connected ps w \<Rightarrow> if connected then Ret True ps w else fu_trigger L t ps w
         | r \<Rightarrow> r)"

text \<open>After \<^verbatim>\<open>y\<close>: start the server and wait for the PC. The result is that of \<^verbatim>\<open>Firmware_Update\<close>.\<close>

definition fu_start :: "lwip_env \<Rightarrow> u32 \<Rightarrow> poll list \<Rightarrow> boot \<Rightarrow> int wait" where
  "fu_start L crc ps w =
     (let stop = (\<lambda>w. w\<lparr>b_ota := OTA_ResetState (OTA_Server_Stop L (b_ota w))\<rparr>);
          w = w\<lparr>b_ota := OTA_SetExpectedCRC crc (b_ota w)\<rparr>
      in case OTA_Server_Start L (b_ota w) of (r, g) \<Rightarrow>
           let w = w\<lparr>b_ota := g\<rparr>
           in if r \<noteq> 0 then Ret 1 ps (stop w)
              else case fu_trigger L 3 ps w of
                Ret connected ps w \<Rightarrow> if connected then Ret 0 ps w else Ret 1 ps (stop w)
              | Waiting w \<Rightarrow> Waiting w
              | Undef \<Rightarrow> Undef)"

text \<open>The three questions to the user. The last one may answer \<open>None\<close>: try again.\<close>

fun fu_confirm :: "lwip_env \<Rightarrow> u32 \<Rightarrow> poll list \<Rightarrow> boot \<Rightarrow> int wait" where
  "fu_confirm L crc [] w = Waiting w"
| "fu_confirm L crc (p # ps) w =
     (case WaitKey_WithLwIP L p w of None \<Rightarrow> Undef
      | Some (c, w) \<Rightarrow>
          if c = 0x79 \<or> c = 0x59 then fu_start L crc ps w
          else if c = 0x6E \<or> c = 0x4E \<or> c = 27 then Ret 1 ps w
          else fu_confirm L crc ps w)"

fun fu_uptodate :: "lwip_env \<Rightarrow> poll list \<Rightarrow> boot \<Rightarrow> int wait" where
  "fu_uptodate L [] w = Waiting w"
| "fu_uptodate L (p # ps) w =
     (case WaitKey_WithLwIP L p w of None \<Rightarrow> Undef
      | Some (c, w) \<Rightarrow> if c = 27 then Ret 1 ps w else fu_uptodate L ps w)"

fun fu_failed :: "lwip_env \<Rightarrow> poll list \<Rightarrow> boot \<Rightarrow> int option wait" where
  "fu_failed L [] w = Waiting w"
| "fu_failed L (p # ps) w =
     (case WaitKey_WithLwIP L p w of None \<Rightarrow> Undef
      | Some (c, w) \<Rightarrow> if c = 0x31 then Ret (Some 1) ps w else if c = 0x32 then Ret None ps w else fu_failed L ps w)"

text \<open>From the label \<^verbatim>\<open>retry\<close> on; \<open>None\<close> is a jump back to it.\<close>

definition fu_attempt :: "lwip_env \<Rightarrow> poll list \<Rightarrow> boot \<Rightarrow> int option wait" where
  "fu_attempt L ps w =
     (let w = w\<lparr>b_vc := Version_Check_Start L (b_vc w)\<rparr>
      in case ps of [] \<Rightarrow> Waiting w
         | p # ps \<Rightarrow>
             (case fu_query L (p_tick p) ps w of
                Undef \<Rightarrow> Undef | Waiting w \<Rightarrow> Waiting w
              | Ret _ ps w \<Rightarrow>
                  if Version_Check_IsOK (b_vc w) then
                    (case Version_Check_Get (b_vc w) of (ver, len, crc) \<Rightarrow>
                     case fu_confirm L crc ps w of Ret r ps w \<Rightarrow> Ret (Some r) ps w | Waiting w \<Rightarrow> Waiting w | Undef \<Rightarrow> Undef)
                  else if Version_Check_IsConnected (b_vc w) then
                    (case fu_uptodate L ps w of Ret r ps w \<Rightarrow> Ret (Some r) ps w | Waiting w \<Rightarrow> Waiting w | Undef \<Rightarrow> Undef)
                  else fu_failed L ps w))"

lemma fu_query_shorter: "fu_query L t ps w = Ret x ps' w' \<Longrightarrow> length ps' \<le> length ps"
  by (induction ps arbitrary: w) (fastforce split: if_splits option.splits)+

lemma fu_failed_shorter: "fu_failed L ps w = Ret x ps' w' \<Longrightarrow> length ps' < length ps"
  by (induction ps arbitrary: w) (fastforce split: if_splits option.splits)+

lemma fu_attempt_shorter: "fu_attempt L ps w = Ret None ps' w' \<Longrightarrow> length ps' < length ps"
  by (auto simp: fu_attempt_def Let_def split: list.splits wait.splits if_splits prod.splits
    dest!: fu_query_shorter fu_failed_shorter)

function fu_retry :: "lwip_env \<Rightarrow> poll list \<Rightarrow> boot \<Rightarrow> int wait" where
  "fu_retry L ps w =
     (case fu_attempt L ps w of
        Ret r ps w \<Rightarrow> (case r of None \<Rightarrow> fu_retry L ps w | Some x \<Rightarrow> Ret x ps w)
      | Waiting w \<Rightarrow> Waiting w
      | Undef \<Rightarrow> Undef)"
  by pat_completeness auto
termination
  by (relation "measure (\<lambda>(L, ps, w). length ps)") (auto dest: fu_attempt_shorter)

declare fu_retry.simps [simp del]

definition Firmware_Update :: "lwip_env \<Rightarrow> poll list \<Rightarrow> boot \<Rightarrow> int wait" where
  "Firmware_Update L ps w = fu_retry L ps (Eth_Init_Once w)"

section \<open>Keys\<close>

text \<open>What one pass of the interactive loop ends with.\<close>

datatype outcome = Go boot | Stay boot | Rebooted boot | Jumped "u32 \<times> u32" boot | Undefined

definition emit :: "string list \<Rightarrow> boot \<Rightarrow> boot" where
  "emit xs w = w\<lparr>b_out := b_out w @ xs\<rparr>"

definition Menu_HandleKey ::
  "'d hal \<Rightarrow> lwip_env \<Rightarrow> meta_layout \<Rightarrow> poll list \<Rightarrow> nat \<Rightarrow> boot \<Rightarrow> ('d, outcome) state" where
  "Menu_HandleKey H L lay ps key w =
     (let prompt = (\<lambda>w. emit [crlf @ ''Select (0-6): ''] w)
      in if key = 0x30 then return (Go (emit Display_Menu (emit Show_Help w)))
         else if key = 0x31 then do { info \<leftarrow> Show_Info H lay; return (Go (emit Display_Menu (emit info w))) }
         else if key = 0x32 then
           (if OTA_IsReceiving (b_ota w) \<or> OTA_IsConfirm (b_ota w) then return (Go (prompt w))
            else return (case Firmware_Update L ps w of
                Ret r ps w \<Rightarrow> if r = 0 then Go (prompt w) else Go (emit Display_Menu w)
              | Waiting w \<Rightarrow> Stay w
              | Undef \<Rightarrow> Undefined))
         else if key = 0x33 then do {
           r \<leftarrow> Backup_SlotA H lay;
           return (case r of None \<Rightarrow> Stay w | Some _ \<Rightarrow> Go (emit Display_Menu w))
         }
         else if key = 0x34 then do {
           r \<leftarrow> Restore_SlotA H lay;
           return (Go (emit Display_Menu w))
         }
         else if key = 0x36 then do {
           HAL_Delay H 50;
           return (Rebooted w)
         }
         else if key = 0x35 then do {
           (target, eth) \<leftarrow> JumpToApp H (b_eth_inited w);
           return (Jumped target (w\<lparr>b_eth_inited := eth\<rparr>))
         }
         else if key = 27 then
           (if OTA_IsReceiving (b_ota w) \<or> OTA_IsConfirm (b_ota w)
            then return (Go (prompt (w\<lparr>b_ota := OTA_Abort L (b_ota w)\<rparr>)))
            else return (Go (prompt w)))
         else return (Go (prompt w)))"

section \<open>The interactive loop\<close>

definition interactive_enter :: "'d hal \<Rightarrow> boot \<Rightarrow> ('d, boot) state" where
  "interactive_enter H w = do {
     (if \<not> b_qspi_inited w then do {
        r \<leftarrow> BSP_QSPI_Init H;
        if r = QSPI_OK then do { id \<leftarrow> BSP_QSPI_ReadJedecID H; return () } else return ()
      } else return ());
     return (emit Display_Menu (w\<lparr>b_qspi_inited := True\<rparr>))
   }"

text \<open>The progress display: only its two static variables are kept.\<close>

definition show_progress :: "u32 \<Rightarrow> boot \<Rightarrow> boot" where
  "show_progress tick w =
     (if OTA_IsReceiving (b_ota w) then
        let ex = of_nat (OTA_GetExpected (b_ota w)) :: u32;
            got = of_nat (OTA_GetReceived (b_ota w));
            pct = (if ex \<noteq> 0 then got * 100 div ex else 0)
        in if pct \<noteq> b_last_pct w \<or> 200 < tick - b_last_tick w
           then w\<lparr>b_last_pct := pct, b_last_tick := tick\<rparr> else w
      else w)"

text \<open>
  The inputs of one pass: the network, the key that the blocking read of the confirmation returns
  (0 for an error of the UART), the key of the non-blocking read at the end, and the passes of
  \<^verbatim>\<open>Firmware_Update\<close> should it be entered.
\<close>

record turn =
  t_poll :: poll
  t_confirm :: nat
  t_key :: nat
  t_update :: "poll list"

text \<open>The question whether to write the staged image; \<open>Rebooted\<close> after a successful write.\<close>

definition confirm_step ::
  "'d hal \<Rightarrow> lwip_env \<Rightarrow> meta_layout \<Rightarrow> u32 \<times> u32 \<times> u32 \<Rightarrow> nat \<Rightarrow> boot \<Rightarrow> ('d, outcome) state" where
  "confirm_step H L lay ver c w =
     (let w = w\<lparr>b_confirm_prompted := True\<rparr>;
          leave = (\<lambda>w. emit Display_Menu (w\<lparr>b_ota := OTA_ResetState (OTA_Server_Stop L (b_ota w)), b_confirm_prompted := False\<rparr>))
      in if c = 0x79 \<or> c = 0x59 then do {
           r \<leftarrow> OTA_Flash_Write H lay ver (b_ota w);
           case r of None \<Rightarrow> return (Stay w)
           | Some (e, g) \<Rightarrow>
               let w = w\<lparr>b_ota := g\<rparr>
               in if e = 0 then do { HAL_Delay H 50; return (Rebooted w) }
                  else return (Go (leave w))
         }
         else if c = 0x6E \<or> c = 0x4E \<or> c = 27 then return (Go (leave w))
         else return (Go w))"

definition interactive_step ::
  "'d hal \<Rightarrow> lwip_env \<Rightarrow> meta_layout \<Rightarrow> u32 \<times> u32 \<times> u32 \<Rightarrow> turn \<Rightarrow> boot \<Rightarrow> ('d, outcome) state" where
  "interactive_step H L lay ver t w =
     (case (if b_eth_inited w then net_poll L (t_poll t) w else Some w) of
        None \<Rightarrow> return Undefined
      | Some w \<Rightarrow> do {
          let w = show_progress (p_tick (t_poll t)) w;
          g \<leftarrow> OTA_Poll H (b_ota w);
          case g of None \<Rightarrow> return (Stay w)
          | Some g \<Rightarrow> do {
              let w = w\<lparr>b_ota := g\<rparr>;
              n \<leftarrow> (if OTA_IsConfirm (b_ota w) then confirm_step H L lay ver (t_confirm t) w else return (Go w));
              case n of
                Go w \<Rightarrow> if t_key t \<noteq> 0 then Menu_HandleKey H L lay (t_update t) (t_key t) w else return (Go w)
              | _ \<Rightarrow> return n
            }
        })"

fun interactive_loop ::
  "'d hal \<Rightarrow> lwip_env \<Rightarrow> meta_layout \<Rightarrow> u32 \<times> u32 \<times> u32 \<Rightarrow> turn list \<Rightarrow> boot \<Rightarrow> ('d, outcome) state" where
  "interactive_loop H L lay ver [] w = return (Go w)"
| "interactive_loop H L lay ver (t # ts) w = do {
     n \<leftarrow> interactive_step H L lay ver t w;
     case n of Go w \<Rightarrow> interactive_loop H L lay ver ts w | _ \<Rightarrow> return n
   }"

definition interactive_mode ::
  "'d hal \<Rightarrow> lwip_env \<Rightarrow> meta_layout \<Rightarrow> u32 \<times> u32 \<times> u32 \<Rightarrow> turn list \<Rightarrow> boot \<Rightarrow> ('d, outcome) state" where
  "interactive_mode H L lay ver ts w = do {
     w \<leftarrow> interactive_enter H w;
     interactive_loop H L lay ver ts w
   }"

section \<open>The start of the program\<close>

text \<open>
  \<^verbatim>\<open>main\<close> after the configuration of the hardware: the boot decision, the key, and either the
  console or the application, under the watchdog when it is on trial. \<open>fuel\<close> bounds the wait for the
  oscillator of the watchdog; \<open>None\<close> when it never gets ready.
\<close>

definition main_boot ::
  "'d hal \<Rightarrow> lwip_env \<Rightarrow> meta_layout \<Rightarrow> u32 \<times> u32 \<times> u32 \<Rightarrow> nat \<Rightarrow> bool \<Rightarrow> turn list \<Rightarrow> boot \<Rightarrow> ('d, outcome option) state" where
  "main_boot H L lay ver fuel key1_on ts w = do {
     (boot_req, qi) \<leftarrow> Boot_Metadata_Step H lay (b_qspi_inited w);
     let w = w\<lparr>b_qspi_inited := qi\<rparr>;
     if key1_on \<or> boot_req = 0 then do {
       n \<leftarrow> interactive_mode H L lay ver ts w;
       return (Some n)
     } else do {
       ok \<leftarrow> (if boot_req = 1 then Iwdg_Enable H fuel 5000 else return True);
       if \<not> ok then return None
       else do {
         (target, eth) \<leftarrow> JumpToApp H (b_eth_inited w);
         return (Some (Jumped target (w\<lparr>b_eth_inited := eth\<rparr>)))
       }
     }
   }"

end
