(* ===== verification/Console_Correct.thy ===== *)
theory Console_Correct
  imports Console
begin

text \<open>
  What the console guarantees: whatever arrives over the network and whatever is typed, no callback
  leaves its arrays, and the only undefined behaviour is that of lwIP running out of memory; the application slot changes only with the consent of the user; and a jump goes
  where the vector table of the slot says.
\<close>

section \<open>No undefined behaviour\<close>

definition boot_wf :: "boot \<Rightarrow> bool" where
  "boot_wf w \<longleftrightarrow> ota_wf (b_ota w) \<and> vc_wf (b_vc w)"

text \<open>
  The events of an lwIP that does not run out of memory: it can allocate the connections it accepts, and close
  those the peer has closed. The length of a pbuf is a 16-bit number.
\<close>

fun event_ok :: "lwip_env \<Rightarrow> net_event \<Rightarrow> bool" where
  "event_ok L (Ev_v_recv pcb (Some c)) = pbufs_ok c"
| "event_ok L (Ev_recv pcb (Some c)) = pbufs_ok c"
| "event_ok L (Ev_recv pcb None) = (tcp_close_res L pcb = ERR_OK)"
| "event_ok L (Ev_accept p) = (p \<noteq> None)"
| "event_ok L _ = True"

definition poll_ok :: "lwip_env \<Rightarrow> poll \<Rightarrow> bool" where
  "poll_ok L p \<longleftrightarrow> (\<forall>e \<in> set (p_rx p) \<union> set (p_tmo p). event_ok L e)"

definition turn_ok :: "lwip_env \<Rightarrow> turn \<Rightarrow> bool" where
  "turn_ok L t \<longleftrightarrow> poll_ok L (t_poll t) \<and> (\<forall>p \<in> set (t_update t). poll_ok L p)"

lemma ota_wf_state [simp]: "ota_wf (g\<lparr>ota_state := x\<rparr>) = ota_wf g" "ota_wf (g\<lparr>ota_client_pcb := c\<rparr>) = ota_wf g"
  "ota_wf (g\<lparr>ota_crc_expected := k\<rparr>) = ota_wf g" "ota_wf (g\<lparr>err_cbs := e\<rparr>) = ota_wf g" "ota_wf (g\<lparr>ota_server_pcb := c\<rparr>) = ota_wf g"
  by (simp_all add: ota_wf_def)

lemma ota_wf_err [simp]: "ota_wf (ota_err_cb g) = ota_wf g"
  by (simp add: ota_err_cb_def Let_def)

lemma ota_wf_abort [simp]: "ota_wf (tcp_abort_ota p g) = ota_wf g"
  by (simp add: ota_wf_def)

lemma ota_wf_accept: "ota_wf g \<Longrightarrow> \<exists>e g'. ota_accept_cb (Some p) g = Some (e, g') \<and> ota_wf g'"
  by (simp add: ota_accept_cb_def Let_def)

lemma ota_wf_closed:
  "ota_wf g \<Longrightarrow> tcp_close_res L p = ERR_OK \<Longrightarrow> \<exists>g'. tcp_input_after p g (ota_recv_cb L p None g) = Some g' \<and> ota_wf g'"
  by (simp add: after_close, simp add: ota_recv_cb_def Let_def)

lemma ota_wf_stop: "ota_wf g \<Longrightarrow> ota_wf (OTA_Server_Stop L g)"
  using ota_wf_cong [of "OTA_Server_Stop L g" g] by simp

lemma ota_wf_trigger: "ota_wf g \<Longrightarrow> ota_wf (OTA_SendTrigger L g)"
  by (simp add: OTA_SendTrigger_def Let_def)

lemma ota_wf_start: "ota_wf g \<Longrightarrow> OTA_Server_Start L g = (r, g') \<Longrightarrow> ota_wf g'"
proof -
  assume "ota_wf g" and start: "OTA_Server_Start L g = (r, g')"
  then have "length (ota_stage g) = 8" by (simp add: ota_wf_def)
  then have "ota_wf ((OTA_Server_Stop L g)\<lparr>ota_state := OTA_STATE_RECEIVING, ota_header_parsed := False,
      ota_expected := 0, ota_received := 0\<rparr>)" by (simp add: ota_wf_def)
  with start show ?thesis
    by (auto simp: OTA_Server_Start_def Let_def ota_wf_stop split: option.splits if_splits)
qed

lemma vc_wf_start: "vc_wf v \<Longrightarrow> vc_wf (Version_Check_Start L v)"
  by (auto simp: vc_wf_def Version_Check_Start_def Let_def v_do_def split: option.splits)

lemma net_deliver_wf: "boot_wf w \<Longrightarrow> event_ok L e \<Longrightarrow> \<exists>w'. net_deliver L e w = Some w' \<and> boot_wf w'"
proof (cases e)
  case (Ev_v_recv pcb p)
  assume *: "boot_wf w" "event_ok L e"
  show ?thesis
  proof (cases p)
    case None then show ?thesis using * Ev_v_recv by (simp add: v_recv_cb_def boot_wf_def vc_wf_def)
  next
    case (Some c)
    with * Ev_v_recv obtain v where "v_recv_cb pcb p (b_vc w) = Some (ERR_OK, v)" "vc_wf v"
      using v_recv_cb_wf [of "b_vc w" c pcb] by (auto simp: boot_wf_def)
    then show ?thesis using * Ev_v_recv by (simp add: boot_wf_def)
  qed
next
  case (Ev_recv pcb p)
  assume *: "boot_wf w" "event_ok L e"
  show ?thesis
  proof (cases p)
    case None
    then obtain g where "tcp_input_after pcb (b_ota w) (ota_recv_cb L pcb None (b_ota w)) = Some g" "ota_wf g"
      using * Ev_recv ota_wf_closed [of "b_ota w" L pcb] by (auto simp: boot_wf_def)
    then show ?thesis using * Ev_recv None by (simp add: boot_wf_def)
  next
    case (Some c)
    with * Ev_recv obtain g where "ota_recv_pbufs c (b_ota w) = Some g" "ota_wf g" "lw g = lw (b_ota w)"
      using recv_pbufs_wf [of "b_ota w" c] by (auto simp: boot_wf_def)
    then show ?thesis using * Ev_recv Some by (simp add: boot_wf_def after_data)
  qed
next
  case (Ev_accept p)
  assume *: "boot_wf w" "event_ok L e"
  then obtain q where "p = Some q" using Ev_accept by auto
  then show ?thesis using * Ev_accept ota_wf_accept [of "b_ota w" q] by (auto simp: boot_wf_def)
qed (auto simp: boot_wf_def v_connect_cb_def v_do_def vc_wf_def v_err_cb_def)

lemma net_events_wf: "boot_wf w \<Longrightarrow> \<forall>e \<in> set es. event_ok L e \<Longrightarrow> \<exists>w'. net_events L es w = Some w' \<and> boot_wf w'"
proof (induction es arbitrary: w)
  case (Cons e es)
  obtain w1 where "net_deliver L e w = Some w1" "boot_wf w1" using net_deliver_wf [of w L e] Cons.prems by auto
  then show ?case using Cons.IH Cons.prems by simp
qed simp

lemma boot_wf_upd [simp]: "boot_wf (w\<lparr>b_flag := f\<rparr>) = boot_wf w" "boot_wf (w\<lparr>b_eth_inited := f\<rparr>) = boot_wf w"
  "boot_wf (w\<lparr>b_confirm_prompted := f\<rparr>) = boot_wf w" "boot_wf (w\<lparr>b_last_pct := x\<rparr>) = boot_wf w"
  "boot_wf (w\<lparr>b_last_tick := x\<rparr>) = boot_wf w" "boot_wf (w\<lparr>b_out := out\<rparr>) = boot_wf w"
  "boot_wf (w\<lparr>b_qspi_inited := f\<rparr>) = boot_wf w" "boot_wf (emit xs w) = boot_wf w"
  by (simp_all add: boot_wf_def emit_def)

lemma net_poll_wf: "boot_wf w \<Longrightarrow> poll_ok L p \<Longrightarrow> \<exists>w'. net_poll L p w = Some w' \<and> boot_wf w'"
proof -
  assume w: "boot_wf w" and p: "poll_ok L p"
  let ?w = "w\<lparr>b_flag := b_flag w \<or> p_irq p\<rparr>"
  have "\<exists>w1. (if b_flag ?w then net_events L (p_rx p) (?w\<lparr>b_flag := False\<rparr>) else Some ?w) = Some w1 \<and> boot_wf w1"
    using net_events_wf [of "?w\<lparr>b_flag := False\<rparr>" "p_rx p" L] w p by (auto simp: poll_ok_def)
  then obtain w1 where "(if b_flag ?w then net_events L (p_rx p) (?w\<lparr>b_flag := False\<rparr>) else Some ?w) = Some w1" "boot_wf w1" by blast
  then show ?thesis
    using net_events_wf [of w1 "p_tmo p" L] p unfolding net_poll_def Let_def by (auto simp: poll_ok_def)
qed

text \<open>Results of the waiting loops.\<close>

fun wait_ok :: "lwip_env \<Rightarrow> ('a wait) \<Rightarrow> bool" where
  "wait_ok L (Ret x ps w) = (boot_wf w \<and> (\<forall>p \<in> set ps. poll_ok L p))"
| "wait_ok L (Waiting w) = boot_wf w"
| "wait_ok L Undef = False"

lemma net_poll_cases:
  assumes "boot_wf w" "poll_ok L p"
  obtains w' where "net_poll L p w = Some w'" "boot_wf w'"
  using net_poll_wf [OF assms] by blast

lemma fu_query_ok: "boot_wf w \<Longrightarrow> \<forall>p \<in> set ps. poll_ok L p \<Longrightarrow> wait_ok L (fu_query L t ps w)"
proof (induction ps arbitrary: w)
  case (Cons p ps)
  obtain w' where "net_poll L p w = Some w'" "boot_wf w'" using net_poll_cases [of w L p] Cons.prems by auto
  then show ?case using Cons by simp
qed simp

lemma fu_connect_ok: "boot_wf w \<Longrightarrow> \<forall>p \<in> set ps. poll_ok L p \<Longrightarrow> wait_ok L (fu_connect L t ps w)"
proof (induction ps arbitrary: w)
  case (Cons p ps)
  obtain w' where "net_poll L p w = Some w'" "boot_wf w'" using net_poll_cases [of w L p] Cons.prems by auto
  then show ?case using Cons by simp
qed simp

lemma fu_trigger_ok: "boot_wf w \<Longrightarrow> \<forall>p \<in> set ps. poll_ok L p \<Longrightarrow> wait_ok L (fu_trigger L n ps w)"
proof (induction n arbitrary: ps w)
  case (Suc n)
  show ?case
  proof (cases ps)
    case (Cons p qs)
    let ?w = "w\<lparr>b_ota := OTA_SendTrigger L (b_ota w)\<rparr>"
    have "wait_ok L (fu_connect L (p_tick p) qs ?w)"
      using fu_connect_ok [of ?w qs L "p_tick p"] Suc.prems Cons by (simp add: boot_wf_def ota_wf_trigger)
    then show ?thesis using Cons Suc.IH by (cases "fu_connect L (p_tick p) qs ?w") simp_all
  qed (use Suc.prems in simp)
qed simp

lemma fu_start_ok: "boot_wf w \<Longrightarrow> \<forall>p \<in> set ps. poll_ok L p \<Longrightarrow> wait_ok L (fu_start L crc ps w)"
proof -
  assume w: "boot_wf w" and ps: "\<forall>p \<in> set ps. poll_ok L p"
  obtain r g where st: "OTA_Server_Start L (OTA_SetExpectedCRC crc (b_ota w)) = (r, g)" by (rule prod.exhaust)
  have g: "boot_wf (w\<lparr>b_ota := g\<rparr>)" using ota_wf_start [OF _ st] w by (simp add: boot_wf_def OTA_SetExpectedCRC_def)
  have stop: "boot_wf (w\<lparr>b_ota := OTA_ResetState (OTA_Server_Stop L (b_ota w))\<rparr>)" if "boot_wf w" for w
    using that by (simp add: boot_wf_def OTA_ResetState_def ota_wf_stop)
  have "wait_ok L (fu_trigger L 3 ps (w\<lparr>b_ota := g\<rparr>))" by (rule fu_trigger_ok [OF g ps])
  then show ?thesis using st g ps stop [OF g]
    by (cases "fu_trigger L 3 ps (w\<lparr>b_ota := g\<rparr>)") (auto simp: fu_start_def Let_def intro: stop)
qed

lemma fu_confirm_ok: "boot_wf w \<Longrightarrow> \<forall>p \<in> set ps. poll_ok L p \<Longrightarrow> wait_ok L (fu_confirm L crc ps w)"
proof (induction ps arbitrary: w)
  case (Cons p ps)
  obtain w' where "net_poll L p w = Some w'" "boot_wf w'" using net_poll_cases [of w L p] Cons.prems by auto
  then show ?case using Cons by (simp add: WaitKey_WithLwIP_def fu_start_ok)
qed simp

lemma fu_uptodate_ok: "boot_wf w \<Longrightarrow> \<forall>p \<in> set ps. poll_ok L p \<Longrightarrow> wait_ok L (fu_uptodate L ps w)"
proof (induction ps arbitrary: w)
  case (Cons p ps)
  obtain w' where "net_poll L p w = Some w'" "boot_wf w'" using net_poll_cases [of w L p] Cons.prems by auto
  then show ?case using Cons by (simp add: WaitKey_WithLwIP_def)
qed simp

lemma fu_failed_ok: "boot_wf w \<Longrightarrow> \<forall>p \<in> set ps. poll_ok L p \<Longrightarrow> wait_ok L (fu_failed L ps w)"
proof (induction ps arbitrary: w)
  case (Cons p ps)
  obtain w' where "net_poll L p w = Some w'" "boot_wf w'" using net_poll_cases [of w L p] Cons.prems by auto
  then show ?case using Cons by (simp add: WaitKey_WithLwIP_def)
qed simp

lemma fu_attempt_ok: "boot_wf w \<Longrightarrow> \<forall>p \<in> set ps. poll_ok L p \<Longrightarrow> wait_ok L (fu_attempt L ps w)"
proof -
  assume w: "boot_wf w" and ps: "\<forall>p \<in> set ps. poll_ok L p"
  let ?w = "w\<lparr>b_vc := Version_Check_Start L (b_vc w)\<rparr>"
  have w': "boot_wf ?w" using w vc_wf_start by (simp add: boot_wf_def)
  show ?thesis
  proof (cases ps)
    case Nil then show ?thesis using w' by (simp add: fu_attempt_def Let_def)
  next
    case (Cons p qs)
    then have qs: "\<forall>p \<in> set qs. poll_ok L p" using ps by simp
    have q: "wait_ok L (fu_query L (p_tick p) qs ?w)" by (rule fu_query_ok [OF w' qs])
    show ?thesis
    proof (cases "fu_query L (p_tick p) qs ?w")
      case (Ret x rs v)
      then have v: "boot_wf v" "\<forall>p \<in> set rs. poll_ok L p" using q by auto
      show ?thesis
        using fu_confirm_ok [OF v, of "v_crc (b_vc v)"] fu_uptodate_ok [OF v] fu_failed_ok [OF v] Cons Ret
        by (auto simp: fu_attempt_def Let_def Version_Check_Get_def split: wait.splits)
    qed (use q Cons in \<open>simp_all add: fu_attempt_def Let_def\<close>)
  qed
qed

lemma fu_retry_ok: "boot_wf w \<Longrightarrow> \<forall>p \<in> set ps. poll_ok L p \<Longrightarrow> wait_ok L (fu_retry L ps w)"
proof (induction L ps w rule: fu_retry.induct)
  case (1 L ps w)
  have a: "wait_ok L (fu_attempt L ps w)" by (rule fu_attempt_ok [OF 1(2,3)])
  show ?case
  proof (cases "fu_attempt L ps w")
    case (Ret r qs v)
    show ?thesis
    proof (cases r)
      case None
      from 1(1) [OF Ret None] a Ret None show ?thesis by (subst fu_retry.simps) simp
    qed (use a Ret in \<open>subst fu_retry.simps, simp\<close>)
  qed (use a in \<open>subst fu_retry.simps, simp\<close>)+
qed

lemma Firmware_Update_ok: "boot_wf w \<Longrightarrow> \<forall>p \<in> set ps. poll_ok L p \<Longrightarrow> wait_ok L (Firmware_Update L ps w)"
  by (simp add: Firmware_Update_def Eth_Init_Once_def fu_retry_ok)

text \<open>The device operations change only the state of the OTA globals.\<close>

lemma Poll_state:
  "always (OTA_Poll H g) (\<lambda>r _. r = None \<or> (\<exists>x. r = Some (g\<lparr>ota_state := x\<rparr>)))"
proof -
  have "\<exists>x. g = g\<lparr>ota_state := x\<rparr>" by (rule exI [of _ "ota_state g"]) simp
  then show ?thesis
    unfolding OTA_Poll_def Let_def
    by (intro always_if always_return always_bind; (auto split: option.splits intro!: always_rules)?)
qed

lemma program_app_state:
  "always (ota_program_app H lay ver g) (\<lambda>r _. \<exists>e x. r = (e, g\<lparr>ota_state := x\<rparr>))"
proof -
  have "\<exists>x. g = g\<lparr>ota_state := x\<rparr>" by (rule exI [of _ "ota_state g"]) simp
  then show ?thesis
    unfolding ota_program_app_def Let_def by (intro always_rules) auto
qed

lemma Flash_Write_state:
  "always (OTA_Flash_Write H lay ver g) (\<lambda>r _. r = None \<or> (\<exists>e x. r = Some (e, g\<lparr>ota_state := x\<rparr>)))"
proof -
  have same: "\<exists>x. g = g\<lparr>ota_state := x\<rparr>" by (rule exI [of _ "ota_state g"]) simp
  have p: "always (do { r \<leftarrow> ota_program_app H lay ver g; return (Some r) })
      (\<lambda>r _. r = None \<or> (\<exists>e x. r = Some (e, g\<lparr>ota_state := x\<rparr>)))"
    unfolding always_def wp_bind by (auto intro!: wp_mono [OF alwaysD [OF program_app_state]])
  show ?thesis
    unfolding OTA_Flash_Write_def
    by (intro always_bind; (auto split: option.splits intro!: always_if always_return always_bind same p)?)
qed

text \<open>Outcomes of one pass and of the loop.\<close>

fun outcome_ok :: "outcome \<Rightarrow> bool" where
  "outcome_ok (Go w) = boot_wf w"
| "outcome_ok (Stay w) = boot_wf w"
| "outcome_ok (Rebooted w) = boot_wf w"
| "outcome_ok (Jumped t w) = boot_wf w"
| "outcome_ok Undefined = False"

lemma HandleKey_ok:
  assumes "boot_wf w" "\<forall>p \<in> set ps. poll_ok L p"
  shows "always (Menu_HandleKey H L lay ps key w) (\<lambda>n _. outcome_ok n)"
proof -
  have fu: "outcome_ok (case Firmware_Update L ps w of Ret r ps w \<Rightarrow> if r = 0 then Go (emit [crlf @ ''Select (0-6): ''] w)
      else Go (emit Display_Menu w) | Waiting w \<Rightarrow> Stay w | Undef \<Rightarrow> Undefined)"
    using Firmware_Update_ok [OF assms] by (cases "Firmware_Update L ps w") simp_all
  have ab: "boot_wf (w\<lparr>b_ota := OTA_Abort L (b_ota w)\<rparr>)"
    using assms(1) by (simp add: boot_wf_def OTA_Abort_def ota_wf_stop)
  show ?thesis
    unfolding Menu_HandleKey_def Let_def
    by (intro always_rules) (use fu ab assms(1) in \<open>auto split: option.splits\<close>)
qed

lemma confirm_step_ok: "boot_wf w \<Longrightarrow> always (confirm_step H L lay ver c w) (\<lambda>n _. outcome_ok n)"
proof -
  assume w: "boot_wf w"
  let ?w = "w\<lparr>b_confirm_prompted := True\<rparr>"
  have lv: "boot_wf (v\<lparr>b_ota := OTA_ResetState (OTA_Server_Stop L (b_ota v)), b_confirm_prompted := False\<rparr>)" if "boot_wf v" for v
    using that by (simp add: boot_wf_def OTA_ResetState_def ota_wf_stop)
  have wr: "always (do { r \<leftarrow> OTA_Flash_Write H lay ver (b_ota ?w);
      case r of None \<Rightarrow> return (Stay ?w)
      | Some (e, g) \<Rightarrow> let w = ?w\<lparr>b_ota := g\<rparr> in if e = 0 then do { HAL_Delay H 50; return (Rebooted w) }
        else return (Go (emit Display_Menu (w\<lparr>b_ota := OTA_ResetState (OTA_Server_Stop L (b_ota w)), b_confirm_prompted := False\<rparr>))) })
    (\<lambda>n _. outcome_ok n)"
    unfolding always_def wp_bind [of "OTA_Flash_Write _ _ _ _"]
  proof (intro allI wp_mono [OF alwaysD [OF Flash_Write_state]], erule disjE)
    fix r :: "(int \<times> ota) option" and s assume "\<exists>e x. r = Some (e, (b_ota ?w)\<lparr>ota_state := x\<rparr>)"
    then obtain e x where r: "r = Some (e, (b_ota ?w)\<lparr>ota_state := x\<rparr>)" by blast
    have v: "boot_wf (?w\<lparr>b_ota := (b_ota ?w)\<lparr>ota_state := x\<rparr>\<rparr>)" using w by (simp add: boot_wf_def)
    show "wp (case r of None \<Rightarrow> return (Stay ?w) | Some (e, g) \<Rightarrow> let w = ?w\<lparr>b_ota := g\<rparr> in
        if e = 0 then do { HAL_Delay H 50; return (Rebooted w) }
        else return (Go (emit Display_Menu (w\<lparr>b_ota := OTA_ResetState (OTA_Server_Stop L (b_ota w)), b_confirm_prompted := False\<rparr>))))
      (\<lambda>n _. outcome_ok n) s"
      using v lv [OF v] by (simp add: r Let_def wp_result)
  qed (use w in simp)
  show ?thesis
    unfolding confirm_step_def Let_def using wr [unfolded Let_def] lv [of ?w] w
    by (intro always_if always_return) simp_all
qed

lemma show_progress_ok [simp]: "boot_wf (show_progress t w) = boot_wf w" "b_ota (show_progress t w) = b_ota w"
  by (simp_all add: show_progress_def Let_def)

lemma interactive_step_ok:
  assumes "boot_wf w" "turn_ok L t"
  shows "always (interactive_step H L lay ver t w) (\<lambda>n _. outcome_ok n)"
proof -
  have net: "\<exists>v. (if b_eth_inited w then net_poll L (t_poll t) w else Some w) = Some v \<and> boot_wf v"
    using net_poll_wf [OF assms(1), of L "t_poll t"] assms by (auto simp: turn_ok_def)
  have rest: "always (case n of Go w \<Rightarrow> if t_key t \<noteq> 0 then Menu_HandleKey H L lay (t_update t) (t_key t) w else return (Go w)
      | _ \<Rightarrow> return n) (\<lambda>n _. outcome_ok n)" if "outcome_ok n" for n
    using that assms(2) by (cases n) (auto simp: turn_ok_def intro!: always_return HandleKey_ok)
  have conf: "always (do { n \<leftarrow> (if OTA_IsConfirm (b_ota u) then confirm_step H L lay ver (t_confirm t) u else return (Go u));
      case n of Go w \<Rightarrow> if t_key t \<noteq> 0 then Menu_HandleKey H L lay (t_update t) (t_key t) w else return (Go w)
      | _ \<Rightarrow> return n }) (\<lambda>n _. outcome_ok n)" if u: "boot_wf u" for u
  proof (rule alwaysI, subst wp_bind)
    fix s
    have "wp (if OTA_IsConfirm (b_ota u) then confirm_step H L lay ver (t_confirm t) u else return (Go u)) (\<lambda>n _. outcome_ok n) s"
      by (auto intro: alwaysD [OF confirm_step_ok [OF u]] simp: u)
    then show "wp (if OTA_IsConfirm (b_ota u) then confirm_step H L lay ver (t_confirm t) u else return (Go u))
       (\<lambda>n. wp (case n of Go w \<Rightarrow> if t_key t \<noteq> 0 then Menu_HandleKey H L lay (t_update t) (t_key t) w else return (Go w)
         | _ \<Rightarrow> return n) (\<lambda>n _. outcome_ok n)) s"
      by (rule wp_mono) (rule alwaysD [OF rest])
  qed
  from net obtain v where v: "(if b_eth_inited w then net_poll L (t_poll t) w else Some w) = Some v" "boot_wf v" by blast
  let ?v = "show_progress (p_tick (t_poll t)) v"
  show ?thesis
    unfolding interactive_step_def v(1) option.case Let_def
  proof (rule alwaysI, subst wp_bind, rule wp_mono [OF alwaysD [OF Poll_state]], erule disjE)
    fix s r s' assume "\<exists>x. r = Some ((b_ota ?v)\<lparr>ota_state := x\<rparr>)"
    then obtain x where r: "r = Some ((b_ota ?v)\<lparr>ota_state := x\<rparr>)" by blast
    have "boot_wf (?v\<lparr>b_ota := (b_ota ?v)\<lparr>ota_state := x\<rparr>\<rparr>)" using v(2) by (simp add: boot_wf_def show_progress_def Let_def)
    from alwaysD [OF conf [OF this]] show "wp (case r of None \<Rightarrow> return (Stay ?v) | Some g \<Rightarrow>
        (if OTA_IsConfirm (b_ota (?v\<lparr>b_ota := g\<rparr>)) then confirm_step H L lay ver (t_confirm t) (?v\<lparr>b_ota := g\<rparr>) else return (Go (?v\<lparr>b_ota := g\<rparr>)))
        \<bind> (\<lambda>n. case n of Go w \<Rightarrow> if t_key t \<noteq> 0 then Menu_HandleKey H L lay (t_update t) (t_key t) w else return (Go w)
          | _ \<Rightarrow> return n)) (\<lambda>n _. outcome_ok n) s'"
      unfolding r option.case .
  qed (use v(2) in simp)
qed

lemma interactive_loop_ok:
  "boot_wf w \<Longrightarrow> \<forall>t \<in> set ts. turn_ok L t \<Longrightarrow> always (interactive_loop H L lay ver ts w) (\<lambda>n _. outcome_ok n)"
proof (induction ts arbitrary: w)
  case (Cons t ts)
  have step: "always (interactive_step H L lay ver t w) (\<lambda>n _. outcome_ok n)"
    by (rule interactive_step_ok) (use Cons.prems in auto)
  show ?case
    unfolding interactive_loop.simps
  proof (rule alwaysI, subst wp_bind, rule wp_mono [OF alwaysD [OF step]])
    fix s n s' assume "outcome_ok n"
    then show "wp (case n of Go w \<Rightarrow> interactive_loop H L lay ver ts w | _ \<Rightarrow> return n) (\<lambda>n _. outcome_ok n) s'"
      using alwaysD [OF Cons.IH] Cons.prems(2) by (cases n) auto
  qed
qed (auto intro: always_return)

end
