(* ===== verification/Consent.thy ===== *)
theory Consent
  imports Console_Correct
begin

text \<open>
  The console and the application slot: reading, staging, backing up, showing information and
  starting the application never change the slot; only a confirmed update and a manual restore do.
\<close>

lemma pres_case_option [pres_rules]:
  "pres P a \<Longrightarrow> (\<And>x. pres P (f x)) \<Longrightarrow> pres P (case r of None \<Rightarrow> a | Some x \<Rightarrow> f x)"
  by (cases r) simp_all

lemma pres_get [pres_rules]: "pres P State_Monad.get"
  by (simp add: pres_def)

text \<open>What counts as consent: \<^verbatim>\<open>y\<close> or \<^verbatim>\<open>Y\<close> to the question, or the key of the manual restore.\<close>

definition consent :: "turn \<Rightarrow> bool" where
  "consent t \<longleftrightarrow> t_confirm t = 0x79 \<or> t_confirm t = 0x59 \<or> t_key t = 0x34"

context hal_laws
begin

section \<open>Operations that keep the slot\<close>

definition slot :: "u8 list \<Rightarrow> 'd \<Rightarrow> bool" where
  "slot A d \<longleftrightarrow> app_image d = A"

lemma slot_step: "slot A d \<Longrightarrow> same_flash H locked d d' \<Longrightarrow> slot A d'"
  by (simp add: slot_def same_flash_def)

lemma slot_quiet: "quiet H nor locked m \<Longrightarrow> pres (slot A) m"
  unfolding quiet_def by (rule presI) (metis slot_step)

lemma slot_command: "pres (slot A) (HAL_QSPI_Command H c)"
  by (auto intro!: presI intro: slot_step dest: command)

lemma slot_transmit: "pres (slot A) (HAL_QSPI_Transmit H bs)"
  by (auto intro!: presI intro: slot_step dest: transmit)

lemmas slot_rules = pres_rules slot_command slot_transmit
  slot_quiet [OF quiet_deinit] slot_quiet [OF quiet_init] slot_quiet [OF quiet_receive] slot_quiet [OF quiet_poll]
  slot_quiet [OF quiet_abort] slot_quiet [OF quiet_clear] slot_quiet [OF quiet_busy] slot_quiet [OF quiet_gpio]
  slot_quiet [OF quiet_clk] slot_quiet [OF quiet_delay] slot_quiet [OF quiet_dcache] slot_quiet [OF quiet_rd_reg]
  slot_quiet [OF quiet_wr_reg] slot_quiet [OF quiet_hw]

lemma slot_Ready: "pres (slot A) (QSPI_AutoPollingMemReady H)"
  unfolding QSPI_AutoPollingMemReady_def by (intro slot_rules)

lemma slot_WriteEnable: "pres (slot A) (QSPI_WriteEnable H)"
  unfolding QSPI_WriteEnable_def by (intro slot_rules)

lemma slot_Init: "pres (slot A) (BSP_QSPI_Init H)"
  unfolding BSP_QSPI_Init_def qspi_gpio_init_def QSPI_EnterFourBytesAddress_def
  by (intro slot_rules slot_Ready)

lemma slot_Read: "pres (slot A) (BSP_QSPI_Read H a n)"
  unfolding BSP_QSPI_Read_def by (intro slot_rules)

lemma slot_write_loop: "pres (slot A) (qspi_write_loop H p a n)"
proof (induction n arbitrary: p a rule: less_induct)
  case (less n)
  show ?case
    by (subst qspi_write_loop.simps)
      (auto simp: Let_def QSPI_PAGE_SIZE_def intro!: slot_rules slot_WriteEnable slot_Ready less)
qed

lemma slot_Write: "pres (slot A) (BSP_QSPI_Write H p a n)"
  unfolding BSP_QSPI_Write_def by (rule slot_write_loop)

lemma slot_erase_block: "pres (slot A) (BSP_QSPI_Erase_Block64K H a)"
proof -
  have "pres (slot A) (erase_block_loop H a k)" for k
    by (induction k) (auto simp: erase_block_attempt_def intro!: slot_rules slot_WriteEnable slot_Ready)
  then show ?thesis by (simp add: BSP_QSPI_Erase_Block64K_def)
qed

lemma slot_Erase_Blocks: "pres (slot A) (QSPI_Erase_Blocks H a n)"
proof -
  have "pres (slot A) (erase_blocks_loop H k addr lim cnt)" for k addr lim cnt
    by (induction k arbitrary: addr cnt)
      (auto simp: erase_block_failed_def intro!: slot_rules slot_erase_block slot_Init)
  then show ?thesis by (simp add: QSPI_Erase_Blocks_def)
qed

lemma slot_readback: "pres (slot A) (ota_readback H n off crc)"
proof (induction "n - off" arbitrary: off crc rule: less_induct)
  case less
  show ?case by (subst ota_readback.simps) (auto simp: Let_def intro!: slot_rules slot_Read less)
qed

lemma slot_Poll: "pres (slot A) (OTA_Poll H g)"
  unfolding OTA_Poll_def ota_stage_write_def
  by (intro slot_rules slot_Erase_Blocks slot_Init slot_Write slot_readback)

lemma slot_WaitIdle: "pres (slot A) (QSPI_WaitIdle H)"
proof -
  have "pres (slot A) (qspi_wait H k)" for k by (induction k) (auto intro!: slot_rules)
  then show ?thesis by (simp add: QSPI_WaitIdle_def)
qed

lemma slot_record:
  assumes "\<And>m. meta_wf m \<Longrightarrow> meta_wf (f m)" "pres (slot A) k"
  shows "pres (slot A) (do { meta \<leftarrow> Metadata_Read H; Metadata_Write H (f meta); k })"
proof (rule presI)
  fix s r s' assume s: "slot A s" and run: "run_state (do { meta \<leftarrow> Metadata_Read H; Metadata_Write H (f meta); k }) s = (r, s')"
  let ?m = "f (Metadata_Of (ld8 H s))"
  obtain x s1 where 1: "run_state (Metadata_Write H ?m) s = (x, s1)" by fastforce
  have "meta_wf ?m" by (intro assms) (simp add: meta_wf_Of)
  from wpD [OF Metadata_Write_ok [OF this] 1] have "meta_keep s s1" by (auto split: prod.splits)
  from meta_keep_app [OF this order_refl] s have "slot A s1" by (simp add: slot_def)
  from pres_run [OF assms(2) this] run 1 show "slot A s'"
    by (simp add: Metadata_Read_def State_Monad.bind_def State_Monad.get_def)
qed

lemma slot_Backup: "pres (slot A) (Backup_SlotA H lay)"
proof -
  have "pres (slot A) (slot_backup_loop H off n)" for off n
    by (induction n arbitrary: off) (auto intro!: slot_rules slot_WaitIdle slot_Write)
  then show ?thesis
    unfolding Backup_SlotA_def
    by (intro slot_rules slot_Erase_Blocks slot_record) simp_all
qed

lemma slot_Info: "pres (slot A) (Show_Info H lay)"
  unfolding Show_Info_def Metadata_Read_def by (intro slot_rules)

lemma slot_nvic_clear: "pres (slot A) (nvic_clear H i n)"
  by (induction n arbitrary: i) (auto intro!: slot_rules)

text \<open>The jump keeps the slot and goes where its vector table says.\<close>

lemma slot_Jump: "pres (slot A) (JumpToApp H e)"
  unfolding JumpToApp_def by (intro slot_rules slot_nvic_clear)

lemma Jump_target:
  "run_state (JumpToApp H e) d = (((sp, pc), e'), d') \<Longrightarrow>
   sp = le32 (mem_slice (ld8 H d') APP_ADDR 4) \<and> pc = le32 (mem_slice (ld8 H d') (APP_ADDR + 4) 4) \<and> \<not> e'"
  unfolding JumpToApp_def by (auto simp: State_Monad.bind_def State_Monad.get_def Let_def split: prod.splits)

section \<open>The console keeps the slot unless the user consents\<close>

lemma slot_confirm: "c \<noteq> 0x79 \<Longrightarrow> c \<noteq> 0x59 \<Longrightarrow> pres (slot A) (confirm_step H L lay ver c w)"
  unfolding confirm_step_def by (auto simp: Let_def intro!: slot_rules)

lemma slot_HandleKey: "key \<noteq> 0x34 \<Longrightarrow> pres (slot A) (Menu_HandleKey H L lay ps key w)"
  unfolding Menu_HandleKey_def by (auto simp: Let_def intro!: slot_rules slot_Info slot_Backup slot_Jump)

lemma pres_case_outcome:
  "(\<And>w. pres P (f w)) \<Longrightarrow> pres P (return n) \<Longrightarrow> pres P (case n of Go w \<Rightarrow> f w | _ \<Rightarrow> return n)"
  by (cases n) simp_all

lemma slot_step_console: "\<not> consent t \<Longrightarrow> pres (slot A) (interactive_step H L lay ver t w)"
  unfolding interactive_step_def
  by (intro slot_rules slot_Poll slot_confirm pres_case_outcome slot_HandleKey) (auto simp: consent_def)

lemma slot_loop: "\<forall>t \<in> set ts. \<not> consent t \<Longrightarrow> pres (slot A) (interactive_loop H L lay ver ts w)"
  by (induction ts arbitrary: w) (auto intro!: slot_rules slot_step_console pres_case_outcome)

lemma slot_enter: "pres (slot A) (interactive_enter H w)"
  unfolding interactive_enter_def BSP_QSPI_ReadJedecID_def by (intro slot_rules slot_Init)

lemma slot_mode: "\<forall>t \<in> set ts. \<not> consent t \<Longrightarrow> pres (slot A) (interactive_mode H L lay ver ts w)"
  unfolding interactive_mode_def by (intro slot_rules slot_enter slot_loop)

end

end
