(* ===== verification/Console_Properties.thy ===== *)
theory Console_Properties
  imports Consent Update_Properties
begin

text \<open>
  The properties of the console and of the start of the program: without a shortage of memory in lwIP no sequence of
  network events and keys leads to undefined behaviour, the application slot changes only with the consent of the user,
  an update waits for the confirmation, and a jump goes into the image that is in the slot.
\<close>

section \<open>Results of the firmware update\<close>

text \<open>What \<open>fu_start\<close>, \<open>fu_confirm\<close> and their callers can return.\<close>

fun fu_result :: "bool \<Rightarrow> int wait \<Rightarrow> bool" where
  "fu_result yes (Ret r ps w) = (r = 1 \<or> r = 0 \<and> yes \<and> OTA_GetClientPcb (b_ota w) \<noteq> None)"
| "fu_result yes _ = True"

definition said_yes :: "poll list \<Rightarrow> bool" where
  "said_yes ps \<longleftrightarrow> (\<exists>p \<in> set ps. p_key p = 0x79 \<or> p_key p = 0x59)"

lemma fu_result_mono: "fu_result b r \<Longrightarrow> (b \<Longrightarrow> c) \<Longrightarrow> fu_result c r"
  by (cases r) auto

lemma fu_connect_client: "fu_connect L t ps w = Ret True ps' w' \<Longrightarrow> OTA_GetClientPcb (b_ota w') \<noteq> None"
  by (induction ps arbitrary: w) (auto split: if_splits option.splits)

lemma fu_trigger_client: "fu_trigger L n ps w = Ret True ps' w' \<Longrightarrow> OTA_GetClientPcb (b_ota w') \<noteq> None"
proof (induction n arbitrary: ps w)
  case (Suc n)
  then show ?case
    by (cases ps) (auto simp: Let_def split: wait.splits if_splits dest: fu_connect_client)
qed simp

lemma fu_start_result: "fu_result True (fu_start L crc ps w)"
  by (auto simp: fu_start_def Let_def split: prod.splits wait.splits dest: fu_trigger_client)

lemma fu_confirm_result: "fu_result (said_yes ps) (fu_confirm L crc ps w)"
proof (induction ps arbitrary: w)
  case (Cons p ps)
  show ?case
    by (auto simp: WaitKey_WithLwIP_def said_yes_def split: option.splits
        intro: fu_result_mono [OF fu_start_result] fu_result_mono [OF Cons [unfolded said_yes_def]])
qed simp

lemma fu_uptodate_result: "fu_result False (fu_uptodate L ps w)"
  by (induction ps arbitrary: w) (auto simp: WaitKey_WithLwIP_def split: option.splits)

lemma fu_failed_result: "fu_failed L ps w = Ret (Some r) ps' w' \<Longrightarrow> r = 1"
  by (induction ps arbitrary: w) (auto simp: WaitKey_WithLwIP_def split: option.splits if_splits)

lemma fu_query_suffix: "fu_query L t ps w = Ret x ps' w' \<Longrightarrow> set ps' \<subseteq> set ps"
  by (induction ps arbitrary: w) (fastforce split: if_splits option.splits)+

lemma fu_failed_suffix: "fu_failed L ps w = Ret x ps' w' \<Longrightarrow> set ps' \<subseteq> set ps"
  by (induction ps arbitrary: w) (fastforce simp: WaitKey_WithLwIP_def split: if_splits option.splits)+

lemma fu_attempt_result:
  assumes "fu_attempt L ps w = Ret (Some r) ps' w'"
  shows "fu_result (said_yes ps) (Ret r ps' w')"
proof -
  from assms obtain p qs where ps: "ps = p # qs" by (cases ps) (auto simp: fu_attempt_def Let_def)
  let ?w = "w\<lparr>b_vc := Version_Check_Start L (b_vc w)\<rparr>"
  from assms ps obtain x rs v where q: "fu_query L (p_tick p) qs ?w = Ret x rs v"
    by (auto simp: fu_attempt_def Let_def split: wait.splits)
  have yes: "said_yes rs \<Longrightarrow> said_yes ps" using fu_query_suffix [OF q] ps by (auto simp: said_yes_def)
  obtain ver len crc where g: "Version_Check_Get (b_vc v) = (ver, len, crc)" by (metis prod.exhaust)
  from assms ps q g show ?thesis
    using fu_result_mono [OF fu_confirm_result [of rs L crc v] yes] fu_uptodate_result [of L rs v]
    by (auto simp: fu_attempt_def Let_def split: wait.splits if_splits dest: fu_failed_result)
qed

lemma fu_attempt_suffix: "fu_attempt L ps w = Ret None ps' w' \<Longrightarrow> set ps' \<subseteq> set ps"
  by (fastforce simp: fu_attempt_def Let_def split: list.splits wait.splits if_splits prod.splits
    dest: fu_query_suffix fu_failed_suffix)

lemma fu_retry_result: "fu_result (said_yes ps) (fu_retry L ps w)"
proof (induction L ps w rule: fu_retry.induct)
  case (1 L ps w)
  show ?case
  proof (cases "fu_attempt L ps w")
    case (Ret r qs v)
    show ?thesis
    proof (cases r)
      case None
      have "said_yes qs \<Longrightarrow> said_yes ps" using fu_attempt_suffix Ret None by (fastforce simp: said_yes_def)
      then show ?thesis using 1 [OF Ret None] Ret None by (subst fu_retry.simps) (auto intro: fu_result_mono)
    next
      case (Some x)
      then show ?thesis using fu_attempt_result Ret by (subst fu_retry.simps) simp
    qed
  qed (subst fu_retry.simps, simp)+
qed

text \<open>
  The menu's firmware update returns 0 (an upload is under way) only when a client is connected
  and the user has answered the question with \<^verbatim>\<open>y\<close>; every other way out returns 1.
\<close>

theorem firmware_update_result:
  assumes "Firmware_Update L ps w = Ret r ps' w'"
  shows "r = 1 \<or> r = 0 \<and> OTA_GetClientPcb (b_ota w') \<noteq> None \<and> (\<exists>p \<in> set ps. p_key p = 0x79 \<or> p_key p = 0x59)"
  using fu_retry_result [of ps L "Eth_Init_Once w"] assms by (auto simp: Firmware_Update_def said_yes_def)

text \<open>A session: the version server cannot be reached and the user chooses to go back.\<close>

definition demo_poll :: "net_event list \<Rightarrow> nat \<Rightarrow> poll" where
  "demo_poll es k = \<lparr>p_irq = True, p_rx = es, p_tmo = [], p_tick = 0, p_key = k\<rparr>"

theorem firmware_update_result_witness:
  "\<exists>w'. Firmware_Update demo_lwip [demo_poll [] 0, demo_poll [Ev_v_err] 0, demo_poll [] 0x31] boot_init = Ret 1 [] w'"
proof -
  let ?ps = "[demo_poll [] 0, demo_poll [Ev_v_err] 0, demo_poll [] 0x31]"
  have "\<exists>r ps' w'. Firmware_Update demo_lwip ?ps boot_init = Ret r ps' w' \<and> ps' = []"
    unfolding Firmware_Update_def fu_retry.simps [of demo_lwip ?ps]
    by (simp add: fu_attempt_def Let_def demo_poll_def net_poll_def
        Version_Check_IsDone_def v_err_cb_def Version_Check_Start_def boot_init_def Eth_Init_Once_def vcheck_init_def
        Version_Check_IsOK_def Version_Check_IsConnected_def WaitKey_WithLwIP_def demo_lwip_def v_do_def)
  then obtain r w' where run: "Firmware_Update demo_lwip ?ps boot_init = Ret r [] w'" by blast
  from firmware_update_result [OF run] run show ?thesis by (auto simp: demo_poll_def)
qed

section \<open>The console\<close>


definition demo_turn :: "nat \<Rightarrow> turn" where
  "demo_turn k = \<lparr>t_poll = demo_poll [Ev_accept (Some 7), Ev_recv 7 (Some [[1, 2, 3], [4]])] 0, t_confirm = 0, t_key = k, t_update = []\<rparr>"




text \<open>
  What the hypothesis of C13 excludes. When lwIP cannot allocate a second connection while a client is connected, the
  accept callback passes the null pointer to \<^verbatim>\<open>tcp_abort\<close>. When it cannot close the connection, the receive callback
  aborts it and returns \<^verbatim>\<open>ERR_OK\<close>, and lwIP goes on with freed memory. Both end the console in undefined behaviour.
\<close>

theorem out_of_memory_undefined:
  "(ota_client_pcb (b_ota w) \<noteq> None \<longrightarrow> net_deliver L (Ev_accept None) w = None) \<and>
   (tcp_close_res L pcb \<noteq> ERR_OK \<longrightarrow> net_deliver L (Ev_recv pcb None) w = None)"
  by (simp add: ota_accept_cb_def after_close)

text \<open>
  C12. From its entry on, the console changes the application slot only with the consent of the user:
  as long as nobody answers \<^verbatim>\<open>y\<close> to the question or presses the key of the manual restore, the slot keeps
  its bytes, whatever is received over the network and however the hardware fails.
\<close>

theorem update_needs_consent:
  assumes "hal_laws H nor locked"
    and "\<forall>t \<in> set ts. t_confirm t \<noteq> 0x79 \<and> t_confirm t \<noteq> 0x59 \<and> t_key t \<noteq> 0x34"
    and "run_state (interactive_mode H L lay ver ts w) d = (n, d')"
  shows "mem_slice (ld8 H d') APP_ADDR APP_SIZE = mem_slice (ld8 H d) APP_ADDR APP_SIZE"
proof -
  have "\<forall>t \<in> set ts. \<not> consent t" using assms(2) by (simp add: consent_def)
  from pres_run [OF hal_laws.slot_mode [OF assms(1) this] _ assms(3)] show ?thesis
    by (simp add: hal_laws.slot_def [OF assms(1)])
qed

theorem update_needs_consent_witness:
  "\<exists>n d'. run_state (interactive_mode sim_hal demo_lwip demo_layout (1, 2, 3) [demo_turn 0x33, demo_turn 0x35] boot_init)
     (sim0 [True, False]) = (n, d') \<and> mem_slice (ld8 sim_hal d') APP_ADDR APP_SIZE = mem_slice (\<lambda>_. 0xFF) APP_ADDR APP_SIZE"
proof -
  obtain n d' where run: "run_state (interactive_mode sim_hal demo_lwip demo_layout (1, 2, 3) [demo_turn 0x33, demo_turn 0x35] boot_init)
     (sim0 [True, False]) = (n, d')" by fastforce
  from update_needs_consent [OF sim.hal_laws_axioms _ run] run show ?thesis by (simp add: demo_turn_def)
qed

text \<open>
  While an upload is under way or waits for its confirmation, the key of the firmware update
  only repeats the prompt and ESC stops the server, closes its connections and ends in the idle state.
  Neither touches the device.
\<close>

theorem menu_during_upload:
  "ota_state (b_ota w) \<in> {OTA_STATE_RECEIVING, OTA_STATE_CONFIRM} \<Longrightarrow>
     run_state (Menu_HandleKey H L lay ps 0x32 w) d = (Go (emit [crlf @ ''Select (0-6): ''] w), d) \<and>
     (\<exists>w'. run_state (Menu_HandleKey H L lay ps 27 w) d = (Go w', d) \<and> ota_state (b_ota w') = OTA_STATE_IDLE \<and>
       ota_server_pcb (b_ota w') = None \<and> ota_client_pcb (b_ota w') = None \<and> b_vc w' = b_vc w)"
  by (auto simp: Menu_HandleKey_def Let_def OTA_IsReceiving_def OTA_IsConfirm_def emit_def OTA_Abort_def State_Monad.return_def)

theorem menu_during_upload_witness:
  "run_state (Menu_HandleKey sim_hal demo_lwip demo_layout [] 0x32 (boot_init\<lparr>b_ota := demo_ota\<lparr>ota_state := OTA_STATE_RECEIVING\<rparr>\<rparr>)) (sim0 []) =
     (Go (emit [crlf @ ''Select (0-6): ''] (boot_init\<lparr>b_ota := demo_ota\<lparr>ota_state := OTA_STATE_RECEIVING\<rparr>\<rparr>)), sim0 [])"
  using menu_during_upload [of "boot_init\<lparr>b_ota := demo_ota\<lparr>ota_state := OTA_STATE_RECEIVING\<rparr>\<rparr>" sim_hal demo_lwip demo_layout "[]" "sim0 []"]
  by simp

section \<open>Starting the application\<close>

context hal_laws
begin

text \<open>A jump goes where the vector table of the slot says; \<open>jumps\<close> is that claim for an outcome.\<close>

definition jumps :: "outcome \<Rightarrow> 'd \<Rightarrow> bool" where
  "jumps n d \<longleftrightarrow> (\<forall>sp pc w. n = Jumped (sp, pc) w \<longrightarrow>
     sp = le32 (mem_slice (ld8 H d) APP_ADDR 4) \<and> pc = le32 (mem_slice (ld8 H d) (APP_ADDR + 4) 4))"

lemma jumps_simps [simp]: "jumps (Go w) d" "jumps (Stay w) d" "jumps (Rebooted w) d" "jumps Undefined d"
  by (simp_all add: jumps_def)

lemma jumps_Jump: "always (do { (t, e) \<leftarrow> JumpToApp H eth; return (Jumped t (f e)) }) jumps"
  by (intro alwaysI wpI) (auto simp: jumps_def State_Monad.bind_def State_Monad.return_def split: prod.splits dest: Jump_target)

lemma jumps_HandleKey: "always (Menu_HandleKey H L lay ps key w) jumps"
  unfolding Menu_HandleKey_def Let_def
  by (intro always_if jumps_Jump; (rule jumps_Jump)?)
    (auto intro!: always_rules split: wait.splits option.splits)

lemma jumps_confirm: "always (confirm_step H L lay ver c w) (\<lambda>n _. \<forall>t v. n \<noteq> Jumped t v)"
  unfolding confirm_step_def Let_def by (auto intro!: always_rules split: option.splits)

lemma jumps_step: "always (interactive_step H L lay ver t w) jumps"
proof -
  have k: "always (case n of Go w \<Rightarrow> if t_key t \<noteq> 0 then Menu_HandleKey H L lay (t_update t) (t_key t) w else return (Go w)
      | _ \<Rightarrow> return n) jumps" if "\<forall>t v. n \<noteq> Jumped t v" for n
    using that by (cases n) (auto intro!: always_rules jumps_HandleKey)
  have c: "always (if OTA_IsConfirm (b_ota u) then confirm_step H L lay ver (t_confirm t) u else return (Go u))
      (\<lambda>n _. \<forall>t v. n \<noteq> Jumped t v)" for u
    by (intro always_if always_return jumps_confirm) simp
  have "always (do { n \<leftarrow> (if OTA_IsConfirm (b_ota u) then confirm_step H L lay ver (t_confirm t) u else return (Go u));
      case n of Go w \<Rightarrow> if t_key t \<noteq> 0 then Menu_HandleKey H L lay (t_update t) (t_key t) w else return (Go w)
      | _ \<Rightarrow> return n }) jumps" for u
    by (rule alwaysI, subst wp_bind, rule wp_mono [OF alwaysD [OF c]]) (rule alwaysD [OF k])
  then have "always (case g of None \<Rightarrow> return (Stay v) | Some g \<Rightarrow> do { let u = v\<lparr>b_ota := g\<rparr>;
      n \<leftarrow> (if OTA_IsConfirm (b_ota u) then confirm_step H L lay ver (t_confirm t) u else return (Go u));
      case n of Go w \<Rightarrow> if t_key t \<noteq> 0 then Menu_HandleKey H L lay (t_update t) (t_key t) w else return (Go w)
      | _ \<Rightarrow> return n }) jumps" for g v
  proof (cases g)
    case (Some x)
    show ?thesis unfolding Some option.case Let_def by fact
  qed (simp add: always_return)
  then show ?thesis
    unfolding interactive_step_def
    by (cases "if b_eth_inited w then net_poll L (t_poll t) w else Some w"; simp only: option.case Let_def)
      (rule always_return, simp, rule always_bind, assumption)
qed

lemma jumps_loop: "always (interactive_loop H L lay ver ts w) jumps"
proof (induction ts arbitrary: w)
  case (Cons t ts)
  have "wp (case n of Go w \<Rightarrow> interactive_loop H L lay ver ts w | _ \<Rightarrow> return n) jumps s" if "jumps n s" for n s
    using that alwaysD [OF Cons] by (cases n) simp_all
  then show ?case
    unfolding interactive_loop.simps by (intro alwaysI, subst wp_bind) (rule wp_mono [OF alwaysD [OF jumps_step]])
qed (auto intro!: always_return)

lemma jumps_mode: "always (interactive_mode H L lay ver ts w) jumps"
  unfolding interactive_mode_def by (intro always_bind jumps_loop)

lemma slot_Iwdg: "pres (slot A) (Iwdg_Enable H fuel ms)"
proof -
  have "pres (slot A) (lsi_wait H k)" for k by (induction k) (auto intro!: slot_rules)
  then show ?thesis unfolding Iwdg_Enable_def by (intro slot_rules)
qed

text \<open>The start of the program after the boot decision: it keeps the slot and jumps into it.\<close>

definition main_rest ::
  "lwip_env \<Rightarrow> meta_layout \<Rightarrow> u32 \<times> u32 \<times> u32 \<Rightarrow> nat \<Rightarrow> bool \<Rightarrow> turn list \<Rightarrow> boot \<Rightarrow> int \<Rightarrow> ('d, outcome option) state" where
  "main_rest L lay ver fuel key ts w boot_req =
     (if key \<or> boot_req = 0 then do { n \<leftarrow> interactive_mode H L lay ver ts w; return (Some n) }
      else do {
        ok \<leftarrow> (if boot_req = 1 then Iwdg_Enable H fuel 5000 else return True);
        if \<not> ok then return None
        else do { (target, eth) \<leftarrow> JumpToApp H (b_eth_inited w); return (Some (Jumped target (w\<lparr>b_eth_inited := eth\<rparr>))) }
      })"

lemma main_boot_split:
  "main_boot H L lay ver fuel key ts w =
     do { (r, qi) \<leftarrow> Boot_Metadata_Step H lay (b_qspi_inited w); main_rest L lay ver fuel key ts (w\<lparr>b_qspi_inited := qi\<rparr>) r }"
  unfolding main_boot_def main_rest_def by (simp add: Let_def cong: if_cong)

lemma slot_main: "\<forall>t \<in> set ts. \<not> consent t \<Longrightarrow> pres (slot A) (main_rest L lay ver fuel key ts w r)"
  unfolding main_rest_def by (intro slot_rules slot_mode slot_Iwdg slot_Jump)

lemma jumps_main: "always (main_rest L lay ver fuel key ts w r) (\<lambda>n s. \<forall>x. n = Some x \<longrightarrow> jumps x s)"
proof -
  have m: "always (do { n \<leftarrow> interactive_mode H L lay ver ts w; return (Some n) }) (\<lambda>n s. \<forall>x. n = Some x \<longrightarrow> jumps x s)"
    by (rule alwaysI, subst wp_bind, rule wp_mono [OF alwaysD [OF jumps_mode]]) simp
  have j: "always (do { (t, e) \<leftarrow> JumpToApp H (b_eth_inited w); return (Some (Jumped t (w\<lparr>b_eth_inited := e\<rparr>))) })
      (\<lambda>n s. \<forall>x. n = Some x \<longrightarrow> jumps x s)"
    by (intro alwaysI wpI) (auto simp: jumps_def State_Monad.bind_def State_Monad.return_def split: prod.splits dest: Jump_target)
  show ?thesis unfolding main_rest_def by (auto intro!: always_if always_bind m j always_return)
qed

end



end
