(* ===== verification/Pbuf.thy ===== *)
theory Pbuf
  imports Prelude Ota_Receive
begin

text \<open>
  \<^verbatim>\<open>src/STM32/Bootloader/User/lwip-2.0.3/src/core/pbuf.c\<close>: the packet buffers, as linked structures in a
  store. Addresses are natural numbers and 0 is \<^verbatim>\<open>NULL\<close>; lengths and reference counts are 16-bit
  words. The result \<open>None\<close> of an operation is a dereference of an address where no pbuf lives, or a
  walk along a cyclic chain that does not end. Assertions are compiled out (\<^verbatim>\<open>LWIP_NOASSERT\<close>); the checks
  by \<^verbatim>\<open>LWIP_ERROR\<close> are not.
\<close>

section \<open>Structures\<close>

abbreviation ERR_MEM :: err_t where "ERR_MEM \<equiv> -1"
abbreviation ERR_VAL :: err_t where "ERR_VAL \<equiv> -6"
abbreviation ERR_IF :: err_t where "ERR_IF \<equiv> -12"
abbreviation ERR_ARG :: err_t where "ERR_ARG \<equiv> -16"

datatype pbuf_layer = PBUF_TRANSPORT | PBUF_IP | PBUF_LINK | PBUF_RAW_TX | PBUF_RAW
datatype pbuf_type = PBUF_RAM | PBUF_ROM | PBUF_REF | PBUF_POOL

record pbuf =
  pnext :: nat
  payload :: nat
  tot_len :: u16
  plen :: u16
  ptype :: pbuf_type
  pflags :: u8
  pref :: u16

text \<open>
  The store: the structures, the bytes, the free lists of the two fixed-size pools of lwIP and of the
  driver's \<^verbatim>\<open>RX_POOL\<close>, and the blocks given back to the heap.
\<close>

record store =
  pb :: "nat \<rightharpoonup> pbuf"
  bytes :: "nat \<Rightarrow> u8"
  MEMP_PBUF_POOL :: "nat list"
  MEMP_PBUF :: "nat list"
  RX_POOL :: "nat list"
  heap_freed :: "nat list"

text \<open>The heap allocator \<^verbatim>\<open>mem_malloc\<close> and the function that frees custom pbufs.\<close>

record pbuf_env =
  mem_malloc :: "nat \<Rightarrow> store \<Rightarrow> nat option"
  custom_free_function :: "nat \<Rightarrow> store \<Rightarrow> store"

definition PBUF_FLAG_IS_CUSTOM :: u8 where "PBUF_FLAG_IS_CUSTOM = 2"
definition PBUF_LINK_HLEN :: nat where "PBUF_LINK_HLEN = 14"
definition PBUF_IP_HLEN :: nat where "PBUF_IP_HLEN = 20"
definition PBUF_TRANSPORT_HLEN :: nat where "PBUF_TRANSPORT_HLEN = 20"
definition PBUF_POOL_BUFSIZE :: nat where "PBUF_POOL_BUFSIZE = 1528"
definition SIZEOF_STRUCT_PBUF :: nat where "SIZEOF_STRUCT_PBUF = 16"

definition LWIP_MEM_ALIGN_SIZE :: "nat \<Rightarrow> nat" where
  "LWIP_MEM_ALIGN_SIZE n = (n + 3) div 4 * 4"

definition put_pbuf :: "nat \<Rightarrow> pbuf \<Rightarrow> store \<Rightarrow> store" where
  "put_pbuf p b h = h\<lparr>pb := (pb h)(p \<mapsto> b)\<rparr>"

definition memcpy_to :: "nat \<Rightarrow> u8 list \<Rightarrow> store \<Rightarrow> store" where
  "memcpy_to dst xs h = h\<lparr>bytes := mem_write (bytes h) dst xs\<rparr>"

section \<open>Freeing and reference counts\<close>

text \<open>\<^verbatim>\<open>memp_free\<close> puts the element at the head of its free list; the structure is gone.\<close>

definition pbuf_dealloc :: "pbuf_env \<Rightarrow> nat \<Rightarrow> pbuf \<Rightarrow> store \<Rightarrow> store" where
  "pbuf_dealloc E p b h =
     (if pflags b AND PBUF_FLAG_IS_CUSTOM \<noteq> 0 then (custom_free_function E p h)\<lparr>pb := (pb h)(p := None)\<rparr>
      else let h = h\<lparr>pb := (pb h)(p := None)\<rparr>
           in if ptype b = PBUF_POOL then h\<lparr>MEMP_PBUF_POOL := p # MEMP_PBUF_POOL h\<rparr>
              else if ptype b = PBUF_ROM \<or> ptype b = PBUF_REF then h\<lparr>MEMP_PBUF := p # MEMP_PBUF h\<rparr>
              else h\<lparr>heap_freed := p # heap_freed h\<rparr>)"

partial_function (option) pbuf_free_loop :: "pbuf_env \<Rightarrow> nat \<Rightarrow> u8 \<Rightarrow> store \<Rightarrow> (u8 \<times> store) option" where
  "pbuf_free_loop E p count h =
     (if p = 0 then Some (count, h)
      else case pb h p of None \<Rightarrow> None
        | Some b \<Rightarrow>
            if pref b - 1 = 0 then pbuf_free_loop E (pnext b) (count + 1) (pbuf_dealloc E p (b\<lparr>pref := 0\<rparr>) h)
            else Some (count, put_pbuf p (b\<lparr>pref := pref b - 1\<rparr>) h))"

definition pbuf_free :: "pbuf_env \<Rightarrow> nat \<Rightarrow> store \<Rightarrow> (u8 \<times> store) option" where
  "pbuf_free E p h = (if p = 0 then Some (0, h) else pbuf_free_loop E p 0 h)"

definition pbuf_ref :: "nat \<Rightarrow> store \<Rightarrow> store option" where
  "pbuf_ref p h =
     (if p = 0 then Some h
      else case pb h p of None \<Rightarrow> None | Some b \<Rightarrow> Some (put_pbuf p (b\<lparr>pref := pref b + 1\<rparr>) h))"

partial_function (option) pbuf_clen_loop :: "nat \<Rightarrow> u16 \<Rightarrow> store \<Rightarrow> u16 option" where
  "pbuf_clen_loop p n h =
     (if p = 0 then Some n
      else case pb h p of None \<Rightarrow> None | Some b \<Rightarrow> pbuf_clen_loop (pnext b) (n + 1) h)"

definition pbuf_clen :: "nat \<Rightarrow> store \<Rightarrow> u16 option" where
  "pbuf_clen p h = pbuf_clen_loop p 0 h"

section \<open>Allocation\<close>

fun layer_offset :: "pbuf_layer \<Rightarrow> nat" where
  "layer_offset PBUF_TRANSPORT = PBUF_LINK_HLEN + PBUF_IP_HLEN + PBUF_TRANSPORT_HLEN"
| "layer_offset PBUF_IP = PBUF_LINK_HLEN + PBUF_IP_HLEN"
| "layer_offset PBUF_LINK = PBUF_LINK_HLEN"
| "layer_offset PBUF_RAW_TX = 0"
| "layer_offset PBUF_RAW = 0"

text \<open>The tail of a pool chain: \<open>r\<close> is the last pbuf so far, \<open>p\<close> the head to free when the pool is empty.\<close>

function pool_tail :: "pbuf_env \<Rightarrow> nat \<Rightarrow> nat \<Rightarrow> nat \<Rightarrow> store \<Rightarrow> (nat \<times> store) option" where
  "pool_tail E p r rem_len h =
     (if 0 < rem_len then
        case MEMP_PBUF_POOL h of
          [] \<Rightarrow> map_option (\<lambda>(n, h). (0, h)) (pbuf_free E p h)
        | q # qs \<Rightarrow>
            let l = min rem_len (LWIP_MEM_ALIGN_SIZE PBUF_POOL_BUFSIZE);
                h = put_pbuf q \<lparr>pnext = 0, payload = q + SIZEOF_STRUCT_PBUF, tot_len = of_nat rem_len, plen = of_nat l,
                      ptype = PBUF_POOL, pflags = 0, pref = 1\<rparr> (h\<lparr>MEMP_PBUF_POOL := qs\<rparr>)
            in case pb h r of None \<Rightarrow> None
               | Some b \<Rightarrow> pool_tail E p q (rem_len - l) (put_pbuf r (b\<lparr>pnext := q\<rparr>) h)
      else Some (p, h))"
  by pat_completeness auto
termination
  by (relation "measure (\<lambda>(E, p, r, n, h). n)") (auto simp: LWIP_MEM_ALIGN_SIZE_def PBUF_POOL_BUFSIZE_def)

declare pool_tail.simps [simp del]

text \<open>
  \<^verbatim>\<open>p->flags\<close> is cleared only at the end; an element of the pool has the flags \<open>f\<close> of its last use until
  then. Results: the address of the pbuf, or 0.
\<close>

definition pbuf_alloc :: "pbuf_env \<Rightarrow> pbuf_layer \<Rightarrow> u16 \<Rightarrow> pbuf_type \<Rightarrow> u8 \<Rightarrow> store \<Rightarrow> (nat \<times> store) option" where
  "pbuf_alloc E layer leng ty f h =
     (let offset = layer_offset layer;
          n = unat leng;
          finish = (\<lambda>p h. case pb h p of None \<Rightarrow> None | Some b \<Rightarrow> Some (p, put_pbuf p (b\<lparr>pref := 1, pflags := 0\<rparr>) h))
      in case ty of
        PBUF_POOL \<Rightarrow>
          (case MEMP_PBUF_POOL h of
             [] \<Rightarrow> Some (0, h)
           | p # qs \<Rightarrow>
               let l = min n (LWIP_MEM_ALIGN_SIZE PBUF_POOL_BUFSIZE - LWIP_MEM_ALIGN_SIZE offset);
                   h = put_pbuf p \<lparr>pnext = 0, payload = LWIP_MEM_ALIGN_SIZE (p + SIZEOF_STRUCT_PBUF + offset), tot_len = leng,
                         plen = of_nat l, ptype = PBUF_POOL, pflags = f, pref = 1\<rparr> (h\<lparr>MEMP_PBUF_POOL := qs\<rparr>)
               in case pool_tail E p p (n - l) h of None \<Rightarrow> None
                  | Some (r, h) \<Rightarrow> if r = 0 then Some (0, h) else finish p h)
      | PBUF_RAM \<Rightarrow>
          (let alloc_len = (LWIP_MEM_ALIGN_SIZE (SIZEOF_STRUCT_PBUF + offset) + LWIP_MEM_ALIGN_SIZE n) mod 65536
           in if alloc_len < LWIP_MEM_ALIGN_SIZE n then Some (0, h)
              else case mem_malloc E alloc_len h of None \<Rightarrow> Some (0, h)
                | Some p \<Rightarrow>
                    finish p (put_pbuf p \<lparr>pnext = 0, payload = LWIP_MEM_ALIGN_SIZE (p + SIZEOF_STRUCT_PBUF + offset),
                      tot_len = leng, plen = leng, ptype = PBUF_RAM, pflags = f, pref = 0\<rparr> h))
      | _ \<Rightarrow>
          (case MEMP_PBUF h of
             [] \<Rightarrow> Some (0, h)
           | p # qs \<Rightarrow>
               finish p (put_pbuf p \<lparr>pnext = 0, payload = 0, tot_len = leng, plen = leng, ptype = ty, pflags = f, pref = 0\<rparr>
                 (h\<lparr>MEMP_PBUF := qs\<rparr>))))"

definition pbuf_alloced_custom ::
  "pbuf_layer \<Rightarrow> u16 \<Rightarrow> pbuf_type \<Rightarrow> nat \<Rightarrow> nat \<Rightarrow> u16 \<Rightarrow> store \<Rightarrow> nat \<times> store" where
  "pbuf_alloced_custom l leng ty p payload_mem payload_mem_len h =
     (let offset = layer_offset l
      in if unat payload_mem_len < LWIP_MEM_ALIGN_SIZE offset + unat leng then (0, h)
         else (p, put_pbuf p \<lparr>pnext = 0, payload = (if payload_mem \<noteq> 0 then payload_mem + LWIP_MEM_ALIGN_SIZE offset else 0),
                tot_len = leng, plen = leng, ptype = ty, pflags = PBUF_FLAG_IS_CUSTOM, pref = 1\<rparr> h))"

section \<open>Headers\<close>

text \<open>The increment is a 16-bit signed value, here an integer of that range.\<close>

definition pbuf_header_impl :: "nat \<Rightarrow> int \<Rightarrow> bool \<Rightarrow> store \<Rightarrow> (u8 \<times> store) option" where
  "pbuf_header_impl p inc force h =
     (if inc = 0 \<or> p = 0 then Some (0, h)
      else case pb h p of None \<Rightarrow> None
        | Some b \<Rightarrow>
            let mag = nat \<bar>inc\<bar>;
                moved = nat (int (payload b) - inc);
                fine = Some (0, put_pbuf p (b\<lparr>payload := moved, plen := plen b + of_int inc, tot_len := tot_len b + of_int inc\<rparr>) h)
            in if inc < 0 \<and> unat (plen b) < mag then Some (1, h)
               else if ptype b = PBUF_RAM \<or> ptype b = PBUF_POOL then
                 (if int (payload b) - inc < int (p + SIZEOF_STRUCT_PBUF) then Some (1, h) else fine)
               else if inc < 0 \<and> mag \<le> unat (plen b) then fine
               else if 0 < inc \<and> force then fine
               else Some (1, h))"

definition pbuf_header :: "nat \<Rightarrow> int \<Rightarrow> store \<Rightarrow> (u8 \<times> store) option" where
  "pbuf_header p inc h = pbuf_header_impl p inc False h"

definition pbuf_header_force :: "nat \<Rightarrow> int \<Rightarrow> store \<Rightarrow> (u8 \<times> store) option" where
  "pbuf_header_force p inc h = pbuf_header_impl p inc True h"

section \<open>Chains\<close>

partial_function (option) cat_loop :: "u16 \<Rightarrow> nat \<Rightarrow> nat \<Rightarrow> store \<Rightarrow> store option" where
  "cat_loop n t p h =
     (case pb h p of None \<Rightarrow> None
      | Some b \<Rightarrow>
          if pnext b \<noteq> 0 then cat_loop n t (pnext b) (put_pbuf p (b\<lparr>tot_len := tot_len b + n\<rparr>) h)
          else Some (put_pbuf p (b\<lparr>tot_len := tot_len b + n, pnext := t\<rparr>) h))"

text \<open>The loop reads \<^verbatim>\<open>t->tot_len\<close> in every pass; \<open>t\<close> is not part of the first chain.\<close>

definition pbuf_cat :: "nat \<Rightarrow> nat \<Rightarrow> store \<Rightarrow> store option" where
  "pbuf_cat p t h =
     (if p = 0 \<or> t = 0 then Some h
      else case pb h t of None \<Rightarrow> None | Some b \<Rightarrow> cat_loop (tot_len b) t p h)"

definition pbuf_chain :: "nat \<Rightarrow> nat \<Rightarrow> store \<Rightarrow> store option" where
  "pbuf_chain p t h = (case pbuf_cat p t h of None \<Rightarrow> None | Some h \<Rightarrow> pbuf_ref t h)"

definition pbuf_dechain :: "pbuf_env \<Rightarrow> nat \<Rightarrow> store \<Rightarrow> (nat \<times> store) option" where
  "pbuf_dechain E p h =
     (case pb h p of None \<Rightarrow> None
      | Some b \<Rightarrow>
          let q = pnext b
          in if q = 0 then Some (0, h)
             else case pb h q of None \<Rightarrow> None
               | Some c \<Rightarrow>
                   let h = put_pbuf q (c\<lparr>tot_len := tot_len b - plen b\<rparr>) h;
                       h = put_pbuf p (b\<lparr>pnext := 0, tot_len := plen b\<rparr>) h
                   in map_option (\<lambda>(gone, h). (if gone > 0 then 0 else q, h)) (pbuf_free E q h))"

text \<open>Shrinking: the loop walks to the new last pbuf with the length left for it.\<close>

partial_function (option) realloc_walk :: "u16 \<Rightarrow> u16 \<Rightarrow> nat \<Rightarrow> store \<Rightarrow> (nat \<times> u16 \<times> store) option" where
  "realloc_walk grow rem_len q h =
     (case pb h q of None \<Rightarrow> None
      | Some b \<Rightarrow>
          if plen b < rem_len
          then realloc_walk grow (rem_len - plen b) (pnext b) (put_pbuf q (b\<lparr>tot_len := tot_len b + grow\<rparr>) h)
          else Some (q, rem_len, h))"

text \<open>\<^verbatim>\<open>mem_trim\<close> keeps the block where it is, so it leaves the store as it is.\<close>

definition pbuf_realloc :: "pbuf_env \<Rightarrow> nat \<Rightarrow> u16 \<Rightarrow> store \<Rightarrow> store option" where
  "pbuf_realloc E p new_len h =
     (case pb h p of None \<Rightarrow> None
      | Some b \<Rightarrow>
          if tot_len b \<le> new_len then Some h
          else case realloc_walk (new_len - tot_len b) new_len p h of None \<Rightarrow> None
            | Some (q, rem_len, h) \<Rightarrow>
                (case pb h q of None \<Rightarrow> None
                 | Some c \<Rightarrow>
                     let h = put_pbuf q (c\<lparr>plen := rem_len, tot_len := rem_len\<rparr>) h
                     in case (if pnext c \<noteq> 0 then map_option snd (pbuf_free E (pnext c) h) else Some h) of None \<Rightarrow> None
                        | Some h \<Rightarrow> Some (put_pbuf q (c\<lparr>plen := rem_len, tot_len := rem_len, pnext := 0\<rparr>) h)))"

section \<open>Copying\<close>

definition pbuf_bytes :: "store \<Rightarrow> pbuf \<Rightarrow> u8 list" where
  "pbuf_bytes h b = mem_slice (bytes h) (payload b) (unat (plen b))"

text \<open>
  One pass of the loop of \<^verbatim>\<open>pbuf_copy\<close>: the destination and source are addresses (0 at the end of a chain)
  with offsets into them; the lengths are compared as integers, as C promotes them. \<open>Inl\<close> is a
  return, \<open>Inr\<close> the next pass.
\<close>

definition is_queue :: "store \<Rightarrow> nat \<Rightarrow> bool" where
  "is_queue h q \<longleftrightarrow> (case pb h q of None \<Rightarrow> False | Some b \<Rightarrow> plen b = tot_len b \<and> pnext b \<noteq> 0)"

definition copy_next :: "nat \<Rightarrow> nat \<Rightarrow> nat \<Rightarrow> nat \<Rightarrow> store \<Rightarrow> ((err_t \<times> store) + nat \<times> nat \<times> nat \<times> nat \<times> store) option" where
  "copy_next p_to p_from offset_to offset_from h =
     (if (p_from \<noteq> 0 \<and> pb h p_from = None) \<or> (p_to \<noteq> 0 \<and> pb h p_to = None) then None
      else if p_from \<noteq> 0 \<and> is_queue h p_from then Some (Inl (ERR_VAL, h))
      else if p_to \<noteq> 0 \<and> is_queue h p_to then Some (Inl (ERR_VAL, h))
      else if p_from = 0 then Some (Inl (ERR_OK, h))
      else Some (Inr (p_to, p_from, offset_to, offset_from, h)))"

definition copy_step :: "nat \<Rightarrow> nat \<Rightarrow> nat \<Rightarrow> nat \<Rightarrow> store \<Rightarrow> ((err_t \<times> store) + nat \<times> nat \<times> nat \<times> nat \<times> store) option" where
  "copy_step p_to p_from offset_to offset_from h =
     (case (pb h p_to, pb h p_from) of
        (Some t, Some f) \<Rightarrow>
          let n = (if int (unat (plen f)) - int offset_from \<le> int (unat (plen t)) - int offset_to
                   then unat (plen f) - offset_from else unat (plen t) - offset_to);
              h = memcpy_to (payload t + offset_to) (mem_slice (bytes h) (payload f + offset_from) n) h;
              offset_to = offset_to + n;
              offset_from = offset_from + n;
              src = (if unat (plen f) \<le> offset_from then (pnext f, 0) else (p_from, offset_from))
          in if offset_to = unat (plen t)
             then if pnext t = 0 \<and> fst src \<noteq> 0 then Some (Inl (ERR_ARG, h))
                  else copy_next (pnext t) (fst src) 0 (snd src) h
             else copy_next p_to (fst src) offset_to (snd src) h
      | _ \<Rightarrow> None)"

partial_function (option) copy_loop :: "nat \<Rightarrow> nat \<Rightarrow> nat \<Rightarrow> nat \<Rightarrow> store \<Rightarrow> (err_t \<times> store) option" where
  "copy_loop p_to p_from offset_to offset_from h =
     (case copy_step p_to p_from offset_to offset_from h of
        None \<Rightarrow> None
      | Some r \<Rightarrow> (case r of Inl x \<Rightarrow> Some x | Inr (t, f, ot, ofr, h) \<Rightarrow> copy_loop t f ot ofr h))"

definition pbuf_copy :: "nat \<Rightarrow> nat \<Rightarrow> store \<Rightarrow> (err_t \<times> store) option" where
  "pbuf_copy p_to p_from h =
     (if p_to = 0 \<or> p_from = 0 then Some (ERR_ARG, h)
      else case (pb h p_to, pb h p_from) of
        (Some t, Some f) \<Rightarrow> if tot_len t < tot_len f then Some (ERR_ARG, h) else copy_loop p_to p_from 0 0 h
      | _ \<Rightarrow> None)"

text \<open>The bytes stored at \<^verbatim>\<open>dataptr\<close>; their number is the result of the function.\<close>

partial_function (option) copy_partial_loop :: "nat \<Rightarrow> nat \<Rightarrow> nat \<Rightarrow> store \<Rightarrow> u8 list option" where
  "copy_partial_loop p n offset h =
     (if n = 0 \<or> p = 0 then Some []
      else case pb h p of None \<Rightarrow> None
        | Some b \<Rightarrow>
            if offset \<noteq> 0 \<and> unat (plen b) \<le> offset then copy_partial_loop (pnext b) n (offset - unat (plen b)) h
            else let k = min (unat (plen b) - offset) n
                 in Option.bind (copy_partial_loop (pnext b) (n - k) 0 h) (\<lambda>xs. Some (mem_slice (bytes h) (payload b + offset) k @ xs)))"

definition pbuf_copy_partial :: "nat \<Rightarrow> u16 \<Rightarrow> u16 \<Rightarrow> store \<Rightarrow> u8 list option" where
  "pbuf_copy_partial p n offset h = (if p = 0 then Some [] else copy_partial_loop p (unat n) (unat offset) h)"

partial_function (option) pbuf_skip :: "nat \<Rightarrow> nat \<Rightarrow> store \<Rightarrow> (nat \<times> nat) option" where
  "pbuf_skip q offset_left h =
     (if q = 0 then Some (0, offset_left)
      else case pb h q of None \<Rightarrow> None
        | Some b \<Rightarrow> if unat (plen b) \<le> offset_left then pbuf_skip (pnext b) (offset_left - unat (plen b)) h else Some (q, offset_left))"

partial_function (option) take_loop :: "nat \<Rightarrow> u8 list \<Rightarrow> store \<Rightarrow> store option" where
  "take_loop p xs h =
     (if xs = [] then Some h
      else case pb h p of None \<Rightarrow> None
        | Some b \<Rightarrow> take_loop (pnext b) (drop (unat (plen b)) xs) (memcpy_to (payload b) (take (unat (plen b)) xs) h))"

text \<open>\<open>xs\<close> are the \<^verbatim>\<open>len\<close> bytes at \<^verbatim>\<open>dataptr\<close>, which is not \<^verbatim>\<open>NULL\<close>.\<close>

definition pbuf_take :: "nat \<Rightarrow> u8 list \<Rightarrow> store \<Rightarrow> (err_t \<times> store) option" where
  "pbuf_take p xs h =
     (if p = 0 then Some (ERR_ARG, h)
      else case pb h p of None \<Rightarrow> None
        | Some b \<Rightarrow> if unat (tot_len b) < length xs then Some (ERR_MEM, h) else map_option (\<lambda>h. (ERR_OK, h)) (take_loop p xs h))"

definition pbuf_take_at :: "nat \<Rightarrow> u8 list \<Rightarrow> u16 \<Rightarrow> store \<Rightarrow> (err_t \<times> store) option" where
  "pbuf_take_at p xs offset h =
     (case pbuf_skip p (unat offset) h of None \<Rightarrow> None
      | Some (q, target) \<Rightarrow>
          if q = 0 then Some (ERR_MEM, h)
          else case pb h q of None \<Rightarrow> None
            | Some b \<Rightarrow>
                if unat (tot_len b) < target + length xs then Some (ERR_MEM, h)
                else let k = min (unat (plen b) - target) (length xs);
                         h = memcpy_to (payload b + target) (take k xs) h
                     in if 0 < length xs - k then pbuf_take (pnext b) (drop k xs) h else Some (ERR_OK, h))"

definition pbuf_coalesce :: "pbuf_env \<Rightarrow> nat \<Rightarrow> pbuf_layer \<Rightarrow> u8 \<Rightarrow> store \<Rightarrow> (nat \<times> store) option" where
  "pbuf_coalesce E p layer f h =
     (case pb h p of None \<Rightarrow> None
      | Some b \<Rightarrow>
          if pnext b = 0 then Some (p, h)
          else case pbuf_alloc E layer (tot_len b) PBUF_RAM f h of None \<Rightarrow> None
            | Some (q, h) \<Rightarrow>
                if q = 0 then Some (p, h)
                else case pbuf_copy q p h of None \<Rightarrow> None
                  | Some (e, h) \<Rightarrow> map_option (\<lambda>(n, h). (q, h)) (pbuf_free E p h))"

section \<open>Single bytes and searching\<close>

text \<open>\<open>None\<close> inside is the result \<^verbatim>\<open>-1\<close>.\<close>

definition pbuf_try_get_at :: "nat \<Rightarrow> u16 \<Rightarrow> store \<Rightarrow> u8 option option" where
  "pbuf_try_get_at p offset h =
     (case pbuf_skip p (unat offset) h of None \<Rightarrow> None
      | Some (q, i) \<Rightarrow>
          if q = 0 then Some None
          else case pb h q of None \<Rightarrow> None | Some b \<Rightarrow> if i < unat (plen b) then Some (Some (bytes h (payload b + i))) else Some None)"

definition pbuf_get_at :: "nat \<Rightarrow> u16 \<Rightarrow> store \<Rightarrow> u8 option" where
  "pbuf_get_at p offset h =
     (case pbuf_try_get_at p offset h of None \<Rightarrow> None | Some r \<Rightarrow> Some (case r of None \<Rightarrow> 0 | Some x \<Rightarrow> x))"

definition pbuf_put_at :: "nat \<Rightarrow> u16 \<Rightarrow> u8 \<Rightarrow> store \<Rightarrow> store option" where
  "pbuf_put_at p offset x h =
     (case pbuf_skip p (unat offset) h of None \<Rightarrow> None
      | Some (q, i) \<Rightarrow>
          if q = 0 then Some h
          else case pb h q of None \<Rightarrow> None
            | Some b \<Rightarrow> if i < unat (plen b) then Some (memcpy_to (payload b + i) [x] h) else Some h)"

fun memcmp_loop :: "nat \<Rightarrow> nat \<Rightarrow> nat \<Rightarrow> u8 list \<Rightarrow> store \<Rightarrow> u16 option" where
  "memcmp_loop q start i [] h = Some 0"
| "memcmp_loop q start i (b # bs) h =
     (case pbuf_get_at q (of_nat (start + i)) h of None \<Rightarrow> None
      | Some a \<Rightarrow> if a \<noteq> b then Some (of_nat (i + 1)) else memcmp_loop q start (i + 1) bs h)"

definition pbuf_memcmp :: "nat \<Rightarrow> u16 \<Rightarrow> u8 list \<Rightarrow> store \<Rightarrow> u16 option" where
  "pbuf_memcmp p offset s2 h =
     (case pb h p of None \<Rightarrow> None
      | Some b \<Rightarrow>
          if unat (tot_len b) < unat offset + length s2 then Some 0xFFFF
          else case pbuf_skip p (unat offset) h of None \<Rightarrow> None
            | Some (q, start) \<Rightarrow> memcmp_loop q start 0 s2 h)"

partial_function (option) memfind_loop :: "nat \<Rightarrow> u16 \<Rightarrow> u16 \<Rightarrow> u8 list \<Rightarrow> store \<Rightarrow> u16 option" where
  "memfind_loop p i mx xs h =
     (if i \<le> mx then
        case pbuf_memcmp p i xs h of None \<Rightarrow> None
        | Some r \<Rightarrow> if r = 0 then Some i else memfind_loop p (i + 1) mx xs h
      else Some 0xFFFF)"

definition pbuf_memfind :: "nat \<Rightarrow> u8 list \<Rightarrow> u16 \<Rightarrow> store \<Rightarrow> u16 option" where
  "pbuf_memfind p xs start h =
     (case pb h p of None \<Rightarrow> None
      | Some b \<Rightarrow>
          if length xs + unat start \<le> unat (tot_len b) then memfind_loop p start (tot_len b - of_nat (length xs)) xs h
          else Some 0xFFFF)"

text \<open>\<open>xs\<close> is the string without its terminating 0.\<close>

definition pbuf_strstr :: "nat \<Rightarrow> u8 list \<Rightarrow> store \<Rightarrow> u16 option" where
  "pbuf_strstr p xs h =
     (if xs = [] then Some 0xFFFF
      else case pb h p of None \<Rightarrow> None
        | Some b \<Rightarrow>
            if tot_len b = 0xFFFF then Some 0xFFFF
            else if 0xFFFF \<le> length xs then Some 0xFFFF
            else pbuf_memfind p xs 0 h)"

end
