(* ===== verification/Pbuf_Correct.thy ===== *)
theory Pbuf_Correct
  imports Pbuf
begin

text \<open>
  The invariant of packet buffers (a chain of distinct live structures whose total lengths add up)
  and the correctness of the operations: freeing respects the reference counts and returns every
  structure to where it came from, concatenation joins the contents, copying in and out reads and
  writes the contents, and an allocation from the pool that fails gives everything back.
\<close>

section \<open>Chains and packets\<close>

fun chain :: "store \<Rightarrow> nat \<Rightarrow> nat list \<Rightarrow> bool" where
  "chain h p [] \<longleftrightarrow> p = 0"
| "chain h p (a # as) \<longleftrightarrow> p = a \<and> a \<noteq> 0 \<and> (\<exists>b. pb h a = Some b \<and> chain h (pnext b) as)"

definition the_pb :: "store \<Rightarrow> nat \<Rightarrow> pbuf" where
  "the_pb h a = the (pb h a)"

definition total :: "store \<Rightarrow> nat list \<Rightarrow> nat" where
  "total h as = (\<Sum>a\<leftarrow>as. unat (plen (the_pb h a)))"

fun tots :: "store \<Rightarrow> nat list \<Rightarrow> bool" where
  "tots h [] \<longleftrightarrow> True"
| "tots h (a # as) \<longleftrightarrow> unat (tot_len (the_pb h a)) = total h (a # as) \<and> tots h as"

definition packet :: "store \<Rightarrow> nat \<Rightarrow> nat list \<Rightarrow> bool" where
  "packet h p as \<longleftrightarrow> p \<noteq> 0 \<and> chain h p as \<and> distinct as \<and> tots h as"

definition contents :: "store \<Rightarrow> nat list \<Rightarrow> u8 list" where
  "contents h as = concat (map (\<lambda>a. pbuf_bytes h (the_pb h a)) as)"

lemma total_simps [simp]: "total h [] = 0" "total h (a # as) = unat (plen (the_pb h a)) + total h as"
  "total h (as @ bs) = total h as + total h bs"
  by (simp_all add: total_def)

lemma contents_simps [simp]: "contents h [] = []" "contents h (a # as) = pbuf_bytes h (the_pb h a) @ contents h as"
  "contents h (as @ bs) = contents h as @ contents h bs"
  by (simp_all add: contents_def)

lemma length_contents: "length (contents h as) = total h as"
  by (induction as) (auto simp: pbuf_bytes_def)

lemma put_pbuf_simps [simp]: "pb (put_pbuf p b h) a = (if a = p then Some b else pb h a)" "bytes (put_pbuf p b h) = bytes h"
  "MEMP_PBUF_POOL (put_pbuf p b h) = MEMP_PBUF_POOL h" "MEMP_PBUF (put_pbuf p b h) = MEMP_PBUF h"
  "RX_POOL (put_pbuf p b h) = RX_POOL h" "heap_freed (put_pbuf p b h) = heap_freed h"
  by (simp_all add: put_pbuf_def)

lemma the_pb_put [simp]: "the_pb (put_pbuf p b h) a = (if a = p then b else the_pb h a)"
  by (simp add: the_pb_def)

lemma memcpy_to_simps [simp]: "pb (memcpy_to d xs h) = pb h" "the_pb (memcpy_to d xs h) = the_pb h"
  "bytes (memcpy_to d xs h) = mem_write (bytes h) d xs"
  by (simp_all add: memcpy_to_def the_pb_def fun_eq_iff)

lemma chain_cong: "(\<And>a. a \<in> set as \<Longrightarrow> pb h' a = pb h a) \<Longrightarrow> chain h' p as = chain h p as"
  by (induction as arbitrary: p) auto

lemma total_cong: "(\<And>a. a \<in> set as \<Longrightarrow> pb h' a = pb h a) \<Longrightarrow> total h' as = total h as"
  by (induction as) (auto simp: the_pb_def)

lemma tots_cong: "(\<And>a. a \<in> set as \<Longrightarrow> pb h' a = pb h a) \<Longrightarrow> tots h' as = tots h as"
proof (induction as)
  case (Cons a as)
  then show ?case using total_cong [of as h' h] by (auto simp: the_pb_def)
qed simp

lemma contents_cong:
  "(\<And>a. a \<in> set as \<Longrightarrow> pb h' a = pb h a) \<Longrightarrow> bytes h' = bytes h \<Longrightarrow> contents h' as = contents h as"
  by (induction as) (auto simp: the_pb_def pbuf_bytes_def)

lemma chain_nonzero: "chain h p as \<Longrightarrow> a \<in> set as \<Longrightarrow> a \<noteq> 0 \<and> pb h a = Some (the_pb h a)"
  by (induction as arbitrary: p) (auto simp: the_pb_def)

lemma total_tl_less: "tots h (a # as) \<Longrightarrow> total h (a # as) < 65536"
  using unsigned_less [of "tot_len (the_pb h a)", where 'a = nat] by simp

section \<open>Freeing\<close>

text \<open>What one deallocation does when the custom function is the driver's.\<close>

definition returned :: "pbuf_type option \<Rightarrow> store \<Rightarrow> nat list \<Rightarrow> nat list" where
  "returned k h as = rev (filter (\<lambda>a. let b = the_pb h a in
     if pflags b AND PBUF_FLAG_IS_CUSTOM \<noteq> 0 then k = None
     else k = Some (if ptype b = PBUF_ROM then PBUF_REF else ptype b)) as)"

definition freed :: "store \<Rightarrow> nat list \<Rightarrow> store" where
  "freed h as = h\<lparr>pb := (\<lambda>a. if a \<in> set as then None else pb h a),
     MEMP_PBUF_POOL := returned (Some PBUF_POOL) h as @ MEMP_PBUF_POOL h, MEMP_PBUF := returned (Some PBUF_REF) h as @ MEMP_PBUF h,
     RX_POOL := returned None h as @ RX_POOL h, heap_freed := returned (Some PBUF_RAM) h as @ heap_freed h\<rparr>"

lemma freed_Nil [simp]: "freed h [] = h"
  by (simp add: freed_def returned_def)

lemma returned_cong: "(\<And>a. a \<in> set as \<Longrightarrow> pb h' a = pb h a) \<Longrightarrow> returned k h' as = returned k h as"
  by (simp add: returned_def the_pb_def cong: filter_cong)

lemma returned_Cons: "returned k h (a # as) = returned k h as @ returned k h [a]"
  by (simp add: returned_def)

text \<open>
  The interface to the driver whose buffers custom pbufs wrap: freeing one gives its structure back to
  the driver's pool and touches nothing else.
\<close>

locale custom_pbufs =
  fixes E :: pbuf_env
  assumes free_custom: "custom_free_function E p h = h\<lparr>RX_POOL := p # RX_POOL h\<rparr>"
begin

lemma dealloc_freed:
  assumes "pb h p = Some b"
  shows "pbuf_dealloc E p (b\<lparr>pref := 0\<rparr>) h = freed h [p]"
  using assms by (cases "ptype b") (auto simp: free_custom pbuf_dealloc_def freed_def returned_def the_pb_def Let_def fun_eq_iff)

end

lemma freed_freed:
  assumes "p \<notin> set as"
  shows "freed (freed h [p]) as = freed h (p # as)"
proof -
  have "returned k (freed h [p]) as = returned k h as" for k by (rule returned_cong) (use assms in \<open>auto simp: freed_def\<close>)
  then show ?thesis by (auto simp: freed_def returned_Cons [of _ _ p as] fun_eq_iff)
qed

context custom_pbufs
begin

text \<open>The head of the chain with one reference goes, the first pbuf with more loses one.\<close>

lemma free_loop_ok:
  assumes "chain h p (xs @ ys)" "distinct (xs @ ys)" "\<forall>x \<in> set xs. pref (the_pb h x) = 1"
    "ys \<noteq> [] \<longrightarrow> pref (the_pb h (hd ys)) \<noteq> 1"
  shows "pbuf_free_loop E p n h = Some (n + of_nat (length xs),
    if ys = [] then freed h xs
    else put_pbuf (hd ys) ((the_pb h (hd ys))\<lparr>pref := pref (the_pb h (hd ys)) - 1\<rparr>) (freed h xs))"
  using assms
proof (induction xs arbitrary: p n h)
  case Nil
  show ?case
  proof (cases ys)
    case Nil
    then show ?thesis using \<open>chain h p ([] @ ys)\<close> by (subst pbuf_free_loop.simps) simp
  next
    case (Cons y zs)
    then obtain b where "p = y" "y \<noteq> 0" "pb h y = Some b" using Nil.prems(1) by auto
    moreover have "pref b - 1 \<noteq> 0" using Nil.prems(4) Cons calculation by (simp add: the_pb_def)
    ultimately show ?thesis using Cons by (subst pbuf_free_loop.simps) (simp add: the_pb_def)
  qed
next
  case (Cons x xs)
  then obtain b where x: "p = x" "x \<noteq> 0" "pb h x = Some b" "chain h (pnext b) (xs @ ys)" by auto
  let ?h = "freed h [x]"
  have same: "pb ?h a = pb h a" if "a \<in> set (xs @ ys)" for a using that Cons.prems(2) by (auto simp: freed_def)
  have the: "the_pb ?h a = the_pb h a" if "a \<in> set (xs @ ys)" for a using same [OF that] by (simp add: the_pb_def)
  have "pbuf_free_loop E (pnext b) (n + 1) ?h = Some (n + 1 + of_nat (length xs),
      if ys = [] then freed ?h xs
      else put_pbuf (hd ys) ((the_pb ?h (hd ys))\<lparr>pref := pref (the_pb ?h (hd ys)) - 1\<rparr>) (freed ?h xs))"
  proof (rule Cons.IH)
    show "chain ?h (pnext b) (xs @ ys)" using x(4) chain_cong [OF same] by blast
    show "ys \<noteq> [] \<longrightarrow> pref (the_pb ?h (hd ys)) \<noteq> 1" using Cons.prems(4) the by simp
  qed (use Cons.prems(2,3) the in auto)
  moreover have "pref b - 1 = 0" using Cons.prems(3) x by (simp add: the_pb_def)
  moreover have "freed ?h xs = freed h (x # xs)" using Cons.prems(2) by (intro freed_freed) simp
  moreover have "ys \<noteq> [] \<longrightarrow> the_pb ?h (hd ys) = the_pb h (hd ys)" using the by simp
  ultimately show ?case
    using x dealloc_freed [OF x(3)] by (subst pbuf_free_loop.simps) (auto simp: ac_simps)
qed

end

section \<open>Concatenation\<close>

text \<open>The loop adds \<open>n\<close> to every total of the first chain and links its end to \<open>t\<close>.\<close>

fun linked :: "u16 \<Rightarrow> nat \<Rightarrow> nat list \<Rightarrow> store \<Rightarrow> store" where
  "linked n t [] h = h"
| "linked n t (a # as) h =
     linked n t as (put_pbuf a ((the_pb h a)\<lparr>tot_len := tot_len (the_pb h a) + n, pnext := (if as = [] then t else hd as)\<rparr>) h)"

lemma linked_other: "b \<notin> set as \<Longrightarrow> pb (linked n t as h) b = pb h b"
  by (induction as arbitrary: h) auto

lemma linked_bytes [simp]: "bytes (linked n t as h) = bytes h"
  by (induction as arbitrary: h) auto

lemma linked_pb:
  "distinct as \<Longrightarrow> i < length as \<Longrightarrow> pb (linked n t as h) (as ! i) =
     Some ((the_pb h (as ! i))\<lparr>tot_len := tot_len (the_pb h (as ! i)) + n, pnext := (if Suc i = length as then t else as ! Suc i)\<rparr>)"
proof (induction as arbitrary: h i)
  case (Cons a as)
  show ?case
  proof (cases i)
    case 0
    then show ?thesis using Cons.prems linked_other [of a as] by (auto simp: hd_conv_nth)
  next
    case (Suc j)
    then have "as ! j \<noteq> a" using Cons.prems by auto
    then show ?thesis using Suc Cons by simp
  qed
qed simp

lemma cat_loop_ok:
  assumes "chain h p (a # as)" "distinct (a # as)"
  shows "cat_loop n t p h = Some (linked n t (a # as) h)"
  using assms
proof (induction as arbitrary: a p h)
  case Nil
  then show ?case by (subst cat_loop.simps) (auto simp: the_pb_def)
next
  case (Cons b as)
  then obtain x where x: "p = a" "pb h a = Some x" "pnext x = b" "b \<noteq> 0" "chain h b (b # as)" by auto
  let ?h = "put_pbuf a (x\<lparr>tot_len := tot_len x + n\<rparr>) h"
  have "chain ?h b (b # as) = chain h b (b # as)" by (rule chain_cong) (use Cons.prems(2) in auto)
  then have "cat_loop n t b ?h = Some (linked n t (b # as) ?h)" using Cons.IH [of ?h b b] x Cons.prems(2) by simp
  moreover have "?h = put_pbuf a ((the_pb h a)\<lparr>tot_len := tot_len (the_pb h a) + n, pnext := b\<rparr>) h"
    using x by (simp add: the_pb_def flip: x(3))
  ultimately show ?case using x by (subst cat_loop.simps) simp
qed

lemma linked_chain:
  assumes "chain h p as" "distinct as" "as \<noteq> []" "chain h t bs" "set as \<inter> set bs = {}"
  shows "chain (linked n t as h) p (as @ bs)"
proof -
  let ?h = "linked n t as h"
  have tail: "chain ?h t bs" using assms(4,5) chain_cong [of bs ?h h t] linked_other [of _ as n t h] by blast
  have "chain ?h (as ! i) (drop i as @ bs)" if "i < length as" for i
    using that
  proof (induction "length as - i" arbitrary: i)
    case (Suc k)
    have nz: "as ! i \<noteq> 0" using chain_nonzero [OF assms(1)] Suc.prems by simp
    show ?case
    proof (cases "Suc i = length as")
      case True
      then show ?thesis
        using tail nz linked_pb [OF assms(2) Suc.prems, of n t h] by (simp add: Cons_nth_drop_Suc [symmetric])
    next
      case False
      then have "chain ?h (as ! Suc i) (drop (Suc i) as @ bs)" using Suc by simp
      then show ?thesis
        using False nz linked_pb [OF assms(2) Suc.prems, of n t h] Suc.prems by (simp add: Cons_nth_drop_Suc [symmetric])
    qed
  qed simp
  from this [of 0] assms(1,3) show ?thesis by (cases as) auto
qed

lemma linked_the:
  assumes "distinct as" "a \<in> set as"
  shows "plen (the_pb (linked n t as h) a) = plen (the_pb h a)" "payload (the_pb (linked n t as h) a) = payload (the_pb h a)"
    "pref (the_pb (linked n t as h) a) = pref (the_pb h a)" "tot_len (the_pb (linked n t as h) a) = tot_len (the_pb h a) + n"
proof -
  obtain i where i: "i < length as" "a = as ! i" using assms(2) by (metis in_set_conv_nth)
  from linked_pb [OF assms(1) i(1), of n t h] i(2) show "plen (the_pb (linked n t as h) a) = plen (the_pb h a)"
    "payload (the_pb (linked n t as h) a) = payload (the_pb h a)" "pref (the_pb (linked n t as h) a) = pref (the_pb h a)"
    "tot_len (the_pb (linked n t as h) a) = tot_len (the_pb h a) + n"
    by (simp_all add: the_pb_def)
qed

lemma linked_total: "distinct as \<Longrightarrow> total (linked n t as h) as = total h as"
  by (simp add: total_def linked_the cong: map_cong)

lemma linked_contents: "distinct as \<Longrightarrow> contents (linked n t as h) as = contents h as"
  unfolding contents_def pbuf_bytes_def by (intro arg_cong [where f = concat] map_cong) (simp_all add: linked_the)

lemma tots_append:
  assumes "tots h as" "tots h' bs" "\<forall>a \<in> set as. plen (the_pb h' a) = plen (the_pb h a) \<and>
    unat (tot_len (the_pb h' a)) = unat (tot_len (the_pb h a)) + total h' bs"
  shows "tots h' (as @ bs) \<and> total h' as = total h as"
  using assms by (induction as) auto

lemma tots_bound: "tots h as \<Longrightarrow> a \<in> set as \<Longrightarrow> unat (tot_len (the_pb h a)) \<le> total h as"
  by (induction as) force+

lemma packet_cat:
  assumes as: "packet h p as" and bs: "packet h t bs" and dis: "set as \<inter> set bs = {}" and room: "total h as + total h bs < 65536"
  shows "\<exists>h'. pbuf_cat p t h = Some h' \<and> packet h' p (as @ bs) \<and> contents h' (as @ bs) = contents h as @ contents h bs \<and>
    (\<forall>a. map_option pref (pb h' a) = map_option pref (pb h a)) \<and> (\<forall>a. a \<notin> set as \<longrightarrow> pb h' a = pb h a)"
proof -
  obtain a as' where a: "as = a # as'" using as by (cases as) (auto simp: packet_def)
  obtain b bs' where b: "bs = b # bs'" "t = b" "pb h t = Some (the_pb h t)"
    using bs by (cases bs) (auto simp: packet_def the_pb_def)
  define n where "n = tot_len (the_pb h t)"
  define h' where "h' = linked n t as h"
  have n: "unat n = total h bs" using bs b by (simp add: packet_def n_def)
  have cat: "pbuf_cat p t h = Some h'"
    using as bs b(3) cat_loop_ok [of h p a as' n t] a by (simp add: pbuf_cat_def packet_def n_def h'_def)
  have other: "pb h' x = pb h x" if "x \<notin> set as" for x using linked_other [OF that] by (simp add: h'_def)
  have inside: "pref (the_pb h' x) = pref (the_pb h x)" "pb h' x = Some (the_pb h' x)" "pb h x = Some (the_pb h x)" if x: "x \<in> set as" for x
  proof -
    have d: "distinct as" and c: "chain h p as" using as by (simp_all add: packet_def)
    show "pref (the_pb h' x) = pref (the_pb h x)" "pb h x = Some (the_pb h x)"
      using linked_the(3) [OF d x] chain_nonzero [OF c x] by (simp_all add: h'_def)
    obtain i where "i < length as" "x = as ! i" using x by (metis in_set_conv_nth)
    then show "pb h' x = Some (the_pb h' x)" using linked_pb [OF d, of i n t h] by (simp add: h'_def the_pb_def)
  qed
  have bs': "total h' bs = total h bs" "tots h' bs" "contents h' bs = contents h bs"
    using bs dis other total_cong [of bs h' h] tots_cong [of bs h' h] contents_cong [of bs h' h]
    by (auto simp: packet_def h'_def)
  have up: "unat (tot_len (the_pb h' x)) = unat (tot_len (the_pb h x)) + total h' bs" if x: "x \<in> set as" for x
  proof -
    have "unat (tot_len (the_pb h x)) \<le> total h as" using as x by (intro tots_bound) (simp_all add: packet_def)
    then have "unat (tot_len (the_pb h x) + n) = unat (tot_len (the_pb h x)) + unat n"
      using room n by (subst unat_word_ariths) simp
    then show ?thesis using as x n bs'(1) by (simp add: linked_the packet_def h'_def)
  qed
  have "chain h' p (as @ bs)"
    unfolding h'_def by (rule linked_chain) (use as bs dis a in \<open>simp_all add: packet_def\<close>)
  moreover have "tots h' (as @ bs)"
    using tots_append [of h as h' bs] as bs' up by (simp add: packet_def linked_the h'_def)
  moreover have "map_option pref (pb h' x) = map_option pref (pb h x)" for x
    using inside [of x] other [of x] by (cases "x \<in> set as") simp_all
  ultimately show ?thesis
    using cat as bs dis other bs'(3) linked_contents [of as n t h] by (auto simp: packet_def h'_def)
qed

section \<open>Copying in and out\<close>

text \<open>The buffers of a chain do not overlap.\<close>

fun apart :: "store \<Rightarrow> nat list \<Rightarrow> bool" where
  "apart h [] \<longleftrightarrow> True"
| "apart h (a # as) \<longleftrightarrow> apart h as \<and> (\<forall>b \<in> set as. let x = the_pb h a; y = the_pb h b in
     payload x + unat (plen x) \<le> payload y \<or> payload y + unat (plen y) \<le> payload x)"

lemma mem_slice_write_other:
  "b + k \<le> a \<or> a + length xs \<le> b \<Longrightarrow> mem_slice (mem_write m a xs) b k = mem_slice m b k"
  by (rule mem_slice_cong) (auto simp: mem_write_def)

lemma mem_slice_write_prefix:
  "length xs \<le> k \<Longrightarrow> mem_slice (mem_write m a xs) a k = xs @ drop (length xs) (mem_slice m a k)"
  by (rule nth_equalityI) (auto simp: mem_write_def nth_append)

lemma contents_write_other:
  assumes "\<forall>b \<in> set as. let y = the_pb h b in d + length xs \<le> payload y \<or> payload y + unat (plen y) \<le> d"
  shows "contents (memcpy_to d xs h) as = contents h as"
  using assms by (induction as) (auto simp: pbuf_bytes_def Let_def mem_slice_write_other)

definition in_bufs :: "store \<Rightarrow> nat list \<Rightarrow> nat \<Rightarrow> bool" where
  "in_bufs h as x \<longleftrightarrow> (\<exists>a \<in> set as. payload (the_pb h a) \<le> x \<and> x < payload (the_pb h a) + unat (plen (the_pb h a)))"

lemma memcpy_same [simp]: "apart (memcpy_to d xs h) as = apart h as" "total (memcpy_to d xs h) as = total h as"
  "in_bufs (memcpy_to d xs h) as = in_bufs h as"
  by (induction as) (simp_all add: Let_def in_bufs_def fun_eq_iff)

lemma take_loop_ok:
  assumes "chain h p as" "apart h as" "length xs \<le> total h as"
  shows "\<exists>h'. take_loop p xs h = Some h' \<and> pb h' = pb h \<and> contents h' as = xs @ drop (length xs) (contents h as) \<and>
    (\<forall>x. \<not> in_bufs h as x \<longrightarrow> bytes h' x = bytes h x)"
  using assms
proof (induction as arbitrary: p xs h)
  case Nil
  then show ?case by (subst take_loop.simps) simp
next
  case (Cons a as)
  then obtain b where b: "p = a" "a \<noteq> 0" "pb h a = Some b" "chain h (pnext b) as" by auto
  show ?case
  proof (cases "xs = []")
    case True
    then show ?thesis by (subst take_loop.simps) simp
  next
    case False
    let ?n = "unat (plen b)"
    let ?h = "memcpy_to (payload b) (take ?n xs) h"
    have the: "the_pb h a = b" using b by (simp add: the_pb_def)
    have "chain ?h (pnext b) as" using b(4) chain_cong [of as ?h h] by simp
    moreover have "length (drop ?n xs) \<le> total ?h as" using Cons.prems(3) the by simp
    ultimately obtain h' where h': "take_loop (pnext b) (drop ?n xs) ?h = Some h'" "pb h' = pb h"
      "contents h' as = drop ?n xs @ drop (length (drop ?n xs)) (contents ?h as)"
      "\<forall>x. \<not> in_bufs h as x \<longrightarrow> bytes h' x = bytes ?h x"
      using Cons.IH [of ?h "pnext b" "drop ?n xs"] Cons.prems(2) by auto
    have tail: "contents ?h as = contents h as"
      by (rule contents_write_other) (use Cons.prems(2) the in \<open>auto simp: Let_def\<close>)
    have out: "\<not> in_bufs h as x" if "payload b \<le> x" "x < payload b + ?n" for x
      using that Cons.prems(2) the by (fastforce simp: in_bufs_def Let_def)
    have "pbuf_bytes h' b = pbuf_bytes ?h b"
      unfolding pbuf_bytes_def by (rule mem_slice_cong) (use h'(4) out in simp)
    also have "\<dots> = take ?n xs @ drop (length (take ?n xs)) (pbuf_bytes h b)"
      by (simp add: pbuf_bytes_def mem_slice_write_prefix)
    finally have hd: "pbuf_bytes h' b = take ?n xs @ drop (length xs) (pbuf_bytes h b)"
      by (simp add: pbuf_bytes_def min_def)
    have "the_pb h' a = b" using h'(2) b by (simp add: the_pb_def)
    then have "contents h' (a # as) = xs @ drop (length xs) (contents h (a # as))"
      using hd h'(3) tail the by (cases "length xs \<le> ?n") (simp_all add: pbuf_bytes_def)
    moreover have "bytes h' x = bytes h x" if "\<not> in_bufs h (a # as) x" for x
      using that h'(4) the by (auto simp: in_bufs_def mem_write_def)
    ultimately show ?thesis using h' b False by (subst take_loop.simps) simp
  qed
qed

lemma copy_partial_ok:
  "chain h p as \<Longrightarrow> copy_partial_loop p n off h = Some (take n (drop off (contents h as)))"
proof (induction as arbitrary: p n off)
  case Nil
  then show ?case by (subst copy_partial_loop.simps) simp
next
  case (Cons a as)
  then obtain b where b: "p = a" "a \<noteq> 0" "pb h a = Some b" "chain h (pnext b) as" by auto
  have the: "the_pb h a = b" using b by (simp add: the_pb_def)
  let ?n = "unat (plen b)"
  have len: "length (pbuf_bytes h b) = ?n" by (simp add: pbuf_bytes_def)
  show ?case
  proof (cases "n = 0")
    case True
    then show ?thesis by (subst copy_partial_loop.simps) simp
  next
    case False
    show ?thesis
    proof (cases "off \<noteq> 0 \<and> ?n \<le> off")
      case True
      then show ?thesis using False b the len Cons.IH [OF b(4)] by (subst copy_partial_loop.simps) simp
    next
      case no: False
      define k where "k = min (?n - off) n"
      have "mem_slice (bytes h) (payload b + off) k = take k (drop off (pbuf_bytes h b))"
        by (rule nth_equalityI) (auto simp: pbuf_bytes_def k_def ac_simps)
      moreover have "take k (drop off (pbuf_bytes h b)) = take n (drop off (pbuf_bytes h b))" "n - k = n - (?n - off)"
        by (simp_all add: k_def len min_def)
      ultimately show ?thesis
        using False no b the len Cons.IH [OF b(4), of "n - k" 0]
        by (subst copy_partial_loop.simps) (auto simp: k_def [symmetric] Let_def)
    qed
  qed
qed

section \<open>Allocation from the pool\<close>

text \<open>
  The part of the chain that \<open>pool_tail\<close> adds, and what it does when the pool runs dry. \<open>as\<close> is the
  chain so far, from \<open>p\<close> to \<open>r\<close>; its totals count the \<open>rem\<close> bytes that are still to come.
\<close>

fun tots_up :: "store \<Rightarrow> nat \<Rightarrow> nat list \<Rightarrow> bool" where
  "tots_up h k [] \<longleftrightarrow> True"
| "tots_up h k (a # as) \<longleftrightarrow> unat (tot_len (the_pb h a)) = total h (a # as) + k \<and> tots_up h k as"

lemma tots_up_0 [simp]: "tots_up h 0 as = tots h as"
  by (induction as) auto

lemma tots_up_cong: "(\<And>a. a \<in> set as \<Longrightarrow> plen (the_pb h' a) = plen (the_pb h a) \<and> tot_len (the_pb h' a) = tot_len (the_pb h a)) \<Longrightarrow>
  tots_up h' k as = tots_up h k as \<and> total h' as = total h as"
  by (induction as) auto

lemma tots_up_snoc:
  "tots_up h k (as @ [q]) \<longleftrightarrow> tots_up h (unat (plen (the_pb h q)) + k) as \<and> unat (tot_len (the_pb h q)) = unat (plen (the_pb h q)) + k"
  by (induction as) auto

definition in_pool :: "store \<Rightarrow> nat list \<Rightarrow> bool" where
  "in_pool h as \<longleftrightarrow> (\<forall>a \<in> set as. pref (the_pb h a) = 1 \<and> ptype (the_pb h a) = PBUF_POOL)"

lemma chain_snoc:
  assumes "chain h p (as @ [r])" "distinct (as @ [r])" "q \<noteq> 0" "q \<notin> set (as @ [r])" "pnext c = 0"
  shows "chain (put_pbuf r ((the_pb h r)\<lparr>pnext := q\<rparr>) (put_pbuf q c h)) p (as @ [r, q])"
  using assms
proof (induction as arbitrary: p)
  case (Cons a as)
  then show ?case by auto
qed (auto simp: the_pb_def)

definition plain :: "store \<Rightarrow> nat list \<Rightarrow> bool" where
  "plain h as \<longleftrightarrow> (\<forall>a \<in> set as. pflags (the_pb h a) AND PBUF_FLAG_IS_CUSTOM = 0)"

lemma returned_pool:
  "in_pool h as \<Longrightarrow> plain h as \<Longrightarrow> returned (Some PBUF_POOL) h as = rev as \<and> returned None h as = [] \<and>
     returned (Some PBUF_REF) h as = [] \<and> returned (Some PBUF_RAM) h as = []"
  by (auto simp: returned_def in_pool_def plain_def Let_def filter_id_conv filter_empty_conv)

definition pool_given_back :: "store \<Rightarrow> nat list \<Rightarrow> store \<Rightarrow> bool" where
  "pool_given_back h as h' \<longleftrightarrow> h' = h\<lparr>pb := (\<lambda>a. if a \<in> set as \<union> set (MEMP_PBUF_POOL h) then None else pb h a),
     MEMP_PBUF_POOL := rev (as @ MEMP_PBUF_POOL h)\<rparr>"

definition pool_grown :: "store \<Rightarrow> nat \<Rightarrow> nat list \<Rightarrow> nat list \<Rightarrow> nat \<Rightarrow> store \<Rightarrow> bool" where
  "pool_grown h p as cs n h' \<longleftrightarrow> MEMP_PBUF_POOL h = cs @ MEMP_PBUF_POOL h' \<and> chain h' p (as @ cs) \<and> tots h' (as @ cs) \<and>
     in_pool h' (as @ cs) \<and> plain h' (as @ cs) \<and> total h' (as @ cs) = n \<and>
     (\<forall>a. a \<notin> set (as @ cs) \<longrightarrow> pb h' a = pb h a)"

context custom_pbufs
begin

lemma pool_tail_ok:
  assumes "chain h p (as @ [r])" "distinct (as @ [r] @ MEMP_PBUF_POOL h)" "0 \<notin> set (MEMP_PBUF_POOL h)"
    "tots_up h rem (as @ [r])" "in_pool h (as @ [r])" "plain h (as @ [r])" "p \<noteq> 0"
  shows "(\<exists>h'. pool_tail E p r rem h = Some (0, h') \<and> pool_given_back h (as @ [r]) h') \<or>
    (\<exists>h' cs. pool_tail E p r rem h = Some (p, h') \<and> pool_grown h p (as @ [r]) cs (total h (as @ [r]) + rem) h')"
  using assms
proof (induction rem arbitrary: as r h rule: less_induct)
  case (less rem)
  show ?case
  proof (cases "rem = 0")
    case True
    then have "pool_grown h p (as @ [r]) [] (total h (as @ [r]) + rem) h"
      using less.prems by (auto simp: pool_grown_def)
    then show ?thesis using True by (subst (1 2) pool_tail.simps) auto
  next
    case False
    show ?thesis
    proof (cases "MEMP_PBUF_POOL h")
      case Nil
      have "pbuf_free E p h = Some (of_nat (length (as @ [r])), freed h (as @ [r]))"
        using free_loop_ok [of h p "as @ [r]" "[]" 0] less.prems by (simp add: pbuf_free_def in_pool_def)
      moreover have "pool_given_back h (as @ [r]) (freed h (as @ [r]))"
        using returned_pool [OF less.prems(5,6)] Nil by (simp add: pool_given_back_def freed_def)
      ultimately show ?thesis using False Nil by (subst (1 2) pool_tail.simps) simp
    next
      case (Cons q qs)
      define l where "l = min rem (LWIP_MEM_ALIGN_SIZE PBUF_POOL_BUFSIZE)"
      define c where "c = \<lparr>pnext = 0, payload = q + SIZEOF_STRUCT_PBUF, tot_len = of_nat rem, plen = of_nat l,
        ptype = PBUF_POOL, pflags = 0, pref = 1\<rparr>"
      define h2 where "h2 = put_pbuf r ((the_pb h r)\<lparr>pnext := q\<rparr>) (put_pbuf q c (h\<lparr>MEMP_PBUF_POOL := qs\<rparr>))"
      have l: "0 < l" "l \<le> rem" "l < 65536"
        using False by (auto simp: l_def LWIP_MEM_ALIGN_SIZE_def PBUF_POOL_BUFSIZE_def)
      have q: "q \<notin> set (as @ [r])" "q \<noteq> 0" "r \<noteq> q" using less.prems(2,3) Cons by auto
      have rpb: "pb h r = Some (the_pb h r)" using chain_nonzero [OF less.prems(1), of r] by simp
      have rem: "rem < 65536"
        using less.prems(4) unsigned_less [of "tot_len (the_pb h r)", where 'a = nat] by (simp add: tots_up_snoc)
      have un: "unat (of_nat rem :: u16) = rem" "unat (of_nat l :: u16) = l"
        using rem l by (simp_all add: unat_of_nat)
      have the2: "the_pb h2 a = (if a = r then (the_pb h r)\<lparr>pnext := q\<rparr> else if a = q then c else the_pb h a)" for a
        by (simp add: h2_def the_pb_def)
      have pool2: "MEMP_PBUF_POOL h2 = qs" by (simp add: h2_def)
      have step: "pool_tail E p r rem h = pool_tail E p q (rem - l) h2"
        using False Cons q rpb by (subst pool_tail.simps) (simp add: Let_def l_def [symmetric] c_def [symmetric] h2_def)
      have same: "tots_up h2 rem (as @ [r]) = tots_up h rem (as @ [r]) \<and> total h2 (as @ [r]) = total h (as @ [r])"
        by (rule tots_up_cong) (use q(1) the2 in auto)
      have "chain h2 p (as @ [r, q])"
        using chain_snoc [of "h\<lparr>MEMP_PBUF_POOL := qs\<rparr>" p as r q c] less.prems(1,2) q
          chain_cong [of "as @ [r]" "h\<lparr>MEMP_PBUF_POOL := qs\<rparr>" h] by (simp add: h2_def c_def the_pb_def)
      moreover have "tots_up h2 (rem - l) ((as @ [r]) @ [q])"
        using same less.prems(4) l q un by (subst tots_up_snoc) (simp add: the2 c_def)
      moreover have "in_pool h2 ((as @ [r]) @ [q])" "plain h2 ((as @ [r]) @ [q])"
        using less.prems(5,6) the2 by (auto simp: in_pool_def plain_def c_def)
      ultimately have IH: "(\<exists>h'. pool_tail E p q (rem - l) h2 = Some (0, h') \<and> pool_given_back h2 ((as @ [r]) @ [q]) h') \<or>
        (\<exists>h' cs. pool_tail E p q (rem - l) h2 = Some (p, h') \<and>
          pool_grown h2 p ((as @ [r]) @ [q]) cs (total h2 ((as @ [r]) @ [q]) + (rem - l)) h')"
        using less.IH [of "rem - l" h2 "as @ [r]" q] l False less.prems(2,3,7) Cons pool2 by auto
      have "total h2 ((as @ [r]) @ [q]) + (rem - l) = total h (as @ [r]) + rem"
        using same l q un by (simp add: the2 c_def)
      moreover have "pool_given_back h (as @ [r]) h'" if "pool_given_back h2 ((as @ [r]) @ [q]) h'" for h'
        using that Cons pool2 unfolding pool_given_back_def by (auto simp: h2_def fun_eq_iff put_pbuf_def)
      moreover have "pool_grown h p (as @ [r]) (q # cs) n h'" if "pool_grown h2 p ((as @ [r]) @ [q]) cs n h'" for cs n h'
        using that Cons pool2 unfolding pool_grown_def by (auto simp: h2_def put_pbuf_def)
      ultimately show ?thesis using IH unfolding step by metis
    qed
  qed
qed

end

lemma chain_put: "chain h p as \<Longrightarrow> pb h a = Some b \<Longrightarrow> pnext c = pnext b \<Longrightarrow> chain (put_pbuf a c h) p as"
  by (induction as arbitrary: p) auto

lemma tots_put:
  assumes "plen c = plen (the_pb h a)" "tot_len c = tot_len (the_pb h a)"
  shows "tots (put_pbuf a c h) as = tots h as" "total (put_pbuf a c h) as = total h as"
proof -
  show t: "total (put_pbuf a c h) as = total h as" for as using assms by (induction as) auto
  show "tots (put_pbuf a c h) as = tots h as" using assms by (induction as) (auto simp: t)
qed

context custom_pbufs
begin

lemma pool_alloc_ok:
  assumes pool: "distinct (MEMP_PBUF_POOL h)" "0 \<notin> set (MEMP_PBUF_POOL h)" "\<forall>a \<in> set (MEMP_PBUF_POOL h). pb h a = None"
    and f: "f AND PBUF_FLAG_IS_CUSTOM = 0"
  shows "pbuf_alloc E layer n PBUF_POOL f h = Some (0, h\<lparr>MEMP_PBUF_POOL := rev (MEMP_PBUF_POOL h)\<rparr>) \<or>
    (\<exists>p as h'. pbuf_alloc E layer n PBUF_POOL f h = Some (p, h') \<and> packet h' p as \<and> total h' as = unat n \<and>
      MEMP_PBUF_POOL h = as @ MEMP_PBUF_POOL h' \<and> in_pool h' as \<and> (\<forall>a. a \<notin> set as \<longrightarrow> pb h' a = pb h a))"
proof (cases "MEMP_PBUF_POOL h")
  case Nil
  then show ?thesis by (cases h) (simp add: pbuf_alloc_def)
next
  case (Cons p qs)
  define l where "l = min (unat n) (LWIP_MEM_ALIGN_SIZE PBUF_POOL_BUFSIZE - LWIP_MEM_ALIGN_SIZE (layer_offset layer))"
  define c where "c = \<lparr>pnext = 0, payload = LWIP_MEM_ALIGN_SIZE (p + SIZEOF_STRUCT_PBUF + layer_offset layer), tot_len = n,
     plen = of_nat l, ptype = PBUF_POOL, pflags = f, pref = 1\<rparr>"
  define h1 where "h1 = put_pbuf p c (h\<lparr>MEMP_PBUF_POOL := qs\<rparr>)"
  have l: "l \<le> unat n" by (simp add: l_def)
  then have un: "unat (of_nat l :: u16) = l"
    using unsigned_less [of n, where 'a = nat] by (simp add: unat_of_nat)
  have the1: "the_pb h1 p = c" by (simp add: h1_def the_pb_def)
  have p: "p \<noteq> 0" "p \<notin> set qs" "distinct qs" "0 \<notin> set qs" "MEMP_PBUF_POOL h1 = qs"
    using pool Cons by (auto simp: h1_def)
  have tail: "(\<exists>h'. pool_tail E p p (unat n - l) h1 = Some (0, h') \<and> pool_given_back h1 [p] h') \<or>
    (\<exists>h' cs. pool_tail E p p (unat n - l) h1 = Some (p, h') \<and> pool_grown h1 p [p] cs (total h1 [p] + (unat n - l)) h')"
    using pool_tail_ok [of h1 p "[]" p "unat n - l"] p l un the1 f
    by (simp add: in_pool_def plain_def c_def h1_def)
  have alloc: "pbuf_alloc E layer n PBUF_POOL f h = (case pool_tail E p p (unat n - l) h1 of None \<Rightarrow> None
      | Some (r, h) \<Rightarrow> if r = 0 then Some (0, h)
         else case pb h p of None \<Rightarrow> None | Some b \<Rightarrow> Some (p, put_pbuf p (b\<lparr>pref := 1, pflags := 0\<rparr>) h))"
    using Cons by (simp add: pbuf_alloc_def Let_def l_def c_def h1_def)
  from tail show ?thesis
  proof (elim disjE exE conjE)
    fix h' assume t: "pool_tail E p p (unat n - l) h1 = Some (0, h')" and g: "pool_given_back h1 [p] h'"
    have "h' = h\<lparr>MEMP_PBUF_POOL := rev (p # qs)\<rparr>"
      using g pool(3) Cons p(5) unfolding pool_given_back_def by (auto simp: h1_def put_pbuf_def fun_eq_iff)
    then show ?thesis using alloc t Cons by (intro disjI1) simp
  next
    fix h' cs assume t: "pool_tail E p p (unat n - l) h1 = Some (p, h')"
      and g: "pool_grown h1 p [p] cs (total h1 [p] + (unat n - l)) h'"
    note G = g [unfolded pool_grown_def p(5) append_Cons append_Nil]
    have g': "chain h' p (p # cs)" "tots h' (p # cs)" "in_pool h' (p # cs)" "total h' (p # cs) = total h1 [p] + (unat n - l)"
      "qs = cs @ MEMP_PBUF_POOL h'" "\<forall>a. a \<notin> set (p # cs) \<longrightarrow> pb h' a = pb h1 a"
      using G by blast+
    have "pb h' p = Some (the_pb h' p)" using chain_nonzero [OF g'(1), of p] by simp
    let ?h = "put_pbuf p ((the_pb h' p)\<lparr>pref := 1, pflags := 0\<rparr>) h'"
    have "total h1 [p] + (unat n - l) = unat n" using the1 un l by (simp add: c_def)
    moreover have "distinct (p # cs)" using p(2,3) g'(5) by auto
    moreover have "chain ?h p (p # cs)" by (rule chain_put [OF g'(1) \<open>pb h' p = _\<close>]) simp
    moreover have "tots ?h (p # cs)" "total ?h (p # cs) = total h' (p # cs)" using g'(2) tots_put [of "(the_pb h' p)\<lparr>pref := 1, pflags := 0\<rparr>" h' p] by auto
    moreover have "in_pool ?h (p # cs)" using g'(3) by (simp add: in_pool_def)
    moreover have "\<forall>a. a \<notin> set (p # cs) \<longrightarrow> pb ?h a = pb h a" using g'(6) by (simp add: h1_def)
    ultimately have "packet ?h p (p # cs) \<and> total ?h (p # cs) = unat n \<and> in_pool ?h (p # cs) \<and> MEMP_PBUF_POOL h = (p # cs) @ MEMP_PBUF_POOL ?h \<and>
        (\<forall>a. a \<notin> set (p # cs) \<longrightarrow> pb ?h a = pb h a)"
      using g'(4,5) p(1) Cons unfolding packet_def by (simp only: put_pbuf_simps append_Cons simp_thms)
    then show ?thesis using alloc t p(1) \<open>pb h' p = _\<close> by (intro disjI2 exI [of _ p] exI [of _ "p # cs"] exI [of _ ?h]) simp
  qed
qed

end

section \<open>Properties\<close>

text \<open>The pools of the driver, as the function that frees its custom pbufs leaves them.\<close>

definition rx_env :: pbuf_env where
  "rx_env = \<lparr>mem_malloc = (\<lambda>n h. None), custom_free_function = (\<lambda>p h. h\<lparr>RX_POOL := p # RX_POOL h\<rparr>)\<rparr>"

definition demo_store :: store where
  "demo_store = \<lparr>pb = (\<lambda>a. None), bytes = (\<lambda>a. 0), MEMP_PBUF_POOL = [2000, 4000, 6000], MEMP_PBUF = [], RX_POOL = [100], heap_freed = []\<rparr>"

definition demo_buf :: "nat \<Rightarrow> nat \<Rightarrow> u16 \<Rightarrow> u16 \<Rightarrow> pbuf" where
  "demo_buf a nx n t = \<lparr>pnext = nx, payload = a + 16, tot_len = t, plen = n, ptype = PBUF_POOL, pflags = 0, pref = 1\<rparr>"

definition demo_packets :: store where
  "demo_packets = demo_store\<lparr>pb := [10 \<mapsto> demo_buf 10 50 4 7, 50 \<mapsto> demo_buf 50 0 3 3, 90 \<mapsto> demo_buf 90 0 2 2]\<rparr>"

lemma demo_packet: "packet demo_packets 10 [10, 50]" "packet demo_packets 90 [90]" "apart demo_packets [10, 50]"
  "total demo_packets [10, 50] = 7" "total demo_packets [90] = 2" "the_pb demo_packets 10 = demo_buf 10 50 4 7" "the_pb demo_packets 50 = demo_buf 50 0 3 3"
  by (simp_all add: packet_def demo_packets_def demo_buf_def the_pb_def)

text \<open>
  C18. \<^verbatim>\<open>pbuf_free\<close> on a chain takes away exactly the leading pbufs that have a single reference and returns
  their number: each goes back to the pool it came from (custom ones through their own function) and
  no other pbuf changes, except that the first one with further references loses one.
\<close>

theorem pbuf_free_releases:
  assumes "chain h p (xs @ ys)" and "distinct (xs @ ys)" and "\<forall>x \<in> set xs. pref (the_pb h x) = 1"
    and "ys \<noteq> [] \<longrightarrow> pref (the_pb h (hd ys)) \<noteq> 1"
    and "\<And>p h. custom_free_function E p h = h\<lparr>RX_POOL := p # RX_POOL h\<rparr>"
  shows "\<exists>h'. pbuf_free E p h = Some (of_nat (length xs), h') \<and> bytes h' = bytes h \<and>
    (\<forall>a. pb h' a = (if a \<in> set xs then None
      else if ys \<noteq> [] \<and> a = hd ys then Some ((the_pb h a)\<lparr>pref := pref (the_pb h a) - 1\<rparr>) else pb h a)) \<and>
    MEMP_PBUF_POOL h' = returned (Some PBUF_POOL) h xs @ MEMP_PBUF_POOL h \<and> MEMP_PBUF h' = returned (Some PBUF_REF) h xs @ MEMP_PBUF h \<and>
    RX_POOL h' = returned None h xs @ RX_POOL h \<and> heap_freed h' = returned (Some PBUF_RAM) h xs @ heap_freed h"
proof (cases "p = 0")
  case True
  then have "xs @ ys = []" using assms(1) by (cases "xs @ ys") auto
  then show ?thesis using True by (simp add: pbuf_free_def returned_def)
next
  case False
  then show ?thesis
    using custom_pbufs.free_loop_ok [OF custom_pbufs.intro [OF assms(5)] assms(1-4), of 0] assms(2) by (auto simp: pbuf_free_def freed_def)
qed

theorem pbuf_free_releases_witness:
  "\<exists>h'. pbuf_free rx_env 10 demo_packets = Some (2, h') \<and> pb h' 10 = None \<and> pb h' 50 = None \<and> pb h' 90 = Some (demo_buf 90 0 2 2) \<and>
     MEMP_PBUF_POOL h' = [50, 10, 2000, 4000, 6000]"
proof -
  have a: "chain demo_packets 10 ([10, 50] @ [])" "distinct ([10, 50] @ [] :: nat list)" "\<forall>x \<in> set [10, 50]. pref (the_pb demo_packets x) = 1"
    "([] :: nat list) \<noteq> [] \<longrightarrow> pref (the_pb demo_packets (hd [])) \<noteq> 1" "\<And>p h. custom_free_function rx_env p h = h\<lparr>RX_POOL := p # RX_POOL h\<rparr>"
    using demo_packet by (simp_all add: packet_def demo_buf_def rx_env_def)
  have "returned (Some PBUF_POOL) demo_packets [10, 50] = [50, 10]"
    by (simp add: returned_def demo_packet demo_buf_def)
  with pbuf_free_releases [OF a] show ?thesis by (auto simp: demo_packets_def demo_store_def)
qed

text \<open>
  \<^verbatim>\<open>pbuf_cat\<close> of two packets that together fit 16 bits of length joins them to one packet with the
  contents one after the other; the total lengths of the first chain all grow, and no reference
  count changes.
\<close>

theorem pbuf_cat_joins:
  assumes "packet h p as" and "packet h t bs" and "set as \<inter> set bs = {}" and "total h as + total h bs < 65536"
  shows "\<exists>h'. pbuf_cat p t h = Some h' \<and> packet h' p (as @ bs) \<and> contents h' (as @ bs) = contents h as @ contents h bs \<and>
    (\<forall>a. map_option pref (pb h' a) = map_option pref (pb h a))"
  using packet_cat [OF assms] by blast

theorem pbuf_cat_joins_witness:
  "\<exists>h'. pbuf_cat 10 90 demo_packets = Some h' \<and> packet h' 10 [10, 50, 90] \<and> length (contents h' [10, 50, 90]) = 9"
proof -
  have "\<exists>h'. pbuf_cat 10 90 demo_packets = Some h' \<and> packet h' 10 ([10, 50] @ [90]) \<and>
      contents h' ([10, 50] @ [90]) = contents demo_packets [10, 50] @ contents demo_packets [90] \<and>
      (\<forall>a. map_option pref (pb h' a) = map_option pref (pb demo_packets a))"
    by (rule pbuf_cat_joins [OF demo_packet(1,2)]) (simp_all only: demo_packet(4,5), simp_all)
  then show ?thesis using length_contents [of demo_packets "[10, 50]"] length_contents [of demo_packets "[90]"] demo_packet(4,5)
    by (auto simp del: contents_simps(2))
qed

text \<open>
  C19. What is copied into a packet is read back from it: \<^verbatim>\<open>pbuf_take\<close> refuses data that does not fit and
  otherwise replaces the beginning of the contents, across all its buffers and nowhere else, and
  \<^verbatim>\<open>pbuf_copy_partial\<close> returns exactly the part of the contents asked for, cut off at the end.
\<close>

theorem pbuf_take_read_back:
  assumes "packet h p as" and "apart h as"
  shows "(total h as < length xs \<longrightarrow> pbuf_take p xs h = Some (ERR_MEM, h)) \<and>
    (length xs \<le> total h as \<longrightarrow> (\<exists>h'. pbuf_take p xs h = Some (ERR_OK, h') \<and> pb h' = pb h \<and>
      (\<forall>x. \<not> in_bufs h as x \<longrightarrow> bytes h' x = bytes h x) \<and>
      pbuf_copy_partial p n off h' = Some (take (unat n) (drop (unat off) (xs @ drop (length xs) (contents h as))))))"
proof -
  obtain a as' where a: "as = a # as'" "p = a" using assms(1) by (cases as) (auto simp: packet_def)
  have p: "p \<noteq> 0" "pb h p = Some (the_pb h p)" "chain h p as" "unat (tot_len (the_pb h p)) = total h as"
    using assms(1) a by (auto simp: packet_def the_pb_def)
  have "\<exists>h'. pbuf_take p xs h = Some (ERR_OK, h') \<and> pb h' = pb h \<and> (\<forall>x. \<not> in_bufs h as x \<longrightarrow> bytes h' x = bytes h x) \<and>
      pbuf_copy_partial p n off h' = Some (take (unat n) (drop (unat off) (xs @ drop (length xs) (contents h as))))"
    if len: "length xs \<le> total h as"
  proof -
    obtain h' where h': "take_loop p xs h = Some h'" "pb h' = pb h" "contents h' as = xs @ drop (length xs) (contents h as)"
      "\<forall>x. \<not> in_bufs h as x \<longrightarrow> bytes h' x = bytes h x" using take_loop_ok [OF p(3) assms(2) len] by blast
    have "chain h' p as" using p(3) h'(2) chain_cong [of as h' h] by simp
    from copy_partial_ok [OF this] show ?thesis
      using h' len p by (auto simp: pbuf_take_def pbuf_copy_partial_def)
  qed
  then show ?thesis using p by (auto simp: pbuf_take_def)
qed

theorem pbuf_take_read_back_witness:
  "\<exists>h'. pbuf_take 10 [1, 2, 3, 4, 5] demo_packets = Some (ERR_OK, h') \<and> pbuf_copy_partial 10 3 2 h' = Some [3, 4, 5]"
  using pbuf_take_read_back [OF demo_packet(1,3), of "[1, 2, 3, 4, 5]" 3 2] demo_packet(4) by auto

text \<open>
  An allocation from the pool gives all or nothing: either a packet of exactly the length asked
  for, made of elements taken from the front of the pool, or nothing, with every element of the pool
  back in it and no structure left behind. This needs that no element of the pool carries the flag of
  a custom pbuf from an earlier use, which the code does not clear before it may have to free it.
\<close>

theorem pool_alloc_all_or_nothing:
  assumes "distinct (MEMP_PBUF_POOL h)" and "0 \<notin> set (MEMP_PBUF_POOL h)" and "\<forall>a \<in> set (MEMP_PBUF_POOL h). pb h a = None"
    and "f AND PBUF_FLAG_IS_CUSTOM = 0" and "\<And>p h. custom_free_function E p h = h\<lparr>RX_POOL := p # RX_POOL h\<rparr>"
  shows "pbuf_alloc E layer n PBUF_POOL f h = Some (0, h\<lparr>MEMP_PBUF_POOL := rev (MEMP_PBUF_POOL h)\<rparr>) \<or>
    (\<exists>p as h'. pbuf_alloc E layer n PBUF_POOL f h = Some (p, h') \<and> packet h' p as \<and> total h' as = unat n \<and>
      MEMP_PBUF_POOL h = as @ MEMP_PBUF_POOL h' \<and> (\<forall>a. a \<notin> set as \<longrightarrow> pb h' a = pb h a))"
  using custom_pbufs.pool_alloc_ok [OF custom_pbufs.intro [OF assms(5)] assms(1-4)] by blast

theorem pool_alloc_all_or_nothing_witness:
  "\<exists>r h'. pbuf_alloc rx_env PBUF_TRANSPORT 4000 PBUF_POOL 0 demo_store = Some (r, h') \<and>
     (r = 0 \<or> (\<exists>as. packet h' r as \<and> total h' as = 4000))"
proof -
  have a: "distinct (MEMP_PBUF_POOL demo_store)" "0 \<notin> set (MEMP_PBUF_POOL demo_store)" "\<forall>a \<in> set (MEMP_PBUF_POOL demo_store). pb demo_store a = None"
    "(0 :: u8) AND PBUF_FLAG_IS_CUSTOM = 0" "\<And>p h. custom_free_function rx_env p h = h\<lparr>RX_POOL := p # RX_POOL h\<rparr>"
    by (simp_all add: demo_store_def rx_env_def)
  from pool_alloc_all_or_nothing [OF a, of PBUF_TRANSPORT 4000] show ?thesis by fastforce
qed

end
