(* ===== verification/Board.thy ===== *)
theory Board
  imports Qspi_Flash
begin

text \<open>
  The board support code: keys (\<^verbatim>\<open>key/bsp_key.c\<close>), LEDs (\<^verbatim>\<open>BSP/led/bsp_led.c\<close>), the debug UART
  (\<^verbatim>\<open>BSP/usart/bsp_debug_usart.c\<close>), and the clock and memory protection set-up of \<^verbatim>\<open>main.c\<close>, all under
  \<^verbatim>\<open>src/STM32/Bootloader/User/\<close>. The calls of the HAL they make, beyond those of the flash drivers, are
  the record \<open>'d bsp\<close>, a parameter like \<open>'d hal\<close>.
\<close>

section \<open>Types of the HAL interface\<close>

datatype UART_WordLength = UART_WORDLENGTH_8B | UART_WORDLENGTH_9B
datatype UART_StopBits = UART_STOPBITS_1 | UART_STOPBITS_2
datatype UART_Parity = UART_PARITY_NONE | UART_PARITY_EVEN | UART_PARITY_ODD
datatype UART_Mode = UART_MODE_RX | UART_MODE_TX | UART_MODE_TX_RX
datatype UART_OverSampling = UART_OVERSAMPLING_16 | UART_OVERSAMPLING_8

record UART_InitTypeDef =
  BaudRate :: nat
  WordLength :: UART_WordLength
  StopBits :: UART_StopBits
  Parity :: UART_Parity
  UartMode :: UART_Mode
  HwFlowCtl :: bool
  OverSampling :: UART_OverSampling
  OneBitSampling :: bool
  AdvFeatureInit :: bool

datatype osc_state = OSC_ON | OSC_OFF
datatype PLL_Source = RCC_PLLSOURCE_HSI | RCC_PLLSOURCE_CSI | RCC_PLLSOURCE_HSE
datatype PLL_VCO = RCC_PLL1VCOWIDE | RCC_PLL1VCOMEDIUM

record RCC_OscInitTypeDef =
  HSEState :: osc_state
  HSIState :: osc_state
  CSIState :: osc_state
  PLLState :: osc_state
  PLLSource :: PLL_Source
  PLLM :: nat
  PLLN :: nat
  PLLP :: nat
  PLLQ :: nat
  PLLR :: nat
  PLLVCOSEL :: PLL_VCO
  PLLRGE :: nat

record RCC_ClkInitTypeDef =
  SYSCLKSource :: string
  SYSCLKDivider :: nat
  AHBCLKDivider :: nat
  APB3CLKDivider :: nat
  APB1CLKDivider :: nat
  APB2CLKDivider :: nat
  APB4CLKDivider :: nat

record MPU_Region_InitTypeDef =
  BaseAddress :: nat
  RegionSize :: nat
  FullAccess :: bool
  IsBufferable :: bool
  IsCacheable :: bool
  IsShareable :: bool
  RegionNumber :: nat
  TypeExtField :: nat
  SubRegionDisable :: nat
  InstructionAccess :: bool

text \<open>
  \<open>GPIO_BSRR\<close> and \<open>GPIO_ODR_xor\<close> are a write of the set/reset register and \<^verbatim>\<open>ODR ^= i\<close>.
  \<open>HAL_UART_Receive\<close> gives the byte it stored, if it stored one.
\<close>

record 'd bsp =
  HAL_GPIO_ReadPin :: "GPIO_TypeDef \<Rightarrow> u16 \<Rightarrow> ('d, nat) state"
  GPIO_BSRR :: "GPIO_TypeDef \<Rightarrow> u32 \<Rightarrow> ('d, unit) state"
  GPIO_ODR_xor :: "GPIO_TypeDef \<Rightarrow> u32 \<Rightarrow> ('d, unit) state"
  HAL_RCCEx_PeriphCLKConfig :: "string \<Rightarrow> ('d, HAL_StatusTypeDef) state"
  HAL_UART_Init :: "UART_InitTypeDef \<Rightarrow> ('d, HAL_StatusTypeDef) state"
  UART_FLAG_RXNE :: "('d, bool) state"
  HAL_UART_Transmit :: "u8 \<Rightarrow> nat \<Rightarrow> ('d, HAL_StatusTypeDef) state"
  HAL_UART_Receive :: "nat \<Rightarrow> ('d, HAL_StatusTypeDef \<times> u8 option) state"
  PWR_op :: "string \<Rightarrow> ('d, unit) state"
  PWR_FLAG_VOSRDY :: "('d, bool) state"
  HAL_RCC_OscConfig :: "RCC_OscInitTypeDef \<Rightarrow> ('d, HAL_StatusTypeDef) state"
  HAL_RCC_ClockConfig :: "RCC_ClkInitTypeDef \<Rightarrow> nat \<Rightarrow> ('d, HAL_StatusTypeDef) state"
  HAL_MPU_Disable :: "('d, unit) state"
  HAL_MPU_ConfigRegion :: "MPU_Region_InitTypeDef \<Rightarrow> ('d, unit) state"
  HAL_MPU_Enable :: "('d, unit) state"

section \<open>Keys\<close>

definition KEY_ON :: nat where "KEY_ON = 1"
definition KEY_OFF :: nat where "KEY_OFF = 0"
definition KEY1_PIN :: u16 where "KEY1_PIN = 2 ^ 0"
definition KEY2_PIN :: u16 where "KEY2_PIN = 2 ^ 13"

text \<open>\<open>g\<close> is the local structure, whose other members the code leaves uninitialised.\<close>

definition Key_GPIO_Config :: "'d hal \<Rightarrow> GPIO_InitTypeDef \<Rightarrow> ('d, unit) state" where
  "Key_GPIO_Config H g = do {
     HAL_RCC_CLK_ENABLE H ''GPIOA'';
     HAL_RCC_CLK_ENABLE H ''GPIOC'';
     let g = g\<lparr>Pin := KEY1_PIN, Mode := GPIO_MODE_INPUT, Pull := GPIO_NOPULL\<rparr>;
     HAL_GPIO_Init H GPIOA g;
     let g = g\<lparr>Pin := KEY2_PIN\<rparr>;
     HAL_GPIO_Init H GPIOC g
   }"

text \<open>Waiting for the release has no bound in the code; \<open>None\<close> when it still waits after \<open>fuel\<close> reads.\<close>

fun key_release :: "'d bsp \<Rightarrow> GPIO_TypeDef \<Rightarrow> u16 \<Rightarrow> nat \<Rightarrow> ('d, nat option) state" where
  "key_release B GPIOx GPIO_Pin 0 = return None"
| "key_release B GPIOx GPIO_Pin (Suc fuel) = do {
     v \<leftarrow> HAL_GPIO_ReadPin B GPIOx GPIO_Pin;
     if v = KEY_ON then key_release B GPIOx GPIO_Pin fuel else return (Some KEY_ON)
   }"

definition Key_Scan :: "'d bsp \<Rightarrow> nat \<Rightarrow> GPIO_TypeDef \<Rightarrow> u16 \<Rightarrow> ('d, nat option) state" where
  "Key_Scan B fuel GPIOx GPIO_Pin = do {
     v \<leftarrow> HAL_GPIO_ReadPin B GPIOx GPIO_Pin;
     if v = KEY_ON then key_release B GPIOx GPIO_Pin fuel else return (Some KEY_OFF)
   }"

section \<open>LEDs\<close>

definition LED1_PIN :: u16 where "LED1_PIN = 2 ^ 0"
definition LED2_PIN :: u16 where "LED2_PIN = 2 ^ 1"
definition LED3_PIN :: u16 where "LED3_PIN = 2 ^ 3"

text \<open>\<^verbatim>\<open>digitalHi\<close> and \<^verbatim>\<open>digitalLo\<close>: the LEDs are on when their pin is low.\<close>

definition digitalHi :: "'d bsp \<Rightarrow> GPIO_TypeDef \<Rightarrow> u16 \<Rightarrow> ('d, unit) state" where
  "digitalHi B p i = GPIO_BSRR B p (ucast i)"

definition digitalLo :: "'d bsp \<Rightarrow> GPIO_TypeDef \<Rightarrow> u16 \<Rightarrow> ('d, unit) state" where
  "digitalLo B p i = GPIO_BSRR B p (push_bit 16 (ucast i))"

definition LED2_TOGGLE :: "'d bsp \<Rightarrow> ('d, unit) state" where
  "LED2_TOGGLE B = GPIO_ODR_xor B GPIOB (ucast LED2_PIN)"

definition LED_RGBOFF :: "'d bsp \<Rightarrow> ('d, unit) state" where
  "LED_RGBOFF B = do { digitalHi B GPIOB LED1_PIN; digitalHi B GPIOB LED2_PIN; digitalHi B GPIOA LED3_PIN }"

definition LED_GREEN :: "'d bsp \<Rightarrow> ('d, unit) state" where
  "LED_GREEN B = do { digitalHi B GPIOB LED1_PIN; digitalLo B GPIOB LED2_PIN; digitalHi B GPIOA LED3_PIN }"

definition LED_RED :: "'d bsp \<Rightarrow> ('d, unit) state" where
  "LED_RED B = do { digitalLo B GPIOB LED1_PIN; digitalHi B GPIOB LED2_PIN; digitalHi B GPIOA LED3_PIN }"

definition LED_GPIO_Config :: "'d hal \<Rightarrow> 'd bsp \<Rightarrow> GPIO_InitTypeDef \<Rightarrow> ('d, unit) state" where
  "LED_GPIO_Config H B g = do {
     HAL_RCC_CLK_ENABLE H ''GPIOB'';
     HAL_RCC_CLK_ENABLE H ''GPIOB'';
     HAL_RCC_CLK_ENABLE H ''GPIOA'';
     let g = g\<lparr>Pin := LED1_PIN, Mode := GPIO_MODE_OUTPUT_PP, Pull := GPIO_PULLUP, Speed := GPIO_SPEED_FREQ_HIGH\<rparr>;
     HAL_GPIO_Init H GPIOB g;
     let g = g\<lparr>Pin := LED2_PIN\<rparr>;
     HAL_GPIO_Init H GPIOB g;
     let g = g\<lparr>Pin := LED3_PIN\<rparr>;
     HAL_GPIO_Init H GPIOA g;
     LED_RGBOFF B
   }"

section \<open>Debug UART\<close>

definition DEBUG_USART_TX_PIN :: u16 where "DEBUG_USART_TX_PIN = 2 ^ 9"
definition DEBUG_USART_RX_PIN :: u16 where "DEBUG_USART_RX_PIN = 2 ^ 10"

definition usart_init_params :: UART_InitTypeDef where
  "usart_init_params = \<lparr>BaudRate = 115200, WordLength = UART_WORDLENGTH_8B, StopBits = UART_STOPBITS_1, Parity = UART_PARITY_NONE,
     UartMode = UART_MODE_TX_RX, HwFlowCtl = False, OverSampling = UART_OVERSAMPLING_16, OneBitSampling = False, AdvFeatureInit = False\<rparr>"

definition DEBUG_USART_Config :: "'d hal \<Rightarrow> 'd bsp \<Rightarrow> GPIO_InitTypeDef \<Rightarrow> ('d, unit) state" where
  "DEBUG_USART_Config H B g = do {
     HAL_RCC_CLK_ENABLE H ''GPIOA'';
     HAL_RCC_CLK_ENABLE H ''GPIOA'';
     HAL_RCCEx_PeriphCLKConfig B ''USART1 from D2PCLK2'';
     HAL_RCC_CLK_ENABLE H ''USART1'';
     let g = g\<lparr>Pin := DEBUG_USART_TX_PIN, Mode := GPIO_MODE_AF_PP, Pull := GPIO_PULLUP, Speed := GPIO_SPEED_FREQ_HIGH, Alternate := 7\<rparr>;
     HAL_GPIO_Init H GPIOA g;
     let g = g\<lparr>Pin := DEBUG_USART_RX_PIN, Alternate := 7\<rparr>;
     HAL_GPIO_Init H GPIOA g;
     HAL_UART_Init B usart_init_params;
     return ()
   }"

text \<open>
  \<^verbatim>\<open>Usart_SendString\<close> looks at the byte after the one it has sent. \<open>m\<close> is the memory from \<^verbatim>\<open>str\<close> on;
  \<open>False\<close> is a read past its end.
\<close>

fun send_bytes :: "'d bsp \<Rightarrow> u8 list \<Rightarrow> ('d, bool) state" where
  "send_bytes B [] = return False"
| "send_bytes B (c # m) = do {
     HAL_UART_Transmit B c 1000;
     case m of [] \<Rightarrow> return False
     | c' # _ \<Rightarrow> if c' \<noteq> 0 then send_bytes B m else return True
   }"

definition Usart_SendString :: "'d bsp \<Rightarrow> u8 list \<Rightarrow> ('d, bool) state" where
  "Usart_SendString B str = send_bytes B str"

definition fputc :: "'d bsp \<Rightarrow> u32 \<Rightarrow> ('d, u32) state" where
  "fputc B ch = do {
     HAL_UART_Transmit B (ucast ch) 1000;
     return ch
   }"

text \<open>\<open>ch\<close> is the uninitialised local; the receive overwrites its lowest byte (little endian).\<close>

definition fgetc :: "'d bsp \<Rightarrow> u32 \<Rightarrow> ('d, u32) state" where
  "fgetc B ch = do {
     (r, c) \<leftarrow> HAL_UART_Receive B 1000;
     return (case c of None \<Rightarrow> ch | Some c \<Rightarrow> (ch AND 0xFFFFFF00) OR ucast c)
   }"

text \<open>\<open>ch\<close> is the uninitialised local of both functions.\<close>

definition UART_ReadKey_NonBlock :: "'d bsp \<Rightarrow> u8 \<Rightarrow> ('d, nat) state" where
  "UART_ReadKey_NonBlock B ch = do {
     rxne \<leftarrow> UART_FLAG_RXNE B;
     if rxne then do {
       (r, c) \<leftarrow> HAL_UART_Receive B 0;
       if r = HAL_OK then return (unat (case c of None \<Rightarrow> ch | Some c \<Rightarrow> c)) else return 0
     } else return 0
   }"

definition UART_ReadKey_Blocking :: "'d bsp \<Rightarrow> u8 \<Rightarrow> ('d, nat) state" where
  "UART_ReadKey_Blocking B ch = do {
     (r, c) \<leftarrow> HAL_UART_Receive B 0xFFFFFFFF;
     if r = HAL_OK then return (unat (case c of None \<Rightarrow> ch | Some c \<Rightarrow> c)) else return 0
   }"

section \<open>Clock\<close>

definition system_osc :: RCC_OscInitTypeDef where
  "system_osc = \<lparr>HSEState = OSC_ON, HSIState = OSC_OFF, CSIState = OSC_OFF, PLLState = OSC_ON, PLLSource = RCC_PLLSOURCE_HSE,
     PLLM = 5, PLLN = 192, PLLP = 2, PLLQ = 2, PLLR = 2, PLLVCOSEL = RCC_PLL1VCOWIDE, PLLRGE = 2\<rparr>"

definition system_clk :: RCC_ClkInitTypeDef where
  "system_clk = \<lparr>SYSCLKSource = ''PLLCLK'', SYSCLKDivider = 1, AHBCLKDivider = 2, APB3CLKDivider = 2, APB1CLKDivider = 2,
     APB2CLKDivider = 2, APB4CLKDivider = 2\<rparr>"

fun vos_wait :: "'d bsp \<Rightarrow> nat \<Rightarrow> ('d, bool) state" where
  "vos_wait B 0 = return False"
| "vos_wait B (Suc fuel) = do {
     rdy \<leftarrow> PWR_FLAG_VOSRDY B;
     if rdy then return True else vos_wait B fuel
   }"

text \<open>\<open>False\<close>: one of the three endless loops (\<open>fuel\<close> bounds the first; the other two follow an error).\<close>

definition SystemClock_Config :: "'d bsp \<Rightarrow> nat \<Rightarrow> ('d, bool) state" where
  "SystemClock_Config B fuel = do {
     PWR_op B ''CR3.SCUEN = 0'';
     PWR_op B ''VOLTAGE_SCALE1'';
     rdy \<leftarrow> vos_wait B fuel;
     if \<not> rdy then return False
     else do {
       ret \<leftarrow> HAL_RCC_OscConfig B system_osc;
       if ret \<noteq> HAL_OK then return False
       else do {
         ret \<leftarrow> HAL_RCC_ClockConfig B system_clk 4;
         if ret \<noteq> HAL_OK then return False else return True
       }
     }
   }"

section \<open>Memory protection\<close>

definition mpu_eth_desc :: MPU_Region_InitTypeDef where
  "mpu_eth_desc = \<lparr>BaseAddress = 0x30040000, RegionSize = 256, FullAccess = True, IsBufferable = True, IsCacheable = False,
     IsShareable = False, RegionNumber = 0, TypeExtField = 0, SubRegionDisable = 0, InstructionAccess = True\<rparr>"

definition mpu_lwip_heap :: MPU_Region_InitTypeDef where
  "mpu_lwip_heap = mpu_eth_desc\<lparr>BaseAddress := 0x30044000, RegionSize := 16 * 1024, IsBufferable := False, IsCacheable := True,
     RegionNumber := 1\<rparr>"

definition MPU_Config :: "'d bsp \<Rightarrow> ('d, unit) state" where
  "MPU_Config B = do {
     HAL_MPU_Disable B;
     HAL_MPU_ConfigRegion B mpu_eth_desc;
     HAL_MPU_ConfigRegion B mpu_lwip_heap;
     HAL_MPU_Enable B
   }"

section \<open>The configuration of the hardware at the start of \<^verbatim>\<open>main\<close>\<close>

text \<open>\<open>g1\<close>, \<open>g2\<close> and \<open>g3\<close> are the local structures of the three functions; \<open>False\<close> as above.\<close>

definition main_config ::
  "'d hal \<Rightarrow> 'd bsp \<Rightarrow> nat \<Rightarrow> GPIO_InitTypeDef \<Rightarrow> GPIO_InitTypeDef \<Rightarrow> GPIO_InitTypeDef \<Rightarrow> ('d, bool) state" where
  "main_config H B fuel g1 g2 g3 = do {
     MPU_Config B;
     hw_op H ''SCB_EnableICache'';
     hw_op H ''SCB_EnableDCache'';
     hw_op H ''SCB->CACR |= 1<<2'';
     ok \<leftarrow> SystemClock_Config B fuel;
     if \<not> ok then return False
     else do {
       LED_GPIO_Config H B g1;
       DEBUG_USART_Config H B g2;
       Key_GPIO_Config H g3;
       return True
     }
   }"

end
