(* ===== verification/Delay.thy ===== *)
theory Delay
  imports Prelude
begin

text \<open>
  \<^verbatim>\<open>src/STM32/Bootloader/User/delay/core_delay.c\<close>: time from the cycle counter of the processor. The
  counter is hardware; the values that successive reads of it return are the input of the model. A
  wait that is still going on when the readings end is the value \<open>None\<close>.
\<close>

section \<open>The time base\<close>

definition SysClockFreq :: u32 where "SysClockFreq = 400000000"

text \<open>The three registers of the time base and their initialisation.\<close>

record dwt =
  DEM_CR :: u32
  DWT_CYCCNT :: u32
  DWT_CR :: u32

definition DEM_CR_TRCENA :: u32 where "DEM_CR_TRCENA = push_bit 24 1"
definition DWT_CR_CYCCNTENA :: u32 where "DWT_CR_CYCCNTENA = 1"

definition HAL_InitTick :: "dwt \<Rightarrow> dwt" where
  "HAL_InitTick s =
     (let s = s\<lparr>DEM_CR := DEM_CR s OR DEM_CR_TRCENA\<rparr>;
          s = s\<lparr>DWT_CYCCNT := 0\<rparr>
      in s\<lparr>DWT_CR := DWT_CR s OR DWT_CR_CYCCNTENA\<rparr>)"

definition CPU_TS_TmrRd :: "dwt \<Rightarrow> u32" where
  "CPU_TS_TmrRd s = DWT_CYCCNT s"

definition HAL_GetTick :: "dwt \<Rightarrow> u32" where
  "HAL_GetTick s = DWT_CYCCNT s div SysClockFreq * 1000"

section \<open>Busy waiting\<close>

text \<open>The loop; \<open>None\<close> when it is still waiting at the end of the readings.\<close>

fun delay_loop :: "u32 \<Rightarrow> u32 \<Rightarrow> u32 \<Rightarrow> u32 list \<Rightarrow> u32 list option" where
  "delay_loop ticks told tcnt [] = None"
| "delay_loop ticks told tcnt (tnow # rs) =
     (if tnow \<noteq> told then
        let tcnt = (if told < tnow then tcnt + (tnow - told) else tcnt + (0xFFFFFFFF - told + tnow))
        in if ticks \<le> tcnt then Some rs else delay_loop ticks tnow tcnt rs
      else delay_loop ticks told tcnt rs)"

definition CPU_TS_Tmr_Delay_US :: "u32 \<Rightarrow> u32 \<Rightarrow> u32 list \<Rightarrow> u32 list option" where
  "CPU_TS_Tmr_Delay_US clk us readings =
     (let ticks = us * (clk div 1000000)
      in case readings of [] \<Rightarrow> None | told # rs \<Rightarrow> delay_loop ticks told 0 rs)"

section \<open>Elapsed time\<close>

text \<open>
  The cycles that pass over a sequence of readings, when less than one turn of the counter lies
  between two of them; how often the counter turns over; and the longest gap.
\<close>

fun elapsed :: "u32 \<Rightarrow> u32 list \<Rightarrow> nat" where
  "elapsed t [] = 0"
| "elapsed t (r # rs) = unat (r - t) + elapsed r rs"

fun turns :: "u32 \<Rightarrow> u32 list \<Rightarrow> nat" where
  "turns t [] = 0"
| "turns t (r # rs) = (if r < t then 1 else 0) + turns r rs"

fun gaps_below :: "nat \<Rightarrow> u32 \<Rightarrow> u32 list \<Rightarrow> bool" where
  "gaps_below g t [] = True"
| "gaps_below g t (r # rs) = (unat (r - t) < g \<and> gaps_below g r rs)"

text \<open>What the loop adds to its count: the gap, one less when the counter turned over.\<close>

lemma count_step:
  fixes told tnow tcnt :: u32
  assumes "tnow \<noteq> told"
  shows "(if told < tnow then tcnt + (tnow - told) else tcnt + (0xFFFFFFFF - told + tnow)) =
      tcnt + of_nat (unat (tnow - told) - (if tnow < told then 1 else 0))"
proof (cases "told < tnow")
  case False
  with assms have lt: "tnow < told" by simp
  have m: "0xFFFFFFFF - told + tnow = (tnow - told) - 1"
  proof -
    have "(0xFFFFFFFF :: u32) = - 1" by simp
    then show ?thesis by (simp only: algebra_simps) simp
  qed
  have "tnow - told \<noteq> 0" using assms by simp
  then have "1 \<le> unat (tnow - told)" by (simp add: Suc_le_eq unat_gt_0)
  then have "of_nat (unat (tnow - told) - 1) = (tnow - told) - (1 :: u32)" by (simp add: of_nat_diff)
  with m lt False show ?thesis by simp
next
  case True
  then have "\<not> tnow < told" by (rule less_not_sym)
  with True show ?thesis by simp
qed

lemma delay_loop_waits:
  assumes "gaps_below (2 ^ 32 - unat ticks) told rs" "tcnt < ticks \<or> tcnt = 0" "delay_loop ticks told tcnt rs = Some rest"
  shows "\<exists>used. rs = used @ rest \<and> unat ticks \<le> unat tcnt + elapsed told used"
  using assms
proof (induction rs arbitrary: told tcnt)
  case (Cons tnow rs)
  define inc where "inc = unat (tnow - told) - (if tnow < told then 1 else 0)"
  have gap: "unat (tnow - told) < 2 ^ 32 - unat ticks" using Cons.prems(1) by simp
  show ?case
  proof (cases "tnow = told")
    case True
    with Cons.prems Cons.IH [of told tcnt] obtain used where "rs = used @ rest" "unat ticks \<le> unat tcnt + elapsed told used" by auto
    then show ?thesis using True by (intro exI [of _ "tnow # used"]) simp
  next
    case False
    have "unat tcnt + inc < 2 ^ 32"
      using gap Cons.prems(2) by (auto simp: inc_def word_less_nat_alt)
    then have u: "unat (tcnt + of_nat inc) = unat tcnt + inc"
      by (simp add: unat_word_ariths unat_of_nat)
    show ?thesis
    proof (cases "ticks \<le> tcnt + of_nat inc")
      case True
      then have "rs = rest" using Cons.prems(3) False count_step [OF False, of tcnt] by (simp add: inc_def)
      moreover have "unat ticks \<le> unat tcnt + unat (tnow - told)"
        using True u by (simp add: word_le_nat_alt inc_def split: if_splits)
      ultimately show ?thesis by (intro exI [of _ "[tnow]"]) simp
    next
      case notyet: False
      then have "delay_loop ticks tnow (tcnt + of_nat inc) rs = Some rest"
        using Cons.prems(3) False count_step [OF False, of tcnt] by (simp add: inc_def)
      moreover have "tcnt + of_nat inc < ticks" using notyet by (simp add: not_le)
      ultimately obtain used where "rs = used @ rest" "unat ticks \<le> unat tcnt + inc + elapsed tnow used"
        using Cons.IH [of tnow "tcnt + of_nat inc"] Cons.prems(1) by (auto simp: u)
      then show ?thesis by (intro exI [of _ "tnow # used"]) (auto simp: inc_def)
    qed
  qed
qed simp

lemma elapsed_not_all: "elapsed told rs \<noteq> 0 \<or> (\<forall>r \<in> set rs. r = told)"
  by (induction rs arbitrary: told) (auto simp: unat_eq_0)

lemma delay_loop_ends:
  assumes "gaps_below (2 ^ 32 - unat ticks) told rs" "tcnt < ticks \<or> tcnt = 0"
    "unat ticks + turns told rs \<le> unat tcnt + elapsed told rs" "0 < elapsed told rs"
  shows "\<exists>rest. delay_loop ticks told tcnt rs = Some rest"
  using assms
proof (induction rs arbitrary: told tcnt)
  case (Cons tnow rs)
  define inc where "inc = unat (tnow - told) - (if tnow < told then 1 else 0)"
  show ?case
  proof (cases "tnow = told")
    case True
    with Cons show ?thesis by simp
  next
    case False
    have gap: "unat (tnow - told) < 2 ^ 32 - unat ticks" using Cons.prems(1) by simp
    have one: "1 \<le> unat (tnow - told)" using False by (simp add: Suc_le_eq unat_gt_0)
    have "unat tcnt + inc < 2 ^ 32"
      using gap Cons.prems(2) by (auto simp: inc_def word_less_nat_alt)
    then have u: "unat (tcnt + of_nat inc) = unat tcnt + inc" by (simp add: unat_word_ariths unat_of_nat)
    show ?thesis
    proof (cases "ticks \<le> tcnt + of_nat inc")
      case True
      then show ?thesis using False count_step [OF False, of tcnt] by (simp add: inc_def)
    next
      case notyet: False
      have le: "unat ticks + turns tnow rs \<le> unat (tcnt + of_nat inc) + elapsed tnow rs"
        unfolding u using Cons.prems(3) one by (simp add: inc_def split: if_splits)
      moreover have "unat (tcnt + of_nat inc) < unat ticks" using notyet by (simp add: word_le_nat_alt)
      ultimately have "\<exists>rest. delay_loop ticks tnow (tcnt + of_nat inc) rs = Some rest"
        using Cons.IH [of tnow "tcnt + of_nat inc"] Cons.prems(1) notyet by (simp add: not_le)
      then show ?thesis using False notyet count_step [OF False, of tcnt] by (simp add: inc_def)
    qed
  qed
qed simp

section \<open>Properties\<close>

text \<open>
  A delay lasts at least as long as asked, and not for ever: if less than \<^verbatim>\<open>2^32 - ticks\<close> cycles
  lie between two readings, then on return at least \<^verbatim>\<open>us\<close> times the clock cycles of a microsecond
  have passed, and the loop does return once that many cycles have passed, plus one for every time
  the counter turned over, which the code counts one cycle short.
\<close>

theorem delay_bounds:
  assumes "ticks = us * (clk div 1000000)" and "gaps_below (2 ^ 32 - unat ticks) told rs"
  shows "(\<forall>rest. CPU_TS_Tmr_Delay_US clk us (told # rs) = Some rest \<longrightarrow>
      (\<exists>used. rs = used @ rest \<and> unat ticks \<le> elapsed told used)) \<and>
    (unat ticks + turns told rs \<le> elapsed told rs \<and> 0 < elapsed told rs \<longrightarrow>
      (\<exists>rest. CPU_TS_Tmr_Delay_US clk us (told # rs) = Some rest))"
  using delay_loop_waits [OF assms(2), of 0] delay_loop_ends [OF assms(2), of 0]
  unfolding assms(1) [symmetric] CPU_TS_Tmr_Delay_US_def by (simp add: Let_def)

theorem delay_bounds_witness:
  "\<exists>rest. CPU_TS_Tmr_Delay_US 480000000 1 [0xFFFFFF00, 0xFFFFFFF0, 16, 1000] = Some rest"
  using delay_bounds [of 480 1 480000000 "0xFFFFFF00" "[0xFFFFFFF0, 16, 1000]"] by simp

text \<open>
  The tick moves in steps of a whole second and turns back from 10000 to 0 when the cycle counter
  does, after which an interval computed from it is larger than any timeout of the program.
\<close>

theorem tick_resolution:
  "HAL_GetTick s \<in> {0, 1000, 2000, 3000, 4000, 5000, 6000, 7000, 8000, 9000, 10000} \<and>
   HAL_GetTick (s\<lparr>DWT_CYCCNT := 0xFFFFFFFF\<rparr>) = 10000 \<and>
   6000 < HAL_GetTick (s\<lparr>DWT_CYCCNT := 0xFFFFFFFF + 1\<rparr>) - HAL_GetTick (s\<lparr>DWT_CYCCNT := 0xFFFFFFFF\<rparr>)"
proof -
  define q where "q = DWT_CYCCNT s div SysClockFreq"
  have "unat q = unat (DWT_CYCCNT s) div 400000000"
    by (simp add: q_def SysClockFreq_def unat_div)
  moreover have "unat (DWT_CYCCNT s) < 4294967296" using unsigned_less [of "DWT_CYCCNT s", where 'a = nat] by simp
  ultimately have "unat q \<le> 10" by linarith
  then have "unat q \<in> {0, 1, 2, 3, 4, 5, 6, 7, 8, 9, 10}" by (simp only: insert_iff empty_iff) presburger
  then have "of_nat (unat q) \<in> (of_nat ` {0, 1, 2, 3, 4, 5, 6, 7, 8, 9, 10} :: u32 set)" by (rule imageI)
  then have "q \<in> {0, 1, 2, 3, 4, 5, 6, 7, 8, 9, 10}" by simp
  then have "HAL_GetTick s \<in> {0, 1000, 2000, 3000, 4000, 5000, 6000, 7000, 8000, 9000, 10000}"
    unfolding HAL_GetTick_def q_def [symmetric] by auto
  then show ?thesis by (simp add: HAL_GetTick_def SysClockFreq_def)
qed

end
