(* ===== verification/Timeouts.thy ===== *)
theory Timeouts
  imports Delay
begin

text \<open>
  \<^verbatim>\<open>src/STM32/Bootloader/User/lwip-2.0.3/src/core/timeouts.c\<close> as the program configures it (\<^verbatim>\<open>NO_SYS\<close>, TCP,
  ARP, IP reassembly and DHCP timers): the list of timeouts that the main loop polls. The list holds
  differences: an entry is due its own time after the entry before it. The clock is \<^verbatim>\<open>sys_now\<close>, which
  \<^verbatim>\<open>ethernetif.c\<close> defines as \<^verbatim>\<open>HAL_GetTick\<close>.
\<close>

section \<open>State\<close>

text \<open>A callback together with its argument; \<open>cyclic_timer i\<close> has \<^verbatim>\<open>&lwip_cyclic_timers[i]\<close>.\<close>

datatype timer_handler = tcpip_tcp_timer | cyclic_timer nat

text \<open>
  What the rest of the stack contributes: the clock, the effect of the periodic functions
  (\<^verbatim>\<open>tcp_tmr\<close> is number 0, then the others in the order of the table) on its state \<open>'e\<close>, and whether there
  are connections, \<^verbatim>\<open>tcp_active_pcbs || tcp_tw_pcbs\<close>.
\<close>

record 'e timer_env =
  sys_now :: "'e \<Rightarrow> u32"
  tmr :: "nat \<Rightarrow> 'e \<Rightarrow> 'e"
  tcp_pcbs :: "'e \<Rightarrow> bool"

record 'e timers =
  next_timeout :: "(u32 \<times> timer_handler) list"
  timeouts_last_time :: u32
  memp_timeouts :: nat
  tcpip_tcp_timer_active :: bool
  stack :: 'e

definition lwip_cyclic_timers :: "u32 list" where
  "lwip_cyclic_timers = [250, 1000, 1000, 60 * 1000, 500]"

definition TCP_TMR_INTERVAL :: u32 where "TCP_TMR_INTERVAL = 250"

section \<open>Operations\<close>

text \<open>The \<^verbatim>\<open>for\<close> loop of \<^verbatim>\<open>sys_timeout\<close>; \<open>hd_time\<close> is \<^verbatim>\<open>next_timeout->time\<close>.\<close>

fun timeout_link ::
  "u32 \<Rightarrow> u32 \<Rightarrow> timer_handler \<Rightarrow> u32 \<Rightarrow> (u32 \<times> timer_handler) list \<Rightarrow> (u32 \<times> timer_handler) list" where
  "timeout_link msecs hd_time h time [] = []"
| "timeout_link msecs hd_time h time [t] =
     (let time = time - fst t
      in [t, (if msecs < time then msecs + hd_time else time, h)])"
| "timeout_link msecs hd_time h time (t # n # ts) =
     (let time = time - fst t
      in if time < fst n then t # (time, h) # (fst n - time, snd n) # ts
         else t # timeout_link msecs hd_time h time (n # ts))"

definition sys_timeout :: "'e timer_env \<Rightarrow> u32 \<Rightarrow> timer_handler \<Rightarrow> 'e timers \<Rightarrow> 'e timers" where
  "sys_timeout E msecs handler s =
     (if memp_timeouts s = 0 then s
      else let s = s\<lparr>memp_timeouts := memp_timeouts s - 1\<rparr>;
               now = sys_now E (stack s)
           in case next_timeout s of
                [] \<Rightarrow> s\<lparr>timeouts_last_time := now, next_timeout := [(msecs, handler)]\<rparr>
              | t # ts \<Rightarrow>
                  let time = msecs + (now - timeouts_last_time s)
                  in if msecs < fst t
                     then s\<lparr>next_timeout := (time, handler) # (fst t - msecs, snd t) # ts\<rparr>
                     else s\<lparr>next_timeout := timeout_link msecs (fst t) handler time (t # ts)\<rparr>)"

definition cyclic_timer_cb :: "'e timer_env \<Rightarrow> nat \<Rightarrow> 'e timers \<Rightarrow> 'e timers" where
  "cyclic_timer_cb E i s =
     sys_timeout E (lwip_cyclic_timers ! i) (cyclic_timer i) (s\<lparr>stack := tmr E i (stack s)\<rparr>)"

definition tcpip_tcp_timer_cb :: "'e timer_env \<Rightarrow> 'e timers \<Rightarrow> 'e timers" where
  "tcpip_tcp_timer_cb E s =
     (let s = s\<lparr>stack := tmr E 0 (stack s)\<rparr>
      in if tcp_pcbs E (stack s) then sys_timeout E TCP_TMR_INTERVAL tcpip_tcp_timer s
         else s\<lparr>tcpip_tcp_timer_active := False\<rparr>)"

definition tcp_timer_needed :: "'e timer_env \<Rightarrow> 'e timers \<Rightarrow> 'e timers" where
  "tcp_timer_needed E s =
     (if \<not> tcpip_tcp_timer_active s \<and> tcp_pcbs E (stack s)
      then sys_timeout E TCP_TMR_INTERVAL tcpip_tcp_timer (s\<lparr>tcpip_tcp_timer_active := True\<rparr>)
      else s)"




text \<open>The \<^verbatim>\<open>do\<close> loop of \<^verbatim>\<open>sys_check_timeouts\<close>; \<open>None\<close> when it has not ended after \<open>fuel\<close> passes.\<close>

definition timer_call :: "'e timer_env \<Rightarrow> timer_handler \<Rightarrow> 'e timers \<Rightarrow> 'e timers" where
  "timer_call E h s = (case h of tcpip_tcp_timer \<Rightarrow> tcpip_tcp_timer_cb E s | cyclic_timer i \<Rightarrow> cyclic_timer_cb E i s)"

fun check_loop :: "'e timer_env \<Rightarrow> nat \<Rightarrow> u32 \<Rightarrow> 'e timers \<Rightarrow> 'e timers option" where
  "check_loop E 0 diff s = None"
| "check_loop E (Suc fuel) diff s =
     (case next_timeout s of
        [] \<Rightarrow> Some s
      | (time, h) # ts \<Rightarrow>
          if time \<le> diff
          then check_loop E fuel (diff - time) (timer_call E h
                 (s\<lparr>timeouts_last_time := timeouts_last_time s + time, next_timeout := ts, memp_timeouts := memp_timeouts s + 1\<rparr>))
          else Some s)"

definition sys_check_timeouts :: "'e timer_env \<Rightarrow> nat \<Rightarrow> 'e timers \<Rightarrow> 'e timers option" where
  "sys_check_timeouts E fuel s =
     (if next_timeout s = [] then Some s
      else check_loop E fuel (sys_now E (stack s) - timeouts_last_time s) s)"

definition sys_restart_timeouts :: "'e timer_env \<Rightarrow> 'e timers \<Rightarrow> 'e timers" where
  "sys_restart_timeouts E s = s\<lparr>timeouts_last_time := sys_now E (stack s)\<rparr>"

definition sys_timeouts_sleeptime :: "'e timer_env \<Rightarrow> 'e timers \<Rightarrow> u32" where
  "sys_timeouts_sleeptime E s =
     (case next_timeout s of
        [] \<Rightarrow> 0xFFFFFFFF
      | t # ts \<Rightarrow>
          let diff = sys_now E (stack s) - timeouts_last_time s
          in if fst t < diff then 0 else fst t - diff)"

section \<open>The list as a queue of due times\<close>

text \<open>When each entry is due, counted from \<^verbatim>\<open>timeouts_last_time\<close>.\<close>

fun dues :: "nat \<Rightarrow> (u32 \<times> timer_handler) list \<Rightarrow> (nat \<times> timer_handler) list" where
  "dues b [] = []"
| "dues b ((t, h) # ts) = (b + unat t, h) # dues (b + unat t) ts"



lemma dues_ge: "d \<in> set (dues b ts) \<Longrightarrow> b \<le> fst d"
  by (induction b ts rule: dues.induct) force+

lemma sorted_dues: "sorted (map fst (dues b ts))"
  by (induction b ts rule: dues.induct) (auto dest: dues_ge)




lemma due_insert_sum: "fst (last ((b + unat t, h) # dues (b + unat t) ts)) = fst (last (dues b ((t, h) # ts)))"
  by simp


section \<open>The check ends\<close>













section \<open>Properties\<close>


text \<open>The board: the clock is the tick, whose counter the callbacks do not move; one connection is open.\<close>

definition board_clock :: "dwt timer_env" where
  "board_clock = \<lparr>sys_now = HAL_GetTick, tmr = (\<lambda>i e. e), tcp_pcbs = (\<lambda>e. True)\<rparr>"

definition timers_init :: "u32 \<Rightarrow> dwt timers" where
  "timers_init cyc = \<lparr>next_timeout = [], timeouts_last_time = 0, memp_timeouts = 10, tcpip_tcp_timer_active = False,
     stack = \<lparr>DEM_CR = 0, DWT_CYCCNT = cyc, DWT_CR = 0\<rparr>\<rparr>"




definition timers_tick_10000 :: "dwt timers" where
  "timers_tick_10000 = (timers_init 0xFFFFFFFF)\<lparr>next_timeout := [(250, tcpip_tcp_timer), (250, cyclic_timer 4),
       (500, cyclic_timer 1), (0, cyclic_timer 2), (49000, cyclic_timer 3)],
     timeouts_last_time := 10000, memp_timeouts := 5, tcpip_tcp_timer_active := True\<rparr>"

text \<open>
  The tick falls back to 0 after 10 seconds, and the timers do not survive it: from a list as
  the program has it when the tick is 10000 (all timers up to date, the DHCP timer 50 seconds away),
  the next poll, at tick 0, runs each of the short timers once and leaves the TCP timer, whose period
  is 250 ms, behind the DHCP timer, 49.5 seconds away.
\<close>

theorem tick_wrap_starves_tcp:
  "sys_timeouts_sleeptime board_clock timers_tick_10000 = 250 \<and>
   (\<exists>s. sys_check_timeouts board_clock 5 (timers_tick_10000\<lparr>stack := (stack timers_tick_10000)\<lparr>DWT_CYCCNT := 0xFFFFFFFF + 1\<rparr>\<rparr>) = Some s \<and>
     map snd (next_timeout s) = [cyclic_timer 2, cyclic_timer 3, tcpip_tcp_timer, cyclic_timer 4, cyclic_timer 1] \<and>
     fst (dues 0 (next_timeout s) ! 2) = unat (sys_now board_clock (stack s) - timeouts_last_time s) + 49500)"
proof -
  have five: "(5 :: nat) = Suc (Suc (Suc (Suc (Suc 0))))" by simp
  show ?thesis
    unfolding five
    by (simp add: timers_tick_10000_def timers_init_def sys_check_timeouts_def sys_timeouts_sleeptime_def board_clock_def
        HAL_GetTick_def SysClockFreq_def timer_call_def tcpip_tcp_timer_cb_def cyclic_timer_cb_def sys_timeout_def
        Let_def lwip_cyclic_timers_def TCP_TMR_INTERVAL_def)
qed

end
