(* ===== verification/Ethernetif.thy ===== *)
theory Ethernetif
  imports Pbuf_Correct Board Timeouts
begin

text \<open>
  The Ethernet driver under \<^verbatim>\<open>src/STM32/Bootloader/User/\<close>: the PHY and its pins (\<^verbatim>\<open>BSP/LAN8720A/LAN8720a.c\<close>), the
  glue between lwIP and the DMA (\<^verbatim>\<open>APP/ethernetif.c\<close>) and the configuration of the interface
  (\<^verbatim>\<open>APP/app_ethernet.c\<close>). The Ethernet part of the HAL is the record \<open>'d eth\<close>, a parameter; pbufs live in the
  store of theory \<^verbatim>\<open>Pbuf\<close>.
\<close>

section \<open>Types\<close>

datatype eth_duplex = ETH_HALFDUPLEX_MODE | ETH_FULLDUPLEX_MODE
datatype eth_speed = ETH_SPEED_10M | ETH_SPEED_100M

text \<open>
  A transmit gets the buffers (address and length) and the length of the frame. A read of a PHY
  register stores a value only if it succeeds. \<open>mem_malloc4\<close> is \<^verbatim>\<open>mem_malloc\<close> of the four bytes that
  \<^verbatim>\<open>sizeof(ethernetif)\<close> is.
\<close>

record 'd eth =
  HAL_ETH_Init :: "nat \<Rightarrow> u8 list \<Rightarrow> ('d, HAL_StatusTypeDef) state"
  HAL_ETH_WritePHYRegister :: "u16 \<Rightarrow> u16 \<Rightarrow> u16 \<Rightarrow> ('d, HAL_StatusTypeDef) state"
  HAL_ETH_ReadPHYRegister :: "u16 \<Rightarrow> u16 \<Rightarrow> ('d, HAL_StatusTypeDef \<times> u32) state"
  HAL_ETH_DescAssignMemory :: "nat \<Rightarrow> nat \<Rightarrow> ('d, unit) state"
  HAL_ETH_SetMAC :: "eth_duplex \<Rightarrow> eth_speed \<Rightarrow> ('d, unit) state"
  HAL_ETH_Start_IT :: "('d, unit) state"
  HAL_ETH_Stop_IT :: "('d, unit) state"
  HAL_ETH_Transmit :: "(nat \<times> u16) list \<Rightarrow> u32 \<Rightarrow> nat \<Rightarrow> ('d, HAL_StatusTypeDef) state"
  HAL_ETH_GetRxDataBuffer :: "('d, HAL_StatusTypeDef \<times> nat) state"
  HAL_ETH_GetRxDataLength :: "('d, u32) state"
  HAL_ETH_BuildRxDescriptors :: "('d, unit) state"
  SCB_InvalidateDCache_by_Addr :: "nat \<Rightarrow> nat \<Rightarrow> ('d, unit) state"
  ETH_NVIC :: "nat \<Rightarrow> ('d, unit) state"
  mem_malloc4 :: "('d, bool) state"

text \<open>The fields of \<^verbatim>\<open>struct netif\<close> that the driver uses.\<close>

record netif =
  netif_up :: bool
  netif_link_up :: bool
  hwaddr :: "u8 list"
  mtu :: nat
  flag_broadcast :: bool
  flag_etharp :: bool
  if_name :: string
  ip_config :: "u8 list \<times> u8 list \<times> u8 list"

section \<open>PHY\<close>

definition LAN8720A_PHY_ADDRESS :: u16 where "LAN8720A_PHY_ADDRESS = 0"
definition PHY_BCR :: u16 where "PHY_BCR = 0"
definition PHY_BSR :: u16 where "PHY_BSR = 1"
definition PHY_SR :: u16 where "PHY_SR = 0x1F"
definition PHY_RESET :: u16 where "PHY_RESET = 0x8000"
definition PHY_AUTONEGOTIATION :: u16 where "PHY_AUTONEGOTIATION = 0x1000"
definition PHY_AUTONEGO_COMPLETE :: u32 where "PHY_AUTONEGO_COMPLETE = 0x20"
definition PHY_SPEED_Indication :: u32 where "PHY_SPEED_Indication = 0x1C"
definition PHY_RESET_DELAY :: nat where "PHY_RESET_DELAY = 0x0F"
definition PHY_READ_TO :: nat where "PHY_READ_TO = 0xFFFF"

text \<open>The nine pins of the RMII interface; the structure keeps its other members from pin to pin.\<close>

definition ETH_GPIO_Config :: "'d hal \<Rightarrow> GPIO_InitTypeDef \<Rightarrow> ('d, unit) state" where
  "ETH_GPIO_Config H g = do {
     HAL_RCC_CLK_ENABLE H ''GPIOA'';
     HAL_RCC_CLK_ENABLE H ''GPIOC'';
     HAL_RCC_CLK_ENABLE H ''GPIOA'';
     HAL_RCC_CLK_ENABLE H ''GPIOA'';
     HAL_RCC_CLK_ENABLE H ''GPIOC'';
     HAL_RCC_CLK_ENABLE H ''GPIOC'';
     HAL_RCC_CLK_ENABLE H ''GPIOB'';
     HAL_RCC_CLK_ENABLE H ''GPIOG'';
     HAL_RCC_CLK_ENABLE H ''GPIOG'';
     let g = g\<lparr>Pin := 2 ^ 2, Speed := GPIO_SPEED_FREQ_HIGH, Mode := GPIO_MODE_AF_PP, Pull := GPIO_NOPULL, Alternate := 11\<rparr>;
     HAL_GPIO_Init H GPIOA g;
     let g = g\<lparr>Pin := 2 ^ 1, Alternate := 11\<rparr>;
     HAL_GPIO_Init H GPIOC g;
     let g = g\<lparr>Pin := 2 ^ 1, Alternate := 11\<rparr>;
     HAL_GPIO_Init H GPIOA g;
     let g = g\<lparr>Pin := 2 ^ 7, Alternate := 11\<rparr>;
     HAL_GPIO_Init H GPIOA g;
     let g = g\<lparr>Pin := 2 ^ 4, Alternate := 11\<rparr>;
     HAL_GPIO_Init H GPIOC g;
     let g = g\<lparr>Pin := 2 ^ 5, Alternate := 11\<rparr>;
     HAL_GPIO_Init H GPIOC g;
     let g = g\<lparr>Pin := 2 ^ 11, Alternate := 11\<rparr>;
     HAL_GPIO_Init H GPIOB g;
     let g = g\<lparr>Pin := 2 ^ 13, Alternate := 11\<rparr>;
     HAL_GPIO_Init H GPIOG g;
     let g = g\<lparr>Pin := 2 ^ 12, Alternate := 11\<rparr>;
     HAL_GPIO_Init H GPIOG g
   }"

definition HAL_ETH_MspInit :: "'d hal \<Rightarrow> 'd eth \<Rightarrow> GPIO_InitTypeDef \<Rightarrow> ('d, unit) state" where
  "HAL_ETH_MspInit H N g = do {
     ETH_GPIO_Config H g;
     ETH_NVIC N 6;
     HAL_RCC_CLK_ENABLE H ''ETH1MAC'';
     HAL_RCC_CLK_ENABLE H ''ETH1TX'';
     HAL_RCC_CLK_ENABLE H ''ETH1RX''
   }"

text \<open>The polling loop after \<open>t\<close> reads; \<^verbatim>\<open>phyreg\<close> keeps its value when a read fails.\<close>

function phy_wait :: "'d eth \<Rightarrow> nat \<Rightarrow> u32 \<Rightarrow> ('d, HAL_StatusTypeDef) state" where
  "phy_wait N t phyreg = do {
     (r, v) \<leftarrow> HAL_ETH_ReadPHYRegister N LAN8720A_PHY_ADDRESS PHY_BSR;
     let phyreg = (if r = HAL_OK then v else phyreg);
     if PHY_READ_TO < t + 1 then return HAL_TIMEOUT
     else if phyreg AND PHY_AUTONEGO_COMPLETE \<noteq> PHY_AUTONEGO_COMPLETE then phy_wait N (t + 1) phyreg
     else return HAL_OK
   }"
  by pat_completeness auto
termination
  by (relation "measure (\<lambda>(N, t, v). PHY_READ_TO - t)") auto

declare phy_wait.simps [simp del]

definition LAN8720_Init :: "'d hal \<Rightarrow> 'd eth \<Rightarrow> ('d, HAL_StatusTypeDef) state" where
  "LAN8720_Init H N = do {
     r \<leftarrow> HAL_ETH_WritePHYRegister N LAN8720A_PHY_ADDRESS PHY_BCR PHY_RESET;
     if r \<noteq> HAL_OK then return HAL_ERROR
     else do {
       HAL_Delay H PHY_RESET_DELAY;
       r \<leftarrow> HAL_ETH_WritePHYRegister N LAN8720A_PHY_ADDRESS PHY_BCR PHY_AUTONEGOTIATION;
       if r \<noteq> HAL_OK then return HAL_ERROR
       else do {
         HAL_Delay H 0xFFF;
         phy_wait N 0 0
       }
     }
   }"

definition LAN8720_GetLinkState :: "'d eth \<Rightarrow> ('d, u32) state" where
  "LAN8720_GetLinkState N = do {
     (r, v) \<leftarrow> HAL_ETH_ReadPHYRegister N LAN8720A_PHY_ADDRESS PHY_SR;
     return (if r = HAL_OK then v else 0)
   }"

text \<open>The interrupt only raises the flag that the main loop polls.\<close>

definition HAL_ETH_RxCpltCallback :: "bool \<Rightarrow> bool" where
  "HAL_ETH_RxCpltCallback flag = True"

section \<open>Link\<close>

definition link_mode :: "u32 \<Rightarrow> (eth_duplex \<times> eth_speed) option" where
  "link_mode st =
     (let s = st AND PHY_SPEED_Indication
      in if s = 0x18 then Some (ETH_FULLDUPLEX_MODE, ETH_SPEED_100M)
         else if s = 0x08 then Some (ETH_HALFDUPLEX_MODE, ETH_SPEED_100M)
         else if s = 0x14 then Some (ETH_FULLDUPLEX_MODE, ETH_SPEED_10M)
         else if s = 0x04 then Some (ETH_HALFDUPLEX_MODE, ETH_SPEED_10M)
         else None)"

definition ethernet_link_check_state :: "'d eth \<Rightarrow> netif \<Rightarrow> ('d, netif) state" where
  "ethernet_link_check_state N nif = do {
     st \<leftarrow> LAN8720_GetLinkState N;
     if netif_link_up nif \<and> st \<noteq> 0 then do {
       HAL_ETH_Stop_IT N;
       return (nif\<lparr>netif_up := False, netif_link_up := False\<rparr>)
     }
     else if \<not> netif_link_up nif \<and> st \<noteq> 0 then
       (case link_mode st of
          None \<Rightarrow> return nif
        | Some (duplex, speed) \<Rightarrow> do {
            HAL_ETH_SetMAC N duplex speed;
            HAL_ETH_Start_IT N;
            return (nif\<lparr>netif_up := True, netif_link_up := True\<rparr>)
          })
     else return nif
   }"

section \<open>Initialisation\<close>

definition MAC_ADDR :: "u8 list" where "MAC_ADDR = [2, 0, 0, 0, 0, 0]"
definition ETH_RX_BUFFER_SIZE :: nat where "ETH_RX_BUFFER_SIZE = 1536"
definition ETH_RX_DESC_CNT :: nat where "ETH_RX_DESC_CNT = 4"
definition ETH_TX_DESC_CNT :: nat where "ETH_TX_DESC_CNT = 4"
definition ETH_DMA_TRANSMIT_TIMEOUT :: nat where "ETH_DMA_TRANSMIT_TIMEOUT = 5"

fun desc_assign :: "'d eth \<Rightarrow> nat \<Rightarrow> nat \<Rightarrow> nat \<Rightarrow> ('d, unit) state" where
  "desc_assign N Rx_Buff idx 0 = return ()"
| "desc_assign N Rx_Buff idx (Suc n) = do {
     HAL_ETH_DescAssignMemory N idx (Rx_Buff + idx * ETH_RX_BUFFER_SIZE);
     desc_assign N Rx_Buff (Suc idx) n
   }"

text \<open>
  The constant attributes of \<^verbatim>\<open>TxConfig\<close> (checksum and padding) go with every transmission and are not kept.
\<close>

text \<open>\<open>Rx_Buff\<close> is where the linker puts the receive buffers; \<open>pool\<close> are the 20 elements of \<^verbatim>\<open>RX_POOL\<close>.\<close>

definition low_level_init :: "'d hal \<Rightarrow> 'd eth \<Rightarrow> nat \<Rightarrow> nat list \<Rightarrow> netif \<Rightarrow> store \<Rightarrow> ('d, netif \<times> store) state" where
  "low_level_init H N Rx_Buff pool nif h = do {
     HAL_ETH_Init N ETH_RX_BUFFER_SIZE MAC_ADDR;
     let nif = nif\<lparr>hwaddr := MAC_ADDR, mtu := 1500, flag_broadcast := True, flag_etharp := True\<rparr>;
     desc_assign N Rx_Buff 0 ETH_RX_DESC_CNT;
     let h = h\<lparr>RX_POOL := pool\<rparr>;
     r \<leftarrow> LAN8720_Init H N;
     nif \<leftarrow> (if r = HAL_OK then ethernet_link_check_state N nif else return nif);
     return (nif, h)
   }"

definition ethernetif_init :: "'d hal \<Rightarrow> 'd eth \<Rightarrow> nat \<Rightarrow> nat list \<Rightarrow> netif \<Rightarrow> store \<Rightarrow> ('d, err_t \<times> netif \<times> store) state" where
  "ethernetif_init H N Rx_Buff pool nif h = do {
     ok \<leftarrow> mem_malloc4 N;
     if \<not> ok then return (ERR_MEM, nif, h)
     else do {
       (nif, h) \<leftarrow> low_level_init H N Rx_Buff pool (nif\<lparr>if_name := ''st''\<rparr>) h;
       return (ERR_OK, nif, h)
     }
   }"

text \<open>
  \<^verbatim>\<open>netif_add\<close> runs \<^verbatim>\<open>ethernetif_init\<close>; its result is ignored here as in the code. \<^verbatim>\<open>netif_set_up\<close> and
  \<^verbatim>\<open>netif_set_down\<close> set and clear the flag.
\<close>

definition Netif_Config :: "'d hal \<Rightarrow> 'd eth \<Rightarrow> nat \<Rightarrow> nat list \<Rightarrow> netif \<Rightarrow> store \<Rightarrow> ('d, netif \<times> store) state" where
  "Netif_Config H N Rx_Buff pool nif h = do {
     let nif = nif\<lparr>netif_up := False, netif_link_up := False, ip_config := ([192, 168, 1, 2], [255, 255, 255, 0], [192, 168, 1, 1])\<rparr>;
     (e, nif, h) \<leftarrow> ethernetif_init H N Rx_Buff pool nif h;
     return (if netif_link_up nif then nif\<lparr>netif_up := True\<rparr> else nif\<lparr>netif_up := False\<rparr>, h)
   }"

definition User_notification :: "'d bsp \<Rightarrow> netif \<Rightarrow> ('d, unit) state" where
  "User_notification B nif = (if netif_up nif then LED_GREEN B else LED_RED B)"

section \<open>Frames\<close>

text \<open>The descriptors for a chain of pbufs, \<open>i\<close> of them filled: \<open>Inl\<close> is the return of \<^verbatim>\<open>ERR_IF\<close>.\<close>

partial_function (option) tx_buffers ::
  "nat \<Rightarrow> nat \<Rightarrow> (nat \<times> u16) list \<Rightarrow> u32 \<Rightarrow> store \<Rightarrow> (err_t + (nat \<times> u16) list \<times> u32) option" where
  "tx_buffers q i txb framelen h =
     (if q = 0 then Some (Inr (txb, framelen))
      else case pb h q of None \<Rightarrow> None
        | Some b \<Rightarrow>
            if ETH_TX_DESC_CNT \<le> i then Some (Inl ERR_IF)
            else tx_buffers (pnext b) (i + 1) (txb @ [(payload b, plen b)]) (framelen + ucast (plen b)) h)"

definition low_level_output :: "'d eth \<Rightarrow> nat \<Rightarrow> store \<Rightarrow> ('d, err_t option) state" where
  "low_level_output N p h =
     (case tx_buffers p 0 [] 0 h of
        None \<Rightarrow> return None
      | Some (Inl e) \<Rightarrow> return (Some e)
      | Some (Inr (txb, framelen)) \<Rightarrow> do {
          HAL_ETH_Transmit N txb framelen ETH_DMA_TRANSMIT_TIMEOUT;
          return (Some ERR_OK)
        })"

text \<open>The cache maintenance of this function does not concern the store.\<close>

definition pbuf_free_custom :: "nat \<Rightarrow> store \<Rightarrow> store" where
  "pbuf_free_custom p h = h\<lparr>RX_POOL := p # RX_POOL h\<rparr>"

text \<open>The driver keeps the contract of custom pbufs, whatever the heap allocator does.\<close>

definition driver_env :: "(nat \<Rightarrow> store \<Rightarrow> nat option) \<Rightarrow> pbuf_env" where
  "driver_env m = \<lparr>mem_malloc = m, custom_free_function = pbuf_free_custom\<rparr>"

interpretation driver: custom_pbufs "driver_env m" for m
  by unfold_locales (simp add: driver_env_def pbuf_free_custom_def)

text \<open>
  The pbuf for one received frame, or 0. \<open>None\<close>: the pool is empty and the code writes through the
  null pointer.
\<close>

definition low_level_input :: "'d eth \<Rightarrow> nat \<Rightarrow> store \<Rightarrow> ('d, (nat \<times> store) option) state" where
  "low_level_input N Rx_Buff h = do {
     (r, buffer) \<leftarrow> HAL_ETH_GetRxDataBuffer N;
     if r = HAL_OK then do {
       framelength \<leftarrow> HAL_ETH_GetRxDataLength N;
       SCB_InvalidateDCache_by_Addr N Rx_Buff (ETH_RX_DESC_CNT * ETH_RX_BUFFER_SIZE);
       return (case RX_POOL h of
         [] \<Rightarrow> None
       | c # cs \<Rightarrow> Some (pbuf_alloced_custom PBUF_RAW (ucast framelength) PBUF_REF c buffer (of_nat ETH_RX_BUFFER_SIZE) (h\<lparr>RX_POOL := cs\<rparr>)))
     } else return (Some (0, h))
   }"

text \<open>
  The loop of \<^verbatim>\<open>ethernetif_input\<close>; \<open>input\<close> is \<^verbatim>\<open>netif->input\<close>, with the state \<open>'s\<close> of the stack. It goes on as
  long as frames arrive.
\<close>

datatype 'a rx = Rx_Done 'a | Rx_Running 'a | Rx_Undef

fun ethernetif_input ::
  "'d eth \<Rightarrow> pbuf_env \<Rightarrow> nat \<Rightarrow> (nat \<Rightarrow> store \<Rightarrow> 's \<Rightarrow> err_t \<times> store \<times> 's) \<Rightarrow> nat \<Rightarrow> store \<Rightarrow> 's \<Rightarrow> ('d, (store \<times> 's) rx) state" where
  "ethernetif_input N E Rx_Buff input 0 h s = return (Rx_Running (h, s))"
| "ethernetif_input N E Rx_Buff input (Suc fuel) h s = do {
     x \<leftarrow> low_level_input N Rx_Buff h;
     HAL_ETH_BuildRxDescriptors N;
     case x of
       None \<Rightarrow> return Rx_Undef
     | Some (p, h) \<Rightarrow>
         if p = 0 then return (Rx_Done (h, s))
         else case input p h s of (e, h, s) \<Rightarrow>
           if e \<noteq> ERR_OK then
             return (case pbuf_free E p h of None \<Rightarrow> Rx_Undef | Some (n, h) \<Rightarrow> Rx_Done (h, s))
           else ethernetif_input N E Rx_Buff input fuel h s
   }"

end
