(* ===== verification/Eth_Properties.thy ===== *)
theory Eth_Properties
  imports Ethernetif
begin

text \<open>
  Properties of the Ethernet driver: a packet leaves as exactly one frame, the elements of \<^verbatim>\<open>RX_POOL\<close> are
  neither lost nor used twice by the receive loop, and what polling the link does.
\<close>

section \<open>Transmission\<close>

definition frame_buffers :: "store \<Rightarrow> nat list \<Rightarrow> (nat \<times> u16) list" where
  "frame_buffers h as = map (\<lambda>a. (payload (the_pb h a), plen (the_pb h a))) as"

text \<open>The bytes the DMA fetches for a list of buffers.\<close>

definition dma_bytes :: "store \<Rightarrow> (nat \<times> u16) list \<Rightarrow> u8 list" where
  "dma_bytes h txb = concat (map (\<lambda>(a, n). mem_slice (bytes h) a (unat n)) txb)"

lemma dma_contents: "dma_bytes h (frame_buffers h as) = contents h as"
  by (simp add: dma_bytes_def frame_buffers_def contents_def pbuf_bytes_def comp_def)

lemma tx_buffers_ok:
  assumes "chain h q as"
  shows "tx_buffers q i txb n h =
    (if i + length as \<le> ETH_TX_DESC_CNT \<or> as = [] then Some (Inr (txb @ frame_buffers h as, n + of_nat (total h as)))
     else Some (Inl ERR_IF))"
  using assms
proof (induction as arbitrary: q i txb n)
  case Nil
  then show ?case by (subst tx_buffers.simps) (simp add: frame_buffers_def)
next
  case (Cons a as)
  then obtain b where b: "q = a" "a \<noteq> 0" "pb h a = Some b" "chain h (pnext b) as" by auto
  note IH = Cons.IH [OF b(4), of "i + 1" "txb @ [(payload b, plen b)]" "n + ucast (plen b)"]
  have "(of_nat (unat (plen b)) :: u32) = ucast (plen b)" by simp
  then show ?case
    using b IH by (subst tx_buffers.simps) (auto simp: frame_buffers_def the_pb_def ac_simps Suc_le_eq)
qed

section \<open>Reception\<close>

text \<open>
  The accounting of \<^verbatim>\<open>RX_POOL\<close>: an element is in the free list, once, exactly when no pbuf lives in it.
\<close>

definition rx_inv :: "nat list \<Rightarrow> store \<Rightarrow> bool" where
  "rx_inv pool h \<longleftrightarrow> distinct (RX_POOL h) \<and> set (RX_POOL h) = {c \<in> set pool. pb h c = None}"











section \<open>Link\<close>

text \<open>Polling the link \<open>n\<close> times, as a main loop would.\<close>

fun link_polls :: "'d eth \<Rightarrow> nat \<Rightarrow> netif \<Rightarrow> ('d, netif) state" where
  "link_polls N 0 nif = return nif"
| "link_polls N (Suc n) nif = do {
     nif \<leftarrow> ethernet_link_check_state N nif;
     link_polls N n nif
   }"

lemma link_mode_nonzero: "link_mode st = Some m \<Longrightarrow> st \<noteq> 0"
  by (auto simp: link_mode_def)

lemma link_poll_flip:
  assumes "\<And>d. fst (run_state (LAN8720_GetLinkState N) d) = st" "link_mode st = Some m"
  shows "wp (ethernet_link_check_state N nif) (\<lambda>nif' _. nif' = nif\<lparr>netif_up := \<not> netif_link_up nif, netif_link_up := \<not> netif_link_up nif\<rparr>) d"
  using assms link_mode_nonzero [OF assms(2)] by (cases m) (auto simp: ethernet_link_check_state_def wp_result run_state_bind split: prod.splits)

lemma link_poll_dead:
  assumes "\<And>d. fst (run_state (LAN8720_GetLinkState N) d) = 0"
  shows "wp (ethernet_link_check_state N nif) (\<lambda>nif' _. nif' = nif) d"
  using assms by (auto simp: ethernet_link_check_state_def wp_result run_state_bind split: prod.splits)

lemma link_polls_flip:
  assumes "\<And>d. fst (run_state (LAN8720_GetLinkState N) d) = st" "link_mode st = Some m"
  shows "wp (link_polls N n nif) (\<lambda>nif' _. netif_link_up nif' = (netif_link_up nif \<noteq> odd n)) d"
proof (induction n arbitrary: nif d)
  case (Suc n)
  show ?case
    unfolding link_polls.simps wp_bind
    by (rule wp_mono [OF link_poll_flip [OF assms]]) (rule wp_mono [OF Suc.IH], auto)
qed simp

lemma link_polls_dead:
  assumes "\<And>d. fst (run_state (LAN8720_GetLinkState N) d) = 0"
  shows "wp (link_polls N n nif) (\<lambda>nif' _. nif' = nif) d"
proof (induction n arbitrary: d)
  case (Suc n)
  show ?case
    unfolding link_polls.simps wp_bind
    by (rule wp_mono [OF link_poll_dead [OF assms]]) (use Suc.IH in simp)
qed simp

section \<open>Properties\<close>

text \<open>A controller that delivers the frames of a list and takes every transmission down.\<close>

record wire =
  rx_frames :: "u32 list"
  rx_len :: u32
  sent :: "((nat \<times> u16) list \<times> u32) list"

definition wire_eth :: "u32 \<Rightarrow> wire eth" where
  "wire_eth sr = \<lparr>HAL_ETH_Init = (\<lambda>n a. return HAL_OK), HAL_ETH_WritePHYRegister = (\<lambda>a r v. return HAL_OK),
     HAL_ETH_ReadPHYRegister = (\<lambda>a r. return (HAL_OK, sr)), HAL_ETH_DescAssignMemory = (\<lambda>i a. return ()),
     HAL_ETH_SetMAC = (\<lambda>m s. return ()), HAL_ETH_Start_IT = return (), HAL_ETH_Stop_IT = return (),
     HAL_ETH_Transmit = (\<lambda>txb n t. State (\<lambda>d. (HAL_OK, d\<lparr>sent := sent d @ [(txb, n)]\<rparr>))),
     HAL_ETH_GetRxDataBuffer = State (\<lambda>d. case rx_frames d of [] \<Rightarrow> ((HAL_ERROR, 0), d) | n # ns \<Rightarrow> ((HAL_OK, 0x24000000), d\<lparr>rx_frames := ns, rx_len := n\<rparr>)),
     HAL_ETH_GetRxDataLength = State (\<lambda>d. (min (rx_len d) 1536, d)),
     HAL_ETH_BuildRxDescriptors = return (),
     SCB_InvalidateDCache_by_Addr = (\<lambda>a n. return ()), ETH_NVIC = (\<lambda>p. return ()), mem_malloc4 = return True\<rparr>"

text \<open>
  A packet is sent as exactly one frame: if it has at most as many pbufs as there are transmit
  descriptors, the driver asks the HAL once, with the buffers of the chain in order, whose bytes are
  the contents of the packet, and with their total as length, and reports success whatever the HAL
  returns; a longer chain is refused and the controller is not touched.
\<close>

theorem packet_is_one_frame:
  assumes "packet h p as"
  shows "run_state (low_level_output N p h) d =
      (if length as \<le> ETH_TX_DESC_CNT
       then (Some ERR_OK, snd (run_state (HAL_ETH_Transmit N (frame_buffers h as) (of_nat (total h as)) ETH_DMA_TRANSMIT_TIMEOUT) d))
       else (Some ERR_IF, d)) \<and>
    dma_bytes h (frame_buffers h as) = contents h as \<and> total h as = unat (tot_len (the_pb h p))"
proof -
  have "chain h p as" "as \<noteq> []" using assms by (auto simp: packet_def)
  moreover from this assms have "total h as = unat (tot_len (the_pb h p))" by (cases as) (auto simp: packet_def)
  ultimately show ?thesis
    using tx_buffers_ok [of h p as 0 "[]" 0] by (auto simp: low_level_output_def dma_contents run_state_bind split: prod.splits)
qed

theorem packet_is_one_frame_witness:
  "run_state (low_level_output (wire_eth 0) 10 demo_packets) \<lparr>rx_frames = [], rx_len = 0, sent = []\<rparr> =
     (Some ERR_OK, \<lparr>rx_frames = [], rx_len = 0, sent = [([(26, 4), (66, 3)], 7)]\<rparr>)"
  using packet_is_one_frame [OF demo_packet(1), of "wire_eth 0" "\<lparr>rx_frames = [], rx_len = 0, sent = []\<rparr>"] demo_packet
  by (simp add: ETH_TX_DESC_CNT_def wire_eth_def frame_buffers_def demo_buf_def)






text \<open>
  C21. A frame longer than its buffer costs an element of \<^verbatim>\<open>RX_POOL\<close> for good: the driver takes the
  element, \<^verbatim>\<open>pbuf_alloced_custom\<close> refuses the length, and nothing gives the element back. Once the pool
  is empty the next frame, of any length, is written through a null pointer.
\<close>

theorem long_frame_leaks:
  assumes "run_state (HAL_ETH_GetRxDataBuffer N) d = ((HAL_OK, buf), d1)" and "run_state (HAL_ETH_GetRxDataLength N) d1 = (n, d2)"
    and "of_nat ETH_RX_BUFFER_SIZE < n" and "n < 65536"
  shows "fst (run_state (low_level_input N Rx_Buff h) d) =
      (case RX_POOL h of [] \<Rightarrow> None | c # cs \<Rightarrow> Some (0, h\<lparr>RX_POOL := cs\<rparr>)) \<and>
    (RX_POOL h \<noteq> [] \<longrightarrow> rx_inv pool h \<longrightarrow> \<not> rx_inv pool (h\<lparr>RX_POOL := tl (RX_POOL h)\<rparr>))"
proof -
  have n: "1536 < unat n" "unat n < 65536" using assms(3,4) by (simp_all add: word_less_nat_alt ETH_RX_BUFFER_SIZE_def)
  then have "unat (ucast n :: u16) = unat n" by (simp add: unsigned_ucast_eq take_bit_eq_mod)
  then have "pbuf_alloced_custom PBUF_RAW (ucast n) PBUF_REF c buf (of_nat ETH_RX_BUFFER_SIZE) h = (0, h)" for c h
    using n by (simp add: pbuf_alloced_custom_def Let_def ETH_RX_BUFFER_SIZE_def)
  then have "fst (run_state (low_level_input N Rx_Buff h) d) = (case RX_POOL h of [] \<Rightarrow> None | c # cs \<Rightarrow> Some (0, h\<lparr>RX_POOL := cs\<rparr>))"
    using assms(1,2) by (simp add: low_level_input_def run_state_bind split: prod.splits list.splits)
  moreover have "\<not> rx_inv pool (h\<lparr>RX_POOL := tl (RX_POOL h)\<rparr>)" if "RX_POOL h \<noteq> []" "rx_inv pool h"
    using that by (cases "RX_POOL h") (auto simp: rx_inv_def)
  ultimately show ?thesis by blast
qed

definition giant_eth :: "wire eth" where
  "giant_eth = (wire_eth 0)\<lparr>HAL_ETH_GetRxDataLength := State (\<lambda>d. (rx_len d, d))\<rparr>"

theorem long_frame_leaks_witness:
  "fst (run_state (low_level_input giant_eth 0 demo_store) \<lparr>rx_frames = [1600], rx_len = 0, sent = []\<rparr>) = Some (0, demo_store\<lparr>RX_POOL := []\<rparr>)"
  using long_frame_leaks [where N = giant_eth and d = "\<lparr>rx_frames = [1600], rx_len = 0, sent = []\<rparr>" and n = 1600 and Rx_Buff = 0 and h = demo_store]
  by (simp add: giant_eth_def wire_eth_def demo_store_def ETH_RX_BUFFER_SIZE_def)

definition demo_netif :: netif where
  "demo_netif = \<lparr>netif_up = False, netif_link_up = False, hwaddr = MAC_ADDR, mtu = 1500, flag_broadcast = True, flag_etharp = True,
     if_name = ''st'', ip_config = ([192, 168, 1, 2], [255, 255, 255, 0], [192, 168, 1, 1])\<rparr>"

text \<open>
  Polling the link is inverted: while the PHY reports a good link at one of its speeds, every
  poll toggles the interface, so that after an even number of polls it is as before; and an interface
  that is up stays up, however often it is polled, when the PHY no longer answers. The single call of
  the initialisation, with the interface down, is not affected.
\<close>

theorem link_polls_toggle:
  assumes "\<And>d. fst (run_state (LAN8720_GetLinkState N) d) = st"
  shows "(link_mode st \<noteq> None \<longrightarrow> netif_link_up (fst (run_state (link_polls N n nif) d)) = (netif_link_up nif \<noteq> odd n)) \<and>
    (st = 0 \<longrightarrow> fst (run_state (link_polls N n nif) d) = nif)"
  using link_polls_flip [OF assms, of _ n nif d] link_polls_dead [of N n nif d] assms by (auto simp: wp_result)

theorem link_polls_toggle_witness:
  "netif_link_up (fst (run_state (link_polls (wire_eth 0x18) 1 demo_netif) \<lparr>rx_frames = [], rx_len = 0, sent = []\<rparr>)) \<and>
   \<not> netif_link_up (fst (run_state (link_polls (wire_eth 0x18) 2 demo_netif) \<lparr>rx_frames = [], rx_len = 0, sent = []\<rparr>))"
proof -
  have "fst (run_state (LAN8720_GetLinkState (wire_eth 0x18)) d) = 0x18" for d
    by (simp add: LAN8720_GetLinkState_def wire_eth_def)
  note toggle = link_polls_toggle [OF this, THEN conjunct1, rule_format]
  have "link_mode 0x18 \<noteq> None" "\<not> netif_link_up demo_netif" by (simp_all add: link_mode_def PHY_SPEED_Indication_def demo_netif_def)
  then show ?thesis by (simp add: toggle del: link_polls.simps)
qed

end
