(* ===== verification/Board_Properties.thy ===== *)
theory Board_Properties
  imports Ethernetif
begin

text \<open>
  Properties of the board set-up: the pins of the peripherals, the clock tree and the regions of the
  memory protection unit.
\<close>

section \<open>Pins\<close>

text \<open>What a run did to the pins: clocks of ports switched on, pins configured.\<close>

datatype pin_event = Clock_On string | Pin_Init GPIO_TypeDef u16

fun port_clock :: "GPIO_TypeDef \<Rightarrow> string" where
  "port_clock GPIOA = ''GPIOA''"
| "port_clock GPIOB = ''GPIOB''"
| "port_clock GPIOC = ''GPIOC''"
| "port_clock GPIOF = ''GPIOF''"
| "port_clock GPIOG = ''GPIOG''"

text \<open>No pin is configured twice, and the clock of a port runs before its pins are configured.\<close>

fun pins_ok :: "string list \<Rightarrow> (GPIO_TypeDef \<times> u16) list \<Rightarrow> pin_event list \<Rightarrow> bool" where
  "pins_ok cs ps [] \<longleftrightarrow> True"
| "pins_ok cs ps (Clock_On c # es) \<longleftrightarrow> pins_ok (c # cs) ps es"
| "pins_ok cs ps (Pin_Init p m # es) \<longleftrightarrow>
     port_clock p \<in> set cs \<and> (\<forall>(q, n) \<in> set ps. q = p \<longrightarrow> m AND n = 0) \<and> pins_ok cs ((p, m) # ps) es"

text \<open>All the pins of the program, in the order in which it configures them: at the start, for the flash, for Ethernet.\<close>

definition board_pins :: "'d hal \<Rightarrow> 'd bsp \<Rightarrow> 'd eth \<Rightarrow> nat \<Rightarrow> GPIO_InitTypeDef \<Rightarrow> ('d, unit) state" where
  "board_pins H B N fuel g = do {
     ok \<leftarrow> main_config H B fuel g g g;
     if \<not> ok then return ()
     else do {
       qspi_gpio_init H;
       HAL_ETH_MspInit H N g
     }
   }"

text \<open>\<open>trace\<close> records the events of a device; the other calls add none.\<close>

definition traces :: "('d \<Rightarrow> pin_event list) \<Rightarrow> 'd hal \<Rightarrow> 'd bsp \<Rightarrow> 'd eth \<Rightarrow> bool" where
  "traces trace H B N \<longleftrightarrow>
     (\<forall>c d. trace (snd (run_state (HAL_RCC_CLK_ENABLE H c) d)) = trace d @ [Clock_On c]) \<and>
     (\<forall>p g d. trace (snd (run_state (HAL_GPIO_Init H p g) d)) = trace d @ [Pin_Init p (Pin g)]) \<and>
     (\<forall>es. pres (\<lambda>d. trace d = es) (HAL_MPU_Disable B) \<and> pres (\<lambda>d. trace d = es) (HAL_MPU_Enable B) \<and>
        pres (\<lambda>d. trace d = es) (PWR_FLAG_VOSRDY B) \<and>
        (\<forall>x. pres (\<lambda>d. trace d = es) (HAL_MPU_ConfigRegion B x)) \<and> (\<forall>x. pres (\<lambda>d. trace d = es) (hw_op H x)) \<and>
        (\<forall>x. pres (\<lambda>d. trace d = es) (PWR_op B x)) \<and> (\<forall>x. pres (\<lambda>d. trace d = es) (HAL_RCC_OscConfig B x)) \<and>
        (\<forall>x n. pres (\<lambda>d. trace d = es) (HAL_RCC_ClockConfig B x n)) \<and> (\<forall>p x. pres (\<lambda>d. trace d = es) (GPIO_BSRR B p x)) \<and>
        (\<forall>x. pres (\<lambda>d. trace d = es) (HAL_RCCEx_PeriphCLKConfig B x)) \<and> (\<forall>x. pres (\<lambda>d. trace d = es) (HAL_UART_Init B x)) \<and>
        (\<forall>x. pres (\<lambda>d. trace d = es) (ETH_NVIC N x)))"

lemma tracesD:
  assumes "traces trace H B N"
  shows "\<And>c d. trace (snd (run_state (HAL_RCC_CLK_ENABLE H c) d)) = trace d @ [Clock_On c]"
    and "\<And>p g d. trace (snd (run_state (HAL_GPIO_Init H p g) d)) = trace d @ [Pin_Init p (Pin g)]"
    and "\<And>p x d. trace (snd (run_state (GPIO_BSRR B p x) d)) = trace d" "\<And>x d. trace (snd (run_state (HAL_RCCEx_PeriphCLKConfig B x) d)) = trace d"
      "\<And>x d. trace (snd (run_state (HAL_UART_Init B x) d)) = trace d" "\<And>x d. trace (snd (run_state (ETH_NVIC N x) d)) = trace d"
    and "\<And>es. pres (\<lambda>d. trace d = es) (HAL_MPU_Disable B)" "\<And>es. pres (\<lambda>d. trace d = es) (HAL_MPU_Enable B)"
      "\<And>es. pres (\<lambda>d. trace d = es) (PWR_FLAG_VOSRDY B)" "\<And>es x. pres (\<lambda>d. trace d = es) (HAL_MPU_ConfigRegion B x)"
      "\<And>es x. pres (\<lambda>d. trace d = es) (hw_op H x)" "\<And>es x. pres (\<lambda>d. trace d = es) (PWR_op B x)"
      "\<And>es x. pres (\<lambda>d. trace d = es) (HAL_RCC_OscConfig B x)" "\<And>es x n. pres (\<lambda>d. trace d = es) (HAL_RCC_ClockConfig B x n)"
  using assms by (simp_all add: traces_def pres_def wp_result)

lemma snd_run_bind: "snd (run_state (State_Monad.bind m f) d) = snd (run_state (f (fst (run_state m d))) (snd (run_state m d)))"
  by (simp add: run_state_bind split: prod.splits)

text \<open>The part without pins.\<close>

definition setup_clock :: "'d hal \<Rightarrow> 'd bsp \<Rightarrow> nat \<Rightarrow> ('d, bool) state" where
  "setup_clock H B fuel = do {
     MPU_Config B;
     hw_op H ''SCB_EnableICache'';
     hw_op H ''SCB_EnableDCache'';
     hw_op H ''SCB->CACR |= 1<<2'';
     SystemClock_Config B fuel
   }"

lemma trace_setup:
  assumes "traces trace H B N"
  shows "pres (\<lambda>d. trace d = es) (setup_clock H B fuel)"
proof -
  note T = tracesD(7-) [OF assms]
  have "pres (\<lambda>d. trace d = es) (vos_wait B fuel)"
    by (induction fuel) (auto intro!: pres_rules T)
  then show ?thesis
    unfolding setup_clock_def MPU_Config_def SystemClock_Config_def by (intro pres_rules T)
qed

lemma trace_pins:
  assumes "traces trace H B N" "trace d = []"
  shows "pins_ok [] [] (trace (snd (run_state
    (do { LED_GPIO_Config H B g; DEBUG_USART_Config H B g; Key_GPIO_Config H g; qspi_gpio_init H; HAL_ETH_MspInit H N g }) d)))"
  using assms(2)
  by (simp add: tracesD [OF assms(1)] LED_GPIO_Config_def DEBUG_USART_Config_def Key_GPIO_Config_def qspi_gpio_init_def HAL_ETH_MspInit_def
      ETH_GPIO_Config_def LED_RGBOFF_def digitalHi_def snd_run_bind Let_def LED1_PIN_def LED2_PIN_def LED3_PIN_def KEY1_PIN_def KEY2_PIN_def
      DEBUG_USART_TX_PIN_def DEBUG_USART_RX_PIN_def del: run_state_bind)

lemma board_pins_split:
  "board_pins H B N fuel g = do {
     ok \<leftarrow> setup_clock H B fuel;
     if \<not> ok then return ()
     else do { LED_GPIO_Config H B g; DEBUG_USART_Config H B g; Key_GPIO_Config H g; qspi_gpio_init H; HAL_ETH_MspInit H N g }
   }"
  unfolding board_pins_def main_config_def setup_clock_def by (simp add: if_distrib [of "\<lambda>m. State_Monad.bind m _"] cong: if_cong)

section \<open>Clock\<close>

definition HSE_VALUE :: nat where "HSE_VALUE = 25000000"

text \<open>The clock tree, by the reference manual: the frequency of the PLL and the dividers behind it.\<close>

definition pll_in :: "RCC_OscInitTypeDef \<Rightarrow> nat" where "pll_in osc = HSE_VALUE div PLLM osc"
definition pll_vco :: "RCC_OscInitTypeDef \<Rightarrow> nat" where "pll_vco osc = pll_in osc * PLLN osc"
definition sysclk :: "RCC_OscInitTypeDef \<Rightarrow> RCC_ClkInitTypeDef \<Rightarrow> nat" where "sysclk osc clk = pll_vco osc div PLLP osc div SYSCLKDivider clk"
definition hclk :: "RCC_OscInitTypeDef \<Rightarrow> RCC_ClkInitTypeDef \<Rightarrow> nat" where "hclk osc clk = sysclk osc clk div AHBCLKDivider clk"

lemma clock_calls:
  assumes "run_state (SystemClock_Config B fuel) d = (True, d')"
  shows "\<exists>d1 d2. run_state (HAL_RCC_OscConfig B system_osc) d1 = (HAL_OK, d2) \<and> run_state (HAL_RCC_ClockConfig B system_clk 4) d2 = (HAL_OK, d')"
  using assms by (auto simp: SystemClock_Config_def split: prod.splits if_splits)

section \<open>Memory protection\<close>

definition region_of :: "MPU_Region_InitTypeDef \<Rightarrow> nat set" where
  "region_of r = {BaseAddress r ..< BaseAddress r + RegionSize r}"

text \<open>The regions are aligned to their size, as the unit requires, and apart from each other.\<close>

lemma mpu_regions:
  "BaseAddress mpu_eth_desc mod RegionSize mpu_eth_desc = 0" "BaseAddress mpu_lwip_heap mod RegionSize mpu_lwip_heap = 0"
  "region_of mpu_eth_desc \<inter> region_of mpu_lwip_heap = {}" "RegionNumber mpu_eth_desc \<noteq> RegionNumber mpu_lwip_heap"
  by (auto simp: mpu_eth_desc_def mpu_lwip_heap_def region_of_def)

section \<open>Properties\<close>

text \<open>A device that is nothing but the trace of its pins.\<close>

definition log_hal :: "pin_event list hal" where
  "log_hal = \<lparr>HAL_QSPI_DeInit = return HAL_OK, HAL_QSPI_Init = (\<lambda>i. return HAL_OK), HAL_QSPI_Command = (\<lambda>c. return HAL_OK),
     HAL_QSPI_Transmit = (\<lambda>b. return HAL_OK), HAL_QSPI_Receive = return (HAL_OK, []), HAL_QSPI_AutoPolling = (\<lambda>c p. return HAL_OK),
     HAL_QSPI_MemoryMapped = (\<lambda>c p. return HAL_OK), HAL_QSPI_Abort = return HAL_OK, HAL_QSPI_CLEAR_FLAG = return (),
     HAL_QSPI_FLAG_BUSY = return False, HAL_GPIO_Init = (\<lambda>p g. State (\<lambda>d. ((), d @ [Pin_Init p (Pin g)]))),
     HAL_RCC_CLK_ENABLE = (\<lambda>c. State (\<lambda>d. ((), d @ [Clock_On c]))), HAL_Delay = (\<lambda>n. return ()), HAL_FLASH_Unlock = return HAL_OK,
     HAL_FLASH_Lock = return HAL_OK, HAL_FLASHEx_Erase = (\<lambda>e. return (HAL_OK, 0)), HAL_FLASH_Program = (\<lambda>a b. return HAL_OK),
     HAL_FLASH_CLEAR_FLAG = return (), FLASH_SR2_busy = return False, SCB_InvalidateDCache = return (), rd_reg = (\<lambda>r. return 0),
     wr_reg = (\<lambda>r v. return ()), hw_op = (\<lambda>x. return ()), ld8 = (\<lambda>d a. 0)\<rparr>"

definition quiet_bsp :: "'d bsp" where
  "quiet_bsp = \<lparr>HAL_GPIO_ReadPin = (\<lambda>p n. return 0), GPIO_BSRR = (\<lambda>p x. return ()), GPIO_ODR_xor = (\<lambda>p x. return ()),
     HAL_RCCEx_PeriphCLKConfig = (\<lambda>x. return HAL_OK), HAL_UART_Init = (\<lambda>x. return HAL_OK), UART_FLAG_RXNE = return False,
     HAL_UART_Transmit = (\<lambda>c t. return HAL_OK), HAL_UART_Receive = (\<lambda>t. return (HAL_TIMEOUT, None)), PWR_op = (\<lambda>x. return ()),
     PWR_FLAG_VOSRDY = return True, HAL_RCC_OscConfig = (\<lambda>x. return HAL_OK), HAL_RCC_ClockConfig = (\<lambda>x n. return HAL_OK),
     HAL_MPU_Disable = return (), HAL_MPU_ConfigRegion = (\<lambda>x. return ()), HAL_MPU_Enable = return ()\<rparr>"

definition log_eth :: "pin_event list eth" where
  "log_eth = \<lparr>HAL_ETH_Init = (\<lambda>n a. return HAL_OK), HAL_ETH_WritePHYRegister = (\<lambda>a r v. return HAL_OK),
     HAL_ETH_ReadPHYRegister = (\<lambda>a r. return (HAL_OK, 0)), HAL_ETH_DescAssignMemory = (\<lambda>i a. return ()),
     HAL_ETH_SetMAC = (\<lambda>m s. return ()), HAL_ETH_Start_IT = return (), HAL_ETH_Stop_IT = return (),
     HAL_ETH_Transmit = (\<lambda>txb n t. return HAL_OK), HAL_ETH_GetRxDataBuffer = return (HAL_ERROR, 0), HAL_ETH_GetRxDataLength = return 0,
     HAL_ETH_BuildRxDescriptors = return (), SCB_InvalidateDCache_by_Addr = (\<lambda>a n. return ()), ETH_NVIC = (\<lambda>p. return ()),
     mem_malloc4 = return True\<rparr>"

lemma log_traces: "traces (\<lambda>d. d) log_hal quiet_bsp log_eth"
  by (simp add: traces_def log_hal_def quiet_bsp_def log_eth_def pres_def)

text \<open>
  No pin of the board serves two purposes: LEDs, debug UART, keys, NOR flash and Ethernet configure
  disjoint sets of pins, and the clock of every port runs before one of its pins is configured.
\<close>

theorem pins_disjoint:
  assumes "traces trace H B N" and "trace d = []" and "run_state (board_pins H B N fuel g) d = (u, d')"
  shows "pins_ok [] [] (trace d')"
proof -
  obtain ok d1 where 1: "run_state (setup_clock H B fuel) d = (ok, d1)" by (rule prod.exhaust)
  have "trace d1 = []" using pres_run [OF trace_setup [OF assms(1)] assms(2) 1] .
  from trace_pins [OF assms(1) this, of g] show ?thesis
    using assms(3) 1 \<open>trace d1 = []\<close> unfolding board_pins_split by (cases ok) (auto simp add: State_Monad.return_def)
qed

theorem pins_disjoint_witness:
  "\<exists>es. snd (run_state (board_pins log_hal quiet_bsp log_eth 1 \<lparr>Pin = 0, Mode = GPIO_MODE_INPUT, Pull = GPIO_NOPULL, Speed = GPIO_SPEED_FREQ_LOW,
     Alternate = 0\<rparr>) []) = es \<and> pins_ok [] [] es"
  using pins_disjoint [OF log_traces] by (metis prod.collapse)

text \<open>
  When the clock configuration returns, both HAL calls succeeded with parameters that give the PLL
  an input in its range and an oscillator frequency not above 960 MHz, and 480, 240 and 120 MHz for
  the core, the buses and the peripherals. The tick counts with 400 MHz instead: after \<open>k\<close> seconds (up to
  the wrap-around of the counter) it shows \<open>6 * k div 5\<close> seconds.
\<close>

theorem clock_tree:
  assumes "run_state (SystemClock_Config B fuel) d = (True, d')"
  shows "(\<exists>d1 d2. run_state (HAL_RCC_OscConfig B system_osc) d1 = (HAL_OK, d2) \<and> run_state (HAL_RCC_ClockConfig B system_clk 4) d2 = (HAL_OK, d')) \<and>
    4000000 \<le> pll_in system_osc \<and> pll_in system_osc \<le> 8000000 \<and> pll_vco system_osc \<le> 960000000 \<and>
    sysclk system_osc system_clk = 480000000 \<and> hclk system_osc system_clk = 240000000 \<and>
    hclk system_osc system_clk div APB1CLKDivider system_clk = 120000000 \<and> hclk system_osc system_clk div APB2CLKDivider system_clk = 120000000 \<and>
    (\<forall>k < 9. unat (HAL_GetTick (s\<lparr>DWT_CYCCNT := of_nat (k * sysclk system_osc system_clk)\<rparr>)) = 1000 * (6 * k div 5))"
proof -
  have f: "pll_in system_osc = 5000000" "pll_vco system_osc = 960000000" "sysclk system_osc system_clk = 480000000" "hclk system_osc system_clk = 240000000"
    "APB1CLKDivider system_clk = 2" "APB2CLKDivider system_clk = 2"
    by (simp_all add: hclk_def sysclk_def pll_vco_def pll_in_def system_osc_def system_clk_def HSE_VALUE_def)
  have "unat (HAL_GetTick (s\<lparr>DWT_CYCCNT := of_nat (k * 480000000)\<rparr>)) = 1000 * (6 * k div 5)" if "k < 9" for k
  proof -
    have "k = 0 \<or> k = 1 \<or> k = 2 \<or> k = 3 \<or> k = 4 \<or> k = 5 \<or> k = 6 \<or> k = 7 \<or> k = 8" using that by linarith
    then show ?thesis by (elim disjE) (simp_all add: HAL_GetTick_def SysClockFreq_def)
  qed
  with f clock_calls [OF assms] show ?thesis by simp
qed

theorem clock_tree_witness:
  "run_state (SystemClock_Config quiet_bsp 1) () = (True, ()) \<and> sysclk system_osc system_clk = 480000000"
proof -
  have r: "run_state (SystemClock_Config quiet_bsp 1) () = (True, ())" by (simp add: SystemClock_Config_def quiet_bsp_def)
  from clock_tree [OF this] r show ?thesis by blast
qed

end
