(* ===== verification/Mem.thy ===== *)
theory Mem
  imports Pbuf
begin

text \<open>
  \<^verbatim>\<open>src/STM32/Bootloader/User/lwip-2.0.3/src/core/mem.c\<close>: the heap of lwIP, a list of blocks inside one
  array, linked by offsets. The structures are a map from offsets; \<^verbatim>\<open>mem_size_t\<close> is 16 bits wide, so
  assignments to it wrap, while the comparisons are carried out in 32 bits. The result \<open>None\<close> is an access
  to a place where no structure has been written, or a search that does not end. There is no
  operating system, so the mutex is empty.
\<close>

record mem =
  mnext :: nat
  mprev :: nat
  mused :: bool

record heap =
  cells :: "nat \<rightharpoonup> mem"
  lfree :: nat

definition LWIP_RAM_HEAP_POINTER :: nat where "LWIP_RAM_HEAP_POINTER = 0x30044000"
definition MEM_SIZE :: nat where "MEM_SIZE = 10 * 1024"
definition MIN_SIZE_ALIGNED :: nat where "MIN_SIZE_ALIGNED = LWIP_MEM_ALIGN_SIZE 12"
definition SIZEOF_STRUCT_MEM :: nat where "SIZEOF_STRUCT_MEM = LWIP_MEM_ALIGN_SIZE 6"
definition MEM_SIZE_ALIGNED :: nat where "MEM_SIZE_ALIGNED = LWIP_MEM_ALIGN_SIZE MEM_SIZE"

definition wrap16 :: "nat \<Rightarrow> nat" where "wrap16 n = n mod 65536"

text \<open>Subtraction of unsigned 32-bit numbers.\<close>

definition sub32 :: "nat \<Rightarrow> nat \<Rightarrow> nat" where "sub32 a b = (a + 4294967296 - b mod 4294967296) mod 4294967296"

definition put_cell :: "nat \<Rightarrow> mem \<Rightarrow> heap \<Rightarrow> heap" where
  "put_cell p b h = h\<lparr>cells := (cells h)(p \<mapsto> b)\<rparr>"

definition upd_cell :: "nat \<Rightarrow> (mem \<Rightarrow> mem) \<Rightarrow> heap \<Rightarrow> heap option" where
  "upd_cell p f h = (case cells h p of None \<Rightarrow> None | Some b \<Rightarrow> Some (put_cell p (f b) h))"

definition plug_forward :: "nat \<Rightarrow> heap \<Rightarrow> heap option" where
  "plug_forward m h =
     (case cells h m of None \<Rightarrow> None
      | Some b \<Rightarrow> case cells h (mnext b) of None \<Rightarrow> None
        | Some nmem \<Rightarrow>
            if m \<noteq> mnext b \<and> \<not> mused nmem \<and> mnext b \<noteq> MEM_SIZE_ALIGNED then
              let h = (if lfree h = mnext b then h\<lparr>lfree := m\<rparr> else h)
              in Option.bind (upd_cell m (\<lambda>b. b\<lparr>mnext := mnext nmem\<rparr>) h) (upd_cell (mnext nmem) (\<lambda>c. c\<lparr>mprev := m\<rparr>))
            else Some h)"

definition plug_backward :: "nat \<Rightarrow> heap \<Rightarrow> heap option" where
  "plug_backward m h =
     (case cells h m of None \<Rightarrow> None
      | Some b \<Rightarrow> case cells h (mprev b) of None \<Rightarrow> None
        | Some pmem \<Rightarrow>
            if mprev b \<noteq> m \<and> \<not> mused pmem then
              let h = (if lfree h = m then h\<lparr>lfree := mprev b\<rparr> else h)
              in Option.bind (upd_cell (mprev b) (\<lambda>c. c\<lparr>mnext := mnext b\<rparr>) h) (upd_cell (mnext b) (\<lambda>c. c\<lparr>mprev := mprev b\<rparr>))
            else Some h)"

definition plug_holes :: "nat \<Rightarrow> heap \<Rightarrow> heap option" where
  "plug_holes m h = Option.bind (plug_forward m h) (plug_backward m)"

definition mem_init :: "heap \<Rightarrow> heap" where
  "mem_init h =
     (let h = put_cell 0 \<lparr>mnext = MEM_SIZE_ALIGNED, mprev = 0, mused = False\<rparr> h;
          h = put_cell MEM_SIZE_ALIGNED \<lparr>mnext = MEM_SIZE_ALIGNED, mprev = MEM_SIZE_ALIGNED, mused = True\<rparr> h
      in h\<lparr>lfree := 0\<rparr>)"

definition mem_free :: "nat \<Rightarrow> heap \<Rightarrow> heap option" where
  "mem_free rmem h =
     (if rmem = 0 then Some h
      else if rmem < LWIP_RAM_HEAP_POINTER \<or> LWIP_RAM_HEAP_POINTER + MEM_SIZE_ALIGNED \<le> rmem then Some h
      else if rmem < LWIP_RAM_HEAP_POINTER + SIZEOF_STRUCT_MEM then None
      else let m = rmem - SIZEOF_STRUCT_MEM - LWIP_RAM_HEAP_POINTER
           in Option.bind (upd_cell m (\<lambda>b. b\<lparr>mused := False\<rparr>) h)
                (\<lambda>h. plug_holes m (if m < lfree h then h\<lparr>lfree := m\<rparr> else h)))"

text \<open>
  \<open>relink n p h\<close> sets \<^verbatim>\<open>prev\<close> of the block at \<open>n\<close>, unless that is the end of the heap.
\<close>

definition relink :: "nat \<Rightarrow> nat \<Rightarrow> heap \<Rightarrow> heap option" where
  "relink n p h = (if n \<noteq> MEM_SIZE_ALIGNED then upd_cell n (\<lambda>c. c\<lparr>mprev := p\<rparr>) h else Some h)"

definition mem_trim :: "nat \<Rightarrow> nat \<Rightarrow> heap \<Rightarrow> (nat \<times> heap) option" where
  "mem_trim rmem newsize h =
     (let newsize = wrap16 (LWIP_MEM_ALIGN_SIZE newsize);
          newsize = (if newsize < MIN_SIZE_ALIGNED then MIN_SIZE_ALIGNED else newsize)
      in if MEM_SIZE_ALIGNED < newsize then Some (0, h)
         else if rmem < LWIP_RAM_HEAP_POINTER \<or> LWIP_RAM_HEAP_POINTER + MEM_SIZE_ALIGNED \<le> rmem then Some (rmem, h)
         else if rmem < LWIP_RAM_HEAP_POINTER + SIZEOF_STRUCT_MEM then None
         else let ptr = wrap16 (rmem - SIZEOF_STRUCT_MEM - LWIP_RAM_HEAP_POINTER)
         in case cells h ptr of None \<Rightarrow> None
            | Some mem \<Rightarrow>
                let size = wrap16 (sub32 (sub32 (mnext mem) ptr) SIZEOF_STRUCT_MEM)
                in if size < newsize then Some (0, h)
                   else if newsize = size then Some (rmem, h)
                   else case cells h (mnext mem) of None \<Rightarrow> None
                     | Some mem2 \<Rightarrow>
                         let ptr2 = wrap16 (ptr + SIZEOF_STRUCT_MEM + newsize);
                             put = (\<lambda>n h. Option.bind (upd_cell ptr (\<lambda>b. b\<lparr>mnext := ptr2\<rparr>)
                                      (put_cell ptr2 \<lparr>mnext = n, mprev = ptr, mused = False\<rparr> h)) (relink n ptr2))
                         in if \<not> mused mem2 then
                              map_option (Pair rmem) (put (mnext mem2) (if lfree h = mnext mem then h\<lparr>lfree := ptr2\<rparr> else h))
                            else if newsize + SIZEOF_STRUCT_MEM + MIN_SIZE_ALIGNED \<le> size then
                              map_option (Pair rmem) (put (mnext mem) (if ptr2 < lfree h then h\<lparr>lfree := ptr2\<rparr> else h))
                            else Some (rmem, h))"

section \<open>Allocation\<close>

text \<open>The search for the first free block that is large enough.\<close>

partial_function (option) mem_scan :: "nat \<Rightarrow> nat \<Rightarrow> heap \<Rightarrow> nat option option" where
  "mem_scan sz ptr h =
     (if ptr < sub32 MEM_SIZE_ALIGNED sz then
        case cells h ptr of None \<Rightarrow> None
        | Some mem \<Rightarrow>
            if \<not> mused mem \<and> sz \<le> sub32 (mnext mem) (ptr + SIZEOF_STRUCT_MEM) then Some (Some ptr)
            else mem_scan sz (mnext mem) h
      else Some None)"

partial_function (option) next_free :: "nat \<Rightarrow> heap \<Rightarrow> nat option" where
  "next_free cur h =
     (case cells h cur of None \<Rightarrow> None
      | Some c \<Rightarrow> if mused c \<and> cur \<noteq> MEM_SIZE_ALIGNED then next_free (mnext c) h else Some cur)"

text \<open>Taking the block at \<open>ptr\<close>: split it if the rest can hold a block of the minimal size.\<close>

definition mem_take :: "nat \<Rightarrow> nat \<Rightarrow> heap \<Rightarrow> heap option" where
  "mem_take sz ptr h =
     (case cells h ptr of None \<Rightarrow> None
      | Some mem \<Rightarrow>
          if sz + SIZEOF_STRUCT_MEM + MIN_SIZE_ALIGNED \<le> sub32 (mnext mem) (ptr + SIZEOF_STRUCT_MEM) then
            let ptr2 = wrap16 (ptr + SIZEOF_STRUCT_MEM + sz)
            in Option.bind (upd_cell ptr (\<lambda>b. b\<lparr>mnext := ptr2, mused := True\<rparr>)
                 (put_cell ptr2 \<lparr>mnext = mnext mem, mprev = ptr, mused = False\<rparr> h)) (relink (mnext mem) ptr2)
          else upd_cell ptr (\<lambda>b. b\<lparr>mused := True\<rparr>) h)"

definition mem_malloc_heap :: "nat \<Rightarrow> heap \<Rightarrow> (nat \<times> heap) option" where
  "mem_malloc_heap sz h =
     (if sz = 0 then Some (0, h)
      else let sz = wrap16 (LWIP_MEM_ALIGN_SIZE sz);
               sz = (if sz < MIN_SIZE_ALIGNED then MIN_SIZE_ALIGNED else sz)
      in if MEM_SIZE_ALIGNED < sz then Some (0, h)
         else case mem_scan sz (lfree h) h of
           None \<Rightarrow> None
         | Some None \<Rightarrow> Some (0, h)
         | Some (Some ptr) \<Rightarrow>
             Option.bind (mem_take sz ptr h) (\<lambda>h.
               if ptr = lfree h then
                 case next_free ptr h of None \<Rightarrow> None
                 | Some cur \<Rightarrow> Some (LWIP_RAM_HEAP_POINTER + ptr + SIZEOF_STRUCT_MEM, h\<lparr>lfree := cur\<rparr>)
               else Some (LWIP_RAM_HEAP_POINTER + ptr + SIZEOF_STRUCT_MEM, h)))"

text \<open>The address, and how many bytes from it on are set to zero.\<close>

definition mem_calloc :: "nat \<Rightarrow> nat \<Rightarrow> heap \<Rightarrow> (nat \<times> nat \<times> heap) option" where
  "mem_calloc count sz h =
     map_option (\<lambda>(p, h). (p, if p \<noteq> 0 then count * sz else 0, h)) (mem_malloc_heap (wrap16 (count * sz)) h)"

lemmas mem_sizes = MEM_SIZE_def MIN_SIZE_ALIGNED_def SIZEOF_STRUCT_MEM_def MEM_SIZE_ALIGNED_def LWIP_MEM_ALIGN_SIZE_def

end
