(* ===== verification/Allocator.thy ===== *)
theory Allocator
  imports Main
begin

text \<open>
  The interface of an allocator and what its clients may rely on. The addresses handed out and not
  given back are \<open>L\<close>; \<open>rep s L\<close> says that the state \<open>s\<close> is well formed with exactly these in use. The heap
  of lwIP and its fixed-size pools provide this interface.
\<close>

text \<open>
  A client makes calls: it asks for a block, or gives back the \<open>i\<close>th of those it holds.
\<close>

datatype 'r call = Alloc 'r | Release nat

fun calls :: "('r \<Rightarrow> 's \<Rightarrow> (nat \<times> 's) option) \<Rightarrow> (nat \<Rightarrow> 's \<Rightarrow> 's option) \<Rightarrow> 'r call list \<Rightarrow> nat list \<Rightarrow> 's \<Rightarrow> (nat list \<times> 's) option" where
  "calls al fr [] as s = Some (as, s)"
| "calls al fr (Alloc r # cs) as s =
     (case al r s of None \<Rightarrow> None | Some (a, s') \<Rightarrow> calls al fr cs (if a = 0 then as else a # as) s')"
| "calls al fr (Release i # cs) as s =
     (if i < length as then case fr (as ! i) s of None \<Rightarrow> None | Some s' \<Rightarrow> calls al fr cs (take i as @ drop (Suc i) as) s'
      else calls al fr cs as s)"

definition requests_ok :: "('r \<Rightarrow> bool) \<Rightarrow> 'r call list \<Rightarrow> bool" where
  "requests_ok ok cs \<longleftrightarrow> (\<forall>c \<in> set cs. case c of Alloc r \<Rightarrow> ok r | Release i \<Rightarrow> True)"

lemma requests_ok_simps [simp]:
  "requests_ok ok []" "requests_ok ok (Alloc r # cs) \<longleftrightarrow> ok r \<and> requests_ok ok cs" "requests_ok ok (Release i # cs) \<longleftrightarrow> requests_ok ok cs"
  by (auto simp: requests_ok_def)

lemma set_remove_nth: "i < length xs \<Longrightarrow> distinct xs \<Longrightarrow> set (take i xs @ drop (Suc i) xs) = set xs - {xs ! i}"
  by (subst (3) id_take_nth_drop [of i xs]) (auto simp: distinct_conv_nth in_set_conv_nth)

lemma distinct_remove_nth: "distinct xs \<Longrightarrow> distinct (take i xs @ drop (Suc i) xs)"
  by (metis distinct_append distinct_take distinct_drop set_take_disj_set_drop_if_distinct le_SucI order_refl)

locale allocator =
  fixes rep :: "'s \<Rightarrow> nat set \<Rightarrow> bool"
    and ok :: "'r \<Rightarrow> bool"
    and alloc :: "'r \<Rightarrow> 's \<Rightarrow> (nat \<times> 's) option"
    and free :: "nat \<Rightarrow> 's \<Rightarrow> 's option"
  assumes alloc_law: "rep s L \<Longrightarrow> ok r \<Longrightarrow>
      \<exists>a s'. alloc r s = Some (a, s') \<and> a \<notin> L \<and> rep s' (if a = 0 then L else insert a L)"
    and free_law: "rep s L \<Longrightarrow> a \<in> L \<Longrightarrow> \<exists>s'. free a s = Some s' \<and> rep s' (L - {a})"
begin

text \<open>No sequence of calls gets stuck, and the client never holds the same block twice.\<close>

lemma calls_succeed:
  assumes "rep s (set as)" "distinct as" "requests_ok ok cs"
  shows "\<exists>as' s'. calls alloc free cs as s = Some (as', s') \<and> distinct as' \<and> rep s' (set as')"
  using assms
proof (induction cs arbitrary: as s)
  case (Cons c cs)
  show ?case
  proof (cases c)
    case (Alloc r)
    then obtain a s' where "alloc r s = Some (a, s')" "a \<notin> set as" "rep s' (if a = 0 then set as else insert a (set as))"
      using alloc_law [OF Cons.prems(1), of r] Cons.prems(3) by auto
    then show ?thesis using Cons.IH [of s' "if a = 0 then as else a # as"] Cons.prems Alloc by (auto split: if_splits)
  next
    case (Release i)
    show ?thesis
    proof (cases "i < length as")
      case True
      obtain s' where s': "free (as ! i) s = Some s'" "rep s' (set as - {as ! i})" using free_law [OF Cons.prems(1) nth_mem [OF True]] by blast
      have "rep s' (set (take i as @ drop (Suc i) as))" using s'(2) set_remove_nth [OF True Cons.prems(2)] by simp
      from Cons.IH [OF this distinct_remove_nth] show ?thesis using Cons.prems Release True s'(1) by simp
    qed (use Cons Release in simp)
  qed
qed simp

lemma release_all: "rep s (set as) \<Longrightarrow> distinct as \<Longrightarrow> \<exists>s'. calls alloc free (map (\<lambda>_. Release 0) as) as s = Some ([], s') \<and> rep s' {}"
proof (induction as arbitrary: s)
  case (Cons a as)
  obtain s' where "free a s = Some s'" "rep s' (set as)" using free_law [OF Cons.prems(1), of a] Cons.prems(2) by auto
  then show ?case using Cons by simp
qed simp

end

end
