(* ===== verification/Mem_Correct.thy ===== *)
theory Mem_Correct
  imports Mem Allocator
begin

text \<open>
  Correctness of the heap: it represents a list of blocks, each with its size and whether it is in
  use; allocation is first fit on that list, freeing joins a block with free neighbours.
\<close>

section \<open>Representation\<close>

abbreviation END :: nat where "END \<equiv> MEM_SIZE_ALIGNED"

lemma sizes [simp]: "MEM_SIZE_ALIGNED = 10240" "MIN_SIZE_ALIGNED = 12" "SIZEOF_STRUCT_MEM = 8"
  by (simp_all add: mem_sizes)

lemma sub32_small [simp]: "b \<le> a \<Longrightarrow> a < 4294967296 \<Longrightarrow> sub32 a b = a - b"
proof -
  assume a: "b \<le> a" "a < 4294967296"
  then have "b mod 4294967296 = b" "a + 4294967296 - b = (a - b) + 4294967296" "(a - b) mod 4294967296 = a - b"
    by (simp_all del: One_nat_def)
  then show ?thesis unfolding sub32_def by (simp only: mod_add_self2)
qed

lemma wrap16_small [simp]: "n < 65536 \<Longrightarrow> wrap16 n = n"
  by (simp add: wrap16_def)

type_synonym blocks = "(nat \<times> bool) list"

text \<open>\<open>seg h q p bs q' p'\<close>: from offset \<open>p\<close>, with the previous block at \<open>q\<close>, the blocks \<open>bs\<close> lead to \<open>p'\<close>, with \<open>q'\<close> the last.\<close>

fun seg :: "heap \<Rightarrow> nat \<Rightarrow> nat \<Rightarrow> blocks \<Rightarrow> nat \<Rightarrow> nat \<Rightarrow> bool" where
  "seg h q p [] q' p' \<longleftrightarrow> q' = q \<and> p' = p"
| "seg h q p ((n, u) # bs) q' p' \<longleftrightarrow>
     20 \<le> n \<and> 4 dvd n \<and> cells h p = Some \<lparr>mnext = p + n, mprev = q, mused = u\<rparr> \<and> seg h p (p + n) bs q' p'"

definition off :: "blocks \<Rightarrow> nat" where "off bs = sum_list (map fst bs)"

fun packed :: "blocks \<Rightarrow> bool" where
  "packed (a # b # bs) \<longleftrightarrow> (snd a \<or> snd b) \<and> packed (b # bs)"
| "packed bs \<longleftrightarrow> True"

fun lowest :: "nat \<Rightarrow> blocks \<Rightarrow> nat" where
  "lowest p [] = p"
| "lowest p ((n, u) # bs) = (if u then lowest (p + n) bs else p)"

definition heap_rep :: "heap \<Rightarrow> blocks \<Rightarrow> bool" where
  "heap_rep h bs \<longleftrightarrow> (\<exists>q. seg h 0 0 bs q END) \<and> (\<exists>e. cells h END = Some e \<and> mused e) \<and> packed bs \<and> lfree h = lowest 0 bs"

lemma off_simps [simp]: "off [] = 0" "off (b # bs) = fst b + off bs" "off (xs @ ys) = off xs + off ys"
  by (simp_all add: off_def)

lemma seg_append: "seg h q p (xs @ ys) q' p' \<longleftrightarrow> (\<exists>q1 p1. seg h q p xs q1 p1 \<and> seg h q1 p1 ys q' p')"
proof (induction xs arbitrary: q p)
  case (Cons b xs)
  obtain n u where "b = (n, u)" by (cases b)
  then show ?case using Cons [of p "p + n"] by auto
qed auto

lemma seg_off: "seg h q p bs q' p' \<Longrightarrow> p' = p + off bs"
proof (induction bs arbitrary: q p)
  case (Cons b bs)
  then show ?case by (cases b) fastforce
qed simp

lemma seg_mid: "seg h q p (xs @ ys) q' p' \<longleftrightarrow> (\<exists>q1. seg h q p xs q1 (p + off xs) \<and> seg h q1 (p + off xs) ys q' p')"
  by (metis seg_append seg_off)

lemma seg_le: "seg h q p bs q' p' \<Longrightarrow> p \<le> p'"
  using seg_off by fastforce

lemma seg_cong:
  "(\<And>a. p \<le> a \<Longrightarrow> a < p' \<Longrightarrow> cells h' a = cells h a) \<Longrightarrow> seg h q p bs q' p' \<Longrightarrow> seg h' q p bs q' p'"
proof (induction bs arbitrary: q p)
  case (Cons b bs)
  obtain n u where b: "b = (n, u)" by (cases b)
  have le: "p + n \<le> p'" "20 \<le> n" using Cons.prems(2) seg_le [of h p "p + n" bs q' p'] b by auto
  have "seg h' p (p + n) bs q' p'" by (rule Cons.IH) (use Cons.prems le b in auto)
  then show ?case using Cons.prems b le by auto
qed simp

lemma put_cell_simps [simp]: "cells (put_cell p b h) a = (if a = p then Some b else cells h a)" "lfree (put_cell p b h) = lfree h"
  by (simp_all add: put_cell_def)

lemma seg_put: "a < p \<or> p' \<le> a \<Longrightarrow> seg h q p bs q' p' \<Longrightarrow> seg (put_cell a b h) q p bs q' p'"
  by (rule seg_cong [of p p' _ h]) auto

lemma lowest_append: "lowest p (xs @ ys) = (if \<forall>b \<in> set xs. snd b then lowest (p + off xs) ys else lowest p xs)"
proof (induction xs arbitrary: p)
  case (Cons b xs)
  then show ?case by (cases b) (simp add: add.assoc)
qed simp

lemma packed_Cons: "packed (b # bs) \<longleftrightarrow> packed bs \<and> (bs = [] \<or> snd b \<or> snd (hd bs))"
  by (cases bs) auto

lemma packed_append: "packed (xs @ ys) \<longleftrightarrow> packed xs \<and> packed ys \<and> (xs = [] \<or> ys = [] \<or> snd (last xs) \<or> snd (hd ys))"
  by (induction xs) (auto simp: packed_Cons hd_append)

lemma lowest_less: "\<not> (\<forall>b \<in> set bs. snd b) \<Longrightarrow> (\<And>b. b \<in> set bs \<Longrightarrow> 0 < fst b) \<Longrightarrow> lowest p bs < p + off bs"
proof (induction bs arbitrary: p)
  case (Cons b bs)
  obtain n u where b: "b = (n, u)" by (cases b)
  have "0 < n" using Cons.prems(2) [of b] b by simp
  then show ?case using Cons.IH [of "p + n"] Cons.prems b by (cases u) auto
qed simp

lemma lowest_ge: "p \<le> lowest p bs"
proof (induction bs arbitrary: p)
  case (Cons b bs)
  have "p \<le> lowest (p + fst b) bs" using Cons [of "p + fst b"] by (rule add_leD1)
  then show ?case by (cases b) simp
qed simp

lemma seg_sizes: "seg h q p bs q' p' \<Longrightarrow> b \<in> set bs \<Longrightarrow> 20 \<le> fst b"
  by (induction bs arbitrary: q p) auto

section \<open>Allocation is first fit\<close>

definition split_block :: "nat \<Rightarrow> nat \<Rightarrow> blocks" where
  "split_block s n = (if s + 28 \<le> n then [(s + 8, True), (n - (s + 8), False)] else [(n, True)])"

fun first_fit :: "nat \<Rightarrow> blocks \<Rightarrow> (nat \<times> blocks) option" where
  "first_fit s [] = None"
| "first_fit s ((n, u) # bs) =
     (if \<not> u \<and> s + 8 \<le> n then Some (0, split_block s n @ bs)
      else map_option (\<lambda>(k, bs'). (n + k, (n, u) # bs')) (first_fit s bs))"

lemma first_fit_None: "first_fit s bs = None \<longleftrightarrow> (\<forall>(n, u) \<in> set bs. u \<or> n < s + 8)"
proof (induction bs)
  case (Cons b bs)
  obtain n u where "b = (n, u)" by (cases b)
  then show ?case using Cons by (cases "\<not> u \<and> s + 8 \<le> n") auto
qed simp

lemma first_fit_Some:
  "first_fit s bs = Some (k, bs') \<Longrightarrow>
    \<exists>xs n ys. bs = xs @ (n, False) # ys \<and> k = off xs \<and> s + 8 \<le> n \<and> bs' = xs @ split_block s n @ ys"
proof (induction bs arbitrary: k bs')
  case (Cons b bs)
  obtain n u where b: "b = (n, u)" by (cases b)
  show ?case
  proof (cases "\<not> u \<and> s + 8 \<le> n")
    case True
    then show ?thesis using Cons.prems b by (intro exI [of _ "[]"]) auto
  next
    case False
    then obtain k1 bs1 where r: "first_fit s bs = Some (k1, bs1)" "k = n + k1" "bs' = (n, u) # bs1" using Cons.prems b by auto
    from Cons.IH [OF r(1)] obtain xs m ys where
      "bs = xs @ (m, False) # ys" "k1 = off xs" "s + 8 \<le> m" "bs1 = xs @ split_block s m @ ys" by blast
    then show ?thesis using r b by (intro exI [of _ "b # xs"] exI [of _ m] exI [of _ ys]) simp
  qed
qed simp

lemma first_fit_used: "\<forall>b \<in> set us. snd b \<Longrightarrow> first_fit s (us @ bs) = map_option (\<lambda>(k, bs'). (off us + k, us @ bs')) (first_fit s bs)"
proof (induction us)
  case (Cons b us)
  then show ?case by (cases b; cases "first_fit s bs") (auto simp: case_prod_beta)
qed (cases "first_fit s bs", simp_all)

lemma off_ge: "b \<in> set bs \<Longrightarrow> fst b \<le> off bs"
  by (induction bs) auto

lemma scan_ok:
  assumes "seg h q p bs q' END" "s \<le> END"
  shows "mem_scan s p h = Some (map_option (\<lambda>(k, bs'). p + k) (first_fit s bs))"
  using assms
proof (induction bs arbitrary: q p)
  case Nil
  then have "\<not> p < sub32 END s" by simp
  then show ?case by (subst mem_scan.simps) (simp del: sizes sub32_small)
next
  case (Cons b bs)
  obtain n u where b: "b = (n, u)" by (cases b)
  then have c: "20 \<le> n" "cells h p = Some \<lparr>mnext = p + n, mprev = q, mused = u\<rparr>" "seg h p (p + n) bs q' END"
    using Cons.prems by auto
  have e: "p + n \<le> 10240" "p + off (b # bs) = 10240" using seg_le [OF c(3)] seg_off [OF Cons.prems(1)] by simp_all
  show ?case
  proof (cases "p < END - s")
    case True
    have "sub32 (p + n) (p + 8) = n - 8" using e c(1) by simp
    then show ?thesis
      using True c b e Cons.IH [OF c(3)] Cons.prems(2)
      by (subst mem_scan.simps) (auto simp: option.map_comp comp_def case_prod_beta add.assoc)
  next
    case False
    have "u' \<or> n' < s + 8" if "(n', u') \<in> set (b # bs)" for n' u'
    proof -
      have "n' \<le> off (b # bs)" using off_ge [OF that] by simp
      then have "n' < s + 8" using False e(2) Cons.prems(2) unfolding sizes by linarith
      then show ?thesis ..
    qed
    then have "first_fit s (b # bs) = None" by (auto simp: first_fit_None)
    then show ?thesis using False Cons.prems(2) by (subst mem_scan.simps) simp
  qed
qed

lemma next_free_ok:
  assumes "seg h q p bs q' END" "cells h END = Some e" "mused e"
  shows "next_free p h = Some (lowest p bs)"
  using assms
proof (induction bs arbitrary: q p)
  case Nil
  then show ?case by (subst next_free.simps) simp
next
  case (Cons b bs)
  obtain n u where b: "b = (n, u)" by (cases b)
  then have c: "20 \<le> n" "cells h p = Some \<lparr>mnext = p + n, mprev = q, mused = u\<rparr>" "seg h p (p + n) bs q' END"
    using Cons.prems by auto
  have "p \<noteq> END" using seg_le [OF c(3)] c(1) by simp
  then show ?case using b c Cons.IH [OF c(3) Cons.prems(2,3)] by (subst next_free.simps) auto
qed

lemma lowest_split: "\<exists>us bs'. bs = us @ bs' \<and> (\<forall>b \<in> set us. snd b) \<and> lowest p bs = p + off us"
proof (induction bs arbitrary: p)
  case (Cons b bs)
  obtain n u where b: "b = (n, u)" by (cases b)
  show ?case
  proof (cases u)
    case True
    from Cons [of "p + n"] obtain us bs' where "bs = us @ bs'" "\<forall>b \<in> set us. snd b" "lowest (p + n) bs = p + n + off us" by blast
    then show ?thesis using True b by (intro exI [of _ "b # us"] exI [of _ bs']) simp
  next
    case False
    then show ?thesis using b by (intro exI [of _ "[]"] exI [of _ "b # bs"]) simp
  qed
qed simp

text \<open>The search from \<^verbatim>\<open>lfree\<close> finds what a search of the whole list finds.\<close>

lemma scan_from_lowest:
  assumes "seg h 0 0 bs q' END" "s \<le> END"
  shows "mem_scan s (lowest 0 bs) h = Some (map_option fst (first_fit s bs))"
proof -
  obtain us bs' where us: "bs = us @ bs'" "\<forall>b \<in> set us. snd b" "lowest 0 bs = off us" using lowest_split [of bs 0] by auto
  obtain q1 where "seg h q1 (off us) bs' q' END" using assms(1) us(1) by (auto simp: seg_mid)
  from scan_ok [OF this assms(2)] us(2,3) show ?thesis
    by (cases "first_fit s bs'") (simp_all add: us(1) first_fit_used case_prod_beta)
qed

text \<open>Changing the link back to the previous block.\<close>

lemma upd_prev_ok:
  assumes "seg h q p bs q' END" "cells h END = Some e" "mused e"
  shows "\<exists>h' q'' e'. upd_cell p (\<lambda>c. c\<lparr>mprev := r\<rparr>) h = Some h' \<and> seg h' r p bs q'' END \<and> lfree h' = lfree h \<and>
    (\<forall>a. a < p \<longrightarrow> cells h' a = cells h a) \<and> cells h' END = Some e' \<and> mused e'"
proof (cases bs)
  case Nil
  then have "p = END" using assms(1) by simp
  then show ?thesis using Nil assms(2,3) by (simp add: upd_cell_def)
next
  case (Cons b bs')
  obtain n u where b: "b = (n, u)" by (cases b)
  have c: "20 \<le> n" "4 dvd n" "cells h p = Some \<lparr>mnext = p + n, mprev = q, mused = u\<rparr>" "seg h p (p + n) bs' q' END"
    using assms(1) Cons b by auto
  have p: "p + n \<le> END" "p \<noteq> END" using seg_le [OF c(4)] c(1) by auto
  let ?h = "put_cell p \<lparr>mnext = p + n, mprev = r, mused = u\<rparr> h"
  have "upd_cell p (\<lambda>c. c\<lparr>mprev := r\<rparr>) h = Some ?h" using c(3) by (simp add: upd_cell_def)
  moreover have "seg ?h p (p + n) bs' q' END" by (rule seg_put [OF _ c(4)]) (use c(1) in simp)
  ultimately show ?thesis using Cons b c p assms(2,3) by (intro exI [of _ ?h] exI [of _ q'] exI [of _ e]) simp
qed

lemma relink_ok:
  assumes "seg h q p bs q' END" "cells h END = Some e" "mused e"
  shows "\<exists>h' q'' e'. relink p r h = Some h' \<and> seg h' r p bs q'' END \<and> lfree h' = lfree h \<and>
    (\<forall>a. a < p \<longrightarrow> cells h' a = cells h a) \<and> cells h' END = Some e' \<and> mused e'"
proof (cases "p = END")
  case True
  moreover have "bs = []" using seg_off [OF assms(1)] seg_sizes [OF assms(1)] True by (cases bs) fastforce+
  ultimately show ?thesis using assms(2,3) by (simp add: relink_def)
next
  case False
  then show ?thesis using upd_prev_ok [OF assms] by (simp add: relink_def)
qed

lemma take_ok:
  assumes "seg h 0 0 (xs @ (n, False) # ys) q' END" "cells h END = Some e" "mused e" "s + 8 \<le> n" "4 dvd s" "12 \<le> s"
  shows "\<exists>h' q'' e'. mem_take s (off xs) h = Some h' \<and> seg h' 0 0 (xs @ split_block s n @ ys) q'' END \<and> lfree h' = lfree h \<and>
    cells h' END = Some e' \<and> mused e'"
proof -
  let ?p = "off xs"
  obtain q where x: "seg h 0 0 xs q ?p" and y: "20 \<le> n" "4 dvd n" "cells h ?p = Some \<lparr>mnext = ?p + n, mprev = q, mused = False\<rparr>"
    "seg h ?p (?p + n) ys q' END"
    using assms(1) by (auto simp: seg_mid)
  have le: "?p + n \<le> 10240" using seg_le [OF y(4)] by simp
  have d: "sub32 (?p + n) (?p + 8) = n - 8" using le y(1) by simp
  show ?thesis
  proof (cases "s + 28 \<le> n")
    case True
    let ?p2 = "?p + 8 + s"
    let ?h = "put_cell ?p \<lparr>mnext = ?p2, mprev = q, mused = True\<rparr> (put_cell ?p2 \<lparr>mnext = ?p + n, mprev = ?p, mused = False\<rparr> h)"
    have "seg ?h ?p (?p + n) ys q' END" by (intro seg_put y(4)) (use True in auto)
    moreover have "cells ?h END = Some e" using assms(2) le True y(1) by simp
    ultimately obtain h' q'' e' where h': "relink (?p + n) ?p2 ?h = Some h'" "seg h' ?p2 (?p + n) ys q'' END" "lfree h' = lfree ?h"
      "\<forall>a. a < ?p + n \<longrightarrow> cells h' a = cells ?h a" "cells h' END = Some e'" "mused e'"
      using relink_ok [of ?h ?p "?p + n" ys q' e ?p2] assms(3) by blast
    have "seg h' 0 0 xs q ?p" by (rule seg_cong [OF _ x]) (use h'(4) in auto)
    moreover have "mem_take s ?p h = Some h'"
      using y(3) d True h'(1) le by (simp add: mem_take_def upd_cell_def)
    moreover have "seg h' q ?p (split_block s n @ ys) q'' END"
    proof -
      have c: "cells h' ?p = Some \<lparr>mnext = ?p2, mprev = q, mused = True\<rparr>" "cells h' ?p2 = Some \<lparr>mnext = ?p + n, mprev = ?p, mused = False\<rparr>"
        using h'(4) True by simp_all
      have a: "?p + (s + 8) = ?p2" "?p2 + (n - (s + 8)) = ?p + n" "4 dvd s + 8" "4 dvd n - (s + 8)" "20 \<le> n - (s + 8)"
        using True y(2) assms(5) by (auto intro!: dvd_diff_nat)
      have "seg h' ?p ?p2 ((n - (s + 8), False) # ys) q'' END" using c(2) a h'(2) by simp
      then show ?thesis using c(1) a assms(6) True by (simp add: split_block_def ac_simps)
    qed
    ultimately show ?thesis
      using h'(3,5,6) seg_mid [of h' 0 0 xs "split_block s n @ ys" q'' END] by auto
  next
    case False
    let ?h = "put_cell ?p \<lparr>mnext = ?p + n, mprev = q, mused = True\<rparr> h"
    have "seg ?h ?p (?p + n) ys q' END" "seg ?h 0 0 xs q ?p" by (intro seg_put y(4) x; use y(1) in simp)+
    moreover have "mem_take s ?p h = Some ?h" using y(1,3) d False by (auto simp: mem_take_def upd_cell_def)
    moreover have "cells ?h END = Some e" using assms(2) le y(1) by simp
    ultimately show ?thesis
      using y False assms(3) by (intro exI [of _ ?h] exI [of _ q'] exI [of _ e]) (auto simp: split_block_def seg_mid)
  qed
qed

text \<open>The size that is really reserved.\<close>

definition data_size :: "nat \<Rightarrow> nat" where
  "data_size n = max 12 (LWIP_MEM_ALIGN_SIZE n)"

lemma data_size: "4 dvd data_size n" "12 \<le> data_size n" "n \<le> data_size n"
  by (auto simp: data_size_def LWIP_MEM_ALIGN_SIZE_def max_def)

lemma packed_split:
  assumes "packed (xs @ (n, False) # ys)"
  shows "packed (xs @ split_block s n @ ys)"
  using assms by (auto simp: packed_append packed_Cons split_block_def)

lemma lowest_at:
  assumes "seg h 0 0 (xs @ (n, False) # ys) q' END"
  shows "lowest 0 (xs @ (n, False) # ys) = off xs \<longleftrightarrow> (\<forall>b \<in> set xs. snd b)"
proof -
  have "0 < fst b" if "b \<in> set xs" for b using seg_sizes [OF assms, of b] that by auto
  then have "lowest 0 xs < off xs" if "\<not> (\<forall>b \<in> set xs. snd b)" using lowest_less [OF that, of 0] by simp
  then show ?thesis by (cases "\<forall>b \<in> set xs. snd b") (simp_all add: lowest_append)
qed

lemma malloc_first_fit:
  assumes h: "heap_rep h bs" and n: "0 < n" "n \<le> 65532"
  shows "case first_fit (data_size n) bs of
      None \<Rightarrow> mem_malloc_heap n h = Some (0, h)
    | Some (k, bs') \<Rightarrow> \<exists>h'. mem_malloc_heap n h = Some (LWIP_RAM_HEAP_POINTER + k + SIZEOF_STRUCT_MEM, h') \<and> heap_rep h' bs'"
proof -
  obtain q e where r: "seg h 0 0 bs q END" "cells h END = Some e" "mused e" "packed bs" "lfree h = lowest 0 bs"
    using h by (auto simp: heap_rep_def)
  let ?s = "data_size n"
  have s: "(if wrap16 (LWIP_MEM_ALIGN_SIZE n) < MIN_SIZE_ALIGNED then MIN_SIZE_ALIGNED else wrap16 (LWIP_MEM_ALIGN_SIZE n)) = ?s"
    using n by (auto simp: data_size_def LWIP_MEM_ALIGN_SIZE_def wrap16_def)
  show ?thesis
  proof (cases "END < ?s")
    case True
    then have "u \<or> m < ?s + 8" if "(m, u) \<in> set bs" for m u using off_ge [OF that] seg_off [OF r(1)] by simp
    then have "first_fit ?s bs = None" by (auto simp: first_fit_None)
    then show ?thesis using n s True by (simp add: mem_malloc_heap_def Let_def)
  next
    case False
    note scan = scan_from_lowest [OF r(1), of ?s]
    show ?thesis
    proof (cases "first_fit ?s bs")
      case None
      then show ?thesis using n s False scan r(5) by (simp add: mem_malloc_heap_def Let_def)
    next
      case (Some a)
      obtain k bs' where a: "a = (k, bs')" by (cases a)
      then obtain xs m ys where x: "bs = xs @ (m, False) # ys" "k = off xs" "?s + 8 \<le> m" "bs' = xs @ split_block ?s m @ ys"
        using first_fit_Some [of ?s bs k bs'] Some by blast
      from take_ok [OF r(1) [unfolded x(1)] r(2,3) x(3) data_size(1,2)] obtain h' q' e' where
        t: "mem_take ?s k h = Some h'" "seg h' 0 0 bs' q' END" "lfree h' = lfree h" "cells h' END = Some e'" "mused e'"
        using x(2,4) by auto
      obtain q1 where q1: "seg h' q1 k (split_block ?s m @ ys) q' END" using t(2) x(2,4) by (auto simp: seg_mid)
      note nf = next_free_ok [OF q1 t(4,5)]
      have low: "lowest 0 bs' = (if k = lfree h then lowest k (split_block ?s m @ ys) else lfree h)"
        using lowest_at [OF r(1) [unfolded x(1)]] unfolding r(5) x(1,2,4) by (cases "\<forall>b \<in> set xs. snd b") (auto simp: lowest_append [of 0 xs])
      have p: "packed bs'" using packed_split r(4) x by simp
      have "heap_rep (if k = lfree h then h'\<lparr>lfree := lowest k (split_block ?s m @ ys)\<rparr> else h') bs'"
        using t p low seg_cong [of 0 END "h'\<lparr>lfree := lowest k (split_block ?s m @ ys)\<rparr>" h' 0 bs' q'] by (auto simp: heap_rep_def)
      then show ?thesis
        using n s False scan r(5) Some a t(1,3) nf by (auto simp: mem_malloc_heap_def Let_def)
    qed
  qed
qed

section \<open>Freeing joins free neighbours\<close>

text \<open>The representation while there may be two free blocks in a row.\<close>

definition loose_rep :: "heap \<Rightarrow> blocks \<Rightarrow> bool" where
  "loose_rep h bs \<longleftrightarrow> (\<exists>q. seg h 0 0 bs q END) \<and> (\<exists>e. cells h END = Some e \<and> mused e) \<and> lfree h = lowest 0 bs"

lemma heap_rep_loose: "heap_rep h bs \<longleftrightarrow> loose_rep h bs \<and> packed bs"
  by (auto simp: heap_rep_def loose_rep_def)

definition join_next :: "nat \<Rightarrow> blocks \<Rightarrow> nat \<times> blocks" where
  "join_next n ys = (case ys of (k, False) # zs \<Rightarrow> (n + k, zs) | _ \<Rightarrow> (n, ys))"

definition join_prev :: "blocks \<Rightarrow> nat \<Rightarrow> blocks \<Rightarrow> blocks" where
  "join_prev xs n ys = (if xs \<noteq> [] \<and> \<not> snd (last xs) then butlast xs @ (fst (last xs) + n, False) # ys else xs @ (n, False) # ys)"

definition free_block :: "blocks \<Rightarrow> nat \<Rightarrow> blocks \<Rightarrow> blocks" where
  "free_block xs n ys = (case join_next n ys of (n', ys') \<Rightarrow> join_prev xs n' ys')"

lemma lowest_before:
  assumes "seg h 0 0 (xs @ (n, False) # ys) q' END"
  shows "lowest 0 (xs @ (n, False) # ys) \<le> off xs"
proof -
  have "0 < fst b" if "b \<in> set xs" for b using seg_sizes [OF assms, of b] that by auto
  then have "lowest 0 xs < off xs" if "\<not> (\<forall>b \<in> set xs. snd b)" using lowest_less [OF that, of 0] by simp
  then show ?thesis by (cases "\<forall>b \<in> set xs. snd b") (simp_all add: lowest_append)
qed

lemma plug_forward_ok:
  assumes "loose_rep h (xs @ (n, False) # ys)"
  shows "\<exists>h'. plug_forward (off xs) h = Some h' \<and> loose_rep h' (case join_next n ys of (n', ys') \<Rightarrow> xs @ (n', False) # ys')"
proof -
  let ?m = "off xs"
  obtain q q' e where r: "seg h 0 0 (xs @ (n, False) # ys) q' END" "seg h 0 0 xs q ?m" "20 \<le> n" "4 dvd n"
    "cells h ?m = Some \<lparr>mnext = ?m + n, mprev = q, mused = False\<rparr>" "seg h ?m (?m + n) ys q' END" "cells h END = Some e" "mused e"
    "lfree h = lowest 0 (xs @ (n, False) # ys)"
    using assms by (auto simp: loose_rep_def seg_mid)
  show ?thesis
  proof (cases "\<exists>k zs. ys = (k, False) # zs")
    case True
    then obtain k zs where ys: "ys = (k, False) # zs" by blast
    then have k: "20 \<le> k" "4 dvd k" "cells h (?m + n) = Some \<lparr>mnext = ?m + n + k, mprev = ?m, mused = False\<rparr>"
      "seg h (?m + n) (?m + n + k) zs q' END" using r(6) by auto
    have le: "?m + n + k \<le> END" using seg_le [OF k(4)] .
    have lf: "lfree h \<noteq> ?m + n" using lowest_before [OF r(1)] r(3,9) by simp
    let ?h = "put_cell ?m \<lparr>mnext = ?m + n + k, mprev = q, mused = False\<rparr> h"
    have "seg ?h (?m + n) (?m + n + k) zs q' END" by (rule seg_put [OF _ k(4)]) (use r(3) in simp)
    moreover have "cells ?h END = Some e" using r(7) le k(1) by simp
    ultimately obtain h' q'' e' where h': "upd_cell (?m + n + k) (\<lambda>c. c\<lparr>mprev := ?m\<rparr>) ?h = Some h'" "seg h' ?m (?m + n + k) zs q'' END"
      "lfree h' = lfree ?h" "\<forall>a. a < ?m + n + k \<longrightarrow> cells h' a = cells ?h a" "cells h' END = Some e'" "mused e'"
      using upd_prev_ok [of ?h "?m + n" "?m + n + k" zs q' e ?m] r(8) by blast
    have "plug_forward ?m h = Some h'"
      using r(3,5) k(1,3) lf h'(1) le by (simp add: plug_forward_def upd_cell_def [of ?m])
    moreover have "seg h' 0 0 xs q ?m" by (rule seg_cong [OF _ r(2)]) (use h'(4) in auto)
    moreover have "seg h' q ?m ((n + k, False) # zs) q'' END"
      using h'(2,4) r(3,4) k(1,2) by (simp add: add.assoc)
    moreover have "lfree h' = lowest 0 (xs @ (n + k, False) # zs)" using h'(3) r(9) by (simp add: lowest_append)
    ultimately show ?thesis using h'(5,6) ys by (auto simp: loose_rep_def join_next_def seg_mid)
  next
    case False
    then have j: "join_next n ys = (n, ys)" by (auto simp: join_next_def split: list.splits prod.splits bool.splits)
    have "\<exists>c. cells h (?m + n) = Some c \<and> (mused c \<or> ?m + n = END)"
      using r(6,7,8) False by (cases ys) auto
    then have "plug_forward ?m h = Some h" using r(3,5) by (auto simp: plug_forward_def)
    then show ?thesis using assms j by simp
  qed
qed

lemma plug_backward_ok:
  assumes "loose_rep h (xs @ (n, False) # ys)"
  shows "\<exists>h'. plug_backward (off xs) h = Some h' \<and> loose_rep h' (join_prev xs n ys)"
proof (cases xs rule: rev_cases)
  case Nil
  then have "cells h 0 = Some \<lparr>mnext = n, mprev = 0, mused = False\<rparr>" using assms by (auto simp: loose_rep_def)
  then show ?thesis using assms Nil by (simp add: plug_backward_def join_prev_def)
next
  case (snoc zs b)
  obtain k u where b: "b = (k, u)" by (cases b)
  let ?p = "off zs" and ?m = "off zs + k"
  obtain q q' e where r: "seg h 0 0 (xs @ (n, False) # ys) q' END" "seg h 0 0 zs q ?p" "20 \<le> k" "4 dvd k" "20 \<le> n" "4 dvd n"
    "cells h ?p = Some \<lparr>mnext = ?m, mprev = q, mused = u\<rparr>" "cells h ?m = Some \<lparr>mnext = ?m + n, mprev = ?p, mused = False\<rparr>"
    "seg h ?m (?m + n) ys q' END" "cells h END = Some e" "mused e" "lfree h = lowest 0 (xs @ (n, False) # ys)"
    using assms snoc b by (auto simp: loose_rep_def seg_mid)
  show ?thesis
  proof (cases u)
    case True
    then show ?thesis using assms snoc b r(3,7,8) by (simp add: plug_backward_def join_prev_def)
  next
    case False
    have lf: "lfree h \<noteq> ?m" using lowest_before [of h zs k "(n, False) # ys" q'] r(1,3,12) snoc b False by simp
    have le: "?m + n \<le> END" using seg_le [OF r(9)] .
    let ?h = "put_cell ?p \<lparr>mnext = ?m + n, mprev = q, mused = False\<rparr> h"
    have "seg ?h ?m (?m + n) ys q' END" by (rule seg_put [OF _ r(9)]) (use r(3) in simp)
    moreover have "cells ?h END = Some e" using r(3,10) le by simp
    ultimately obtain h' q'' e' where h': "upd_cell (?m + n) (\<lambda>c. c\<lparr>mprev := ?p\<rparr>) ?h = Some h'" "seg h' ?p (?m + n) ys q'' END"
      "lfree h' = lfree ?h" "\<forall>a. a < ?m + n \<longrightarrow> cells h' a = cells ?h a" "cells h' END = Some e'" "mused e'"
      using upd_prev_ok [of ?h ?m "?m + n" ys q' e ?p] r(11) by blast
    have "plug_backward ?m h = Some h'"
      using r(3,7,8) lf h'(1) False by (simp add: plug_backward_def upd_cell_def [of ?p])
    moreover have "seg h' 0 0 zs q ?p" by (rule seg_cong [OF _ r(2)]) (use h'(4) in auto)
    moreover have "seg h' q ?p ((k + n, False) # ys) q'' END" using h'(2,4) r(3-6) by (simp add: add.assoc)
    moreover have "lfree h' = lowest 0 (zs @ (k + n, False) # ys)" using h'(3) r(12) snoc b False by (simp add: lowest_append)
    ultimately show ?thesis using h'(5,6) snoc b False by (auto simp: loose_rep_def join_prev_def seg_mid)
  qed
qed

text \<open>Marking a block free, with the adjustment of \<^verbatim>\<open>lfree\<close>.\<close>

lemma mark_free_ok:
  assumes "loose_rep h (xs @ (n, True) # ys)"
  shows "\<exists>h'. upd_cell (off xs) (\<lambda>b. b\<lparr>mused := False\<rparr>) h = Some h' \<and>
    loose_rep (if off xs < lfree h' then h'\<lparr>lfree := off xs\<rparr> else h') (xs @ (n, False) # ys)"
proof -
  let ?m = "off xs"
  obtain q q' e where r: "seg h 0 0 xs q ?m" "20 \<le> n" "4 dvd n" "cells h ?m = Some \<lparr>mnext = ?m + n, mprev = q, mused = True\<rparr>"
    "seg h ?m (?m + n) ys q' END" "cells h END = Some e" "mused e" "lfree h = lowest 0 (xs @ (n, True) # ys)"
    using assms by (auto simp: loose_rep_def seg_mid)
  let ?h = "put_cell ?m \<lparr>mnext = ?m + n, mprev = q, mused = False\<rparr> h"
  have le: "?m + n \<le> END" using seg_le [OF r(5)] .
  have s: "seg ?h 0 0 (xs @ (n, False) # ys) q' END"
    using seg_put [OF _ r(1), of ?m] seg_put [OF _ r(5), of ?m] r(2,3) by (auto simp: seg_mid)
  have low: "lowest 0 (xs @ (n, False) # ys) = (if ?m < lfree h then ?m else lfree h)"
  proof (cases "\<forall>b \<in> set xs. snd b")
    case True
    show ?thesis using lowest_ge [of "?m + n" ys] True r(2,8) by (simp add: lowest_append)
  next
    case False
    have "0 < fst b" if "b \<in> set xs" for b using seg_sizes [OF r(1) that] by simp
    from lowest_less [OF False this, of 0] show ?thesis using False r(8) by (auto simp: lowest_append)
  qed
  have "upd_cell ?m (\<lambda>b. b\<lparr>mused := False\<rparr>) h = Some ?h" using r(4) by (simp add: upd_cell_def)
  moreover have "loose_rep (if ?m < lfree ?h then ?h\<lparr>lfree := ?m\<rparr> else ?h) (xs @ (n, False) # ys)"
    using s low r(2,6,7) le seg_cong [OF _ s, of "?h\<lparr>lfree := ?m\<rparr>"] by (auto simp: loose_rep_def)
  ultimately show ?thesis by blast
qed

lemma packed_free: "packed (xs @ (n, True) # ys) \<Longrightarrow> packed (free_block xs n ys)"
  by (cases xs rule: rev_cases; cases ys)
    (auto simp: free_block_def join_next_def join_prev_def packed_append packed_Cons split: prod.splits bool.splits list.splits)

lemma free_ok:
  assumes "heap_rep h (xs @ (n, True) # ys)"
  shows "\<exists>h'. mem_free (LWIP_RAM_HEAP_POINTER + off xs + SIZEOF_STRUCT_MEM) h = Some h' \<and> heap_rep h' (free_block xs n ys)"
proof -
  have l: "loose_rep h (xs @ (n, True) # ys)" and p: "packed (xs @ (n, True) # ys)" using assms by (simp_all add: heap_rep_loose)
  obtain q' where "seg h 0 0 (xs @ (n, True) # ys) q' END" using l by (auto simp: loose_rep_def)
  then have le: "off xs + n \<le> END" "20 \<le> n" using seg_off [of h 0 0 "xs @ (n, True) # ys" q' END] seg_sizes [of h 0 0 "xs @ (n, True) # ys" q' END "(n, True)"]
    by simp_all
  obtain h1 where h1: "upd_cell (off xs) (\<lambda>b. b\<lparr>mused := False\<rparr>) h = Some h1"
    "loose_rep (if off xs < lfree h1 then h1\<lparr>lfree := off xs\<rparr> else h1) (xs @ (n, False) # ys)" using mark_free_ok [OF l] by blast
  obtain n' ys' where j: "join_next n ys = (n', ys')" by (cases "join_next n ys")
  obtain h2 where h2: "plug_forward (off xs) (if off xs < lfree h1 then h1\<lparr>lfree := off xs\<rparr> else h1) = Some h2"
    "loose_rep h2 (xs @ (n', False) # ys')" using plug_forward_ok [OF h1(2)] j by auto
  obtain h3 where h3: "plug_backward (off xs) h2 = Some h3" "loose_rep h3 (join_prev xs n' ys')" using plug_backward_ok [OF h2(2)] by blast
  have "mem_free (LWIP_RAM_HEAP_POINTER + off xs + SIZEOF_STRUCT_MEM) h = Some h3"
    using h1(1) h2(1) h3(1) le by (simp add: mem_free_def plug_holes_def Let_def LWIP_RAM_HEAP_POINTER_def)
  then show ?thesis using h3(2) packed_free [OF p] j by (simp add: heap_rep_loose free_block_def)
qed

section \<open>Shrinking\<close>

definition trim_block :: "nat \<Rightarrow> nat \<Rightarrow> blocks \<Rightarrow> blocks" where
  "trim_block s n ys =
     (if n = s + 8 then (n, True) # ys
      else case ys of
        (k, False) # zs \<Rightarrow> (s + 8, True) # (n - (s + 8) + k, False) # zs
      | _ \<Rightarrow> if s + 28 \<le> n then (s + 8, True) # (n - (s + 8), False) # ys else (n, True) # ys)"

text \<open>The new structure behind the shrunk block, \<open>m\<close>, with the blocks \<open>zs\<close> from \<open>t\<close> on behind it.\<close>

lemma shrink_ok:
  assumes x: "seg h 0 0 xs q m" and m: "cells h m = Some \<lparr>mnext = k, mprev = q, mused = True\<rparr>" and z: "seg h q2 t zs q' END"
    and e: "cells h END = Some e" "mused e" and s: "m + s + 28 \<le> t" "4 dvd s + 8" "4 dvd t - (m + s + 8)" "12 \<le> s"
  shows "\<exists>h' q''. Option.bind (upd_cell m (\<lambda>b. b\<lparr>mnext := m + 8 + s\<rparr>) (put_cell (m + 8 + s) \<lparr>mnext = t, mprev = m, mused = False\<rparr> h))
      (relink t (m + 8 + s)) = Some h' \<and> seg h' 0 0 (xs @ (s + 8, True) # (t - (m + s + 8), False) # zs) q'' END \<and>
    lfree h' = lfree h \<and> (\<exists>e'. cells h' END = Some e' \<and> mused e')"
proof -
  let ?p2 = "m + 8 + s"
  let ?h = "put_cell m \<lparr>mnext = ?p2, mprev = q, mused = True\<rparr> (put_cell ?p2 \<lparr>mnext = t, mprev = m, mused = False\<rparr> h)"
  have u: "upd_cell m (\<lambda>b. b\<lparr>mnext := ?p2\<rparr>) (put_cell ?p2 \<lparr>mnext = t, mprev = m, mused = False\<rparr> h) = Some ?h"
    using m by (simp add: upd_cell_def)
  have le: "t \<le> END" using seg_le [OF z] .
  have "seg ?h q2 t zs q' END" by (intro seg_put z) (use s in auto)
  moreover have "cells ?h END = Some e" using e(1) le s(1) by simp
  ultimately obtain h' q'' e' where h': "relink t ?p2 ?h = Some h'" "seg h' ?p2 t zs q'' END" "lfree h' = lfree ?h"
    "\<forall>a. a < t \<longrightarrow> cells h' a = cells ?h a" "cells h' END = Some e'" "mused e'"
    using relink_ok [of ?h q2 t zs q' e ?p2] e(2) by blast
  have c: "cells h' m = Some \<lparr>mnext = ?p2, mprev = q, mused = True\<rparr>" "cells h' ?p2 = Some \<lparr>mnext = t, mprev = m, mused = False\<rparr>"
    using h'(4) s(1) by simp_all
  have a: "m = off xs" "m + (s + 8) = ?p2" "?p2 + (t - (m + s + 8)) = t" "20 \<le> t - (m + s + 8)" using s(1) seg_off [OF x] by auto
  have "seg h' m ?p2 ((t - (m + s + 8), False) # zs) q'' END" using c(2) a h'(2) s(3) by simp
  then have "seg h' q m ((s + 8, True) # (t - (m + s + 8), False) # zs) q'' END" using c(1) s(2,4) by (subst seg.simps(2), unfold a(2)) simp
  moreover have "seg h' 0 0 xs q m" by (rule seg_cong [OF _ x]) (use h'(4) s(1) in auto)
  ultimately have "seg h' 0 0 (xs @ (s + 8, True) # (t - (m + s + 8), False) # zs) q'' END"
    using seg_append by metis
  then show ?thesis using u h' by auto
qed

lemma packed_trim: "packed (xs @ (n, True) # ys) \<Longrightarrow> packed (xs @ trim_block s n ys)"
  by (auto simp: trim_block_def packed_append packed_Cons split: list.splits prod.splits bool.splits)

lemma seg_lfree [simp]: "seg (h\<lparr>lfree := f\<rparr>) q p bs q' p' = seg h q p bs q' p'"
  by (induction bs arbitrary: q p) auto

lemma seg_lowest_less:
  assumes "seg h q p bs q' p'" "\<not> (\<forall>b \<in> set bs. snd b)" shows "lowest p bs < p'"
proof -
  have "0 < fst b" if "b \<in> set bs" for b using seg_sizes [OF assms(1) that] by simp
  from lowest_less [OF assms(2) this, of p] show ?thesis using seg_off [OF assms(1)] by simp
qed

lemma trim_ok:
  assumes h: "heap_rep h (xs @ (n, True) # ys)" and k: "k \<le> 65532"
  shows "let r = LWIP_RAM_HEAP_POINTER + off xs + SIZEOF_STRUCT_MEM; s = data_size k
    in if n < s + 8 then mem_trim r k h = Some (0, h)
       else \<exists>h'. mem_trim r k h = Some (r, h') \<and> heap_rep h' (xs @ trim_block s n ys)"
proof -
  let ?m = "off xs" and ?s = "data_size k" and ?r = "LWIP_RAM_HEAP_POINTER + off xs + SIZEOF_STRUCT_MEM"
  obtain q q' e where r: "seg h 0 0 (xs @ (n, True) # ys) q' END" "seg h 0 0 xs q ?m" "20 \<le> n" "4 dvd n"
    "cells h ?m = Some \<lparr>mnext = ?m + n, mprev = q, mused = True\<rparr>" "seg h ?m (?m + n) ys q' END" "cells h END = Some e" "mused e"
    "lfree h = lowest 0 (xs @ (n, True) # ys)" "packed (xs @ (n, True) # ys)"
    using h by (auto simp: heap_rep_def seg_mid)
  have le: "?m + n \<le> 10240" using seg_le [OF r(6)] by simp
  have s: "(if wrap16 (LWIP_MEM_ALIGN_SIZE k) < MIN_SIZE_ALIGNED then MIN_SIZE_ALIGNED else wrap16 (LWIP_MEM_ALIGN_SIZE k)) = ?s"
    using k by (auto simp: data_size_def LWIP_MEM_ALIGN_SIZE_def wrap16_def)
  have sz: "sub32 (sub32 (?m + n) ?m) 8 = n - 8" using le r(3) by simp
  have gap: "4 dvd ?s + 8" "4 dvd n - (?s + 8)" using data_size(1) r(4) by (auto intro!: dvd_diff_nat)
  have eq: "mem_trim ?r k h =
    (if END < ?s then Some (0, h)
     else if n - 8 < ?s then Some (0, h)
     else if ?s = n - 8 then Some (?r, h)
     else case cells h (?m + n) of None \<Rightarrow> None
       | Some mem2 \<Rightarrow>
           if \<not> mused mem2 then
             map_option (Pair ?r) (Option.bind (upd_cell ?m (\<lambda>b. b\<lparr>mnext := wrap16 (?m + 8 + ?s)\<rparr>)
               (put_cell (wrap16 (?m + 8 + ?s)) \<lparr>mnext = mnext mem2, mprev = ?m, mused = False\<rparr>
                 (if lfree h = ?m + n then h\<lparr>lfree := wrap16 (?m + 8 + ?s)\<rparr> else h))) (relink (mnext mem2) (wrap16 (?m + 8 + ?s))))
           else if ?s + 8 + 12 \<le> n - 8 then
             map_option (Pair ?r) (Option.bind (upd_cell ?m (\<lambda>b. b\<lparr>mnext := wrap16 (?m + 8 + ?s)\<rparr>)
               (put_cell (wrap16 (?m + 8 + ?s)) \<lparr>mnext = ?m + n, mprev = ?m, mused = False\<rparr>
                 (if wrap16 (?m + 8 + ?s) < lfree h then h\<lparr>lfree := wrap16 (?m + 8 + ?s)\<rparr> else h))) (relink (?m + n) (wrap16 (?m + 8 + ?s))))
           else Some (?r, h))"
  proof -
    have pm: "wrap16 (?r - SIZEOF_STRUCT_MEM - LWIP_RAM_HEAP_POINTER) = ?m"
      "\<not> (?r < LWIP_RAM_HEAP_POINTER \<or> LWIP_RAM_HEAP_POINTER + MEM_SIZE_ALIGNED \<le> ?r)" "\<not> ?r < LWIP_RAM_HEAP_POINTER + SIZEOF_STRUCT_MEM"
      "wrap16 (n - 8) = n - 8" using le r(3) by simp_all
    show ?thesis
      unfolding mem_trim_def Let_def s pm r(5) option.case
      by (simp only: mem.select_convs sizes(2,3) sz pm(4) pm(2,3) [simplified sizes(3)] if_False)
  qed
  show ?thesis
  proof (cases "n < ?s + 8 \<or> n = ?s + 8")
    case True
    then show ?thesis using eq h r(3) le by (auto simp: trim_block_def Let_def)
  next
    case False
    then have w: "?s + 8 < n" "wrap16 (?m + 8 + ?s) = ?m + 8 + ?s" "\<not> (END < ?s \<or> n - 8 < ?s)" "?s \<noteq> n - 8" using le by auto
    show ?thesis
    proof (cases "\<exists>k zs. ys = (k, False) # zs")
      case True
      then obtain k' zs where ys: "ys = (k', False) # zs" by blast
      then have c: "20 \<le> k'" "4 dvd k'" "cells h (?m + n) = Some \<lparr>mnext = ?m + n + k', mprev = ?m, mused = False\<rparr>"
        "seg h (?m + n) (?m + n + k') zs q' END" using r(6) by auto
      let ?h = "if lfree h = ?m + n then h\<lparr>lfree := ?m + 8 + ?s\<rparr> else h"
      have t: "?m + n + k' - (?m + ?s + 8) = n - (?s + 8) + k'" "4 dvd n - (?s + 8) + k'" "?m + ?s + 28 \<le> ?m + n + k'"
        using w(1) c(1) dvd_add [OF gap(2) c(2)] by simp_all
      have "seg ?h 0 0 xs q ?m" "cells ?h ?m = Some \<lparr>mnext = ?m + n, mprev = q, mused = True\<rparr>" "seg ?h (?m + n) (?m + n + k') zs q' END"
        "cells ?h END = Some e" using r(2,5,7) c(4) by auto
      from shrink_ok [OF this r(8) t(3) gap(1) _ data_size(2), unfolded t(1), OF t(2)] obtain h' q'' e' where
        h': "Option.bind (upd_cell ?m (\<lambda>b. b\<lparr>mnext := ?m + 8 + ?s\<rparr>) (put_cell (?m + 8 + ?s) \<lparr>mnext = ?m + n + k', mprev = ?m, mused = False\<rparr> ?h))
          (relink (?m + n + k') (?m + 8 + ?s)) = Some h'" "seg h' 0 0 (xs @ (?s + 8, True) # (n - (?s + 8) + k', False) # zs) q'' END"
          "lfree h' = lfree ?h" "cells h' END = Some e'" "mused e'" by blast
      have "lfree h' = lowest 0 (xs @ (?s + 8, True) # (n - (?s + 8) + k', False) # zs)"
        using h'(3) r(9) ys seg_lowest_less [OF r(2)] by (cases "\<forall>b \<in> set xs. snd b") (auto simp: lowest_append [of 0 xs])
      moreover have "mem_trim ?r k h = Some (?r, h')" using eq [unfolded w(2)] w(3,4) c(3) h'(1) by (simp split del: if_split)
      moreover have "trim_block ?s n ys = (?s + 8, True) # (n - (?s + 8) + k', False) # zs" using ys w(1) by (simp add: trim_block_def)
      ultimately show ?thesis
        using h'(2,4,5) w(1) packed_trim [OF r(10), of ?s] by (auto simp: heap_rep_def Let_def)
    next
      case no: False
      obtain c where c: "cells h (?m + n) = Some c" "mused c" using r(6-8) no by (cases ys) auto
      have tb: "trim_block ?s n ys = (if ?s + 28 \<le> n then (?s + 8, True) # (n - (?s + 8), False) # ys else (n, True) # ys)"
        using w(1) no by (auto simp: trim_block_def split: list.splits bool.splits)
      show ?thesis
      proof (cases "?s + 28 \<le> n")
        case True
        let ?h = "if ?m + 8 + ?s < lfree h then h\<lparr>lfree := ?m + 8 + ?s\<rparr> else h"
        have t: "?m + n - (?m + ?s + 8) = n - (?s + 8)" "?m + ?s + 28 \<le> ?m + n" using True by auto
        have "seg ?h 0 0 xs q ?m" "cells ?h ?m = Some \<lparr>mnext = ?m + n, mprev = q, mused = True\<rparr>" "seg ?h ?m (?m + n) ys q' END"
          "cells ?h END = Some e" using r(2,5,6,7) by auto
        from shrink_ok [OF this r(8) t(2) gap(1) _ data_size(2), unfolded t(1), OF gap(2)] obtain h' q'' e' where
          h': "Option.bind (upd_cell ?m (\<lambda>b. b\<lparr>mnext := ?m + 8 + ?s\<rparr>) (put_cell (?m + 8 + ?s) \<lparr>mnext = ?m + n, mprev = ?m, mused = False\<rparr> ?h))
            (relink (?m + n) (?m + 8 + ?s)) = Some h'" "seg h' 0 0 (xs @ (?s + 8, True) # (n - (?s + 8), False) # ys) q'' END"
            "lfree h' = lfree ?h" "cells h' END = Some e'" "mused e'" by blast
        have "lfree h' = lowest 0 (xs @ (?s + 8, True) # (n - (?s + 8), False) # ys)"
          using h'(3) r(9) w(1) seg_lowest_less [OF r(2)] lowest_ge [of "?m + n" ys]
          by (cases "\<forall>b \<in> set xs. snd b") (auto simp: lowest_append [of 0 xs])
        moreover have "20 + ?s \<le> n - 8" using True by simp
        then have "mem_trim ?r k h = Some (?r, h')" using eq [unfolded w(2)] w(3,4) c h'(1) by (simp split del: if_split)
        ultimately show ?thesis
          using h'(2,4,5) w(1) packed_trim [OF r(10), of ?s] tb True by (auto simp: heap_rep_def Let_def)
      next
        case False
        then show ?thesis using eq w c tb h by (auto simp: Let_def)
      qed
    qed
  qed
qed

section \<open>Blocks in use\<close>

text \<open>Offset and size, with the structure in front, of the blocks in use.\<close>

fun in_use :: "nat \<Rightarrow> blocks \<Rightarrow> (nat \<times> nat) list" where
  "in_use p [] = []"
| "in_use p ((n, u) # bs) = (if u then [(p, n)] else []) @ in_use (p + n) bs"

lemma in_use_append: "in_use p (xs @ ys) = in_use p xs @ in_use (p + off xs) ys"
  by (induction p xs rule: in_use.induct) (auto simp: add.assoc)

lemma in_use_range: "(a, n) \<in> set (in_use p bs) \<Longrightarrow> p \<le> a \<and> a + n \<le> p + off bs"
  by (induction p bs rule: in_use.induct) (auto split: if_splits)

lemma in_use_split:
  assumes "s + 8 \<le> n"
  shows "\<exists>m. s + 8 \<le> m \<and> m \<le> n \<and> set (in_use p (xs @ split_block s n @ ys)) =
    insert (p + off xs, m) (set (in_use p (xs @ (n, False) # ys)))"
  using assms by (auto simp: in_use_append split_block_def intro: exI [of _ "s + 8"] exI [of _ n])

lemma in_use_free: "set (in_use p (free_block xs n ys)) = set (in_use p (xs @ (n, False) # ys))"
  by (cases xs rule: rev_cases; cases ys)
    (auto simp: in_use_append free_block_def join_next_def join_prev_def add.assoc split: prod.splits bool.splits)

lemma off_aligned: "seg h q p bs q' p' \<Longrightarrow> 4 dvd off bs"
proof (induction bs arbitrary: q p)
  case (Cons b bs)
  then show ?case by (cases b) (auto intro: dvd_add)
qed simp

lemma free_split:
  assumes "packed (xs @ (n, False) # ys)" "s + 8 \<le> n"
  shows "\<exists>m zs. split_block s n @ ys = (m, True) # zs \<and> free_block xs m zs = xs @ (n, False) # ys"
proof -
  have "join_prev xs n ys = xs @ (n, False) # ys" using assms(1) by (auto simp: join_prev_def packed_append)
  moreover have "join_next n ys = (n, ys)" using assms(1) by (cases ys) (auto simp: join_next_def packed_append packed_Cons split: bool.splits)
  ultimately show ?thesis using assms(2) by (auto simp: split_block_def free_block_def join_next_def)
qed

text \<open>The addresses that clients hold.\<close>

definition held :: "blocks \<Rightarrow> nat set" where
  "held bs = (\<lambda>(p, n). LWIP_RAM_HEAP_POINTER + p + SIZEOF_STRUCT_MEM) ` set (in_use 0 bs)"

lemma in_use_decomp: "(a, n) \<in> set (in_use p bs) \<Longrightarrow> \<exists>xs ys. bs = xs @ (n, True) # ys \<and> a = p + off xs"
proof (induction bs arbitrary: p)
  case (Cons b bs)
  obtain m u where b: "b = (m, u)" by (cases b)
  show ?case
  proof (cases "(a, n) \<in> set (in_use (p + m) bs)")
    case True
    from Cons.IH [OF this] obtain xs ys where "bs = xs @ (n, True) # ys" "a = p + m + off xs" by blast
    then show ?thesis using b by (intro exI [of _ "b # xs"] exI [of _ ys]) simp
  next
    case False
    then have "(n, True) = b" "a = p" using Cons.prems b by (auto split: if_splits)
    then show ?thesis by (intro exI [of _ "[]"] exI [of _ bs]) simp
  qed
qed simp

lemma held_decomp:
  assumes "r \<in> held bs"
  obtains xs n ys where "bs = xs @ (n, True) # ys" "r = LWIP_RAM_HEAP_POINTER + off xs + SIZEOF_STRUCT_MEM"
  using assms in_use_decomp by (fastforce simp: held_def)

lemma held_append: "held (xs @ (n, u) # ys) = held xs \<union> (if u then {LWIP_RAM_HEAP_POINTER + off xs + SIZEOF_STRUCT_MEM} else {}) \<union>
    (\<lambda>(p, n). LWIP_RAM_HEAP_POINTER + p + SIZEOF_STRUCT_MEM) ` set (in_use (off xs + n) ys)"
  by (auto simp: held_def in_use_append)

lemma held_fresh:
  assumes "seg h 0 0 (xs @ (n, u) # ys) q' END"
  shows "LWIP_RAM_HEAP_POINTER + off xs + SIZEOF_STRUCT_MEM \<notin> held (xs @ (n, False) # ys)"
proof -
  have n: "20 \<le> n" using seg_sizes [OF assms, of "(n, u)"] by simp
  have "a < off xs" if am: "(a, m) \<in> set (in_use 0 xs)" for a m
  proof -
    obtain xs1 ys1 where "xs = xs1 @ (m, True) # ys1" using in_use_decomp [OF am] by blast
    then have "20 \<le> m" using seg_sizes [OF assms, of "(m, True)"] by simp
    then show ?thesis using in_use_range [OF am] by linarith
  qed
  moreover have "off xs < a" if "(a, m) \<in> set (in_use (off xs + n) ys)" for a m
    using in_use_range [OF that] n by simp
  ultimately have "(off xs, m) \<notin> set (in_use 0 (xs @ (n, False) # ys))" for m by (auto simp: in_use_append)
  then show ?thesis by (auto simp: held_def)
qed

lemma held_free: "held (free_block xs n ys) = held (xs @ (n, False) # ys)"
  by (simp add: held_def in_use_free)

lemma held_split: "s + 8 \<le> n \<Longrightarrow> held (xs @ split_block s n @ ys) = insert (LWIP_RAM_HEAP_POINTER + off xs + SIZEOF_STRUCT_MEM) (held (xs @ (n, False) # ys))"
  using in_use_split [of s n 0 xs ys] by (auto simp: held_def)

lemma in_use_trim:
  assumes "s + 8 \<le> n"
  shows "\<exists>m. s + 8 \<le> m \<and> m \<le> n \<and> in_use p (trim_block s n ys) = (p, m) # in_use (p + n) ys"
proof -
  obtain d where d: "n = s + 8 + d" using assms le_Suc_ex by blast
  show ?thesis
  proof (cases ys)
    case Nil
    then show ?thesis unfolding d trim_block_def by simp
  next
    case (Cons y zs)
    obtain k u where "y = (k, u)" by (cases y)
    then show ?thesis unfolding d trim_block_def using Cons by (cases u) (simp_all add: add.assoc)
  qed
qed

lemma held_trim: "s + 8 \<le> n \<Longrightarrow> held (xs @ trim_block s n ys) = held (xs @ (n, True) # ys)"
  using in_use_trim [of s n "off xs" ys] by (auto simp: held_def in_use_append)

section \<open>Every run of the allocator\<close>

text \<open>\<open>live\<close> are the blocks that were allocated and not freed since. Clients free and shrink only these.\<close>

inductive heap_run :: "heap \<Rightarrow> heap \<Rightarrow> nat set \<Rightarrow> bool" for h0 where
  init: "heap_run h0 (mem_init h0) {}"
| malloc: "heap_run h0 h live \<Longrightarrow> n \<le> 65532 \<Longrightarrow> mem_malloc_heap n h = Some (r, h') \<Longrightarrow>
    heap_run h0 h' (if r = 0 then live else insert r live)"
| free: "heap_run h0 h live \<Longrightarrow> r \<in> live \<Longrightarrow> mem_free r h = Some h' \<Longrightarrow> heap_run h0 h' (live - {r})"
| trim: "heap_run h0 h live \<Longrightarrow> r \<in> live \<Longrightarrow> n \<le> 65532 \<Longrightarrow> mem_trim r n h = Some (r', h') \<Longrightarrow> heap_run h0 h' live"

lemma zero_not_held: "0 \<notin> held bs"
  by (auto simp: held_def)

lemma init_rep: "heap_rep (mem_init h) [(END, False)]" "held [(END, False)] = {}"
  by (simp_all add: heap_rep_def mem_init_def Let_def held_def)

lemma malloc_cases:
  assumes "heap_rep h bs" "0 < n" "n \<le> 65532"
  obtains (fail) "mem_malloc_heap n h = Some (0, h)" "\<forall>(m, u) \<in> set bs. u \<or> m < data_size n + 8"
  | (fit) xs m ys h' where "bs = xs @ (m, False) # ys" "data_size n + 8 \<le> m" "first_fit (data_size n) bs = Some (off xs, xs @ split_block (data_size n) m @ ys)"
      "mem_malloc_heap n h = Some (LWIP_RAM_HEAP_POINTER + off xs + SIZEOF_STRUCT_MEM, h')" "heap_rep h' (xs @ split_block (data_size n) m @ ys)"
proof (cases "first_fit (data_size n) bs")
  case None
  then show ?thesis using fail malloc_first_fit [OF assms] first_fit_None [of "data_size n" bs] by simp
next
  case (Some a)
  obtain k bs' where a: "first_fit (data_size n) bs = Some (k, bs')" using Some by (cases a) simp
  obtain xs m ys where x: "bs = xs @ (m, False) # ys" "k = off xs" "data_size n + 8 \<le> m" "bs' = xs @ split_block (data_size n) m @ ys"
    using first_fit_Some [OF a] by blast
  obtain h' where h: "mem_malloc_heap n h = Some (LWIP_RAM_HEAP_POINTER + k + SIZEOF_STRUCT_MEM, h')" "heap_rep h' bs'"
    using malloc_first_fit [OF assms] unfolding a by auto
  show ?thesis using fit [OF x(1,3) a [unfolded x(2,4)] h [unfolded x(2,4)]] .
qed

lemma heap_rep_seg:
  assumes "heap_rep h bs"
  obtains q where "seg h 0 0 bs q END"
  using assms by (auto simp: heap_rep_def)

lemma malloc_rep:
  assumes "heap_rep h bs" "n \<le> 65532"
  shows "\<exists>r h' bs'. mem_malloc_heap n h = Some (r, h') \<and> heap_rep h' bs' \<and> r \<notin> held bs \<and>
    held bs' = (if r = 0 then held bs else insert r (held bs))"
proof (cases "n = 0")
  case True
  then show ?thesis using assms(1) zero_not_held [of bs] by (auto simp: mem_malloc_heap_def)
next
  case False
  then have n: "0 < n" by simp
  from assms(1) n assms(2) show ?thesis
  proof (cases rule: malloc_cases)
    case fail
    then show ?thesis using assms(1) zero_not_held [of bs] by (intro exI [of _ 0] exI [of _ h] exI [of _ bs]) simp
  next
    case (fit xs m ys h')
    obtain q where q: "seg h 0 0 (xs @ (m, False) # ys) q END" using heap_rep_seg assms(1) fit(1) by metis
    show ?thesis using fit(4,5) held_split [OF fit(2), of xs ys] held_fresh [OF q] unfolding fit(1)
      by (intro exI conjI) (assumption | simp)+
  qed
qed

lemma free_rep:
  assumes "heap_rep h bs" "r \<in> held bs"
  shows "\<exists>h' bs'. mem_free r h = Some h' \<and> heap_rep h' bs' \<and> held bs' = held bs - {r}"
proof -
  obtain xs n ys where x: "bs = xs @ (n, True) # ys" "r = LWIP_RAM_HEAP_POINTER + off xs + SIZEOF_STRUCT_MEM" by (rule held_decomp [OF assms(2)])
  obtain q' where "seg h 0 0 (xs @ (n, True) # ys) q' END" using assms(1) x by (auto simp: heap_rep_def)
  from held_fresh [OF this] have "held (free_block xs n ys) = held bs - {r}"
    unfolding held_free x by (auto simp: held_append)
  then show ?thesis using free_ok [OF assms(1) [unfolded x(1)]] x(2) by blast
qed

lemma trim_rep:
  assumes "heap_rep h bs" "r \<in> held bs" "n \<le> 65532"
  shows "\<exists>r' h' bs'. mem_trim r n h = Some (r', h') \<and> heap_rep h' bs' \<and> held bs' = held bs"
proof -
  obtain xs m ys where x: "bs = xs @ (m, True) # ys" "r = LWIP_RAM_HEAP_POINTER + off xs + SIZEOF_STRUCT_MEM" by (rule held_decomp [OF assms(2)])
  show ?thesis
    using trim_ok [OF assms(1) [unfolded x(1)] assms(3)] held_trim [of "data_size n" m xs ys] x assms(1)
    by (auto simp: Let_def not_less split: if_splits)
qed

lemma heap_run_rep: "heap_run h0 h live \<Longrightarrow> \<exists>bs. heap_rep h bs \<and> held bs = live"
proof (induction rule: heap_run.induct)
  case init
  then show ?case using init_rep by blast
next
  case (malloc h live n r h')
  then show ?case using malloc_rep by (metis option.inject prod.inject)
next
  case (free h live r h')
  then show ?case using free_rep by (metis option.inject)
next
  case (trim h live r n r' h')
  then show ?case using trim_rep by (metis option.inject prod.inject)
qed

lemma none_held:
  assumes "heap_rep h bs" "held bs = {}"
  shows "bs = [(END, False)]"
proof -
  have f: "u = False" if b: "(n, u) \<in> set bs" for n u
  proof (rule ccontr)
    assume "u \<noteq> False"
    then obtain xs ys where "bs = xs @ (n, True) # ys" using split_list [OF b] by auto
    then show False using assms(2) by (simp add: held_append)
  qed
  obtain q' where s: "seg h 0 0 bs q' END" and p: "packed bs" using assms(1) by (auto simp: heap_rep_def)
  obtain b bs' where b: "bs = b # bs'" using seg_off [OF s] by (cases bs) auto
  have "bs' = []"
  proof (cases bs')
    case (Cons c cs)
    obtain n u m v where nm: "b = (n, u)" "c = (m, v)" by (cases b, cases c) auto
    then have "\<not> u" "\<not> v" using f [of n u] f [of m v] b Cons by auto
    then show ?thesis using p b Cons nm by simp
  qed simp
  then show ?thesis using b f seg_off [OF s] by (cases b) auto
qed

text \<open>\<open>live h L\<close>: the heap is well formed, and the clients hold exactly the addresses \<open>L\<close>.\<close>

definition live :: "heap \<Rightarrow> nat set \<Rightarrow> bool" where
  "live h L \<longleftrightarrow> (\<exists>bs. heap_rep h bs \<and> held bs = L)"

interpretation ram: allocator live "\<lambda>n. n \<le> 65532" mem_malloc_heap mem_free
proof unfold_locales
  fix h L n assume "live h L" "n \<le> (65532 :: nat)"
  then show "\<exists>a h'. mem_malloc_heap n h = Some (a, h') \<and> a \<notin> L \<and> live h' (if a = 0 then L else insert a L)"
    using malloc_rep unfolding live_def by metis
next
  fix h L a assume "live h L" "a \<in> L"
  then show "\<exists>h'. mem_free a h = Some h' \<and> live h' (L - {a})" using free_rep unfolding live_def by metis
qed

end
