(* ===== verification/Memp.thy ===== *)
theory Memp
  imports Pbuf Allocator
begin

text \<open>
  \<^verbatim>\<open>src/STM32/Bootloader/User/lwip-2.0.3/src/core/memp.c\<close>: the pools of elements of fixed size, with the options
  of \<^verbatim>\<open>lwipopts.h\<close>: no overflow or sanity checks, no statistics. A free element holds the
  pointer to the next one in its first word, \<open>nxt\<close>; \<open>None\<close> is an access outside these words. Where the linker
  puts a pool and how large its structures are is an argument, the descriptor table \<open>memp_pools\<close>.
\<close>

datatype memp_t = MEMP_UDP_PCB | MEMP_TCP_PCB | MEMP_TCP_PCB_LISTEN | MEMP_TCP_SEG | MEMP_REASSDATA
  | MEMP_FRAG_PBUF | MEMP_SYS_TIMEOUT | MEMP_PBUF_t | MEMP_PBUF_POOL_t

text \<open>A pool is one of these or the one the driver declares for itself, \<^verbatim>\<open>RX_POOL\<close>.\<close>

datatype pool = Memp memp_t | Rx_Pool

record memp_desc =
  esize :: nat
  pnum :: nat
  ebase :: nat

record pools =
  tab :: "pool \<Rightarrow> nat"
  nxt :: "nat \<rightharpoonup> nat"

definition MEMP_SIZE :: nat where "MEMP_SIZE = 0"

fun memp_num :: "pool \<Rightarrow> nat" where
  "memp_num (Memp MEMP_UDP_PCB) = 6"
| "memp_num (Memp MEMP_TCP_PCB) = 10"
| "memp_num (Memp MEMP_TCP_PCB_LISTEN) = 6"
| "memp_num (Memp MEMP_TCP_SEG) = 8"
| "memp_num (Memp MEMP_REASSDATA) = 5"
| "memp_num (Memp MEMP_FRAG_PBUF) = 15"
| "memp_num (Memp MEMP_SYS_TIMEOUT) = 10"
| "memp_num (Memp MEMP_PBUF_t) = 10"
| "memp_num (Memp MEMP_PBUF_POOL_t) = 4"
| "memp_num Rx_Pool = 20"

text \<open>The descriptor \<^verbatim>\<open>LWIP_MEMPOOL_DECLARE\<close> builds; \<open>sz\<close> are the sizes of the structures, \<open>at\<close> the memory of the pools.\<close>

definition LWIP_MEMPOOL_DECLARE :: "(pool \<Rightarrow> nat) \<Rightarrow> (pool \<Rightarrow> nat) \<Rightarrow> pool \<Rightarrow> memp_desc" where
  "LWIP_MEMPOOL_DECLARE sz at p = \<lparr>esize = LWIP_MEM_ALIGN_SIZE (sz p), pnum = memp_num p, ebase = at p\<rparr>"

fun memp_link :: "pool \<Rightarrow> memp_desc \<Rightarrow> nat \<Rightarrow> nat \<Rightarrow> pools \<Rightarrow> pools" where
  "memp_link t d 0 memp s = s"
| "memp_link t d (Suc i) memp s =
     memp_link t d i (memp + MEMP_SIZE + esize d) (s\<lparr>nxt := (nxt s)(memp \<mapsto> tab s t), tab := (tab s)(t := memp)\<rparr>)"

definition memp_init_pool :: "pool \<Rightarrow> memp_desc \<Rightarrow> pools \<Rightarrow> pools" where
  "memp_init_pool t d s = memp_link t d (pnum d) (LWIP_MEM_ALIGN_SIZE (ebase d)) (s\<lparr>tab := (tab s)(t := 0)\<rparr>)"

definition memp_types :: "memp_t list" where
  "memp_types = [MEMP_UDP_PCB, MEMP_TCP_PCB, MEMP_TCP_PCB_LISTEN, MEMP_TCP_SEG, MEMP_REASSDATA, MEMP_FRAG_PBUF,
     MEMP_SYS_TIMEOUT, MEMP_PBUF_t, MEMP_PBUF_POOL_t]"

definition memp_init :: "(pool \<Rightarrow> memp_desc) \<Rightarrow> pools \<Rightarrow> pools" where
  "memp_init D s = fold (\<lambda>t. memp_init_pool (Memp t) (D (Memp t))) memp_types s"

definition do_memp_malloc_pool :: "pool \<Rightarrow> pools \<Rightarrow> (nat \<times> pools) option" where
  "do_memp_malloc_pool t s =
     (let memp = tab s t
      in if memp \<noteq> 0 then
           case nxt s memp of None \<Rightarrow> None
           | Some n \<Rightarrow> Some (memp + MEMP_SIZE, s\<lparr>tab := (tab s)(t := n)\<rparr>)
         else Some (0, s))"

text \<open>The pool is \<open>None\<close> for a null pointer to a descriptor.\<close>

definition memp_malloc_pool :: "pool option \<Rightarrow> pools \<Rightarrow> (nat \<times> pools) option" where
  "memp_malloc_pool desc s = (case desc of None \<Rightarrow> Some (0, s) | Some p \<Rightarrow> do_memp_malloc_pool p s)"

definition memp_malloc :: "memp_t \<Rightarrow> pools \<Rightarrow> (nat \<times> pools) option" where
  "memp_malloc t s = do_memp_malloc_pool (Memp t) s"

definition do_memp_free_pool :: "pool \<Rightarrow> nat \<Rightarrow> pools \<Rightarrow> pools option" where
  "do_memp_free_pool t mem s =
     (let memp = mem - MEMP_SIZE
      in case nxt s memp of None \<Rightarrow> None
         | Some _ \<Rightarrow> Some (s\<lparr>nxt := (nxt s)(memp \<mapsto> tab s t), tab := (tab s)(t := memp)\<rparr>))"

definition memp_free_pool :: "pool option \<Rightarrow> nat \<Rightarrow> pools \<Rightarrow> pools option" where
  "memp_free_pool desc mem s =
     (case desc of None \<Rightarrow> Some s | Some p \<Rightarrow> if mem = 0 then Some s else do_memp_free_pool p mem s)"

definition memp_free :: "memp_t \<Rightarrow> nat \<Rightarrow> pools \<Rightarrow> pools option" where
  "memp_free t mem s = (if mem = 0 then Some s else do_memp_free_pool (Memp t) mem s)"

lemma memp_by_pool: "memp_malloc t = memp_malloc_pool (Some (Memp t))" "memp_free t = memp_free_pool (Some (Memp t))"
  by (simp_all add: fun_eq_iff memp_malloc_def memp_malloc_pool_def memp_free_def memp_free_pool_def)

section \<open>Free lists\<close>

definition elements :: "memp_desc \<Rightarrow> nat list" where
  "elements d = map (\<lambda>i. LWIP_MEM_ALIGN_SIZE (ebase d) + i * esize d) [0..<pnum d]"

fun linked_free :: "(nat \<rightharpoonup> nat) \<Rightarrow> nat \<Rightarrow> nat list \<Rightarrow> bool" where
  "linked_free m p [] \<longleftrightarrow> p = 0"
| "linked_free m p (e # es) \<longleftrightarrow> p = e \<and> e \<noteq> 0 \<and> (\<exists>q. m e = Some q \<and> linked_free m q es)"

text \<open>What the linker provides: no pool at address 0, structures of at least one byte, pools in disjoint memory.\<close>

definition pools_apart :: "(pool \<Rightarrow> memp_desc) \<Rightarrow> bool" where
  "pools_apart D \<longleftrightarrow> (\<forall>t. 0 < ebase (D t) \<and> 0 < esize (D t)) \<and>
     (\<forall>t u. t \<noteq> u \<longrightarrow> set (elements (D t)) \<inter> set (elements (D u)) = {})"

text \<open>\<open>memp_rep D s f\<close>: in the state \<open>s\<close> the free elements of pool \<open>t\<close> are \<open>f t\<close>, in this order.\<close>

definition memp_rep :: "(pool \<Rightarrow> memp_desc) \<Rightarrow> pools \<Rightarrow> (pool \<Rightarrow> nat list) \<Rightarrow> bool" where
  "memp_rep D s f \<longleftrightarrow> (\<forall>t. linked_free (nxt s) (tab s t) (f t) \<and> distinct (f t) \<and> set (f t) \<subseteq> set (elements (D t))) \<and>
     (\<forall>t. set (elements (D t)) \<subseteq> dom (nxt s))"

lemma linked_free_cong: "(\<And>a. a \<in> set es \<Longrightarrow> m' a = m a) \<Longrightarrow> linked_free m' p es = linked_free m p es"
  by (induction es arbitrary: p) auto

lemma elements_pos: "0 < ebase d \<Longrightarrow> e \<in> set (elements d) \<Longrightarrow> 0 < e"
  by (auto simp: elements_def LWIP_MEM_ALIGN_SIZE_def)

lemma elements_distinct: "0 < esize d \<Longrightarrow> distinct (elements d)"
  by (auto simp: elements_def distinct_map inj_on_def)

lemma malloc_pops:
  assumes "memp_rep D s f"
  shows "case f t of [] \<Rightarrow> memp_malloc_pool (Some t) s = Some (0, s)
    | e # es \<Rightarrow> \<exists>s'. memp_malloc_pool (Some t) s = Some (e, s') \<and> e \<noteq> 0 \<and> memp_rep D s' (f(t := es))"
proof (cases "f t")
  case Nil
  then have "linked_free (nxt s) (tab s t) []" using assms unfolding memp_rep_def by metis
  then show ?thesis using Nil by (simp add: memp_malloc_pool_def do_memp_malloc_pool_def)
next
  case (Cons e es)
  have l: "linked_free (nxt s) (tab s t) (e # es)" "distinct (e # es)" "set (e # es) \<subseteq> set (elements (D t))"
    using assms Cons unfolding memp_rep_def by metis+
  then obtain q where q: "tab s t = e" "e \<noteq> 0" "nxt s e = Some q" "linked_free (nxt s) q es" by auto
  have "memp_rep D (s\<lparr>tab := (tab s)(t := q)\<rparr>) (f(t := es))" using assms l q unfolding memp_rep_def by auto
  then show ?thesis using Cons q by (simp add: memp_malloc_pool_def do_memp_malloc_pool_def MEMP_SIZE_def)
qed

lemma free_pushes:
  assumes "pools_apart D" "memp_rep D s f" "e \<in> set (elements (D t))" "e \<notin> set (f t)"
  shows "\<exists>s'. memp_free_pool (Some t) e s = Some s' \<and> memp_rep D s' (f(t := e # f t))"
proof -
  have e: "0 < e" using elements_pos [of "D t" e] assms(1,3) by (simp add: pools_apart_def)
  obtain v where v: "nxt s e = Some v" using assms(2,3) unfolding memp_rep_def by blast
  let ?s = "s\<lparr>nxt := (nxt s)(e \<mapsto> tab s t), tab := (tab s)(t := e)\<rparr>"
  have "e \<notin> set (f u)" for u
    using assms unfolding pools_apart_def memp_rep_def by (cases "u = t") blast+
  then have "linked_free ((nxt s)(e \<mapsto> tab s t)) p (f u) = linked_free (nxt s) p (f u)" for p u
    using linked_free_cong [of "f u"] by (metis fun_upd_other)
  then have "memp_rep D ?s (f(t := e # f t))" using assms e unfolding memp_rep_def by auto
  then show ?thesis using e v by (simp add: memp_free_pool_def do_memp_free_pool_def MEMP_SIZE_def)
qed

section \<open>Initialisation\<close>

lemma upt_shift: "map (\<lambda>i. p + i * k) [0..<Suc n] = p # map (\<lambda>i. p + k + i * k) [0..<n]" for p k :: nat
  by (simp add: upt_conv_Cons map_Suc_upt [symmetric] del: upt_Suc) 

lemma memp_link_ok:
  assumes "linked_free (nxt s) (tab s t) fs" "0 < p" "0 < esize d" "\<forall>a \<in> set fs. a < p"
  shows "let s' = memp_link t d n p s; es = map (\<lambda>i. p + i * esize d) [0..<n]
    in linked_free (nxt s') (tab s' t) (rev es @ fs) \<and> (\<forall>u. u \<noteq> t \<longrightarrow> tab s' u = tab s u) \<and>
       (\<forall>a. a \<notin> set es \<longrightarrow> nxt s' a = nxt s a) \<and> set es \<subseteq> dom (nxt s')"
  using assms
proof (induction n arbitrary: p s fs)
  case (Suc n)
  let ?s = "s\<lparr>nxt := (nxt s)(p \<mapsto> tab s t), tab := (tab s)(t := p)\<rparr>"
  have "((nxt s)(p \<mapsto> tab s t)) a = nxt s a" if "a \<in> set fs" for a using that Suc.prems(4) by auto
  then have "linked_free ((nxt s)(p \<mapsto> tab s t)) (tab s t) fs" using Suc.prems(1) linked_free_cong by blast
  then have l: "linked_free (nxt ?s) (tab ?s t) (p # fs)" using Suc.prems(2) by simp
  let ?s' = "memp_link t d n (p + esize d) ?s" and ?es = "map (\<lambda>i. p + esize d + i * esize d) [0..<n]"
  have ih: "linked_free (nxt ?s') (tab ?s' t) (rev ?es @ p # fs) \<and> (\<forall>u. u \<noteq> t \<longrightarrow> tab ?s' u = tab ?s u) \<and>
       (\<forall>a. a \<notin> set ?es \<longrightarrow> nxt ?s' a = nxt ?s a) \<and> set ?es \<subseteq> dom (nxt ?s')"
    by (rule Suc.IH [OF l, unfolded Let_def]) (use Suc.prems in auto)
  have "p \<notin> set ?es" using Suc.prems(3) by auto
  then have "nxt ?s' p = Some (tab s t)" using ih by simp
  then show ?case using ih unfolding Let_def upt_shift memp_link.simps MEMP_SIZE_def by (auto simp: domI)
qed simp

lemma align_pos: "0 < n \<Longrightarrow> 0 < LWIP_MEM_ALIGN_SIZE n"
proof -
  assume "0 < n"
  then have "1 \<le> (n + 3) div 4" by linarith
  then show ?thesis unfolding LWIP_MEM_ALIGN_SIZE_def by linarith
qed

lemma memp_init_pool_ok:
  assumes "pools_apart D"
  shows "let s' = memp_init_pool t (D t) s
    in linked_free (nxt s') (tab s' t) (rev (elements (D t))) \<and> (\<forall>u. u \<noteq> t \<longrightarrow> tab s' u = tab s u) \<and>
       (\<forall>a. a \<notin> set (elements (D t)) \<longrightarrow> nxt s' a = nxt s a) \<and> set (elements (D t)) \<subseteq> dom (nxt s')"
proof -
  have "0 < LWIP_MEM_ALIGN_SIZE (ebase (D t))" "0 < esize (D t)"
    using assms align_pos by (simp_all add: pools_apart_def)
  then show ?thesis
    using memp_link_ok [of "s\<lparr>tab := (tab s)(t := 0)\<rparr>" t "[]" "LWIP_MEM_ALIGN_SIZE (ebase (D t))" "D t" "pnum (D t)"]
    unfolding memp_init_pool_def elements_def Let_def by auto
qed

lemma memp_init_fold:
  assumes "pools_apart D" "distinct ts"
  shows "let s' = fold (\<lambda>t. memp_init_pool t (D t)) ts s
    in (\<forall>t \<in> set ts. linked_free (nxt s') (tab s' t) (rev (elements (D t))) \<and> set (elements (D t)) \<subseteq> dom (nxt s'))"
  using assms(2)
proof (induction ts rule: rev_induct)
  case (snoc t ts)
  let ?s = "fold (\<lambda>t. memp_init_pool t (D t)) ts s"
  let ?s' = "memp_init_pool t (D t) ?s"
  note i = memp_init_pool_ok [OF assms(1), of t ?s, unfolded Let_def]
  have "linked_free (nxt ?s') (tab ?s' u) (rev (elements (D u))) \<and> set (elements (D u)) \<subseteq> dom (nxt ?s')" if u: "u \<in> set ts" for u
  proof -
    have ne: "u \<noteq> t" using u snoc.prems by auto
    then have same: "nxt ?s' a = nxt ?s a" if "a \<in> set (elements (D u))" for a
      using i that assms(1) unfolding pools_apart_def by blast
    then have "linked_free (nxt ?s') (tab ?s' u) (rev (elements (D u)))"
      using linked_free_cong [of "rev (elements (D u))" "nxt ?s'" "nxt ?s" "tab ?s' u"] i ne snoc u by (simp add: Let_def)
    moreover have "set (elements (D u)) \<subseteq> dom (nxt ?s')" using same snoc u by (fastforce simp: Let_def dom_def)
    ultimately show ?thesis ..
  qed
  then show ?case using i by (simp add: Let_def)
qed simp

text \<open>All pools: those of lwIP by \<^verbatim>\<open>memp_init\<close>, that of the driver by \<^verbatim>\<open>LWIP_MEMPOOL_INIT\<close>.\<close>

definition pools_init :: "(pool \<Rightarrow> memp_desc) \<Rightarrow> pools \<Rightarrow> pools" where
  "pools_init D s = memp_init_pool Rx_Pool (D Rx_Pool) (memp_init D s)"

lemma memp_types_all: "t \<in> set memp_types"
  by (cases t) (simp_all add: memp_types_def)

lemma pools_init_fold: "pools_init D s = fold (\<lambda>t. memp_init_pool t (D t)) (map Memp memp_types @ [Rx_Pool]) s"
  by (simp add: pools_init_def memp_init_def fold_map comp_def)

lemma pools_init_rep: "pools_apart D \<Longrightarrow> memp_rep D (pools_init D s) (\<lambda>t. rev (elements (D t)))"
proof -
  assume a: "pools_apart D"
  have all: "t \<in> set (map Memp memp_types @ [Rx_Pool])" for t using memp_types_all by (cases t) auto
  have "distinct (map Memp memp_types @ [Rx_Pool])" by (auto simp: memp_types_def)
  from memp_init_fold [OF a this, of s]
  have "linked_free (nxt (pools_init D s)) (tab (pools_init D s) t) (rev (elements (D t))) \<and> set (elements (D t)) \<subseteq> dom (nxt (pools_init D s))" for t
    unfolding pools_init_fold Let_def using all by blast
  then show ?thesis using elements_distinct a unfolding memp_rep_def pools_apart_def by simp
qed

section \<open>A pool as an allocator\<close>

text \<open>\<open>pool_live D t s L\<close>: the pools are well formed and \<open>L\<close> are the elements of pool \<open>t\<close> in use.\<close>

definition pool_live :: "(pool \<Rightarrow> memp_desc) \<Rightarrow> pool \<Rightarrow> pools \<Rightarrow> nat set \<Rightarrow> bool" where
  "pool_live D t s L \<longleftrightarrow> pools_apart D \<and> (\<exists>f. memp_rep D s f \<and> L = set (elements (D t)) - set (f t))"

lemma pool_malloc_law:
  assumes "pool_live D t s L"
  shows "\<exists>a s'. memp_malloc_pool (Some t) s = Some (a, s') \<and> a \<notin> L \<and> pool_live D t s' (if a = 0 then L else insert a L)"
proof -
  obtain f where f: "pools_apart D" "memp_rep D s f" "L = set (elements (D t)) - set (f t)" using assms by (auto simp: pool_live_def)
  have sub: "distinct (f t)" "set (f t) \<subseteq> set (elements (D t))" using f(2) by (simp_all add: memp_rep_def)
  show ?thesis
  proof (cases "f t")
    case Nil
    have "0 \<notin> L" using f elements_pos [of "D t"] by (auto simp: pools_apart_def)
    then show ?thesis using malloc_pops [OF f(2), of t] Nil assms by simp
  next
    case (Cons e es)
    then obtain s' where s': "memp_malloc_pool (Some t) s = Some (e, s')" "e \<noteq> 0" "memp_rep D s' (f(t := es))"
      using malloc_pops [OF f(2), of t] by auto
    have "insert e L = set (elements (D t)) - set ((f(t := es)) t)" "e \<notin> L" using f(3) sub Cons by auto
    then have "pool_live D t s' (insert e L)" using f(1) s'(3) unfolding pool_live_def by blast
    then show ?thesis using s'(1,2) \<open>e \<notin> L\<close> by simp
  qed
qed

lemma pool_free_law:
  assumes "pool_live D t s L" "a \<in> L"
  shows "\<exists>s'. memp_free_pool (Some t) a s = Some s' \<and> pool_live D t s' (L - {a})"
proof -
  obtain f where f: "pools_apart D" "memp_rep D s f" "L = set (elements (D t)) - set (f t)" using assms(1) by (auto simp: pool_live_def)
  obtain s' where s': "memp_free_pool (Some t) a s = Some s'" "memp_rep D s' (f(t := a # f t))" using free_pushes [OF f(1,2)] assms(2) f(3) by blast
  have "L - {a} = set (elements (D t)) - set ((f(t := a # f t)) t)" using f(3) by auto
  then show ?thesis using f(1) s' unfolding pool_live_def by blast
qed

interpretation pool: allocator "pool_live D t" "\<lambda>_. True" "\<lambda>_ :: unit. memp_malloc_pool (Some t)" "memp_free_pool (Some t)" for D t
  by unfold_locales (use pool_malloc_law pool_free_law in auto)

lemma pool_init_live: "pools_apart D \<Longrightarrow> pool_live D t (pools_init D s) {}"
  using pools_init_rep unfolding pool_live_def by fastforce

lemma pool_malloc_null:
  assumes "pool_live D t s L" "finite L"
  shows "memp_malloc_pool (Some t) s = Some (0, s) \<longleftrightarrow> card L = pnum (D t)" and "card L \<le> pnum (D t)"
proof -
  obtain f where f: "pools_apart D" "memp_rep D s f" "L = set (elements (D t)) - set (f t)" using assms by (auto simp: pool_live_def)
  have sub: "distinct (f t)" "set (f t) \<subseteq> set (elements (D t))" using f(2) by (simp_all add: memp_rep_def)
  have "card (set (elements (D t))) = pnum (D t)" using elements_distinct f(1) by (simp add: distinct_card pools_apart_def) (simp add: elements_def)
  then have c: "card L + length (f t) = pnum (D t)" using sub f(3) card_mono [OF _ sub(2)] by (simp add: card_Diff_subset distinct_card)
  then show "card L \<le> pnum (D t)" by simp
  show "memp_malloc_pool (Some t) s = Some (0, s) \<longleftrightarrow> card L = pnum (D t)"
    using malloc_pops [OF f(2), of t] c by (cases "f t") auto
qed

end
