(* ===== verification/Mem_Properties.thy ===== *)
theory Mem_Properties
  imports Mem_Correct Memp
begin

text \<open>
  What the heap promises to the code above it.
\<close>

section \<open>Allocation and release\<close>

lemma fit_in_use:
  assumes "heap_rep h (xs @ (m, False) # ys)" "s + 8 \<le> m"
  shows "\<exists>sz \<ge> s + 8. off xs + sz \<le> END \<and> 4 dvd off xs \<and>
    set (in_use 0 (xs @ split_block s m @ ys)) = insert (off xs, sz) (set (in_use 0 (xs @ (m, False) # ys))) \<and>
    (\<forall>(a, n) \<in> set (in_use 0 (xs @ (m, False) # ys)). a + n \<le> off xs \<or> off xs + sz \<le> a)"
proof -
  obtain q where q: "seg h 0 0 (xs @ (m, False) # ys) q END" using heap_rep_seg assms(1) by blast
  obtain sz where sz: "s + 8 \<le> sz" "sz \<le> m" "set (in_use 0 (xs @ split_block s m @ ys)) = insert (off xs, sz) (set (in_use 0 (xs @ (m, False) # ys)))"
    using in_use_split [OF assms(2), of 0 xs ys] by auto
  have le: "off xs + m \<le> END" using seg_off [OF q] by simp
  have al: "4 dvd off xs" using q off_aligned by (auto simp: seg_mid)
  have "\<forall>(a, n) \<in> set (in_use 0 (xs @ (m, False) # ys)). a + n \<le> off xs \<or> off xs + sz \<le> a"
    using in_use_range [of _ _ 0 xs] in_use_range [of _ _ "off xs + m" ys] sz(2) by (fastforce simp: in_use_append)
  then show ?thesis using sz le al by (intro exI [of _ sz]) simp
qed

text \<open>
  C30. \<^verbatim>\<open>mem_malloc\<close> of \<open>n\<close> bytes on a heap that represents the list of blocks \<open>bs\<close> takes the first free
  block that is large enough. It returns \<^verbatim>\<open>NULL\<close> and changes nothing exactly if there is none;
  otherwise the result is aligned, the block with at least \<open>n\<close> bytes behind its structure lies inside
  the heap and apart from all blocks in use, and these stay as they were.
\<close>

theorem heap_malloc_first_fit:
  assumes "heap_rep h bs" "0 < n" "n \<le> 65532"
  shows "(mem_malloc_heap n h = Some (0, h) \<and> first_fit (data_size n) bs = None \<and> (\<forall>(m, u) \<in> set bs. u \<or> m < n + 19)) \<or>
    (\<exists>k bs' h' sz. mem_malloc_heap n h = Some (LWIP_RAM_HEAP_POINTER + k + SIZEOF_STRUCT_MEM, h') \<and>
      first_fit (data_size n) bs = Some (k, bs') \<and> heap_rep h' bs' \<and>
      n + SIZEOF_STRUCT_MEM \<le> sz \<and> k + sz \<le> MEM_SIZE_ALIGNED \<and> 4 dvd LWIP_RAM_HEAP_POINTER + k + SIZEOF_STRUCT_MEM \<and>
      set (in_use 0 bs') = insert (k, sz) (set (in_use 0 bs)) \<and>
      (\<forall>(a, m) \<in> set (in_use 0 bs). a + m \<le> k \<or> k + sz \<le> a))"
  using assms
proof (cases rule: malloc_cases)
  case fail
  have "data_size n \<le> n + 11" using assms(2) by (auto simp: data_size_def LWIP_MEM_ALIGN_SIZE_def)
  then show ?thesis using fail first_fit_None [of "data_size n" bs] by fastforce
next
  case (fit xs m ys h')
  obtain sz where "data_size n + 8 \<le> sz" "off xs + sz \<le> END" "4 dvd off xs"
    "set (in_use 0 (xs @ split_block (data_size n) m @ ys)) = insert (off xs, sz) (set (in_use 0 bs))"
    "\<forall>(a, n) \<in> set (in_use 0 bs). a + n \<le> off xs \<or> off xs + sz \<le> a"
    using fit_in_use [OF assms(1) [unfolded fit(1)] fit(2)] unfolding fit(1) by blast
  moreover have "n + 8 \<le> sz" using data_size(3) [of n] calculation(1) by linarith
  moreover have "4 dvd LWIP_RAM_HEAP_POINTER + off xs + SIZEOF_STRUCT_MEM" using calculation(3) by (simp add: LWIP_RAM_HEAP_POINTER_def)
  ultimately show ?thesis using fit(3,4,5) by (intro disjI2) auto
qed

definition fresh_heap :: heap where
  "fresh_heap = mem_init \<lparr>cells = Map.empty, lfree = 0\<rparr>"

lemma fresh_rep: "heap_rep fresh_heap [(END, False)]"
  unfolding fresh_heap_def by (rule init_rep)

theorem heap_malloc_first_fit_witness:
  "\<exists>h'. mem_malloc_heap 100 fresh_heap = Some (0x30044008, h') \<and> heap_rep h' [(108, True), (10132, False)]"
proof -
  have "first_fit (data_size 100) [(END, False)] = Some (0, [(108, True), (10132, False)])"
    by (simp add: data_size_def LWIP_MEM_ALIGN_SIZE_def split_block_def)
  then show ?thesis using heap_malloc_first_fit [OF fresh_rep, of 100] by (auto simp: LWIP_RAM_HEAP_POINTER_def)
qed

text \<open>
  \<^verbatim>\<open>mem_free\<close> and \<^verbatim>\<open>mem_trim\<close> of a block in use never fail. Freeing takes exactly this block out of
  those in use and joins it with free neighbours; trimming to \<open>k\<close> bytes is refused if the block is
  smaller, and otherwise keeps the block where it is, at least \<open>k\<close> bytes long and no longer than it
  was, with all other blocks in use as they were.
\<close>

theorem heap_free_and_trim:
  assumes "heap_rep h (xs @ (n, True) # ys)" "k \<le> 65532"
  defines "r \<equiv> LWIP_RAM_HEAP_POINTER + off xs + SIZEOF_STRUCT_MEM"
  shows "(\<exists>h'. mem_free r h = Some h' \<and> heap_rep h' (free_block xs n ys) \<and>
      set (in_use 0 (free_block xs n ys)) = set (in_use 0 (xs @ (n, True) # ys)) - {(off xs, n)}) \<and>
    (if n < data_size k + 8 then mem_trim r k h = Some (0, h)
     else \<exists>h' bs' m. mem_trim r k h = Some (r, h') \<and> heap_rep h' bs' \<and> k + SIZEOF_STRUCT_MEM \<le> m \<and> m \<le> n \<and>
       in_use 0 bs' = in_use 0 xs @ (off xs, m) # in_use (off xs + n) ys)"
proof
  obtain q where q: "seg h 0 0 (xs @ (n, True) # ys) q END" using heap_rep_seg assms(1) by blast
  have "20 \<le> n" using seg_sizes [OF q, of "(n, True)"] by simp
  then have "(off xs, n) \<notin> set (in_use 0 (xs @ (n, False) # ys))"
    using in_use_range [of "off xs" n 0 xs] in_use_range [of "off xs" n "off xs + n" ys] by (auto simp: in_use_append)
  then have "set (in_use 0 (free_block xs n ys)) = set (in_use 0 (xs @ (n, True) # ys)) - {(off xs, n)}"
    by (auto simp: in_use_free in_use_append)
  then show "\<exists>h'. mem_free r h = Some h' \<and> heap_rep h' (free_block xs n ys) \<and>
      set (in_use 0 (free_block xs n ys)) = set (in_use 0 (xs @ (n, True) # ys)) - {(off xs, n)}"
    using free_ok [OF assms(1)] unfolding r_def by blast
  show "if n < data_size k + 8 then mem_trim r k h = Some (0, h)
     else \<exists>h' bs' m. mem_trim r k h = Some (r, h') \<and> heap_rep h' bs' \<and> k + SIZEOF_STRUCT_MEM \<le> m \<and> m \<le> n \<and>
       in_use 0 bs' = in_use 0 xs @ (off xs, m) # in_use (off xs + n) ys"
  proof (cases "n < data_size k + 8")
    case True
    then show ?thesis using trim_ok [OF assms(1,2)] by (simp add: Let_def r_def)
  next
    case False
    obtain h' where h': "mem_trim r k h = Some (r, h')" "heap_rep h' (xs @ trim_block (data_size k) n ys)"
      using trim_ok [OF assms(1,2)] False unfolding Let_def r_def by auto
    obtain m where m: "data_size k + 8 \<le> m" "m \<le> n"
      "in_use (off xs) (trim_block (data_size k) n ys) = (off xs, m) # in_use (off xs + n) ys"
      using in_use_trim [of "data_size k" n "off xs" ys] False by auto
    have "k + SIZEOF_STRUCT_MEM \<le> m" using m(1) data_size(3) [of k] by simp
    then show ?thesis using False h' m by (auto simp: in_use_append)
  qed
qed

lemma lone_block_rep: "heap_rep fresh_heap [(END, False)] \<Longrightarrow> \<exists>h. heap_rep h [(108, True), (10132, False)]"
  using malloc_first_fit [of fresh_heap "[(END, False)]" 100]
  by (auto simp: data_size_def LWIP_MEM_ALIGN_SIZE_def split_block_def)

theorem heap_free_and_trim_witness:
  "\<exists>h h'. heap_rep h [(108, True), (10132, False)] \<and> mem_free 0x30044008 h = Some h' \<and> heap_rep h' [(10240, False)]"
proof -
  obtain h where h: "heap_rep h [(108, True), (10132, False)]" using lone_block_rep fresh_rep by blast
  then show ?thesis using heap_free_and_trim [of h "[]" 108 "[(10132, False)]" 50]
    by (auto simp: free_block_def join_next_def join_prev_def LWIP_RAM_HEAP_POINTER_def)
qed

text \<open>
  A block that was allocated and is freed right away leaves a heap with the same blocks as before.
\<close>

theorem heap_malloc_free_roundtrip:
  assumes "heap_rep h bs" "n \<le> 65532" "mem_malloc_heap n h = Some (r, h')"
  shows "\<exists>h''. mem_free r h' = Some h'' \<and> heap_rep h'' bs"
proof (cases "n = 0")
  case True
  then show ?thesis using assms by (auto simp: mem_malloc_heap_def mem_free_def)
next
  case False
  then have "0 < n" by simp
  from assms(1) this assms(2) show ?thesis
  proof (cases rule: malloc_cases)
    case fail
    then show ?thesis using assms(1,3) by (simp add: mem_free_def)
  next
    case (fit xs m ys h1)
    have "packed (xs @ (m, False) # ys)" using assms(1) fit(1) by (simp add: heap_rep_def)
    from free_split [OF this fit(2)] obtain j zs where j: "split_block (data_size n) m @ ys = (j, True) # zs" "free_block xs j zs = bs"
      unfolding fit(1) by blast
    have "heap_rep h' (xs @ (j, True) # zs)" "r = LWIP_RAM_HEAP_POINTER + off xs + SIZEOF_STRUCT_MEM"
      using fit(4,5) assms(3) unfolding j(1) by auto
    then show ?thesis using free_ok [of h' xs j zs] j(2) by simp
  qed
qed

theorem heap_malloc_free_roundtrip_witness:
  "\<exists>r h' h''. mem_malloc_heap 100 fresh_heap = Some (r, h') \<and> mem_free r h' = Some h'' \<and> heap_rep h'' [(10240, False)]"
proof -
  obtain r h' where "mem_malloc_heap 100 fresh_heap = Some (r, h')" using malloc_rep [OF fresh_rep, of 100] by auto
  then show ?thesis using heap_malloc_free_roundtrip [OF fresh_rep, of 100 r h'] by simp
qed

text \<open>
  C31. Starting from \<^verbatim>\<open>mem_init\<close>, after any sequence of allocations, releases and trims of blocks
  in use, the heap is well formed: its structures describe a gap-free list of blocks that fills the
  heap, no two neighbours are free, \<^verbatim>\<open>lfree\<close> is the lowest free block, and the blocks in use are exactly
  those the clients hold. No further sequence of calls gets stuck or hands out a block twice, and once
  all blocks are given back the heap is one free block again.
\<close>

theorem heap_runs_well_formed:
  assumes "heap_run h0 h L"
  shows "(\<exists>bs. heap_rep h bs \<and> held bs = L \<and> (L = {} \<longrightarrow> bs = [(MEM_SIZE_ALIGNED, False)])) \<and>
    (\<forall>as cs. distinct as \<and> set as = L \<and> requests_ok (\<lambda>n. n \<le> 65532) cs \<longrightarrow>
      (\<exists>as' h' h''. calls mem_malloc_heap mem_free cs as h = Some (as', h') \<and> distinct as' \<and>
        calls mem_malloc_heap mem_free (map (\<lambda>_. Release 0) as') as' h' = Some ([], h'') \<and> heap_rep h'' [(MEM_SIZE_ALIGNED, False)]))"
proof (intro conjI allI impI)
  obtain bs where bs: "heap_rep h bs" "held bs = L" using heap_run_rep [OF assms] by blast
  then show "\<exists>bs. heap_rep h bs \<and> held bs = L \<and> (L = {} \<longrightarrow> bs = [(MEM_SIZE_ALIGNED, False)])"
    using none_held by blast
  fix as cs assume a: "distinct as \<and> set as = L \<and> requests_ok (\<lambda>n. n \<le> (65532 :: nat)) cs"
  then have "live h (set as)" using bs by (auto simp: live_def)
  from ram.calls_succeed [OF this] a obtain as' h' where s: "calls mem_malloc_heap mem_free cs as h = Some (as', h')" "distinct as'" "live h' (set as')"
    by blast
  from ram.release_all [OF s(3,2)] obtain h'' where r: "calls mem_malloc_heap mem_free (map (\<lambda>_. Release 0) as') as' h' = Some ([], h'')" "live h'' {}"
    by blast
  then have "heap_rep h'' [(MEM_SIZE_ALIGNED, False)]" using none_held unfolding live_def by metis
  then show "\<exists>as' h' h''. calls mem_malloc_heap mem_free cs as h = Some (as', h') \<and> distinct as' \<and>
      calls mem_malloc_heap mem_free (map (\<lambda>_. Release 0) as') as' h' = Some ([], h'') \<and> heap_rep h'' [(MEM_SIZE_ALIGNED, False)]"
    using s r by blast
qed

theorem heap_runs_well_formed_witness:
  "\<exists>as' h' h''. calls mem_malloc_heap mem_free [Alloc 100, Alloc 1500, Release 1, Alloc 9000] [] fresh_heap = Some (as', h') \<and> distinct as' \<and>
     calls mem_malloc_heap mem_free (map (\<lambda>_. Release 0) as') as' h' = Some ([], h'') \<and> heap_rep h'' [(MEM_SIZE_ALIGNED, False)]"
proof -
  have "heap_run \<lparr>cells = Map.empty, lfree = 0\<rparr> fresh_heap {}" unfolding fresh_heap_def by (rule heap_run.init)
  from conjunct2 [OF heap_runs_well_formed [OF this], rule_format, of "[]" "[Alloc 100, Alloc 1500, Release 1, Alloc 9000]"]
  show ?thesis by simp
qed

text \<open>
  Requests close to the largest \<^verbatim>\<open>mem_size_t\<close> wrap around when they are aligned, and \<^verbatim>\<open>mem_malloc\<close> serves
  them with a block of 12 bytes. \<^verbatim>\<open>mem_calloc\<close> truncates the product to 16 bits for the allocation and not
  for clearing: 257 objects of 256 bytes get the block of 256 bytes and 65792 bytes are cleared, more
  than the heap is long.
\<close>

theorem heap_size_wraps:
  "mem_malloc_heap 65533 h = mem_malloc_heap 12 h \<and> mem_malloc_heap 65534 h = mem_malloc_heap 12 h \<and>
   mem_malloc_heap 65535 h = mem_malloc_heap 12 h \<and>
   mem_calloc 257 256 h = map_option (\<lambda>(p, h). (p, if p \<noteq> 0 then 65792 else 0, h)) (mem_malloc_heap 256 h) \<and> MEM_SIZE_ALIGNED < 65792"
proof -
  have "(257 :: nat) * 256 = 65792" by simp
  note p = this
  show ?thesis unfolding mem_calloc_def p by (simp add: mem_malloc_heap_def wrap16_def LWIP_MEM_ALIGN_SIZE_def)
qed

section \<open>Pools\<close>

text \<open>
  C32. The pools of lwIP, kept by pointers inside their free elements, are one free list per pool:
  after \<^verbatim>\<open>memp_init\<close> every element is free, \<^verbatim>\<open>memp_malloc\<close> takes the first element of the list or returns
  \<^verbatim>\<open>NULL\<close> if there is none, \<^verbatim>\<open>memp_free\<close> puts an element in use in front, and no call on one pool
  disturbs another. What clients write into elements in use does no harm.
\<close>

theorem memp_refines_free_lists:
  assumes "pools_apart D"
  shows "memp_rep D (pools_init D s0) (\<lambda>t. rev (elements (D t))) \<and>
    (\<forall>t. memp_malloc t = memp_malloc_pool (Some (Memp t)) \<and> memp_free t = memp_free_pool (Some (Memp t))) \<and>
    (\<forall>s f t. memp_rep D s f \<longrightarrow>
      (case f t of [] \<Rightarrow> memp_malloc_pool (Some t) s = Some (0, s)
       | e # es \<Rightarrow> \<exists>s'. memp_malloc_pool (Some t) s = Some (e, s') \<and> e \<noteq> 0 \<and> memp_rep D s' (f(t := es))) \<and>
      (\<forall>e \<in> set (elements (D t)) - set (f t). \<exists>s'. memp_free_pool (Some t) e s = Some s' \<and> memp_rep D s' (f(t := e # f t))) \<and>
      (\<forall>m. dom m = dom (nxt s) \<and> (\<forall>u. \<forall>a \<in> set (f u). m a = nxt s a) \<longrightarrow> memp_rep D (s\<lparr>nxt := m\<rparr>) f))"
proof (intro conjI allI impI)
  show "memp_rep D (pools_init D s0) (\<lambda>t. rev (elements (D t)))" by (rule pools_init_rep [OF assms])
  show "memp_malloc t = memp_malloc_pool (Some (Memp t))" "memp_free t = memp_free_pool (Some (Memp t))" for t by (simp_all add: memp_by_pool)
  fix s f t assume r: "memp_rep D s f"
  show "case f t of [] \<Rightarrow> memp_malloc_pool (Some t) s = Some (0, s)
       | e # es \<Rightarrow> \<exists>s'. memp_malloc_pool (Some t) s = Some (e, s') \<and> e \<noteq> 0 \<and> memp_rep D s' (f(t := es))" by (rule malloc_pops [OF r])
  show "\<forall>e \<in> set (elements (D t)) - set (f t). \<exists>s'. memp_free_pool (Some t) e s = Some s' \<and> memp_rep D s' (f(t := e # f t))"
    using free_pushes [OF assms r] by blast
  fix m assume m: "dom m = dom (nxt s) \<and> (\<forall>u. \<forall>a \<in> set (f u). m a = nxt s a)"
  then have "linked_free m p (f u) = linked_free (nxt s) p (f u)" for p u using linked_free_cong [of "f u" m "nxt s" p] by blast
  then show "memp_rep D (s\<lparr>nxt := m\<rparr>) f" using r m unfolding memp_rep_def by simp
qed

definition demo_pools :: "pool \<Rightarrow> memp_desc" where
  "demo_pools = LWIP_MEMPOOL_DECLARE (\<lambda>_. 100)
     (\<lambda>p. case p of Rx_Pool \<Rightarrow> 40000
       | Memp t \<Rightarrow> case t of MEMP_UDP_PCB \<Rightarrow> 4000 | MEMP_TCP_PCB \<Rightarrow> 8000 | MEMP_TCP_PCB_LISTEN \<Rightarrow> 12000 | MEMP_TCP_SEG \<Rightarrow> 16000
         | MEMP_REASSDATA \<Rightarrow> 20000 | MEMP_FRAG_PBUF \<Rightarrow> 24000 | MEMP_SYS_TIMEOUT \<Rightarrow> 28000 | MEMP_PBUF_t \<Rightarrow> 32000 | MEMP_PBUF_POOL_t \<Rightarrow> 36000)"

lemma pool_cases:
  obtains "p = Rx_Pool" | "p = Memp MEMP_UDP_PCB" | "p = Memp MEMP_TCP_PCB" | "p = Memp MEMP_TCP_PCB_LISTEN" | "p = Memp MEMP_TCP_SEG"
  | "p = Memp MEMP_REASSDATA" | "p = Memp MEMP_FRAG_PBUF" | "p = Memp MEMP_SYS_TIMEOUT" | "p = Memp MEMP_PBUF_t" | "p = Memp MEMP_PBUF_POOL_t"
  by (cases p) (metis memp_t.exhaust, blast)

lemma demo_pools_apart: "pools_apart demo_pools"
proof -
  have e: "a \<in> set (elements (demo_pools t)) \<Longrightarrow> ebase (demo_pools t) \<le> a \<and> a < ebase (demo_pools t) + 4000" for a t
    by (cases t rule: pool_cases) (auto simp: elements_def demo_pools_def LWIP_MEMPOOL_DECLARE_def LWIP_MEM_ALIGN_SIZE_def)
  have "ebase (demo_pools t) + 4000 \<le> ebase (demo_pools u) \<or> ebase (demo_pools u) + 4000 \<le> ebase (demo_pools t)" if "t \<noteq> u" for t u
    using that by (cases t rule: pool_cases; cases u rule: pool_cases) (simp_all add: demo_pools_def LWIP_MEMPOOL_DECLARE_def)
  moreover have "0 < ebase (demo_pools t) \<and> 0 < esize (demo_pools t)" for t
    by (cases t rule: pool_cases) (simp_all add: demo_pools_def LWIP_MEMPOOL_DECLARE_def LWIP_MEM_ALIGN_SIZE_def)
  ultimately show ?thesis using e unfolding pools_apart_def by (meson disjoint_iff leD less_le_trans order_trans)
qed

theorem memp_refines_free_lists_witness:
  "memp_rep demo_pools (pools_init demo_pools \<lparr>tab = \<lambda>_. 0, nxt = Map.empty\<rparr>) (\<lambda>t. rev (elements (demo_pools t))) \<and>
   elements (demo_pools (Memp MEMP_PBUF_POOL_t)) = [36000, 36100, 36200, 36300]"
  using memp_refines_free_lists [OF demo_pools_apart, THEN conjunct1]
  by (simp add: elements_def demo_pools_def LWIP_MEMPOOL_DECLARE_def LWIP_MEM_ALIGN_SIZE_def upt_rec)

text \<open>
  From \<^verbatim>\<open>memp_init\<close> on, whatever sequence of calls the users of a pool make, no call gets stuck and
  no element is handed out twice; at most the configured number of elements is in use, and
  \<^verbatim>\<open>memp_malloc\<close> returns \<^verbatim>\<open>NULL\<close> exactly when all of them are.
\<close>

theorem pool_exhausted_exactly:
  assumes "pools_apart (LWIP_MEMPOOL_DECLARE sz at)"
  shows "\<exists>as s. calls (\<lambda>_ :: unit. memp_malloc_pool (Some t)) (memp_free_pool (Some t)) cs [] (pools_init (LWIP_MEMPOOL_DECLARE sz at) s0) = Some (as, s) \<and> distinct as \<and>
    set as \<subseteq> set (elements (LWIP_MEMPOOL_DECLARE sz at t)) \<and> length as \<le> memp_num t \<and> (memp_malloc_pool (Some t) s = Some (0, s) \<longleftrightarrow> length as = memp_num t)"
proof -
  have "requests_ok (\<lambda>_. True) cs" by (auto simp: requests_ok_def split: call.split)
  then obtain as s where s: "calls (\<lambda>_ :: unit. memp_malloc_pool (Some t)) (memp_free_pool (Some t)) cs [] (pools_init (LWIP_MEMPOOL_DECLARE sz at) s0) = Some (as, s)"
    "distinct as" "pool_live (LWIP_MEMPOOL_DECLARE sz at) t s (set as)"
    using pool.calls_succeed [of "LWIP_MEMPOOL_DECLARE sz at" t _ "[]" cs] pool_init_live [OF assms] by fastforce
  have "set as \<subseteq> set (elements (LWIP_MEMPOOL_DECLARE sz at t))" using s(3) by (auto simp: pool_live_def)
  then show ?thesis using s pool_malloc_null [OF s(3)] by (auto simp: distinct_card LWIP_MEMPOOL_DECLARE_def)
qed

theorem pool_exhausted_exactly_witness:
  "\<exists>as s. calls (\<lambda>_ :: unit. memp_malloc_pool (Some (Memp MEMP_PBUF_POOL_t))) (memp_free_pool (Some (Memp MEMP_PBUF_POOL_t))) (replicate 5 (Alloc ())) []
     (pools_init demo_pools \<lparr>tab = \<lambda>_. 0, nxt = Map.empty\<rparr>) = Some (as, s) \<and> distinct as \<and> length as \<le> 4"
  using pool_exhausted_exactly [OF demo_pools_apart [unfolded demo_pools_def], of "Memp MEMP_PBUF_POOL_t"]
  unfolding demo_pools_def by fastforce

end
