(* ===== verification/Ip4_Addr.thy ===== *)
theory Ip4_Addr
  imports Ethernetif
begin

text \<open>
  \<^verbatim>\<open>src/STM32/Bootloader/User/lwip-2.0.3/src/core/ipv4/ip4_addr.c\<close>: tests on IPv4 addresses and their dotted notation. An address
  is a 32-bit word in network order, as the little-endian core loads it. A string is the list of its bytes;
  reading past the end gives the terminator.
\<close>

unbundle bit_operations_syntax

definition lwip_htonl :: "u32 \<Rightarrow> u32" where
  "lwip_htonl n = push_bit 24 (n AND 0xff) OR push_bit 8 (n AND 0xff00) OR drop_bit 8 (n AND 0xff0000) OR drop_bit 24 (n AND 0xff000000)"

definition IPADDR_ANY :: u32 where "IPADDR_ANY = 0"
definition IPADDR_BROADCAST :: u32 where "IPADDR_BROADCAST = 0xffffffff"
definition IPADDR_NONE :: u32 where "IPADDR_NONE = 0xffffffff"
definition IP4ADDR_STRLEN_MAX :: nat where "IP4ADDR_STRLEN_MAX = 16"

definition netif_ip4_addr :: "netif \<Rightarrow> u32" where "netif_ip4_addr nif = le32 (fst (ip_config nif))"
definition netif_ip4_netmask :: "netif \<Rightarrow> u32" where "netif_ip4_netmask nif = le32 (fst (snd (ip_config nif)))"
definition netif_ip4_gw :: "netif \<Rightarrow> u32" where "netif_ip4_gw nif = le32 (snd (snd (ip_config nif)))"

definition ip4_addr_netcmp :: "u32 \<Rightarrow> u32 \<Rightarrow> u32 \<Rightarrow> bool" where
  "ip4_addr_netcmp a b m \<longleftrightarrow> a AND m = b AND m"

definition ip4_addr_isany :: "u32 \<Rightarrow> bool" where "ip4_addr_isany a \<longleftrightarrow> a = IPADDR_ANY"

definition ip4_addr_ismulticast :: "u32 \<Rightarrow> bool" where
  "ip4_addr_ismulticast a \<longleftrightarrow> a AND lwip_htonl 0xf0000000 = lwip_htonl 0xe0000000"

definition ip4_addr_islinklocal :: "u32 \<Rightarrow> bool" where
  "ip4_addr_islinklocal a \<longleftrightarrow> a AND lwip_htonl 0xffff0000 = lwip_htonl 0xa9fe0000"

definition ip4_addr_isbroadcast :: "u32 \<Rightarrow> netif \<Rightarrow> bool" where
  "ip4_addr_isbroadcast a nif =
     (if NOT a = IPADDR_ANY \<or> a = IPADDR_ANY then True
      else if \<not> flag_broadcast nif then False
      else if a = netif_ip4_addr nif then False
      else if ip4_addr_netcmp a (netif_ip4_addr nif) (netif_ip4_netmask nif) \<and>
              a AND NOT (netif_ip4_netmask nif) = IPADDR_BROADCAST AND NOT (netif_ip4_netmask nif) then True
      else False)"

section \<open>Netmasks\<close>

lemma shift_decreases: "(m :: u32) \<noteq> 0 \<Longrightarrow> unat (drop_bit 1 m) < unat m"
  by (simp add: drop_bit_eq_div unat_div unat_gt_0)

function first_zero :: "u32 \<Rightarrow> u32 \<Rightarrow> u32" where
  "first_zero nm m = (if m = 0 then m else if nm AND m = 0 then m else first_zero nm (drop_bit 1 m))"
  by pat_completeness auto
termination
  by (relation "measure (\<lambda>(nm, m). unat m)") (auto simp: shift_decreases simp del: One_nat_def)

function no_more_ones :: "u32 \<Rightarrow> u32 \<Rightarrow> bool" where
  "no_more_ones nm m = (if m = 0 then True else if nm AND m \<noteq> 0 then False else no_more_ones nm (drop_bit 1 m))"
  by pat_completeness auto
termination
  by (relation "measure (\<lambda>(nm, m). unat m)") (auto simp: shift_decreases simp del: One_nat_def)

declare first_zero.simps [simp del] no_more_ones.simps [simp del]

definition ip4_addr_netmask_valid :: "u32 \<Rightarrow> bool" where
  "ip4_addr_netmask_valid netmask = (let nm = lwip_htonl netmask in no_more_ones nm (first_zero nm (push_bit 31 1)))"

section \<open>Dotted notation\<close>

definition in_range :: "u8 \<Rightarrow> u8 \<Rightarrow> u8 \<Rightarrow> bool" where "in_range c lo up \<longleftrightarrow> lo \<le> c \<and> c \<le> up"
definition isdigit :: "u8 \<Rightarrow> bool" where "isdigit c \<longleftrightarrow> in_range c 48 57"
definition isxdigit :: "u8 \<Rightarrow> bool" where "isxdigit c \<longleftrightarrow> isdigit c \<or> in_range c 97 102 \<or> in_range c 65 70"
definition islower :: "u8 \<Rightarrow> bool" where "islower c \<longleftrightarrow> in_range c 97 122"
definition isspace :: "u8 \<Rightarrow> bool" where "isspace c \<longleftrightarrow> c \<in> {32, 12, 10, 13, 9, 11}"

fun char_at :: "u8 list \<Rightarrow> u8" where
  "char_at [] = 0"
| "char_at (c # cs) = c"

fun aton_digits :: "u32 \<Rightarrow> u32 \<Rightarrow> u8 list \<Rightarrow> u32 \<times> u8 list" where
  "aton_digits val base [] = (val, [])"
| "aton_digits val base (c # cs) =
     (if isdigit c then aton_digits (val * base + (ucast c - 48)) base cs
      else if base = 16 \<and> isxdigit c then aton_digits (push_bit 4 val OR (ucast c + 10 - (if islower c then 97 else 65))) base cs
      else (val, c # cs))"

definition aton_number :: "u8 list \<Rightarrow> (u32 \<times> u8 list) option" where
  "aton_number cs =
     (if \<not> isdigit (char_at cs) then None
      else if char_at cs = 48 then
        (let cs = tl cs
         in if char_at cs = 120 \<or> char_at cs = 88 then Some (aton_digits 0 16 (tl cs)) else Some (aton_digits 0 8 cs))
      else Some (aton_digits 0 10 cs))"

text \<open>The numbers before the last, the last, and the rest of the string; fails at a fourth dot.\<close>

fun aton_parts :: "nat \<Rightarrow> u8 list \<Rightarrow> (u32 list \<times> u32 \<times> u8 list) option" where
  "aton_parts n cs =
     (case aton_number cs of None \<Rightarrow> None
      | Some (val, cs) \<Rightarrow>
          if char_at cs = 46 then
            (if n = 0 then None else map_option (\<lambda>(ps, v, r). (val # ps, v, r)) (aton_parts (n - 1) (tl cs)))
          else Some ([], val, cs))"

declare aton_parts.simps [simp del]

definition ip4addr_aton :: "u8 list \<Rightarrow> u32 option" where
  "ip4addr_aton cp =
     (case aton_parts 3 cp of None \<Rightarrow> None
      | Some (parts, val, cs) \<Rightarrow>
          if char_at cs \<noteq> 0 \<and> \<not> isspace (char_at cs) then None
          else map_option lwip_htonl
            (case parts of
               [] \<Rightarrow> Some val
             | [a] \<Rightarrow> if 0xffffff < val \<or> 0xff < a then None else Some (val OR push_bit 24 a)
             | [a, b] \<Rightarrow> if 0xffff < val \<or> 0xff < a \<or> 0xff < b then None else Some (val OR (push_bit 24 a OR push_bit 16 b))
             | [a, b, c] \<Rightarrow> if 0xff < val \<or> 0xff < a \<or> 0xff < b \<or> 0xff < c then None
                 else Some (val OR (push_bit 24 a OR push_bit 16 b OR push_bit 8 c))
             | _ \<Rightarrow> Some val))"

definition ipaddr_addr :: "u8 list \<Rightarrow> u32" where
  "ipaddr_addr cp = (case ip4addr_aton cp of Some a \<Rightarrow> a | None \<Rightarrow> IPADDR_NONE)"

text \<open>The digits of a byte, the last first.\<close>

function ntoa_digits :: "u8 \<Rightarrow> u8 list" where
  "ntoa_digits a = (48 + a mod 10) # (if a div 10 = 0 then [] else ntoa_digits (a div 10))"
  by pat_completeness auto
termination
proof (relation "measure unat")
  fix a :: u8 assume "a div 10 \<noteq> 0"
  then have "0 < unat a" by (auto simp: unat_gt_0)
  then show "(a div 10, a) \<in> measure unat" by (simp add: unat_div)
qed auto

declare ntoa_digits.simps [simp del]

definition put_char :: "nat \<Rightarrow> u8 \<Rightarrow> u8 list \<Rightarrow> u8 list option" where
  "put_char buflen c buf = (if buflen \<le> length buf then None else Some (buf @ [c]))"

fun put_chars :: "nat \<Rightarrow> u8 list \<Rightarrow> u8 list \<Rightarrow> u8 list option" where
  "put_chars buflen [] buf = Some buf"
| "put_chars buflen (c # cs) buf = (case put_char buflen c buf of None \<Rightarrow> None | Some buf \<Rightarrow> put_chars buflen cs buf)"

fun ntoa_loop :: "nat \<Rightarrow> u8 list \<Rightarrow> u8 list \<Rightarrow> u8 list option" where
  "ntoa_loop buflen [] buf = Some buf"
| "ntoa_loop buflen (a # as) buf =
     (case put_chars buflen (rev (ntoa_digits a)) buf of None \<Rightarrow> None
      | Some buf \<Rightarrow> case put_char buflen 46 buf of None \<Rightarrow> None | Some buf \<Rightarrow> ntoa_loop buflen as buf)"

text \<open>The terminator replaces the last dot; \<open>None\<close> is \<^verbatim>\<open>NULL\<close>.\<close>

definition ip4addr_ntoa_r :: "u32 \<Rightarrow> nat \<Rightarrow> u8 list option" where
  "ip4addr_ntoa_r addr buflen = map_option butlast (ntoa_loop buflen (le32_bytes addr) [])"

definition ip4addr_ntoa :: "u32 \<Rightarrow> u8 list option" where
  "ip4addr_ntoa addr = ip4addr_ntoa_r addr IP4ADDR_STRLEN_MAX"

section \<open>Valid netmasks\<close>

lemma and_bit: "(nm :: u32) AND push_bit i 1 = 0 \<longleftrightarrow> \<not> bit nm i" if "i < 32"
  using that by (auto simp: and_exp_eq_0_iff_not_bit push_bit_eq_mult)

lemma next_mask: "drop_bit 1 (push_bit (Suc i) 1) = (push_bit i 1 :: u32)" if "Suc i < 32"
  using that by (intro bit_word_eqI) (auto simp: bit_simps)

lemma last_mask: "drop_bit 1 (push_bit 0 1) = (0 :: u32)"
  by simp

lemma mask_nonzero: "i < 32 \<Longrightarrow> push_bit i 1 \<noteq> (0 :: u32)"
  by (simp add: push_bit_eq_mult)

lemma no_more_ones_iff: "i < 32 \<Longrightarrow> no_more_ones nm (push_bit i 1) \<longleftrightarrow> (\<forall>j \<le> i. \<not> bit nm j)"
proof (induction i)
  case 0
  show ?case using and_bit [of 0 nm] by (subst no_more_ones.simps) (simp add: no_more_ones.simps [of nm 0] last_mask)
next
  case (Suc i)
  have "no_more_ones nm (push_bit (Suc i) 1) \<longleftrightarrow> \<not> bit nm (Suc i) \<and> no_more_ones nm (push_bit i 1)"
    using and_bit [of "Suc i" nm] mask_nonzero [of "Suc i"] next_mask [of i] Suc.prems by (subst no_more_ones.simps) simp
  then show ?case using Suc by (auto simp: le_Suc_eq)
qed

lemma first_zero_ones: "i < 32 \<Longrightarrow> \<forall>j \<le> i. bit nm j \<Longrightarrow> first_zero nm (push_bit i 1) = 0"
proof (induction i)
  case 0
  then show ?case using and_bit [of 0 nm] by (subst first_zero.simps) (simp add: first_zero.simps [of nm 0] last_mask)
next
  case (Suc i)
  then show ?case using and_bit [of "Suc i" nm] mask_nonzero [of "Suc i"] next_mask [of i] by (subst first_zero.simps) simp
qed

lemma first_zero_at: "i < 32 \<Longrightarrow> j \<le> i \<Longrightarrow> \<not> bit nm j \<Longrightarrow> \<forall>l. j < l \<and> l \<le> i \<longrightarrow> bit nm l \<Longrightarrow> first_zero nm (push_bit i 1) = push_bit j 1"
proof (induction i)
  case 0
  then show ?case using and_bit [of 0 nm] by (subst first_zero.simps) simp
next
  case (Suc i)
  show ?case
  proof (cases "j = Suc i")
    case True
    then show ?thesis using Suc.prems and_bit [of "Suc i" nm] by (subst first_zero.simps) simp
  next
    case False
    then have "bit nm (Suc i)" using Suc.prems by simp
    then have "first_zero nm (push_bit (Suc i) 1) = first_zero nm (push_bit i 1)"
      using Suc.prems and_bit [of "Suc i" nm] mask_nonzero [of "Suc i"] next_mask [of i] by (subst first_zero.simps) simp
    then show ?thesis using Suc False by simp
  qed
qed

lemma netmask_bits:
  "no_more_ones nm (first_zero nm (push_bit 31 1)) \<longleftrightarrow> (\<exists>k \<le> 32. \<forall>i < 32. bit nm i = (k \<le> i))" (is "?l \<longleftrightarrow> ?r")
proof (cases "\<forall>j \<le> 31. bit nm j")
  case True
  then have ?l using first_zero_ones [of 31 nm] by (simp add: no_more_ones.simps [of nm 0])
  moreover have ?r using True by (intro exI [of _ 0]) (simp add: less_Suc_eq_le)
  ultimately show ?thesis by simp
next
  case False
  let ?P = "\<lambda>j. j \<le> 31 \<and> \<not> bit nm j"
  define j where "j = Greatest ?P"
  obtain x where "?P x" using False by blast
  then have j1: "?P j" unfolding j_def by (rule GreatestI_nat [of ?P x 31]) simp
  have j2: "l \<le> j" if "?P l" for l unfolding j_def by (rule Greatest_le_nat [of ?P l 31, OF that]) simp
  note j = j1 j2
  have "first_zero nm (push_bit 31 1) = push_bit j 1" using first_zero_at [of 31 j nm] j by force
  then have l: "?l \<longleftrightarrow> (\<forall>i \<le> j. \<not> bit nm i)" using no_more_ones_iff j(1) by simp
  have above: "bit nm i" if "j < i" "i < 32" for i using j(2) [of i] that by force
  show ?thesis
  proof
    assume ?l
    then have "\<forall>i < 32. bit nm i = (Suc j \<le> i)" using l above by (meson Suc_le_eq not_less)
    then show ?r using j(1) by (intro exI [of _ "Suc j"]) simp
  next
    assume ?r
    then obtain k where k: "k \<le> 32" "\<forall>i < 32. bit nm i = (k \<le> i)" by blast
    have "j < 32" using j(1) by simp
    then have "j < k" using j(1) k(2) not_le by blast
    then show ?l using l k j(1) by force
  qed
qed

section \<open>Printing and reading back\<close>

definition dec :: "u8 \<Rightarrow> u8 list" where "dec a = rev (ntoa_digits a)"

definition dec_value :: "u8 list \<Rightarrow> u32" where "dec_value ds = fold (\<lambda>c v. v * 10 + (ucast c - 48)) ds 0"

definition dec_ok :: "u8 \<Rightarrow> bool" where
  "dec_ok a \<longleftrightarrow> list_all isdigit (dec a) \<and> dec a \<noteq> [] \<and> length (dec a) \<le> 3 \<and> dec_value (dec a) = ucast a \<and> (hd (dec a) = 48 \<longrightarrow> dec a = [48])"

definition digit :: "nat \<Rightarrow> u8" where "digit k = word_of_nat (48 + k)"

lemma unat_small [simp]: "k < 256 \<Longrightarrow> unat (word_of_nat k :: u8) = k"
  by (simp add: unsigned_of_nat take_bit_nat_eq_self)

lemma ucast_by_nat: "(ucast (x :: u8) :: u32) = word_of_nat (unat x)"
  by simp

lemma digit_props: "k < 10 \<Longrightarrow> isdigit (digit k)" "k < 10 \<Longrightarrow> ucast (digit k) - 48 = (word_of_nat k :: u32)" "k < 10 \<Longrightarrow> digit k = 48 \<longleftrightarrow> k = 0"
proof -
  assume k: "k < 10"
  then have u: "unat (digit k) = 48 + k" by (simp add: digit_def del: of_nat_add)
  then show "isdigit (digit k)" using k by (simp add: isdigit_def in_range_def word_le_nat_alt)
  have "(ucast (digit k) :: u32) = word_of_nat (48 + k)" unfolding ucast_by_nat u ..
  then show "ucast (digit k) - 48 = (word_of_nat k :: u32)" by simp
  show "digit k = 48 \<longleftrightarrow> k = 0" using u by (auto simp: word_unat_eq_iff)
qed

lemma ntoa_digits_nat:
  assumes "n < 256"
  shows "ntoa_digits (word_of_nat n) = digit (n mod 10) # (if n < 10 then [] else ntoa_digits (word_of_nat (n div 10)))"
proof -
  have "(word_of_nat n :: u8) div 10 = word_of_nat (n div 10)" "(word_of_nat n :: u8) mod 10 = word_of_nat (n mod 10)"
    using assms by (simp_all add: word_unat_eq_iff unat_div unat_mod del: word_of_nat_eq_iff)
  moreover have "word_of_nat (n div 10) = (0 :: u8) \<longleftrightarrow> n < 10"
    using assms unat_small [of "n div 10"] by (auto simp: word_unat_eq_iff simp del: unat_small)
  ultimately show ?thesis by (subst ntoa_digits.simps) (simp add: digit_def)
qed

lemma dec_okI: "dec_ok a"
proof -
  define n where "n = unat a"
  have n: "n < 256" "a = word_of_nat n" using unsigned_less [of a] by (simp_all add: n_def)
  have ua: "ucast a = (word_of_nat n :: u32)" by (simp add: n_def)
  consider "n < 10" | "10 \<le> n" "n < 100" | "100 \<le> n" by linarith
  then show ?thesis
  proof cases
    case 1
    then have "dec a = [digit n]" by (simp add: dec_def n(2) ntoa_digits_nat)
    then show ?thesis using digit_props [OF 1] ua by (auto simp: dec_ok_def dec_value_def)
  next
    case 2
    let ?x = "n div 10" and ?y = "n mod 10"
    have b: "?x < 10" "?y < 10" "?x \<noteq> 0" using 2 by auto
    have "dec a = [digit ?x, digit ?y]" using 2 n b by (simp add: dec_def n(2) ntoa_digits_nat)
    moreover have "word_of_nat (?x * 10 + ?y) = (word_of_nat ?x * 10 + word_of_nat ?y :: u32)" by (simp only: of_nat_add of_nat_mult of_nat_numeral)
    then have "word_of_nat ?x * 10 + word_of_nat ?y = (word_of_nat n :: u32)" unfolding div_mult_mod_eq by (rule sym)
    ultimately show ?thesis using digit_props [OF b(1)] digit_props [OF b(2)] b(3) ua by (simp add: dec_ok_def dec_value_def)
  next
    case 3
    let ?x = "n div 10 div 10" and ?y = "n div 10 mod 10" and ?z = "n mod 10"
    have b: "?x < 10" "?y < 10" "?z < 10" "?x \<noteq> 0" using 3 n by auto
    have "dec a = [digit ?x, digit ?y, digit ?z]" using 3 n b by (simp add: dec_def n(2) ntoa_digits_nat)
    moreover have "word_of_nat ((?x * 10 + ?y) * 10 + ?z) = ((word_of_nat ?x * 10 + word_of_nat ?y) * 10 + word_of_nat ?z :: u32)" by (simp only: of_nat_add of_nat_mult of_nat_numeral)
    then have "(word_of_nat ?x * 10 + word_of_nat ?y) * 10 + word_of_nat ?z = (word_of_nat n :: u32)" unfolding div_mult_mod_eq by (rule sym)
    ultimately show ?thesis using digit_props [OF b(1)] digit_props [OF b(2)] digit_props [OF b(3)] b(4) ua by (simp add: dec_ok_def dec_value_def)
  qed
qed

lemma aton_digits_dec:
  "list_all isdigit ds \<Longrightarrow> aton_digits v 10 (ds @ rest) = aton_digits (fold (\<lambda>c v. v * 10 + (ucast c - 48)) ds v) 10 rest"
  by (induction ds arbitrary: v) auto

lemma aton_digits_stop: "\<not> isdigit (char_at rest) \<Longrightarrow> \<not> isxdigit (char_at rest) \<Longrightarrow> aton_digits v b rest = (v, rest)"
  by (cases rest) auto

lemma aton_number_dec:
  assumes "char_at rest \<in> {0, 46}"
  shows "aton_number (dec a @ rest) = Some (ucast a, rest)"
proof -
  note a = dec_okI [of a, unfolded dec_ok_def]
  have r: "\<not> isdigit (char_at rest)" "\<not> isxdigit (char_at rest)" "char_at rest \<noteq> 120" "char_at rest \<noteq> 88"
    using assms by (auto simp: isdigit_def isxdigit_def in_range_def)
  obtain d ds where d: "dec a = d # ds" using a by (cases "dec a") auto
  show ?thesis
  proof (cases "d = 48")
    case True
    then have "dec a = [48]" using a d by simp
    moreover have "ucast a = (0 :: u32)" using a calculation by (simp add: dec_value_def)
    ultimately show ?thesis using r aton_digits_stop by (simp add: aton_number_def isdigit_def in_range_def)
  next
    case False
    have "aton_digits 0 10 (dec a @ rest) = (ucast a, rest)"
      using a aton_digits_dec [of "dec a" 0 rest] aton_digits_stop [OF r(1,2)] by (simp add: dec_value_def)
    then show ?thesis using a d False by (simp add: aton_number_def)
  qed
qed

lemma put_chars_ok: "put_chars n cs buf = (if cs = [] \<or> length buf + length cs \<le> n then Some (buf @ cs) else None)"
  by (induction cs arbitrary: buf) (auto simp: put_char_def)

definition dotted :: "u8 list \<Rightarrow> u8 list" where
  "dotted as = concat (map (\<lambda>a. dec a @ [46]) as)"

lemma ntoa_loop_ok: "ntoa_loop n as buf = (if as = [] \<or> length buf + length (dotted as) \<le> n then Some (buf @ dotted as) else None)"
proof (induction as arbitrary: buf)
  case (Cons a as)
  then show ?case by (auto simp: put_chars_ok dec_def [symmetric] put_char_def dotted_def)
qed (simp add: dotted_def)

lemma dotted_length: "length (dotted as) \<le> 4 * length as"
proof (induction as)
  case (Cons a as)
  have "length (dec a) \<le> 3" using dec_okI [of a] by (simp add: dec_ok_def)
  then show ?case using Cons by (simp add: dotted_def)
qed (simp add: dotted_def)

lemma butlast_dotted: "butlast (dotted [a, b, c, d]) = dec a @ 46 # dec b @ 46 # dec c @ 46 # dec d"
  by (simp add: dotted_def butlast_append)

lemma aton_dotted: "ip4addr_aton (dec a @ 46 # dec b @ 46 # dec c @ 46 # dec d) =
    Some (lwip_htonl (ucast d OR (push_bit 24 (ucast a) OR push_bit 16 (ucast b) OR push_bit 8 (ucast c))))"
proof -
  have le: "ucast x \<le> (0xff :: u32)" for x :: u8
  proof -
    have "unat x < 256" using unsigned_less [where ?'a = nat, of x] by simp
    then show ?thesis by (simp add: word_le_nat_alt unsigned_ucast_eq take_bit_nat_eq_self)
  qed
  have "aton_number (dec d) = Some (ucast d, [])" using aton_number_dec [of "[]" d] by simp
  then have "aton_parts 3 (dec a @ 46 # dec b @ 46 # dec c @ 46 # dec d) = Some ([ucast a, ucast b, ucast c], ucast d, [])"
    by (simp add: aton_parts.simps aton_number_dec)
  then show ?thesis using le by (simp add: ip4addr_aton_def not_less)
qed

lemma htonl_bytes: "lwip_htonl (ucast d OR (push_bit 24 (ucast a) OR push_bit 16 (ucast b) OR push_bit 8 (ucast c))) = le32 [a, b, c, d]"
proof (rule bit_word_eqI)
  have m: "(0xff :: u32) = mask 8" "(0xff00 :: u32) = push_bit 8 (mask 8)" "(0xff0000 :: u32) = push_bit 16 (mask 8)" "(0xff000000 :: u32) = push_bit 24 (mask 8)"
    by (simp_all add: mask_eq_exp_minus_1 push_bit_eq_mult)
  fix n assume "n < LENGTH(32)"
  then have n: "n < 32" by simp
  consider "n < 8" | "8 \<le> n" "n < 16" | "16 \<le> n" "n < 24" | "24 \<le> n" by linarith
  then show "bit (lwip_htonl (ucast d OR (push_bit 24 (ucast a) OR push_bit 16 (ucast b) OR push_bit 8 (ucast c)))) n = bit (le32 [a, b, c, d]) n"
    using n unfolding lwip_htonl_def le32_def m by cases (auto simp: bit_simps dest: bit_imp_le_length)
qed

section \<open>Properties\<close>

text \<open>
  The dotted notation of every address is read back as that address, and it always fits the
  static buffer; into a buffer of any length \<^verbatim>\<open>ip4addr_ntoa_r\<close> writes it exactly if it fits with
  its terminator.
\<close>

theorem dotted_roundtrip:
  "\<exists>s. ip4addr_ntoa a = Some s \<and> length s < IP4ADDR_STRLEN_MAX \<and> ip4addr_aton s = Some a \<and> ipaddr_addr s = a \<and>
     (\<forall>n. ip4addr_ntoa_r a n = (if length s < n then Some s else None))"
proof -
  obtain b0 b1 b2 b3 where b: "le32_bytes a = [b0, b1, b2, b3]" by (simp add: le32_bytes_def)
  let ?s = "butlast (dotted [b0, b1, b2, b3])"
  have len: "length (dotted [b0, b1, b2, b3]) \<le> 16" using dotted_length [of "[b0, b1, b2, b3]"] by simp
  have l: "length ?s + 1 = length (dotted [b0, b1, b2, b3])" by (simp add: dotted_def)
  have r: "ip4addr_ntoa_r a n = (if length ?s < n then Some ?s else None)" for n
    using l by (simp add: ip4addr_ntoa_r_def b ntoa_loop_ok)
  have "ip4addr_aton ?s = Some (le32 (le32_bytes a))" unfolding butlast_dotted aton_dotted htonl_bytes b ..
  then have "ip4addr_aton ?s = Some a" by simp
  moreover have "length ?s < IP4ADDR_STRLEN_MAX" using len l by (simp add: IP4ADDR_STRLEN_MAX_def)
  ultimately show ?thesis using r by (intro exI [of _ ?s]) (simp add: ip4addr_ntoa_def ipaddr_addr_def)
qed

text \<open>
  A netmask is valid exactly if, in host order, it is a run of ones followed by a run of zeros.
\<close>

theorem netmask_valid_iff:
  "ip4_addr_netmask_valid m \<longleftrightarrow> (\<exists>k \<le> 32. \<forall>i < 32. bit (lwip_htonl m) i = (k \<le> i))"
  unfolding ip4_addr_netmask_valid_def Let_def by (rule netmask_bits)

end
