(* ===== verification/Etharp.thy ===== *)
theory Etharp
  imports Ip4_Addr
begin

text \<open>
  \<^verbatim>\<open>src/STM32/Bootloader/User/lwip-2.0.3/src/netif/ethernet.c\<close> and \<^verbatim>\<open>src/STM32/Bootloader/User/lwip-2.0.3/src/core/ipv4/etharp.c\<close>: Ethernet
  frames and the ARP cache, on the store of pbufs. The options are those of \<^verbatim>\<open>lwipopts.h\<close> and \<^verbatim>\<open>opt.h\<close>: a table of
  ten entries, one queued packet per entry, no static entries, no VLAN. Interfaces are named by their address, as in the code.
  Hardware addresses are passed by value: the pointers of the code lead into the received message, the table or
  the interface, apart from the buffers these functions write. The result \<open>None\<close> is an access where no pbuf lives. There is no DHCP client, so \<^verbatim>\<open>dhcp_arp_reply\<close> returns at once.
\<close>

unbundle bit_operations_syntax

section \<open>State\<close>

datatype etharp_state = ETHARP_STATE_EMPTY | ETHARP_STATE_PENDING | ETHARP_STATE_STABLE
  | ETHARP_STATE_STABLE_REREQUESTING_1 | ETHARP_STATE_STABLE_REREQUESTING_2

text \<open>\<^verbatim>\<open>state >= ETHARP_STATE_STABLE\<close>\<close>

fun stable :: "etharp_state \<Rightarrow> bool" where
  "stable ETHARP_STATE_EMPTY = False"
| "stable ETHARP_STATE_PENDING = False"
| "stable _ = True"

record etharp_entry =
  equeue :: nat
  ipaddr :: u32
  enetif :: nat
  ethaddr :: "u8 list"
  ctime :: u16
  estate :: etharp_state

record 'd arp =
  arp_table :: "etharp_entry list"
  etharp_cached_entry :: nat
  mem_of :: store
  dev :: 'd

text \<open>What the code calls: the pbuf functions of the driver, the interfaces and \<^verbatim>\<open>netif->linkoutput\<close>.\<close>

record 'd arp_env =
  penv :: pbuf_env
  netif_at :: "nat \<Rightarrow> netif"
  linkoutput :: "nat \<Rightarrow> nat \<Rightarrow> store \<Rightarrow> ('d, err_t option) state"

definition ARP_TABLE_SIZE :: nat where "ARP_TABLE_SIZE = 10"
definition ARP_MAXAGE :: u16 where "ARP_MAXAGE = 300"
definition ARP_AGE_REREQUEST_USED_UNICAST :: u16 where "ARP_AGE_REREQUEST_USED_UNICAST = ARP_MAXAGE - 30"
definition ARP_AGE_REREQUEST_USED_BROADCAST :: u16 where "ARP_AGE_REREQUEST_USED_BROADCAST = ARP_MAXAGE - 15"
definition ARP_MAXPENDING :: u16 where "ARP_MAXPENDING = 5"
definition ETHARP_FLAG_TRY_HARD :: u8 where "ETHARP_FLAG_TRY_HARD = 1"
definition ETHARP_FLAG_FIND_ONLY :: u8 where "ETHARP_FLAG_FIND_ONLY = 2"
definition ETH_HWADDR_LEN :: u8 where "ETH_HWADDR_LEN = 6"
definition SIZEOF_ETH_HDR :: nat where "SIZEOF_ETH_HDR = 14"
definition SIZEOF_ETHARP_HDR :: nat where "SIZEOF_ETHARP_HDR = 28"
definition HWTYPE_ETHERNET :: u16 where "HWTYPE_ETHERNET = 1"
definition ARP_REQUEST :: u16 where "ARP_REQUEST = 1"
definition ARP_REPLY :: u16 where "ARP_REPLY = 2"
definition ETHTYPE_IP :: u16 where "ETHTYPE_IP = 0x0800"
definition ETHTYPE_ARP :: u16 where "ETHTYPE_ARP = 0x0806"
definition PBUF_FLAG_LLBCAST :: u8 where "PBUF_FLAG_LLBCAST = 0x08"
definition PBUF_FLAG_LLMCAST :: u8 where "PBUF_FLAG_LLMCAST = 0x10"
definition ethbroadcast :: "u8 list" where "ethbroadcast = [0xff, 0xff, 0xff, 0xff, 0xff, 0xff]"
definition ethzero :: "u8 list" where "ethzero = [0, 0, 0, 0, 0, 0]"

abbreviation ERR_BUF :: err_t where "ERR_BUF \<equiv> -2"
abbreviation ERR_RTE :: err_t where "ERR_RTE \<equiv> -4"

text \<open>A 16-bit field in network order, as bytes.\<close>

definition be16 :: "u16 \<Rightarrow> u8 list" where "be16 n = [ucast (drop_bit 8 n), ucast n]"

section \<open>Frames\<close>

definition ethernet_output :: "'d arp_env \<Rightarrow> nat \<Rightarrow> nat \<Rightarrow> u8 list \<Rightarrow> u8 list \<Rightarrow> u16 \<Rightarrow> ('d, 'z) arp_scheme \<Rightarrow> (err_t \<times> ('d, 'z) arp_scheme) option" where
  "ethernet_output A netif p src dst eth_type s = do {
     (e, h) \<leftarrow> pbuf_header p (int SIZEOF_ETH_HDR) (mem_of s);
     if e \<noteq> 0 then Some (ERR_BUF, s\<lparr>mem_of := h\<rparr>)
     else do {
       b \<leftarrow> pb h p;
       let h = memcpy_to (payload b) (dst @ src @ be16 eth_type) h;
       let (r, d) = run_state (linkoutput A netif p h) (dev s);
       r \<leftarrow> r;
       Some (r, s\<lparr>mem_of := h, dev := d\<rparr>)
     }
   }"

section \<open>Requests\<close>

definition etharp_raw ::
  "'d arp_env \<Rightarrow> nat \<Rightarrow> u8 list \<Rightarrow> u8 list \<Rightarrow> u8 list \<Rightarrow> u32 \<Rightarrow> u8 list \<Rightarrow> u32 \<Rightarrow> u16 \<Rightarrow> ('d, 'z) arp_scheme \<Rightarrow> (err_t \<times> ('d, 'z) arp_scheme) option" where
  "etharp_raw A netif ethsrc ethdst hwsrc ipsrc hwdst ipdst opcode s = do {
     (p, h) \<leftarrow> pbuf_alloc (penv A) PBUF_LINK (of_nat SIZEOF_ETHARP_HDR) PBUF_RAM 0 (mem_of s);
     if p = 0 then Some (ERR_MEM, s\<lparr>mem_of := h\<rparr>)
     else do {
       b \<leftarrow> pb h p;
       let h = memcpy_to (payload b)
         (be16 HWTYPE_ETHERNET @ be16 ETHTYPE_IP @ [ETH_HWADDR_LEN, 4] @ be16 opcode @
          hwsrc @ le32_bytes ipsrc @ hwdst @ le32_bytes ipdst) h;
       (r, s) \<leftarrow> ethernet_output A netif p ethsrc ethdst ETHTYPE_ARP (s\<lparr>mem_of := h\<rparr>);
       (n, h) \<leftarrow> pbuf_free (penv A) p (mem_of s);
       Some (ERR_OK, s\<lparr>mem_of := h\<rparr>)
     }
   }"

definition etharp_request_dst :: "'d arp_env \<Rightarrow> nat \<Rightarrow> u32 \<Rightarrow> u8 list \<Rightarrow> ('d, 'z) arp_scheme \<Rightarrow> (err_t \<times> ('d, 'z) arp_scheme) option" where
  "etharp_request_dst A netif ip hw_dst s =
     (let n = netif_at A netif in etharp_raw A netif (hwaddr n) hw_dst (hwaddr n) (netif_ip4_addr n) ethzero ip ARP_REQUEST s)"

definition etharp_request :: "'d arp_env \<Rightarrow> nat \<Rightarrow> u32 \<Rightarrow> ('d, 'z) arp_scheme \<Rightarrow> (err_t \<times> ('d, 'z) arp_scheme) option" where
  "etharp_request A netif ip s = etharp_request_dst A netif ip ethbroadcast s"

section \<open>The table\<close>

definition upd_entry :: "nat \<Rightarrow> (etharp_entry \<Rightarrow> etharp_entry) \<Rightarrow> ('d, 'z) arp_scheme \<Rightarrow> ('d, 'z) arp_scheme" where
  "upd_entry i f s = s\<lparr>arp_table := (arp_table s)[i := f (arp_table s ! i)]\<rparr>"

definition etharp_free_entry :: "'d arp_env \<Rightarrow> nat \<Rightarrow> ('d, 'z) arp_scheme \<Rightarrow> ('d, 'z) arp_scheme option" where
  "etharp_free_entry A i s =
     (let e = arp_table s ! i
      in if equeue e \<noteq> 0 then do {
           (n, h) \<leftarrow> pbuf_free (penv A) (equeue e) (mem_of s);
           Some (upd_entry i (\<lambda>e. e\<lparr>equeue := 0, estate := ETHARP_STATE_EMPTY\<rparr>) (s\<lparr>mem_of := h\<rparr>))
         }
         else Some (upd_entry i (\<lambda>e. e\<lparr>estate := ETHARP_STATE_EMPTY\<rparr>) s))"

text \<open>The body of the loop of \<^verbatim>\<open>etharp_tmr\<close>, for entry \<open>i\<close>.\<close>

definition tmr_entry :: "'d arp_env \<Rightarrow> nat \<Rightarrow> ('d, 'z) arp_scheme \<Rightarrow> ('d, 'z) arp_scheme option" where
  "tmr_entry A i s =
     (if estate (arp_table s ! i) \<noteq> ETHARP_STATE_EMPTY then
        let s = upd_entry i (\<lambda>e. e\<lparr>ctime := ctime e + 1\<rparr>) s;
            e = arp_table s ! i
        in if ARP_MAXAGE \<le> ctime e \<or> estate e = ETHARP_STATE_PENDING \<and> ARP_MAXPENDING \<le> ctime e then etharp_free_entry A i s
           else if estate e = ETHARP_STATE_STABLE_REREQUESTING_1 then
             Some (upd_entry i (\<lambda>e. e\<lparr>estate := ETHARP_STATE_STABLE_REREQUESTING_2\<rparr>) s)
           else if estate e = ETHARP_STATE_STABLE_REREQUESTING_2 then
             Some (upd_entry i (\<lambda>e. e\<lparr>estate := ETHARP_STATE_STABLE\<rparr>) s)
           else if estate e = ETHARP_STATE_PENDING then map_option snd (etharp_request A (enetif e) (ipaddr e) s)
           else Some s
      else Some s)"

fun each_entry :: "(nat \<Rightarrow> ('d, 'z) arp_scheme \<Rightarrow> ('d, 'z) arp_scheme option) \<Rightarrow> nat list \<Rightarrow> ('d, 'z) arp_scheme \<Rightarrow> ('d, 'z) arp_scheme option" where
  "each_entry f [] s = Some s"
| "each_entry f (i # is) s = (case f i s of None \<Rightarrow> None | Some s \<Rightarrow> each_entry f is s)"

definition etharp_tmr :: "'d arp_env \<Rightarrow> ('d, 'z) arp_scheme \<Rightarrow> ('d, 'z) arp_scheme option" where
  "etharp_tmr A s = each_entry (tmr_entry A) [0..<ARP_TABLE_SIZE] s"

text \<open>The candidates the search remembers; \<^verbatim>\<open>ARP_TABLE_SIZE\<close> stands for none.\<close>

record candidates =
  empty :: nat
  old_stable :: nat
  old_pending :: nat
  old_queue :: nat
  age_stable :: u16
  age_pending :: u16
  age_queue :: u16

definition no_candidates :: candidates where
  "no_candidates = \<lparr>empty = ARP_TABLE_SIZE, old_stable = ARP_TABLE_SIZE, old_pending = ARP_TABLE_SIZE, old_queue = ARP_TABLE_SIZE,
     age_stable = 0, age_pending = 0, age_queue = 0\<rparr>"

definition remember :: "nat \<Rightarrow> etharp_entry \<Rightarrow> candidates \<Rightarrow> candidates" where
  "remember i e c =
     (if estate e = ETHARP_STATE_PENDING then
        (if equeue e \<noteq> 0 then (if age_queue c \<le> ctime e then c\<lparr>old_queue := i, age_queue := ctime e\<rparr> else c)
         else (if age_pending c \<le> ctime e then c\<lparr>old_pending := i, age_pending := ctime e\<rparr> else c))
      else if stable (estate e) then (if age_stable c \<le> ctime e then c\<lparr>old_stable := i, age_stable := ctime e\<rparr> else c)
      else c)"

fun find_scan :: "u32 option \<Rightarrow> nat \<Rightarrow> etharp_entry list \<Rightarrow> candidates \<Rightarrow> nat + candidates" where
  "find_scan ip i [] c = Inr c"
| "find_scan ip i (e # es) c =
     (if empty c = ARP_TABLE_SIZE \<and> estate e = ETHARP_STATE_EMPTY then find_scan ip (i + 1) es (c\<lparr>empty := i\<rparr>)
      else if estate e \<noteq> ETHARP_STATE_EMPTY then
        (if ip = Some (ipaddr e) then Inl i else find_scan ip (i + 1) es (remember i e c))
      else find_scan ip (i + 1) es c)"

definition recycle :: "candidates \<Rightarrow> nat option" where
  "recycle c = (if old_stable c < ARP_TABLE_SIZE then Some (old_stable c)
     else if old_pending c < ARP_TABLE_SIZE then Some (old_pending c)
     else if old_queue c < ARP_TABLE_SIZE then Some (old_queue c)
     else None)"

text \<open>Result: an error or the index of the entry.\<close>

definition etharp_find_entry :: "'d arp_env \<Rightarrow> u32 option \<Rightarrow> u8 \<Rightarrow> ('d, 'z) arp_scheme \<Rightarrow> ((err_t + nat) \<times> ('d, 'z) arp_scheme) option" where
  "etharp_find_entry A ip flags s =
     (case find_scan ip 0 (arp_table s) no_candidates of
        Inl i \<Rightarrow> Some (Inr i, s)
      | Inr c \<Rightarrow>
          if flags AND ETHARP_FLAG_FIND_ONLY \<noteq> 0 \<or> empty c = ARP_TABLE_SIZE \<and> flags AND ETHARP_FLAG_TRY_HARD = 0
          then Some (Inl ERR_MEM, s)
          else let create = (\<lambda>i s. Some (Inr i, upd_entry i (\<lambda>e. e\<lparr>ipaddr := (case ip of Some a \<Rightarrow> a | None \<Rightarrow> ipaddr e), ctime := 0\<rparr>) s))
          in if empty c < ARP_TABLE_SIZE then create (empty c) s
             else case recycle c of None \<Rightarrow> Some (Inl ERR_MEM, s)
               | Some i \<Rightarrow> (case etharp_free_entry A i s of None \<Rightarrow> None | Some s \<Rightarrow> create i s))"

definition etharp_update_arp_entry :: "'d arp_env \<Rightarrow> nat \<Rightarrow> u32 \<Rightarrow> u8 list \<Rightarrow> u8 \<Rightarrow> ('d, 'z) arp_scheme \<Rightarrow> (err_t \<times> ('d, 'z) arp_scheme) option" where
  "etharp_update_arp_entry A netif ip mac flags s =
     (if ip4_addr_isany ip \<or> ip4_addr_isbroadcast ip (netif_at A netif) \<or> ip4_addr_ismulticast ip then Some (ERR_ARG, s)
      else case etharp_find_entry A (Some ip) flags s of
        None \<Rightarrow> None
      | Some (Inl e, s) \<Rightarrow> Some (e, s)
      | Some (Inr i, s) \<Rightarrow>
          let p = equeue (arp_table s ! i);
              s = upd_entry i (\<lambda>e. e\<lparr>estate := ETHARP_STATE_STABLE, enetif := netif, ethaddr := mac, ctime := 0, equeue := 0\<rparr>) s
          in if p \<noteq> 0 then do {
               (r, s) \<leftarrow> ethernet_output A netif p (hwaddr (netif_at A netif)) mac ETHTYPE_IP s;
               (n, h) \<leftarrow> pbuf_free (penv A) p (mem_of s);
               Some (ERR_OK, s\<lparr>mem_of := h\<rparr>)
             }
             else Some (ERR_OK, s))"

definition cleanup_entry :: "'d arp_env \<Rightarrow> nat \<Rightarrow> nat \<Rightarrow> ('d, 'z) arp_scheme \<Rightarrow> ('d, 'z) arp_scheme option" where
  "cleanup_entry A netif i s =
     (if estate (arp_table s ! i) \<noteq> ETHARP_STATE_EMPTY \<and> enetif (arp_table s ! i) = netif then etharp_free_entry A i s else Some s)"

definition etharp_cleanup_netif :: "'d arp_env \<Rightarrow> nat \<Rightarrow> ('d, 'z) arp_scheme \<Rightarrow> ('d, 'z) arp_scheme option" where
  "etharp_cleanup_netif A netif s = each_entry (cleanup_entry A netif) [0..<ARP_TABLE_SIZE] s"

text \<open>The index with the addresses it stands for, or -1.\<close>

definition etharp_find_addr :: "'d arp_env \<Rightarrow> u32 \<Rightarrow> ('d, 'z) arp_scheme \<Rightarrow> ((nat \<times> u8 list \<times> u32) option \<times> ('d, 'z) arp_scheme) option" where
  "etharp_find_addr A ip s =
     (case etharp_find_entry A (Some ip) ETHARP_FLAG_FIND_ONLY s of
        None \<Rightarrow> None
      | Some (Inl e, s) \<Rightarrow> Some (None, s)
      | Some (Inr i, s) \<Rightarrow>
          let e = arp_table s ! i in Some (if stable (estate e) then Some (i, ethaddr e, ipaddr e) else None, s))"

definition etharp_get_entry :: "nat \<Rightarrow> ('d, 'z) arp_scheme \<Rightarrow> (u32 \<times> nat \<times> u8 list) option" where
  "etharp_get_entry i s =
     (if i < ARP_TABLE_SIZE \<and> stable (estate (arp_table s ! i)) then
        let e = arp_table s ! i in Some (ipaddr e, enetif e, ethaddr e)
      else None)"

section \<open>Output\<close>

definition etharp_output_to_arp_index :: "'d arp_env \<Rightarrow> nat \<Rightarrow> nat \<Rightarrow> nat \<Rightarrow> ('d, 'z) arp_scheme \<Rightarrow> (err_t \<times> ('d, 'z) arp_scheme) option" where
  "etharp_output_to_arp_index A netif q i s =
     (let e = arp_table s ! i;
          again = (\<lambda>r. map_option (\<lambda>(e, s). if e = ERR_OK then upd_entry i (\<lambda>e. e\<lparr>estate := ETHARP_STATE_STABLE_REREQUESTING_1\<rparr>) s else s) r)
      in do {
        s \<leftarrow> (if estate e = ETHARP_STATE_STABLE then
               if ARP_AGE_REREQUEST_USED_BROADCAST \<le> ctime e then again (etharp_request A netif (ipaddr e) s)
               else if ARP_AGE_REREQUEST_USED_UNICAST \<le> ctime e then again (etharp_request_dst A netif (ipaddr e) (ethaddr e) s)
               else Some s
             else Some s);
        ethernet_output A netif q (hwaddr (netif_at A netif)) (ethaddr (arp_table s ! i)) ETHTYPE_IP s
      })"

text \<open>\<open>copy_needed\<close>: the first pbuf of the chain that is not in ROM, or 0.\<close>

partial_function (option) copy_needed :: "nat \<Rightarrow> store \<Rightarrow> nat option" where
  "copy_needed p h =
     (if p = 0 then Some 0
      else case pb h p of None \<Rightarrow> None | Some b \<Rightarrow> if ptype b \<noteq> PBUF_ROM then Some p else copy_needed (pnext b) h)"

text \<open>The packet to queue for \<open>q\<close>: a copy, \<open>q\<close> with one more reference, or 0.\<close>

definition take_over :: "'d arp_env \<Rightarrow> nat \<Rightarrow> store \<Rightarrow> (nat \<times> store) option" where
  "take_over A q h = do {
     c \<leftarrow> copy_needed q h;
     if c \<noteq> 0 then do {
       b \<leftarrow> pb h c;
       (p, h) \<leftarrow> pbuf_alloc (penv A) PBUF_LINK (tot_len b) PBUF_RAM 0 h;
       if p \<noteq> 0 then do {
         (e, h) \<leftarrow> pbuf_copy p q h;
         if e \<noteq> ERR_OK then do { (n, h) \<leftarrow> pbuf_free (penv A) p h; Some (0, h) } else Some (p, h)
       } else Some (0, h)
     }
     else do { h \<leftarrow> pbuf_ref q h; Some (q, h) }
   }"

text \<open>The last part of \<^verbatim>\<open>etharp_query\<close>: send the packet or put it into the entry.\<close>

definition queue_or_send :: "'d arp_env \<Rightarrow> nat \<Rightarrow> nat \<Rightarrow> nat \<Rightarrow> err_t \<Rightarrow> ('d, 'z) arp_scheme \<Rightarrow> (err_t \<times> ('d, 'z) arp_scheme) option" where
  "queue_or_send A netif q i result s =
     (let e = arp_table s ! i
      in if stable (estate e) then
           ethernet_output A netif q (hwaddr (netif_at A netif)) (ethaddr e) ETHTYPE_IP (s\<lparr>etharp_cached_entry := i\<rparr>)
         else if estate e = ETHARP_STATE_PENDING then do {
           (p, h) \<leftarrow> take_over A q (mem_of s);
           if p \<noteq> 0 then do {
             (n, h) \<leftarrow> (if equeue e \<noteq> 0 then pbuf_free (penv A) (equeue e) h else Some (0, h));
             Some (ERR_OK, upd_entry i (\<lambda>e. e\<lparr>equeue := p\<rparr>) (s\<lparr>mem_of := h\<rparr>))
           } else Some (ERR_MEM, s\<lparr>mem_of := h\<rparr>)
         }
         else Some (result, s))"

definition etharp_query :: "'d arp_env \<Rightarrow> nat \<Rightarrow> u32 \<Rightarrow> nat \<Rightarrow> ('d, 'z) arp_scheme \<Rightarrow> (err_t \<times> ('d, 'z) arp_scheme) option" where
  "etharp_query A netif ip q s =
     (let n = netif_at A netif
      in if ip4_addr_isbroadcast ip n \<or> ip4_addr_ismulticast ip \<or> ip4_addr_isany ip then Some (ERR_ARG, s)
      else case etharp_find_entry A (Some ip) ETHARP_FLAG_TRY_HARD s of
        None \<Rightarrow> None
      | Some (Inl e, s) \<Rightarrow> Some (e, s)
      | Some (Inr i, s) \<Rightarrow>
          let is_new_entry = (estate (arp_table s ! i) = ETHARP_STATE_EMPTY);
              s = (if is_new_entry then upd_entry i (\<lambda>e. e\<lparr>estate := ETHARP_STATE_PENDING, enetif := netif\<rparr>) s else s)
          in do {
            (result, s) \<leftarrow> (if is_new_entry \<or> q = 0 then etharp_request A netif ip s else Some (ERR_MEM, s));
            if q = 0 then Some (result, s)
            else queue_or_send A netif q i result s
          })"

fun find_stable :: "u32 \<Rightarrow> nat \<Rightarrow> etharp_entry list \<Rightarrow> nat option" where
  "find_stable ip i [] = None"
| "find_stable ip i (e # es) = (if stable (estate e) \<and> ip = ipaddr e then Some i else find_stable ip (i + 1) es)"

definition multicast_mac :: "u32 \<Rightarrow> u8 list" where
  "multicast_mac ip = (let b = le32_bytes ip in [0x01, 0x00, 0x5e, b ! 1 AND 0x7f, b ! 2, b ! 3])"

definition etharp_output :: "'d arp_env \<Rightarrow> nat \<Rightarrow> nat \<Rightarrow> u32 \<Rightarrow> ('d, 'z) arp_scheme \<Rightarrow> (err_t \<times> ('d, 'z) arp_scheme) option" where
  "etharp_output A netif q ip s =
     (let n = netif_at A netif;
          direct = (\<lambda>dest. ethernet_output A netif q (hwaddr n) dest ETHTYPE_IP s)
      in if ip4_addr_isbroadcast ip n then direct ethbroadcast
         else if ip4_addr_ismulticast ip then direct (multicast_mac ip)
         else let outside = \<not> ip4_addr_netcmp ip (netif_ip4_addr n) (netif_ip4_netmask n) \<and> \<not> ip4_addr_islinklocal ip
           in if outside \<and> ip4_addr_isany (netif_ip4_gw n) then Some (ERR_RTE, s)
              else let dst = (if outside then netif_ip4_gw n else ip);
                       e = arp_table s ! etharp_cached_entry s
                in if stable (estate e) \<and> dst = ipaddr e then etharp_output_to_arp_index A netif q (etharp_cached_entry s) s
                   else case find_stable dst 0 (arp_table s) of
                     Some i \<Rightarrow> etharp_output_to_arp_index A netif q i (s\<lparr>etharp_cached_entry := i\<rparr>)
                   | None \<Rightarrow> etharp_query A netif dst q s)"

section \<open>Input\<close>

text \<open>
  The fields of the message at the payload: those that must have one value, the opcode, the two
  hardware addresses and the two protocol addresses.
\<close>

definition etharp_input :: "'d arp_env \<Rightarrow> nat \<Rightarrow> nat \<Rightarrow> ('d, 'z) arp_scheme \<Rightarrow> ('d, 'z) arp_scheme option" where
  "etharp_input A p netif s = do {
     b \<leftarrow> pb (mem_of s) p;
     let hdr = mem_slice (bytes (mem_of s)) (payload b) SIZEOF_ETHARP_HDR;
     if take 2 hdr \<noteq> be16 HWTYPE_ETHERNET \<or> hdr ! 4 \<noteq> ETH_HWADDR_LEN \<or> hdr ! 5 \<noteq> 4 \<or> take 2 (drop 2 hdr) \<noteq> be16 ETHTYPE_IP
     then do { (n, h) \<leftarrow> pbuf_free (penv A) p (mem_of s); Some (s\<lparr>mem_of := h\<rparr>) }
     else do {
       let n = netif_at A netif;
       let opcode = take 2 (drop 6 hdr);
       let shwaddr = take 6 (drop 8 hdr);
       let sipaddr = le32 (take 4 (drop 14 hdr));
       let dipaddr = le32 (take 4 (drop 24 hdr));
       let for_us = (\<not> ip4_addr_isany (netif_ip4_addr n) \<and> dipaddr = netif_ip4_addr n);
       (e, s) \<leftarrow> etharp_update_arp_entry A netif sipaddr shwaddr (if for_us then ETHARP_FLAG_TRY_HARD else ETHARP_FLAG_FIND_ONLY) s;
       s \<leftarrow> (if opcode = be16 ARP_REQUEST \<and> for_us then
              map_option snd (etharp_raw A netif (hwaddr n) shwaddr (hwaddr n) (netif_ip4_addr n) shwaddr sipaddr ARP_REPLY s)
            else Some s);
       (n, h) \<leftarrow> pbuf_free (penv A) p (mem_of s);
       Some (s\<lparr>mem_of := h\<rparr>)
     }
   }"

text \<open>The flag for a frame to a group of hosts, and the label \<^verbatim>\<open>free_and_return\<close>.\<close>

definition link_flags :: "u8 list \<Rightarrow> u8 \<Rightarrow> u8" where
  "link_flags dest f =
     (if dest ! 0 AND 1 \<noteq> 0 then
        if dest ! 0 = 0x01 then (if dest ! 1 = 0x00 \<and> dest ! 2 = 0x5e then f OR PBUF_FLAG_LLMCAST else f)
        else if dest = ethbroadcast then f OR PBUF_FLAG_LLBCAST
        else f
      else f)"

definition free_and_return :: "'d arp_env \<Rightarrow> nat \<Rightarrow> ('d, 'z) arp_scheme \<Rightarrow> (err_t \<times> ('d, 'z) arp_scheme) option" where
  "free_and_return A p s = do { (n, h) \<leftarrow> pbuf_free (penv A) p (mem_of s); Some (ERR_OK, s\<lparr>mem_of := h\<rparr>) }"

text \<open>\<open>ip4_input\<close> is the IP layer above.\<close>

definition ethernet_input ::
  "'d arp_env \<Rightarrow> (nat \<Rightarrow> nat \<Rightarrow> ('d, 'z) arp_scheme \<Rightarrow> ('d, 'z) arp_scheme option) \<Rightarrow> nat \<Rightarrow> nat \<Rightarrow> ('d, 'z) arp_scheme \<Rightarrow> (err_t \<times> ('d, 'z) arp_scheme) option" where
  "ethernet_input A ip4_input p netif s = do {
     b \<leftarrow> pb (mem_of s) p;
     if unat (plen b) \<le> SIZEOF_ETH_HDR then free_and_return A p s
     else do {
       let hdr = mem_slice (bytes (mem_of s)) (payload b) SIZEOF_ETH_HDR;
       let type = drop 12 hdr;
       let s = s\<lparr>mem_of := put_pbuf p (b\<lparr>pflags := link_flags (take 6 hdr) (pflags b)\<rparr>) (mem_of s)\<rparr>;
       if type = be16 ETHTYPE_IP \<or> type = be16 ETHTYPE_ARP then
         if \<not> flag_etharp (netif_at A netif) then free_and_return A p s
         else do {
           (e, h) \<leftarrow> (if unat (plen b) < SIZEOF_ETH_HDR then Some (1, mem_of s) else pbuf_header p (- int SIZEOF_ETH_HDR) (mem_of s));
           let s = s\<lparr>mem_of := h\<rparr>;
           if e \<noteq> 0 then free_and_return A p s
           else map_option (Pair ERR_OK) (if type = be16 ETHTYPE_IP then ip4_input p netif s else etharp_input A p netif s)
         }
       else free_and_return A p s
     }
   }"

end
