(* ===== verification/Etharp_Correct.thy ===== *)
theory Etharp_Correct
  imports Etharp
begin

text \<open>
  The invariant of the ARP table, what the search for an entry finds, and that every function keeps
  the invariant.
\<close>

abbreviation EMPTY :: etharp_state where "EMPTY \<equiv> ETHARP_STATE_EMPTY"
abbreviation PENDING :: etharp_state where "PENDING \<equiv> ETHARP_STATE_PENDING"

lemma state_cases:
  obtains "st = EMPTY" | "st = PENDING" | "stable st"
  by (cases st) auto

lemma stableD: "stable st \<Longrightarrow> st \<noteq> EMPTY \<and> st \<noteq> PENDING"
  by (cases st) auto

lemma table_size [simp]: "ARP_TABLE_SIZE = 10"
  by (simp add: ARP_TABLE_SIZE_def)

section \<open>The invariant\<close>

text \<open>
  Only a pending entry has a queued packet, pending and resolved entries are younger than their limits,
  only unicast addresses are in the table.
\<close>

definition entry_ok :: "'d arp_env \<Rightarrow> etharp_entry \<Rightarrow> bool" where
  "entry_ok A e \<longleftrightarrow> (estate e \<noteq> PENDING \<longrightarrow> equeue e = 0) \<and> (estate e = PENDING \<longrightarrow> ctime e < ARP_MAXPENDING) \<and>
     (stable (estate e) \<longrightarrow> ctime e < ARP_MAXAGE) \<and>
     (estate e \<noteq> EMPTY \<longrightarrow> \<not> ip4_addr_isany (ipaddr e) \<and> \<not> ip4_addr_ismulticast (ipaddr e) \<and> \<not> ip4_addr_isbroadcast (ipaddr e) (netif_at A (enetif e)))"

definition table_ok :: "'d arp_env \<Rightarrow> etharp_entry list \<Rightarrow> bool" where
  "table_ok A t \<longleftrightarrow> length t = ARP_TABLE_SIZE \<and> (\<forall>i < ARP_TABLE_SIZE. entry_ok A (t ! i)) \<and>
     (\<forall>i < ARP_TABLE_SIZE. \<forall>j < ARP_TABLE_SIZE. estate (t ! i) \<noteq> EMPTY \<and> estate (t ! j) \<noteq> EMPTY \<and> ipaddr (t ! i) = ipaddr (t ! j) \<longrightarrow> i = j)"

definition arp_ok :: "'d arp_env \<Rightarrow> ('d, 'z) arp_scheme \<Rightarrow> bool" where
  "arp_ok A s \<longleftrightarrow> table_ok A (arp_table s) \<and> etharp_cached_entry s < ARP_TABLE_SIZE"

definition has_entry :: "etharp_entry list \<Rightarrow> u32 \<Rightarrow> bool" where
  "has_entry t ip \<longleftrightarrow> (\<exists>i < length t. estate (t ! i) \<noteq> EMPTY \<and> ipaddr (t ! i) = ip)"

lemma table_ok_update:
  assumes "table_ok A t" "i < 10" "entry_ok A e" "estate e \<noteq> EMPTY \<longrightarrow> estate (t ! i) \<noteq> EMPTY \<and> ipaddr e = ipaddr (t ! i) \<or> \<not> has_entry t (ipaddr e)"
  shows "table_ok A (t[i := e])"
proof -
  have t: "length t = 10" "\<And>j. j < 10 \<Longrightarrow> entry_ok A (t ! j)"
    "\<And>j k. j < 10 \<Longrightarrow> k < 10 \<Longrightarrow> estate (t ! j) \<noteq> EMPTY \<Longrightarrow> estate (t ! k) \<noteq> EMPTY \<Longrightarrow> ipaddr (t ! j) = ipaddr (t ! k) \<Longrightarrow> j = k"
    using assms(1) by (auto simp: table_ok_def)
  have other: "j = i" if "j < 10" "estate e \<noteq> EMPTY" "estate (t ! j) \<noteq> EMPTY" "ipaddr (t ! j) = ipaddr e" for j
    using assms(2,4) that t(1) t(3) [of j i] unfolding has_entry_def by metis
  show ?thesis
    unfolding table_ok_def
  proof (intro conjI allI impI)
    fix j k
    assume "j < ARP_TABLE_SIZE" "k < ARP_TABLE_SIZE"
      and "estate (t[i := e] ! j) \<noteq> EMPTY \<and> estate (t[i := e] ! k) \<noteq> EMPTY \<and> ipaddr (t[i := e] ! j) = ipaddr (t[i := e] ! k)"
    then have jk: "j < 10" "k < 10" "estate (t[i := e] ! j) \<noteq> EMPTY" "estate (t[i := e] ! k) \<noteq> EMPTY" "ipaddr (t[i := e] ! j) = ipaddr (t[i := e] ! k)"
      by simp_all
    have "t[i := e] ! i = e" using t(1) assms(2) by simp
    then show "j = k" using other [of j] other [of k] t(3) [of j k] jk nth_list_update_neq [of i _ t e] by metis
  qed (use t assms(2,3) in \<open>auto simp: nth_list_update\<close>)
qed

lemma table_ok_same_ip:
  assumes "table_ok A t" "i < 10" "entry_ok A e" "ipaddr e = ipaddr (t ! i)" "estate e \<noteq> EMPTY \<longrightarrow> estate (t ! i) \<noteq> EMPTY"
  shows "table_ok A (t[i := e])"
  using assms table_ok_update by blast

lemma upd_entry_simps [simp]:
  "arp_table (upd_entry i f s) = (arp_table s)[i := f (arp_table s ! i)]" "etharp_cached_entry (upd_entry i f s) = etharp_cached_entry s"
  "mem_of (upd_entry i f s) = mem_of s" "dev (upd_entry i f s) = dev s"
  by (simp_all add: upd_entry_def)

section \<open>Sending leaves the table alone\<close>

text \<open>\<open>same_table s s'\<close>: only the store and the device may differ.\<close>

definition same_table :: "('d, 'z) arp_scheme \<Rightarrow> ('d, 'z) arp_scheme \<Rightarrow> bool" where
  "same_table s s' \<longleftrightarrow> arp_table s' = arp_table s \<and> etharp_cached_entry s' = etharp_cached_entry s"

lemma same_tableD: "same_table s s' \<Longrightarrow> arp_table s' = arp_table s" "same_table s s' \<Longrightarrow> etharp_cached_entry s' = etharp_cached_entry s"
  by (simp_all add: same_table_def)

lemma ethernet_output_table: "ethernet_output A netif p src dst ty s = Some (r, s') \<Longrightarrow> same_table s s'"
  by (auto simp: ethernet_output_def same_table_def Let_def bind_eq_Some_conv case_prod_beta split: if_splits)

lemma etharp_raw_table: "etharp_raw A netif a b c d e f g s = Some (r, s') \<Longrightarrow> same_table s s'"
  by (auto simp: etharp_raw_def Let_def bind_eq_Some_conv split: if_splits dest!: ethernet_output_table) (auto simp: same_table_def)

lemma etharp_request_dst_table: "etharp_request_dst A netif ip hw s = Some (r, s') \<Longrightarrow> same_table s s'"
  unfolding etharp_request_dst_def Let_def by (rule etharp_raw_table)

lemma etharp_request_table: "etharp_request A netif ip s = Some (r, s') \<Longrightarrow> same_table s s'"
  unfolding etharp_request_def by (rule etharp_request_dst_table)

lemma free_entry_table:
  assumes "etharp_free_entry A i s = Some s'"
  shows "arp_table s' = (arp_table s)[i := (arp_table s ! i)\<lparr>equeue := 0, estate := EMPTY\<rparr>]" "etharp_cached_entry s' = etharp_cached_entry s"
proof -
  let ?e = "arp_table s ! i"
  have same: "equeue ?e = 0 \<Longrightarrow> ?e\<lparr>equeue := 0, estate := EMPTY\<rparr> = ?e\<lparr>estate := EMPTY\<rparr>" by (cases ?e) simp
  show "arp_table s' = (arp_table s)[i := ?e\<lparr>equeue := 0, estate := EMPTY\<rparr>]"
  proof (cases "equeue ?e = 0")
    case True
    show ?thesis unfolding same [OF True] using assms True by (auto simp: etharp_free_entry_def Let_def)
  qed (use assms in \<open>auto simp: etharp_free_entry_def Let_def bind_eq_Some_conv\<close>)
  show "etharp_cached_entry s' = etharp_cached_entry s"
    using assms by (auto simp: etharp_free_entry_def Let_def bind_eq_Some_conv split: if_splits)
qed

lemma free_entry_ok:
  assumes "arp_ok A s" "i < 10" "etharp_free_entry A i s = Some s'"
  shows "arp_ok A s'"
  using assms free_entry_table [OF assms(3)] unfolding arp_ok_def by (auto intro!: table_ok_same_ip simp: entry_ok_def)

section \<open>Ageing\<close>

text \<open>What one pass of the timer makes of an entry.\<close>

definition aged :: "etharp_entry \<Rightarrow> etharp_entry" where
  "aged e =
     (if estate e = EMPTY then e
      else if ARP_MAXAGE \<le> ctime e + 1 \<or> estate e = PENDING \<and> ARP_MAXPENDING \<le> ctime e + 1
      then e\<lparr>ctime := ctime e + 1, equeue := 0, estate := EMPTY\<rparr>
      else e\<lparr>ctime := ctime e + 1, estate := (case estate e of ETHARP_STATE_STABLE_REREQUESTING_1 \<Rightarrow> ETHARP_STATE_STABLE_REREQUESTING_2
        | ETHARP_STATE_STABLE_REREQUESTING_2 \<Rightarrow> ETHARP_STATE_STABLE | st \<Rightarrow> st)\<rparr>)"

lemma tmr_entry_table:
  assumes "i < length (arp_table s)" "tmr_entry A i s = Some s'"
  shows "arp_table s' = (arp_table s)[i := aged (arp_table s ! i)] \<and> etharp_cached_entry s' = etharp_cached_entry s"
proof (cases "estate (arp_table s ! i) = EMPTY")
  case True
  then show ?thesis using assms(2) by (simp add: tmr_entry_def aged_def)
next
  case False
  let ?e = "arp_table s ! i" and ?s = "upd_entry i (\<lambda>e. e\<lparr>ctime := ctime e + 1\<rparr>) s"
  have n: "arp_table ?s ! i = ?e\<lparr>ctime := ctime ?e + 1\<rparr>" using assms(1) by simp
  note run = assms(2) [unfolded tmr_entry_def Let_def n if_P [OF False], simplified]
  show ?thesis
  proof (cases "ARP_MAXAGE \<le> ctime ?e + 1 \<or> estate ?e = PENDING \<and> ARP_MAXPENDING \<le> ctime ?e + 1")
    case True
    then have "etharp_free_entry A i ?s = Some s'" using run by simp
    from free_entry_table [OF this] show ?thesis unfolding n using True False by (simp add: aged_def)
  next
    case young: False
    show ?thesis
    proof (cases "estate ?e = PENDING")
      case True
      then obtain r where "etharp_request A (enetif ?e) (ipaddr ?e) ?s = Some (r, s')" using run young by auto
      from same_tableD [OF etharp_request_table [OF this]] show ?thesis using True young by (cases ?e) (simp add: aged_def)
    next
      case np: False
      show ?thesis using run young np False assms(1) by (cases "estate ?e"; cases ?e) (auto simp: aged_def)
    qed
  qed
qed

lemma each_entry_map:
  assumes "\<And>i s s'. i < length (arp_table s) \<Longrightarrow> f i s = Some s' \<Longrightarrow> arp_table s' = (arp_table s)[i := g (arp_table s ! i)] \<and> etharp_cached_entry s' = etharp_cached_entry s"
    and "each_entry f [k..<length (arp_table s)] s = Some s'" "k \<le> length (arp_table s)"
  shows "arp_table s' = take k (arp_table s) @ map g (drop k (arp_table s)) \<and> etharp_cached_entry s' = etharp_cached_entry s"
  using assms(2,3)
proof (induction "length (arp_table s) - k" arbitrary: k s)
  case 0
  then show ?case by simp
next
  case (Suc n)
  then have k: "k < length (arp_table s)" by linarith
  then obtain s1 where s1: "f k s = Some s1" "each_entry f [Suc k..<length (arp_table s)] s1 = Some s'"
    using Suc.prems(1) by (auto simp: upt_conv_Cons split: option.splits)
  note t = assms(1) [OF k s1(1)]
  have "arp_table s' = take (Suc k) (arp_table s1) @ map g (drop (Suc k) (arp_table s1)) \<and> etharp_cached_entry s' = etharp_cached_entry s1"
    by (rule Suc.hyps(1)) (use Suc.hyps(2) s1(2) t k in auto)
  then show ?case using t k by (simp add: take_Suc_conv_app_nth take_update_swap Cons_nth_drop_Suc [symmetric] list_update_append)
qed

lemma etharp_tmr_table:
  assumes "etharp_tmr A s = Some s'" "length (arp_table s) = ARP_TABLE_SIZE"
  shows "arp_table s' = map aged (arp_table s)" "etharp_cached_entry s' = etharp_cached_entry s"
  using each_entry_map [of "tmr_entry A" aged 0 s s'] tmr_entry_table assms unfolding etharp_tmr_def by auto

lemma table_ok_map:
  assumes "table_ok A t" "\<And>e. entry_ok A e \<Longrightarrow> entry_ok A (g e) \<and> ipaddr (g e) = ipaddr e \<and> (estate (g e) \<noteq> EMPTY \<longrightarrow> estate e \<noteq> EMPTY)"
  shows "table_ok A (map g t)"
proof -
  have e: "length t = 10" "entry_ok A (t ! i)" if "i < 10" for i using assms(1) that by (auto simp: table_ok_def)
  show ?thesis using assms(1) assms(2) [OF e(2)] by (auto simp: table_ok_def)
qed

lemma aged_ok: "entry_ok A e \<Longrightarrow> entry_ok A (aged e) \<and> ipaddr (aged e) = ipaddr e \<and> (estate (aged e) \<noteq> EMPTY \<longrightarrow> estate e \<noteq> EMPTY)"
proof (cases "estate e = EMPTY \<or> ARP_MAXAGE \<le> ctime e + 1 \<or> estate e = PENDING \<and> ARP_MAXPENDING \<le> ctime e + 1")
  case False
  assume ok: "entry_ok A e"
  have "ctime e + 1 < ARP_MAXAGE" "estate e = PENDING \<longrightarrow> ctime e + 1 < ARP_MAXPENDING" using False by (simp_all add: not_le)
  then show ?thesis using ok False by (cases "estate e") (simp_all add: entry_ok_def aged_def)
qed (auto simp: aged_def entry_ok_def)

lemma etharp_tmr_ok:
  assumes "arp_ok A s" "etharp_tmr A s = Some s'"
  shows "arp_ok A s'"
proof -
  have t: "table_ok A (arp_table s)" "length (arp_table s) = ARP_TABLE_SIZE" "etharp_cached_entry s < ARP_TABLE_SIZE"
    using assms(1) by (simp_all add: arp_ok_def table_ok_def)
  show ?thesis using etharp_tmr_table [OF assms(2) t(2)] table_ok_map [OF t(1) aged_ok] t(3) by (simp add: arp_ok_def)
qed

section \<open>Searching\<close>

text \<open>
  \<open>oldest t k P i a\<close>: \<open>i\<close> is the last of the oldest entries with \<open>P\<close> among the first \<open>k\<close>, and \<open>a\<close> its age; or
  there is none.
\<close>

definition oldest :: "etharp_entry list \<Rightarrow> nat \<Rightarrow> (etharp_entry \<Rightarrow> bool) \<Rightarrow> nat \<Rightarrow> u16 \<Rightarrow> bool" where
  "oldest t k P i a \<longleftrightarrow>
     (if i = ARP_TABLE_SIZE then a = 0 \<and> (\<forall>j < k. \<not> P (t ! j))
      else i < k \<and> P (t ! i) \<and> ctime (t ! i) = a \<and> (\<forall>j < k. P (t ! j) \<longrightarrow> ctime (t ! j) \<le> a))"

abbreviation queued :: "etharp_entry \<Rightarrow> bool" where "queued e \<equiv> estate e = PENDING \<and> equeue e \<noteq> 0"
abbreviation unqueued :: "etharp_entry \<Rightarrow> bool" where "unqueued e \<equiv> estate e = PENDING \<and> equeue e = 0"
abbreviation resolved :: "etharp_entry \<Rightarrow> bool" where "resolved e \<equiv> stable (estate e)"

definition cand_ok :: "etharp_entry list \<Rightarrow> nat \<Rightarrow> candidates \<Rightarrow> bool" where
  "cand_ok t k c \<longleftrightarrow>
     (if empty c = ARP_TABLE_SIZE then \<forall>j < k. estate (t ! j) \<noteq> EMPTY else empty c < k \<and> estate (t ! empty c) = EMPTY) \<and>
     oldest t k resolved (old_stable c) (age_stable c) \<and> oldest t k unqueued (old_pending c) (age_pending c) \<and>
     oldest t k queued (old_queue c) (age_queue c)"

lemma oldest_skip: "\<not> P (t ! k) \<Longrightarrow> oldest t k P i a \<Longrightarrow> oldest t (Suc k) P i a"
  by (auto simp: oldest_def less_Suc_eq)

lemma oldest_younger: "\<not> a \<le> ctime (t ! k) \<Longrightarrow> oldest t k P i a \<Longrightarrow> oldest t (Suc k) P i a"
  by (auto simp: oldest_def less_Suc_eq not_le)

lemma oldest_take: "P (t ! k) \<Longrightarrow> k < 10 \<Longrightarrow> a \<le> ctime (t ! k) \<Longrightarrow> oldest t k P i a \<Longrightarrow> oldest t (Suc k) P k (ctime (t ! k))"
  by (auto simp: oldest_def less_Suc_eq split: if_splits)

lemma cand_remember:
  assumes "cand_ok t k c" "k < 10" "estate (t ! k) \<noteq> EMPTY"
  shows "cand_ok t (Suc k) (remember k (t ! k) c)"
proof -
  have e: "if empty c = ARP_TABLE_SIZE then \<forall>j < Suc k. estate (t ! j) \<noteq> EMPTY else empty c < Suc k \<and> estate (t ! empty c) = EMPTY"
    using assms by (auto simp: cand_ok_def less_Suc_eq split: if_splits)
  have o: "oldest t k resolved (old_stable c) (age_stable c)" "oldest t k unqueued (old_pending c) (age_pending c)" "oldest t k queued (old_queue c) (age_queue c)"
    using assms(1) by (simp_all add: cand_ok_def)
  consider (q) "queued (t ! k)" | (u) "unqueued (t ! k)" | (r) "resolved (t ! k)" "estate (t ! k) \<noteq> PENDING"
    using assms(3) by (cases "estate (t ! k)" rule: state_cases) (auto dest: stableD)
  then show ?thesis
  proof cases
    case q
    then have "\<not> resolved (t ! k)" by (auto dest: stableD)
    then show ?thesis using q e oldest_skip [OF _ o(1)] oldest_skip [OF _ o(2)] oldest_younger [OF _ o(3)] oldest_take [OF q assms(2) _ o(3)]
      by (simp add: cand_ok_def remember_def)
  next
    case u
    then have "\<not> resolved (t ! k)" by (auto dest: stableD)
    then show ?thesis using u e oldest_skip [OF _ o(1)] oldest_skip [OF _ o(3)] oldest_younger [OF _ o(2)] oldest_take [OF u assms(2) _ o(2)]
      by (simp add: cand_ok_def remember_def)
  next
    case r
    then show ?thesis using e oldest_skip [OF _ o(2)] oldest_skip [OF _ o(3)] oldest_younger [OF _ o(1)] oldest_take [OF r(1) assms(2) _ o(1)]
      by (simp add: cand_ok_def remember_def)
  qed
qed

lemma cand_empty:
  assumes "cand_ok t k c" "k < 10" "estate (t ! k) = EMPTY"
  shows "cand_ok t (Suc k) (if empty c = ARP_TABLE_SIZE then c\<lparr>empty := k\<rparr> else c)"
proof -
  have "\<not> resolved (t ! k)" "\<not> queued (t ! k)" "\<not> unqueued (t ! k)" using assms(3) by simp_all
  then show ?thesis using assms oldest_skip [of resolved t k] oldest_skip [of queued t k] oldest_skip [of unqueued t k]
    by (auto simp: cand_ok_def)
qed

lemma find_scan_ok:
  assumes "length t = 10" "k \<le> 10" "cand_ok t k c" "\<forall>j < k. estate (t ! j) \<noteq> EMPTY \<longrightarrow> ip \<noteq> Some (ipaddr (t ! j))"
  shows "case find_scan ip k (drop k t) c of
      Inl i \<Rightarrow> i < 10 \<and> estate (t ! i) \<noteq> EMPTY \<and> ip = Some (ipaddr (t ! i))
    | Inr c' \<Rightarrow> cand_ok t 10 c' \<and> (\<forall>j < 10. estate (t ! j) \<noteq> EMPTY \<longrightarrow> ip \<noteq> Some (ipaddr (t ! j)))"
  using assms(2-4)
proof (induction "10 - k" arbitrary: k c)
  case 0
  then show ?case using assms(1) by simp
next
  case (Suc n)
  then have k: "k < 10" by simp
  have d: "drop k t = t ! k # drop (Suc k) t" using k assms(1) by (simp add: Cons_nth_drop_Suc)
  note IH = Suc.hyps(1) [of "Suc k"]
  show ?case
  proof (cases "estate (t ! k) = EMPTY")
    case True
    have "find_scan ip k (drop k t) c = find_scan ip (Suc k) (drop (Suc k) t) (if empty c = ARP_TABLE_SIZE then c\<lparr>empty := k\<rparr> else c)"
      unfolding d using True by simp
    then show ?thesis using IH [OF _ _ cand_empty [OF Suc.prems(2) k True]] Suc.hyps(2) Suc.prems(3) k True by (simp add: less_Suc_eq)
  next
    case False
    show ?thesis
    proof (cases "ip = Some (ipaddr (t ! k))")
      case True
      then show ?thesis unfolding d using False k by simp
    next
      case ne: False
      then have "find_scan ip k (drop k t) c = find_scan ip (Suc k) (drop (Suc k) t) (remember k (t ! k) c)" unfolding d using False by simp
      then show ?thesis using IH [OF _ _ cand_remember [OF Suc.prems(2) k False]] Suc.hyps(2) Suc.prems(3) k ne by (simp add: less_Suc_eq)
    qed
  qed
qed

lemma no_candidates_ok: "cand_ok t 0 no_candidates"
  by (simp add: cand_ok_def no_candidates_def oldest_def)

text \<open>The entry to give up when the table is full: a resolved one, else one without a packet, else any, and of these the oldest.\<close>

definition victim :: "etharp_entry list \<Rightarrow> nat \<Rightarrow> bool" where
  "victim t i \<longleftrightarrow> i < ARP_TABLE_SIZE \<and>
     (let P = (if \<exists>j < ARP_TABLE_SIZE. resolved (t ! j) then resolved else if \<exists>j < ARP_TABLE_SIZE. unqueued (t ! j) then unqueued else queued)
      in P (t ! i) \<and> (\<forall>j < ARP_TABLE_SIZE. P (t ! j) \<longrightarrow> ctime (t ! j) \<le> ctime (t ! i)))"

lemma oldestD:
  assumes "oldest t 10 P i a"
  shows "i < 10 \<longleftrightarrow> (\<exists>j < 10. P (t ! j))" "i < 10 \<Longrightarrow> P (t ! i) \<and> (\<forall>j < 10. P (t ! j) \<longrightarrow> ctime (t ! j) \<le> ctime (t ! i))"
  using assms by (auto simp: oldest_def split: if_splits)

lemma recycle_ok:
  assumes "cand_ok t 10 c" "\<forall>j < 10. estate (t ! j) \<noteq> EMPTY"
  shows "\<exists>i. recycle c = Some i \<and> victim t i"
proof -
  have o: "oldest t 10 resolved (old_stable c) (age_stable c)" "oldest t 10 unqueued (old_pending c) (age_pending c)" "oldest t 10 queued (old_queue c) (age_queue c)"
    using assms(1) by (simp_all add: cand_ok_def)
  note r = oldestD [OF o(1)] and u = oldestD [OF o(2)] and q = oldestD [OF o(3)]
  have all: "resolved (t ! 0) \<or> unqueued (t ! 0) \<or> queued (t ! 0)" using assms(2) by (cases "estate (t ! 0)" rule: state_cases) auto
  consider "old_stable c < 10" | "\<not> old_stable c < 10" "old_pending c < 10" | "\<not> old_stable c < 10" "\<not> old_pending c < 10" "old_queue c < 10"
    using r(1) u(1) q(1) all by (meson zero_less_numeral)
  then show ?thesis
  proof cases
    case 1
    then show ?thesis using r by (intro exI [of _ "old_stable c"]) (simp add: recycle_def victim_def Let_def)
  next
    case 2
    then have "\<not> (\<exists>j < 10. resolved (t ! j))" "\<exists>j < 10. unqueued (t ! j)" using r(1) u(1) by blast+
    then show ?thesis using 2 u(2) by (intro exI [of _ "old_pending c"]) (auto simp: recycle_def victim_def Let_def)
  next
    case 3
    then have "\<not> (\<exists>j < 10. resolved (t ! j))" "\<not> (\<exists>j < 10. unqueued (t ! j))" using r(1) u(1) by blast+
    then show ?thesis using 3 q(2) by (intro exI [of _ "old_queue c"]) (auto simp: recycle_def victim_def Let_def)
  qed
qed

definition full :: "etharp_entry list \<Rightarrow> bool" where
  "full t \<longleftrightarrow> (\<forall>j < ARP_TABLE_SIZE. estate (t ! j) \<noteq> EMPTY)"

text \<open>The entry that was created for \<open>ip\<close> in the place of \<open>e\<close>.\<close>

definition created :: "u32 \<Rightarrow> etharp_entry \<Rightarrow> etharp_entry" where
  "created ip e = e\<lparr>equeue := 0, estate := EMPTY, ipaddr := ip, ctime := 0\<rparr>"

lemma find_entry_cases:
  assumes "table_ok A (arp_table s)" "etharp_find_entry A (Some ip) flags s = Some (r, s')"
  obtains (hit) i where "r = Inr i" "s' = s" "i < 10" "estate (arp_table s ! i) \<noteq> EMPTY" "ipaddr (arp_table s ! i) = ip"
  | (miss) "r = Inl ERR_MEM" "s' = s" "\<not> has_entry (arp_table s) ip"
      "flags AND ETHARP_FLAG_FIND_ONLY \<noteq> 0 \<or> full (arp_table s) \<and> flags AND ETHARP_FLAG_TRY_HARD = 0"
  | (new) i where "r = Inr i" "i < 10" "\<not> has_entry (arp_table s) ip" "flags AND ETHARP_FLAG_FIND_ONLY = 0"
      "arp_table s' = (arp_table s)[i := created ip (arp_table s ! i)]" "etharp_cached_entry s' = etharp_cached_entry s"
      "if full (arp_table s) then victim (arp_table s) i else estate (arp_table s ! i) = EMPTY"
proof -
  let ?t = "arp_table s"
  have len: "length ?t = 10" and q: "\<And>i. i < 10 \<Longrightarrow> estate (?t ! i) = EMPTY \<Longrightarrow> equeue (?t ! i) = 0"
    using assms(1) by (auto simp: table_ok_def entry_ok_def)
  note scan = find_scan_ok [OF len _ no_candidates_ok, of "Some ip", simplified]
  show ?thesis
  proof (cases "find_scan (Some ip) 0 ?t no_candidates")
    case (Inl i)
    then have "i < 10" "estate (?t ! i) \<noteq> EMPTY" "ipaddr (?t ! i) = ip" using scan by simp_all
    moreover have "r = Inr i" "s' = s" using Inl assms(2) by (simp_all add: etharp_find_entry_def)
    ultimately show ?thesis using hit by blast
  next
    case (Inr c)
    have c: "cand_ok ?t 10 c" "\<not> has_entry ?t ip" using scan Inr len by (auto simp: has_entry_def)
    have e: "empty c < 10 \<longleftrightarrow> \<not> full ?t" "empty c < 10 \<Longrightarrow> estate (?t ! empty c) = EMPTY" "empty c \<noteq> 10 \<Longrightarrow> empty c < 10"
      using c(1) by (auto simp: cand_ok_def full_def split: if_splits)
    note run = assms(2) [unfolded etharp_find_entry_def Inr sum.case]
    show ?thesis
    proof (cases "flags AND ETHARP_FLAG_FIND_ONLY \<noteq> 0 \<or> empty c = ARP_TABLE_SIZE \<and> flags AND ETHARP_FLAG_TRY_HARD = 0")
      case True
      then have "r = Inl ERR_MEM" "s' = s" using run by auto
      moreover have "flags AND ETHARP_FLAG_FIND_ONLY \<noteq> 0 \<or> full ?t \<and> flags AND ETHARP_FLAG_TRY_HARD = 0" using True e(1) by auto
      ultimately show ?thesis using miss c(2) by blast
    next
      case flags: False
      show ?thesis
      proof (cases "empty c < 10")
        case True
        have "(?t ! empty c)\<lparr>ipaddr := ip, ctime := 0\<rparr> = created ip (?t ! empty c)"
          using e(2) [OF True] q [OF True] by (cases "?t ! empty c") (simp add: created_def)
        then show ?thesis using new [of "empty c"] run flags True c(2) e by auto
      next
        case False
        then have f: "full ?t" using e(1) by simp
        then obtain i where i: "recycle c = Some i" "victim ?t i" using recycle_ok [OF c(1)] by (auto simp: full_def)
        then have i10: "i < 10" by (simp add: victim_def)
        obtain s1 where s1: "etharp_free_entry A i s = Some s1"
          "r = Inr i" "s' = upd_entry i (\<lambda>e. e\<lparr>ipaddr := ip, ctime := 0\<rparr>) s1"
          using run flags False i(1) by (auto split: option.splits)
        have "arp_table s' = ?t[i := created ip (?t ! i)]" "etharp_cached_entry s' = etharp_cached_entry s"
          using free_entry_table [OF s1(1)] s1(3) i10 len by (simp_all add: created_def)
        then show ?thesis using new [of i] s1(2) i10 c(2) flags f i(2) by simp
      qed
    qed
  qed
qed

lemma find_entry_ok:
  assumes "arp_ok A s" "etharp_find_entry A (Some ip) flags s = Some (r, s')"
  shows "arp_ok A s'"
proof -
  have t: "table_ok A (arp_table s)" using assms(1) by (simp add: arp_ok_def)
  from t assms(2) show ?thesis
  proof (cases rule: find_entry_cases)
    case (new i)
    have "table_ok A ((arp_table s)[i := created ip (arp_table s ! i)])"
      by (rule table_ok_update [OF t new(2)]) (simp_all add: created_def entry_ok_def)
    then show ?thesis using new assms(1) by (simp add: arp_ok_def)
  qed (use assms(1) in simp_all)
qed

section \<open>Every function keeps the invariant\<close>

lemma each_entry_ok:
  assumes "\<And>i s s'. i \<in> set is \<Longrightarrow> P s \<Longrightarrow> f i s = Some s' \<Longrightarrow> P s'" "P s" "each_entry f is s = Some s'"
  shows "P s'"
  using assms by (induction "is" arbitrary: s) (auto split: option.splits)

lemma arp_ok_same: "same_table s s' \<Longrightarrow> arp_ok A s' = arp_ok A s"
  by (simp add: arp_ok_def same_table_def)

lemmas output_keeps = arp_ok_same [OF ethernet_output_table, THEN iffD2]

lemma arp_ok_mem [simp]: "arp_ok A (s\<lparr>mem_of := h\<rparr>) = arp_ok A s" "arp_ok A (s\<lparr>dev := d\<rparr>) = arp_ok A s"
  by (simp_all add: arp_ok_def)

lemma arp_ok_entry:
  assumes "arp_ok A s" "i < 10" "entry_ok A (f (arp_table s ! i))"
    "estate (f (arp_table s ! i)) \<noteq> EMPTY \<longrightarrow> estate (arp_table s ! i) \<noteq> EMPTY \<and> ipaddr (f (arp_table s ! i)) = ipaddr (arp_table s ! i) \<or>
      \<not> has_entry (arp_table s) (ipaddr (f (arp_table s ! i)))"
  shows "arp_ok A (upd_entry i f s)"
  using assms table_ok_update [of A "arp_table s" i "f (arp_table s ! i)"] by (simp add: arp_ok_def)

text \<open>After the search for a unicast address the entry found may become any other state.\<close>

lemma found_entry:
  assumes "arp_ok A s" "etharp_find_entry A (Some ip) flags s = Some (Inr i, s')"
  shows "i < 10" "ipaddr (arp_table s' ! i) = ip" "estate (arp_table s' ! i) \<noteq> EMPTY \<or> \<not> has_entry (arp_table s') ip"
    "estate (arp_table s' ! i) = EMPTY \<Longrightarrow> ctime (arp_table s' ! i) = 0 \<and> equeue (arp_table s' ! i) = 0"
proof -
  have t: "table_ok A (arp_table s)" using assms(1) by (simp add: arp_ok_def)
  then have len: "length (arp_table s) = 10" by (simp add: table_ok_def)
  from t assms(2) have "i < 10 \<and> ipaddr (arp_table s' ! i) = ip \<and> (estate (arp_table s' ! i) \<noteq> EMPTY \<or> \<not> has_entry (arp_table s') ip) \<and>
    (estate (arp_table s' ! i) = EMPTY \<longrightarrow> ctime (arp_table s' ! i) = 0 \<and> equeue (arp_table s' ! i) = 0)"
  proof (cases rule: find_entry_cases)
    case (new j)
    then show ?thesis using len by (auto simp: has_entry_def created_def nth_list_update)
  qed simp_all
  then show "i < 10" "ipaddr (arp_table s' ! i) = ip" "estate (arp_table s' ! i) \<noteq> EMPTY \<or> \<not> has_entry (arp_table s') ip"
    "estate (arp_table s' ! i) = EMPTY \<Longrightarrow> ctime (arp_table s' ! i) = 0 \<and> equeue (arp_table s' ! i) = 0" by blast+
qed

lemma update_ok:
  assumes "arp_ok A s" "etharp_update_arp_entry A netif ip mac flags s = Some (r, s')"
  shows "arp_ok A s'"
proof (cases "ip4_addr_isany ip \<or> ip4_addr_isbroadcast ip (netif_at A netif) \<or> ip4_addr_ismulticast ip")
  case True
  then show ?thesis using assms by (simp add: etharp_update_arp_entry_def)
next
  case uni: False
  then obtain x s1 where f: "etharp_find_entry A (Some ip) flags s = Some (x, s1)"
    using assms(2) by (auto simp: etharp_update_arp_entry_def split: option.splits)
  note ok1 = find_entry_ok [OF assms(1) f]
  show ?thesis
  proof (cases x)
    case (Inl e)
    then show ?thesis using assms(2) uni f ok1 by (simp add: etharp_update_arp_entry_def)
  next
    case (Inr i)
    note fe = found_entry [OF assms(1) f [unfolded Inr]]
    let ?s = "upd_entry i (\<lambda>e. e\<lparr>estate := ETHARP_STATE_STABLE, enetif := netif, ethaddr := mac, ctime := 0, equeue := 0\<rparr>) s1"
    have ok2: "arp_ok A ?s" by (rule arp_ok_entry [OF ok1 fe(1)]) (use fe uni in \<open>auto simp: entry_ok_def ARP_MAXAGE_def\<close>)
    show ?thesis using assms(2) uni f Inr ok2
      by (auto simp: etharp_update_arp_entry_def Let_def bind_eq_Some_conv split: if_splits dest: output_keeps)
  qed
qed

lemma cleanup_ok:
  assumes "arp_ok A s" "etharp_cleanup_netif A netif s = Some s'"
  shows "arp_ok A s'"
  using assms(2) unfolding etharp_cleanup_netif_def
  by (rule each_entry_ok [where P = "arp_ok A", rotated 2]) (use assms(1) free_entry_ok in \<open>auto simp: cleanup_entry_def split: if_splits\<close>)

lemma output_index_ok:
  assumes "arp_ok A s" "i < 10" "etharp_output_to_arp_index A netif q i s = Some (r, s')"
  shows "arp_ok A s'"
proof -
  have again: "arp_ok A (upd_entry i (\<lambda>e. e\<lparr>estate := ETHARP_STATE_STABLE_REREQUESTING_1\<rparr>) s1)"
    if "estate (arp_table s ! i) = ETHARP_STATE_STABLE" "same_table s s1" for s1
  proof (rule arp_ok_entry)
    show "arp_ok A s1" using that(2) assms(1) arp_ok_same by blast
    have "entry_ok A (arp_table s ! i)" using assms(1,2) by (simp add: arp_ok_def table_ok_def)
    then show "entry_ok A ((arp_table s1 ! i)\<lparr>estate := ETHARP_STATE_STABLE_REREQUESTING_1\<rparr>)" using that by (simp add: entry_ok_def same_table_def)
  qed (use that assms(2) in \<open>auto simp: same_table_def\<close>)
  show ?thesis
    using assms(1,3) again arp_ok_same [OF ethernet_output_table] arp_ok_same [OF etharp_request_table] arp_ok_same [OF etharp_request_dst_table]
      etharp_request_table etharp_request_dst_table
    unfolding etharp_output_to_arp_index_def Let_def
    by (fastforce simp: bind_eq_Some_conv split: if_splits)
qed

lemma queue_or_send_ok:
  assumes "arp_ok A s" "i < 10" "queue_or_send A netif q i r s = Some (r', s')"
  shows "arp_ok A s'"
proof -
  have e: "entry_ok A (arp_table s ! i)" using assms(1,2) by (simp add: arp_ok_def table_ok_def)
  consider "stable (estate (arp_table s ! i))" | "estate (arp_table s ! i) = PENDING" | "estate (arp_table s ! i) = EMPTY"
    by (cases "estate (arp_table s ! i)" rule: state_cases) auto
  then show ?thesis
  proof cases
    case 1
    have "arp_ok A (s\<lparr>etharp_cached_entry := i\<rparr>)" using assms(1,2) by (simp add: arp_ok_def)
    then show ?thesis using 1 assms(3) output_keeps by (auto simp: queue_or_send_def Let_def)
  next
    case 2
    have "arp_ok A (upd_entry i (\<lambda>e. e\<lparr>equeue := p\<rparr>) (s\<lparr>mem_of := h\<rparr>))" for p h
      by (rule arp_ok_entry) (use assms(1,2) e 2 in \<open>auto simp: entry_ok_def\<close>)
    then show ?thesis using 2 assms(1,3) by (auto simp: queue_or_send_def Let_def bind_eq_Some_conv split: if_splits)
  next
    case 3
    then show ?thesis using assms(1,3) by (auto simp: queue_or_send_def Let_def)
  qed
qed

lemma query_ok:
  assumes "arp_ok A s" "etharp_query A netif ip q s = Some (r, s')"
  shows "arp_ok A s'"
proof (cases "ip4_addr_isbroadcast ip (netif_at A netif) \<or> ip4_addr_ismulticast ip \<or> ip4_addr_isany ip")
  case True
  then show ?thesis using assms by (simp add: etharp_query_def Let_def)
next
  case uni: False
  then obtain x s1 where f: "etharp_find_entry A (Some ip) ETHARP_FLAG_TRY_HARD s = Some (x, s1)"
    using assms(2) by (auto simp: etharp_query_def Let_def split: option.splits)
  note ok1 = find_entry_ok [OF assms(1) f]
  show ?thesis
  proof (cases x)
    case (Inl e)
    then show ?thesis using assms(2) uni f ok1 by (simp add: etharp_query_def Let_def)
  next
    case (Inr i)
    note fe = found_entry [OF assms(1) f [unfolded Inr]]
    define s2 where "s2 = (if estate (arp_table s1 ! i) = EMPTY then upd_entry i (\<lambda>e. e\<lparr>estate := PENDING, enetif := netif\<rparr>) s1 else s1)"
    have ok2: "arp_ok A s2"
    proof (cases "estate (arp_table s1 ! i) = EMPTY")
      case True
      have "arp_ok A (upd_entry i (\<lambda>e. e\<lparr>estate := PENDING, enetif := netif\<rparr>) s1)"
        by (rule arp_ok_entry [OF ok1 fe(1)]) (use fe True uni in \<open>auto simp: entry_ok_def ARP_MAXPENDING_def\<close>)
      then show ?thesis using True by (simp add: s2_def)
    qed (simp add: s2_def ok1)
    have run: "do {
        (result, s) \<leftarrow> (if estate (arp_table s1 ! i) = EMPTY \<or> q = 0 then etharp_request A netif ip s2 else Some (ERR_MEM, s2));
        if q = 0 then Some (result, s)
        else queue_or_send A netif q i result s
      } = Some (r, s')"
      using assms(2) uni f unfolding etharp_query_def Inr s2_def by (simp add: Let_def)
    then obtain r3 s3 where s3: "(if estate (arp_table s1 ! i) = EMPTY \<or> q = 0 then etharp_request A netif ip s2 else Some (ERR_MEM, s2)) = Some (r3, s3)"
      "(if q = 0 then Some (r3, s3) else queue_or_send A netif q i r3 s3) = Some (r, s')"
      unfolding bind_eq_Some_conv by force
    have "same_table s2 s3" using s3(1) etharp_request_table [of A netif ip s2] by (auto simp: same_table_def split: if_splits)
    then have "arp_ok A s3" using ok2 arp_ok_same by blast
    then show ?thesis using s3(2) queue_or_send_ok [OF _ fe(1)] by (cases "q = 0") auto
  qed
qed

lemma find_stable_ok:
  "find_stable ip k es = Some i \<Longrightarrow> k \<le> i \<and> i < k + length es \<and> stable (estate (es ! (i - k))) \<and> ipaddr (es ! (i - k)) = ip"
proof (induction ip k es rule: find_stable.induct)
  case (2 ip k e es)
  then show ?case by (cases "i = k") (auto simp: nth_Cons' split: if_splits)
qed simp

lemma etharp_output_ok:
  assumes "arp_ok A s" "etharp_output A netif q ip s = Some (r, s')"
  shows "arp_ok A s'"
proof -
  have i: "i < 10" "arp_ok A (s\<lparr>etharp_cached_entry := i\<rparr>)" if "find_stable dst 0 (arp_table s) = Some i" for i dst
    using find_stable_ok [OF that] assms(1) by (simp_all add: arp_ok_def table_ok_def)
  have c: "etharp_cached_entry s < 10" using assms(1) by (simp add: arp_ok_def)
  show ?thesis
    using assms(2) output_keeps [OF _ assms(1)] output_index_ok [OF assms(1) c] output_index_ok [OF i(2,1)] query_ok [OF assms(1)] assms(1)
    unfolding etharp_output_def Let_def by (auto split: if_splits option.splits)
qed

lemma etharp_input_ok:
  assumes "arp_ok A s" "etharp_input A p netif s = Some s'"
  shows "arp_ok A s'"
  using assms(2) update_ok [OF assms(1)] arp_ok_same [OF etharp_raw_table, THEN iffD2] assms(1)
  unfolding etharp_input_def Let_def by (fastforce simp: bind_eq_Some_conv split: if_splits)

lemma ethernet_input_ok:
  assumes "arp_ok A s" "ethernet_input A ip4_input p netif s = Some (r, s')"
    "\<And>s s'. arp_ok A s \<Longrightarrow> ip4_input p netif s = Some s' \<Longrightarrow> arp_ok A s'"
  shows "arp_ok A s'"
proof -
  have up: "arp_ok A s1" if "ip4_input p netif (s\<lparr>mem_of := h\<rparr>) = Some s1 \<or> etharp_input A p netif (s\<lparr>mem_of := h\<rparr>) = Some s1" for h s1
    using that assms(1) assms(3) [of "s\<lparr>mem_of := h\<rparr>" s1] etharp_input_ok [of A "s\<lparr>mem_of := h\<rparr>" p netif s1] by auto
  obtain b where b: "pb (mem_of s) p = Some b" using assms(2) by (auto simp: ethernet_input_def bind_eq_Some_conv)
  have free: "free_and_return A p (s\<lparr>mem_of := h\<rparr>) = Some (r, s') \<Longrightarrow> arp_ok A s'" for h
    using assms(1) by (auto simp: free_and_return_def bind_eq_Some_conv)
  have "s\<lparr>mem_of := mem_of s\<rparr> = s" by simp
  then show ?thesis using assms(2) free free [of "mem_of s"] up unfolding ethernet_input_def b Let_def
    by (auto simp: bind_eq_Some_conv split: if_split_asm)
qed

section \<open>Runs\<close>

text \<open>
  Everything that happens to the table from the start, where it is empty: the calls of the timer, of
  received messages and of the IP layer, in any order; \<open>other\<close> is whatever does not touch it.
\<close>

definition arp_start :: "('d, 'z) arp_scheme \<Rightarrow> bool" where
  "arp_start s \<longleftrightarrow> length (arp_table s) = ARP_TABLE_SIZE \<and> (\<forall>e \<in> set (arp_table s). estate e = EMPTY \<and> equeue e = 0) \<and> etharp_cached_entry s = 0"

inductive arp_run :: "'d arp_env \<Rightarrow> ('d, 'z) arp_scheme \<Rightarrow> bool" for A where
  start: "arp_start s \<Longrightarrow> arp_run A s"
| other: "arp_run A s \<Longrightarrow> same_table s s' \<Longrightarrow> arp_run A s'"
| timer: "arp_run A s \<Longrightarrow> etharp_tmr A s = Some s' \<Longrightarrow> arp_run A s'"
| message: "arp_run A s \<Longrightarrow> etharp_input A p netif s = Some s' \<Longrightarrow> arp_run A s'"
| out: "arp_run A s \<Longrightarrow> etharp_output A netif q ip s = Some (r, s') \<Longrightarrow> arp_run A s'"
| query: "arp_run A s \<Longrightarrow> etharp_query A netif ip q s = Some (r, s') \<Longrightarrow> arp_run A s'"
| cleanup: "arp_run A s \<Longrightarrow> etharp_cleanup_netif A netif s = Some s' \<Longrightarrow> arp_run A s'"

lemma arp_start_ok: "arp_start s \<Longrightarrow> arp_ok A s"
  by (auto simp: arp_start_def arp_ok_def table_ok_def entry_ok_def)

lemma arp_run_ok: "arp_run A s \<Longrightarrow> arp_ok A s"
proof (induction rule: arp_run.induct)
  case (other s s')
  then show ?case using arp_ok_same by blast
qed (auto intro: arp_start_ok etharp_tmr_ok etharp_input_ok etharp_output_ok query_ok cleanup_ok)

section \<open>The table as a map\<close>

definition arp_map :: "etharp_entry list \<Rightarrow> u32 \<Rightarrow> u8 list option" where
  "arp_map t ip = map_option (\<lambda>i. ethaddr (t ! i)) (find_stable ip 0 t)"

lemma find_stable_None: "find_stable ip k es = None \<longleftrightarrow> (\<forall>e \<in> set es. \<not> (stable (estate e) \<and> ipaddr e = ip))"
  by (induction ip k es rule: find_stable.induct) auto

lemma arp_map_iff:
  assumes "table_ok A t"
  shows "arp_map t ip = Some m \<longleftrightarrow> (\<exists>i < 10. stable (estate (t ! i)) \<and> ipaddr (t ! i) = ip \<and> ethaddr (t ! i) = m)"
proof
  assume "arp_map t ip = Some m"
  then obtain i where "find_stable ip 0 t = Some i" "ethaddr (t ! i) = m" by (auto simp: arp_map_def)
  then show "\<exists>i < 10. stable (estate (t ! i)) \<and> ipaddr (t ! i) = ip \<and> ethaddr (t ! i) = m"
    using find_stable_ok [of ip 0 t i] assms by (auto simp: table_ok_def)
next
  assume "\<exists>i < 10. stable (estate (t ! i)) \<and> ipaddr (t ! i) = ip \<and> ethaddr (t ! i) = m"
  then obtain i where i: "i < 10" "stable (estate (t ! i))" "ipaddr (t ! i) = ip" "ethaddr (t ! i) = m" by blast
  have len: "length t = 10" using assms by (simp add: table_ok_def)
  then have "t ! i \<in> set t" using i(1) by simp
  then obtain j where j: "find_stable ip 0 t = Some j" using i(2,3) find_stable_None [of ip 0 t] by blast
  have "j = i" using find_stable_ok [OF j] i assms len stableD by (auto simp: table_ok_def)
  then show "arp_map t ip = Some m" using j i(4) by (simp add: arp_map_def)
qed

lemma arp_map_eqI:
  assumes "table_ok A t" "table_ok A t'" "\<And>m. (\<exists>i < 10. stable (estate (t' ! i)) \<and> ipaddr (t' ! i) = ip' \<and> ethaddr (t' ! i) = m) \<longleftrightarrow>
      (\<exists>i < 10. stable (estate (t ! i)) \<and> ipaddr (t ! i) = ip \<and> ethaddr (t ! i) = m)"
  shows "arp_map t' ip' = arp_map t ip"
  using assms arp_map_iff [OF assms(1), of ip] arp_map_iff [OF assms(2), of ip'] by (metis option.exhaust)

lemma arp_map_update:
  assumes "table_ok A t" "table_ok A (t[i := e])" "i < 10" "stable (estate e)"
  shows "arp_map (t[i := e]) a = (if a = ipaddr e then Some (ethaddr e)
    else if resolved (t ! i) \<and> a = ipaddr (t ! i) then None else arp_map t a)"
proof -
  have len: "length t = 10" using assms(1) by (simp add: table_ok_def)
  have uniq: "j = i" if "j < 10" "resolved (t ! j)" "resolved (t ! i)" "ipaddr (t ! j) = ipaddr (t ! i)" for j
    using that assms(1,3) stableD by (auto simp: table_ok_def)
  consider "a = ipaddr e" | "a \<noteq> ipaddr e" "resolved (t ! i)" "a = ipaddr (t ! i)" | "a \<noteq> ipaddr e" "\<not> (resolved (t ! i) \<and> a = ipaddr (t ! i))" by blast
  then show ?thesis
  proof cases
    case 1
    have "arp_map (t[i := e]) a = Some (ethaddr e)"
      unfolding arp_map_iff [OF assms(2)] by (rule exI [of _ i]) (use 1 assms(3,4) len in simp)
    then show ?thesis using 1 by simp
  next
    case 2
    have "\<not> (\<exists>j < 10. stable (estate (t[i := e] ! j)) \<and> ipaddr (t[i := e] ! j) = a \<and> ethaddr (t[i := e] ! j) = m)" for m
      using 2 uniq len assms(3) by (metis nth_list_update_eq nth_list_update_neq)
    then have "arp_map (t[i := e]) a = None" using arp_map_iff [OF assms(2), of a] by (metis option.exhaust)
    then show ?thesis using 2 by simp
  next
    case 3
    have "arp_map (t[i := e]) a = arp_map t a"
      by (rule arp_map_eqI [OF assms(1,2)]) (use 3 len assms(3) in \<open>metis nth_list_update_eq nth_list_update_neq\<close>)
    then show ?thesis using 3 by metis
  qed
qed

end
