(* ===== verification/Arp_Properties.thy ===== *)
theory Arp_Properties
  imports Etharp_Correct
begin

text \<open>
  Properties of address resolution: the table stays well formed, updates are those of a map with a
  bounded number of entries, who may write into it, how long entries live, and where packets go.
\<close>

section \<open>Updates\<close>

text \<open>The entry after an update.\<close>

definition learned :: "nat \<Rightarrow> u8 list \<Rightarrow> etharp_entry \<Rightarrow> etharp_entry" where
  "learned netif mac e = e\<lparr>estate := ETHARP_STATE_STABLE, enetif := netif, ethaddr := mac, ctime := 0, equeue := 0\<rparr>"

lemma update_cases:
  assumes "arp_ok A s" "etharp_update_arp_entry A netif ip mac flags s = Some (r, s')"
  obtains (nonunicast) "r = ERR_ARG" "s' = s" "ip4_addr_isany ip \<or> ip4_addr_isbroadcast ip (netif_at A netif) \<or> ip4_addr_ismulticast ip"
  | (refused) "r = ERR_MEM" "s' = s" "\<not> has_entry (arp_table s) ip"
      "flags AND ETHARP_FLAG_FIND_ONLY \<noteq> 0 \<or> full (arp_table s) \<and> flags AND ETHARP_FLAG_TRY_HARD = 0"
  | (refreshed) i where "r = ERR_OK" "i < 10" "estate (arp_table s ! i) \<noteq> EMPTY" "ipaddr (arp_table s ! i) = ip"
      "arp_table s' = (arp_table s)[i := learned netif mac (arp_table s ! i)]"
  | (added) i where "r = ERR_OK" "i < 10" "\<not> has_entry (arp_table s) ip" "flags AND ETHARP_FLAG_FIND_ONLY = 0"
      "arp_table s' = (arp_table s)[i := learned netif mac (created ip (arp_table s ! i))]"
      "if full (arp_table s) then victim (arp_table s) i else estate (arp_table s ! i) = EMPTY"
proof (cases "ip4_addr_isany ip \<or> ip4_addr_isbroadcast ip (netif_at A netif) \<or> ip4_addr_ismulticast ip")
  case True
  then show ?thesis using assms(2) nonunicast by (simp add: etharp_update_arp_entry_def)
next
  case uni: False
  have t: "table_ok A (arp_table s)" "length (arp_table s) = 10" using assms(1) by (simp_all add: arp_ok_def table_ok_def)
  obtain x s1 where f: "etharp_find_entry A (Some ip) flags s = Some (x, s1)"
    using assms(2) uni by (auto simp: etharp_update_arp_entry_def split: option.splits)
  have upd: "r = ERR_OK \<and> arp_table s' = (arp_table s1)[i := learned netif mac (arp_table s1 ! i)]" if "x = Inr i" for i
    using assms(2) uni f that
    by (auto simp: etharp_update_arp_entry_def Let_def bind_eq_Some_conv learned_def split: if_splits dest!: ethernet_output_table same_tableD(1))
  from t(1) f show ?thesis
  proof (cases rule: find_entry_cases)
    case (hit i)
    then show ?thesis using refreshed [of i] upd by simp
  next
    case miss
    then show ?thesis using refused assms(2) uni f by (simp add: etharp_update_arp_entry_def)
  next
    case (new i)
    then show ?thesis using added [of i] upd [OF new(1)] t(2) by simp
  qed
qed


text \<open>Calls of the timer without anything in between.\<close>

fun ticks :: "'d arp_env \<Rightarrow> nat \<Rightarrow> ('d, 'z) arp_scheme \<Rightarrow> ('d, 'z) arp_scheme option" where
  "ticks A 0 s = Some s"
| "ticks A (Suc n) s = Option.bind (etharp_tmr A s) (ticks A n)"

section \<open>An interface with an empty table\<close>

definition arp_demo_netif :: netif where
  "arp_demo_netif = \<lparr>netif_up = True, netif_link_up = True, hwaddr = MAC_ADDR, mtu = 1500, flag_broadcast = True, flag_etharp = True, if_name = ''st'',
     ip_config = ([192, 168, 1, 2], [255, 255, 255, 0], [192, 168, 1, 1])\<rparr>"

definition demo_arp_env :: "unit arp_env" where
  "demo_arp_env = \<lparr>penv = driver_env (\<lambda>n h. None), netif_at = \<lambda>_. arp_demo_netif, linkoutput = \<lambda>_ _ _. return (Some ERR_OK)\<rparr>"

text \<open>A message in a receive buffer: 192.168.1.1 asks for 192.168.1.7.\<close>

definition arp_message :: "u8 list" where
  "arp_message = be16 1 @ be16 0x800 @ [6, 4] @ be16 1 @ [2, 0, 0, 0, 0, 9] @ [192, 168, 1, 1] @ [0, 0, 0, 0, 0, 0] @ [192, 168, 1, 7]"

definition demo_arp :: "unit arp" where
  "demo_arp = \<lparr>arp_table = replicate ARP_TABLE_SIZE \<lparr>equeue = 0, ipaddr = 0, enetif = 0, ethaddr = [], ctime = 0, estate = ETHARP_STATE_EMPTY\<rparr>,
     etharp_cached_entry = 0,
     mem_of = memcpy_to 5000 arp_message (put_pbuf 100 \<lparr>pnext = 0, payload = 5000, tot_len = 28, plen = 28, ptype = PBUF_REF,
       pflags = PBUF_FLAG_IS_CUSTOM, pref = 1\<rparr> demo_store), dev = ()\<rparr>"

abbreviation pc :: u32 where "pc \<equiv> 0x0101A8C0"

lemma demo_start: "arp_start demo_arp"
  by (simp add: arp_start_def demo_arp_def)

lemmas demo_defs = demo_arp_env_def arp_demo_netif_def demo_arp_def ip4_addr_isany_def ip4_addr_ismulticast_def ip4_addr_isbroadcast_def
  IPADDR_ANY_def IPADDR_BROADCAST_def netif_ip4_addr_def netif_ip4_netmask_def netif_ip4_gw_def le32_def lwip_htonl_def ip4_addr_netcmp_def

lemma pc_unicast: "\<not> ip4_addr_isany pc" "\<not> ip4_addr_ismulticast pc" "\<not> ip4_addr_isbroadcast pc arp_demo_netif"
  by (simp_all add: demo_defs)

lemma demo_find: "etharp_find_entry demo_arp_env (Some a) ETHARP_FLAG_TRY_HARD demo_arp = Some (Inr 0, upd_entry 0 (\<lambda>e. e\<lparr>ipaddr := a, ctime := 0\<rparr>) demo_arp)"
  by (simp add: etharp_find_entry_def demo_arp_def no_candidates_def ETHARP_FLAG_TRY_HARD_def ETHARP_FLAG_FIND_ONLY_def numeral_eq_Suc)


lemma demo_first: "arp_table demo_arp ! 0 = \<lparr>equeue = 0, ipaddr = 0, enetif = 0, ethaddr = [], ctime = 0, estate = ETHARP_STATE_EMPTY\<rparr>" "length (arp_table demo_arp) = 10"
  by (simp_all add: demo_arp_def)

lemma demo_update: "\<exists>s. etharp_update_arp_entry demo_arp_env 0 pc MAC_ADDR ETHARP_FLAG_TRY_HARD demo_arp = Some (ERR_OK, s) \<and>
    arp_table s ! 0 = \<lparr>equeue = 0, ipaddr = pc, enetif = 0, ethaddr = MAC_ADDR, ctime = 0, estate = ETHARP_STATE_STABLE\<rparr> \<and>
    (\<forall>i. 0 < i \<longrightarrow> i < 10 \<longrightarrow> estate (arp_table s ! i) = ETHARP_STATE_EMPTY)"
proof -
  have "netif_at demo_arp_env 0 = arp_demo_netif" by (simp add: demo_arp_env_def)
  moreover have "arp_table demo_arp ! i = arp_table demo_arp ! 0" if "i < 10" for i using that by (simp add: demo_arp_def)
  ultimately show ?thesis using pc_unicast demo_first by (simp add: etharp_update_arp_entry_def demo_find)
qed

lemma demo_query: "\<exists>s. etharp_query demo_arp_env 0 pc 0 demo_arp = Some (ERR_MEM, s) \<and> estate (arp_table s ! 0) = ETHARP_STATE_PENDING"
proof -
  have n: "netif_at demo_arp_env 0 = arp_demo_netif" by (simp add: demo_arp_env_def)
  have "etharp_request demo_arp_env 0 a s = Some (ERR_MEM, s)" for a and s :: "unit arp"
    by (simp add: etharp_request_def etharp_request_dst_def etharp_raw_def Let_def pbuf_alloc_def demo_arp_env_def driver_env_def)
  then show ?thesis using pc_unicast demo_first unfolding etharp_query_def demo_find n by simp
qed



lemma demo_tick:
  fixes A :: "'d arp_env" and s :: "('d, 'z) arp_scheme"
  assumes "\<forall>i < 10. estate (arp_table s ! i) \<in> {ETHARP_STATE_EMPTY, ETHARP_STATE_STABLE} \<and> equeue (arp_table s ! i) = 0" "length (arp_table s) = 10"
  shows "\<exists>s'. ticks A 1 s = Some s'"
proof -
  have "\<exists>s'. each_entry (tmr_entry A) is s = Some s'"
    if "\<forall>i < 10. estate (arp_table s ! i) \<in> {ETHARP_STATE_EMPTY, ETHARP_STATE_STABLE} \<and> equeue (arp_table s ! i) = 0" "length (arp_table s) = 10"
      "set is \<subseteq> {..<10}" for "is" and s :: "('d, 'z) arp_scheme"
    using that
  proof (induction "is" arbitrary: s)
    case (Cons i "is")
    then have i: "i < 10" "estate (arp_table s ! i) \<in> {ETHARP_STATE_EMPTY, ETHARP_STATE_STABLE}" "equeue (arp_table s ! i) = 0" by auto
    let ?s = "upd_entry i (\<lambda>e. e\<lparr>ctime := ctime e + 1\<rparr>) s"
    have n: "arp_table ?s ! i = (arp_table s ! i)\<lparr>ctime := ctime (arp_table s ! i) + 1\<rparr>" using i(1) Cons.prems(2) by simp
    have "\<exists>s1. etharp_free_entry A i ?s = Some s1" unfolding etharp_free_entry_def n Let_def using i(3) by simp
    then have "\<exists>s1. tmr_entry A i s = Some s1" using i(2) unfolding tmr_entry_def Let_def n by auto
    then obtain s1 where s1: "tmr_entry A i s = Some s1" by blast
    have "arp_table s1 = (arp_table s)[i := aged (arp_table s ! i)]" using tmr_entry_table [OF _ s1] i(1) Cons.prems(2) by simp
    moreover have "estate (aged (arp_table s ! i)) \<in> {EMPTY, ETHARP_STATE_STABLE}" "equeue (aged (arp_table s ! i)) = 0"
      using i(2,3) by (auto simp: aged_def)
    ultimately show ?case using Cons s1 by (auto simp: nth_list_update)
  qed simp
  from this [OF assms, of "[0..<10]"] have "\<exists>s'. etharp_tmr A s = Some s'" by (simp add: etharp_tmr_def atLeast0LessThan)
  then show ?thesis unfolding One_nat_def ticks.simps by auto
qed

definition demo_ram :: store where "demo_ram = demo_store\<lparr>pb := [10 \<mapsto> demo_buf 40 0 4 4]\<rparr>"

section \<open>The table\<close>

text \<open>
  C33. Through any sequence of timer calls, received messages and packets to send the ARP table keeps its
  ten entries, no two of them in use for the same address; only a pending entry holds a packet, a pending entry is
  younger than 5 and a resolved one younger than 300 timer calls, and only unicast addresses are in it.
\<close>

theorem arp_table_invariant:
  assumes "arp_run A s"
  shows "length (arp_table s) = 10 \<and> etharp_cached_entry s < 10 \<and>
    (\<forall>i < 10. \<forall>j < 10. estate (arp_table s ! i) \<noteq> ETHARP_STATE_EMPTY \<and> estate (arp_table s ! j) \<noteq> ETHARP_STATE_EMPTY \<and>
       ipaddr (arp_table s ! i) = ipaddr (arp_table s ! j) \<longrightarrow> i = j) \<and>
    (\<forall>e \<in> set (arp_table s). (equeue e \<noteq> 0 \<longrightarrow> estate e = ETHARP_STATE_PENDING) \<and> (estate e = ETHARP_STATE_PENDING \<longrightarrow> ctime e < 5) \<and>
       (stable (estate e) \<longrightarrow> ctime e < 300) \<and>
       (estate e \<noteq> ETHARP_STATE_EMPTY \<longrightarrow> \<not> ip4_addr_isany (ipaddr e) \<and> \<not> ip4_addr_ismulticast (ipaddr e) \<and>
         \<not> ip4_addr_isbroadcast (ipaddr e) (netif_at A (enetif e))))"
proof -
  have ok: "arp_ok A s" by (rule arp_run_ok [OF assms])
  then have e: "entry_ok A e" if "e \<in> set (arp_table s)" for e using that by (auto simp: arp_ok_def table_ok_def in_set_conv_nth)
  have "(equeue e \<noteq> 0 \<longrightarrow> estate e = PENDING) \<and> (estate e = PENDING \<longrightarrow> ctime e < 5) \<and> (stable (estate e) \<longrightarrow> ctime e < 300) \<and>
       (estate e \<noteq> EMPTY \<longrightarrow> \<not> ip4_addr_isany (ipaddr e) \<and> \<not> ip4_addr_ismulticast (ipaddr e) \<and>
         \<not> ip4_addr_isbroadcast (ipaddr e) (netif_at A (enetif e)))" if "e \<in> set (arp_table s)" for e
    using e [OF that] by (auto simp: entry_ok_def ARP_MAXPENDING_def ARP_MAXAGE_def)
  then show ?thesis using ok by (simp add: arp_ok_def table_ok_def)
qed

theorem arp_table_invariant_witness:
  "\<exists>s. etharp_query demo_arp_env 0 pc 0 demo_arp = Some (ERR_MEM, s) \<and> estate (arp_table s ! 0) = ETHARP_STATE_PENDING \<and>
     length (arp_table s) = 10 \<and> etharp_cached_entry s < 10"
proof -
  obtain s where s: "etharp_query demo_arp_env 0 pc 0 demo_arp = Some (ERR_MEM, s)" "estate (arp_table s ! 0) = ETHARP_STATE_PENDING"
    using demo_query by blast
  have "arp_run demo_arp_env s" using arp_run.query [OF arp_run.start [OF demo_start] s(1)] .
  from arp_table_invariant [OF this] s show ?thesis by blast
qed

text \<open>
  C34. An update of the table is an update of a map from addresses to hardware addresses. If it succeeds,
  the address is mapped to the new hardware address and every other address to what it was mapped
  before, except that a new address in a full table takes the place of the least important entry.
  It fails, changing nothing, for an address that is not unicast, and for an address without an entry
  if none may be created.
\<close>

theorem arp_update_refines_map:
  assumes "arp_ok A s" "etharp_update_arp_entry A netif ip mac flags s = Some (r, s')"
  shows "r = ERR_OK \<and> arp_map (arp_table s') ip = Some mac \<and>
      (if has_entry (arp_table s) ip \<or> \<not> full (arp_table s) then \<forall>a. a \<noteq> ip \<longrightarrow> arp_map (arp_table s') a = arp_map (arp_table s) a
       else \<exists>i. victim (arp_table s) i \<and> (\<forall>a. a \<noteq> ip \<longrightarrow> arp_map (arp_table s') a =
              (if stable (estate (arp_table s ! i)) \<and> a = ipaddr (arp_table s ! i) then None else arp_map (arp_table s) a))) \<or>
    r = ERR_ARG \<and> s' = s \<and> (ip4_addr_isany ip \<or> ip4_addr_isbroadcast ip (netif_at A netif) \<or> ip4_addr_ismulticast ip) \<or>
    r = ERR_MEM \<and> s' = s \<and> \<not> has_entry (arp_table s) ip \<and>
      (flags AND ETHARP_FLAG_FIND_ONLY \<noteq> 0 \<or> full (arp_table s) \<and> flags AND ETHARP_FLAG_TRY_HARD = 0)"
proof -
  have t: "table_ok A (arp_table s)" "table_ok A (arp_table s')" "length (arp_table s) = 10"
    using assms(1) update_ok [OF assms] by (simp_all add: arp_ok_def table_ok_def)
  from assms show ?thesis
  proof (cases rule: update_cases)
    case (refreshed i)
    have "has_entry (arp_table s) ip" using refreshed(2-4) t(3) by (auto simp: has_entry_def)
    moreover have "arp_map (arp_table s') a = (if a = ip then Some mac else arp_map (arp_table s) a)" for a
      using arp_map_update [OF t(1) t(2) [unfolded refreshed(5)] refreshed(2), of a] refreshed(4,5) by (simp add: learned_def)
    ultimately show ?thesis using refreshed(1) by simp
  next
    case (added i)
    have m: "arp_map (arp_table s') a = (if a = ip then Some mac
        else if resolved (arp_table s ! i) \<and> a = ipaddr (arp_table s ! i) then None else arp_map (arp_table s) a)" for a
      using arp_map_update [OF t(1) t(2) [unfolded added(5)] added(2), of a] added(5) by (simp add: learned_def created_def)
    show ?thesis
    proof (cases "full (arp_table s)")
      case True
      then show ?thesis using m added(1,3,6) by auto
    next
      case False
      then show ?thesis using m added(1,3,6) by simp
    qed
  qed blast+
qed

theorem arp_update_refines_map_witness:
  "\<exists>s. etharp_update_arp_entry demo_arp_env 0 pc MAC_ADDR ETHARP_FLAG_TRY_HARD demo_arp = Some (ERR_OK, s) \<and> arp_map (arp_table s) pc = Some MAC_ADDR"
proof -
  obtain s where s: "etharp_update_arp_entry demo_arp_env 0 pc MAC_ADDR ETHARP_FLAG_TRY_HARD demo_arp = Some (ERR_OK, s)" using demo_update by blast
  from arp_update_refines_map [OF arp_start_ok [OF demo_start] s] show ?thesis using s by auto
qed



section \<open>Ageing\<close>

definition lifetime :: "etharp_entry \<Rightarrow> nat" where
  "lifetime e = (if estate e = ETHARP_STATE_PENDING then 5 else 300)"

lemma aged_EMPTY: "estate e = EMPTY \<Longrightarrow> (aged ^^ n) e = e"
  by (induction n) (simp_all add: aged_def)

lemma aged_step:
  assumes "entry_ok A e" "estate e \<noteq> EMPTY"
  shows "if unat (ctime e) + 1 < lifetime e
    then estate (aged e) \<noteq> EMPTY \<and> unat (ctime (aged e)) = unat (ctime e) + 1 \<and> lifetime (aged e) = lifetime e \<and>
      ethaddr (aged e) = ethaddr e \<and> stable (estate (aged e)) = stable (estate e)
    else estate (aged e) = EMPTY"
proof -
  have c: "unat (ctime e) < 300" using assms by (cases "estate e" rule: state_cases) (auto simp: entry_ok_def word_less_nat_alt ARP_MAXAGE_def ARP_MAXPENDING_def)
  have u: "unat (ctime e + 1) = unat (ctime e) + 1" using c by (simp add: unat_word_ariths unsigned_of_nat)
  have le: "ARP_MAXAGE \<le> ctime e + 1 \<longleftrightarrow> 300 \<le> unat (ctime e) + 1" "ARP_MAXPENDING \<le> ctime e + 1 \<longleftrightarrow> 5 \<le> unat (ctime e) + 1"
    unfolding word_le_nat_alt u by (simp_all add: ARP_MAXAGE_def ARP_MAXPENDING_def)
  show ?thesis using assms(2) u unfolding aged_def le lifetime_def by (cases "estate e") auto
qed

lemma aged_funpow:
  assumes "entry_ok A e" "estate e \<noteq> EMPTY"
  shows "(estate ((aged ^^ n) e) \<noteq> EMPTY \<longleftrightarrow> n = 0 \<or> unat (ctime e) + n < lifetime e) \<and>
    (estate ((aged ^^ n) e) \<noteq> EMPTY \<longrightarrow> ipaddr ((aged ^^ n) e) = ipaddr e \<and> ethaddr ((aged ^^ n) e) = ethaddr e \<and> stable (estate ((aged ^^ n) e)) = stable (estate e))"
  using assms
proof (induction n arbitrary: e)
  case (Suc n)
  have fp: "(aged ^^ Suc n) e = (aged ^^ n) (aged e)" by (simp only: funpow_Suc_right comp_apply)
  note a = aged_step [OF Suc.prems] and ok = aged_ok [OF Suc.prems(1)]
  show ?case
  proof (cases "unat (ctime e) + 1 < lifetime e")
    case True
    then show ?thesis unfolding fp using a ok Suc.IH [of "aged e"] by auto
  next
    case False
    then show ?thesis unfolding fp using a aged_EMPTY [of "aged e" n] by auto
  qed
qed simp

lemma ticks_table:
  "ticks A n s = Some s' \<Longrightarrow> length (arp_table s) = ARP_TABLE_SIZE \<Longrightarrow> arp_table s' = map (aged ^^ n) (arp_table s)"
proof (induction n arbitrary: s)
  case (Suc n)
  then obtain s1 where "etharp_tmr A s = Some s1" "ticks A n s1 = Some s'" by (auto simp: bind_eq_Some_conv)
  then show ?case using Suc etharp_tmr_table [of A s s1] by (simp add: funpow_Suc_right del: funpow.simps)
qed simp

text \<open>
  An entry lives exactly as long as it should: without other events a resolved address stays in the
  table, with its hardware address, until its age reaches 300 timer calls, a pending one until 5.
\<close>

theorem arp_entry_lifetime:
  assumes "arp_ok A s" "ticks A n s = Some s'" "i < ARP_TABLE_SIZE" "0 < n" "estate (arp_table s ! i) \<noteq> ETHARP_STATE_EMPTY"
  shows "(estate (arp_table s' ! i) \<noteq> ETHARP_STATE_EMPTY \<longleftrightarrow>
      unat (ctime (arp_table s ! i)) + n < (if estate (arp_table s ! i) = ETHARP_STATE_PENDING then 5 else 300)) \<and>
    (estate (arp_table s' ! i) \<noteq> ETHARP_STATE_EMPTY \<longrightarrow> ipaddr (arp_table s' ! i) = ipaddr (arp_table s ! i) \<and>
      ethaddr (arp_table s' ! i) = ethaddr (arp_table s ! i) \<and> stable (estate (arp_table s' ! i)) = stable (estate (arp_table s ! i)))"
proof -
  have t: "length (arp_table s) = ARP_TABLE_SIZE" "entry_ok A (arp_table s ! i)" using assms(1,3) by (simp_all add: arp_ok_def table_ok_def)
  have "arp_table s' ! i = (aged ^^ n) (arp_table s ! i)" using ticks_table [OF assms(2) t(1)] t(1) assms(3) by simp
  then show ?thesis using aged_funpow [OF t(2) assms(5), of n] assms(4) by (simp add: lifetime_def)
qed

theorem arp_entry_lifetime_witness:
  "\<exists>s s'. etharp_update_arp_entry demo_arp_env 0 pc MAC_ADDR ETHARP_FLAG_TRY_HARD demo_arp = Some (ERR_OK, s) \<and>
     ticks demo_arp_env 1 s = Some s' \<and> ethaddr (arp_table s' ! 0) = MAC_ADDR"
proof -
  obtain s where s: "etharp_update_arp_entry demo_arp_env 0 pc MAC_ADDR ETHARP_FLAG_TRY_HARD demo_arp = Some (ERR_OK, s)"
    "arp_table s ! 0 = \<lparr>equeue = 0, ipaddr = pc, enetif = 0, ethaddr = MAC_ADDR, ctime = 0, estate = ETHARP_STATE_STABLE\<rparr>"
    "\<forall>i. 0 < i \<longrightarrow> i < 10 \<longrightarrow> estate (arp_table s ! i) = ETHARP_STATE_EMPTY" using demo_update by blast
  note ok = update_ok [OF arp_start_ok [OF demo_start] s(1)]
  have "estate (arp_table s ! i) \<in> {EMPTY, ETHARP_STATE_STABLE} \<and> equeue (arp_table s ! i) = 0" if "i < 10" for i
    using s(2,3) ok that by (cases "i = 0") (auto simp: arp_ok_def table_ok_def entry_ok_def)
  then obtain s' where s': "ticks demo_arp_env 1 s = Some s'" using demo_tick [where s = s and A = demo_arp_env] ok by (auto simp: arp_ok_def table_ok_def)
  note life = arp_entry_lifetime [OF ok s', of 0, unfolded s(2), simplified]
  show ?thesis using s(1) s' life by blast
qed

section \<open>Where packets go\<close>

lemma index_fresh:
  assumes "ctime (arp_table s ! i) < ARP_AGE_REREQUEST_USED_UNICAST"
  shows "etharp_output_to_arp_index A netif q i s = ethernet_output A netif q (hwaddr (netif_at A netif)) (ethaddr (arp_table s ! i)) ETHTYPE_IP s"
proof -
  have "\<not> ARP_AGE_REREQUEST_USED_BROADCAST \<le> ctime (arp_table s ! i)" "\<not> ARP_AGE_REREQUEST_USED_UNICAST \<le> ctime (arp_table s ! i)"
    using assms by (auto simp: ARP_AGE_REREQUEST_USED_UNICAST_def ARP_AGE_REREQUEST_USED_BROADCAST_def ARP_MAXAGE_def word_less_nat_alt word_le_nat_alt)
  then show ?thesis by (simp add: etharp_output_to_arp_index_def Let_def)
qed

lemma output_routes:
  fixes A :: "'d arp_env" and netif :: nat and ip :: u32
  assumes "arp_ok A s"
  defines "n \<equiv> netif_at A netif"
  defines "outside \<equiv> \<not> ip4_addr_netcmp ip (netif_ip4_addr n) (netif_ip4_netmask n) \<and> \<not> ip4_addr_islinklocal ip"
  defines "hop \<equiv> if outside then netif_ip4_gw n else ip"
  shows "if ip4_addr_isbroadcast ip n then etharp_output A netif q ip s = ethernet_output A netif q (hwaddr n) ethbroadcast ETHTYPE_IP s
    else if ip4_addr_ismulticast ip then etharp_output A netif q ip s = ethernet_output A netif q (hwaddr n) (multicast_mac ip) ETHTYPE_IP s
    else if outside \<and> ip4_addr_isany (netif_ip4_gw n) then etharp_output A netif q ip s = Some (ERR_RTE, s)
    else case arp_map (arp_table s) hop of
        None \<Rightarrow> etharp_output A netif q ip s = etharp_query A netif hop q s
      | Some mac \<Rightarrow> \<exists>i < ARP_TABLE_SIZE. ipaddr (arp_table s ! i) = hop \<and>
          (ctime (arp_table s ! i) < ARP_AGE_REREQUEST_USED_UNICAST \<longrightarrow>
             etharp_output A netif q ip s = ethernet_output A netif q (hwaddr n) mac ETHTYPE_IP (s\<lparr>etharp_cached_entry := i\<rparr>))"
proof -
  let ?t = "arp_table s" and ?c = "etharp_cached_entry s"
  have t: "table_ok A ?t" "length ?t = 10" "?c < 10" using assms(1) by (simp_all add: arp_ok_def table_ok_def)
  have same: "s\<lparr>etharp_cached_entry := ?c\<rparr> = s" by simp
  note def = etharp_output_def [of A netif q ip s, unfolded Let_def, folded n_def, folded outside_def, folded hop_def]
  show ?thesis
  proof (cases "ip4_addr_isbroadcast ip n \<or> ip4_addr_ismulticast ip \<or> outside \<and> ip4_addr_isany (netif_ip4_gw n)")
    case True
    then show ?thesis unfolding def by auto
  next
    case False
    show ?thesis
    proof (cases "stable (estate (?t ! ?c)) \<and> hop = ipaddr (?t ! ?c)")
      case True
      then have m: "arp_map ?t hop = Some (ethaddr (?t ! ?c))" using arp_map_iff [OF t(1), of hop] t(3) by blast
      have "etharp_output A netif q ip s = etharp_output_to_arp_index A netif q ?c s" unfolding def using False True by auto
      then show ?thesis using False m True t(3) same index_fresh [of s ?c A netif q] by (auto simp: n_def)
    next
      case nc: False
      show ?thesis
      proof (cases "find_stable hop 0 ?t")
        case None
        then show ?thesis unfolding def using False nc by (auto simp: arp_map_def)
      next
        case (Some i)
        have i: "i < 10" "ipaddr (?t ! i) = hop" using find_stable_ok [OF Some] t(2) by simp_all
        have "etharp_output A netif q ip s = etharp_output_to_arp_index A netif q i (s\<lparr>etharp_cached_entry := i\<rparr>)" unfolding def using False nc Some by auto
        then show ?thesis using False i Some index_fresh [of "s\<lparr>etharp_cached_entry := i\<rparr>" i A netif q] by (auto simp: arp_map_def n_def)
      qed
    qed
  qed
qed

text \<open>
  Broadcasts go to the broadcast address and multicasts to the group's hardware address; a unicast packet to
  another network goes to the gateway, and is refused if there is none. The next hop is looked up in the
  table, and the entry remembered from the last packet never changes the answer: the frame goes to the hardware
  address the table has for it (unless a renewed request is due), and without one the packet is given to \<^verbatim>\<open>etharp_query\<close>.
\<close>

theorem arp_output_routes:
  fixes A :: "'d arp_env" and netif :: nat and ip :: u32
  assumes "arp_ok A s"
  defines "n \<equiv> netif_at A netif"
  defines "outside \<equiv> \<not> ip4_addr_netcmp ip (netif_ip4_addr n) (netif_ip4_netmask n) \<and> \<not> ip4_addr_islinklocal ip"
  defines "hop \<equiv> if outside then netif_ip4_gw n else ip"
  shows "if ip4_addr_isbroadcast ip n then etharp_output A netif q ip s = ethernet_output A netif q (hwaddr n) ethbroadcast ETHTYPE_IP s
    else if ip4_addr_ismulticast ip then etharp_output A netif q ip s = ethernet_output A netif q (hwaddr n) (multicast_mac ip) ETHTYPE_IP s
    else if outside \<and> ip4_addr_isany (netif_ip4_gw n) then etharp_output A netif q ip s = Some (ERR_RTE, s)
    else case arp_map (arp_table s) hop of
        None \<Rightarrow> etharp_output A netif q ip s = etharp_query A netif hop q s
      | Some mac \<Rightarrow> \<exists>i < ARP_TABLE_SIZE. ipaddr (arp_table s ! i) = hop \<and>
          (ctime (arp_table s ! i) < ARP_AGE_REREQUEST_USED_UNICAST \<longrightarrow>
             etharp_output A netif q ip s = ethernet_output A netif q (hwaddr n) mac ETHTYPE_IP (s\<lparr>etharp_cached_entry := i\<rparr>))"
  using output_routes [OF assms(1), of ip netif q] unfolding n_def outside_def hop_def .

theorem arp_output_routes_witness:
  "etharp_output demo_arp_env 0 100 pc demo_arp = etharp_query demo_arp_env 0 pc 100 demo_arp"
proof -
  have "ip4_addr_netcmp pc (netif_ip4_addr arp_demo_netif) (netif_ip4_netmask arp_demo_netif)" by (simp add: demo_defs)
  moreover have "arp_map (arp_table demo_arp) pc = None" by (simp add: arp_map_def find_stable_None demo_arp_def)
  moreover have "netif_at demo_arp_env 0 = arp_demo_netif" by (simp add: demo_arp_env_def)
  ultimately show ?thesis
    using arp_output_routes [OF arp_start_ok [OF demo_start], where A = demo_arp_env and netif = 0 and ip = pc and q = 100] pc_unicast by simp
qed

section \<open>Frames\<close>

text \<open>A pbuf in RAM with room for a header of \<open>k\<close> bytes.\<close>

definition header_room :: "nat \<Rightarrow> nat \<Rightarrow> pbuf \<Rightarrow> bool" where
  "header_room k p b \<longleftrightarrow> p \<noteq> 0 \<and> (ptype b = PBUF_RAM \<or> ptype b = PBUF_POOL) \<and> p + SIZEOF_STRUCT_PBUF + k \<le> payload b \<and> unat (plen b) + k < 65536"

lemma header_added:
  assumes "pb h p = Some b" "header_room k p b" "0 < k"
  shows "pbuf_header p (int k) h = Some (0, put_pbuf p (b\<lparr>payload := payload b - k, plen := plen b + of_nat k, tot_len := tot_len b + of_nat k\<rparr>) h)"
proof -
  have "nat (int (payload b) - int k) = payload b - k" by simp
  moreover have "\<not> int (payload b) - int k < int (p + SIZEOF_STRUCT_PBUF)" using assms(2) unfolding header_room_def by linarith
  ultimately show ?thesis using assms by (auto simp: pbuf_header_def pbuf_header_impl_def header_room_def)
qed

lemma write_header:
  assumes "length bs = k" "k \<le> a"
  shows "mem_slice (mem_write m (a - k) bs) (a - k) (k + l) = bs @ mem_slice m a l"
  by (rule mem_slice_eq_listI) (use assms in \<open>auto simp: mem_write_def nth_append mem_slice_def\<close>)

definition sent_with :: "'d arp_env \<Rightarrow> nat \<Rightarrow> nat \<Rightarrow> store \<Rightarrow> ('d, 'z) arp_scheme \<Rightarrow> (err_t \<times> ('d, 'z) arp_scheme) option" where
  "sent_with A netif p h s = (case run_state (linkoutput A netif p h) (dev s) of (r, d) \<Rightarrow> map_option (\<lambda>r. (r, s\<lparr>mem_of := h, dev := d\<rparr>)) r)"

lemma frame_sent:
  assumes "pb (mem_of s) p = Some b" "header_room SIZEOF_ETH_HDR p b" "length src = 6" "length dst = 6"
  shows "\<exists>h' b'. ethernet_output A netif p src dst ty s = sent_with A netif p h' s \<and> pb h' = (pb (mem_of s))(p \<mapsto> b') \<and>
    pbuf_bytes h' b' = dst @ src @ be16 ty @ pbuf_bytes (mem_of s) b \<and> pnext b' = pnext b \<and> unat (plen b') = unat (plen b) + 14 \<and>
    tot_len b' = tot_len b + 14 \<and> plen b' = plen b + 14 \<and> pref b' = pref b \<and> pflags b' = pflags b \<and> RX_POOL h' = RX_POOL (mem_of s)"
proof -
  let ?b = "b\<lparr>payload := payload b - 14, plen := plen b + 14, tot_len := tot_len b + 14\<rparr>"
  let ?h = "memcpy_to (payload b - 14) (dst @ src @ be16 ty) (put_pbuf p ?b (mem_of s))"
  have hd: "pbuf_header p (int SIZEOF_ETH_HDR) (mem_of s) = Some (0, put_pbuf p ?b (mem_of s))"
    using header_added [OF assms(1,2)] by (simp add: SIZEOF_ETH_HDR_def)
  have len: "unat (plen b + 14) = unat (plen b) + 14" using assms(2) by (simp add: header_room_def SIZEOF_ETH_HDR_def unat_word_ariths unsigned_of_nat)
  have room: "14 \<le> payload b" using assms(2) by (simp add: header_room_def SIZEOF_ETH_HDR_def)
  have "pbuf_bytes ?h ?b = mem_slice (mem_write (bytes (mem_of s)) (payload b - 14) (dst @ src @ be16 ty)) (payload b - 14) (14 + unat (plen b))"
    by (simp add: pbuf_bytes_def memcpy_to_def put_pbuf_def len add.commute)
  also have "\<dots> = (dst @ src @ be16 ty) @ mem_slice (bytes (mem_of s)) (payload b) (unat (plen b))"
    by (rule write_header) (use assms(3,4) room in \<open>simp_all add: be16_def\<close>)
  finally have bytes: "pbuf_bytes ?h ?b = dst @ src @ be16 ty @ pbuf_bytes (mem_of s) b" by (simp add: pbuf_bytes_def)
  have "ethernet_output A netif p src dst ty s = sent_with A netif p ?h s"
    unfolding ethernet_output_def hd sent_with_def by (simp add: put_pbuf_def Let_def case_prod_beta map_conv_bind_option comp_def)
  moreover have "pb ?h = (pb (mem_of s))(p \<mapsto> ?b)" by (simp add: memcpy_to_def put_pbuf_def)
  ultimately show ?thesis using bytes len by (intro exI [of _ ?h] exI [of _ ?b]) (simp add: memcpy_to_def)
qed

text \<open>
  \<^verbatim>\<open>ethernet_output\<close> hands the interface the packet with the header in front of it: destination,
  source and type, then the bytes of the pbuf as they were; nothing else of the packet changes.
\<close>

theorem ethernet_frame:
  assumes "pb (mem_of s) p = Some b" "header_room SIZEOF_ETH_HDR p b" "length src = 6" "length dst = 6"
  shows "\<exists>h' b'. ethernet_output A netif p src dst ty s = sent_with A netif p h' s \<and> pb h' = (pb (mem_of s))(p \<mapsto> b') \<and>
    pbuf_bytes h' b' = dst @ src @ be16 ty @ pbuf_bytes (mem_of s) b \<and> pnext b' = pnext b \<and> unat (plen b') = unat (plen b) + 14"
  using frame_sent [OF assms] by blast

theorem ethernet_frame_witness:
  "\<exists>h' b'. ethernet_output demo_arp_env 0 10 MAC_ADDR ethbroadcast ETHTYPE_IP (demo_arp\<lparr>mem_of := demo_ram\<rparr>) =
     sent_with demo_arp_env 0 10 h' (demo_arp\<lparr>mem_of := demo_ram\<rparr>) \<and> take 6 (pbuf_bytes h' b') = ethbroadcast \<and> unat (plen b') = 18"
proof -
  have "pb demo_ram 10 = Some (demo_buf 40 0 4 4)" "header_room SIZEOF_ETH_HDR 10 (demo_buf 40 0 4 4)" "plen (demo_buf 40 0 4 4) = 4"
    by (simp_all add: demo_ram_def demo_buf_def header_room_def SIZEOF_ETH_HDR_def SIZEOF_STRUCT_PBUF_def)
  moreover have "length MAC_ADDR = 6" "length ethbroadcast = 6" by (simp_all add: MAC_ADDR_def ethbroadcast_def)
  ultimately obtain h' b' where h: "ethernet_output demo_arp_env 0 10 MAC_ADDR ethbroadcast ETHTYPE_IP (demo_arp\<lparr>mem_of := demo_ram\<rparr>) =
      sent_with demo_arp_env 0 10 h' (demo_arp\<lparr>mem_of := demo_ram\<rparr>)"
    "pbuf_bytes h' b' = ethbroadcast @ MAC_ADDR @ be16 ETHTYPE_IP @ pbuf_bytes demo_ram (demo_buf 40 0 4 4)" "unat (plen b') = unat (plen (demo_buf 40 0 4 4)) + 14"
    using ethernet_frame [of "demo_arp\<lparr>mem_of := demo_ram\<rparr>" 10 "demo_buf 40 0 4 4" MAC_ADDR ethbroadcast demo_arp_env 0 ETHTYPE_IP] by auto
  have "take 6 (pbuf_bytes h' b') = ethbroadcast" unfolding h(2) by (simp add: ethbroadcast_def)
  moreover have "unat (plen b') = 18" unfolding h(3) by (simp add: demo_buf_def)
  ultimately show ?thesis using h(1) by blast
qed

end
