(* ===== verification/Inet_Chksum.thy ===== *)
theory Inet_Chksum
  imports Pbuf_Correct Etharp
begin

text \<open>
  \<^verbatim>\<open>src/STM32/Bootloader/User/lwip-2.0.3/src/core/inet_chksum.c\<close>: the Internet checksum over memory, over a chain of pbufs and with the
  pseudo header of TCP and UDP. The file has three versions of the inner routine; the second is the one this
  configuration compiles. Bytes are read from the store at their address, since the second and the third version depend on
  alignment.
\<close>

unbundle bit_operations_syntax

section \<open>Words and folding\<close>

definition lwip_htons :: "u16 \<Rightarrow> u16" where
  "lwip_htons n = push_bit 8 (n AND 0xff) OR drop_bit 8 (n AND 0xff00)"

definition SWAP_BYTES_IN_WORD :: "u32 \<Rightarrow> u32" where
  "SWAP_BYTES_IN_WORD w = push_bit 8 (w AND 0xff) OR drop_bit 8 (w AND 0xff00)"

definition FOLD_U32T :: "u32 \<Rightarrow> u32" where
  "FOLD_U32T u = drop_bit 16 u + (u AND 0xffff)"

text \<open>Little-endian loads, and the two bytes of \<^verbatim>\<open>t\<close>.\<close>

definition halfword :: "u8 \<Rightarrow> u8 \<Rightarrow> u16" where
  "halfword lo hi = ucast lo OR push_bit 8 (ucast hi)"

definition ld16 :: "(nat \<Rightarrow> u8) \<Rightarrow> nat \<Rightarrow> u16" where
  "ld16 m a = halfword (m a) (m (a + 1))"

definition ld32 :: "(nat \<Rightarrow> u8) \<Rightarrow> nat \<Rightarrow> u32" where
  "ld32 m a = ucast (ld16 m a) OR push_bit 16 (ucast (ld16 m (a + 2)))"

section \<open>The three versions of the inner routine\<close>

fun sum_octets :: "(nat \<Rightarrow> u8) \<Rightarrow> nat \<Rightarrow> nat \<Rightarrow> u32 \<Rightarrow> u32 \<times> nat \<times> nat" where
  "sum_octets m a len acc =
     (if 1 < len then sum_octets m (a + 2) (len - 2) (acc + ucast (push_bit 8 (ucast (m a)) OR ucast (m (a + 1)) :: u16))
      else (acc, a, len))"

definition chksum_1 :: "(nat \<Rightarrow> u8) \<Rightarrow> nat \<Rightarrow> nat \<Rightarrow> u16" where
  "chksum_1 m a len =
     (let (acc, a, len) = sum_octets m a len 0;
          acc = (if 0 < len then acc + ucast (push_bit 8 (ucast (m a)) :: u16) else acc);
          acc = drop_bit 16 acc + (acc AND 0xffff);
          acc = (if acc AND 0xffff0000 \<noteq> 0 then drop_bit 16 acc + (acc AND 0xffff) else acc)
      in lwip_htons (ucast acc))"

fun sum_halfwords :: "(nat \<Rightarrow> u8) \<Rightarrow> nat \<Rightarrow> nat \<Rightarrow> u32 \<Rightarrow> u32 \<times> nat \<times> nat" where
  "sum_halfwords m a len acc =
     (if 1 < len then sum_halfwords m (a + 2) (len - 2) (acc + ucast (ld16 m a)) else (acc, a, len))"

definition lwip_standard_chksum :: "(nat \<Rightarrow> u8) \<Rightarrow> nat \<Rightarrow> nat \<Rightarrow> u16" where
  "lwip_standard_chksum m a len =
     (let odd = (a mod 2 = 1);
          (t1, a, len) = (if odd \<and> 0 < len then (m a, a + 1, len - 1) else (0, a, len));
          (sum, a, len) = sum_halfwords m a len 0;
          t = halfword (if 0 < len then m a else 0) t1;
          sum = FOLD_U32T (FOLD_U32T (sum + ucast t));
          sum = (if odd then SWAP_BYTES_IN_WORD sum else sum)
      in ucast sum)"

definition add_back_carry :: "u32 \<Rightarrow> u32 \<Rightarrow> u32" where
  "add_back_carry acc w = (let tmp = acc + w in if tmp < acc then tmp + 1 else tmp)"

fun sum_words :: "(nat \<Rightarrow> u8) \<Rightarrow> nat \<Rightarrow> nat \<Rightarrow> u32 \<Rightarrow> u32 \<times> nat \<times> nat" where
  "sum_words m a len acc =
     (if 7 < len then sum_words m (a + 8) (len - 8) (add_back_carry (add_back_carry acc (ld32 m a)) (ld32 m (a + 4)))
      else (acc, a, len))"

definition chksum_3 :: "(nat \<Rightarrow> u8) \<Rightarrow> nat \<Rightarrow> nat \<Rightarrow> u16" where
  "chksum_3 m a len =
     (let odd = (a mod 2 = 1);
          (t1, a, len) = (if odd \<and> 0 < len then (m a, a + 1, len - 1) else (0, a, len));
          (sum, a, len) = (if a mod 4 \<noteq> 0 \<and> 1 < len then (ucast (ld16 m a), a + 2, len - 2) else (0, a, len));
          (sum, a, len) = sum_words m a len sum;
          (sum, a, len) = sum_halfwords m a len (FOLD_U32T sum);
          t = halfword (if 0 < len then m a else 0) t1;
          sum = FOLD_U32T (FOLD_U32T (sum + ucast t));
          sum = (if odd then SWAP_BYTES_IN_WORD sum else sum)
      in ucast sum)"

declare sum_octets.simps [simp del] sum_halfwords.simps [simp del] sum_words.simps [simp del]

section \<open>Checksums of memory and packets\<close>

definition inet_chksum :: "nat \<Rightarrow> u16 \<Rightarrow> store \<Rightarrow> u16" where
  "inet_chksum dataptr len h = NOT (lwip_standard_chksum (bytes h) dataptr (unat len))"

text \<open>The loop over the chain, which the checksums with and without pseudo header share.\<close>

definition add_pbuf :: "u32 \<Rightarrow> nat \<Rightarrow> nat \<Rightarrow> store \<Rightarrow> u32" where
  "add_pbuf acc a len h = FOLD_U32T (acc + ucast (lwip_standard_chksum (bytes h) a len))"

partial_function (option) chksum_chain :: "nat \<Rightarrow> u32 \<Rightarrow> bool \<Rightarrow> store \<Rightarrow> (u32 \<times> bool) option" where
  "chksum_chain q acc swapped h =
     (if q = 0 then Some (acc, swapped)
      else case pb h q of None \<Rightarrow> None
      | Some b \<Rightarrow>
          if plen b mod 2 \<noteq> 0
          then chksum_chain (pnext b) (SWAP_BYTES_IN_WORD (add_pbuf acc (payload b) (unat (plen b)) h)) (\<not> swapped) h
          else chksum_chain (pnext b) (add_pbuf acc (payload b) (unat (plen b)) h) swapped h)"

definition inet_chksum_pbuf :: "nat \<Rightarrow> store \<Rightarrow> u16 option" where
  "inet_chksum_pbuf p h = do {
     (acc, swapped) \<leftarrow> chksum_chain p 0 False h;
     let acc = (if swapped then SWAP_BYTES_IN_WORD acc else acc);
     Some (ucast (NOT (acc AND 0xffff)))
   }"

definition pseudo_end :: "u8 \<Rightarrow> u16 \<Rightarrow> u32 \<times> bool \<Rightarrow> u16" where
  "pseudo_end proto proto_len r =
     (let acc = (if snd r then SWAP_BYTES_IN_WORD (fst r) else fst r);
          acc = acc + ucast (lwip_htons (ucast proto));
          acc = acc + ucast (lwip_htons proto_len);
          acc = FOLD_U32T (FOLD_U32T acc)
      in ucast (NOT (acc AND 0xffff)))"

definition inet_cksum_pseudo_base :: "nat \<Rightarrow> u8 \<Rightarrow> u16 \<Rightarrow> u32 \<Rightarrow> store \<Rightarrow> u16 option" where
  "inet_cksum_pseudo_base p proto proto_len acc h = map_option (pseudo_end proto proto_len) (chksum_chain p acc False h)"

definition addr_sum :: "u32 \<Rightarrow> u32 \<Rightarrow> u32" where
  "addr_sum src dest =
     FOLD_U32T (FOLD_U32T ((src AND 0xffff) + (drop_bit 16 src AND 0xffff) + (dest AND 0xffff) + (drop_bit 16 dest AND 0xffff)))"

definition inet_chksum_pseudo :: "nat \<Rightarrow> u8 \<Rightarrow> u16 \<Rightarrow> u32 \<Rightarrow> u32 \<Rightarrow> store \<Rightarrow> u16 option" where
  "inet_chksum_pseudo p proto proto_len src dest h = inet_cksum_pseudo_base p proto proto_len (addr_sum src dest) h"

definition ip_chksum_pseudo :: "nat \<Rightarrow> u8 \<Rightarrow> u16 \<Rightarrow> u32 \<Rightarrow> u32 \<Rightarrow> store \<Rightarrow> u16 option" where
  "ip_chksum_pseudo p proto proto_len src dest h = inet_chksum_pseudo p proto proto_len src dest h"

partial_function (option) chksum_partial :: "nat \<Rightarrow> u16 \<Rightarrow> u32 \<Rightarrow> bool \<Rightarrow> store \<Rightarrow> (u32 \<times> bool) option" where
  "chksum_partial q chksum_len acc swapped h =
     (if q = 0 \<or> chksum_len = 0 then Some (acc, swapped)
      else case pb h q of None \<Rightarrow> None
      | Some b \<Rightarrow>
          if plen b mod 2 \<noteq> 0
          then chksum_partial (pnext b) (chksum_len - min (plen b) chksum_len)
                 (SWAP_BYTES_IN_WORD (add_pbuf acc (payload b) (unat (min (plen b) chksum_len)) h)) (\<not> swapped) h
          else chksum_partial (pnext b) (chksum_len - min (plen b) chksum_len)
                 (add_pbuf acc (payload b) (unat (min (plen b) chksum_len)) h) swapped h)"

definition inet_cksum_pseudo_partial_base :: "nat \<Rightarrow> u8 \<Rightarrow> u16 \<Rightarrow> u16 \<Rightarrow> u32 \<Rightarrow> store \<Rightarrow> u16 option" where
  "inet_cksum_pseudo_partial_base p proto proto_len chksum_len acc h =
     map_option (pseudo_end proto proto_len) (chksum_partial p chksum_len acc False h)"

definition inet_chksum_pseudo_partial :: "nat \<Rightarrow> u8 \<Rightarrow> u16 \<Rightarrow> u16 \<Rightarrow> u32 \<Rightarrow> u32 \<Rightarrow> store \<Rightarrow> u16 option" where
  "inet_chksum_pseudo_partial p proto proto_len chksum_len src dest h =
     inet_cksum_pseudo_partial_base p proto proto_len chksum_len (addr_sum src dest) h"

definition ip_chksum_pseudo_partial :: "nat \<Rightarrow> u8 \<Rightarrow> u16 \<Rightarrow> u16 \<Rightarrow> u32 \<Rightarrow> u32 \<Rightarrow> store \<Rightarrow> u16 option" where
  "ip_chksum_pseudo_partial p proto proto_len chksum_len src dest h =
     inet_chksum_pseudo_partial p proto proto_len chksum_len src dest h"

end
