(* ===== verification/Chksum_Correct.thy ===== *)
theory Chksum_Correct
  imports Inet_Chksum
begin

text \<open>
  The Internet checksum is the sum of the 16-bit words modulo 65535, whichever of the three versions computes it, wherever the
  bytes lie and however they are cut into pbufs; a message with its checksum verifies, and a changed word is noticed.
\<close>

section \<open>The specification\<close>

text \<open>The sum of the words of a byte string, the first byte the less significant, and its representative below 65536.\<close>

fun wsum :: "u8 list \<Rightarrow> nat" where
  "wsum [] = 0"
| "wsum [a] = unat a"
| "wsum (a # b # bs) = unat a + 256 * unat b + wsum bs"

definition csum :: "nat \<Rightarrow> nat" where
  "csum n = (if n = 0 then 0 else (n - 1) mod 65535 + 1)"

definition fold16 :: "nat \<Rightarrow> nat" where
  "fold16 n = n div 65536 + n mod 65536"

definition swap16 :: "nat \<Rightarrow> nat" where
  "swap16 n = n mod 256 * 256 + n div 256 mod 256"

lemma csum_eq_iff: "r = csum n \<longleftrightarrow> r \<le> 65535 \<and> r mod 65535 = n mod 65535 \<and> (r = 0 \<longleftrightarrow> n = 0)"
proof (cases "n = 0")
  case False
  define q where "q = (n - 1) div 65535"
  define c where "c = (n - 1) mod 65535"
  have n: "n = q * 65535 + c + 1" "c < 65535" using False by (simp_all add: q_def c_def)
  then have m: "n mod 65535 = (c + 1) mod 65535" by (simp add: mod_add_eq [symmetric] add.assoc)
  have cs: "csum n = c + 1" using False by (simp add: csum_def c_def)
  show ?thesis
  proof
    assume "r \<le> 65535 \<and> r mod 65535 = n mod 65535 \<and> (r = 0 \<longleftrightarrow> n = 0)"
    then have "0 < r" "r \<le> 65535" "r mod 65535 = (c + 1) mod 65535" using m False by auto
    then have "r = c + 1" using n(2) by (cases "r = 65535"; cases "c + 1 = 65535") auto
    then show "r = csum n" using cs by simp
  qed (use cs m n(2) False in auto)
qed (auto simp: csum_def)

lemmas csum_props = csum_eq_iff [THEN iffD1, OF refl]

lemma csum_cong: "n mod 65535 = k mod 65535 \<Longrightarrow> (n = 0 \<longleftrightarrow> k = 0) \<Longrightarrow> csum n = csum k"
  by (subst csum_eq_iff) (use csum_props [of n] in auto)

lemma fold16_mod: "fold16 n mod 65535 = n mod 65535"
proof -
  have "n = fold16 n + n div 65536 * 65535" unfolding fold16_def using div_mult_mod_eq [of n 65536] by linarith
  then show ?thesis by (metis mod_mult_self1 mult.commute)
qed

lemma fold16_zero [simp]: "fold16 n = 0 \<longleftrightarrow> n = 0"
  by (auto simp: fold16_def elim: mod_eqE)

lemma fold16_small: "n \<le> 131070 \<Longrightarrow> fold16 n = csum n"
proof -
  assume n: "n \<le> 131070"
  have "fold16 n \<le> 65535"
  proof (cases "n < 65536")
    case False
    define k where "k = n - 65536"
    have "n = 65536 + k" "k < 65535" using n False by (simp_all add: k_def)
    then show ?thesis by (simp add: fold16_def)
  qed (simp add: fold16_def)
  then show ?thesis using fold16_mod by (subst csum_eq_iff) simp
qed

lemma fold16_twice: "n < 2 ^ 32 \<Longrightarrow> fold16 (fold16 n) = csum n"
proof -
  assume "n < 2 ^ 32"
  then have "fold16 n \<le> 131070" unfolding fold16_def by simp
  then show ?thesis using fold16_small fold16_mod by (metis csum_cong fold16_zero)
qed

lemma swap16_split: "n < 65536 \<Longrightarrow> \<exists>q r. n = q * 256 + r \<and> swap16 n = r * 256 + q \<and> r < 256"
  by (intro exI [of _ "n div 256"] exI [of _ "n mod 256"]) (simp add: swap16_def)

lemma swap16_mod: "n < 65536 \<Longrightarrow> swap16 n mod 65535 = (256 * n) mod 65535"
proof -
  assume "n < 65536"
  then obtain q r where "n = q * 256 + r" "swap16 n = r * 256 + q" using swap16_split by blast
  then have "256 * n = swap16 n + q * 65535" by simp
  then show ?thesis by (metis mod_mult_self1 mult.commute)
qed

lemma swap16_zero: "n < 65536 \<Longrightarrow> swap16 n = 0 \<longleftrightarrow> n = 0"
  using swap16_split [of n] by auto

lemma swap16_le: "swap16 n \<le> 65535"
  using mod_less_divisor [of 256 n] mod_less_divisor [of 256 "n div 256"] unfolding swap16_def by linarith

lemma swap16_csum: "swap16 (csum n) = csum (256 * n)"
proof (subst csum_eq_iff, intro conjI)
  note c = csum_props [of n]
  have "swap16 (csum n) mod 65535 = (256 * csum n) mod 65535" using swap16_mod c by simp
  also have "\<dots> = (256 * n) mod 65535" using c by (metis mod_mult_right_eq)
  finally show "swap16 (csum n) mod 65535 = (256 * n) mod 65535" .
  show "swap16 (csum n) = 0 \<longleftrightarrow> 256 * n = 0" using c swap16_zero [of "csum n"] by simp
qed (rule swap16_le)

section \<open>Words as numbers\<close>

lemma unat_le8: "unat (a :: u8) \<le> 255"
  using unsigned_less [where ?'a = nat, of a] by simp

lemma unat_le16: "unat (a :: u16) \<le> 65535"
  using unsigned_less [where ?'a = nat, of a] by simp

lemma unat_le32: "unat (a :: u32) < 2 ^ 32"
  using unsigned_less [where ?'a = nat, of a] by simp

lemma unat_ucast32 [simp]: "unat (ucast (a :: u16) :: u32) = unat a"
  using unat_le16 [of a] by (simp add: unsigned_ucast_eq take_bit_nat_eq_self)

lemma mask_words: "(0xff :: u32) = mask 8" "(0xffff :: u32) = mask 16" "(0xff00 :: u32) = push_bit 8 (mask 8)"
    "(0xffff0000 :: u32) = push_bit 16 (mask 16)" "(0xff :: u16) = mask 8" "(0xff00 :: u16) = push_bit 8 (mask 8)"
  by (simp_all add: mask_eq_exp_minus_1 push_bit_eq_mult)

lemma unat_and_mask: "unat (w AND mask n) = unat (w :: 'a :: len word) mod 2 ^ n"
  unfolding take_bit_eq_mask [symmetric] unsigned_take_bit_eq by (rule take_bit_eq_mod)

lemma unat_drop: "unat (drop_bit n (w :: 'a :: len word)) = unat w div 2 ^ n"
  by (simp only: unsigned_drop_bit_eq) (simp add: drop_bit_eq_div take_bit_nat_eq_self)

lemma unat_push: "unat w * 2 ^ n < 2 ^ LENGTH('a) \<Longrightarrow> unat (push_bit n (w :: 'a :: len word)) = unat w * 2 ^ n"
  by (simp only: unsigned_push_bit_eq) (simp add: push_bit_eq_mult take_bit_nat_eq_self)

lemma unat_plus: "unat a + unat b < 2 ^ LENGTH('a) \<Longrightarrow> unat (a + b) = unat (a :: 'a :: len word) + unat b"
  by (simp add: unat_word_ariths)

lemma unat_or_disjoint: "a AND b = 0 \<Longrightarrow> unat a + unat b < 2 ^ LENGTH('a) \<Longrightarrow> unat (a OR b) = unat (a :: 'a :: len word) + unat b"
  by (simp add: unat_plus flip: disjunctive_add_eq_or)

lemma unat_fold [simp]: "unat (FOLD_U32T u) = fold16 (unat u)"
proof -
  have "unat u div 65536 < 65536" using unat_le32 [of u] by (simp add: less_mult_imp_div_less)
  then have "unat u div 65536 + unat u mod 65536 < 2 ^ 32" using mod_less_divisor [of 65536 "unat u"] by simp
  then show ?thesis unfolding FOLD_U32T_def mask_words fold16_def by (subst unat_plus) (simp_all add: unat_and_mask unat_drop)
qed

lemma unat_fold_twice: "unat (FOLD_U32T (FOLD_U32T u)) = csum (unat u)"
  using fold16_twice [OF unat_le32] by simp

lemma unat_halfword: "unat (halfword lo hi) = unat lo + 256 * unat hi"
proof -
  have u: "unat (ucast b :: u16) = unat (b :: u8)" for b
    using unat_le8 [of b] by (simp add: unsigned_ucast_eq take_bit_nat_eq_self)
  have p: "unat (push_bit 8 (ucast hi) :: u16) = 256 * unat hi" using unat_le8 [of hi] by (simp add: unat_push u)
  have "(ucast lo :: u16) AND push_bit 8 (ucast hi) = 0" by (rule bit_word_eqI) (auto simp: bit_simps dest: bit_imp_le_length)
  then show ?thesis unfolding halfword_def
    by (subst unat_or_disjoint) (use unat_le8 [of lo] unat_le8 [of hi] in \<open>simp_all add: p u\<close>)
qed

lemma swap_bytes: "unat (push_bit 8 (w AND mask 8) OR drop_bit 8 (w AND push_bit 8 (mask 8))) = swap16 (unat w)"
  if "16 \<le> LENGTH('a)" for w :: "'a :: len word"
proof -
  have d: "drop_bit 8 (w AND push_bit 8 (mask 8)) = drop_bit 8 w AND mask 8" by (rule bit_word_eqI) (auto simp: bit_simps dest: bit_imp_le_length)
  have l: "unat w mod 256 * 256 < 2 ^ LENGTH('a)" "unat w mod 256 * 256 + unat w div 256 mod 256 < 2 ^ LENGTH('a)"
    using swap16_le [of "unat w"] power_increasing [OF that, of "2 :: nat"] by (simp_all add: swap16_def)
  have p: "unat (push_bit 8 (w AND mask 8)) = unat w mod 256 * 256" using l(1) by (subst unat_push) (simp_all add: unat_and_mask)
  have q: "unat (drop_bit 8 w AND mask 8) = unat w div 256 mod 256" by (simp add: unat_and_mask unat_drop)
  have "push_bit 8 (w AND mask 8) AND (drop_bit 8 w AND mask 8) = 0" by (rule bit_word_eqI) (auto simp: bit_simps)
  from unat_or_disjoint [OF this] show ?thesis using l(2) unfolding d swap16_def p q by blast
qed

lemma unat_swap: "unat (SWAP_BYTES_IN_WORD w) = swap16 (unat w)"
  unfolding SWAP_BYTES_IN_WORD_def mask_words by (rule swap_bytes) simp

lemma unat_htons: "unat (lwip_htons w) = swap16 (unat w)"
  unfolding lwip_htons_def mask_words by (rule swap_bytes) simp


section \<open>Sums of byte strings\<close>

lemma wsum_Cons: "wsum (a # bs) mod 65535 = (unat a + 256 * wsum bs) mod 65535"
proof (induction bs arbitrary: a rule: wsum.induct)
  case (2 b)
  then show ?case by simp
next
  case (3 b c bs)
  have "wsum (a # b # c # bs) mod 65535 = (unat a + 256 * unat b + wsum (c # bs)) mod 65535" by simp
  also have "\<dots> = (unat a + 256 * unat b + (unat c + 256 * wsum bs)) mod 65535" using 3 [of c] by (metis mod_add_right_eq)
  also have "\<dots> = (unat a + 256 * wsum (b # c # bs)) mod 65535"
  proof -
    have "unat a + 256 * wsum (b # c # bs) = (unat a + 256 * unat b + (unat c + 256 * wsum bs)) + unat c * 65535" by simp
    then show ?thesis by (metis mod_mult_self1 mult.commute)
  qed
  finally show ?case .
qed simp

lemma wsum_zero: "wsum bs = 0 \<longleftrightarrow> (\<forall>b \<in> set bs. b = 0)"
  by (induction bs rule: wsum.induct) (auto simp: unat_eq_0)

lemma wsum_append: "even (length xs) \<Longrightarrow> wsum (xs @ ys) = wsum xs + wsum ys"
  by (induction xs rule: wsum.induct) auto

lemma csum_append: "csum (wsum (xs @ ys)) = csum (wsum xs + (if even (length xs) then 1 else 256) * wsum ys)"
proof (cases "even (length xs)")
  case False
  then obtain x xs' where xs: "xs = x # xs'" "even (length xs')" by (cases xs) auto
  have "wsum (xs @ ys) mod 65535 = (unat x + 256 * (wsum xs' + wsum ys)) mod 65535" using wsum_Cons [of x "xs' @ ys"] xs wsum_append by simp
  also have "\<dots> = (unat x + 256 * wsum xs' + 256 * wsum ys) mod 65535" by (simp add: algebra_simps)
  also have "\<dots> = (wsum xs + 256 * wsum ys) mod 65535" using wsum_Cons [of x xs'] xs(1) by (metis mod_add_left_eq)
  finally show ?thesis using False by (intro csum_cong) (auto simp: wsum_zero)
qed (simp add: wsum_append)

lemma wsum_bound: "wsum bs \<le> 65535 * ((length bs + 1) div 2)"
proof (induction bs rule: wsum.induct)
  case (2 a)
  then show ?case using unat_le8 [of a] by simp
next
  case (3 a b bs)
  then show ?case using unat_le8 [of a] unat_le8 [of b] by simp
qed simp

text \<open>The loops add the words and leave the bytes that remain.\<close>

lemma mem_slice_Suc: "mem_slice m a (Suc n) = m a # mem_slice m (a + 1) n"
  using mem_slice_add [of m a 1 n] by (simp add: mem_slice_def)

lemma mem_slice_2: "mem_slice m a (2 + n) = m a # m (a + 1) # mem_slice m (a + 2) n"
  using mem_slice_Suc [of m a "Suc n"] mem_slice_Suc [of m "a + 1" n] by simp

lemma sum_halfwords: "k < 2 \<Longrightarrow> unat acc + wsum (mem_slice m a (2 * n)) < 2 ^ 32 \<Longrightarrow>
    \<exists>acc'. sum_halfwords m a (2 * n + k) acc = (acc', a + 2 * n, k) \<and> unat acc' = unat acc + wsum (mem_slice m a (2 * n))"
proof (induction n arbitrary: a acc)
  case 0
  then show ?case by (subst sum_halfwords.simps) simp
next
  case (Suc n)
  have s: "mem_slice m a (2 * Suc n) = m a # m (a + 1) # mem_slice m (a + 2) (2 * n)" using mem_slice_2 [of m a "2 * n"] by simp
  have acc: "unat (acc + ucast (ld16 m a)) = unat acc + (unat (m a) + 256 * unat (m (a + 1)))"
    using Suc.prems(2) unfolding s by (subst unat_plus) (simp_all add: ld16_def unat_halfword)
  have "unat (acc + ucast (ld16 m a)) + wsum (mem_slice m (a + 2) (2 * n)) < 2 ^ 32" using Suc.prems(2) unfolding acc s by simp
  then obtain acc' where "sum_halfwords m (a + 2) (2 * n + k) (acc + ucast (ld16 m a)) = (acc', a + 2 + 2 * n, k)"
      "unat acc' = unat (acc + ucast (ld16 m a)) + wsum (mem_slice m (a + 2) (2 * n))" using Suc.IH [OF Suc.prems(1)] by blast
  moreover have "sum_halfwords m a (2 * Suc n + k) acc = sum_halfwords m (a + 2) (2 * n + k) (acc + ucast (ld16 m a))"
    by (subst sum_halfwords.simps) simp
  ultimately show ?case unfolding s acc by simp
qed

text \<open>The end of the second and the third version: the remaining words and the two single bytes.\<close>

definition last_part :: "(nat \<Rightarrow> u8) \<Rightarrow> nat \<Rightarrow> nat \<Rightarrow> u32 \<Rightarrow> u8 \<Rightarrow> u32" where
  "last_part m a len acc t1 =
     (let (acc, a, len) = sum_halfwords m a len acc; t = halfword (if 0 < len then m a else 0) t1 in acc + ucast t)"

lemma last_part:
  assumes "unat acc + wsum (mem_slice m a len) + 256 * unat t1 < 2 ^ 32"
  shows "unat (last_part m a len acc t1) = unat acc + wsum (mem_slice m a len) + 256 * unat t1"
proof -
  define n where "n = len div 2"
  define k where "k = len mod 2"
  have len: "len = 2 * n + k" "k < 2" by (simp_all add: n_def k_def)
  let ?t0 = "if 0 < k then m (a + 2 * n) else 0"
  have "k = 0 \<or> k = 1" using len(2) by auto
  then have w: "wsum (mem_slice m a len) = wsum (mem_slice m a (2 * n)) + unat ?t0"
    using wsum_append [of "mem_slice m a (2 * n)"] len(1) by (auto simp: mem_slice_add mem_slice_Suc)
  have "unat acc + wsum (mem_slice m a (2 * n)) < 2 ^ 32" using assms w by simp
  from sum_halfwords [OF len(2) this] obtain acc' where l: "sum_halfwords m a len acc = (acc', a + 2 * n, k)"
      "unat acc' = unat acc + wsum (mem_slice m a (2 * n))" using len(1) by blast
  have "unat (acc' + ucast (halfword ?t0 t1)) = unat acc' + (unat ?t0 + 256 * unat t1)"
    by (subst unat_plus) (use assms w l in \<open>simp_all add: unat_halfword\<close>)
  moreover have "last_part m a len acc t1 = acc' + ucast (halfword ?t0 t1)" unfolding last_part_def l(1) by simp
  ultimately show ?thesis using l(2) w by simp
qed

lemma wsum_slice_bound: "len \<le> n \<Longrightarrow> wsum (mem_slice m a len) \<le> 65535 * ((n + 1) div 2)"
  using wsum_bound [of "mem_slice m a len"] by (rule order_trans) (simp add: div_le_mono)

text \<open>Swapping the bytes of the result corrects an odd start.\<close>

lemma odd_start: "swap16 (csum (wsum bs + 256 * unat b)) = csum (wsum (b # bs))"
proof -
  have "256 * (wsum bs + 256 * unat b) = (unat b + 256 * wsum bs) + unat b * 65535" by simp
  then have "(256 * (wsum bs + 256 * unat b)) mod 65535 = (unat b + 256 * wsum bs) mod 65535" by (metis mod_mult_self1 mult.commute)
  then show ?thesis unfolding swap16_csum by (intro csum_cong) (auto simp: wsum_Cons wsum_zero unat_eq_0)
qed

lemma ucast_small: "unat (w :: u32) \<le> 65535 \<Longrightarrow> unat (ucast w :: u16) = unat w"
  by (simp add: unsigned_ucast_eq take_bit_nat_eq_self)

lemma standard_chksum:
  assumes "len \<le> 0x20000"
  shows "unat (lwip_standard_chksum m a len) = csum (wsum (mem_slice m a len))"
proof (cases "a mod 2 = 1 \<and> 0 < len")
  case True
  then obtain l where l: "len = Suc l" using gr0_implies_Suc by blast
  have "wsum (mem_slice m (a + 1) l) \<le> 65535 * 65536" using wsum_slice_bound [of l "0x1ffff" m "a + 1"] assms l by simp
  then have "unat (0 :: u32) + wsum (mem_slice m (a + 1) l) + 256 * unat (m a) < 2 ^ 32" using unat_le8 [of "m a"] by simp
  note lp = last_part [OF this]
  have "lwip_standard_chksum m a len = ucast (SWAP_BYTES_IN_WORD (FOLD_U32T (FOLD_U32T (last_part m (a + 1) l 0 (m a)))))"
    using True l unfolding lwip_standard_chksum_def last_part_def by (simp add: Let_def split: prod.split)
  moreover have "unat (SWAP_BYTES_IN_WORD (FOLD_U32T (FOLD_U32T (last_part m (a + 1) l 0 (m a))))) = csum (wsum (mem_slice m a len))"
    unfolding unat_swap unat_fold_twice lp l mem_slice_Suc by (simp add: odd_start)
  ultimately show ?thesis using ucast_small csum_props by presburger
next
  case False
  have "wsum (mem_slice m a len) \<le> 65535 * 65536" using wsum_slice_bound [OF assms, of m a] by simp
  then have "unat (0 :: u32) + wsum (mem_slice m a len) + 256 * unat (0 :: u8) < 2 ^ 32" by simp
  note lp = last_part [OF this]
  let ?r = "FOLD_U32T (FOLD_U32T (last_part m a len 0 0))"
  have r: "unat ?r = csum (wsum (mem_slice m a len))" unfolding unat_fold_twice lp by simp
  have "lwip_standard_chksum m a len = ucast (if a mod 2 = 1 then SWAP_BYTES_IN_WORD ?r else ?r)"
    unfolding lwip_standard_chksum_def last_part_def Let_def if_not_P [OF False] by (simp split: prod.split)
  moreover have "unat (if a mod 2 = 1 then SWAP_BYTES_IN_WORD ?r else ?r) = csum (wsum (mem_slice m a len))"
    using False r by (auto simp: unat_swap swap16_def csum_def)
  ultimately show ?thesis using ucast_small csum_props by presburger
qed

text \<open>The first version.\<close>

fun bsum :: "u8 list \<Rightarrow> nat" where
  "bsum [] = 0"
| "bsum [a] = 256 * unat a"
| "bsum (a # b # bs) = 256 * unat a + unat b + bsum bs"

lemma csum_eq_cong: "csum n = csum k \<longleftrightarrow> n mod 65535 = k mod 65535 \<and> (n = 0 \<longleftrightarrow> k = 0)"
  using csum_props [of n] csum_props [of k] csum_cong by metis

lemma csum_add_cong: "csum n = csum n' \<Longrightarrow> csum k = csum k' \<Longrightarrow> csum (n + k) = csum (n' + k')"
  unfolding csum_eq_cong by (auto intro: mod_add_cong)

lemma csum_mult_cong: "csum n = csum n' \<Longrightarrow> csum (c * n) = csum (c * n')"
  unfolding csum_eq_cong by (auto intro: mod_mult_cong)

lemma csum_65536: "csum (65536 * n + k) = csum (n + k)"
proof (rule csum_cong)
  have "65536 * n + k = (n + k) + n * 65535" by simp
  then show "(65536 * n + k) mod 65535 = (n + k) mod 65535" by (metis mod_mult_self1 mult.commute)
qed simp

lemma csum_bsum: "csum (256 * bsum bs) = csum (wsum bs)"
proof (induction bs rule: wsum.induct)
  case (2 a)
  then show ?case using csum_65536 [of "unat a" 0] by simp
next
  case (3 a b bs)
  have "csum (256 * bsum (a # b # bs)) = csum (65536 * unat a + (256 * unat b + 256 * bsum bs))" by (simp add: algebra_simps)
  also have "\<dots> = csum (unat a + (256 * unat b + 256 * bsum bs))" by (rule csum_65536)
  also have "\<dots> = csum (wsum (a # b # bs))" using csum_add_cong [OF refl 3, of "unat a + 256 * unat b"] by (simp add: add.assoc)
  finally show ?case .
qed simp

lemma bsum_append: "even (length xs) \<Longrightarrow> bsum (xs @ ys) = bsum xs + bsum ys"
  by (induction xs rule: bsum.induct) auto

lemma bsum_bound: "bsum bs \<le> 65535 * ((length bs + 1) div 2)"
proof (induction bs rule: bsum.induct)
  case (2 a)
  then show ?case using unat_le8 [of a] by simp
next
  case (3 a b bs)
  then show ?case using unat_le8 [of a] unat_le8 [of b] by simp
qed simp

lemma unat_bigendian: "unat (push_bit 8 (ucast a) OR ucast b :: u16) = 256 * unat (a :: u8) + unat (b :: u8)"
  using unat_halfword [of b a] by (simp add: halfword_def or.commute)

lemma sum_octets: "k < 2 \<Longrightarrow> unat acc + bsum (mem_slice m a (2 * n)) < 2 ^ 32 \<Longrightarrow>
    \<exists>acc'. sum_octets m a (2 * n + k) acc = (acc', a + 2 * n, k) \<and> unat acc' = unat acc + bsum (mem_slice m a (2 * n))"
proof (induction n arbitrary: a acc)
  case 0
  then show ?case by (subst sum_octets.simps) simp
next
  case (Suc n)
  let ?w = "push_bit 8 (ucast (m a)) OR ucast (m (a + 1)) :: u16"
  have s: "mem_slice m a (2 * Suc n) = m a # m (a + 1) # mem_slice m (a + 2) (2 * n)" using mem_slice_2 [of m a "2 * n"] by simp
  have acc: "unat (acc + ucast ?w) = unat acc + (256 * unat (m a) + unat (m (a + 1)))"
    using Suc.prems(2) unfolding s by (subst unat_plus) (simp_all add: unat_bigendian)
  have "unat (acc + ucast ?w) + bsum (mem_slice m (a + 2) (2 * n)) < 2 ^ 32" using Suc.prems(2) unfolding acc s by simp
  then obtain acc' where "sum_octets m (a + 2) (2 * n + k) (acc + ucast ?w) = (acc', a + 2 + 2 * n, k)"
      "unat acc' = unat (acc + ucast ?w) + bsum (mem_slice m (a + 2) (2 * n))" using Suc.IH [OF Suc.prems(1)] by blast
  moreover have "sum_octets m a (2 * Suc n + k) acc = sum_octets m (a + 2) (2 * n + k) (acc + ucast ?w)"
    by (subst sum_octets.simps) simp
  ultimately show ?case unfolding s acc by simp
qed

lemma fold_if_needed: "(if u AND 0xffff0000 \<noteq> 0 then FOLD_U32T u else u) = FOLD_U32T u"
proof (cases "u AND 0xffff0000 = 0")
  case True
  have "drop_bit 16 u = drop_bit 16 (u AND 0xffff0000)"
    unfolding mask_words by (rule bit_word_eqI) (auto simp: bit_simps dest: bit_imp_le_length)
  then have "unat u div 65536 = 0" using True unat_drop [of 16 u] by simp
  then have "unat (FOLD_U32T u) = unat u" by (simp add: fold16_def div_eq_0_iff)
  then show ?thesis using True by (simp add: word_unat_eq_iff)
qed simp

lemma chksum_1:
  assumes "len \<le> 0x20000"
  shows "unat (chksum_1 m a len) = csum (wsum (mem_slice m a len))"
proof -
  define n where "n = len div 2"
  define k where "k = len mod 2"
  have len: "len = 2 * n + k" "k < 2" by (simp_all add: n_def k_def)
  have "bsum (mem_slice m a len) \<le> 65535 * 65536"
    using bsum_bound [of "mem_slice m a len"] by (rule order_trans) (use assms in \<open>simp add: div_le_mono\<close>)
  then have b: "bsum (mem_slice m a len) < 2 ^ 32" by simp
  have "k = 0 \<or> k = 1" using len(2) by auto
  then have w: "bsum (mem_slice m a len) = bsum (mem_slice m a (2 * n)) + (if 0 < k then 256 * unat (m (a + 2 * n)) else 0)"
    using bsum_append [of "mem_slice m a (2 * n)"] len(1) by (auto simp: mem_slice_add mem_slice_Suc)
  have "unat (0 :: u32) + bsum (mem_slice m a (2 * n)) < 2 ^ 32" using b w by simp
  from sum_octets [OF len(2) this] obtain acc where l: "sum_octets m a len 0 = (acc, a + 2 * n, k)"
      "unat acc = bsum (mem_slice m a (2 * n))" using len(1) by auto
  define sm where "sm = (if 0 < k then acc + ucast (push_bit 8 (ucast (m (a + 2 * n))) :: u16) else acc)"
  have t: "unat (push_bit 8 (ucast (m x)) :: u16) = 256 * unat (m x)" for x using unat_bigendian [of "m x" 0] by simp
  have "unat sm = bsum (mem_slice m a len)"
  proof (cases "0 < k")
    case True
    then show ?thesis unfolding sm_def using w b l(2) by (simp, subst unat_plus) (simp_all add: t)
  qed (use w l(2) in \<open>simp add: sm_def\<close>)
  then have f: "unat (FOLD_U32T (FOLD_U32T sm)) = csum (bsum (mem_slice m a len))" unfolding unat_fold_twice by simp
  have "chksum_1 m a len = lwip_htons (ucast (FOLD_U32T (FOLD_U32T sm)))"
    unfolding chksum_1_def l(1) Let_def prod.case sm_def [symmetric] FOLD_U32T_def [symmetric] fold_if_needed ..
  then show ?thesis using f csum_props [of "bsum (mem_slice m a len)"] by (simp add: unat_htons ucast_small swap16_csum csum_bsum del: unat_fold)
qed

text \<open>The third version.\<close>

lemma add_back_carry: "csum (unat (add_back_carry acc w)) = csum (unat acc + unat w)"
proof (cases "unat acc + unat w < 2 ^ 32")
  case True
  then have "unat (acc + w) = unat acc + unat w" by (simp add: unat_plus)
  then show ?thesis by (simp add: add_back_carry_def Let_def word_less_nat_alt)
next
  case False
  have b: "unat acc < 2 ^ 32" "unat w < 2 ^ 32" using unat_le32 by auto
  define r where "r = unat acc + unat w - 2 ^ 32"
  have r: "unat acc + unat w = r + 2 ^ 32" "r < 2 ^ 32 - 1" using False b by (auto simp: r_def)
  then have t: "unat (acc + w) = r" by (simp add: unat_word_ariths)
  have "r < unat acc" using r(1) b(2) by linarith
  then have "unat (add_back_carry acc w) = unat (acc + w + 1)" using t by (simp add: add_back_carry_def Let_def word_less_nat_alt)
  also have "\<dots> = r + 1" by (subst unat_plus) (use t r(2) in simp_all)
  finally have u: "unat (add_back_carry acc w) = r + 1" .
  have "unat acc + unat w = (r + 1) + 65535 * 65537" using r(1) by simp
  then have "(unat acc + unat w) mod 65535 = (r + 1) mod 65535" by (metis mod_mult_self2)
  then show ?thesis unfolding u by (intro csum_cong) (use r(1) in auto)
qed

lemma unat_two_halves: "unat (ucast x OR push_bit 16 (ucast y) :: u32) = unat (x :: u16) + 65536 * unat (y :: u16)"
proof -
  have p: "unat (push_bit 16 (ucast y) :: u32) = 65536 * unat y" by (subst unat_push) (use unat_le16 [of y] in simp_all)
  have "(ucast x :: u32) AND push_bit 16 (ucast y) = 0" by (rule bit_word_eqI) (auto simp: bit_simps dest: bit_imp_le_length)
  then show ?thesis by (subst unat_or_disjoint) (use unat_le16 [of x] unat_le16 [of y] in \<open>simp_all add: p\<close>)
qed

lemma csum_ld32: "csum (unat (ld32 m a)) = csum (wsum (mem_slice m a 4))"
proof -
  have "wsum (mem_slice m a 4) = unat (ld16 m (a + 2)) + unat (ld16 m a)"
    using mem_slice_2 [of m a 2] mem_slice_2 [of m "a + 2" 0] by (simp add: ld16_def unat_halfword)
  then show ?thesis using csum_65536 [of "unat (ld16 m (a + 2))" "unat (ld16 m a)"] by (simp add: ld32_def unat_two_halves add.commute)
qed

lemma sum_words: "k < 8 \<Longrightarrow>
    \<exists>acc'. sum_words m a (8 * n + k) acc = (acc', a + 8 * n, k) \<and> csum (unat acc') = csum (unat acc + wsum (mem_slice m a (8 * n)))"
proof (induction n arbitrary: a acc)
  case 0
  then show ?case by (subst sum_words.simps) simp
next
  case (Suc n)
  let ?acc = "add_back_carry (add_back_carry acc (ld32 m a)) (ld32 m (a + 4))"
  have "mem_slice m a (8 * Suc n) = mem_slice m a 4 @ mem_slice m (a + 4) 4 @ mem_slice m (a + 8) (8 * n)"
    using mem_slice_add [of m a 4 "4 + 8 * n"] mem_slice_add [of m "a + 4" 4 "8 * n"] by (simp add: add.commute [of 8 a])
  then have s: "wsum (mem_slice m a (8 * Suc n)) = wsum (mem_slice m a 4) + wsum (mem_slice m (a + 4) 4) + wsum (mem_slice m (a + 8) (8 * n))"
    by (simp add: wsum_append)
  have "csum (unat ?acc) = csum (unat acc + wsum (mem_slice m a 4) + wsum (mem_slice m (a + 4) 4))"
    unfolding add_back_carry by (intro csum_add_cong csum_ld32) (unfold add_back_carry, intro csum_add_cong csum_ld32 refl)
  from csum_add_cong [OF this refl, of "wsum (mem_slice m (a + 8) (8 * n))"]
  have acc: "csum (unat ?acc + wsum (mem_slice m (a + 8) (8 * n))) = csum (unat acc + wsum (mem_slice m a (8 * Suc n)))"
    unfolding s by (simp add: add.assoc)
  obtain acc' where "sum_words m (a + 8) (8 * n + k) ?acc = (acc', a + 8 + 8 * n, k)"
      "csum (unat acc') = csum (unat ?acc + wsum (mem_slice m (a + 8) (8 * n)))" using Suc by blast
  moreover have "sum_words m a (8 * Suc n + k) acc = sum_words m (a + 8) (8 * n + k) ?acc" by (subst sum_words.simps) simp
  ultimately show ?case using acc by simp
qed

definition words_and_rest :: "(nat \<Rightarrow> u8) \<Rightarrow> nat \<Rightarrow> nat \<Rightarrow> u32 \<Rightarrow> u8 \<Rightarrow> u32" where
  "words_and_rest m a len acc t1 = (let (acc, a, len) = sum_words m a len acc in last_part m a len (FOLD_U32T acc) t1)"

lemma csum_fold: "csum (unat (FOLD_U32T u)) = csum (unat u)"
  by (simp add: csum_eq_cong fold16_mod)

lemma words_and_rest:
  "csum (unat (words_and_rest m a len acc t1)) = csum (unat acc + wsum (mem_slice m a len) + 256 * unat t1)"
proof -
  define n where "n = len div 8"
  define k where "k = len mod 8"
  have len: "len = 8 * n + k" "k < 8" by (simp_all add: n_def k_def)
  obtain acc' where l: "sum_words m a len acc = (acc', a + 8 * n, k)" "csum (unat acc') = csum (unat acc + wsum (mem_slice m a (8 * n)))"
    using sum_words [OF len(2)] len(1) by blast
  have "unat acc' div 65536 < 65536" using unat_le32 [of acc'] by (simp add: less_mult_imp_div_less)
  then have "unat (FOLD_U32T acc') \<le> 131070" unfolding unat_fold fold16_def using mod_less_divisor [of 65536 "unat acc'"] by linarith
  moreover have "wsum (mem_slice m (a + 8 * n) k) \<le> 65535 * 4" using wsum_slice_bound [of k 7 m "a + 8 * n"] len(2) by simp
  ultimately have lp: "unat (last_part m (a + 8 * n) k (FOLD_U32T acc') t1) =
      unat (FOLD_U32T acc') + wsum (mem_slice m (a + 8 * n) k) + 256 * unat t1"
    using unat_le8 [of t1] by (intro last_part) simp
  have w: "wsum (mem_slice m a len) = wsum (mem_slice m a (8 * n)) + wsum (mem_slice m (a + 8 * n) k)"
    unfolding len(1) mem_slice_add by (simp add: wsum_append)
  have "csum (unat (FOLD_U32T acc') + (wsum (mem_slice m (a + 8 * n) k) + 256 * unat t1)) =
      csum (unat acc + wsum (mem_slice m a (8 * n)) + (wsum (mem_slice m (a + 8 * n) k) + 256 * unat t1))"
    by (intro csum_add_cong) (simp_all only: csum_fold l(2))
  then show ?thesis unfolding words_and_rest_def l(1) by (simp add: lp w add.assoc)
qed

definition aligned_part :: "(nat \<Rightarrow> u8) \<Rightarrow> nat \<Rightarrow> nat \<Rightarrow> u8 \<Rightarrow> u32" where
  "aligned_part m a len t1 =
     (let (acc, a, len) = (if a mod 4 \<noteq> 0 \<and> 1 < len then (ucast (ld16 m a), a + 2, len - 2) else (0, a, len)) in words_and_rest m a len acc t1)"

lemma aligned_part: "csum (unat (aligned_part m a len t1)) = csum (wsum (mem_slice m a len) + 256 * unat t1)"
proof (cases "a mod 4 \<noteq> 0 \<and> 1 < len")
  case True
  then have "len = 2 + (len - 2)" by linarith
  then have "mem_slice m a len = m a # m (a + 1) # mem_slice m (a + 2) (len - 2)" using mem_slice_2 [of m a "len - 2"] by metis
  then show ?thesis unfolding aligned_part_def if_P [OF True] Let_def prod.case words_and_rest by (simp add: ld16_def unat_halfword)
next
  case False
  then show ?thesis unfolding aligned_part_def if_not_P [OF False] Let_def prod.case words_and_rest by simp
qed

lemma chksum_3: "unat (chksum_3 m a len) = csum (wsum (mem_slice m a len))"
proof (cases "a mod 2 = 1 \<and> 0 < len")
  case True
  then obtain l where l: "len = Suc l" using gr0_implies_Suc by blast
  let ?r = "SWAP_BYTES_IN_WORD (FOLD_U32T (FOLD_U32T (aligned_part m (a + 1) l (m a))))"
  have "chksum_3 m a len = ucast ?r"
    using True l unfolding chksum_3_def aligned_part_def words_and_rest_def last_part_def by (simp add: Let_def split: prod.split)
  moreover have "unat ?r = csum (wsum (mem_slice m a len))"
    unfolding unat_swap unat_fold_twice aligned_part l mem_slice_Suc by (simp add: odd_start)
  ultimately show ?thesis using ucast_small csum_props by presburger
next
  case False
  let ?r = "FOLD_U32T (FOLD_U32T (aligned_part m a len 0))"
  have r: "unat ?r = csum (wsum (mem_slice m a len))" unfolding unat_fold_twice aligned_part by simp
  have "chksum_3 m a len = ucast (if a mod 2 = 1 then SWAP_BYTES_IN_WORD ?r else ?r)"
    unfolding chksum_3_def aligned_part_def words_and_rest_def last_part_def Let_def if_not_P [OF False] by (simp split: prod.split)
  moreover have "unat (if a mod 2 = 1 then SWAP_BYTES_IN_WORD ?r else ?r) = csum (wsum (mem_slice m a len))"
    using False r by (auto simp: unat_swap swap16_def csum_def)
  ultimately show ?thesis using ucast_small csum_props by presburger
qed

section \<open>Packets\<close>

text \<open>
  The accumulator \<open>acc\<close> stands for the sum \<open>n\<close>, with its bytes swapped if \<open>swapped\<close>.
\<close>

definition stands_for :: "u32 \<Rightarrow> bool \<Rightarrow> nat \<Rightarrow> bool" where
  "stands_for acc swapped n \<longleftrightarrow> unat acc = csum ((if swapped then 256 else 1) * n)"

lemma csum_256_256: "csum (65536 * n) = csum n"
  using csum_65536 [of n 0] by simp

lemma stands_for_swap: "stands_for acc swapped n \<Longrightarrow> stands_for (SWAP_BYTES_IN_WORD acc) (\<not> swapped) n"
  by (simp add: stands_for_def unat_swap swap16_csum csum_256_256)

lemma stands_for_end: "stands_for acc swapped n \<Longrightarrow> unat (if swapped then SWAP_BYTES_IN_WORD acc else acc) = csum n"
  using stands_for_swap [of acc swapped n] by (cases swapped) (simp_all add: stands_for_def)

lemma stands_for_add:
  assumes "stands_for acc (odd (length xs)) (wsum xs)" and "len \<le> 0x20000"
  shows "stands_for (add_pbuf acc a len h) (odd (length xs)) (wsum (xs @ mem_slice (bytes h) a len))"
proof -
  let ?c = "if odd (length xs) then 256 else 1 :: nat" and ?b = "mem_slice (bytes h) a len"
  have c: "csum (?c * (?c * n)) = csum n" for n by (simp add: csum_256_256)
  note s = assms(1) [unfolded stands_for_def] standard_chksum [OF assms(2), of "bytes h" a]
  have b: "csum n \<le> 65535" for n using csum_props by blast
  have "unat (acc + ucast (lwip_standard_chksum (bytes h) a len)) = csum (?c * wsum xs) + csum (wsum ?b)"
    by (subst unat_plus) (use s b [of "?c * wsum xs"] b [of "wsum ?b"] in simp_all)
  then have "unat (add_pbuf acc a len h) = fold16 (csum (?c * wsum xs) + csum (wsum ?b))" by (simp add: add_pbuf_def)
  also have "\<dots> = csum (csum (?c * wsum xs) + csum (wsum ?b))"
    by (rule fold16_small) (use b [of "?c * wsum xs"] b [of "wsum ?b"] in simp)
  also have "\<dots> = csum (?c * wsum xs + ?c * (?c * wsum ?b))"
    using c [of "wsum ?b"] by (intro csum_add_cong) (simp_all only: csum_eq_cong csum_props simp_thms)
  also have "\<dots> = csum (?c * (wsum xs + (if even (length xs) then 1 else 256) * wsum ?b))" by (simp add: algebra_simps)
  also have "\<dots> = csum (?c * wsum (xs @ ?b))" by (rule csum_mult_cong) (rule csum_append [symmetric])
  finally show ?thesis unfolding stands_for_def .
qed

lemma odd_word: "(w :: u16) mod 2 \<noteq> 0 \<longleftrightarrow> odd (unat w)"
  by (simp add: word_unat_eq_iff unat_mod odd_iff_mod_2_eq_one)

lemma unat16_small: "unat (w :: u16) \<le> 0x20000"
  using unat_le16 [of w] by simp

lemma chksum_chain:
  "chain h q as \<Longrightarrow> stands_for acc (odd (length xs)) (wsum xs) \<Longrightarrow>
     \<exists>acc' swapped. chksum_chain q acc (odd (length xs)) h = Some (acc', swapped) \<and> stands_for acc' swapped (wsum (xs @ contents h as))"
proof (induction as arbitrary: q acc xs)
  case Nil
  then show ?case by (subst chksum_chain.simps) simp
next
  case (Cons a as)
  then obtain b where b: "q = a" "a \<noteq> 0" "pb h a = Some b" "chain h (pnext b) as" by auto
  let ?xs = "xs @ mem_slice (bytes h) (payload b) (unat (plen b))" and ?acc = "add_pbuf acc (payload b) (unat (plen b)) h"
  have s: "stands_for ?acc (odd (length xs)) (wsum ?xs)" by (rule stands_for_add [OF Cons.prems(2) unat16_small])
  have x: "?xs = xs @ pbuf_bytes h (the_pb h a)" using b(3) by (simp add: pbuf_bytes_def the_pb_def)
  show ?case
  proof (cases "odd (unat (plen b))")
    case True
    then have m: "plen b mod 2 \<noteq> 0" unfolding odd_word .
    have o: "odd (length ?xs) = (\<not> odd (length xs))" using True by simp
    have "stands_for (SWAP_BYTES_IN_WORD ?acc) (odd (length ?xs)) (wsum ?xs)" using stands_for_swap [OF s] o by simp
    from Cons.IH [OF b(4) this, unfolded o] show ?thesis using b m x by (subst chksum_chain.simps) simp
  next
    case False
    then have m: "\<not> plen b mod 2 \<noteq> 0" unfolding odd_word .
    have o: "odd (length ?xs) = odd (length xs)" using False by simp
    have "stands_for ?acc (odd (length ?xs)) (wsum ?xs)" using s o by simp
    from Cons.IH [OF b(4) this, unfolded o] show ?thesis using b m x by (subst chksum_chain.simps) simp
  qed
qed

lemma unat_not: "unat (NOT (w :: u16)) = 65535 - unat w"
proof -
  have "unat (- 1 - w) = unat (- 1 :: u16) - unat w" by (rule Word.unat_sub) simp
  moreover have "NOT w = - 1 - w" "unat (- 1 :: u16) = 65535" by (simp_all add: not_eq_complement unsigned_minus_1_eq_mask mask_eq_exp_minus_1)
  ultimately show ?thesis by (simp only:)
qed

lemma low_half: "unat acc \<le> 65535 \<Longrightarrow> unat (ucast (NOT (acc AND 0xffff)) :: u16) = 65535 - unat (acc :: u32)"
proof -
  assume a: "unat acc \<le> 65535"
  have "ucast (NOT (acc AND 0xffff)) = NOT (ucast acc :: u16)"
    unfolding mask_words by (rule bit_word_eqI) (auto simp: bit_simps)
  then show ?thesis using ucast_small [OF a] by (simp add: unat_not)
qed

lemma pbuf_checksum:
  "chain h p as \<Longrightarrow> \<exists>r. inet_chksum_pbuf p h = Some r \<and> unat r = 65535 - csum (wsum (contents h as))"
proof -
  assume "chain h p as"
  then obtain acc sw where c: "chksum_chain p 0 False h = Some (acc, sw)" "stands_for acc sw (wsum (contents h as))"
    using chksum_chain [of h p as 0 "[]"] by (auto simp: stands_for_def csum_def)
  note u = stands_for_end [OF c(2)]
  have "unat (if sw then SWAP_BYTES_IN_WORD acc else acc) \<le> 65535" using csum_props u by presburger
  from low_half [OF this] show ?thesis unfolding inet_chksum_pbuf_def c(1) u by simp
qed

text \<open>The pseudo header: the two addresses, a zero, the protocol and the length.\<close>

definition pseudo_header :: "u8 \<Rightarrow> u16 \<Rightarrow> u32 \<Rightarrow> u32 \<Rightarrow> u8 list" where
  "pseudo_header proto proto_len src dest = le32_bytes src @ le32_bytes dest @ [0, proto] @ be16 proto_len"

lemma unat_byte: "unat (ucast (drop_bit n w) :: u8) = unat (w :: 'a :: len word) div 2 ^ n mod 256"
  by (simp add: unsigned_ucast_eq take_bit_eq_mod unat_drop)

lemma wsum_le32: "wsum (le32_bytes w) = unat (w AND 0xffff) + unat (drop_bit 16 w AND 0xffff)"
proof -
  have d: "n mod 65536 = n mod 256 + 256 * (n div 256 mod 256)" for n :: nat using mod_mult2_eq [of n 256 256] by simp
  have "unat (ucast w :: u8) = unat w mod 256" using unat_byte [of 0 w] by simp
  moreover have "unat w div 65536 div 256 = unat w div 16777216" by (simp add: div_mult2_eq [symmetric])
  ultimately show ?thesis unfolding mask_words unat_and_mask unat_drop
    by (simp add: le32_bytes_def unat_byte d [of "unat w"] d [of "unat w div 65536"])
qed

lemma wsum_be16: "wsum (be16 n) = unat (lwip_htons n)"
proof -
  have "unat (ucast n :: u8) = unat n mod 256" using unat_byte [of 0 n] by simp
  then show ?thesis by (simp add: be16_def unat_byte unat_htons swap16_def)
qed

lemma addr_sum: "stands_for (addr_sum src dest) False (wsum (le32_bytes src @ le32_bytes dest))"
proof -
  have b: "unat (w AND 0xffff) < 65536" for w :: u32 unfolding mask_words unat_and_mask by simp
  have l: "even (length (le32_bytes src))" by (simp add: le32_bytes_def)
  have "unat ((src AND 0xffff) + (drop_bit 16 src AND 0xffff) + (dest AND 0xffff) + (drop_bit 16 dest AND 0xffff)) =
      wsum (le32_bytes src @ le32_bytes dest)"
    unfolding wsum_append [OF l] wsum_le32 using b [of src] b [of "drop_bit 16 src"] b [of dest] b [of "drop_bit 16 dest"]
    by (subst unat_plus, (subst unat_plus, (subst unat_plus)?)?; simp?)+
  then show ?thesis by (simp only: stands_for_def addr_sum_def unat_fold_twice) simp
qed

lemma pseudo_end:
  assumes "stands_for acc swapped n"
  shows "unat (pseudo_end proto proto_len (acc, swapped)) = 65535 - csum (n + wsum [0, proto] + wsum (be16 proto_len))"
proof -
  let ?acc = "if swapped then SWAP_BYTES_IN_WORD acc else acc"
  have a: "unat ?acc = csum n" by (rule stands_for_end [OF assms])
  have p: "unat (lwip_htons (ucast proto)) = wsum [0, proto]"
    using unat_le8 [of proto] by (simp add: unat_htons swap16_def unsigned_ucast_eq take_bit_nat_eq_self)
  have b: "csum n \<le> 65535" "wsum [0, proto] \<le> 65535" "wsum (be16 proto_len) \<le> 65535"
    using csum_props unat_le8 [of proto] unat_le16 [of "lwip_htons proto_len"] by (simp_all add: wsum_be16)
  have "unat (?acc + ucast (lwip_htons (ucast proto))) = csum n + wsum [0, proto]"
    by (subst unat_plus) (use a b p in simp_all)
  then have s: "unat (?acc + ucast (lwip_htons (ucast proto)) + ucast (lwip_htons proto_len)) = csum n + wsum [0, proto] + wsum (be16 proto_len)"
    by (subst unat_plus) (use b in \<open>simp_all add: wsum_be16\<close>)
  have "csum (csum n + (wsum [0, proto] + wsum (be16 proto_len))) = csum (n + (wsum [0, proto] + wsum (be16 proto_len)))"
    by (intro csum_add_cong) (simp_all only: csum_eq_cong csum_props simp_thms)
  then have f: "unat (FOLD_U32T (FOLD_U32T (?acc + ucast (lwip_htons (ucast proto)) + ucast (lwip_htons proto_len)))) =
      csum (n + wsum [0, proto] + wsum (be16 proto_len))" unfolding unat_fold_twice s by (simp add: add.assoc)
  have "csum (n + wsum [0, proto] + wsum (be16 proto_len)) \<le> 65535" using csum_props by blast
  then show ?thesis unfolding pseudo_end_def Let_def fst_conv snd_conv using f low_half by presburger
qed

lemma pseudo_split: "csum (wsum (le32_bytes src @ le32_bytes dest @ bs) + 256 * unat proto + wsum (be16 n)) = csum (wsum (pseudo_header proto n src dest @ bs))"
proof -
  have e: "even (length (le32_bytes w))" "even (length (be16 n))" "even (length [0, proto])" for w by (simp_all add: le32_bytes_def be16_def)
  have "wsum (pseudo_header proto n src dest @ bs) = wsum (le32_bytes src @ le32_bytes dest @ bs) + wsum [0, proto] + wsum (be16 n)"
    unfolding pseudo_header_def append_assoc wsum_append [OF e(1)] wsum_append [OF e(2)] wsum_append [OF e(3)] by simp
  then show ?thesis by simp
qed

lemma pseudo_checksum:
  assumes "chain h p as"
  shows "\<exists>r. inet_chksum_pseudo p proto n src dest h = Some r \<and> unat r = 65535 - csum (wsum (pseudo_header proto n src dest @ contents h as))"
proof -
  have o: "\<not> odd (length (le32_bytes src @ le32_bytes dest))" by (simp add: le32_bytes_def)
  obtain acc sw where "chksum_chain p (addr_sum src dest) False h = Some (acc, sw)"
      "stands_for acc sw (wsum ((le32_bytes src @ le32_bytes dest) @ contents h as))"
    using chksum_chain [OF assms, of "addr_sum src dest" "le32_bytes src @ le32_bytes dest"] addr_sum [of src dest] o by auto
  then show ?thesis unfolding inet_chksum_pseudo_def inet_cksum_pseudo_base_def by (simp add: pseudo_end pseudo_split)
qed

lemma chksum_partial:
  "chain h q as \<Longrightarrow> stands_for acc (odd (length xs)) (wsum xs) \<Longrightarrow>
     \<exists>acc' swapped. chksum_partial q n acc (odd (length xs)) h = Some (acc', swapped) \<and>
       stands_for acc' swapped (wsum (xs @ take (unat n) (contents h as)))"
proof (induction as arbitrary: q acc xs n)
  case Nil
  then show ?case by (subst chksum_partial.simps) simp
next
  case (Cons a as)
  then obtain b where b: "q = a" "a \<noteq> 0" "pb h a = Some b" "chain h (pnext b) as" by auto
  let ?k = "min (plen b) n" and ?bs = "pbuf_bytes h (the_pb h a)"
  let ?acc = "add_pbuf acc (payload b) (unat ?k) h"
  have len: "length ?bs = unat (plen b)" using b(3) by (simp add: pbuf_bytes_def the_pb_def)
  have k: "mem_slice (bytes h) (payload b) (unat ?k) = take (unat n) ?bs"
    using b(3) by (auto simp: pbuf_bytes_def the_pb_def min_def word_le_nat_alt take_mem_slice)
  have s: "stands_for ?acc (odd (length xs)) (wsum (xs @ take (unat n) ?bs))"
    using stands_for_add [OF Cons.prems(2) unat16_small, of "payload b" ?k h] unfolding k .
  show ?case
  proof (cases "n = 0")
    case True
    then show ?thesis using Cons.prems(2) by (subst chksum_partial.simps) auto
  next
    case nz: False
    show ?thesis
    proof (cases "n \<le> plen b")
      case True
      then have "take (unat n) (contents h (a # as)) = take (unat n) ?bs" by (simp add: len word_le_nat_alt)
      then show ?thesis using b nz True s stands_for_swap [OF s]
        by (subst chksum_partial.simps) (auto simp: chksum_partial.simps [of _ 0] min_def)
    next
      case False
      then have m: "?k = plen b" and n: "unat (n - plen b) = unat n - unat (plen b)" and t: "take (unat n) ?bs = ?bs"
        by (simp_all add: min_def Word.unat_sub len word_le_nat_alt)
      have x: "xs @ take (unat n) (contents h (a # as)) = (xs @ ?bs) @ take (unat (n - plen b)) (contents h as)" using t by (simp add: n len)
      show ?thesis
      proof (cases "odd (unat (plen b))")
        case True
        then have w: "plen b mod 2 \<noteq> 0" and o: "odd (length (xs @ ?bs)) = (\<not> odd (length xs))" unfolding odd_word by (simp_all add: len)
        have "stands_for (SWAP_BYTES_IN_WORD ?acc) (odd (length (xs @ ?bs))) (wsum (xs @ ?bs))" using stands_for_swap [OF s] o t by simp
        from Cons.IH [OF b(4) this, unfolded o] show ?thesis using b nz w unfolding x by (subst chksum_partial.simps) (simp add: m)
      next
        case False
        then have w: "\<not> plen b mod 2 \<noteq> 0" and o: "odd (length (xs @ ?bs)) = odd (length xs)" unfolding odd_word by (simp_all add: len)
        have "stands_for ?acc (odd (length (xs @ ?bs))) (wsum (xs @ ?bs))" using s o t by simp
        from Cons.IH [OF b(4) this, unfolded o] show ?thesis using b nz w unfolding x by (subst chksum_partial.simps) (simp add: m)
      qed
    qed
  qed
qed

lemma pseudo_partial_checksum:
  assumes "chain h p as"
  shows "\<exists>r. inet_chksum_pseudo_partial p proto n k src dest h = Some r \<and>
    unat r = 65535 - csum (wsum (pseudo_header proto n src dest @ take (unat k) (contents h as)))"
proof -
  have o: "\<not> odd (length (le32_bytes src @ le32_bytes dest))" by (simp add: le32_bytes_def)
  obtain acc sw where "chksum_partial p k (addr_sum src dest) False h = Some (acc, sw)"
      "stands_for acc sw (wsum ((le32_bytes src @ le32_bytes dest) @ take (unat k) (contents h as)))"
    using chksum_partial [OF assms, of "addr_sum src dest" "le32_bytes src @ le32_bytes dest" k] addr_sum [of src dest] o by auto
  then show ?thesis unfolding inet_chksum_pseudo_partial_def inet_cksum_pseudo_partial_base_def by (simp add: pseudo_end pseudo_split)
qed

section \<open>Properties\<close>

text \<open>
  C36. The three versions of \<^verbatim>\<open>lwip_standard_chksum\<close>, byte by byte, two bytes at a time and eight bytes at a
  time, compute the same sum for every start address and every length up to the 0x20000 bytes the source
  promises: the sum of the 16-bit words in one's complement.
\<close>

theorem chksum_versions_agree:
  assumes "len \<le> 0x20000"
  shows "chksum_1 m a len = lwip_standard_chksum m a len \<and> chksum_3 m a len = lwip_standard_chksum m a len \<and>
    unat (lwip_standard_chksum m a len) = csum (wsum (mem_slice m a len))"
  using standard_chksum [OF assms] chksum_1 [OF assms] chksum_3 by (simp add: word_unat_eq_iff)

theorem chksum_versions_agree_witness:
  "(9 :: nat) \<le> 0x20000 \<and> chksum_1 (\<lambda>i. word_of_nat (7 * i)) 3 9 = chksum_3 (\<lambda>i. word_of_nat (7 * i)) 3 9"
  using chksum_versions_agree [of 9 "\<lambda>i. word_of_nat (7 * i)" 3] by simp

text \<open>
  The checksum of a packet depends only on its contents, not on how they are cut into pbufs or where these
  lie: without pseudo header it is the complement of the sum of the contents, with it the complement of the sum
  of the pseudo header of TCP and UDP followed by the contents, or by the first \<open>k\<close> bytes of them.
\<close>

theorem packet_checksum:
  assumes "chain h p as"
  shows "\<exists>r1 r2 r3. inet_chksum_pbuf p h = Some r1 \<and> unat r1 = 65535 - csum (wsum (contents h as)) \<and>
    ip_chksum_pseudo p proto n src dest h = Some r2 \<and> unat r2 = 65535 - csum (wsum (pseudo_header proto n src dest @ contents h as)) \<and>
    ip_chksum_pseudo_partial p proto n k src dest h = Some r3 \<and>
    unat r3 = 65535 - csum (wsum (pseudo_header proto n src dest @ take (unat k) (contents h as)))"
  unfolding ip_chksum_pseudo_def ip_chksum_pseudo_partial_def
  using pbuf_checksum [OF assms] pseudo_checksum [OF assms] pseudo_partial_checksum [OF assms] by blast

theorem packet_checksum_witness:
  "chain demo_packets 10 [10, 50] \<and> (\<exists>r. ip_chksum_pseudo 10 6 7 0 0 demo_packets = Some r)"
proof -
  have "chain demo_packets 10 [10, 50]" using demo_packet(1) by (simp add: packet_def)
  then show ?thesis using packet_checksum by blast
qed

lemma verifies_iff: "chain h p as \<Longrightarrow> inet_chksum_pbuf p h = Some 0 \<longleftrightarrow> wsum (contents h as) mod 65535 = 0 \<and> wsum (contents h as) \<noteq> 0"
proof -
  assume "chain h p as"
  then obtain r where r: "inet_chksum_pbuf p h = Some r" "unat r = 65535 - csum (wsum (contents h as))" using pbuf_checksum by blast
  have "r = 0 \<longleftrightarrow> 65535 = csum (wsum (contents h as))" using r(2) csum_props [of "wsum (contents h as)"] by (auto simp: word_unat_eq_iff)
  also have "\<dots> \<longleftrightarrow> wsum (contents h as) mod 65535 = 0 \<and> wsum (contents h as) \<noteq> 0" unfolding csum_eq_iff by auto
  finally show ?thesis using r(1) by simp
qed

lemma wsum_field: "even (length xs) \<Longrightarrow> wsum (xs @ [a, b] @ ys) = wsum xs + (unat a + 256 * unat b) + wsum ys"
  by (simp add: wsum_append)

lemma field_bytes: "unat (ucast r :: u8) + 256 * unat (ucast (drop_bit 8 r) :: u8) = unat (r :: u16)"
proof -
  have "unat r div 256 < 256" using unat_le16 [of r] by linarith
  then show ?thesis using unat_byte [of 0 r] by (simp add: unat_byte)
qed

lemma same_word: "((x :: nat) + n) mod 65535 = (y + n) mod 65535 \<Longrightarrow> x \<le> 65535 \<Longrightarrow> y \<le> 65535 \<Longrightarrow> x = y \<or> {x, y} = {0, 65535}"
proof -
  assume a: "(x + n) mod 65535 = (y + n) mod 65535" "x \<le> 65535" "y \<le> 65535"
  have "int (x + n) mod 65535 = int (y + n) mod 65535" using arg_cong [OF a(1), of int] by (simp add: zmod_int)
  then have "65535 dvd int x - int y" by (simp add: mod_eq_dvd_iff)
  then obtain k where k: "int x - int y = 65535 * k" by (elim dvdE)
  then have "k = -1 \<or> k = 0 \<or> k = 1" using a(2,3) by linarith
  then show ?thesis using k a(2,3) by auto
qed

lemma word_bytes_eq: "unat a + 256 * unat b = unat c + 256 * unat d \<longleftrightarrow> (a :: u8, b :: u8) = (c, d)"
proof
  assume e: "unat a + 256 * unat b = unat c + 256 * unat d"
  have m: "(unat x + 256 * unat y) mod 256 = unat x" for x y :: u8 using unat_le8 [of x] by simp
  have "unat a = unat c" using arg_cong [OF e, of "\<lambda>n. n mod 256"] unfolding m .
  then show "(a, b) = (c, d)" using e by (simp add: word_unat_eq_iff)
qed simp

text \<open>
  C37. The checksum protects a message. If its field (at an even offset) is zero while the checksum is computed and then
  holds the result, the receiver computes 0, however the message is cut into pbufs on either side. If in
  addition one aligned 16-bit word changes on the way, the receiver does not compute 0, unless the word
  changes between 0 and 0xffff.
\<close>

theorem checksum_protects:
  assumes "chain h p as" and "contents h as = pre @ [0, 0] @ post" and "even (length pre)" and "inet_chksum_pbuf p h = Some r"
    and "chain h' q bs"
  shows "(contents h' bs = pre @ [ucast r, ucast (drop_bit 8 r)] @ post \<longrightarrow> inet_chksum_pbuf q h' = Some 0) \<and>
    (\<forall>xs a b ys c d. pre @ [ucast r, ucast (drop_bit 8 r)] @ post = xs @ [a, b] @ ys \<and> even (length xs) \<and> contents h' bs = xs @ [c, d] @ ys \<and>
       (a, b) \<noteq> (c, d) \<and> {(a, b), (c, d)} \<noteq> {(0, 0), (0xff, 0xff)} \<longrightarrow> inet_chksum_pbuf q h' \<noteq> Some 0)"
proof -
  let ?sent = "pre @ [ucast r, ucast (drop_bit 8 r)] @ post"
  let ?w = "wsum pre + wsum post"
  have "unat r = 65535 - csum ?w"
    using pbuf_checksum [OF assms(1)] assms(4) unfolding assms(2) wsum_field [OF assms(3)] by simp
  then have w: "wsum ?sent = ?w + (65535 - csum ?w)" unfolding wsum_field [OF assms(3)] field_bytes by simp
  have c: "csum ?w \<le> 65535" "csum ?w mod 65535 = ?w mod 65535" "csum ?w = 0 \<longleftrightarrow> ?w = 0" using csum_props [of ?w] by auto
  have "(csum ?w + (65535 - csum ?w)) mod 65535 = 0" using c(1) by simp
  then have ok: "wsum ?sent mod 65535 = 0" unfolding w using c(2) by (metis mod_add_left_eq)
  moreover have "wsum ?sent \<noteq> 0" using w c(3) by auto
  moreover have "inet_chksum_pbuf q h' \<noteq> Some 0"
    if e: "?sent = xs @ [a, b] @ ys" "even (length xs)" "contents h' bs = xs @ [c, d] @ ys" and ne: "(a, b) \<noteq> (c, d)"
      "{(a, b), (c, d)} \<noteq> {(0, 0), (0xff, 0xff)}" for xs a b ys c d
  proof
    assume "inet_chksum_pbuf q h' = Some 0"
    then have "wsum (xs @ [c, d] @ ys) mod 65535 = wsum (xs @ [a, b] @ ys) mod 65535" using verifies_iff [OF assms(5)] ok e by simp
    then have "(unat c + 256 * unat d + (wsum xs + wsum ys)) mod 65535 = (unat a + 256 * unat b + (wsum xs + wsum ys)) mod 65535"
      unfolding wsum_field [OF e(2)] by (simp add: algebra_simps)
    then have "unat c + 256 * unat d = unat a + 256 * unat b \<or> {unat c + 256 * unat d, unat a + 256 * unat b} = {0, 65535}"
      by (rule same_word) (use unat_le8 [of a] unat_le8 [of b] unat_le8 [of c] unat_le8 [of d] in simp_all)
    then have "{unat c + 256 * unat d, unat a + 256 * unat b} = {0, 65535}" using ne(1) word_bytes_eq by metis
    moreover have "(0 :: nat) = unat (0 :: u8) + 256 * unat (0 :: u8)" "(65535 :: nat) = unat (0xff :: u8) + 256 * unat (0xff :: u8)" by simp_all
    ultimately have "{unat c + 256 * unat d, unat a + 256 * unat b} = {unat (0 :: u8) + 256 * unat (0 :: u8), unat (0xff :: u8) + 256 * unat (0xff :: u8)}" by (simp only:)
    then have "{(a, b), (c, d)} = {(0, 0), (0xff, 0xff)}" unfolding doubleton_eq_iff word_bytes_eq by blast
    then show False using ne(2) by simp
  qed
  ultimately show ?thesis using verifies_iff [OF assms(5)] by metis
qed

definition demo_summed :: store where
  "demo_summed = demo_packets\<lparr>bytes := (bytes demo_packets)(66 := 0xff, 67 := 0xff)\<rparr>"

lemma demo_contents: "contents demo_packets [10, 50] = [0, 0, 0, 0] @ [0, 0] @ [0]" "contents demo_summed [10, 50] = [0, 0, 0, 0] @ [0xff, 0xff] @ [0]"
  by (simp_all add: demo_summed_def demo_packets_def demo_store_def demo_buf_def pbuf_bytes_def mem_slice_def the_pb_def upt_rec)

theorem checksum_protects_witness:
  "inet_chksum_pbuf 10 demo_packets = Some 0xffff \<and> inet_chksum_pbuf 10 demo_summed = Some 0"
proof -
  have c: "chain demo_packets 10 [10, 50]" "chain demo_summed 10 [10, 50]" by (simp_all add: demo_summed_def demo_packets_def demo_buf_def)
  obtain r where r: "inet_chksum_pbuf 10 demo_packets = Some r" "unat r = 65535" using pbuf_checksum [OF c(1), unfolded demo_contents(1)] by (auto simp: csum_def)
  then have "r = 0xffff" by (simp add: word_unat_eq_iff)
  moreover have "contents demo_summed [10, 50] = [0, 0, 0, 0] @ [ucast r, ucast (drop_bit 8 r)] @ [0]" unfolding demo_contents(2) \<open>r = 0xffff\<close> by simp
  ultimately show ?thesis using checksum_protects [OF c(1) demo_contents(1) _ r(1) c(2)] r(1) by simp
qed

end
