(* ===== verification/Ip4.thy ===== *)
theory Ip4
  imports Inet_Chksum
begin

text \<open>
  \<^verbatim>\<open>src/STM32/Bootloader/User/lwip-2.0.3/src/core/ipv4/ip4.c\<close>, the part that sends, with the state of the IP layer. The options
  are those of \<^verbatim>\<open>lwipopts.h\<close> and \<^verbatim>\<open>opt.h\<close>: no forwarding, no loopback, no hooks, no options in packets that are sent, header checksums by
  hardware. \<^verbatim>\<open>netif->output\<close> is \<^verbatim>\<open>etharp_output\<close>, which \<^verbatim>\<open>ethernetif_init\<close> stores there. Fragmentation and reassembly
  (\<^verbatim>\<open>ip4_frag.c\<close>), UDP and TCP are arguments. A null pointer for an address is \<open>None\<close>.
\<close>

unbundle bit_operations_syntax

section \<open>State\<close>

record 'd ip = "'d arp" +
  ip_id :: u16
  current_netif :: nat
  current_input_netif :: nat
  current_ip4_header :: nat
  current_ip_header_tot_len :: u16
  current_iphdr_src :: u32
  current_iphdr_dest :: u32

record ('d, 'z) ip_env =
  arp_env :: "'d arp_env"
  netif_list :: "nat list"
  netif_default :: nat
  ip4_frag :: "nat \<Rightarrow> nat \<Rightarrow> u32 \<Rightarrow> ('d, 'z) ip_scheme \<Rightarrow> (err_t \<times> ('d, 'z) ip_scheme) option"
  ip4_reass :: "nat \<Rightarrow> ('d, 'z) ip_scheme \<Rightarrow> (nat \<times> ('d, 'z) ip_scheme) option"
  to_udp :: "nat \<Rightarrow> nat \<Rightarrow> ('d, 'z) ip_scheme \<Rightarrow> ('d, 'z) ip_scheme option"
  to_tcp :: "nat \<Rightarrow> nat \<Rightarrow> ('d, 'z) ip_scheme \<Rightarrow> ('d, 'z) ip_scheme option"

abbreviation iface :: "('d, 'z) ip_env \<Rightarrow> nat \<Rightarrow> netif" where
  "iface E n \<equiv> netif_at (arp_env E) n"

definition IP_HLEN :: nat where "IP_HLEN = 20"
definition IP_PROTO_ICMP :: u8 where "IP_PROTO_ICMP = 1"
definition IP_PROTO_TCP :: u8 where "IP_PROTO_TCP = 6"
definition IP_PROTO_UDP :: u8 where "IP_PROTO_UDP = 17"

text \<open>\<^verbatim>\<open>struct ip_hdr\<close> with a zero fragment field and checksum, as bytes.\<close>

definition ip_hdr :: "u8 \<Rightarrow> u8 \<Rightarrow> u16 \<Rightarrow> u16 \<Rightarrow> u8 \<Rightarrow> u8 \<Rightarrow> u32 \<Rightarrow> u32 \<Rightarrow> u8 list" where
  "ip_hdr v_hl tos len ident ttl proto src dest =
     [v_hl, tos] @ be16 len @ be16 ident @ [0, 0, ttl, proto, 0, 0] @ le32_bytes src @ le32_bytes dest"

section \<open>Routing\<close>

definition usable :: "('d, 'z) ip_env \<Rightarrow> nat \<Rightarrow> bool" where
  "usable E n \<longleftrightarrow> netif_up (iface E n) \<and> netif_link_up (iface E n) \<and> \<not> ip4_addr_isany (netif_ip4_addr (iface E n))"

fun route_scan :: "('d, 'z) ip_env \<Rightarrow> u32 \<Rightarrow> nat list \<Rightarrow> nat option" where
  "route_scan E dest [] = None"
| "route_scan E dest (n # ns) =
     (if usable E n \<and> (ip4_addr_netcmp dest (netif_ip4_addr (iface E n)) (netif_ip4_netmask (iface E n)) \<or>
        \<not> flag_broadcast (iface E n) \<and> dest = netif_ip4_gw (iface E n))
      then Some n else route_scan E dest ns)"

text \<open>The interface, or 0.\<close>

definition ip4_route :: "('d, 'z) ip_env \<Rightarrow> u32 \<Rightarrow> nat" where
  "ip4_route E dest =
     (case route_scan E dest (netif_list E) of Some n \<Rightarrow> n
      | None \<Rightarrow> if netif_default E = 0 \<or> \<not> usable E (netif_default E) then 0 else netif_default E)"

section \<open>Output\<close>

definition ip4_output_if_src ::
  "('d, 'z) ip_env \<Rightarrow> nat \<Rightarrow> u32 option \<Rightarrow> u32 option \<Rightarrow> u8 \<Rightarrow> u8 \<Rightarrow> u8 \<Rightarrow> nat \<Rightarrow> ('d, 'z) ip_scheme \<Rightarrow> (err_t \<times> ('d, 'z) ip_scheme) option" where
  "ip4_output_if_src E p src dest ttl tos proto netif s = do {
     (e, dst, s) \<leftarrow> (case dest of
         Some d \<Rightarrow> do {
           (e, h) \<leftarrow> pbuf_header p (int IP_HLEN) (mem_of s);
           if e \<noteq> 0 then Some (ERR_BUF, d, s\<lparr>mem_of := h\<rparr>)
           else do {
             b \<leftarrow> pb h p;
             let h = memcpy_to (payload b) (ip_hdr 0x45 tos (tot_len b) (ip_id s) ttl proto (case src of None \<Rightarrow> IPADDR_ANY | Some a \<Rightarrow> a) d) h;
             Some (ERR_OK, d, s\<lparr>mem_of := h, ip_id := ip_id s + 1\<rparr>)
           }
         }
       | None \<Rightarrow> do {
           b \<leftarrow> pb (mem_of s) p;
           Some (ERR_OK, le32 (mem_slice (bytes (mem_of s)) (payload b + 16) 4), s)
         });
     if e \<noteq> ERR_OK then Some (e, s)
     else do {
       b \<leftarrow> pb (mem_of s) p;
       if mtu (iface E netif) \<noteq> 0 \<and> mtu (iface E netif) < unat (tot_len b) then ip4_frag E p netif dst s
       else etharp_output (arp_env E) netif p dst s
     }
   }"

definition ip4_output_if ::
  "('d, 'z) ip_env \<Rightarrow> nat \<Rightarrow> u32 option \<Rightarrow> u32 option \<Rightarrow> u8 \<Rightarrow> u8 \<Rightarrow> u8 \<Rightarrow> nat \<Rightarrow> ('d, 'z) ip_scheme \<Rightarrow> (err_t \<times> ('d, 'z) ip_scheme) option" where
  "ip4_output_if E p src dest ttl tos proto netif s =
     (let src_used = (if dest \<noteq> None \<and> (src = None \<or> src = Some IPADDR_ANY) then Some (netif_ip4_addr (iface E netif)) else src)
      in ip4_output_if_src E p src_used dest ttl tos proto netif s)"

definition ip4_output :: "('d, 'z) ip_env \<Rightarrow> nat \<Rightarrow> u32 option \<Rightarrow> u32 \<Rightarrow> u8 \<Rightarrow> u8 \<Rightarrow> u8 \<Rightarrow> ('d, 'z) ip_scheme \<Rightarrow> (err_t \<times> ('d, 'z) ip_scheme) option" where
  "ip4_output E p src dest ttl tos proto s =
     (let netif = ip4_route E dest
      in if netif = 0 then Some (ERR_RTE, s) else ip4_output_if E p src (Some dest) ttl tos proto netif s)"

end
