(* ===== verification/Icmp.thy ===== *)
theory Icmp
  imports Ip4
begin

text \<open>
  \<^verbatim>\<open>src/STM32/Bootloader/User/lwip-2.0.3/src/core/ipv4/icmp.c\<close>: answers to echo requests and error messages. The checksum of a
  request is verified in software (\<^verbatim>\<open>CHECKSUM_CHECK_ICMP\<close> keeps its default), that of an answer is left to the hardware.
\<close>

unbundle bit_operations_syntax

definition ICMP_ER :: u8 where "ICMP_ER = 0"
definition ICMP_DUR :: u8 where "ICMP_DUR = 3"
definition ICMP_ECHO :: u8 where "ICMP_ECHO = 8"
definition ICMP_TE :: u8 where "ICMP_TE = 11"
definition ICMP_DUR_PROTO :: u8 where "ICMP_DUR_PROTO = 2"
definition ICMP_TTL :: u8 where "ICMP_TTL = 255"
definition ICMP_DEST_UNREACH_DATASIZE :: nat where "ICMP_DEST_UNREACH_DATASIZE = 8"
definition SIZEOF_ICMP_ECHO_HDR :: nat where "SIZEOF_ICMP_ECHO_HDR = 8"

text \<open>The labels \<^verbatim>\<open>lenerr\<close> and \<^verbatim>\<open>icmperr\<close> and the end of \<^verbatim>\<open>icmp_input\<close>: the packet is freed.\<close>

definition free_packet :: "('d, 'z) ip_env \<Rightarrow> nat \<Rightarrow> ('d, 'z) ip_scheme \<Rightarrow> ('d, 'z) ip_scheme option" where
  "free_packet E p s = do { (n, h) \<leftarrow> pbuf_free (penv (arp_env E)) p (mem_of s); Some (s\<lparr>mem_of := h\<rparr>) }"

text \<open>
  A packet with room for the headers in front of the message: \<open>p\<close> itself, or a copy in place of \<open>p\<close>; 0 if
  there is none, \<open>p\<close> being kept.
\<close>

definition echo_copy :: "('d, 'z) ip_env \<Rightarrow> nat \<Rightarrow> nat \<Rightarrow> nat \<Rightarrow> store \<Rightarrow> (nat \<times> store) option" where
  "echo_copy E p iphdr_in hlen h = do {
     let P = penv (arp_env E);
     b \<leftarrow> pb h p;
     (r, h) \<leftarrow> pbuf_alloc P PBUF_LINK (tot_len b + of_nat hlen) PBUF_RAM 0 h;
     if r = 0 then Some (0, h)
     else do {
       c \<leftarrow> pb h r;
       if unat (plen c) < hlen + SIZEOF_ICMP_ECHO_HDR then do { (n, h) \<leftarrow> pbuf_free P r h; Some (0, h) }
       else do {
         let h = memcpy_to (payload c) (mem_slice (bytes h) iphdr_in hlen) h;
         (e, h) \<leftarrow> pbuf_header r (- int hlen) h;
         if e \<noteq> 0 then do { (n, h) \<leftarrow> pbuf_free P r h; Some (0, h) }
         else do {
           (e, h) \<leftarrow> pbuf_copy r p h;
           if e \<noteq> ERR_OK then do { (n, h) \<leftarrow> pbuf_free P r h; Some (0, h) }
           else do { (n, h) \<leftarrow> pbuf_free P p h; Some (r, h) }
         }
       }
     }
   }"

definition echo_room :: "('d, 'z) ip_env \<Rightarrow> nat \<Rightarrow> nat \<Rightarrow> nat \<Rightarrow> store \<Rightarrow> (nat \<times> store) option" where
  "echo_room E p iphdr_in hlen h = do {
     (e, h) \<leftarrow> pbuf_header p (int (hlen + PBUF_LINK_HLEN)) h;
     if e \<noteq> 0 then echo_copy E p iphdr_in hlen h
     else do {
       (e, h) \<leftarrow> pbuf_header p (- int (hlen + PBUF_LINK_HLEN)) h;
       Some (if e \<noteq> 0 then 0 else p, h)
     }
   }"

text \<open>Turns the request into the answer, in place, and sends it.\<close>

definition echo_reply :: "('d, 'z) ip_env \<Rightarrow> nat \<Rightarrow> nat \<Rightarrow> nat \<Rightarrow> u32 \<Rightarrow> ('d, 'z) ip_scheme \<Rightarrow> ('d, 'z) ip_scheme option" where
  "echo_reply E p hlen inp src s = do {
     b \<leftarrow> pb (mem_of s) p;
     let iecho = payload b;
     (e, h) \<leftarrow> pbuf_header p (int hlen) (mem_of s);
     if e \<noteq> 0 then Some (s\<lparr>mem_of := h\<rparr>)
     else do {
       b \<leftarrow> pb h p;
       let iphdr = payload b;
       let h = memcpy_to (iphdr + 12) (le32_bytes src @ le32_bytes (current_iphdr_src s)) h;
       let h = memcpy_to iecho [ICMP_ER] h;
       let h = memcpy_to (iecho + 2) [0, 0] h;
       let h = memcpy_to (iphdr + 8) [ICMP_TTL] h;
       let h = memcpy_to (iphdr + 10) [0, 0] h;
       (ret, s) \<leftarrow> ip4_output_if E p (Some src) None ICMP_TTL 0 IP_PROTO_ICMP inp (s\<lparr>mem_of := h\<rparr>);
       Some s
     }
   }"

definition icmp_echo :: "('d, 'z) ip_env \<Rightarrow> nat \<Rightarrow> nat \<Rightarrow> nat \<Rightarrow> ('d, 'z) ip_scheme \<Rightarrow> ('d, 'z) ip_scheme option" where
  "icmp_echo E p hlen inp s =
     (let src = current_iphdr_dest s
      in if ip4_addr_ismulticast src then free_packet E p s
      else if ip4_addr_isbroadcast src (iface E (current_netif s)) then free_packet E p s
      else do {
        b \<leftarrow> pb (mem_of s) p;
        if unat (tot_len b) < SIZEOF_ICMP_ECHO_HDR then free_packet E p s
        else do {
          c \<leftarrow> inet_chksum_pbuf p (mem_of s);
          if c \<noteq> 0 then free_packet E p s
          else do {
            (r, h) \<leftarrow> echo_room E p (current_ip4_header s) hlen (mem_of s);
            let s = s\<lparr>mem_of := h\<rparr>;
            if r = 0 then free_packet E p s
            else do { s \<leftarrow> echo_reply E r hlen inp src s; free_packet E r s }
          }
        }
      })"

definition icmp_input :: "('d, 'z) ip_env \<Rightarrow> nat \<Rightarrow> nat \<Rightarrow> ('d, 'z) ip_scheme \<Rightarrow> ('d, 'z) ip_scheme option" where
  "icmp_input E p inp s = do {
     let hlen = unat (bytes (mem_of s) (current_ip4_header s) AND 0x0f) * 4;
     if hlen < IP_HLEN then free_packet E p s
     else do {
       b \<leftarrow> pb (mem_of s) p;
       if unat (plen b) < 4 then free_packet E p s
       else if bytes (mem_of s) (payload b) = ICMP_ECHO then icmp_echo E p hlen inp s
       else free_packet E p s
     }
   }"

section \<open>Error messages\<close>

definition icmp_send_response :: "('d, 'z) ip_env \<Rightarrow> nat \<Rightarrow> u8 \<Rightarrow> u8 \<Rightarrow> ('d, 'z) ip_scheme \<Rightarrow> ('d, 'z) ip_scheme option" where
  "icmp_send_response E p type code s = do {
     (q, h) \<leftarrow> pbuf_alloc (penv (arp_env E)) PBUF_IP (of_nat (SIZEOF_ICMP_ECHO_HDR + IP_HLEN + ICMP_DEST_UNREACH_DATASIZE)) PBUF_RAM 0 (mem_of s);
     if q = 0 then Some (s\<lparr>mem_of := h\<rparr>)
     else do {
       b \<leftarrow> pb h p;
       c \<leftarrow> pb h q;
       let iphdr = payload b;
       let h = memcpy_to (payload c) [type, code] h;
       let h = memcpy_to (payload c + 4) [0, 0, 0, 0] h;
       let h = memcpy_to (payload c + SIZEOF_ICMP_ECHO_HDR) (mem_slice (bytes h) iphdr (IP_HLEN + ICMP_DEST_UNREACH_DATASIZE)) h;
       let iphdr_src = le32 (mem_slice (bytes h) (iphdr + 12) 4);
       let netif = ip4_route E iphdr_src;
       s \<leftarrow> (if netif \<noteq> 0 then do {
              let h = memcpy_to (payload c + 2) [0, 0] h;
              (ret, s) \<leftarrow> ip4_output_if E q None (Some iphdr_src) ICMP_TTL 0 IP_PROTO_ICMP netif (s\<lparr>mem_of := h\<rparr>);
              Some s
            } else Some (s\<lparr>mem_of := h\<rparr>));
       free_packet E q s
     }
   }"

definition icmp_dest_unreach :: "('d, 'z) ip_env \<Rightarrow> nat \<Rightarrow> u8 \<Rightarrow> ('d, 'z) ip_scheme \<Rightarrow> ('d, 'z) ip_scheme option" where
  "icmp_dest_unreach E p t s = icmp_send_response E p ICMP_DUR t s"

definition icmp_time_exceeded :: "('d, 'z) ip_env \<Rightarrow> nat \<Rightarrow> u8 \<Rightarrow> ('d, 'z) ip_scheme \<Rightarrow> ('d, 'z) ip_scheme option" where
  "icmp_time_exceeded E p t s = icmp_send_response E p ICMP_TE t s"

end
