(* ===== verification/Ip4_Input.thy ===== *)
theory Ip4_Input
  imports Icmp
begin

text \<open>
  \<^verbatim>\<open>src/STM32/Bootloader/User/lwip-2.0.3/src/core/ipv4/ip4.c\<close>, the part that receives. \<^verbatim>\<open>LWIP_DHCP\<close> is on, so datagrams to the port of
  the DHCP client pass whatever their destination; header checksums are verified by hardware; IP options are allowed and skipped.
\<close>

unbundle bit_operations_syntax

definition DHCP_CLIENT_PORT :: u16 where "DHCP_CLIENT_PORT = 68"
definition IP_MF :: u16 where "IP_MF = 0x2000"
definition IP_OFFMASK :: u16 where "IP_OFFMASK = 0x1fff"

definition ip4_addr_isloopback :: "u32 \<Rightarrow> bool" where
  "ip4_addr_isloopback a \<longleftrightarrow> a AND lwip_htonl 0xff000000 = lwip_htonl 0x7f000000"

text \<open>A 16-bit field in network order at an address.\<close>

definition net16 :: "(nat \<Rightarrow> u8) \<Rightarrow> nat \<Rightarrow> u16" where
  "net16 m a = lwip_htons (ld16 m a)"

definition net32 :: "(nat \<Rightarrow> u8) \<Rightarrow> nat \<Rightarrow> u32" where
  "net32 m a = le32 (mem_slice m a 4)"

section \<open>The interface a packet is for\<close>

definition accepts :: "('d, 'z) ip_env \<Rightarrow> u32 \<Rightarrow> nat \<Rightarrow> bool" where
  "accepts E dest n \<longleftrightarrow> netif_up (iface E n) \<and> \<not> ip4_addr_isany (netif_ip4_addr (iface E n)) \<and>
     (dest = netif_ip4_addr (iface E n) \<or> ip4_addr_isbroadcast dest (iface E n))"

fun accept_scan :: "('d, 'z) ip_env \<Rightarrow> u32 \<Rightarrow> nat \<Rightarrow> nat list \<Rightarrow> nat" where
  "accept_scan E dest inp [] = 0"
| "accept_scan E dest inp (n # ns) = (if n \<noteq> inp \<and> accepts E dest n then n else accept_scan E dest inp ns)"

definition match_netif :: "('d, 'z) ip_env \<Rightarrow> u32 \<Rightarrow> nat \<Rightarrow> nat" where
  "match_netif E dest inp =
     (if ip4_addr_ismulticast dest then
        (if netif_up (iface E inp) \<and> \<not> ip4_addr_isany (netif_ip4_addr (iface E inp)) then inp else 0)
      else if accepts E dest inp then inp
      else if ip4_addr_isloopback dest then 0
      else accept_scan E dest inp (netif_list E))"

section \<open>Delivery\<close>

definition ip4_deliver :: "('d, 'z) ip_env \<Rightarrow> nat \<Rightarrow> nat \<Rightarrow> nat \<Rightarrow> nat \<Rightarrow> nat \<Rightarrow> ('d, 'z) ip_scheme \<Rightarrow> ('d, 'z) ip_scheme option" where
  "ip4_deliver E p iphdr hlen netif inp s = do {
     let s = s\<lparr>current_netif := netif, current_input_netif := inp, current_ip4_header := iphdr,
       current_ip_header_tot_len := of_nat (unat (bytes (mem_of s) iphdr AND 0x0f) * 4)\<rparr>;
     (e, h) \<leftarrow> pbuf_header p (- int hlen) (mem_of s);
     let s = s\<lparr>mem_of := h\<rparr>;
     let proto = bytes h (iphdr + 9);
     s \<leftarrow> (if proto = IP_PROTO_UDP then to_udp E p inp s
          else if proto = IP_PROTO_TCP then to_tcp E p inp s
          else if proto = IP_PROTO_ICMP then icmp_input E p inp s
          else do {
            s \<leftarrow> (if \<not> ip4_addr_isbroadcast (current_iphdr_dest s) (iface E netif) \<and> \<not> ip4_addr_ismulticast (current_iphdr_dest s) then do {
                   (e, h) \<leftarrow> pbuf_header_force p (int hlen) (mem_of s);
                   b \<leftarrow> pb h p;
                   icmp_dest_unreach E p ICMP_DUR_PROTO (s\<lparr>mem_of := put_pbuf p (b\<lparr>payload := iphdr\<rparr>) h\<rparr>)
                 } else Some s);
            free_packet E p s
          });
     Some (s\<lparr>current_netif := 0, current_input_netif := 0, current_ip4_header := 0, current_ip_header_tot_len := 0,
       current_iphdr_src := IPADDR_ANY, current_iphdr_dest := IPADDR_ANY\<rparr>)
   }"

text \<open>The part after the checks of the header: the destination, the source, fragments.\<close>

definition ip4_dispatch :: "('d, 'z) ip_env \<Rightarrow> nat \<Rightarrow> nat \<Rightarrow> nat \<Rightarrow> nat \<Rightarrow> ('d, 'z) ip_scheme \<Rightarrow> ('d, 'z) ip_scheme option" where
  "ip4_dispatch E p iphdr hlen inp s = do {
     let m = bytes (mem_of s);
     let dest = net32 m (iphdr + 16);
     let src = net32 m (iphdr + 12);
     let s = s\<lparr>current_iphdr_dest := dest, current_iphdr_src := src\<rparr>;
     let netif = match_netif E dest inp;
     let dhcp = (netif = 0 \<and> m (iphdr + 9) = IP_PROTO_UDP \<and> net16 m (iphdr + hlen + 2) = DHCP_CLIENT_PORT);
     let netif = (if dhcp then inp else netif);
     if \<not> dhcp \<and> \<not> ip4_addr_isany src \<and> (ip4_addr_isbroadcast src (iface E inp) \<or> ip4_addr_ismulticast src) then free_packet E p s
     else if netif = 0 then free_packet E p s
     else if net16 m (iphdr + 6) AND (IP_OFFMASK OR IP_MF) \<noteq> 0 then do {
       (p, s) \<leftarrow> ip4_reass E p s;
       if p = 0 then Some s
       else do { b \<leftarrow> pb (mem_of s) p; ip4_deliver E p (payload b) hlen netif inp s }
     }
     else ip4_deliver E p iphdr hlen netif inp s
   }"

definition ip4_input :: "('d, 'z) ip_env \<Rightarrow> nat \<Rightarrow> nat \<Rightarrow> ('d, 'z) ip_scheme \<Rightarrow> ('d, 'z) ip_scheme option" where
  "ip4_input E p inp s = do {
     b \<leftarrow> pb (mem_of s) p;
     let iphdr = payload b;
     let v_hl = bytes (mem_of s) iphdr;
     if drop_bit 4 v_hl \<noteq> 4 then free_packet E p s
     else do {
       let iphdr_hlen = unat (v_hl AND 0x0f) * 4;
       let iphdr_len = net16 (bytes (mem_of s)) (iphdr + 2);
       h \<leftarrow> (if iphdr_len < tot_len b then pbuf_realloc (penv (arp_env E)) p iphdr_len (mem_of s) else Some (mem_of s));
       let s = s\<lparr>mem_of := h\<rparr>;
       b \<leftarrow> pb h p;
       if unat (plen b) < iphdr_hlen \<or> tot_len b < iphdr_len \<or> iphdr_hlen < IP_HLEN then free_packet E p s
       else ip4_dispatch E p iphdr iphdr_hlen inp s
     }
   }"

end
