(* ===== verification/Ip4_Correct.thy ===== *)
theory Ip4_Correct
  imports Ip4_Input Arp_Properties Chksum_Correct
begin

text \<open>
  What the IP layer does with a packet in a single pbuf, as the driver delivers and the stack allocates them: headers are
  removed and added, datagrams are trimmed to their length, and each is delivered or freed.
\<close>

unbundle bit_operations_syntax

section \<open>Single pbufs\<close>

definition single :: "store \<Rightarrow> nat \<Rightarrow> pbuf \<Rightarrow> bool" where
  "single h p b \<longleftrightarrow> p \<noteq> 0 \<and> pb h p = Some b \<and> pnext b = 0 \<and> tot_len b = plen b"

text \<open>A frame of the driver: a custom pbuf with one reference.\<close>

definition received :: "store \<Rightarrow> nat \<Rightarrow> pbuf \<Rightarrow> bool" where
  "received h p b \<longleftrightarrow> single h p b \<and> ptype b = PBUF_REF \<and> pref b = 1 \<and> pflags b AND PBUF_FLAG_IS_CUSTOM \<noteq> 0"

lemma put_pbuf_same: "pb h p = Some b \<Longrightarrow> put_pbuf p b h = h"
  by (cases h) (auto simp: put_pbuf_def)

lemma put_pbuf_twice [simp]: "put_pbuf p c (put_pbuf p b h) = put_pbuf p c h"
  by (simp add: put_pbuf_def)

lemma unlinked: "pnext b = 0 \<Longrightarrow> b\<lparr>plen := n, tot_len := n, pnext := 0\<rparr> = b\<lparr>plen := n, tot_len := n\<rparr>"
  by (cases b) simp

lemma realloc_single:
  assumes "single h p b" "n < tot_len b"
  shows "pbuf_realloc P p n h = Some (put_pbuf p (b\<lparr>plen := n, tot_len := n\<rparr>) h)"
proof -
  have "realloc_walk (n - tot_len b) n p h = Some (p, n, h)" using assms by (subst realloc_walk.simps) (auto simp: single_def)
  then show ?thesis using assms by (auto simp: pbuf_realloc_def single_def unlinked)
qed

definition moved :: "nat \<Rightarrow> pbuf \<Rightarrow> pbuf" where
  "moved k b = b\<lparr>payload := payload b + k, plen := plen b - of_nat k, tot_len := tot_len b - of_nat k\<rparr>"

lemma header_removed:
  assumes "pb h p = Some b" "p \<noteq> 0" "k \<le> unat (plen b)" "ptype b = PBUF_REF \<or> p + SIZEOF_STRUCT_PBUF \<le> payload b + k"
  shows "pbuf_header p (- int k) h = Some (0, put_pbuf p (moved k b) h)"
proof (cases "k = 0")
  case True
  then have "put_pbuf p (moved k b) h = h" using assms(1) by (simp add: moved_def put_pbuf_same)
  then show ?thesis using True by (simp add: pbuf_header_def pbuf_header_impl_def)
next
  case False
  have "nat (int (payload b) + int k) = payload b + k" by simp
  then show ?thesis using assms False
    by (auto simp: pbuf_header_def pbuf_header_impl_def Let_def moved_def)
qed

lemma moved_simps [simp]: "payload (moved k b) = payload b + k" "pnext (moved k b) = pnext b" "ptype (moved k b) = ptype b"
    "pflags (moved k b) = pflags b" "pref (moved k b) = pref b" "tot_len b = plen b \<Longrightarrow> tot_len (moved k b) = plen (moved k b)"
  by (simp_all add: moved_def)

lemma moved_plen: "k \<le> unat (plen b) \<Longrightarrow> unat (plen (moved k b)) = unat (plen b) - k"
proof -
  assume k: "k \<le> unat (plen b)"
  then have u: "unat (of_nat k :: u16) = k" using unat_le16 [of "plen b"] by (simp add: unsigned_of_nat take_bit_nat_eq_self)
  then show ?thesis using k by (simp add: moved_def Word.unat_sub word_le_nat_alt)
qed

lemma drop_mem_slice: "k \<le> n \<Longrightarrow> drop k (mem_slice m a n) = mem_slice m (a + k) (n - k)"
  using mem_slice_add [of m a k "n - k"] by simp

lemma moved_bytes: "k \<le> unat (plen b) \<Longrightarrow> pbuf_bytes h (moved k b) = drop k (pbuf_bytes h b)"
  by (simp add: pbuf_bytes_def moved_plen drop_mem_slice)

lemma free_single:
  assumes "single h p b" "pref b = 1"
  shows "pbuf_free (driver_env m) p h = Some (1, freed h [p])"
  using assms driver.free_loop_ok [of h p "[p]" "[]" m 0] by (simp add: pbuf_free_def single_def the_pb_def)

lemma freed_received:
  assumes "received h p b"
  shows "pb (freed h [p]) = (pb h)(p := None)" "RX_POOL (freed h [p]) = p # RX_POOL h" "bytes (freed h [p]) = bytes h"
  using assms by (auto simp: received_def single_def freed_def returned_def the_pb_def fun_eq_iff)

section \<open>Datagrams\<close>

definition hl :: "(nat \<Rightarrow> u8) \<Rightarrow> nat \<Rightarrow> nat" where "hl m a = unat (m a AND 0x0f) * 4"
definition len_field :: "(nat \<Rightarrow> u8) \<Rightarrow> nat \<Rightarrow> nat" where "len_field m a = unat (net16 m (a + 2))"

text \<open>A datagram of version 4 whose header and length fit into the \<open>n\<close> bytes received.\<close>

definition datagram :: "(nat \<Rightarrow> u8) \<Rightarrow> nat \<Rightarrow> nat \<Rightarrow> bool" where
  "datagram m a n \<longleftrightarrow> drop_bit 4 (m a) = 4 \<and> IP_HLEN \<le> hl m a \<and> hl m a \<le> len_field m a \<and> len_field m a \<le> n"

definition for_us :: "netif \<Rightarrow> u32 \<Rightarrow> bool" where
  "for_us n dest \<longleftrightarrow> netif_up n \<and> \<not> ip4_addr_isany (netif_ip4_addr n) \<and>
     (ip4_addr_ismulticast dest \<or> dest = netif_ip4_addr n \<or> ip4_addr_isbroadcast dest n)"

definition good_source :: "netif \<Rightarrow> u32 \<Rightarrow> bool" where
  "good_source n src \<longleftrightarrow> ip4_addr_isany src \<or> \<not> ip4_addr_isbroadcast src n \<and> \<not> ip4_addr_ismulticast src"

definition to_dhcp :: "(nat \<Rightarrow> u8) \<Rightarrow> nat \<Rightarrow> bool" where
  "to_dhcp m a \<longleftrightarrow> m (a + 9) = IP_PROTO_UDP \<and> net16 m (a + hl m a + 2) = DHCP_CLIENT_PORT"

definition acceptable :: "netif \<Rightarrow> (nat \<Rightarrow> u8) \<Rightarrow> nat \<Rightarrow> nat \<Rightarrow> bool" where
  "acceptable n m a k \<longleftrightarrow> datagram m a k \<and> (if for_us n (net32 m (a + 16)) then good_source n (net32 m (a + 12)) else to_dhcp m a)"

definition fragment :: "(nat \<Rightarrow> u8) \<Rightarrow> nat \<Rightarrow> bool" where
  "fragment m a \<longleftrightarrow> net16 m (a + 6) AND (IP_OFFMASK OR IP_MF) \<noteq> 0"

lemma match_single: "netif_list E = [inp] \<Longrightarrow> inp \<noteq> 0 \<Longrightarrow> match_netif E dest inp = (if for_us (iface E inp) dest then inp else 0)"
  by (auto simp: match_netif_def for_us_def accepts_def)

text \<open>The pbuf after the length is trimmed.\<close>

definition trimmed :: "(nat \<Rightarrow> u8) \<Rightarrow> pbuf \<Rightarrow> pbuf" where
  "trimmed m b = (let n = net16 m (payload b + 2) in if n < tot_len b then b\<lparr>plen := n, tot_len := n\<rparr> else b)"

lemma trimmed_simps [simp]: "payload (trimmed m b) = payload b" "pnext (trimmed m b) = pnext b" "ptype (trimmed m b) = ptype b"
    "pflags (trimmed m b) = pflags b" "pref (trimmed m b) = pref b"
  by (simp_all add: trimmed_def Let_def)

lemma trimmed_len: "tot_len b = plen b \<Longrightarrow> tot_len (trimmed m b) = plen (trimmed m b) \<and> unat (plen (trimmed m b)) = min (unat (plen b)) (len_field m (payload b))"
  by (auto simp: trimmed_def Let_def len_field_def word_less_nat_alt)

lemma received_trimmed: "received h p b \<Longrightarrow> received (put_pbuf p (trimmed m b) h) p (trimmed m b)"
  by (auto simp: received_def single_def trimmed_len)

lemma input_checked:
  assumes "single (mem_of s) p b"
  defines "m \<equiv> bytes (mem_of s)" and "a \<equiv> payload b"
  defines "s1 \<equiv> s\<lparr>mem_of := put_pbuf p (trimmed (bytes (mem_of s)) b) (mem_of s)\<rparr>"
  shows "ip4_input E p inp s = (if drop_bit 4 (m a) \<noteq> 4 then free_packet E p s
    else if datagram m a (unat (plen b)) then ip4_dispatch E p a (hl m a) inp s1 else free_packet E p s1)"
proof -
  have b: "pb (mem_of s) p = Some b" "tot_len b = plen b" using assms(1) by (simp_all add: single_def)
  have r: "(if net16 m (a + 2) < tot_len b then pbuf_realloc (penv (arp_env E)) p (net16 m (a + 2)) (mem_of s) else Some (mem_of s)) =
      Some (put_pbuf p (trimmed m b) (mem_of s))"
    using realloc_single [OF assms(1)] b(1) unfolding trimmed_def Let_def a_def by (simp add: put_pbuf_same)
  let ?t = "trimmed m b"
  have c: "(unat (plen ?t) < hl m a \<or> tot_len ?t < net16 m (a + 2) \<or> hl m a < IP_HLEN) \<longleftrightarrow>
      \<not> (IP_HLEN \<le> hl m a \<and> hl m a \<le> len_field m a \<and> len_field m a \<le> unat (plen b))"
    using trimmed_len [OF b(2), of m] by (auto simp: word_less_nat_alt len_field_def a_def)
  show ?thesis unfolding ip4_input_def b(1) Option.bind.simps Let_def m_def [symmetric] a_def [symmetric] r
    using c by (auto simp: datagram_def hl_def [symmetric] s1_def m_def a_def)
qed

text \<open>The machine has one interface.\<close>

definition only_netif :: "('d, 'z) ip_env \<Rightarrow> nat \<Rightarrow> bool" where
  "only_netif E inp \<longleftrightarrow> netif_list E = [inp] \<and> inp \<noteq> 0"

definition addressed :: "(nat \<Rightarrow> u8) \<Rightarrow> nat \<Rightarrow> ('d, 'z) ip_scheme \<Rightarrow> ('d, 'z) ip_scheme" where
  "addressed m a s = s\<lparr>current_iphdr_dest := net32 m (a + 16), current_iphdr_src := net32 m (a + 12)\<rparr>"

lemma dispatch_single:
  fixes s :: "('d, 'z) ip_scheme"
  assumes "only_netif E inp"
  defines "m \<equiv> bytes (mem_of s)"
  shows "ip4_dispatch E p a (hl m a) inp s =
    (if \<not> (if for_us (iface E inp) (net32 m (a + 16)) then good_source (iface E inp) (net32 m (a + 12)) else to_dhcp m a)
     then free_packet E p (addressed m a s)
     else if fragment m a then do {
       (p, s) \<leftarrow> ip4_reass E p (addressed m a s);
       if p = 0 then Some s else do { b \<leftarrow> pb (mem_of s) p; ip4_deliver E p (payload b) (hl m a) inp inp s }
     }
     else ip4_deliver E p a (hl m a) inp inp (addressed m a s))"
proof -
  have "inp \<noteq> 0" and match: "match_netif E d inp = (if for_us (iface E inp) d then inp else 0)" for d
    using assms(1) by (simp_all add: only_netif_def match_single)
  then show ?thesis unfolding ip4_dispatch_def Let_def match m_def [symmetric] fragment_def
    by (cases "for_us (iface E inp) (net32 m (a + 16))"; cases "to_dhcp m a") (auto simp: good_source_def to_dhcp_def addressed_def)
qed

definition ip_idle :: "('d, 'z) ip_scheme \<Rightarrow> ('d, 'z) ip_scheme" where
  "ip_idle s = s\<lparr>current_netif := 0, current_input_netif := 0, current_ip4_header := 0, current_ip_header_tot_len := 0,
     current_iphdr_src := IPADDR_ANY, current_iphdr_dest := IPADDR_ANY\<rparr>"

text \<open>The state in which a layer above gets the packet.\<close>

definition upwards :: "nat \<Rightarrow> nat \<Rightarrow> nat \<Rightarrow> store \<Rightarrow> ('d, 'z) ip_scheme \<Rightarrow> ('d, 'z) ip_scheme" where
  "upwards inp a k h s = s\<lparr>current_netif := inp, current_input_netif := inp, current_ip4_header := a,
     current_ip_header_tot_len := of_nat k, mem_of := h\<rparr>"

lemma deliver_single:
  assumes "received (mem_of s) p b" "hl (bytes (mem_of s)) a \<le> unat (plen b)"
  defines "k \<equiv> hl (bytes (mem_of s)) a"
  defines "h \<equiv> put_pbuf p (moved (hl (bytes (mem_of s)) a) b) (mem_of s)"
  defines "proto \<equiv> bytes (mem_of s) (a + 9)"
  shows "proto = IP_PROTO_UDP \<Longrightarrow> ip4_deliver E p a k inp inp s = map_option ip_idle (to_udp E p inp (upwards inp a k h s))"
    and "proto = IP_PROTO_TCP \<Longrightarrow> ip4_deliver E p a k inp inp s = map_option ip_idle (to_tcp E p inp (upwards inp a k h s))"
    and "proto = IP_PROTO_ICMP \<Longrightarrow> ip4_deliver E p a k inp inp s = map_option ip_idle (icmp_input E p inp (upwards inp a k h s))"
proof -
  have hd: "pbuf_header p (- int k) (mem_of s) = Some (0, h)"
    unfolding h_def k_def by (rule header_removed) (use assms(1,2) in \<open>auto simp: received_def single_def\<close>)
  have bytes: "bytes h = bytes (mem_of s)" by (simp add: h_def)
  have distinct: "IP_PROTO_TCP \<noteq> IP_PROTO_UDP" "IP_PROTO_ICMP \<noteq> IP_PROTO_UDP" "IP_PROTO_ICMP \<noteq> IP_PROTO_TCP"
    by (simp_all add: IP_PROTO_TCP_def IP_PROTO_UDP_def IP_PROTO_ICMP_def)
  have k: "of_nat (unat (bytes (mem_of s) a AND 0x0f) * 4) = (of_nat k :: u16)" by (simp add: k_def hl_def)
  show "proto = IP_PROTO_UDP \<Longrightarrow> ip4_deliver E p a k inp inp s = map_option ip_idle (to_udp E p inp (upwards inp a k h s))"
    "proto = IP_PROTO_TCP \<Longrightarrow> ip4_deliver E p a k inp inp s = map_option ip_idle (to_tcp E p inp (upwards inp a k h s))"
    "proto = IP_PROTO_ICMP \<Longrightarrow> ip4_deliver E p a k inp inp s = map_option ip_idle (icmp_input E p inp (upwards inp a k h s))"
    using distinct k
    by (auto simp: ip4_deliver_def hd bytes proto_def [symmetric] upwards_def ip_idle_def map_conv_bind_option comp_def Let_def)
qed

lemma free_packet_received:
  assumes "received (mem_of s) p b" "penv (arp_env E) = driver_env mm"
  shows "free_packet E p s = Some (s\<lparr>mem_of := freed (mem_of s) [p]\<rparr>)"
  using assms free_single [of "mem_of s" p b mm] by (simp add: free_packet_def received_def)

text \<open>A packet is gone: its element is back in the pool of the driver, nothing else has happened.\<close>

definition dropped :: "nat \<Rightarrow> ('d, 'z) ip_scheme \<Rightarrow> ('d, 'z) ip_scheme \<Rightarrow> bool" where
  "dropped p s s' \<longleftrightarrow> pb (mem_of s') = (pb (mem_of s))(p := None) \<and> RX_POOL (mem_of s') = p # RX_POOL (mem_of s) \<and>
     bytes (mem_of s') = bytes (mem_of s) \<and> dev s' = dev s \<and> arp_table s' = arp_table s \<and> ip_id s' = ip_id s"

lemma input_single:
  fixes s :: "('d, 'z) ip_scheme"
  assumes "only_netif E inp" "received (mem_of s) p b" "penv (arp_env E) = driver_env mm"
  defines "m \<equiv> bytes (mem_of s)" and "a \<equiv> payload b"
  defines "s1 \<equiv> addressed m a (s\<lparr>mem_of := put_pbuf p (trimmed m b) (mem_of s)\<rparr>)"
  shows "acceptable (iface E inp) m a (unat (plen b)) \<Longrightarrow> \<not> fragment m a \<Longrightarrow> ip4_input E p inp s = ip4_deliver E p a (hl m a) inp inp s1"
    and "\<not> acceptable (iface E inp) m a (unat (plen b)) \<Longrightarrow> \<exists>s'. ip4_input E p inp s = Some s' \<and> dropped p s s'"
proof -
  let ?s = "s\<lparr>mem_of := put_pbuf p (trimmed m b) (mem_of s)\<rparr>"
  have b: "single (mem_of s) p b" using assms(2) by (simp add: received_def)
  have bm: "bytes (mem_of ?s) = m" by (simp add: m_def)
  note inp = input_checked [OF b, of E inp, folded m_def a_def] dispatch_single [OF assms(1), where s = ?s and a = a and p = p, unfolded bm]
  have t: "received (mem_of ?s) p (trimmed m b)" using received_trimmed [OF assms(2)] by simp
  show "acceptable (iface E inp) m a (unat (plen b)) \<Longrightarrow> \<not> fragment m a \<Longrightarrow> ip4_input E p inp s = ip4_deliver E p a (hl m a) inp inp s1"
    unfolding inp(1) by (simp add: acceptable_def datagram_def inp(2) s1_def)
  assume na: "\<not> acceptable (iface E inp) m a (unat (plen b))"
  have f: "free_packet E p s = Some (s\<lparr>mem_of := freed (mem_of s) [p]\<rparr>)" by (rule free_packet_received [OF assms(2,3)])
  have f1: "free_packet E p ?s = Some (?s\<lparr>mem_of := freed (mem_of ?s) [p]\<rparr>)" by (rule free_packet_received [OF t assms(3)])
  have "received (mem_of (addressed m a ?s)) p (trimmed m b)" using t by (simp add: addressed_def)
  note f2 = free_packet_received [OF this assms(3)]
  have d: "dropped p s (s\<lparr>mem_of := freed (mem_of s) [p]\<rparr>)" using freed_received [OF assms(2)] by (simp add: dropped_def)
  have d1: "dropped p s (?s\<lparr>mem_of := freed (mem_of ?s) [p]\<rparr>)" using freed_received [OF t] by (simp add: dropped_def put_pbuf_def)
  have d2: "dropped p s ((addressed m a ?s)\<lparr>mem_of := freed (mem_of (addressed m a ?s)) [p]\<rparr>)"
    using d1 by (simp add: dropped_def addressed_def)
  show "\<exists>s'. ip4_input E p inp s = Some s' \<and> dropped p s s'"
    unfolding inp(1) using na f f1 f2 d d1 d2 by (auto simp: acceptable_def inp(2))
qed

lemma accepted_delivery:
  fixes s :: "('d, 'z) ip_scheme"
  assumes "only_netif E inp" "received (mem_of s) p b" "penv (arp_env E) = driver_env mm"
  defines "m \<equiv> bytes (mem_of s)" and "a \<equiv> payload b"
  assumes acc: "acceptable (iface E inp) m a (unat (plen b))" "\<not> fragment m a"
  shows "\<exists>s1 b1. (m (a + 9) = IP_PROTO_UDP \<longrightarrow> ip4_input E p inp s = map_option ip_idle (to_udp E p inp s1)) \<and>
      (m (a + 9) = IP_PROTO_TCP \<longrightarrow> ip4_input E p inp s = map_option ip_idle (to_tcp E p inp s1)) \<and>
      (m (a + 9) = IP_PROTO_ICMP \<longrightarrow> ip4_input E p inp s = map_option ip_idle (icmp_input E p inp s1)) \<and>
      mem_of s1 = put_pbuf p b1 (mem_of s) \<and> received (mem_of s1) p b1 \<and> payload b1 = a + hl m a \<and>
      pbuf_bytes (mem_of s1) b1 = drop (hl m a) (take (len_field m a) (pbuf_bytes (mem_of s) b)) \<and>
      s1 = upwards inp a (hl m a) (mem_of s1) (addressed m a s)"
proof -
  let ?s = "addressed m a (s\<lparr>mem_of := put_pbuf p (trimmed m b) (mem_of s)\<rparr>)"
  let ?b = "moved (hl m a) (trimmed m b)"
  let ?h = "put_pbuf p ?b (mem_of s)"
  have b: "single (mem_of s) p b" "tot_len b = plen b" using assms(2) by (simp_all add: received_def single_def)
  have t: "received (mem_of ?s) p (trimmed m b)" using received_trimmed [OF assms(2)] by (simp add: addressed_def)
  have bm: "bytes (mem_of ?s) = m" by (simp add: m_def addressed_def)
  have l: "unat (plen (trimmed m b)) = len_field m a" "hl m a \<le> len_field m a" "len_field m a \<le> unat (plen b)"
    using acc(1) trimmed_len [OF b(2), of m] by (auto simp: acceptable_def datagram_def a_def)
  have in1: "ip4_input E p inp s = ip4_deliver E p a (hl m a) inp inp ?s"
    using input_single(1) [OF assms(1,2,3)] acc by (simp add: m_def a_def)
  have h: "put_pbuf p ?b (mem_of ?s) = ?h" by (simp add: addressed_def)
  note dl = deliver_single [OF t, of a E inp, unfolded bm h, folded in1]
  have up: "upwards inp a (hl m a) ?h ?s = upwards inp a (hl m a) ?h (addressed m a s)" by (simp add: upwards_def addressed_def)
  have "received ?h p ?b" using t by (auto simp: received_def single_def addressed_def)
  moreover have "pbuf_bytes ?h ?b = drop (hl m a) (take (len_field m a) (pbuf_bytes (mem_of s) b))"
    using l by (simp add: moved_bytes) (simp add: pbuf_bytes_def take_mem_slice)
  moreover have "mem_of (upwards inp a (hl m a) ?h (addressed m a s)) = ?h" by (simp add: upwards_def)
  ultimately show ?thesis using dl l up by (intro exI [of _ "upwards inp a (hl m a) ?h (addressed m a s)"] exI [of _ ?b]) (simp add: a_def)
qed

section \<open>Headers that are sent\<close>

lemma net16_be16: "mem_slice m a 2 = be16 w \<Longrightarrow> net16 m a = w"
proof -
  assume "mem_slice m a 2 = be16 w"
  then have b: "m a = ucast (drop_bit 8 w)" "m (a + 1) = ucast w" using mem_slice_2 [of m a 0] by (simp_all add: be16_def)
  have lt: "unat w div 256 < 256" using unat_le16 [of w] by linarith
  have "unat (m a) = unat w div 256" "unat (m (a + 1)) = unat w mod 256"
    unfolding b using lt unat_byte [of 8 w] unat_byte [of 0 w] by simp_all
  then have "unat (net16 m a) = swap16 (unat w div 256 + 256 * (unat w mod 256))" by (simp add: net16_def unat_htons ld16_def unat_halfword)
  also have "\<dots> = unat w" using lt by (simp add: swap16_def)
  finally show ?thesis by (simp add: word_unat_eq_iff)
qed

lemma sub_slice: "i + j \<le> n \<Longrightarrow> mem_slice m (a + i) j = take j (drop i (mem_slice m a n))"
  by (simp add: drop_mem_slice take_mem_slice)

lemma parse_hdr:
  assumes "mem_slice m a (20 + k) = ip_hdr 0x45 tos n ident ttl proto src dest @ D"
  shows "m a = 0x45" "net16 m (a + 2) = n" "net16 m (a + 6) = 0" "m (a + 9) = proto" "net32 m (a + 12) = src" "net32 m (a + 16) = dest"
proof -
  have nth: "m (a + i) = (ip_hdr 0x45 tos n ident ttl proto src dest @ D) ! i" if "i < 20" for i
    using nth_mem_slice [of i "20 + k" m a] that assms by simp
  have sub: "mem_slice m (a + i) j = take j (drop i (ip_hdr 0x45 tos n ident ttl proto src dest @ D))" if "i + j \<le> 20" for i j
    using sub_slice [of i j "20 + k" m a] that assms by simp
  note d = ip_hdr_def be16_def le32_bytes_def
  show "m a = 0x45" using nth [of 0] by (simp add: d)
  show "m (a + 9) = proto" using nth [of 9] by (simp add: d)
  show "net16 m (a + 2) = n" by (rule net16_be16) (use sub [of 2 2] in \<open>simp add: d\<close>)
  show "net16 m (a + 6) = 0" by (rule net16_be16) (use sub [of 6 2] in \<open>simp add: d\<close>)
  have "mem_slice m (a + 12) 4 = le32_bytes src" using sub [of 12 4] by (simp add: d)
  then show "net32 m (a + 12) = src" by (simp add: net32_def)
  have "mem_slice m (a + 16) 4 = le32_bytes dest" using sub [of 16 4] by (simp add: d)
  then show "net32 m (a + 16) = dest" by (simp add: net32_def)
qed

lemma length_ip_hdr [simp]: "length (ip_hdr v tos n ident ttl proto src dest) = 20"
  by (simp add: ip_hdr_def be16_def le32_bytes_def)

definition src_used :: "netif \<Rightarrow> u32 option \<Rightarrow> u32" where
  "src_used n src = (case src of None \<Rightarrow> netif_ip4_addr n | Some a \<Rightarrow> if ip4_addr_isany a then netif_ip4_addr n else a)"

lemma output_single:
  fixes s :: "('d, 'z) ip_scheme" and dest :: u32 and src :: "u32 option" and proto ttl tos :: u8
  assumes "single (mem_of s) q b" "header_room IP_HLEN q b" "mtu (iface E netif) = 0 \<or> unat (plen b) + 20 \<le> mtu (iface E netif)"
  defines "X \<equiv> ip_hdr 0x45 tos (plen b + 20) (ip_id s) ttl proto (src_used (iface E netif) src) dest @ pbuf_bytes (mem_of s) b"
  defines "b' \<equiv> b\<lparr>payload := payload b - 20, plen := plen b + 20, tot_len := tot_len b + 20\<rparr>"
  shows "\<exists>h'. ip4_output_if E q src (Some dest) ttl tos proto netif s =
      etharp_output (arp_env E) netif q dest (s\<lparr>mem_of := h', ip_id := ip_id s + 1\<rparr>) \<and>
    pb h' = (pb (mem_of s))(q \<mapsto> b') \<and> pbuf_bytes h' b' = X \<and> single h' q b'"
proof -
  let ?src = "src_used (iface E netif) src"
  let ?h = "memcpy_to (payload b - 20) (ip_hdr 0x45 tos (plen b + 20) (ip_id s) ttl proto ?src dest) (put_pbuf q b' (mem_of s))"
  have b: "pb (mem_of s) q = Some b" "tot_len b = plen b" "pnext b = 0" "q \<noteq> 0" using assms(1) by (simp_all add: single_def)
  have hd: "pbuf_header q (int IP_HLEN) (mem_of s) = Some (0, put_pbuf q b' (mem_of s))"
    using header_added [OF b(1) assms(2)] by (simp add: IP_HLEN_def b'_def)
  have room: "20 \<le> payload b" "unat (plen b) + 20 < 65536" using assms(2) by (auto simp: header_room_def IP_HLEN_def)
  then have len: "unat (plen b + 20) = unat (plen b) + 20" by (subst unat_plus) simp_all
  have "pbuf_bytes ?h b' = mem_slice (mem_write (bytes (mem_of s)) (payload b - 20) (ip_hdr 0x45 tos (plen b + 20) (ip_id s) ttl proto ?src dest)) (payload b - 20) (20 + unat (plen b))"
    by (simp add: pbuf_bytes_def b'_def len add.commute)
  also have "\<dots> = X" unfolding X_def pbuf_bytes_def by (rule write_header) (use room in simp_all)
  finally have x: "pbuf_bytes ?h b' = X" .
  have su: "(if src = None \<or> src = Some IPADDR_ANY then Some (netif_ip4_addr (iface E netif)) else src) = Some ?src"
    by (cases src) (auto simp: src_used_def ip4_addr_isany_def)
  have "\<not> (mtu (iface E netif) \<noteq> 0 \<and> mtu (iface E netif) < unat (tot_len b'))" using assms(3) b(2) len by (auto simp: b'_def)
  moreover have "ip4_output_if E q src (Some dest) ttl tos proto netif s = ip4_output_if_src E q (Some ?src) (Some dest) ttl tos proto netif s"
    unfolding ip4_output_if_def Let_def using su by simp
  ultimately have "ip4_output_if E q src (Some dest) ttl tos proto netif s = etharp_output (arp_env E) netif q dest (s\<lparr>mem_of := ?h, ip_id := ip_id s + 1\<rparr>)"
    unfolding ip4_output_if_src_def using hd b(2) by (auto simp: b'_def)
  moreover have "single ?h q b'" using b by (simp add: single_def b'_def)
  ultimately show ?thesis using x by (intro exI [of _ ?h]) (simp add: put_pbuf_def)
qed

end
