(* ===== verification/Icmp_Correct.thy ===== *)
theory Icmp_Correct
  imports Ip4_Correct
begin

text \<open>
  A ping from the Ethernet frame to the frame of the answer: the copy of the request with room for headers, the answer made in place, the
  routes through IP, ARP and Ethernet.
\<close>

unbundle bit_operations_syntax

section \<open>Allocation and copy\<close>

definition link_pbuf :: "nat \<Rightarrow> u16 \<Rightarrow> pbuf" where
  "link_pbuf r n = \<lparr>pnext = 0, payload = LWIP_MEM_ALIGN_SIZE (r + SIZEOF_STRUCT_PBUF + 14), tot_len = n, plen = n, ptype = PBUF_RAM,
     pflags = 0, pref = 1\<rparr>"

lemma link_pbuf_room: "r + SIZEOF_STRUCT_PBUF + 14 \<le> payload (link_pbuf r n)"
  unfolding link_pbuf_def LWIP_MEM_ALIGN_SIZE_def by simp

text \<open>The size of the block for a packet of \<open>n\<close> bytes with room for the headers below IP.\<close>

definition link_block :: "nat \<Rightarrow> nat" where "link_block n = 32 + LWIP_MEM_ALIGN_SIZE n"

lemma alloc_link:
  assumes "mem_malloc P (link_block (unat n)) h = Some r" "unat n \<le> 65000"
  shows "pbuf_alloc P PBUF_LINK n PBUF_RAM 0 h = Some (r, put_pbuf r (link_pbuf r n) h)"
proof -
  have "LWIP_MEM_ALIGN_SIZE (SIZEOF_STRUCT_PBUF + layer_offset PBUF_LINK) = 32" "layer_offset PBUF_LINK = 14"
    by (simp_all add: LWIP_MEM_ALIGN_SIZE_def SIZEOF_STRUCT_PBUF_def PBUF_LINK_HLEN_def)
  moreover have "link_block (unat n) < 65536" using assms(2) by (simp add: link_block_def LWIP_MEM_ALIGN_SIZE_def)
  ultimately show ?thesis using assms(1)
    by (simp add: pbuf_alloc_def Let_def link_block_def link_pbuf_def put_pbuf_def)
qed

lemma copy_single:
  assumes "single h t c" "single h f b" "plen c = plen b"
  shows "pbuf_copy t f h = Some (ERR_OK, memcpy_to (payload c) (pbuf_bytes h b) h)"
proof -
  have "copy_step t f 0 0 h = Some (Inl (ERR_OK, memcpy_to (payload c) (pbuf_bytes h b) h))"
    using assms by (simp add: copy_step_def copy_next_def single_def Let_def pbuf_bytes_def)
  then have "copy_loop t f 0 0 h = Some (ERR_OK, memcpy_to (payload c) (pbuf_bytes h b) h)" by (subst copy_loop.simps) simp
  then show ?thesis using assms by (simp add: pbuf_copy_def single_def)
qed

text \<open>A buffer of \<open>n\<close> bytes does not meet another one of \<open>k\<close> bytes.\<close>

definition disjoint :: "nat \<Rightarrow> nat \<Rightarrow> nat \<Rightarrow> nat \<Rightarrow> bool" where
  "disjoint a n d k \<longleftrightarrow> a + n \<le> d \<or> d + k \<le> a"

lemma slice_write_disjoint: "disjoint a n d (length xs) \<Longrightarrow> mem_slice (mem_write m d xs) a n = mem_slice m a n"
  by (rule mem_slice_cong) (auto simp: mem_write_def disjoint_def)

lemma slice_write_same: "length xs = n \<Longrightarrow> mem_slice (mem_write m a xs) a n = xs"
  by (rule mem_slice_eq_listI) (auto simp: mem_write_def)

lemma slice_write_append:
  "length xs = i \<Longrightarrow> length ys = j \<Longrightarrow> mem_slice (mem_write (mem_write m a xs) (a + i) ys) a (i + j) = xs @ ys"
  by (rule mem_slice_eq_listI) (auto simp: mem_write_def nth_append)

lemma echo_copy_ok:
  assumes "received h p b" "penv (arp_env E) = driver_env mm" "mm (link_block (unat (plen b) + 20)) h = Some r" "r \<noteq> 0" "r \<noteq> p"
    "8 \<le> unat (plen b)" "unat (plen b) \<le> 60000"
    "disjoint (payload (link_pbuf r 0)) (unat (plen b) + 20) (payload b) (unat (plen b))"
  defines "c \<equiv> moved 20 (link_pbuf r (plen b + 20))"
  shows "\<exists>h'. echo_copy E p a 20 h = Some (r, h') \<and> pb h' = (pb h)(p := None, r \<mapsto> c) \<and> single h' r c \<and>
    RX_POOL h' = p # RX_POOL h \<and> mem_slice (bytes h') (payload c - 20) (20 + unat (plen b)) = mem_slice (bytes h) a 20 @ pbuf_bytes h b"
proof -
  let ?n = "plen b + 20" and ?L = "unat (plen b)"
  let ?c0 = "link_pbuf r ?n"
  let ?h1 = "put_pbuf r ?c0 h"
  let ?h3 = "put_pbuf r c (memcpy_to (payload ?c0) (mem_slice (bytes h) a 20) ?h1)"
  let ?h4 = "memcpy_to (payload ?c0 + 20) (pbuf_bytes h b) ?h3"
  have b: "pb h p = Some b" "tot_len b = plen b" "pnext b = 0" "p \<noteq> 0" using assms(1) by (simp_all add: received_def single_def)
  have n: "unat ?n = ?L + 20" using assms(7) by (subst unat_plus) simp_all
  have c0: "plen ?c0 = ?n" "tot_len ?c0 = ?n" "pnext ?c0 = 0" "payload (link_pbuf r 0) = payload ?c0" by (simp_all add: link_pbuf_def)
  have al: "pbuf_alloc (driver_env mm) PBUF_LINK ?n PBUF_RAM 0 h = Some (r, ?h1)"
    by (rule alloc_link) (use assms(3,7) in \<open>simp_all add: n driver_env_def\<close>)
  have hd: "pbuf_header r (- int 20) (memcpy_to (payload ?c0) (mem_slice (bytes h) a 20) ?h1) = Some (0, ?h3)"
    unfolding c_def by (rule header_removed) (use assms(4) n c0 link_pbuf_room [of r ?n] in \<open>auto simp: SIZEOF_STRUCT_PBUF_def\<close>)
  have pc: "payload c = payload ?c0 + 20" "unat (plen c) = ?L" using n c0 by (simp_all add: c_def moved_plen)
  have bb: "pbuf_bytes ?h3 b = pbuf_bytes h b"
  proof -
    have "disjoint (payload b) ?L (payload ?c0) (length (mem_slice (bytes h) a 20))" using assms(8) c0(4) by (auto simp: disjoint_def)
    then show ?thesis unfolding pbuf_bytes_def by (simp add: slice_write_disjoint)
  qed
  have sc: "single ?h3 r c" "single ?h3 p b" using b assms(4,5) c0 by (simp_all add: single_def c_def)
  have "plen c = plen b" using pc(2) by (simp add: word_unat_eq_iff)
  note cp = copy_single [OF sc this, unfolded bb pc(1)]
  have rx: "received ?h4 p b" using assms(1) sc(2) by (simp add: received_def single_def)
  then have fr: "pbuf_free (driver_env mm) p ?h4 = Some (1, freed ?h4 [p])" by (intro free_single) (auto simp: received_def)
  have eq: "echo_copy E p a 20 h = Some (r, freed ?h4 [p])"
    unfolding echo_copy_def assms(2) b(1)
    using al hd cp fr assms(4,6) b(2) n c0(1) by (simp add: SIZEOF_ICMP_ECHO_HDR_def)
  have pb: "pb (freed ?h4 [p]) = (pb h)(p := None, r \<mapsto> c)"
    using freed_received(1) [OF rx] assms(5) by (auto simp: fun_eq_iff)
  moreover have "RX_POOL (freed ?h4 [p]) = p # RX_POOL h" using freed_received(2) [OF rx] by (simp add: memcpy_to_def)
  moreover have "single (freed ?h4 [p]) r c" using sc(1) pb by (simp add: single_def)
  moreover have "mem_slice (bytes (freed ?h4 [p])) (payload c - 20) (20 + ?L) = mem_slice (bytes h) a 20 @ pbuf_bytes h b"
    unfolding freed_received(3) [OF rx] pc(1) by (simp add: slice_write_append pbuf_bytes_def)
  ultimately show ?thesis using eq by blast
qed

lemma echo_room_received:
  assumes "received h p b"
  shows "echo_room E p a 20 h = echo_copy E p a 20 h"
proof -
  have "pbuf_header p (int (20 + PBUF_LINK_HLEN)) h = Some (1, h)"
    using assms by (simp add: pbuf_header_def pbuf_header_impl_def received_def single_def PBUF_LINK_HLEN_def)
  then show ?thesis by (simp add: echo_room_def)
qed

section \<open>The answer\<close>

text \<open>The answer to the datagram \<open>X\<close> from \<open>src\<close> to \<open>dst\<close>: new addresses, time to live and type, checksums left to the hardware.\<close>

definition pong :: "u32 \<Rightarrow> u32 \<Rightarrow> u8 list \<Rightarrow> u8 list" where
  "pong src dst X = take 8 X @ [ICMP_TTL, X ! 9, 0, 0] @ le32_bytes src @ le32_bytes dst @ [ICMP_ER, X ! 21, 0, 0] @ drop 24 X"

lemma slice_write_inside:
  "i + length xs \<le> n \<Longrightarrow> mem_slice (mem_write m (a + i) xs) a n = array_write (mem_slice m a n) i xs"
  by (rule mem_slice_eq_listI) (auto simp: mem_write_def array_write_def nth_append)

lemma long_list: "24 \<le> length X \<Longrightarrow> \<exists>x0 x1 x2 x3 x4 x5 x6 x7 x8 x9 x10 x11 x12 x13 x14 x15 x16 x17 x18 x19 x20 x21 x22 x23 xs.
    X = x0 # x1 # x2 # x3 # x4 # x5 # x6 # x7 # x8 # x9 # x10 # x11 # x12 # x13 # x14 # x15 # x16 # x17 # x18 # x19 # x20 # x21 # x22 # x23 # xs"
  by (auto simp: numeral_eq_Suc Suc_le_length_iff)

lemma pong_writes:
  assumes "24 \<le> length X"
  shows "array_write (array_write (array_write (array_write (array_write X 12 (le32_bytes src @ le32_bytes dst)) 20 [ICMP_ER]) 22 [0, 0]) 8 [ICMP_TTL]) 10 [0, 0] =
    pong src dst X"
  using long_list [OF assms] by (auto simp: array_write_def pong_def le32_bytes_def)

lemma link_pbuf_back: "(moved 20 (link_pbuf r n))\<lparr>payload := payload (moved 20 (link_pbuf r n)) - 20, plen := plen (moved 20 (link_pbuf r n)) + 20,
    tot_len := tot_len (moved 20 (link_pbuf r n)) + 20\<rparr> = link_pbuf r n"
  by (simp add: moved_def link_pbuf_def)

lemma echo_reply_ok:
  fixes s :: "('d, 'z) ip_scheme"
  assumes "pb (mem_of s) r = Some (moved 20 (link_pbuf r n))" "r \<noteq> 0" "28 \<le> unat n" "mtu (iface E inp) = 0 \<or> unat n \<le> mtu (iface E inp)"
  defines "X \<equiv> mem_slice (bytes (mem_of s)) (payload (link_pbuf r n)) (unat n)"
  shows "\<exists>h'. echo_reply E r 20 inp src s = map_option snd (etharp_output (arp_env E) inp r (current_iphdr_src s) (s\<lparr>mem_of := h'\<rparr>)) \<and>
    pb h' = (pb (mem_of s))(r \<mapsto> link_pbuf r n) \<and> pbuf_bytes h' (link_pbuf r n) = pong src (current_iphdr_src s) X \<and> RX_POOL h' = RX_POOL (mem_of s)"
proof -
  let ?c = "moved 20 (link_pbuf r n)" and ?l = "link_pbuf r n" and ?a = "payload (link_pbuf r n)" and ?d = "current_iphdr_src s"
  have c: "payload ?c = ?a + 20" "plen ?l = n" "tot_len ?l = n" by (simp_all add: link_pbuf_def)
  have pc: "unat (plen ?c) = unat n - 20" using moved_plen [of 20 ?l] assms(3) c by simp
  have "header_room 20 r ?c"
    using assms(2,3) link_pbuf_room [of r n] pc unat_le16 [of n] by (auto simp: header_room_def c(1)) (simp add: link_pbuf_def)
  from header_added [OF assms(1) this] have hd: "pbuf_header r (int 20) (mem_of s) = Some (0, put_pbuf r ?l (mem_of s))"
    using link_pbuf_back [of r n] by simp
  let ?w1 = "memcpy_to (?a + 12) (le32_bytes src @ le32_bytes ?d)" and ?w2 = "memcpy_to (?a + 20) [ICMP_ER]"
    and ?w3 = "memcpy_to (?a + 22) [0, 0]" and ?w4 = "memcpy_to (?a + 8) [ICMP_TTL]" and ?w5 = "memcpy_to (?a + 10) [0, 0]"
  let ?h = "?w5 (?w4 (?w3 (?w2 (?w1 (put_pbuf r ?l (mem_of s))))))"
  have "24 \<le> length X" using assms(3) by (simp add: X_def)
  from pong_writes [OF this, of src ?d] have x: "pbuf_bytes ?h ?l = pong src ?d X"
    unfolding pbuf_bytes_def c(2) using assms(3)
    by (simp add: slice_write_inside X_def [symmetric] le32_bytes_def)
  have "mem_slice (bytes ?h) (?a + 16) 4 = take 4 (drop 16 (pong src ?d X))"
    unfolding x [symmetric] pbuf_bytes_def c(2) by (rule sub_slice) (use assms(3) in simp)
  also have "\<dots> = le32_bytes ?d" using assms(3) by (simp add: pong_def X_def le32_bytes_def)
  finally have dst: "le32 (mem_slice (bytes ?h) (?a + 16) 4) = ?d" by simp
  have "ip4_output_if E r (Some src) None ICMP_TTL 0 IP_PROTO_ICMP inp (s\<lparr>mem_of := ?h\<rparr>) = etharp_output (arp_env E) inp r ?d (s\<lparr>mem_of := ?h\<rparr>)"
    unfolding ip4_output_if_def ip4_output_if_src_def using dst assms(4) by (auto simp: c(3))
  then have "echo_reply E r 20 inp src s = map_option snd (etharp_output (arp_env E) inp r ?d (s\<lparr>mem_of := ?h\<rparr>))"
    unfolding echo_reply_def assms(1) using hd c(1) by (simp add: map_conv_bind_option case_prod_beta' comp_def Let_def add.commute [of 22])
  moreover have "RX_POOL ?h = RX_POOL (mem_of s)" by (simp add: memcpy_to_def)
  ultimately show ?thesis using x by (intro exI [of _ ?h]) (simp add: put_pbuf_def)
qed

lemma icmp_input_ping:
  fixes s :: "('d, 'z) ip_scheme"
  assumes "received (mem_of s) p b" "penv (arp_env E) = driver_env mm" "mm (link_block (unat (plen b) + 20)) (mem_of s) = Some r" "r \<noteq> 0" "r \<noteq> p"
    "8 \<le> unat (plen b)" "unat (plen b) \<le> 60000"
    "disjoint (payload (link_pbuf r 0)) (unat (plen b) + 20) (payload b) (unat (plen b))"
    "mtu (iface E inp) = 0 \<or> unat (plen b) + 20 \<le> mtu (iface E inp)"
    "hl (bytes (mem_of s)) (current_ip4_header s) = 20" "bytes (mem_of s) (payload b) = ICMP_ECHO" "inet_chksum_pbuf p (mem_of s) = Some 0"
    "\<not> ip4_addr_ismulticast (current_iphdr_dest s)" "\<not> ip4_addr_isbroadcast (current_iphdr_dest s) (iface E (current_netif s))"
  defines "l \<equiv> link_pbuf r (plen b + 20)"
  shows "\<exists>h'. icmp_input E p inp s =
      do { (e, s') \<leftarrow> etharp_output (arp_env E) inp r (current_iphdr_src s) (s\<lparr>mem_of := h'\<rparr>); free_packet E r s' } \<and>
    pb h' = (pb (mem_of s))(p := None, r \<mapsto> l) \<and> RX_POOL h' = p # RX_POOL (mem_of s) \<and>
    pbuf_bytes h' l = pong (current_iphdr_dest s) (current_iphdr_src s) (mem_slice (bytes (mem_of s)) (current_ip4_header s) 20 @ pbuf_bytes (mem_of s) b)"
proof -
  let ?n = "plen b + 20" and ?src = "current_iphdr_dest s" and ?a = "current_ip4_header s"
  have n: "unat ?n = unat (plen b) + 20" using assms(7) by (subst unat_plus) simp_all
  have b: "pb (mem_of s) p = Some b" "tot_len b = plen b" using assms(1) by (simp_all add: received_def single_def)
  obtain h1 where h1: "echo_copy E p ?a 20 (mem_of s) = Some (r, h1)" "pb h1 = (pb (mem_of s))(p := None, r \<mapsto> moved 20 l)" "RX_POOL h1 = p # RX_POOL (mem_of s)"
      "mem_slice (bytes h1) (payload l) (20 + unat (plen b)) = mem_slice (bytes (mem_of s)) ?a 20 @ pbuf_bytes (mem_of s) b"
    using echo_copy_ok [OF assms(1-8), of ?a] by (auto simp: l_def)
  let ?s1 = "s\<lparr>mem_of := h1\<rparr>"
  have "pb (mem_of ?s1) r = Some (moved 20 (link_pbuf r ?n))" using h1(2) by (simp add: l_def)
  from echo_reply_ok [OF this assms(4), of E inp ?src] obtain h' where h': "echo_reply E r 20 inp ?src ?s1 =
        map_option snd (etharp_output (arp_env E) inp r (current_iphdr_src s) (s\<lparr>mem_of := h'\<rparr>))"
      "pb h' = (pb h1)(r \<mapsto> l)" "pbuf_bytes h' l = pong ?src (current_iphdr_src s) (mem_slice (bytes h1) (payload l) (20 + unat (plen b)))" "RX_POOL h' = RX_POOL h1"
    using assms(6,9) n by (auto simp: l_def add.commute)
  have "icmp_input E p inp s = icmp_echo E p 20 inp s"
    using assms(6,10,11) b(1) by (simp add: icmp_input_def hl_def [symmetric] IP_HLEN_def)
  also have "\<dots> = do { s \<leftarrow> echo_reply E r 20 inp ?src ?s1; free_packet E r s }"
    unfolding icmp_echo_def Let_def b(1) using assms(4,6,12,13,14) b(2) h1(1) echo_room_received [OF assms(1), of E ?a] by (simp add: SIZEOF_ICMP_ECHO_HDR_def)
  also have "\<dots> = do { (e, s') \<leftarrow> etharp_output (arp_env E) inp r (current_iphdr_src s) (s\<lparr>mem_of := h'\<rparr>); free_packet E r s' }"
    unfolding h'(1) by (simp add: map_conv_bind_option case_prod_beta' comp_def)
  finally show ?thesis using h'(2,3,4) h1(2,3,4) by (intro exI [of _ h']) (auto simp: fun_eq_iff)
qed

section \<open>From frame to frame\<close>

lemma output_known:
  assumes "arp_ok A s" "\<not> ip4_addr_isbroadcast ip (netif_at A netif)" "\<not> ip4_addr_ismulticast ip"
    "ip4_addr_netcmp ip (netif_ip4_addr (netif_at A netif)) (netif_ip4_netmask (netif_at A netif))"
    "arp_map (arp_table s) ip = Some mac" "\<forall>e \<in> set (arp_table s). ipaddr e = ip \<longrightarrow> ctime e < ARP_AGE_REREQUEST_USED_UNICAST"
  shows "\<exists>i. etharp_output A netif q ip s = ethernet_output A netif q (hwaddr (netif_at A netif)) mac ETHTYPE_IP (s\<lparr>etharp_cached_entry := i\<rparr>)"
proof -
  have "length (arp_table s) = 10" using assms(1) by (simp add: arp_ok_def table_ok_def)
  then have "ctime (arp_table s ! i) < ARP_AGE_REREQUEST_USED_UNICAST" if "i < 10" "ipaddr (arp_table s ! i) = ip" for i
    using assms(6) that nth_mem [of i "arp_table s"] by auto
  then show ?thesis using output_routes [OF assms(1), of ip netif q] assms(2-5) by auto
qed

lemma link_flags_custom: "f AND c \<noteq> 0 \<Longrightarrow> link_flags d f AND c \<noteq> 0"
  by (auto simp: link_flags_def bit.conj_disj_distrib2 or_eq_0_iff)

lemma frame_to_ip:
  assumes "received (mem_of s) p b" "14 < unat (plen b)" "flag_etharp (netif_at A inp)"
    "mem_slice (bytes (mem_of s)) (payload b + 12) 2 = be16 ETHTYPE_IP"
  shows "\<exists>c. ethernet_input A ip p inp s = map_option (Pair ERR_OK) (ip p inp (s\<lparr>mem_of := put_pbuf p c (mem_of s)\<rparr>)) \<and>
    received (put_pbuf p c (mem_of s)) p c \<and> payload c = payload b + 14 \<and> unat (plen c) = unat (plen b) - 14"
proof -
  let ?m = "bytes (mem_of s)" and ?f = "payload b"
  let ?b = "b\<lparr>pflags := link_flags (take 6 (mem_slice ?m ?f 14)) (pflags b)\<rparr>"
  have b: "pb (mem_of s) p = Some b" "p \<noteq> 0" "ptype b = PBUF_REF" using assms(1) by (simp_all add: received_def single_def)
  have t: "drop 12 (mem_slice ?m ?f 14) = be16 ETHTYPE_IP" using assms(4) by (simp add: drop_mem_slice)
  have "pbuf_header p (- int 14) (put_pbuf p ?b (mem_of s)) = Some (0, put_pbuf p (moved 14 ?b) (mem_of s))"
    using header_removed [of "put_pbuf p ?b (mem_of s)" p ?b 14] b assms(2) by simp
  then have "ethernet_input A ip p inp s = map_option (Pair ERR_OK) (ip p inp (s\<lparr>mem_of := put_pbuf p (moved 14 ?b) (mem_of s)\<rparr>))"
    unfolding ethernet_input_def b(1) SIZEOF_ETH_HDR_def using assms(2,3) t by simp
  moreover have "received (put_pbuf p (moved 14 ?b) (mem_of s)) p (moved 14 ?b)"
    using assms(1) link_flags_custom [of "pflags b" PBUF_FLAG_IS_CUSTOM] by (auto simp: received_def single_def)
  ultimately show ?thesis using assms(2) by (intro exI [of _ "moved 14 ?b"]) (simp add: moved_plen)
qed

lemma answer_sent:
  fixes s :: "('d, 'z) ip_scheme"
  assumes "pb (mem_of s) r = Some (link_pbuf r n)" "r \<noteq> 0" "unat n \<le> 65000" "length mac = 6" "length (hwaddr (iface E inp)) = 6"
    "penv (arp_env E) = driver_env mm"
  shows "\<exists>h'. contents h' [r] = mac @ hwaddr (iface E inp) @ be16 ETHTYPE_IP @ pbuf_bytes (mem_of s) (link_pbuf r n) \<and>
    do { (e, s') \<leftarrow> ethernet_output (arp_env E) inp r (hwaddr (iface E inp)) mac ETHTYPE_IP s; free_packet E r s' } =
      (case run_state (linkoutput (arp_env E) inp r h') (dev s) of (e, d) \<Rightarrow> map_option (\<lambda>_. s\<lparr>mem_of := freed h' [r], dev := d\<rparr>) e) \<and>
    pb (freed h' [r]) = (pb (mem_of s))(r := None) \<and> RX_POOL (freed h' [r]) = RX_POOL (mem_of s)"
proof -
  let ?l = "link_pbuf r n"
  have "header_room SIZEOF_ETH_HDR r ?l"
    using assms(2,3) link_pbuf_room [of r n] by (auto simp: header_room_def SIZEOF_ETH_HDR_def) (simp_all add: link_pbuf_def)
  from frame_sent [OF assms(1) this assms(5,4), of "arp_env E" inp ETHTYPE_IP] obtain h' b'
    where h: "ethernet_output (arp_env E) inp r (hwaddr (iface E inp)) mac ETHTYPE_IP s = sent_with (arp_env E) inp r h' s"
      "pb h' = (pb (mem_of s))(r \<mapsto> b')" "pbuf_bytes h' b' = mac @ hwaddr (iface E inp) @ be16 ETHTYPE_IP @ pbuf_bytes (mem_of s) ?l"
      "pnext b' = 0" "plen b' = n + 14" "tot_len b' = n + 14" "pref b' = 1" "RX_POOL h' = RX_POOL (mem_of s)" "pflags b' = 0"
    by (auto simp: link_pbuf_def)
  have "single h' r b'" using h assms(2) by (simp add: single_def)
  from free_single [OF this h(7), of mm] have fr: "free_packet E r (s\<lparr>mem_of := h', dev := d\<rparr>) = Some (s\<lparr>mem_of := freed h' [r], dev := d\<rparr>)" for d
    using assms(6) by (simp add: free_packet_def)
  have "do { (e, s') \<leftarrow> ethernet_output (arp_env E) inp r (hwaddr (iface E inp)) mac ETHTYPE_IP s; free_packet E r s' } =
      (case run_state (linkoutput (arp_env E) inp r h') (dev s) of (e, d) \<Rightarrow> map_option (\<lambda>_. s\<lparr>mem_of := freed h' [r], dev := d\<rparr>) e)"
    unfolding h(1) sent_with_def by (simp add: case_prod_beta' map_conv_bind_option comp_def fr)
  then show ?thesis using h by (intro exI [of _ h']) (auto simp: the_pb_def freed_def returned_def fun_eq_iff)
qed


text \<open>An echo request to the interface in a frame of \<open>k\<close> bytes at \<open>f\<close>: unfragmented, without IP options, the checksum right.\<close>

definition is_ping :: "netif \<Rightarrow> (nat \<Rightarrow> u8) \<Rightarrow> nat \<Rightarrow> nat \<Rightarrow> bool" where
  "is_ping n m f k \<longleftrightarrow> mem_slice m (f + 12) 2 = be16 ETHTYPE_IP \<and> datagram m (f + 14) (k - 14) \<and> hl m (f + 14) = 20 \<and>
     28 \<le> len_field m (f + 14) \<and> \<not> fragment m (f + 14) \<and> m (f + 23) = IP_PROTO_ICMP \<and> net32 m (f + 30) = netif_ip4_addr n \<and>
     m (f + 34) = ICMP_ECHO \<and> wsum (mem_slice m (f + 34) (len_field m (f + 14) - 20)) mod 65535 = 0"

text \<open>A host address of the subnet of the interface.\<close>

definition neighbour :: "netif \<Rightarrow> u32 \<Rightarrow> bool" where
  "neighbour n ip \<longleftrightarrow> \<not> ip4_addr_isbroadcast ip n \<and> \<not> ip4_addr_ismulticast ip \<and> ip4_addr_netcmp ip (netif_ip4_addr n) (netif_ip4_netmask n)"

text \<open>The interface is ready for Ethernet, with an address of its own.\<close>

definition iface_ready :: "netif \<Rightarrow> bool" where
  "iface_ready n \<longleftrightarrow> netif_up n \<and> flag_etharp n \<and> mtu n = 1500 \<and> length (hwaddr n) = 6 \<and> \<not> ip4_addr_isany (netif_ip4_addr n) \<and>
     neighbour n (netif_ip4_addr n)"

lemma ping_checksum:
  assumes "single h p b" "0 < unat (plen b)" "bytes h (payload b) = ICMP_ECHO" "wsum (pbuf_bytes h b) mod 65535 = 0"
  shows "inet_chksum_pbuf p h = Some 0"
proof -
  have c: "chain h p [p]" "contents h [p] = pbuf_bytes h b" using assms(1) by (simp_all add: single_def the_pb_def)
  have "pbuf_bytes h b ! 0 = ICMP_ECHO" using assms(2,3) by (simp add: pbuf_bytes_def)
  moreover have "0 < length (pbuf_bytes h b)" using assms(2) by (simp add: pbuf_bytes_def)
  ultimately have "ICMP_ECHO \<in> set (pbuf_bytes h b)" by (metis nth_mem)
  then have "wsum (pbuf_bytes h b) \<noteq> 0" unfolding wsum_zero by (intro notI) (auto simp: ICMP_ECHO_def)
  then show ?thesis using verifies_iff [OF c(1)] assms(4) c(2) by simp
qed

text \<open>The message an echo request brings to \<^verbatim>\<open>icmp_input\<close>.\<close>

lemma ping_delivered:
  fixes s :: "('d, 'z) ip_scheme"
  assumes "only_netif E inp" "received (mem_of s) p b" "penv (arp_env E) = driver_env mm" "iface_ready (iface E inp)"
    "is_ping (iface E inp) (bytes (mem_of s)) (payload b) (unat (plen b))" "neighbour (iface E inp) (net32 (bytes (mem_of s)) (payload b + 26))"
  defines "m \<equiv> bytes (mem_of s)" and "a \<equiv> payload b + 14"
  shows "\<exists>s1 b1. ethernet_input (arp_env E) (ip4_input E) p inp s = map_option (\<lambda>s. (ERR_OK, ip_idle s)) (icmp_input E p inp s1) \<and>
    mem_of s1 = put_pbuf p b1 (mem_of s) \<and> received (mem_of s1) p b1 \<and> payload b1 = a + 20 \<and> unat (plen b1) = len_field m a - 20 \<and>
    s1 = upwards inp a 20 (mem_of s1) (addressed m a s)"
proof -
  let ?f = "payload b" and ?n = "iface E inp"
  have n: "netif_up ?n" "flag_etharp ?n" "\<not> ip4_addr_isany (netif_ip4_addr ?n)" using assms(4) by (simp_all add: iface_ready_def)
  have ping: "mem_slice m (?f + 12) 2 = be16 ETHTYPE_IP" "datagram m a (unat (plen b) - 14)" "hl m a = 20" "28 \<le> len_field m a"
      "\<not> fragment m a" "m (a + 9) = IP_PROTO_ICMP" "net32 m (a + 16) = netif_ip4_addr ?n" "len_field m a \<le> unat (plen b) - 14"
    using assms(5) by (simp_all add: is_ping_def m_def a_def datagram_def add.commute)
  then have "14 < unat (plen b)" by linarith
  from frame_to_ip [OF assms(2) this n(2) ping(1) [unfolded m_def], of "ip4_input E"] obtain c
    where c: "ethernet_input (arp_env E) (ip4_input E) p inp s = map_option (Pair ERR_OK) (ip4_input E p inp (s\<lparr>mem_of := put_pbuf p c (mem_of s)\<rparr>))"
      "received (put_pbuf p c (mem_of s)) p c" "payload c = a" "unat (plen c) = unat (plen b) - 14" by (auto simp: a_def)
  let ?s = "s\<lparr>mem_of := put_pbuf p c (mem_of s)\<rparr>"
  have m: "bytes (mem_of ?s) = m" by (simp add: m_def)
  have "acceptable ?n m a (unat (plen b) - 14)"
    using ping n assms(6) by (simp add: acceptable_def for_us_def good_source_def neighbour_def m_def a_def add.commute)
  then obtain s1 b1 where d: "ip4_input E p inp ?s = map_option ip_idle (icmp_input E p inp s1)" "mem_of s1 = put_pbuf p b1 (mem_of s)"
      "received (mem_of s1) p b1" "payload b1 = a + 20" "pbuf_bytes (mem_of s1) b1 = drop 20 (take (len_field m a) (pbuf_bytes (mem_of ?s) c))"
      "s1 = upwards inp a 20 (mem_of s1) (addressed m a ?s)"
    using accepted_delivery [OF assms(1) _ assms(3), of ?s p c, unfolded m c(3,4)] c(2) ping(3,5,6) by auto
  have "unat (plen b1) = len_field m a - 20" using arg_cong [OF d(5), of length] c(4) ping(8) by (simp add: pbuf_bytes_def)
  moreover have "upwards inp a 20 (mem_of s1) (addressed m a ?s) = upwards inp a 20 (mem_of s1) (addressed m a s)"
    by (simp add: upwards_def addressed_def)
  ultimately show ?thesis using c(1) d by (intro exI [of _ s1] exI [of _ b1]) (simp add: option.map_comp comp_def)
qed


text \<open>A block that does not meet the frame has a packet that does not either.\<close>

lemma link_disjoint:
  assumes "disjoint r (link_block l) f k" "r mod 4 = 0" "34 + n \<le> k" "n + 20 = l"
  shows "disjoint (payload (link_pbuf r 0)) l (f + 34) n"
proof -
  have "payload (link_pbuf r 0) \<le> r + 32" "l \<le> LWIP_MEM_ALIGN_SIZE l"
    using assms(2) by (simp_all add: link_pbuf_def LWIP_MEM_ALIGN_SIZE_def SIZEOF_STRUCT_PBUF_def) presburger+
  then show ?thesis using assms link_pbuf_room [of r 0] unfolding disjoint_def link_block_def by linarith
qed

lemma idle_dev: "ip_idle (s\<lparr>dev := d\<rparr>) = (ip_idle s)\<lparr>dev := d\<rparr>"
  by (cases s) (simp add: ip_idle_def)

end
