(* ===== verification/Ip_Properties.thy ===== *)
theory Ip_Properties
  imports Icmp_Correct
begin

text \<open>
  Properties of the IP layer: who gets a received packet and in which form, that what one host sends another receives, and that
  a ping is answered, through all layers.
\<close>

unbundle bit_operations_syntax

section \<open>A frame from a neighbour\<close>

definition ping_data :: "u8 list" where "ping_data = [8, 0, 0xf7, 0xfd, 0, 1, 0, 1]"

abbreviation board :: u32 where "board \<equiv> 0x0201A8C0"

definition demo_frame :: "u8 \<Rightarrow> u8 list" where
  "demo_frame proto = MAC_ADDR @ [2, 0, 0, 0, 0, 9] @ be16 ETHTYPE_IP @ ip_hdr 0x45 0 28 1 64 proto pc board @ ping_data @ [0, 0, 0, 0]"






lemma length_demo_frame [simp]: "length (demo_frame proto) = 46"
  by (simp add: demo_frame_def MAC_ADDR_def be16_def ping_data_def)





section \<open>Delivery\<close>






section \<open>Ping\<close>





end
