(* ===== verification/Tcp.thy ===== *)
theory Tcp
  imports Ip4_Input
begin

text \<open>
  The data of TCP: \<^verbatim>\<open>src/STM32/Bootloader/User/lwip-2.0.3/src/include/lwip/tcp.h\<close>, \<^verbatim>\<open>priv/tcp_priv.h\<close> and \<^verbatim>\<open>prot/tcp.h\<close>, with the values
  of \<^verbatim>\<open>lwipopts.h\<close>: no queue for segments out of order, no window scaling, no time stamps, no listen backlog, checksums by
  hardware, assertions off. The queues of segments are lists; a control block is found by its address, the lists of control blocks are
  lists of addresses. Signed 16-bit fields are words read by \<open>sint\<close>. Null pointers are 0.
\<close>

unbundle bit_operations_syntax

type_synonym s16 = "16 word"

section \<open>Constants\<close>

definition TCP_HLEN :: u16 where "TCP_HLEN = 20"
definition TCP_FIN :: u8 where "TCP_FIN = 0x01"
definition TCP_SYN :: u8 where "TCP_SYN = 0x02"
definition TCP_RST :: u8 where "TCP_RST = 0x04"
definition TCP_PSH :: u8 where "TCP_PSH = 0x08"
definition TCP_ACK :: u8 where "TCP_ACK = 0x10"
definition TCP_FLAGS :: u16 where "TCP_FLAGS = 0x3f"

definition TF_ACK_DELAY :: u8 where "TF_ACK_DELAY = 0x01"
definition TF_ACK_NOW :: u8 where "TF_ACK_NOW = 0x02"
definition TF_INFR :: u8 where "TF_INFR = 0x04"
definition TF_CLOSEPEND :: u8 where "TF_CLOSEPEND = 0x08"
definition TF_RXCLOSED :: u8 where "TF_RXCLOSED = 0x10"
definition TF_FIN :: u8 where "TF_FIN = 0x20"
definition TF_NODELAY :: u8 where "TF_NODELAY = 0x40"
definition TF_NAGLEMEMERR :: u8 where "TF_NAGLEMEMERR = 0x80"

definition TF_RESET :: u8 where "TF_RESET = 0x08"
definition TF_CLOSED :: u8 where "TF_CLOSED = 0x10"
definition TF_GOT_FIN :: u8 where "TF_GOT_FIN = 0x20"
definition TF_SEG_OPTS_MSS :: u8 where "TF_SEG_OPTS_MSS = 0x01"
definition PBUF_FLAG_PUSH :: u8 where "PBUF_FLAG_PUSH = 0x01"
definition PBUF_FLAG_TCP_FIN :: u8 where "PBUF_FLAG_TCP_FIN = 0x20"
definition SOF_KEEPALIVE :: u8 where "SOF_KEEPALIVE = 0x08"
definition SOF_INHERITED :: u8 where "SOF_INHERITED = 0x0c"

definition TCP_TTL :: u8 where "TCP_TTL = 255"
definition TCP_MSS :: u16 where "TCP_MSS = 1460"
definition TCP_SND_BUF :: u16 where "TCP_SND_BUF = 5840"
definition TCP_SND_QUEUELEN :: u16 where "TCP_SND_QUEUELEN = 8"
definition TCP_SNDQUEUELEN_OVERFLOW :: u16 where "TCP_SNDQUEUELEN_OVERFLOW = 0xfffc"
definition TCP_WND :: u16 where "TCP_WND = 2920"
definition TCP_WND_UPDATE_THRESHOLD :: int where "TCP_WND_UPDATE_THRESHOLD = 730"
definition TCP_OVERSIZE :: u16 where "TCP_OVERSIZE = TCP_MSS"
definition TCP_MAXRTX :: u8 where "TCP_MAXRTX = 12"
definition TCP_SYNMAXRTX :: u8 where "TCP_SYNMAXRTX = 6"
definition TCP_SLOW_INTERVAL :: u32 where "TCP_SLOW_INTERVAL = 500"
definition TCP_FIN_WAIT_TIMEOUT :: u32 where "TCP_FIN_WAIT_TIMEOUT = 20000"
definition TCP_SYN_RCVD_TIMEOUT :: u32 where "TCP_SYN_RCVD_TIMEOUT = 20000"
definition TCP_MSL :: u32 where "TCP_MSL = 60000"
definition TCP_KEEPIDLE_DEFAULT :: u32 where "TCP_KEEPIDLE_DEFAULT = 7200000"
definition TCP_KEEPINTVL_DEFAULT :: u32 where "TCP_KEEPINTVL_DEFAULT = 75000"
definition TCP_MAXIDLE :: u32 where "TCP_MAXIDLE = 9 * TCP_KEEPINTVL_DEFAULT"
definition TCP_PRIO_NORMAL :: u8 where "TCP_PRIO_NORMAL = 64"
definition TCP_PRIO_MAX :: u8 where "TCP_PRIO_MAX = 127"
definition TCP_LOCAL_PORT_RANGE_START :: u16 where "TCP_LOCAL_PORT_RANGE_START = 0xc000"
definition TCP_LOCAL_PORT_RANGE_END :: u16 where "TCP_LOCAL_PORT_RANGE_END = 0xffff"
definition INITIAL_MSS :: u16 where "INITIAL_MSS = 536"
definition LWIP_TCP_OPT_LEN_MSS :: u16 where "LWIP_TCP_OPT_LEN_MSS = 4"

abbreviation ERR_INPROGRESS :: err_t where "ERR_INPROGRESS \<equiv> -5"
abbreviation ERR_USE :: err_t where "ERR_USE \<equiv> -8"
abbreviation ERR_ISCONN :: err_t where "ERR_ISCONN \<equiv> -10"
abbreviation ERR_CONN :: err_t where "ERR_CONN \<equiv> -11"
abbreviation ERR_RST :: err_t where "ERR_RST \<equiv> -14"
abbreviation ERR_CLSD :: err_t where "ERR_CLSD \<equiv> -15"

section \<open>Sequence numbers\<close>

definition TCP_SEQ_LT :: "u32 \<Rightarrow> u32 \<Rightarrow> bool" where "TCP_SEQ_LT a b \<longleftrightarrow> sint (a - b) < 0"
definition TCP_SEQ_LEQ :: "u32 \<Rightarrow> u32 \<Rightarrow> bool" where "TCP_SEQ_LEQ a b \<longleftrightarrow> sint (a - b) \<le> 0"
definition TCP_SEQ_GT :: "u32 \<Rightarrow> u32 \<Rightarrow> bool" where "TCP_SEQ_GT a b \<longleftrightarrow> sint (a - b) > 0"
definition TCP_SEQ_GEQ :: "u32 \<Rightarrow> u32 \<Rightarrow> bool" where "TCP_SEQ_GEQ a b \<longleftrightarrow> sint (a - b) \<ge> 0"
definition TCP_SEQ_BETWEEN :: "u32 \<Rightarrow> u32 \<Rightarrow> u32 \<Rightarrow> bool" where "TCP_SEQ_BETWEEN a b c \<longleftrightarrow> TCP_SEQ_GEQ a b \<and> TCP_SEQ_LEQ a c"

section \<open>Control blocks\<close>

datatype tcp_state = CLOSED | LISTEN | SYN_SENT | SYN_RCVD | ESTABLISHED | FIN_WAIT_1 | FIN_WAIT_2 | CLOSE_WAIT | CLOSING | LAST_ACK | TIME_WAIT

fun tcp_state_no :: "tcp_state \<Rightarrow> nat" where
  "tcp_state_no CLOSED = 0"
| "tcp_state_no LISTEN = 1"
| "tcp_state_no SYN_SENT = 2"
| "tcp_state_no SYN_RCVD = 3"
| "tcp_state_no ESTABLISHED = 4"
| "tcp_state_no FIN_WAIT_1 = 5"
| "tcp_state_no FIN_WAIT_2 = 6"
| "tcp_state_no CLOSE_WAIT = 7"
| "tcp_state_no CLOSING = 8"
| "tcp_state_no LAST_ACK = 9"
| "tcp_state_no TIME_WAIT = 10"

instantiation tcp_state :: linorder
begin

definition less_tcp_state :: "tcp_state \<Rightarrow> tcp_state \<Rightarrow> bool" where
  "a < b \<longleftrightarrow> tcp_state_no a < tcp_state_no b"

definition less_eq_tcp_state :: "tcp_state \<Rightarrow> tcp_state \<Rightarrow> bool" where
  "a \<le> b \<longleftrightarrow> tcp_state_no a \<le> tcp_state_no b"

instance
proof
  fix a b :: tcp_state
  assume "a \<le> b" "b \<le> a"
  then have "tcp_state_no a = tcp_state_no b" by (simp add: less_eq_tcp_state_def)
  then show "a = b" by (cases a; cases b) simp_all
qed (auto simp: less_tcp_state_def less_eq_tcp_state_def)

end

text \<open>Functions of the application that a control block points to, or the default of lwIP.\<close>

datatype callback = NULL_FN | DEFAULT_FN | APP_FN nat

record tcp_seg =
  seg_p :: nat
  seg_len :: u16
  seg_flags :: u8
  seg_tcphdr :: nat

record tcp_pcb =
  local_ip :: u32
  remote_ip :: u32
  so_options :: u8
  tos :: u8
  ttl :: u8
  callback_arg :: nat
  pcb_state :: tcp_state
  prio :: u8
  local_port :: u16
  remote_port :: u16
  tflags :: u8
  polltmr :: u8
  pollinterval :: u8
  last_timer :: u8
  tmr :: u32
  rcv_nxt :: u32
  rcv_wnd :: u16
  rcv_ann_wnd :: u16
  rcv_ann_right_edge :: u32
  rtime :: s16
  mss :: u16
  rttest :: u32
  rtseq :: u32
  sa :: s16
  sv :: s16
  rto :: s16
  nrtx :: u8
  dupacks :: u8
  lastack :: u32
  cwnd :: u16
  ssthresh :: u16
  snd_nxt :: u32
  snd_wl1 :: u32
  snd_wl2 :: u32
  snd_lbb :: u32
  snd_wnd :: u16
  snd_wnd_max :: u16
  snd_buf :: u16
  snd_queuelen :: u16
  unsent_oversize :: u16
  unsent :: "tcp_seg list"
  unacked :: "tcp_seg list"
  refused_data :: nat
  listener :: nat
  sent_fn :: callback
  recv_fn :: callback
  connected_fn :: callback
  poll_fn :: callback
  err_fn :: callback
  keep_idle :: u32
  persist_cnt :: u8
  persist_backoff :: u8
  keep_cnt_sent :: u8

record tcp_pcb_listen =
  l_local_ip :: u32
  l_so_options :: u8
  l_tos :: u8
  l_ttl :: u8
  l_callback_arg :: nat
  l_prio :: u8
  l_local_port :: u16
  accept_fn :: callback

section \<open>State\<close>

text \<open>
  The variables of \<^verbatim>\<open>tcp.c\<close> and \<^verbatim>\<open>tcp_in.c\<close>, with the free elements of the three pools; of the segments only their number counts.
\<close>

record 'd tcp = "'d ip" +
  pcbs :: "nat \<rightharpoonup> tcp_pcb"
  lpcbs :: "nat \<rightharpoonup> tcp_pcb_listen"
  free_pcbs :: "nat list"
  free_lpcbs :: "nat list"
  free_segs :: nat
  tcp_bound_pcbs :: "nat list"
  tcp_listen_pcbs :: "nat list"
  tcp_active_pcbs :: "nat list"
  tcp_tw_pcbs :: "nat list"
  tcp_active_pcbs_changed :: bool
  tcp_ticks :: u32
  tcp_timer :: u8
  tcp_timer_ctr :: u8
  tcp_port :: u16
  tcp_iss :: u32
  tcp_input_pcb :: nat
  inseg_p :: nat
  inseg_len :: u16
  tcphdr :: nat
  tcphdr_optlen :: u16
  tcphdr_opt1len :: u16
  tcphdr_opt2 :: nat
  in_seqno :: u32
  in_ackno :: u32
  in_flags :: u8
  tcplen :: u16
  recv_acked :: u16
  recv_flags :: u8
  recv_data :: nat

text \<open>The layers below, the functions of the application and the timer of \<^verbatim>\<open>timeouts.c\<close>.\<close>

record 'd tcp_env =
  ip_env :: "('d, unit tcp_ext) ip_env"
  app_sent :: "nat \<Rightarrow> nat \<Rightarrow> nat \<Rightarrow> u16 \<Rightarrow> 'd tcp \<Rightarrow> (err_t \<times> 'd tcp) option"
  app_recv :: "nat \<Rightarrow> nat \<Rightarrow> nat \<Rightarrow> nat \<Rightarrow> err_t \<Rightarrow> 'd tcp \<Rightarrow> (err_t \<times> 'd tcp) option"
  app_connected :: "nat \<Rightarrow> nat \<Rightarrow> nat \<Rightarrow> err_t \<Rightarrow> 'd tcp \<Rightarrow> (err_t \<times> 'd tcp) option"
  app_poll :: "nat \<Rightarrow> nat \<Rightarrow> nat \<Rightarrow> 'd tcp \<Rightarrow> (err_t \<times> 'd tcp) option"
  app_err :: "nat \<Rightarrow> nat \<Rightarrow> err_t \<Rightarrow> 'd tcp \<Rightarrow> 'd tcp option"
  app_accept :: "nat \<Rightarrow> nat \<Rightarrow> nat \<Rightarrow> err_t \<Rightarrow> 'd tcp \<Rightarrow> (err_t \<times> 'd tcp) option"
  timer_needed :: "'d tcp \<Rightarrow> 'd tcp"

abbreviation pbufs :: "'d tcp_env \<Rightarrow> pbuf_env" where
  "pbufs E \<equiv> penv (arp_env (ip_env E))"

text \<open>Writing a field of a control block; \<open>None\<close> where no block lives.\<close>

definition set_pcb :: "nat \<Rightarrow> tcp_pcb \<Rightarrow> 'd tcp \<Rightarrow> 'd tcp" where
  "set_pcb p c s = s\<lparr>pcbs := (pcbs s)(p \<mapsto> c)\<rparr>"

definition upd_pcb :: "nat \<Rightarrow> (tcp_pcb \<Rightarrow> tcp_pcb) \<Rightarrow> 'd tcp \<Rightarrow> 'd tcp option" where
  "upd_pcb p f s = (case pcbs s p of None \<Rightarrow> None | Some c \<Rightarrow> Some (set_pcb p (f c) s))"

definition set_tflags :: "u8 \<Rightarrow> tcp_pcb \<Rightarrow> tcp_pcb" where "set_tflags f c = c\<lparr>tflags := tflags c OR f\<rparr>"
definition clear_tflags :: "u8 \<Rightarrow> tcp_pcb \<Rightarrow> tcp_pcb" where "clear_tflags f c = c\<lparr>tflags := tflags c AND NOT f\<rparr>"

definition tcp_ack_now :: "tcp_pcb \<Rightarrow> tcp_pcb" where "tcp_ack_now = set_tflags TF_ACK_NOW"

definition tcp_ack :: "tcp_pcb \<Rightarrow> tcp_pcb" where
  "tcp_ack c = (if tflags c AND TF_ACK_DELAY \<noteq> 0 then set_tflags TF_ACK_NOW (clear_tflags TF_ACK_DELAY c) else set_tflags TF_ACK_DELAY c)"

section \<open>Headers\<close>

definition be32 :: "u32 \<Rightarrow> u8 list" where "be32 w = be16 (ucast (drop_bit 16 w)) @ be16 (ucast w)"

text \<open>\<^verbatim>\<open>struct tcp_hdr\<close> as bytes, with zero checksum and urgent pointer.\<close>

definition tcp_hdr :: "u16 \<Rightarrow> u16 \<Rightarrow> u32 \<Rightarrow> u32 \<Rightarrow> u16 \<Rightarrow> u16 \<Rightarrow> u8 list" where
  "tcp_hdr src dest sq ack hdrlen_rsvd_flags wnd =
     be16 src @ be16 dest @ be32 sq @ be32 ack @ be16 hdrlen_rsvd_flags @ be16 wnd @ [0, 0, 0, 0]"

definition TCPH_HDRLEN :: "(nat \<Rightarrow> u8) \<Rightarrow> nat \<Rightarrow> u16" where "TCPH_HDRLEN m a = drop_bit 12 (net16 m (a + 12))"
definition TCPH_FLAGS :: "(nat \<Rightarrow> u8) \<Rightarrow> nat \<Rightarrow> u8" where "TCPH_FLAGS m a = ucast (net16 m (a + 12) AND TCP_FLAGS)"

definition hdrlen_flags :: "u16 \<Rightarrow> u8 \<Rightarrow> u16" where "hdrlen_flags n f = push_bit 12 n OR ucast f"

definition TCPH_FLAGS_SET :: "nat \<Rightarrow> u8 \<Rightarrow> store \<Rightarrow> store" where
  "TCPH_FLAGS_SET a f h = memcpy_to (a + 12) (be16 ((net16 (bytes h) (a + 12) AND NOT TCP_FLAGS) OR ucast f)) h"

definition TCPH_SET_FLAG :: "nat \<Rightarrow> u8 \<Rightarrow> store \<Rightarrow> store" where
  "TCPH_SET_FLAG a f h = memcpy_to (a + 12) (be16 (net16 (bytes h) (a + 12) OR ucast f)) h"

text \<open>The sequence number in the header of a queued segment, and the length of a segment with its SYN or FIN.\<close>

definition seg_seqno :: "store \<Rightarrow> tcp_seg \<Rightarrow> u32" where
  "seg_seqno h g = lwip_htonl (net32 (bytes h) (seg_tcphdr g + 4))"

definition tcplen_of :: "(nat \<Rightarrow> u8) \<Rightarrow> nat \<Rightarrow> u16 \<Rightarrow> u32" where
  "tcplen_of m a n = ucast n + (if TCPH_FLAGS m a AND (TCP_FIN OR TCP_SYN) \<noteq> 0 then 1 else 0)"

definition TCP_TCPLEN :: "store \<Rightarrow> tcp_seg \<Rightarrow> u32" where
  "TCP_TCPLEN h g = tcplen_of (bytes h) (seg_tcphdr g) (seg_len g)"

section \<open>Segments\<close>

definition LWIP_TCP_OPT_LENGTH :: "u8 \<Rightarrow> u16" where
  "LWIP_TCP_OPT_LENGTH f = (if f AND TF_SEG_OPTS_MSS \<noteq> 0 then LWIP_TCP_OPT_LEN_MSS else 0)"

definition tcp_seg_free :: "'d tcp_env \<Rightarrow> tcp_seg \<Rightarrow> 'd tcp \<Rightarrow> 'd tcp option" where
  "tcp_seg_free E g s = do {
     s \<leftarrow> (if seg_p g \<noteq> 0 then free_packet (ip_env E) (seg_p g) s else Some s);
     Some (s\<lparr>free_segs := free_segs s + 1\<rparr>)
   }"

fun tcp_segs_free :: "'d tcp_env \<Rightarrow> tcp_seg list \<Rightarrow> 'd tcp \<Rightarrow> 'd tcp option" where
  "tcp_segs_free E [] s = Some s"
| "tcp_segs_free E (g # gs) s = do { s \<leftarrow> tcp_seg_free E g s; tcp_segs_free E gs s }"

text \<open>Of the interface only its MTU counts.\<close>

definition tcp_eff_send_mss :: "'d tcp_env \<Rightarrow> u16 \<Rightarrow> u32 \<Rightarrow> u16" where
  "tcp_eff_send_mss E sendmss dest =
     (let outif = ip4_route (ip_env E) dest;
          m = of_nat (mtu (iface (ip_env E) outif)) :: u16
      in if outif = 0 \<or> m = 0 then sendmss else min sendmss (m - of_nat IP_HLEN - TCP_HLEN))"

end
