(* ===== verification/Tcp_Out.thy ===== *)
theory Tcp_Out
  imports Tcp
begin

text \<open>
  \<^verbatim>\<open>src/STM32/Bootloader/User/lwip-2.0.3/src/core/tcp_out.c\<close>. A function takes the address of its control block; where the source
  returns a pointer, 0 (or \<open>None\<close> for a segment) is the null pointer.
\<close>

unbundle bit_operations_syntax

definition TCP_WRITE_FLAG_COPY :: u8 where "TCP_WRITE_FLAG_COPY = 0x01"
definition TCP_WRITE_FLAG_MORE :: u8 where "TCP_WRITE_FLAG_MORE = 0x02"

section \<open>Single segments\<close>

definition tcp_output_alloc_header :: "'d tcp_env \<Rightarrow> nat \<Rightarrow> u16 \<Rightarrow> u16 \<Rightarrow> u32 \<Rightarrow> 'd tcp \<Rightarrow> (nat \<times> 'd tcp) option" where
  "tcp_output_alloc_header E pcb optlen datalen seqno s = do {
     (q, h) \<leftarrow> pbuf_alloc (pbufs E) PBUF_IP (TCP_HLEN + optlen + datalen) PBUF_RAM 0 (mem_of s);
     let s = s\<lparr>mem_of := h\<rparr>;
     if q = 0 then Some (0, s)
     else do {
       b \<leftarrow> pb h q;
       c \<leftarrow> pcbs s pcb;
       let h = memcpy_to (payload b) (tcp_hdr (local_port c) (remote_port c) seqno (rcv_nxt c)
             (hdrlen_flags (5 + optlen div 4) TCP_ACK) (rcv_ann_wnd c)) h;
       Some (q, set_pcb pcb (c\<lparr>rcv_ann_right_edge := rcv_nxt c + ucast (rcv_ann_wnd c)\<rparr>) (s\<lparr>mem_of := h\<rparr>))
     }
   }"

text \<open>Routing and sending a packet of the connection, and giving up the reference to it.\<close>

definition send_and_free :: "'d tcp_env \<Rightarrow> nat \<Rightarrow> u32 \<Rightarrow> u32 \<Rightarrow> u8 \<Rightarrow> u8 \<Rightarrow> 'd tcp \<Rightarrow> (err_t \<times> 'd tcp) option" where
  "send_and_free E q loc rem tt ts s = do {
     let netif = ip4_route (ip_env E) rem;
     (e, s) \<leftarrow> (if netif = 0 then Some (ERR_RTE, s) else ip4_output_if (ip_env E) q (Some loc) (Some rem) tt ts IP_PROTO_TCP netif s);
     s \<leftarrow> free_packet (ip_env E) q s;
     Some (e, s)
   }"

definition tcp_send_empty_ack :: "'d tcp_env \<Rightarrow> nat \<Rightarrow> 'd tcp \<Rightarrow> (err_t \<times> 'd tcp) option" where
  "tcp_send_empty_ack E pcb s = do {
     c \<leftarrow> pcbs s pcb;
     (q, s) \<leftarrow> tcp_output_alloc_header E pcb 0 0 (snd_nxt c) s;
     if q = 0 then do {
       s \<leftarrow> upd_pcb pcb (set_tflags (TF_ACK_DELAY OR TF_ACK_NOW)) s;
       Some (ERR_BUF, s)
     }
     else do {
       (e, s) \<leftarrow> send_and_free E q (local_ip c) (remote_ip c) (ttl c) (tos c) s;
       s \<leftarrow> upd_pcb pcb ((if e \<noteq> ERR_OK then set_tflags else clear_tflags) (TF_ACK_DELAY OR TF_ACK_NOW)) s;
       Some (e, s)
     }
   }"

definition tcp_rst :: "'d tcp_env \<Rightarrow> u32 \<Rightarrow> u32 \<Rightarrow> u32 \<Rightarrow> u32 \<Rightarrow> u16 \<Rightarrow> u16 \<Rightarrow> 'd tcp \<Rightarrow> 'd tcp option" where
  "tcp_rst E seqno ackno loc rem lport rport s = do {
     (q, h) \<leftarrow> pbuf_alloc (pbufs E) PBUF_IP TCP_HLEN PBUF_RAM 0 (mem_of s);
     let s = s\<lparr>mem_of := h\<rparr>;
     if q = 0 then Some s
     else do {
       b \<leftarrow> pb h q;
       let s = s\<lparr>mem_of := memcpy_to (payload b) (tcp_hdr lport rport seqno ackno (hdrlen_flags (TCP_HLEN div 4) (TCP_RST OR TCP_ACK)) TCP_WND) h\<rparr>;
       (e, s) \<leftarrow> send_and_free E q loc rem TCP_TTL 0 s;
       Some s
     }
   }"

definition tcp_keepalive :: "'d tcp_env \<Rightarrow> nat \<Rightarrow> 'd tcp \<Rightarrow> (err_t \<times> 'd tcp) option" where
  "tcp_keepalive E pcb s = do {
     c \<leftarrow> pcbs s pcb;
     (q, s) \<leftarrow> tcp_output_alloc_header E pcb 0 0 (snd_nxt c - 1) s;
     if q = 0 then Some (ERR_MEM, s) else send_and_free E q (local_ip c) (remote_ip c) (ttl c) 0 s
   }"

definition raise_snd_nxt :: "u32 \<Rightarrow> tcp_pcb \<Rightarrow> tcp_pcb" where
  "raise_snd_nxt n c = (if TCP_SEQ_LT (snd_nxt c) n then c\<lparr>snd_nxt := n\<rparr> else c)"

text \<open>One byte of the first segment that waits, or its FIN.\<close>

definition probe_segment :: "'d tcp_env \<Rightarrow> nat \<Rightarrow> tcp_seg \<Rightarrow> 'd tcp \<Rightarrow> (err_t \<times> 'd tcp) option" where
  "probe_segment E pcb g s = do {
     let is_fin = (TCPH_FLAGS (bytes (mem_of s)) (seg_tcphdr g) AND TCP_FIN \<noteq> 0 \<and> seg_len g = 0);
     (q, s) \<leftarrow> tcp_output_alloc_header E pcb 0 (if is_fin then 0 else 1) (seg_seqno (mem_of s) g) s;
     if q = 0 then Some (ERR_MEM, s)
     else do {
       b \<leftarrow> pb (mem_of s) q;
       h \<leftarrow> (if is_fin then Some (TCPH_FLAGS_SET (payload b) (TCP_ACK OR TCP_FIN) (mem_of s))
            else do {
              d \<leftarrow> pb (mem_of s) (seg_p g);
              xs \<leftarrow> pbuf_copy_partial (seg_p g) 1 (tot_len d - seg_len g) (mem_of s);
              Some (memcpy_to (payload b + unat TCP_HLEN) xs (mem_of s))
            });
       s \<leftarrow> upd_pcb pcb (raise_snd_nxt (seg_seqno h g + 1)) (s\<lparr>mem_of := h\<rparr>);
       c \<leftarrow> pcbs s pcb;
       send_and_free E q (local_ip c) (remote_ip c) (ttl c) 0 s
     }
   }"

definition tcp_zero_window_probe :: "'d tcp_env \<Rightarrow> nat \<Rightarrow> 'd tcp \<Rightarrow> (err_t \<times> 'd tcp) option" where
  "tcp_zero_window_probe E pcb s = do {
     c \<leftarrow> pcbs s pcb;
     (case unacked c @ unsent c of [] \<Rightarrow> Some (ERR_OK, s) | g # gs \<Rightarrow> probe_segment E pcb g s)
   }"

section \<open>Queueing\<close>

definition tcp_create_segment :: "'d tcp_env \<Rightarrow> nat \<Rightarrow> nat \<Rightarrow> u8 \<Rightarrow> u32 \<Rightarrow> u8 \<Rightarrow> 'd tcp \<Rightarrow> (tcp_seg option \<times> 'd tcp) option" where
  "tcp_create_segment E pcb q flags seqno optflags s = do {
     let optlen = LWIP_TCP_OPT_LENGTH optflags;
     if free_segs s = 0 then do { s \<leftarrow> free_packet (ip_env E) q s; Some (None, s) }
     else do {
       let s = s\<lparr>free_segs := free_segs s - 1\<rparr>;
       b \<leftarrow> pb (mem_of s) q;
       let g = \<lparr>seg_p = q, seg_len = tot_len b - optlen, seg_flags = optflags, seg_tcphdr = 0\<rparr>;
       (e, h) \<leftarrow> pbuf_header q (int (unat TCP_HLEN)) (mem_of s);
       let s = s\<lparr>mem_of := h\<rparr>;
       if e \<noteq> 0 then do { s \<leftarrow> tcp_seg_free E g s; Some (None, s) }
       else do {
         b \<leftarrow> pb h q;
         c \<leftarrow> pcbs s pcb;
         let a = payload b;
         let h = memcpy_to a (be16 (local_port c) @ be16 (remote_port c) @ be32 seqno) h;
         let h = memcpy_to (a + 12) (be16 (hdrlen_flags (5 + optlen div 4) flags)) h;
         let h = memcpy_to (a + 18) [0, 0] h;
         Some (Some (g\<lparr>seg_tcphdr := a\<rparr>), s\<lparr>mem_of := h\<rparr>)
       }
     }
   }"

definition queue_full :: "tcp_pcb \<Rightarrow> bool" where
  "queue_full c \<longleftrightarrow> TCP_SND_QUEUELEN \<le> snd_queuelen c \<or> TCP_SNDQUEUELEN_OVERFLOW < snd_queuelen c"

text \<open>What a new SYN or FIN at the end of the queue changes; \<open>n\<close> is the number of its pbufs.\<close>

definition enqueued :: "u8 \<Rightarrow> tcp_seg \<Rightarrow> u16 \<Rightarrow> tcp_pcb \<Rightarrow> tcp_pcb" where
  "enqueued flags g n c =
     c\<lparr>unsent := unsent c @ [g], unsent_oversize := 0,
       snd_lbb := (if flags AND TCP_SYN \<noteq> 0 \<or> flags AND TCP_FIN \<noteq> 0 then snd_lbb c + 1 else snd_lbb c),
       tflags := (if flags AND TCP_FIN \<noteq> 0 then tflags c OR TF_FIN else tflags c),
       snd_queuelen := snd_queuelen c + n\<rparr>"

definition tcp_enqueue_flags :: "'d tcp_env \<Rightarrow> nat \<Rightarrow> u8 \<Rightarrow> 'd tcp \<Rightarrow> (err_t \<times> 'd tcp) option" where
  "tcp_enqueue_flags E pcb flags s = do {
     c \<leftarrow> pcbs s pcb;
     if queue_full c \<and> flags AND TCP_FIN = 0 then Some (ERR_MEM, set_pcb pcb (set_tflags TF_NAGLEMEMERR c) s)
     else do {
       let optflags = (if flags AND TCP_SYN \<noteq> 0 then TF_SEG_OPTS_MSS else 0);
       (q, h) \<leftarrow> pbuf_alloc (pbufs E) PBUF_TRANSPORT (LWIP_TCP_OPT_LENGTH optflags) PBUF_RAM 0 (mem_of s);
       let s = s\<lparr>mem_of := h\<rparr>;
       if q = 0 then Some (ERR_MEM, set_pcb pcb (set_tflags TF_NAGLEMEMERR c) s)
       else do {
         (r, s) \<leftarrow> tcp_create_segment E pcb q flags (snd_lbb c) optflags s;
         (case r of
            None \<Rightarrow> do { s \<leftarrow> upd_pcb pcb (set_tflags TF_NAGLEMEMERR) s; Some (ERR_MEM, s) }
          | Some g \<Rightarrow> do {
              n \<leftarrow> pbuf_clen (seg_p g) (mem_of s);
              s \<leftarrow> upd_pcb pcb (enqueued flags g n) s;
              Some (ERR_OK, s)
            })
       }
     }
   }"

definition tcp_send_fin :: "'d tcp_env \<Rightarrow> nat \<Rightarrow> 'd tcp \<Rightarrow> (err_t \<times> 'd tcp) option" where
  "tcp_send_fin E pcb s = do {
     c \<leftarrow> pcbs s pcb;
     if unsent c \<noteq> [] \<and> TCPH_FLAGS (bytes (mem_of s)) (seg_tcphdr (last (unsent c))) AND (TCP_SYN OR TCP_FIN OR TCP_RST) = 0
     then Some (ERR_OK, set_pcb pcb (set_tflags TF_FIN c) (s\<lparr>mem_of := TCPH_SET_FLAG (seg_tcphdr (last (unsent c))) TCP_FIN (mem_of s)\<rparr>))
     else tcp_enqueue_flags E pcb TCP_FIN s
   }"

section \<open>Sending\<close>

definition tcp_do_output_nagle :: "tcp_pcb \<Rightarrow> bool" where
  "tcp_do_output_nagle c \<longleftrightarrow> unacked c = [] \<or> tflags c AND (TF_NODELAY OR TF_INFR) \<noteq> 0 \<or>
     (unsent c \<noteq> [] \<and> (tl (unsent c) \<noteq> [] \<or> mss c \<le> seg_len (hd (unsent c)))) \<or>
     snd_buf c = 0 \<or> TCP_SND_QUEUELEN \<le> snd_queuelen c"

text \<open>What sending the segment \<open>g\<close> changes in the control block before the packet goes to IP.\<close>

definition segment_timed :: "u32 \<Rightarrow> u32 \<Rightarrow> tcp_pcb \<Rightarrow> tcp_pcb" where
  "segment_timed ticks seqno c =
     (let c = c\<lparr>rcv_ann_right_edge := rcv_nxt c + ucast (rcv_ann_wnd c), rtime := (if sint (rtime c) < 0 then 0 else rtime c)\<rparr>
      in if rttest c = 0 then c\<lparr>rttest := ticks, rtseq := seqno\<rparr> else c)"

definition tcp_output_segment :: "'d tcp_env \<Rightarrow> tcp_seg \<Rightarrow> nat \<Rightarrow> nat \<Rightarrow> 'd tcp \<Rightarrow> (err_t \<times> 'd tcp) option" where
  "tcp_output_segment E g pcb netif s = do {
     b \<leftarrow> pb (mem_of s) (seg_p g);
     c \<leftarrow> pcbs s pcb;
     if pref b \<noteq> 1 then Some (ERR_OK, s)
     else do {
       let a = seg_tcphdr g;
       let h = memcpy_to (a + 8) (be32 (rcv_nxt c)) (mem_of s);
       let h = memcpy_to (a + 14) (be16 (rcv_ann_wnd c)) h;
       let h = (if seg_flags g AND TF_SEG_OPTS_MSS \<noteq> 0
                then memcpy_to (a + 20) (be32 (0x02040000 OR ucast (tcp_eff_send_mss E TCP_MSS (remote_ip c)))) h else h);
       let s = set_pcb pcb (segment_timed (tcp_ticks s) (seg_seqno h g) c) s;
       let n = (of_int (int a - int (payload b)) :: u16);
       let h = put_pbuf (seg_p g) (b\<lparr>plen := plen b - n, tot_len := tot_len b - n, payload := a\<rparr>) h;
       let h = memcpy_to (a + 16) [0, 0] h;
       ip4_output_if (ip_env E) (seg_p g) (Some (local_ip c)) (Some (remote_ip c)) (ttl c) (tos c) IP_PROTO_TCP netif (s\<lparr>mem_of := h\<rparr>)
     }
   }"

text \<open>Inserting a segment before the first whose number is not less.\<close>

fun seq_insert :: "store \<Rightarrow> tcp_seg \<Rightarrow> tcp_seg list \<Rightarrow> tcp_seg list" where
  "seq_insert h g [] = [g]"
| "seq_insert h g (x # xs) = (if TCP_SEQ_LT (seg_seqno h x) (seg_seqno h g) then x # seq_insert h g xs else g # x # xs)"

definition to_unacked :: "store \<Rightarrow> tcp_seg \<Rightarrow> tcp_seg list \<Rightarrow> tcp_seg list" where
  "to_unacked h g us =
     (if us = [] then [g]
      else if TCP_SEQ_LT (seg_seqno h g) (seg_seqno h (last us)) then seq_insert h g us
      else us @ [g])"

definition in_wnd :: "u32 \<Rightarrow> tcp_pcb \<Rightarrow> store \<Rightarrow> tcp_seg \<Rightarrow> bool" where
  "in_wnd wnd c h g \<longleftrightarrow> seg_seqno h g - lastack c + ucast (seg_len g) \<le> wnd"

text \<open>The loop over the unsent segments: \<open>None\<close> at its end, \<open>Some e\<close> when the function returns the error \<open>e\<close> from it.\<close>

fun output_loop :: "'d tcp_env \<Rightarrow> nat \<Rightarrow> nat \<Rightarrow> u32 \<Rightarrow> tcp_seg list \<Rightarrow> 'd tcp \<Rightarrow> (err_t option \<times> 'd tcp) option" where
  "output_loop E pcb netif wnd [] s = Some (None, s)"
| "output_loop E pcb netif wnd (g # gs) s = do {
     c \<leftarrow> pcbs s pcb;
     if \<not> in_wnd wnd c (mem_of s) g \<or> (\<not> tcp_do_output_nagle c \<and> tflags c AND (TF_NAGLEMEMERR OR TF_FIN) = 0) then Some (None, s)
     else do {
       let s = (if pcb_state c \<noteq> SYN_SENT then s\<lparr>mem_of := TCPH_SET_FLAG (seg_tcphdr g) TCP_ACK (mem_of s)\<rparr> else s);
       (e, s) \<leftarrow> tcp_output_segment E g pcb netif s;
       if e \<noteq> ERR_OK then do { s \<leftarrow> upd_pcb pcb (set_tflags TF_NAGLEMEMERR) s; Some (Some e, s) }
       else do {
         c \<leftarrow> pcbs s pcb;
         let h = mem_of s;
         let c = c\<lparr>unsent := gs\<rparr>;
         let c = (if pcb_state c \<noteq> SYN_SENT then clear_tflags (TF_ACK_DELAY OR TF_ACK_NOW) c else c);
         let c = raise_snd_nxt (seg_seqno h g + TCP_TCPLEN h g) c;
         s \<leftarrow> (if 0 < TCP_TCPLEN h g then Some (set_pcb pcb (c\<lparr>unacked := to_unacked h g (unacked c)\<rparr>) s)
              else tcp_seg_free E g (set_pcb pcb c s));
         output_loop E pcb netif wnd gs s
       }
     }
   }"

definition start_persist :: "tcp_pcb \<Rightarrow> tcp_pcb" where
  "start_persist c = (if persist_backoff c = 0 then c\<lparr>persist_cnt := 0, persist_backoff := 1\<rparr> else c)"

definition output_done :: "tcp_pcb \<Rightarrow> tcp_pcb" where
  "output_done c = clear_tflags TF_NAGLEMEMERR (c\<lparr>unsent_oversize := (if unsent c = [] then 0 else unsent_oversize c)\<rparr>)"

definition tcp_output :: "'d tcp_env \<Rightarrow> nat \<Rightarrow> 'd tcp \<Rightarrow> (err_t \<times> 'd tcp) option" where
  "tcp_output E pcb s = do {
     c \<leftarrow> pcbs s pcb;
     let wnd = (ucast (min (snd_wnd c) (cwnd c)) :: u32);
     let fits = (\<lambda>g. in_wnd wnd c (mem_of s) g);
     let netif = ip4_route (ip_env E) (remote_ip c);
     if tcp_input_pcb s = pcb then Some (ERR_OK, s)
     else if tflags c AND TF_ACK_NOW \<noteq> 0 \<and> (unsent c = [] \<or> \<not> fits (hd (unsent c))) then tcp_send_empty_ack E pcb s
     else if netif = 0 then Some (ERR_RTE, s)
     else do {
       let c = (if ip4_addr_isany (local_ip c) then c\<lparr>local_ip := netif_ip4_addr (iface (ip_env E) netif)\<rparr> else c);
       let s = set_pcb pcb c s;
       (r, s) \<leftarrow> (if unsent c \<noteq> [] \<and> \<not> fits (hd (unsent c)) \<and> 0 < wnd \<and> wnd = ucast (snd_wnd c) \<and> unacked c = []
                 then Some (None, set_pcb pcb (start_persist c) s)
                 else output_loop E pcb netif wnd (unsent c) s);
       (case r of Some e \<Rightarrow> Some (e, s)
        | None \<Rightarrow> do { s \<leftarrow> upd_pcb pcb output_done s; Some (ERR_OK, s) })
     }
   }"

section \<open>Retransmission\<close>

definition count_rexmit :: "tcp_pcb \<Rightarrow> tcp_pcb" where
  "count_rexmit c = c\<lparr>nrtx := (if nrtx c < 0xff then nrtx c + 1 else nrtx c), rttest := 0\<rparr>"

definition tcp_rexmit_rto :: "'d tcp_env \<Rightarrow> nat \<Rightarrow> 'd tcp \<Rightarrow> 'd tcp option" where
  "tcp_rexmit_rto E pcb s = do {
     c \<leftarrow> pcbs s pcb;
     if unacked c = [] then Some s
     else do {
       (e, s) \<leftarrow> tcp_output E pcb (set_pcb pcb (count_rexmit (c\<lparr>unsent := unacked c @ unsent c, unacked := []\<rparr>)) s);
       Some s
     }
   }"

text \<open>
  The place of the segment is found by the loop of \<^verbatim>\<open>tcp_rexmit\<close>; it is the last of the queue when every other has a smaller number.
\<close>

definition tcp_rexmit :: "store \<Rightarrow> tcp_pcb \<Rightarrow> tcp_pcb" where
  "tcp_rexmit h c =
     (case unacked c of [] \<Rightarrow> c
      | g # gs \<Rightarrow>
          let q = seq_insert h g (unsent c);
              at_end = list_all (\<lambda>x. TCP_SEQ_LT (seg_seqno h x) (seg_seqno h g)) (unsent c)
          in count_rexmit (c\<lparr>unacked := gs, unsent := q, unsent_oversize := (if at_end then 0 else unsent_oversize c)\<rparr>))"

definition tcp_rexmit_fast :: "store \<Rightarrow> tcp_pcb \<Rightarrow> tcp_pcb" where
  "tcp_rexmit_fast h c =
     (if unacked c \<noteq> [] \<and> tflags c AND TF_INFR = 0 then
        let c = tcp_rexmit h c;
            half = min (cwnd c) (snd_wnd c) div 2;
            half = (if unat half < 2 * unat (mss c) then 2 * mss c else half)
        in set_tflags TF_INFR (c\<lparr>ssthresh := half, cwnd := half + 3 * mss c, rtime := 0\<rparr>)
      else c)"

end
