(* ===== verification/Tcp_Write.thy ===== *)
theory Tcp_Write
  imports Tcp_Out
begin

text \<open>
  \<^verbatim>\<open>tcp_write\<close> of \<^verbatim>\<open>src/STM32/Bootloader/User/lwip-2.0.3/src/core/tcp_out.c\<close>: the data of the application is cut into segments in three
  phases. What the phases find is kept in a plan, which is carried out at the end; when memory runs out nothing of the control
  block has changed but a flag.
\<close>

unbundle bit_operations_syntax

section \<open>Plans\<close>

text \<open>
  The local variables of the function: the bytes that fit the room behind the last pbuf, the room that is left there, the pbuf to
  chain to the last segment (or 0), the bytes by which its last pbuf grows, the position in the data, the length of the queue, and
  whether the last segment is the one tampered with last.
\<close>

record write_plan =
  oversize_used :: u16
  oversize :: u16
  concat_p :: nat
  extendlen :: u16
  wpos :: u16
  queuelen :: u16
  last_touched :: bool

definition tcp_write_checks :: "tcp_pcb \<Rightarrow> u16 \<Rightarrow> err_t \<times> tcp_pcb" where
  "tcp_write_checks c n =
     (if pcb_state c \<noteq> ESTABLISHED \<and> pcb_state c \<noteq> CLOSE_WAIT \<and> pcb_state c \<noteq> SYN_SENT \<and> pcb_state c \<noteq> SYN_RCVD then (ERR_CONN, c)
      else if n = 0 then (ERR_OK, c)
      else if snd_buf c < n then (ERR_MEM, set_tflags TF_NAGLEMEMERR c)
      else if queue_full c then (ERR_MEM, set_tflags TF_NAGLEMEMERR c)
      else (ERR_OK, c))"

text \<open>Results: the pbuf (or 0), the room behind its data, the store.\<close>

definition tcp_pbuf_prealloc ::
  "pbuf_env \<Rightarrow> pbuf_layer \<Rightarrow> u16 \<Rightarrow> u16 \<Rightarrow> tcp_pcb \<Rightarrow> u8 \<Rightarrow> bool \<Rightarrow> store \<Rightarrow> (nat \<times> u16 \<times> store) option" where
  "tcp_pbuf_prealloc P layer n max_length c apiflags first_seg h = do {
     let alloc = (if n < max_length \<and> (apiflags AND TCP_WRITE_FLAG_MORE \<noteq> 0 \<or>
             (tflags c AND TF_NODELAY = 0 \<and> (\<not> first_seg \<or> unsent c \<noteq> [] \<or> unacked c \<noteq> [])))
           then of_nat (min (unat max_length) (LWIP_MEM_ALIGN_SIZE (unat n + unat TCP_OVERSIZE))) else n);
     (q, h) \<leftarrow> pbuf_alloc P layer alloc PBUF_RAM 0 h;
     if q = 0 then Some (0, 0, h)
     else do {
       b \<leftarrow> pb h q;
       Some (q, plen b - n, put_pbuf q (b\<lparr>plen := n, tot_len := n\<rparr>) h)
     }
   }"

partial_function (option) last_pbuf :: "nat \<Rightarrow> store \<Rightarrow> nat option" where
  "last_pbuf q h = (case pb h q of None \<Rightarrow> None | Some b \<Rightarrow> if pnext b \<noteq> 0 then last_pbuf (pnext b) h else Some q)"

section \<open>The phases\<close>

text \<open>Phases 1 and 2, for the last unsent segment \<open>g\<close>. The result \<open>None\<close> in the pair is the jump to \<^verbatim>\<open>memerr\<close>.\<close>

definition phase2 :: "pbuf_env \<Rightarrow> tcp_pcb \<Rightarrow> tcp_seg \<Rightarrow> nat \<Rightarrow> u16 \<Rightarrow> u8 \<Rightarrow> u16 \<Rightarrow> write_plan \<Rightarrow> store \<Rightarrow> (write_plan option \<times> store) option" where
  "phase2 P c g arg n apiflags space w h = do {
     let seglen = min space (n - wpos w);
     if apiflags AND TCP_WRITE_FLAG_COPY \<noteq> 0 then do {
       (q, ov, h) \<leftarrow> tcp_pbuf_prealloc P PBUF_RAW seglen space c apiflags True h;
       if q = 0 then Some (None, h)
       else do {
         b \<leftarrow> pb h q;
         let h = memcpy_to (payload b) (mem_slice (bytes h) (arg + unat (wpos w)) (unat seglen)) h;
         k \<leftarrow> pbuf_clen q h;
         Some (Some (w\<lparr>oversize := ov, concat_p := q, queuelen := queuelen w + k, wpos := wpos w + seglen, last_touched := True\<rparr>), h)
       }
     }
     else do {
       q \<leftarrow> last_pbuf (seg_p g) h;
       b \<leftarrow> pb h q;
       if ptype b = PBUF_ROM \<and> payload b + unat (plen b) = arg
       then Some (Some (w\<lparr>extendlen := seglen, wpos := wpos w + seglen, last_touched := True\<rparr>), h)
       else do {
         (q, h) \<leftarrow> pbuf_alloc P PBUF_RAW seglen PBUF_ROM 0 h;
         if q = 0 then Some (None, h)
         else do {
           b \<leftarrow> pb h q;
           let h = put_pbuf q (b\<lparr>payload := arg + unat (wpos w)\<rparr>) h;
           k \<leftarrow> pbuf_clen q h;
           Some (Some (w\<lparr>concat_p := q, queuelen := queuelen w + k, wpos := wpos w + seglen, last_touched := True\<rparr>), h)
         }
       }
     }
   }"

definition phase12 :: "pbuf_env \<Rightarrow> tcp_pcb \<Rightarrow> nat \<Rightarrow> u16 \<Rightarrow> u8 \<Rightarrow> u16 \<Rightarrow> store \<Rightarrow> (write_plan option \<times> store) option" where
  "phase12 P c arg n apiflags mss_local h =
     (let w = \<lparr>oversize_used = 0, oversize = 0, concat_p = 0, extendlen = 0, wpos = 0, queuelen = snd_queuelen c, last_touched = False\<rparr>
      in if unsent c = [] then Some (Some w, h)
         else let g = last (unsent c);
                  space = mss_local - (seg_len g + LWIP_TCP_OPT_LENGTH (seg_flags g));
                  ov = unsent_oversize c;
                  used = (if 0 < ov then min space (min ov n) else 0);
                  w = w\<lparr>oversize_used := used, oversize := ov - used, wpos := used, last_touched := 0 < ov\<rparr>;
                  space = space - used
              in if wpos w < n \<and> 0 < space \<and> 0 < seg_len g then phase2 P c g arg n apiflags space w h else Some (Some w, h))"

text \<open>
  Phase 3, one pass: a pbuf with its data, then a segment. \<open>Inl\<close> is the jump to \<^verbatim>\<open>memerr\<close>; \<open>gs\<close> are the segments made so far.
\<close>

definition segment_pbuf :: "pbuf_env \<Rightarrow> tcp_pcb \<Rightarrow> nat \<Rightarrow> u16 \<Rightarrow> u8 \<Rightarrow> u16 \<Rightarrow> bool \<Rightarrow> write_plan \<Rightarrow> store \<Rightarrow> (nat \<times> u16 \<times> store) option" where
  "segment_pbuf P c arg seglen apiflags mss_local first_seg w h =
     (if apiflags AND TCP_WRITE_FLAG_COPY \<noteq> 0 then do {
        (q, ov, h) \<leftarrow> tcp_pbuf_prealloc P PBUF_TRANSPORT seglen mss_local c apiflags first_seg h;
        if q = 0 then Some (0, oversize w, h)
        else do {
          b \<leftarrow> pb h q;
          Some (q, ov, memcpy_to (payload b) (mem_slice (bytes h) (arg + unat (wpos w)) (unat seglen)) h)
        }
      }
      else do {
        (q2, h) \<leftarrow> pbuf_alloc P PBUF_TRANSPORT seglen PBUF_ROM 0 h;
        if q2 = 0 then Some (0, oversize w, h)
        else do {
          b \<leftarrow> pb h q2;
          let h = put_pbuf q2 (b\<lparr>payload := arg + unat (wpos w)\<rparr>) h;
          (q, h) \<leftarrow> pbuf_alloc P PBUF_TRANSPORT 0 PBUF_RAM 0 h;
          if q = 0 then do { (k, h) \<leftarrow> pbuf_free P q2 h; Some (0, oversize w, h) }
          else do { h \<leftarrow> pbuf_cat q q2 h; Some (q, oversize w, h) }
        }
      })"

definition write_segment ::
  "'d tcp_env \<Rightarrow> nat \<Rightarrow> nat \<Rightarrow> u16 \<Rightarrow> u8 \<Rightarrow> u16 \<Rightarrow> write_plan \<Rightarrow> tcp_seg list \<Rightarrow> 'd tcp \<Rightarrow>
     ((write_plan \<times> tcp_seg list \<times> 'd tcp) + write_plan \<times> tcp_seg list \<times> 'd tcp) option" where
  "write_segment E pcb arg n apiflags mss_local w gs s = do {
     c \<leftarrow> pcbs s pcb;
     let seglen = min (n - wpos w) mss_local;
     (q, ov, h) \<leftarrow> segment_pbuf (pbufs E) c arg seglen apiflags mss_local (gs = []) w (mem_of s);
     let s = s\<lparr>mem_of := h\<rparr>;
     if q = 0 then Some (Inl (w, gs, s))
     else do {
       k \<leftarrow> pbuf_clen q h;
       let w = w\<lparr>oversize := ov, queuelen := queuelen w + k\<rparr>;
       if TCP_SND_QUEUELEN < queuelen w \<or> TCP_SNDQUEUELEN_OVERFLOW < queuelen w then do {
         s \<leftarrow> free_packet (ip_env E) q s;
         Some (Inl (w, gs, s))
       }
       else do {
         (r, s) \<leftarrow> tcp_create_segment E pcb q 0 (snd_lbb c + ucast (wpos w)) 0 s;
         (case r of None \<Rightarrow> Some (Inl (w, gs, s))
          | Some g \<Rightarrow> Some (Inr (w\<lparr>wpos := wpos w + seglen\<rparr>, gs @ [g], s)))
       }
     }
   }"

partial_function (option) phase3 ::
  "'d tcp_env \<Rightarrow> nat \<Rightarrow> nat \<Rightarrow> u16 \<Rightarrow> u8 \<Rightarrow> u16 \<Rightarrow> write_plan \<Rightarrow> tcp_seg list \<Rightarrow> 'd tcp \<Rightarrow>
     ((write_plan \<times> tcp_seg list \<times> 'd tcp) + write_plan \<times> tcp_seg list \<times> 'd tcp) option" where
  "phase3 E pcb arg n apiflags mss_local w gs s =
     (if wpos w < n then
        case write_segment E pcb arg n apiflags mss_local w gs s of
          None \<Rightarrow> None
        | Some (Inl r) \<Rightarrow> Some (Inl r)
        | Some (Inr (w, gs, s)) \<Rightarrow> phase3 E pcb arg n apiflags mss_local w gs s
      else Some (Inr (w, gs, s)))"

section \<open>Carrying out the plan\<close>

text \<open>The loops over the pbufs of the last segment: all grow in total, the last also in length.\<close>

partial_function (option) grow_chain :: "u16 \<Rightarrow> nat \<Rightarrow> store \<Rightarrow> (pbuf \<times> store) option" where
  "grow_chain n q h =
     (case pb h q of None \<Rightarrow> None
      | Some b \<Rightarrow>
          if pnext b \<noteq> 0 then grow_chain n (pnext b) (put_pbuf q (b\<lparr>tot_len := tot_len b + n\<rparr>) h)
          else Some (b, put_pbuf q (b\<lparr>tot_len := tot_len b + n, plen := plen b + n\<rparr>) h))"

definition commit1 :: "tcp_seg \<Rightarrow> nat \<Rightarrow> write_plan \<Rightarrow> store \<Rightarrow> (tcp_seg \<times> store) option" where
  "commit1 g arg w h =
     (if 0 < oversize_used w then do {
        (b, h) \<leftarrow> grow_chain (oversize_used w) (seg_p g) h;
        Some (g\<lparr>seg_len := seg_len g + oversize_used w\<rparr>,
          memcpy_to (payload b + unat (plen b)) (mem_slice (bytes h) arg (unat (oversize_used w))) h)
      }
      else Some (g, h))"

definition commit2 :: "tcp_seg \<Rightarrow> write_plan \<Rightarrow> store \<Rightarrow> (tcp_seg \<times> store) option" where
  "commit2 g w h =
     (if concat_p w \<noteq> 0 then do {
        h \<leftarrow> pbuf_cat (seg_p g) (concat_p w) h;
        b \<leftarrow> pb h (concat_p w);
        Some (g\<lparr>seg_len := seg_len g + tot_len b\<rparr>, h)
      }
      else if 0 < extendlen w then do {
        (b, h) \<leftarrow> grow_chain (extendlen w) (seg_p g) h;
        Some (g\<lparr>seg_len := seg_len g + extendlen w\<rparr>, h)
      }
      else Some (g, h))"

definition commit_tail :: "tcp_seg list \<Rightarrow> nat \<Rightarrow> write_plan \<Rightarrow> store \<Rightarrow> (tcp_seg list \<times> store) option" where
  "commit_tail us arg w h =
     (if us = [] then Some ([], h)
      else do {
        (g, h) \<leftarrow> commit1 (last us) arg w h;
        (g, h) \<leftarrow> commit2 g w h;
        Some (butlast us @ [g], h)
      })"

definition commit_write :: "nat \<Rightarrow> nat \<Rightarrow> u16 \<Rightarrow> u8 \<Rightarrow> write_plan \<Rightarrow> tcp_seg list \<Rightarrow> 'd tcp \<Rightarrow> (err_t \<times> 'd tcp) option" where
  "commit_write pcb arg n apiflags w gs s = do {
     c \<leftarrow> pcbs s pcb;
     (us, h) \<leftarrow> commit_tail (unsent c) arg w (mem_of s);
     let us = us @ gs;
     let h = (if (gs \<noteq> [] \<or> last_touched w) \<and> seg_tcphdr (last us) \<noteq> 0 \<and> apiflags AND TCP_WRITE_FLAG_MORE = 0
              then TCPH_SET_FLAG (seg_tcphdr (last us)) TCP_PSH h else h);
     Some (ERR_OK, set_pcb pcb (c\<lparr>unsent := us, unsent_oversize := oversize w, snd_lbb := snd_lbb c + ucast n, snd_buf := snd_buf c - n,
       snd_queuelen := queuelen w\<rparr>) (s\<lparr>mem_of := h\<rparr>))
   }"

definition write_memerr :: "'d tcp_env \<Rightarrow> nat \<Rightarrow> nat \<Rightarrow> tcp_seg list \<Rightarrow> 'd tcp \<Rightarrow> (err_t \<times> 'd tcp) option" where
  "write_memerr E pcb q gs s = do {
     s \<leftarrow> upd_pcb pcb (set_tflags TF_NAGLEMEMERR) s;
     s \<leftarrow> (if q \<noteq> 0 then free_packet (ip_env E) q s else Some s);
     s \<leftarrow> tcp_segs_free E gs s;
     Some (ERR_MEM, s)
   }"

definition mss_for_write :: "tcp_pcb \<Rightarrow> u16" where
  "mss_for_write c = (let m = min (mss c) (snd_wnd_max c div 2) in if m = 0 then mss c else m)"

definition tcp_write :: "'d tcp_env \<Rightarrow> nat \<Rightarrow> nat \<Rightarrow> u16 \<Rightarrow> u8 \<Rightarrow> 'd tcp \<Rightarrow> (err_t \<times> 'd tcp) option" where
  "tcp_write E pcb arg n apiflags s = do {
     c \<leftarrow> pcbs s pcb;
     let mss_local = mss_for_write c;
     if arg = 0 then Some (ERR_ARG, s)
     else do {
       let (e, c') = tcp_write_checks c n;
       let s = set_pcb pcb c' s;
       if e \<noteq> ERR_OK then Some (e, s)
       else do {
         (r, h) \<leftarrow> phase12 (pbufs E) c' arg n apiflags mss_local (mem_of s);
         let s = s\<lparr>mem_of := h\<rparr>;
         (case r of None \<Rightarrow> write_memerr E pcb 0 [] s
          | Some w \<Rightarrow> do {
              r \<leftarrow> phase3 E pcb arg n apiflags mss_local w [] s;
              (case r of Inl (w, gs, s) \<Rightarrow> write_memerr E pcb (concat_p w) gs s
               | Inr (w, gs, s) \<Rightarrow> commit_write pcb arg n apiflags w gs s)
            })
       }
     }
   }"

end
