(* ===== verification/Tcp_Pcb.thy ===== *)
theory Tcp_Pcb
  imports Tcp_Write
begin

text \<open>
  \<^verbatim>\<open>src/STM32/Bootloader/User/lwip-2.0.3/src/core/tcp.c\<close>: the life of the control blocks. A list of control blocks is
  the list of their addresses, in the order of the \<^verbatim>\<open>next\<close> pointers; the source removes a block only from a list it is in. A block in state
  \<^verbatim>\<open>LISTEN\<close> is one of \<open>lpcbs\<close>.
\<close>

unbundle bit_operations_syntax

section \<open>Lists and pools\<close>

datatype pcb_list = BOUND | ACTIVE | TW

fun on_list :: "pcb_list \<Rightarrow> (nat list \<Rightarrow> nat list) \<Rightarrow> 'd tcp \<Rightarrow> 'd tcp" where
  "on_list BOUND f s = s\<lparr>tcp_bound_pcbs := f (tcp_bound_pcbs s)\<rparr>"
| "on_list ACTIVE f s = s\<lparr>tcp_active_pcbs := f (tcp_active_pcbs s)\<rparr>"
| "on_list TW f s = s\<lparr>tcp_tw_pcbs := f (tcp_tw_pcbs s)\<rparr>"

definition TCP_REG :: "'d tcp_env \<Rightarrow> pcb_list \<Rightarrow> nat \<Rightarrow> 'd tcp \<Rightarrow> 'd tcp" where
  "TCP_REG E l p s = timer_needed E (on_list l (\<lambda>ps. p # ps) s)"

definition TCP_RMV :: "pcb_list \<Rightarrow> nat \<Rightarrow> 'd tcp \<Rightarrow> 'd tcp" where
  "TCP_RMV l p s = on_list l (remove1 p) s"

definition TCP_REG_ACTIVE :: "'d tcp_env \<Rightarrow> nat \<Rightarrow> 'd tcp \<Rightarrow> 'd tcp" where
  "TCP_REG_ACTIVE E p s = (TCP_REG E ACTIVE p s)\<lparr>tcp_active_pcbs_changed := True\<rparr>"

definition TCP_RMV_ACTIVE :: "nat \<Rightarrow> 'd tcp \<Rightarrow> 'd tcp" where
  "TCP_RMV_ACTIVE p s = (TCP_RMV ACTIVE p s)\<lparr>tcp_active_pcbs_changed := True\<rparr>"

definition free_pcb :: "nat \<Rightarrow> 'd tcp \<Rightarrow> 'd tcp" where
  "free_pcb p s = s\<lparr>pcbs := (pcbs s)(p := None), free_pcbs := p # free_pcbs s\<rparr>"

definition free_lpcb :: "nat \<Rightarrow> 'd tcp \<Rightarrow> 'd tcp" where
  "free_lpcb p s = s\<lparr>lpcbs := (lpcbs s)(p := None), free_lpcbs := p # free_lpcbs s\<rparr>"

section \<open>Events\<close>

definition TCP_EVENT_ERR :: "'d tcp_env \<Rightarrow> callback \<Rightarrow> nat \<Rightarrow> err_t \<Rightarrow> 'd tcp \<Rightarrow> 'd tcp option" where
  "TCP_EVENT_ERR E f arg e s = (case f of APP_FN k \<Rightarrow> app_err E k arg e s | _ \<Rightarrow> Some s)"

definition TCP_EVENT_SENT :: "'d tcp_env \<Rightarrow> nat \<Rightarrow> u16 \<Rightarrow> 'd tcp \<Rightarrow> (err_t \<times> 'd tcp) option" where
  "TCP_EVENT_SENT E pcb space s = do {
     c \<leftarrow> pcbs s pcb;
     (case sent_fn c of APP_FN k \<Rightarrow> app_sent E k (callback_arg c) pcb space s | _ \<Rightarrow> Some (ERR_OK, s))
   }"

definition TCP_EVENT_CONNECTED :: "'d tcp_env \<Rightarrow> nat \<Rightarrow> err_t \<Rightarrow> 'd tcp \<Rightarrow> (err_t \<times> 'd tcp) option" where
  "TCP_EVENT_CONNECTED E pcb e s = do {
     c \<leftarrow> pcbs s pcb;
     (case connected_fn c of APP_FN k \<Rightarrow> app_connected E k (callback_arg c) pcb e s | _ \<Rightarrow> Some (ERR_OK, s))
   }"

definition TCP_EVENT_POLL :: "'d tcp_env \<Rightarrow> nat \<Rightarrow> 'd tcp \<Rightarrow> (err_t \<times> 'd tcp) option" where
  "TCP_EVENT_POLL E pcb s = do {
     c \<leftarrow> pcbs s pcb;
     (case poll_fn c of APP_FN k \<Rightarrow> app_poll E k (callback_arg c) pcb s | _ \<Rightarrow> Some (ERR_OK, s))
   }"

section \<open>Windows\<close>

text \<open>The control block and by how much the announced window would grow.\<close>

definition tcp_update_rcv_ann_wnd :: "tcp_pcb \<Rightarrow> u32 \<times> tcp_pcb" where
  "tcp_update_rcv_ann_wnd c =
     (let new_right_edge = rcv_nxt c + ucast (rcv_wnd c)
      in if TCP_SEQ_GEQ new_right_edge (rcv_ann_right_edge c + ucast (min (TCP_WND div 2) (mss c)))
         then (new_right_edge - rcv_ann_right_edge c, c\<lparr>rcv_ann_wnd := rcv_wnd c\<rparr>)
         else if TCP_SEQ_GT (rcv_nxt c) (rcv_ann_right_edge c) then (0, c\<lparr>rcv_ann_wnd := 0\<rparr>)
         else (0, c\<lparr>rcv_ann_wnd := ucast (rcv_ann_right_edge c - rcv_nxt c)\<rparr>))"

definition grow_rcv_wnd :: "u16 \<Rightarrow> tcp_pcb \<Rightarrow> tcp_pcb" where
  "grow_rcv_wnd n c =
     (let w = rcv_wnd c + n
      in c\<lparr>rcv_wnd := (if TCP_WND < w then TCP_WND
                      else if w = 0 \<and> (pcb_state c = CLOSE_WAIT \<or> pcb_state c = LAST_ACK) then TCP_WND else w)\<rparr>)"

definition tcp_recved :: "'d tcp_env \<Rightarrow> nat \<Rightarrow> u16 \<Rightarrow> 'd tcp \<Rightarrow> 'd tcp option" where
  "tcp_recved E pcb n s = do {
     c \<leftarrow> pcbs s pcb;
     let (wnd_inflation, c) = tcp_update_rcv_ann_wnd (grow_rcv_wnd n c);
     if TCP_WND_UPDATE_THRESHOLD \<le> sint wnd_inflation then do {
       (e, s) \<leftarrow> tcp_output E pcb (set_pcb pcb (tcp_ack_now c) s);
       Some s
     }
     else Some (set_pcb pcb c s)
   }"

section \<open>Removal\<close>

definition tcp_pcb_purge :: "'d tcp_env \<Rightarrow> nat \<Rightarrow> 'd tcp \<Rightarrow> 'd tcp option" where
  "tcp_pcb_purge E pcb s = do {
     c \<leftarrow> pcbs s pcb;
     if pcb_state c \<noteq> CLOSED \<and> pcb_state c \<noteq> TIME_WAIT \<and> pcb_state c \<noteq> LISTEN then do {
       s \<leftarrow> (if refused_data c \<noteq> 0 then free_packet (ip_env E) (refused_data c) s else Some s);
       s \<leftarrow> tcp_segs_free E (unsent c) s;
       s \<leftarrow> tcp_segs_free E (unacked c) s;
       Some (set_pcb pcb (c\<lparr>refused_data := 0, rtime := -1, unsent := [], unacked := [], unsent_oversize := 0\<rparr>) s)
     }
     else Some s
   }"

definition tcp_pcb_remove :: "'d tcp_env \<Rightarrow> pcb_list \<Rightarrow> nat \<Rightarrow> 'd tcp \<Rightarrow> 'd tcp option" where
  "tcp_pcb_remove E l pcb s = do {
     s \<leftarrow> tcp_pcb_purge E pcb (TCP_RMV l pcb s);
     c \<leftarrow> pcbs s pcb;
     s \<leftarrow> (if pcb_state c \<noteq> TIME_WAIT \<and> pcb_state c \<noteq> LISTEN \<and> tflags c AND TF_ACK_DELAY \<noteq> 0
          then do { (e, s) \<leftarrow> tcp_output E pcb (set_pcb pcb (set_tflags TF_ACK_NOW c) s); Some s } else Some s);
     upd_pcb pcb (\<lambda>c. c\<lparr>pcb_state := CLOSED, local_port := 0\<rparr>) s
   }"

definition TCP_PCB_REMOVE_ACTIVE :: "'d tcp_env \<Rightarrow> nat \<Rightarrow> 'd tcp \<Rightarrow> 'd tcp option" where
  "TCP_PCB_REMOVE_ACTIVE E pcb s = do {
     s \<leftarrow> tcp_pcb_remove E ACTIVE pcb s;
     Some (s\<lparr>tcp_active_pcbs_changed := True\<rparr>)
   }"

text \<open>
  The queues are read from the block again after its removal from the list of active ones, which empties them.
\<close>

definition tcp_abandon :: "'d tcp_env \<Rightarrow> nat \<Rightarrow> bool \<Rightarrow> 'd tcp \<Rightarrow> 'd tcp option" where
  "tcp_abandon E pcb reset s = do {
     c \<leftarrow> pcbs s pcb;
     if pcb_state c = TIME_WAIT then do {
       s \<leftarrow> tcp_pcb_remove E TW pcb s;
       Some (free_pcb pcb s)
     }
     else do {
       s \<leftarrow> (if pcb_state c = CLOSED then Some (if local_port c \<noteq> 0 then TCP_RMV BOUND pcb s else s)
            else TCP_PCB_REMOVE_ACTIVE E pcb s);
       d \<leftarrow> pcbs s pcb;
       s \<leftarrow> tcp_segs_free E (unacked d) s;
       s \<leftarrow> tcp_segs_free E (unsent d) s;
       s \<leftarrow> (if pcb_state c \<noteq> CLOSED \<and> reset
            then tcp_rst E (snd_nxt c) (rcv_nxt c) (local_ip d) (remote_ip d) (local_port c) (remote_port d) s else Some s);
       TCP_EVENT_ERR E (err_fn c) (callback_arg c) ERR_ABRT (free_pcb pcb s)
     }
   }"

definition tcp_abort :: "'d tcp_env \<Rightarrow> nat \<Rightarrow> 'd tcp \<Rightarrow> 'd tcp option" where
  "tcp_abort E pcb s = tcp_abandon E pcb True s"

section \<open>Closing\<close>

definition tcp_remove_listener :: "nat list \<Rightarrow> nat \<Rightarrow> 'd tcp \<Rightarrow> 'd tcp" where
  "tcp_remove_listener ps lpcb s =
     s\<lparr>pcbs := (\<lambda>p. if p \<in> set ps then map_option (\<lambda>c. if listener c = lpcb then c\<lparr>listener := 0\<rparr> else c) (pcbs s p) else pcbs s p)\<rparr>"

definition tcp_listen_closed :: "nat \<Rightarrow> 'd tcp \<Rightarrow> 'd tcp" where
  "tcp_listen_closed lpcb s =
     (let s = tcp_remove_listener (tcp_bound_pcbs s) lpcb s;
          s = tcp_remove_listener (tcp_active_pcbs s) lpcb s
      in tcp_remove_listener (tcp_tw_pcbs s) lpcb s)"

definition tcp_close_shutdown_fin :: "'d tcp_env \<Rightarrow> nat \<Rightarrow> 'd tcp \<Rightarrow> (err_t \<times> 'd tcp) option" where
  "tcp_close_shutdown_fin E pcb s = do {
     c \<leftarrow> pcbs s pcb;
     if pcb_state c = SYN_RCVD \<or> pcb_state c = ESTABLISHED \<or> pcb_state c = CLOSE_WAIT then do {
       (e, s) \<leftarrow> tcp_send_fin E pcb s;
       if e = ERR_OK then do {
         s \<leftarrow> upd_pcb pcb (\<lambda>d. d\<lparr>pcb_state := (if pcb_state c = CLOSE_WAIT then LAST_ACK else FIN_WAIT_1)\<rparr>) s;
         (r, s) \<leftarrow> tcp_output E pcb s;
         Some (ERR_OK, s)
       }
       else if e = ERR_MEM then do {
         s \<leftarrow> upd_pcb pcb (set_tflags TF_CLOSEPEND) s;
         Some (ERR_OK, s)
       }
       else Some (e, s)
     }
     else Some (ERR_OK, s)
   }"

definition tcp_trigger_input_pcb_close :: "'d tcp \<Rightarrow> 'd tcp" where
  "tcp_trigger_input_pcb_close s = s\<lparr>recv_flags := recv_flags s OR TF_CLOSED\<rparr>"

text \<open>Closing a connection whose data the application has not all received.\<close>

definition close_with_reset :: "'d tcp_env \<Rightarrow> nat \<Rightarrow> tcp_pcb \<Rightarrow> 'd tcp \<Rightarrow> (err_t \<times> 'd tcp) option" where
  "close_with_reset E pcb c s = do {
     s \<leftarrow> tcp_rst E (snd_nxt c) (rcv_nxt c) (local_ip c) (remote_ip c) (local_port c) (remote_port c) s;
     s \<leftarrow> tcp_pcb_purge E pcb s;
     let s = TCP_RMV_ACTIVE pcb s;
     if pcb_state c = ESTABLISHED then do {
       s \<leftarrow> upd_pcb pcb (\<lambda>c. c\<lparr>pcb_state := TIME_WAIT\<rparr>) s;
       Some (ERR_OK, TCP_REG E TW pcb s)
     }
     else Some (ERR_OK, if tcp_input_pcb s = pcb then tcp_trigger_input_pcb_close s else free_pcb pcb s)
   }"

definition tcp_close_shutdown :: "'d tcp_env \<Rightarrow> nat \<Rightarrow> bool \<Rightarrow> 'd tcp \<Rightarrow> (err_t \<times> 'd tcp) option" where
  "tcp_close_shutdown E pcb rst_on_unacked_data s = do {
     c \<leftarrow> pcbs s pcb;
     if rst_on_unacked_data \<and> (pcb_state c = ESTABLISHED \<or> pcb_state c = CLOSE_WAIT) \<and> (refused_data c \<noteq> 0 \<or> rcv_wnd c \<noteq> TCP_WND)
     then close_with_reset E pcb c s
     else if pcb_state c = CLOSED then Some (ERR_OK, free_pcb pcb (if local_port c \<noteq> 0 then TCP_RMV BOUND pcb s else s))
     else if pcb_state c = SYN_SENT then do { s \<leftarrow> TCP_PCB_REMOVE_ACTIVE E pcb s; Some (ERR_OK, free_pcb pcb s) }
     else tcp_close_shutdown_fin E pcb s
   }"

text \<open>The branch \<^verbatim>\<open>LISTEN\<close> of the function above: nothing is queued for a listening block, so \<^verbatim>\<open>tcp_pcb_remove\<close> only unlinks it.\<close>

definition close_listen :: "nat \<Rightarrow> 'd tcp \<Rightarrow> err_t \<times> 'd tcp" where
  "close_listen lpcb s =
     (let s = tcp_listen_closed lpcb s
      in (ERR_OK, free_lpcb lpcb (s\<lparr>tcp_listen_pcbs := remove1 lpcb (tcp_listen_pcbs s)\<rparr>)))"

definition tcp_close :: "'d tcp_env \<Rightarrow> nat \<Rightarrow> 'd tcp \<Rightarrow> (err_t \<times> 'd tcp) option" where
  "tcp_close E pcb s =
     (if lpcbs s pcb \<noteq> None then Some (close_listen pcb s)
      else do {
        s \<leftarrow> upd_pcb pcb (set_tflags TF_RXCLOSED) s;
        tcp_close_shutdown E pcb True s
      })"

definition tcp_shutdown :: "'d tcp_env \<Rightarrow> nat \<Rightarrow> bool \<Rightarrow> bool \<Rightarrow> 'd tcp \<Rightarrow> (err_t \<times> 'd tcp) option" where
  "tcp_shutdown E pcb shut_rx shut_tx s =
     (if lpcbs s pcb \<noteq> None then Some (ERR_CONN, s)
      else do {
        s \<leftarrow> (if shut_rx then upd_pcb pcb (set_tflags TF_RXCLOSED) s else Some s);
        if shut_rx \<and> shut_tx then tcp_close_shutdown E pcb True s
        else do {
          c \<leftarrow> pcbs s pcb;
          s \<leftarrow> (if shut_rx \<and> refused_data c \<noteq> 0 then do {
                 s \<leftarrow> free_packet (ip_env E) (refused_data c) s;
                 Some (set_pcb pcb (c\<lparr>refused_data := 0\<rparr>) s)
               } else Some s);
          if shut_tx then
            (if pcb_state c = SYN_RCVD \<or> pcb_state c = ESTABLISHED \<or> pcb_state c = CLOSE_WAIT then tcp_close_shutdown E pcb shut_rx s
             else Some (ERR_CONN, s))
          else Some (ERR_OK, s)
        }
      })"

end
