(* ===== verification/Tcp_Api.thy ===== *)
theory Tcp_Api
  imports Tcp_Pcb
begin

text \<open>
  The rest of \<^verbatim>\<open>src/STM32/Bootloader/User/lwip-2.0.3/src/core/tcp.c\<close>: opening connections, allocating control blocks, the calls of the
  application, changes of address.
\<close>

unbundle bit_operations_syntax

section \<open>Ports\<close>

text \<open>The lists in the order of \<^verbatim>\<open>tcp_pcb_lists\<close>; the addresses in them are those of live blocks.\<close>

definition bound_to :: "'d tcp \<Rightarrow> (u16 \<Rightarrow> u32 \<Rightarrow> bool) \<Rightarrow> bool" where
  "bound_to s P \<longleftrightarrow>
     list_ex (\<lambda>p. case lpcbs s p of None \<Rightarrow> False | Some l \<Rightarrow> P (l_local_port l) (l_local_ip l)) (tcp_listen_pcbs s) \<or>
     list_ex (\<lambda>p. case pcbs s p of None \<Rightarrow> False | Some c \<Rightarrow> P (local_port c) (local_ip c)) (tcp_bound_pcbs s @ tcp_active_pcbs s @ tcp_tw_pcbs s)"

definition next_port :: "u16 \<Rightarrow> u16" where
  "next_port q = (if q = TCP_LOCAL_PORT_RANGE_END then TCP_LOCAL_PORT_RANGE_START else q + 1)"

function new_port_loop :: "u16 \<Rightarrow> 'd tcp \<Rightarrow> u16 \<times> 'd tcp" where
  "new_port_loop n s =
     (let s = s\<lparr>tcp_port := next_port (tcp_port s)\<rparr>
      in if bound_to s (\<lambda>q a. q = tcp_port s) then
           (if TCP_LOCAL_PORT_RANGE_END - TCP_LOCAL_PORT_RANGE_START < n + 1 then (0, s) else new_port_loop (n + 1) s)
         else (tcp_port s, s))"
  by pat_completeness auto
termination
proof (relation "measure (\<lambda>(n, s). unat (0x3fff - n))")
  fix n :: u16 and s x :: "'d tcp"
  assume "\<not> TCP_LOCAL_PORT_RANGE_END - TCP_LOCAL_PORT_RANGE_START < n + 1"
  then have "0x3fff - n \<noteq> 0" by (auto simp: TCP_LOCAL_PORT_RANGE_END_def TCP_LOCAL_PORT_RANGE_START_def)
  moreover have "unat (y - 1) < unat y" if "y \<noteq> 0" for y :: u16
    using that by (simp add: unat_minus_one unat_gt_0)
  moreover have "0x3fff - (n + 1) = 0x3fff - n - 1" by (simp only: diff_diff_eq)
  ultimately show "((n + 1, x), n, s) \<in> measure (\<lambda>(n, s). unat (0x3fff - n))" by (metis (no_types, lifting) case_prod_conv in_measure)
qed simp

declare new_port_loop.simps [simp del]

definition tcp_new_port :: "'d tcp \<Rightarrow> u16 \<times> 'd tcp" where
  "tcp_new_port s = new_port_loop 0 s"

section \<open>Opening\<close>

text \<open>An address of the application is \<open>None\<close> for a null pointer.\<close>

definition tcp_bind :: "'d tcp_env \<Rightarrow> nat \<Rightarrow> u32 option \<Rightarrow> u16 \<Rightarrow> 'd tcp \<Rightarrow> (err_t \<times> 'd tcp) option" where
  "tcp_bind E pcb ip port s =
     (let ip = (case ip of None \<Rightarrow> IPADDR_ANY | Some a \<Rightarrow> a)
      in if pcb = 0 \<or> lpcbs s pcb \<noteq> None then Some (ERR_VAL, s)
         else do {
           c \<leftarrow> pcbs s pcb;
           if pcb_state c \<noteq> CLOSED then Some (ERR_VAL, s)
           else do {
             let (q, s) = (if port = 0 then tcp_new_port s else (port, s));
             if q = 0 then Some (ERR_BUF, s)
             else if port \<noteq> 0 \<and> bound_to s (\<lambda>q a. q = port \<and> (ip4_addr_isany a \<or> ip4_addr_isany ip \<or> a = ip)) then Some (ERR_USE, s)
             else Some (ERR_OK, TCP_REG E BOUND pcb (set_pcb pcb (c\<lparr>local_ip := (if ip4_addr_isany ip then local_ip c else ip), local_port := q\<rparr>) s))
           }
         })"

text \<open>The new block (or 0) and the error that \<^verbatim>\<open>*err\<close> gets.\<close>

definition tcp_listen_with_backlog_and_err :: "'d tcp_env \<Rightarrow> nat \<Rightarrow> 'd tcp \<Rightarrow> (nat \<times> err_t \<times> 'd tcp) option" where
  "tcp_listen_with_backlog_and_err E pcb s =
     (if lpcbs s pcb \<noteq> None then Some (0, ERR_CLSD, s)
      else do {
        c \<leftarrow> pcbs s pcb;
        if pcb_state c \<noteq> CLOSED then Some (0, ERR_CLSD, s)
        else (case free_lpcbs s of
            [] \<Rightarrow> Some (0, ERR_MEM, s)
          | l # ls \<Rightarrow>
              let lp = \<lparr>l_local_ip = local_ip c, l_so_options = so_options c, l_tos = tos c, l_ttl = ttl c, l_callback_arg = callback_arg c,
                    l_prio = prio c, l_local_port = local_port c, accept_fn = DEFAULT_FN\<rparr>;
                  s = s\<lparr>free_lpcbs := ls, lpcbs := (lpcbs s)(l \<mapsto> lp)\<rparr>;
                  s = free_pcb pcb (if local_port c \<noteq> 0 then TCP_RMV BOUND pcb s else s)
              in Some (l, ERR_OK, timer_needed E (s\<lparr>tcp_listen_pcbs := l # tcp_listen_pcbs s\<rparr>)))
      })"

definition tcp_listen_with_backlog :: "'d tcp_env \<Rightarrow> nat \<Rightarrow> 'd tcp \<Rightarrow> (nat \<times> 'd tcp) option" where
  "tcp_listen_with_backlog E pcb s = do { (l, e, s) \<leftarrow> tcp_listen_with_backlog_and_err E pcb s; Some (l, s) }"

definition tcp_next_iss :: "'d tcp \<Rightarrow> u32 \<times> 'd tcp" where
  "tcp_next_iss s = (let iss = tcp_iss s + tcp_ticks s in (iss, s\<lparr>tcp_iss := iss\<rparr>))"

definition connecting :: "'d tcp_env \<Rightarrow> u32 \<Rightarrow> callback \<Rightarrow> tcp_pcb \<Rightarrow> tcp_pcb" where
  "connecting E iss f c =
     c\<lparr>rcv_nxt := 0, snd_nxt := iss, lastack := iss - 1, snd_wl2 := iss - 1, snd_lbb := iss - 1, rcv_wnd := TCP_WND, rcv_ann_wnd := TCP_WND,
       rcv_ann_right_edge := 0, snd_wnd := TCP_WND, mss := tcp_eff_send_mss E INITIAL_MSS (remote_ip c), cwnd := 1, connected_fn := f\<rparr>"

definition connect_syn :: "'d tcp_env \<Rightarrow> nat \<Rightarrow> u16 \<Rightarrow> callback \<Rightarrow> 'd tcp \<Rightarrow> (err_t \<times> 'd tcp) option" where
  "connect_syn E pcb old_local_port f s = do {
     let (iss, s) = tcp_next_iss s;
     s \<leftarrow> upd_pcb pcb (connecting E iss f) s;
     (ret, s) \<leftarrow> tcp_enqueue_flags E pcb TCP_SYN s;
     if ret \<noteq> ERR_OK then Some (ret, s)
     else do {
       s \<leftarrow> upd_pcb pcb (\<lambda>c. c\<lparr>pcb_state := SYN_SENT\<rparr>) s;
       let s = (if old_local_port \<noteq> 0 then TCP_RMV BOUND pcb s else s);
       (e, s) \<leftarrow> tcp_output E pcb (TCP_REG_ACTIVE E pcb s);
       Some (ret, s)
     }
   }"

definition tcp_connect :: "'d tcp_env \<Rightarrow> nat \<Rightarrow> u32 option \<Rightarrow> u16 \<Rightarrow> callback \<Rightarrow> 'd tcp \<Rightarrow> (err_t \<times> 'd tcp) option" where
  "tcp_connect E pcb ip port f s =
     (case ip of
        None \<Rightarrow> Some (ERR_VAL, s)
      | Some ip \<Rightarrow>
          if pcb = 0 then Some (ERR_VAL, s)
          else if lpcbs s pcb \<noteq> None then Some (ERR_ISCONN, s)
          else do {
            c \<leftarrow> pcbs s pcb;
            let c' = c\<lparr>remote_ip := ip, remote_port := port\<rparr>;
            let netif = ip4_route (ip_env E) ip;
            if pcb_state c \<noteq> CLOSED then Some (ERR_ISCONN, s)
            else if ip4_addr_isany (local_ip c) \<and> netif = 0 then Some (ERR_RTE, set_pcb pcb c' s)
            else do {
              let c' = (if ip4_addr_isany (local_ip c) then c'\<lparr>local_ip := netif_ip4_addr (iface (ip_env E) netif)\<rparr> else c');
              let (q, s) = (if local_port c = 0 then tcp_new_port (set_pcb pcb c' s) else (local_port c, s));
              let s = set_pcb pcb (c'\<lparr>local_port := q\<rparr>) s;
              if q = 0 then Some (ERR_BUF, s) else connect_syn E pcb (local_port c) f s
            }
          })"

section \<open>Allocation\<close>

text \<open>The last block of a list that has waited at least as long as those before it.\<close>

fun oldest_pcb :: "'d tcp \<Rightarrow> (tcp_pcb \<Rightarrow> bool) \<Rightarrow> u32 \<Rightarrow> nat \<Rightarrow> nat list \<Rightarrow> nat" where
  "oldest_pcb s P inactivity best [] = best"
| "oldest_pcb s P inactivity best (p # ps) =
     (case pcbs s p of None \<Rightarrow> oldest_pcb s P inactivity best ps
      | Some c \<Rightarrow> if P c \<and> inactivity \<le> tcp_ticks s - tmr c then oldest_pcb s P (tcp_ticks s - tmr c) p ps else oldest_pcb s P inactivity best ps)"

fun oldest_prio :: "'d tcp \<Rightarrow> u8 \<Rightarrow> u32 \<Rightarrow> nat \<Rightarrow> nat list \<Rightarrow> nat" where
  "oldest_prio s mprio inactivity best [] = best"
| "oldest_prio s mprio inactivity best (p # ps) =
     (case pcbs s p of None \<Rightarrow> oldest_prio s mprio inactivity best ps
      | Some c \<Rightarrow> if prio c \<le> mprio \<and> inactivity \<le> tcp_ticks s - tmr c then oldest_prio s (prio c) (tcp_ticks s - tmr c) p ps
                 else oldest_prio s mprio inactivity best ps)"

definition tcp_kill_prio :: "'d tcp_env \<Rightarrow> u8 \<Rightarrow> 'd tcp \<Rightarrow> 'd tcp option" where
  "tcp_kill_prio E pr s =
     (let p = oldest_prio s (min TCP_PRIO_MAX pr) 0 0 (tcp_active_pcbs s) in if p \<noteq> 0 then tcp_abort E p s else Some s)"

definition tcp_kill_state :: "'d tcp_env \<Rightarrow> tcp_state \<Rightarrow> 'd tcp \<Rightarrow> 'd tcp option" where
  "tcp_kill_state E st s =
     (let p = oldest_pcb s (\<lambda>c. pcb_state c = st) 0 0 (tcp_active_pcbs s) in if p \<noteq> 0 then tcp_abandon E p False s else Some s)"

definition tcp_kill_timewait :: "'d tcp_env \<Rightarrow> 'd tcp \<Rightarrow> 'd tcp option" where
  "tcp_kill_timewait E s = (let p = oldest_pcb s (\<lambda>c. True) 0 0 (tcp_tw_pcbs s) in if p \<noteq> 0 then tcp_abort E p s else Some s)"

definition new_pcb :: "u8 \<Rightarrow> u32 \<Rightarrow> u8 \<Rightarrow> tcp_pcb" where
  "new_pcb pr ticks ctr =
     \<lparr>local_ip = 0, remote_ip = 0, so_options = 0, tos = 0, ttl = TCP_TTL, callback_arg = 0, pcb_state = CLOSED, prio = pr, local_port = 0,
      remote_port = 0, tflags = 0, polltmr = 0, pollinterval = 0, last_timer = ctr, tmr = ticks, rcv_nxt = 0, rcv_wnd = TCP_WND,
      rcv_ann_wnd = TCP_WND, rcv_ann_right_edge = 0, rtime = -1, mss = INITIAL_MSS, rttest = 0, rtseq = 0, sa = 0,
      sv = ucast (3000 div TCP_SLOW_INTERVAL), rto = ucast (3000 div TCP_SLOW_INTERVAL), nrtx = 0, dupacks = 0, lastack = 0, cwnd = 1,
      ssthresh = TCP_SND_BUF, snd_nxt = 0, snd_wl1 = 0, snd_wl2 = 0, snd_lbb = 0, snd_wnd = 0, snd_wnd_max = 0, snd_buf = TCP_SND_BUF,
      snd_queuelen = 0, unsent_oversize = 0, unsent = [], unacked = [], refused_data = 0, listener = 0, sent_fn = NULL_FN,
      recv_fn = DEFAULT_FN, connected_fn = NULL_FN, poll_fn = NULL_FN, err_fn = NULL_FN, keep_idle = TCP_KEEPIDLE_DEFAULT,
      persist_cnt = 0, persist_backoff = 0, keep_cnt_sent = 0\<rparr>"

text \<open>What is tried, in this order, while the pool is empty.\<close>

definition make_room :: "'d tcp_env \<Rightarrow> u8 \<Rightarrow> 'd tcp \<Rightarrow> 'd tcp option" where
  "make_room E pr s = do {
     s \<leftarrow> (if free_pcbs s = [] then tcp_kill_timewait E s else Some s);
     s \<leftarrow> (if free_pcbs s = [] then tcp_kill_state E LAST_ACK s else Some s);
     s \<leftarrow> (if free_pcbs s = [] then tcp_kill_state E CLOSING s else Some s);
     if free_pcbs s = [] then tcp_kill_prio E pr s else Some s
   }"

definition tcp_alloc :: "'d tcp_env \<Rightarrow> u8 \<Rightarrow> 'd tcp \<Rightarrow> (nat \<times> 'd tcp) option" where
  "tcp_alloc E pr s = do {
     s \<leftarrow> make_room E pr s;
     Some (case free_pcbs s of [] \<Rightarrow> (0, s)
       | p # ps \<Rightarrow> (p, s\<lparr>free_pcbs := ps, pcbs := (pcbs s)(p \<mapsto> new_pcb pr (tcp_ticks s) (tcp_timer_ctr s))\<rparr>))
   }"

definition tcp_new :: "'d tcp_env \<Rightarrow> 'd tcp \<Rightarrow> (nat \<times> 'd tcp) option" where
  "tcp_new E s = tcp_alloc E TCP_PRIO_NORMAL s"

section \<open>Calls of the application\<close>

definition tcp_setprio :: "nat \<Rightarrow> u8 \<Rightarrow> 'd tcp \<Rightarrow> 'd tcp option" where
  "tcp_setprio pcb pr s = upd_pcb pcb (\<lambda>c. c\<lparr>prio := pr\<rparr>) s"

definition tcp_arg :: "nat \<Rightarrow> nat \<Rightarrow> 'd tcp \<Rightarrow> 'd tcp option" where
  "tcp_arg pcb arg s =
     (if pcb = 0 then Some s
      else case lpcbs s pcb of Some l \<Rightarrow> Some (s\<lparr>lpcbs := (lpcbs s)(pcb \<mapsto> l\<lparr>l_callback_arg := arg\<rparr>)\<rparr>)
        | None \<Rightarrow> upd_pcb pcb (\<lambda>c. c\<lparr>callback_arg := arg\<rparr>) s)"

definition tcp_recv :: "nat \<Rightarrow> callback \<Rightarrow> 'd tcp \<Rightarrow> 'd tcp option" where
  "tcp_recv pcb f s = (if pcb = 0 then Some s else upd_pcb pcb (\<lambda>c. c\<lparr>recv_fn := f\<rparr>) s)"

definition tcp_sent :: "nat \<Rightarrow> callback \<Rightarrow> 'd tcp \<Rightarrow> 'd tcp option" where
  "tcp_sent pcb f s = (if pcb = 0 then Some s else upd_pcb pcb (\<lambda>c. c\<lparr>sent_fn := f\<rparr>) s)"

definition tcp_err :: "nat \<Rightarrow> callback \<Rightarrow> 'd tcp \<Rightarrow> 'd tcp option" where
  "tcp_err pcb f s = (if pcb = 0 then Some s else upd_pcb pcb (\<lambda>c. c\<lparr>err_fn := f\<rparr>) s)"

definition tcp_accept :: "nat \<Rightarrow> callback \<Rightarrow> 'd tcp \<Rightarrow> 'd tcp" where
  "tcp_accept pcb f s = (case lpcbs s pcb of Some l \<Rightarrow> s\<lparr>lpcbs := (lpcbs s)(pcb \<mapsto> l\<lparr>accept_fn := f\<rparr>)\<rparr> | None \<Rightarrow> s)"

definition tcp_poll :: "nat \<Rightarrow> callback \<Rightarrow> u8 \<Rightarrow> 'd tcp \<Rightarrow> 'd tcp option" where
  "tcp_poll pcb f n s = upd_pcb pcb (\<lambda>c. c\<lparr>poll_fn := f, pollinterval := n\<rparr>) s"

section \<open>Default callbacks and received data\<close>

definition tcp_recv_null :: "'d tcp_env \<Rightarrow> nat \<Rightarrow> nat \<Rightarrow> err_t \<Rightarrow> 'd tcp \<Rightarrow> (err_t \<times> 'd tcp) option" where
  "tcp_recv_null E pcb p e s =
     (if p \<noteq> 0 then do {
        b \<leftarrow> pb (mem_of s) p;
        s \<leftarrow> tcp_recved E pcb (tot_len b) s;
        s \<leftarrow> free_packet (ip_env E) p s;
        Some (ERR_OK, s)
      }
      else if e = ERR_OK then tcp_close E pcb s
      else Some (ERR_OK, s))"

definition TCP_EVENT_RECV :: "'d tcp_env \<Rightarrow> nat \<Rightarrow> nat \<Rightarrow> err_t \<Rightarrow> 'd tcp \<Rightarrow> (err_t \<times> 'd tcp) option" where
  "TCP_EVENT_RECV E pcb p e s = do {
     c \<leftarrow> pcbs s pcb;
     (case recv_fn c of APP_FN k \<Rightarrow> app_recv E k (callback_arg c) pcb p e s | _ \<Rightarrow> tcp_recv_null E pcb p e s)
   }"

definition TCP_EVENT_CLOSED :: "'d tcp_env \<Rightarrow> nat \<Rightarrow> 'd tcp \<Rightarrow> (err_t \<times> 'd tcp) option" where
  "TCP_EVENT_CLOSED E pcb s = do {
     c \<leftarrow> pcbs s pcb;
     (case recv_fn c of APP_FN k \<Rightarrow> app_recv E k (callback_arg c) pcb 0 ERR_OK s
      | DEFAULT_FN \<Rightarrow> tcp_recv_null E pcb 0 ERR_OK s | NULL_FN \<Rightarrow> Some (ERR_OK, s))
   }"

definition tcp_accept_null :: "'d tcp_env \<Rightarrow> nat \<Rightarrow> 'd tcp \<Rightarrow> (err_t \<times> 'd tcp) option" where
  "tcp_accept_null E pcb s = do { s \<leftarrow> tcp_abort E pcb s; Some (ERR_ABRT, s) }"

definition TCP_EVENT_ACCEPT :: "'d tcp_env \<Rightarrow> nat \<Rightarrow> nat \<Rightarrow> nat \<Rightarrow> err_t \<Rightarrow> 'd tcp \<Rightarrow> (err_t \<times> 'd tcp) option" where
  "TCP_EVENT_ACCEPT E lpcb pcb arg e s = do {
     l \<leftarrow> lpcbs s lpcb;
     (case accept_fn l of APP_FN k \<Rightarrow> app_accept E k arg pcb e s
      | DEFAULT_FN \<Rightarrow> tcp_accept_null E pcb s | NULL_FN \<Rightarrow> Some (ERR_ARG, s))
   }"

text \<open>The FIN takes a place in the window that the application does not give back.\<close>

definition fin_wnd :: "tcp_pcb \<Rightarrow> tcp_pcb" where
  "fin_wnd c = (if rcv_wnd c \<noteq> TCP_WND then c\<lparr>rcv_wnd := rcv_wnd c + 1\<rparr> else c)"

definition tcp_process_refused_data :: "'d tcp_env \<Rightarrow> nat \<Rightarrow> 'd tcp \<Rightarrow> (err_t \<times> 'd tcp) option" where
  "tcp_process_refused_data E pcb s = do {
     c \<leftarrow> pcbs s pcb;
     let p = refused_data c;
     b \<leftarrow> pb (mem_of s) p;
     (e, s) \<leftarrow> TCP_EVENT_RECV E pcb p ERR_OK (set_pcb pcb (c\<lparr>refused_data := 0\<rparr>) s);
     if e = ERR_OK then
       (if pflags b AND PBUF_FLAG_TCP_FIN \<noteq> 0 then do {
          s \<leftarrow> upd_pcb pcb fin_wnd s;
          (e, s) \<leftarrow> TCP_EVENT_CLOSED E pcb s;
          Some (if e = ERR_ABRT then ERR_ABRT else ERR_OK, s)
        }
        else Some (ERR_OK, s))
     else if e = ERR_ABRT then Some (ERR_ABRT, s)
     else do {
       s \<leftarrow> upd_pcb pcb (\<lambda>c. c\<lparr>refused_data := p\<rparr>) s;
       Some (ERR_INPROGRESS, s)
     }
   }"

end
