(* ===== verification/Tcp_Tmr.thy ===== *)
theory Tcp_Tmr
  imports Tcp_Api
begin

text \<open>
  The timers of \<^verbatim>\<open>src/STM32/Bootloader/User/lwip-2.0.3/src/core/tcp.c\<close> and what happens when the address of an interface changes. The loops
  follow the \<^verbatim>\<open>next\<close> pointers of a list that the functions they call may change, so they may read the pointer of a block that
  is no longer in the list: then the result is \<open>None\<close>.
\<close>

unbundle bit_operations_syntax

definition tcp_backoff :: "u8 \<Rightarrow> nat" where
  "tcp_backoff n = [1, 2, 3, 4, 5, 6, 7, 7, 7, 7, 7, 7, 7] ! min (unat n) 12"

definition tcp_persist_backoff :: "u8 list" where
  "tcp_persist_backoff = [3, 6, 12, 24, 48, 96, 120]"

fun next_of :: "nat \<Rightarrow> nat list \<Rightarrow> nat option" where
  "next_of p [] = None"
| "next_of p (x # xs) = (if x = p then Some (case xs of [] \<Rightarrow> 0 | y # ys \<Rightarrow> y) else next_of p xs)"

definition first_of :: "nat list \<Rightarrow> nat" where
  "first_of ps = (case ps of [] \<Rightarrow> 0 | p # _ \<Rightarrow> p)"

text \<open>The assignment \<^verbatim>\<open>prev->next = pcb->next\<close>, or \<^verbatim>\<open>tcp_active_pcbs = pcb->next\<close> when \<open>prev\<close> is 0.\<close>

definition unlink :: "nat \<Rightarrow> nat \<Rightarrow> nat list \<Rightarrow> nat list" where
  "unlink prev p ps =
     (if prev = 0 then tl (dropWhile (\<lambda>x. x \<noteq> p) ps)
      else takeWhile (\<lambda>x. x \<noteq> prev) ps @ prev # tl (dropWhile (\<lambda>x. x \<noteq> p) ps))"

section \<open>The slow timer\<close>

definition persist_step :: "'d tcp_env \<Rightarrow> nat \<Rightarrow> tcp_pcb \<Rightarrow> 'd tcp \<Rightarrow> 'd tcp option" where
  "persist_step E pcb c s =
     (if length tcp_persist_backoff < unat (persist_backoff c) then None
      else do {
        let backoff_cnt = tcp_persist_backoff ! (unat (persist_backoff c) - 1);
        let c = c\<lparr>persist_cnt := (if persist_cnt c < backoff_cnt then persist_cnt c + 1 else persist_cnt c)\<rparr>;
        let s = set_pcb pcb c s;
        if persist_cnt c < backoff_cnt then Some s
        else do {
          (e, s) \<leftarrow> tcp_zero_window_probe E pcb s;
          if e \<noteq> ERR_OK then Some s
          else upd_pcb pcb (\<lambda>c. c\<lparr>persist_cnt := 0,
            persist_backoff := (if unat (persist_backoff c) < length tcp_persist_backoff then persist_backoff c + 1 else persist_backoff c)\<rparr>) s
        }
      })"

definition timed_out :: "tcp_pcb \<Rightarrow> tcp_pcb" where
  "timed_out c =
     (let half = drop_bit 1 (min (cwnd c) (snd_wnd c))
      in c\<lparr>rto := (if pcb_state c \<noteq> SYN_SENT then push_bit (tcp_backoff (nrtx c)) (signed_drop_bit 3 (sa c) + sv c) else rto c),
           rtime := 0, ssthresh := (if half < push_bit 1 (mss c) then push_bit 1 (mss c) else half), cwnd := mss c\<rparr>)"

definition rexmit_step :: "'d tcp_env \<Rightarrow> nat \<Rightarrow> tcp_pcb \<Rightarrow> 'd tcp \<Rightarrow> 'd tcp option" where
  "rexmit_step E pcb c s =
     (let c = c\<lparr>rtime := (if 0 \<le> sint (rtime c) then rtime c + 1 else rtime c)\<rparr>
      in if unacked c \<noteq> [] \<and> sint (rto c) \<le> sint (rtime c) then tcp_rexmit_rto E pcb (set_pcb pcb (timed_out c) s)
         else Some (set_pcb pcb c s))"

definition too_many_rexmits :: "tcp_pcb \<Rightarrow> bool" where
  "too_many_rexmits c \<longleftrightarrow> pcb_state c = SYN_SENT \<and> TCP_SYNMAXRTX \<le> nrtx c \<or> TCP_MAXRTX \<le> nrtx c"

definition stayed_too_long :: "u32 \<Rightarrow> tcp_pcb \<Rightarrow> bool" where
  "stayed_too_long ticks c \<longleftrightarrow>
     pcb_state c = FIN_WAIT_2 \<and> tflags c AND TF_RXCLOSED \<noteq> 0 \<and> TCP_FIN_WAIT_TIMEOUT div TCP_SLOW_INTERVAL < ticks - tmr c \<or>
     pcb_state c = SYN_RCVD \<and> TCP_SYN_RCVD_TIMEOUT div TCP_SLOW_INTERVAL < ticks - tmr c \<or>
     pcb_state c = LAST_ACK \<and> 2 * TCP_MSL div TCP_SLOW_INTERVAL < ticks - tmr c"

text \<open>Whether the peer has not answered for too long; else a probe may be due.\<close>

definition keepalive_step :: "'d tcp_env \<Rightarrow> nat \<Rightarrow> tcp_pcb \<Rightarrow> 'd tcp \<Rightarrow> (bool \<times> 'd tcp) option" where
  "keepalive_step E pcb c s =
     (if so_options c AND SOF_KEEPALIVE \<noteq> 0 \<and> (pcb_state c = ESTABLISHED \<or> pcb_state c = CLOSE_WAIT) then
        (if (keep_idle c + TCP_MAXIDLE) div TCP_SLOW_INTERVAL < tcp_ticks s - tmr c then Some (True, s)
         else if (keep_idle c + ucast (keep_cnt_sent c) * TCP_KEEPINTVL_DEFAULT) div TCP_SLOW_INTERVAL < tcp_ticks s - tmr c then do {
           (e, s) \<leftarrow> tcp_keepalive E pcb s;
           s \<leftarrow> (if e = ERR_OK then upd_pcb pcb (\<lambda>c. c\<lparr>keep_cnt_sent := keep_cnt_sent c + 1\<rparr>) s else Some s);
           Some (False, s)
         }
         else Some (False, s))
      else Some (False, s))"

text \<open>The checks of one control block: whether it is to be removed, and whether a reset is to be sent then.\<close>

definition slow_checks :: "'d tcp_env \<Rightarrow> nat \<Rightarrow> 'd tcp \<Rightarrow> (bool \<times> bool \<times> 'd tcp) option" where
  "slow_checks E pcb s = do {
     c \<leftarrow> pcbs s pcb;
     s \<leftarrow> (if too_many_rexmits c then Some s
          else if 0 < persist_backoff c then persist_step E pcb c s
          else rexmit_step E pcb c s);
     d \<leftarrow> pcbs s pcb;
     (dead, s) \<leftarrow> keepalive_step E pcb d s;
     Some (too_many_rexmits c \<or> stayed_too_long (tcp_ticks s) d \<or> dead, dead, s)
   }"

text \<open>Results of a step: the new \<open>prev\<close> and \<open>pcb\<close>; the jump to \<^verbatim>\<open>tcp_slowtmr_start\<close> is 0 and the head of the list.\<close>

definition slow_remove :: "'d tcp_env \<Rightarrow> nat \<Rightarrow> nat \<Rightarrow> bool \<Rightarrow> 'd tcp \<Rightarrow> (nat \<times> nat \<times> 'd tcp) option" where
  "slow_remove E prev pcb reset s = do {
     c \<leftarrow> pcbs s pcb;
     s \<leftarrow> tcp_pcb_purge E pcb s;
     nxt \<leftarrow> next_of pcb (tcp_active_pcbs s);
     let s = s\<lparr>tcp_active_pcbs := unlink prev pcb (tcp_active_pcbs s)\<rparr>;
     s \<leftarrow> (if reset then tcp_rst E (snd_nxt c) (rcv_nxt c) (local_ip c) (remote_ip c) (local_port c) (remote_port c) s else Some s);
     s \<leftarrow> TCP_EVENT_ERR E (err_fn c) (callback_arg c) ERR_ABRT ((free_pcb pcb s)\<lparr>tcp_active_pcbs_changed := False\<rparr>);
     Some (if tcp_active_pcbs_changed s then (0, first_of (tcp_active_pcbs s), s) else (prev, nxt, s))
   }"

definition slow_poll :: "'d tcp_env \<Rightarrow> nat \<Rightarrow> 'd tcp \<Rightarrow> (nat \<times> nat \<times> 'd tcp) option" where
  "slow_poll E pcb s = do {
     nxt \<leftarrow> next_of pcb (tcp_active_pcbs s);
     c \<leftarrow> pcbs s pcb;
     let c = c\<lparr>polltmr := polltmr c + 1\<rparr>;
     if polltmr c < pollinterval c then Some (pcb, nxt, set_pcb pcb c s)
     else do {
       (e, s) \<leftarrow> TCP_EVENT_POLL E pcb ((set_pcb pcb (c\<lparr>polltmr := 0\<rparr>) s)\<lparr>tcp_active_pcbs_changed := False\<rparr>);
       if tcp_active_pcbs_changed s then Some (0, first_of (tcp_active_pcbs s), s)
       else if e = ERR_OK then do { (e, s) \<leftarrow> tcp_output E pcb s; Some (pcb, nxt, s) }
       else Some (pcb, nxt, s)
     }
   }"

definition slow_step :: "'d tcp_env \<Rightarrow> nat \<Rightarrow> nat \<Rightarrow> 'd tcp \<Rightarrow> (nat \<times> nat \<times> 'd tcp) option" where
  "slow_step E prev pcb s = do {
     c \<leftarrow> pcbs s pcb;
     if last_timer c = tcp_timer_ctr s then do {
       nxt \<leftarrow> next_of pcb (tcp_active_pcbs s);
       Some (prev, nxt, s)
     }
     else do {
       (gone, reset, s) \<leftarrow> slow_checks E pcb (set_pcb pcb (c\<lparr>last_timer := tcp_timer_ctr s\<rparr>) s);
       if gone then slow_remove E prev pcb reset s else slow_poll E pcb s
     }
   }"

partial_function (option) slow_loop :: "'d tcp_env \<Rightarrow> nat \<Rightarrow> nat \<Rightarrow> 'd tcp \<Rightarrow> 'd tcp option" where
  "slow_loop E prev pcb s =
     (if pcb = 0 then Some s
      else case slow_step E prev pcb s of None \<Rightarrow> None | Some (prev, pcb, s) \<Rightarrow> slow_loop E prev pcb s)"

text \<open>The loop over the blocks in \<^verbatim>\<open>TIME_WAIT\<close>, for which \<^verbatim>\<open>tcp_pcb_purge\<close> has nothing to do.\<close>

fun tw_loop :: "nat list \<Rightarrow> 'd tcp \<Rightarrow> 'd tcp option" where
  "tw_loop [] s = Some s"
| "tw_loop (p # ps) s = do {
     c \<leftarrow> pcbs s p;
     tw_loop ps (if 2 * TCP_MSL div TCP_SLOW_INTERVAL < tcp_ticks s - tmr c then free_pcb p (TCP_RMV TW p s) else s)
   }"

definition tcp_slowtmr :: "'d tcp_env \<Rightarrow> 'd tcp \<Rightarrow> 'd tcp option" where
  "tcp_slowtmr E s = do {
     let s = s\<lparr>tcp_ticks := tcp_ticks s + 1, tcp_timer_ctr := tcp_timer_ctr s + 1\<rparr>;
     s \<leftarrow> slow_loop E 0 (first_of (tcp_active_pcbs s)) s;
     tw_loop (tcp_tw_pcbs s) s
   }"

section \<open>The fast timer\<close>

definition fast_step :: "'d tcp_env \<Rightarrow> nat \<Rightarrow> 'd tcp \<Rightarrow> (nat \<times> 'd tcp) option" where
  "fast_step E pcb s = do {
     c \<leftarrow> pcbs s pcb;
     if last_timer c = tcp_timer_ctr s then do { nxt \<leftarrow> next_of pcb (tcp_active_pcbs s); Some (nxt, s) }
     else do {
       let c = c\<lparr>last_timer := tcp_timer_ctr s\<rparr>;
       s \<leftarrow> (if tflags c AND TF_ACK_DELAY \<noteq> 0 then do {
              (e, s) \<leftarrow> tcp_output E pcb (set_pcb pcb (tcp_ack_now c) s);
              upd_pcb pcb (clear_tflags (TF_ACK_DELAY OR TF_ACK_NOW)) s
            } else Some (set_pcb pcb c s));
       c \<leftarrow> pcbs s pcb;
       s \<leftarrow> (if tflags c AND TF_CLOSEPEND \<noteq> 0 then do {
              (e, s) \<leftarrow> tcp_close_shutdown_fin E pcb (set_pcb pcb (clear_tflags TF_CLOSEPEND c) s);
              Some s
            } else Some s);
       nxt \<leftarrow> next_of pcb (tcp_active_pcbs s);
       c \<leftarrow> pcbs s pcb;
       if refused_data c \<noteq> 0 then do {
         (e, s) \<leftarrow> tcp_process_refused_data E pcb (s\<lparr>tcp_active_pcbs_changed := False\<rparr>);
         Some (if tcp_active_pcbs_changed s then first_of (tcp_active_pcbs s) else nxt, s)
       }
       else Some (nxt, s)
     }
   }"

partial_function (option) fast_loop :: "'d tcp_env \<Rightarrow> nat \<Rightarrow> 'd tcp \<Rightarrow> 'd tcp option" where
  "fast_loop E pcb s =
     (if pcb = 0 then Some s else case fast_step E pcb s of None \<Rightarrow> None | Some (pcb, s) \<Rightarrow> fast_loop E pcb s)"

definition tcp_fasttmr :: "'d tcp_env \<Rightarrow> 'd tcp \<Rightarrow> 'd tcp option" where
  "tcp_fasttmr E s = (let s = s\<lparr>tcp_timer_ctr := tcp_timer_ctr s + 1\<rparr> in fast_loop E (first_of (tcp_active_pcbs s)) s)"

definition tcp_tmr :: "'d tcp_env \<Rightarrow> 'd tcp \<Rightarrow> 'd tcp option" where
  "tcp_tmr E s = do {
     s \<leftarrow> tcp_fasttmr E s;
     let s = s\<lparr>tcp_timer := tcp_timer s + 1\<rparr>;
     if tcp_timer s AND 1 \<noteq> 0 then tcp_slowtmr E s else Some s
   }"

fun txnow_loop :: "'d tcp_env \<Rightarrow> nat list \<Rightarrow> 'd tcp \<Rightarrow> 'd tcp option" where
  "txnow_loop E [] s = Some s"
| "txnow_loop E (p # ps) s = do {
     c \<leftarrow> pcbs s p;
     s \<leftarrow> (if tflags c AND TF_NAGLEMEMERR \<noteq> 0 then do { (e, s) \<leftarrow> tcp_output E p s; Some s } else Some s);
     txnow_loop E ps s
   }"

definition tcp_txnow :: "'d tcp_env \<Rightarrow> 'd tcp \<Rightarrow> 'd tcp option" where
  "tcp_txnow E s = txnow_loop E (tcp_active_pcbs s) s"

section \<open>Changes of address\<close>

definition addr_step :: "'d tcp_env \<Rightarrow> u32 \<Rightarrow> ('d tcp \<Rightarrow> nat list) \<Rightarrow> nat \<Rightarrow> 'd tcp \<Rightarrow> (nat \<times> 'd tcp) option" where
  "addr_step E old_addr ps pcb s = do {
     c \<leftarrow> pcbs s pcb;
     nxt \<leftarrow> next_of pcb (ps s);
     s \<leftarrow> (if local_ip c = old_addr then tcp_abort E pcb s else Some s);
     Some (nxt, s)
   }"

partial_function (option) addr_loop :: "'d tcp_env \<Rightarrow> u32 \<Rightarrow> ('d tcp \<Rightarrow> nat list) \<Rightarrow> nat \<Rightarrow> 'd tcp \<Rightarrow> 'd tcp option" where
  "addr_loop E old_addr ps pcb s =
     (if pcb = 0 then Some s
      else case addr_step E old_addr ps pcb s of None \<Rightarrow> None | Some (pcb, s) \<Rightarrow> addr_loop E old_addr ps pcb s)"

definition tcp_netif_ip_addr_changed :: "'d tcp_env \<Rightarrow> u32 \<Rightarrow> u32 option \<Rightarrow> 'd tcp \<Rightarrow> 'd tcp option" where
  "tcp_netif_ip_addr_changed E old_addr new_addr s =
     (if ip4_addr_isany old_addr then Some s
      else do {
        s \<leftarrow> addr_loop E old_addr tcp_active_pcbs (first_of (tcp_active_pcbs s)) s;
        s \<leftarrow> addr_loop E old_addr tcp_bound_pcbs (first_of (tcp_bound_pcbs s)) s;
        Some (case new_addr of None \<Rightarrow> s
          | Some a \<Rightarrow> if ip4_addr_isany a then s
              else s\<lparr>lpcbs := (\<lambda>p. if p \<in> set (tcp_listen_pcbs s)
                       then map_option (\<lambda>l. if l_local_ip l = old_addr then l\<lparr>l_local_ip := a\<rparr> else l) (lpcbs s p) else lpcbs s p)\<rparr>)
      })"

end
