(* ===== verification/Tcp_In.thy ===== *)
theory Tcp_In
  imports Tcp_Tmr
begin

text \<open>
  \<^verbatim>\<open>src/STM32/Bootloader/User/lwip-2.0.3/src/core/tcp_in.c\<close>, with its static variables in the state. \<^verbatim>\<open>tcp_input\<close> turns fields of the header
  to host order in place, so later code reads them as little-endian words.
\<close>

unbundle bit_operations_syntax

definition hdr_src :: "'d tcp \<Rightarrow> u16" where "hdr_src s = ld16 (bytes (mem_of s)) (tcphdr s)"
definition hdr_dest :: "'d tcp \<Rightarrow> u16" where "hdr_dest s = ld16 (bytes (mem_of s)) (tcphdr s + 2)"
definition hdr_wnd :: "'d tcp \<Rightarrow> u16" where "hdr_wnd s = ld16 (bytes (mem_of s)) (tcphdr s + 14)"

definition in_hdr_flags :: "'d tcp \<Rightarrow> u8" where "in_hdr_flags s = TCPH_FLAGS (bytes (mem_of s)) (tcphdr s)"

text \<open>The macro \<^verbatim>\<open>TCP_TCPLEN\<close> of the incoming segment, assigned to a 16-bit variable.\<close>

definition inseg_tcplen :: "'d tcp \<Rightarrow> u16" where
  "inseg_tcplen s = ucast (tcplen_of (bytes (mem_of s)) (tcphdr s) (inseg_len s))"

text \<open>The reset that answers the incoming segment.\<close>

definition answer_rst :: "'d tcp_env \<Rightarrow> 'd tcp \<Rightarrow> 'd tcp option" where
  "answer_rst E s = tcp_rst E (in_ackno s) (in_seqno s + ucast (tcplen s)) (current_iphdr_dest s) (current_iphdr_src s) (hdr_dest s) (hdr_src s) s"

section \<open>Options\<close>

definition LWIP_TCP_OPT_EOL :: u8 where "LWIP_TCP_OPT_EOL = 0"
definition LWIP_TCP_OPT_NOP :: u8 where "LWIP_TCP_OPT_NOP = 1"
definition LWIP_TCP_OPT_MSS :: u8 where "LWIP_TCP_OPT_MSS = 2"

definition tcp_getoptbyte :: "'d tcp \<Rightarrow> u16 \<Rightarrow> u8" where
  "tcp_getoptbyte s idx =
     (if tcphdr_opt2 s = 0 \<or> idx < tcphdr_opt1len s then bytes (mem_of s) (tcphdr s + unat TCP_HLEN + unat idx)
      else bytes (mem_of s) (tcphdr_opt2 s + unat (ucast (idx - tcphdr_opt1len s) :: u8)))"

definition limit_mss :: "u16 \<Rightarrow> u16" where
  "limit_mss m = (if TCP_MSS < m \<or> m = 0 then TCP_MSS else m)"

text \<open>The loop: the segment size so far and the index \<^verbatim>\<open>tcp_optidx\<close>.\<close>

partial_function (option) parse_loop :: "'d tcp \<Rightarrow> u16 \<Rightarrow> u16 \<Rightarrow> u16 option" where
  "parse_loop s m idx =
     (if \<not> idx < tcphdr_optlen s then Some m
      else if tcp_getoptbyte s idx = LWIP_TCP_OPT_EOL then Some m
      else if tcp_getoptbyte s idx = LWIP_TCP_OPT_NOP then parse_loop s m (idx + 1)
      else if tcp_getoptbyte s idx = LWIP_TCP_OPT_MSS then
        (if tcp_getoptbyte s (idx + 1) \<noteq> ucast LWIP_TCP_OPT_LEN_MSS \<or> int (unat (tcphdr_optlen s)) < int (unat (idx + 2)) - 2 + 4 then Some m
         else parse_loop s (limit_mss (push_bit 8 (ucast (tcp_getoptbyte s (idx + 2))) OR ucast (tcp_getoptbyte s (idx + 3)))) (idx + 4))
      else if tcp_getoptbyte s (idx + 1) < 2 then Some m
      else parse_loop s m (idx + 2 + ucast (tcp_getoptbyte s (idx + 1) - 2)))"

definition tcp_parseopt :: "nat \<Rightarrow> 'd tcp \<Rightarrow> 'd tcp option" where
  "tcp_parseopt pcb s = do {
     c \<leftarrow> pcbs s pcb;
     m \<leftarrow> parse_loop s (mss c) 0;
     Some (set_pcb pcb (c\<lparr>mss := m\<rparr>) s)
   }"

section \<open>Acknowledgements\<close>

definition update_snd_wnd :: "u32 \<Rightarrow> u32 \<Rightarrow> u16 \<Rightarrow> tcp_pcb \<Rightarrow> tcp_pcb" where
  "update_snd_wnd seqno ackno wnd c =
     (if TCP_SEQ_LT (snd_wl1 c) seqno \<or> snd_wl1 c = seqno \<and> TCP_SEQ_LT (snd_wl2 c) ackno \<or> snd_wl2 c = ackno \<and> snd_wnd c < wnd then
        let c = c\<lparr>snd_wnd := wnd, snd_wnd_max := max (snd_wnd_max c) wnd, snd_wl1 := seqno, snd_wl2 := ackno\<rparr>
        in if wnd = 0 then start_persist c
           else if 0 < persist_backoff c then c\<lparr>persist_backoff := 0\<rparr> else c
      else c)"

definition inflate_cwnd :: "tcp_pcb \<Rightarrow> tcp_pcb" where
  "inflate_cwnd c = (if cwnd c < cwnd c + mss c then c\<lparr>cwnd := cwnd c + mss c\<rparr> else c)"

text \<open>An acknowledgement of nothing new; \<open>edge\<close> is the right edge of the window before its update.\<close>

definition duplicate_ack :: "store \<Rightarrow> u32 \<Rightarrow> u16 \<Rightarrow> u32 \<Rightarrow> tcp_pcb \<Rightarrow> tcp_pcb" where
  "duplicate_ack h ackno n edge c =
     (if n = 0 \<and> snd_wl2 c + ucast (snd_wnd c) = edge \<and> 0 \<le> sint (rtime c) \<and> lastack c = ackno then
        let c = c\<lparr>dupacks := (if dupacks c < dupacks c + 1 then dupacks c + 1 else dupacks c)\<rparr>
        in if 3 < dupacks c then inflate_cwnd c else if dupacks c = 3 then tcp_rexmit_fast h c else c
      else c\<lparr>dupacks := 0\<rparr>)"

text \<open>The variables an acknowledgement of new data resets, and the congestion window.\<close>

definition new_ack :: "u32 \<Rightarrow> tcp_pcb \<Rightarrow> tcp_pcb option" where
  "new_ack ackno c =
     (let c = (if tflags c AND TF_INFR \<noteq> 0 then (clear_tflags TF_INFR c)\<lparr>cwnd := ssthresh c\<rparr> else c);
          c = c\<lparr>nrtx := 0, rto := signed_drop_bit 3 (sa c) + sv c, dupacks := 0, lastack := ackno\<rparr>
      in if \<not> ESTABLISHED \<le> pcb_state c then Some c
         else if cwnd c < ssthresh c then Some (inflate_cwnd c)
         else if cwnd c = 0 then None
         else let new_cwnd = of_nat (unat (cwnd c) + unat (mss c) * unat (mss c) div unat (cwnd c))
              in Some (if cwnd c < new_cwnd then c\<lparr>cwnd := new_cwnd\<rparr> else c))"

text \<open>
  The loops over the two queues: segments from the front are freed while \<open>P\<close> holds of them. The results are the rest of the
  queue and the number of pbufs that are gone; \<^verbatim>\<open>recv_acked\<close> counts the bytes.
\<close>

fun drop_acked :: "'d tcp_env \<Rightarrow> (store \<Rightarrow> tcp_seg \<Rightarrow> bool) \<Rightarrow> tcp_seg list \<Rightarrow> 'd tcp \<Rightarrow> (tcp_seg list \<times> u16 \<times> 'd tcp) option" where
  "drop_acked E P [] s = Some ([], 0, s)"
| "drop_acked E P (g # gs) s =
     (if P (mem_of s) g then do {
        n \<leftarrow> pbuf_clen (seg_p g) (mem_of s);
        s \<leftarrow> tcp_seg_free E g (s\<lparr>recv_acked := recv_acked s + seg_len g\<rparr>);
        (rest, k, s) \<leftarrow> drop_acked E P gs s;
        Some (rest, n + k, s)
      }
      else Some (g # gs, 0, s))"

definition acked_by :: "u32 \<Rightarrow> store \<Rightarrow> tcp_seg \<Rightarrow> bool" where
  "acked_by ackno h g \<longleftrightarrow> TCP_SEQ_LEQ (seg_seqno h g + TCP_TCPLEN h g) ackno"

definition acked_unsent :: "u32 \<Rightarrow> u32 \<Rightarrow> store \<Rightarrow> tcp_seg \<Rightarrow> bool" where
  "acked_unsent ackno nxt h g \<longleftrightarrow> TCP_SEQ_BETWEEN ackno (seg_seqno h g + TCP_TCPLEN h g) nxt"

definition ack_unacked :: "'d tcp_env \<Rightarrow> nat \<Rightarrow> 'd tcp \<Rightarrow> 'd tcp option" where
  "ack_unacked E pcb s = do {
     c \<leftarrow> pcbs s pcb;
     c \<leftarrow> new_ack (in_ackno s) c;
     (rest, k, s) \<leftarrow> drop_acked E (acked_by (in_ackno s)) (unacked c) s;
     Some (set_pcb pcb (c\<lparr>unacked := rest, snd_queuelen := snd_queuelen c - k, rtime := (if rest = [] then -1 else 0), polltmr := 0\<rparr>) s)
   }"

definition ack_unsent :: "'d tcp_env \<Rightarrow> nat \<Rightarrow> 'd tcp \<Rightarrow> 'd tcp option" where
  "ack_unsent E pcb s = do {
     c \<leftarrow> pcbs s pcb;
     (rest, k, s) \<leftarrow> drop_acked E (acked_unsent (in_ackno s) (snd_nxt c)) (unsent c) s;
     Some (set_pcb pcb (c\<lparr>unsent := rest, unsent_oversize := (if unsent c \<noteq> [] \<and> rest = [] then 0 else unsent_oversize c),
       snd_queuelen := snd_queuelen c - k, snd_buf := snd_buf c + recv_acked s\<rparr>) s)
   }"

definition rtt_estimate :: "u32 \<Rightarrow> u32 \<Rightarrow> tcp_pcb \<Rightarrow> tcp_pcb" where
  "rtt_estimate ticks ackno c =
     (if rttest c \<noteq> 0 \<and> TCP_SEQ_LT (rtseq c) ackno then
        let m = ucast (ticks - rttest c) - signed_drop_bit 3 (sa c);
            sa' = sa c + m;
            m = (if sint m < 0 then - m else m);
            m = m - signed_drop_bit 2 (sv c);
            sv' = sv c + m
        in c\<lparr>sa := sa', sv := sv', rto := signed_drop_bit 3 sa' + sv', rttest := 0\<rparr>
      else c)"

definition receive_ack :: "'d tcp_env \<Rightarrow> nat \<Rightarrow> 'd tcp \<Rightarrow> 'd tcp option" where
  "receive_ack E pcb s = do {
     c \<leftarrow> pcbs s pcb;
     let ackno = in_ackno s;
     let edge = ucast (snd_wnd c) + snd_wl2 c;
     let c = update_snd_wnd (in_seqno s) ackno (hdr_wnd s) c;
     let s = set_pcb pcb c s;
     s \<leftarrow> (if TCP_SEQ_LEQ ackno (lastack c) then Some (set_pcb pcb (duplicate_ack (mem_of s) ackno (tcplen s) edge c) s)
          else if TCP_SEQ_BETWEEN ackno (lastack c + 1) (snd_nxt c) then ack_unacked E pcb s
          else do { (e, s) \<leftarrow> tcp_send_empty_ack E pcb s; Some s });
     s \<leftarrow> ack_unsent E pcb s;
     upd_pcb pcb (rtt_estimate (tcp_ticks s) ackno) s
   }"

section \<open>Data\<close>

text \<open>
  Cutting off the first \<open>off\<close> bytes of the segment: pbufs shorter than that become empty, the next one loses the rest. The result of
  \<^verbatim>\<open>pbuf_header\<close> only goes into an assertion.
\<close>

partial_function (option) trim_loop :: "u16 \<Rightarrow> nat \<Rightarrow> int \<Rightarrow> store \<Rightarrow> (nat \<times> int \<times> store) option" where
  "trim_loop new_tot_len p off h =
     (case pb h p of None \<Rightarrow> None
      | Some b \<Rightarrow>
          if int (unat (plen b)) < off
          then trim_loop new_tot_len (pnext b) (off - int (unat (plen b))) (put_pbuf p (b\<lparr>tot_len := new_tot_len, plen := 0\<rparr>) h)
          else Some (p, off, h))"

definition s16_of :: "int \<Rightarrow> int" where
  "s16_of x = sint (of_int x :: u16)"

definition trim_front :: "nat \<Rightarrow> int \<Rightarrow> store \<Rightarrow> store option" where
  "trim_front p off h = do {
     b \<leftarrow> pb h p;
     if int (unat (plen b)) < off then do {
       (q, off, h) \<leftarrow> trim_loop (of_int (int (unat (tot_len b)) - off)) p off h;
       (e, h) \<leftarrow> pbuf_header q (s16_of (- off)) h;
       Some h
     }
     else do { (e, h) \<leftarrow> pbuf_header p (s16_of (- off)) h; Some h }
   }"

text \<open>The first part: the segment is trimmed to start at the number expected next, or recognised as a duplicate.\<close>

definition receive_trim :: "'d tcp_env \<Rightarrow> nat \<Rightarrow> 'd tcp \<Rightarrow> 'd tcp option" where
  "receive_trim E pcb s = do {
     c \<leftarrow> pcbs s pcb;
     if TCP_SEQ_BETWEEN (rcv_nxt c) (in_seqno s + 1) (in_seqno s + ucast (tcplen s) - 1) then do {
       h \<leftarrow> trim_front (inseg_p s) (sint (rcv_nxt c - in_seqno s)) (mem_of s);
       Some (s\<lparr>mem_of := memcpy_to (tcphdr s + 4) (le32_bytes (rcv_nxt c)) h, inseg_len := inseg_len s - ucast (rcv_nxt c - in_seqno s),
         in_seqno := rcv_nxt c\<rparr>)
     }
     else if TCP_SEQ_LT (in_seqno s) (rcv_nxt c) then Some (set_pcb pcb (tcp_ack_now c) s)
     else Some s
   }"

text \<open>The next segment in sequence: what does not fit the window is cut off, the rest is for the application.\<close>

definition clear_fin :: "'d tcp \<Rightarrow> 'd tcp" where
  "clear_fin s = (if in_hdr_flags s AND TCP_FIN \<noteq> 0
     then s\<lparr>mem_of := TCPH_FLAGS_SET (tcphdr s) (in_hdr_flags s AND NOT TCP_FIN) (mem_of s)\<rparr> else s)"

definition trim_to_wnd :: "'d tcp_env \<Rightarrow> u16 \<Rightarrow> 'd tcp \<Rightarrow> 'd tcp option" where
  "trim_to_wnd E wnd s =
     (if inseg_tcplen s \<le> wnd then Some (s\<lparr>tcplen := inseg_tcplen s\<rparr>)
      else do {
        let s = clear_fin (s\<lparr>tcplen := inseg_tcplen s\<rparr>);
        let s = s\<lparr>inseg_len := (if in_hdr_flags s AND TCP_SYN \<noteq> 0 then wnd - 1 else wnd)\<rparr>;
        h \<leftarrow> pbuf_realloc (pbufs E) (inseg_p s) (inseg_len s) (mem_of s);
        let s = s\<lparr>mem_of := h\<rparr>;
        Some (s\<lparr>tcplen := inseg_tcplen s\<rparr>)
      })"

definition receive_in_order :: "'d tcp_env \<Rightarrow> nat \<Rightarrow> 'd tcp \<Rightarrow> 'd tcp option" where
  "receive_in_order E pcb s = do {
     c \<leftarrow> pcbs s pcb;
     s \<leftarrow> trim_to_wnd E (rcv_wnd c) s;
     let c = snd (tcp_update_rcv_ann_wnd (c\<lparr>rcv_nxt := in_seqno s + ucast (tcplen s), rcv_wnd := rcv_wnd c - tcplen s\<rparr>));
     let s = set_pcb pcb c s;
     b \<leftarrow> pb (mem_of s) (inseg_p s);
     let s = (if 0 < tot_len b then s\<lparr>recv_data := inseg_p s, inseg_p := 0\<rparr> else s);
     let s = (if in_hdr_flags s AND TCP_FIN \<noteq> 0 then s\<lparr>recv_flags := recv_flags s OR TF_GOT_FIN\<rparr> else s);
     Some (set_pcb pcb (tcp_ack c) s)
   }"

definition receive_data :: "'d tcp_env \<Rightarrow> nat \<Rightarrow> 'd tcp \<Rightarrow> 'd tcp option" where
  "receive_data E pcb s = do {
     s \<leftarrow> receive_trim E pcb s;
     c \<leftarrow> pcbs s pcb;
     if TCP_SEQ_BETWEEN (in_seqno s) (rcv_nxt c) (rcv_nxt c + ucast (rcv_wnd c) - 1) \<and> rcv_nxt c = in_seqno s then receive_in_order E pcb s
     else do { (e, s) \<leftarrow> tcp_send_empty_ack E pcb s; Some s }
   }"

definition tcp_receive :: "'d tcp_env \<Rightarrow> nat \<Rightarrow> 'd tcp \<Rightarrow> 'd tcp option" where
  "tcp_receive E pcb s = do {
     s \<leftarrow> (if in_flags s AND TCP_ACK \<noteq> 0 then receive_ack E pcb s else Some s);
     c \<leftarrow> pcbs s pcb;
     if 0 < tcplen s \<and> pcb_state c < CLOSE_WAIT then receive_data E pcb s
     else if \<not> TCP_SEQ_BETWEEN (in_seqno s) (rcv_nxt c) (rcv_nxt c + ucast (rcv_wnd c) - 1) then Some (set_pcb pcb (tcp_ack_now c) s)
     else Some s
   }"

end
