(* ===== verification/Tcp_Process.thy ===== *)
theory Tcp_Process
  imports Tcp_In
begin

text \<open>
  The state machine and the entry point of \<^verbatim>\<open>src/STM32/Bootloader/User/lwip-2.0.3/src/core/tcp_in.c\<close>: \<^verbatim>\<open>tcp_process\<close>,
  \<^verbatim>\<open>tcp_listen_input\<close>, \<^verbatim>\<open>tcp_timewait_input\<close> and \<^verbatim>\<open>tcp_input\<close>.
\<close>

unbundle bit_operations_syntax

definition LWIP_TCP_CALC_INITIAL_CWND :: "u16 \<Rightarrow> u16" where
  "LWIP_TCP_CALC_INITIAL_CWND m = of_nat (min (4 * unat m) (max (2 * unat m) 4380))"

abbreviation has_flag :: "'d tcp \<Rightarrow> u8 \<Rightarrow> bool" where
  "has_flag s f \<equiv> in_flags s AND f \<noteq> 0"

section \<open>The state machine\<close>

definition process_rst :: "nat \<Rightarrow> 'd tcp \<Rightarrow> (err_t \<times> 'd tcp) option" where
  "process_rst pcb s = do {
     c \<leftarrow> pcbs s pcb;
     let acceptable = (if pcb_state c = SYN_SENT then in_ackno s = snd_nxt c else in_seqno s = rcv_nxt c);
     if acceptable then Some (ERR_RST, set_pcb pcb (clear_tflags TF_ACK_DELAY c) (s\<lparr>recv_flags := recv_flags s OR TF_RESET\<rparr>))
     else if pcb_state c \<noteq> SYN_SENT \<and> TCP_SEQ_BETWEEN (in_seqno s) (rcv_nxt c) (rcv_nxt c + ucast (rcv_wnd c))
     then Some (ERR_OK, set_pcb pcb (tcp_ack_now c) s)
     else Some (ERR_OK, s)
   }"

text \<open>The first segment of the queue of a connection in \<^verbatim>\<open>SYN_SENT\<close> is the SYN.\<close>

definition syn_acked :: "'d tcp_env \<Rightarrow> 'd tcp \<Rightarrow> tcp_pcb \<Rightarrow> tcp_pcb" where
  "syn_acked E s c =
     (let m = tcp_eff_send_mss E (mss c) (remote_ip c)
      in c\<lparr>rcv_nxt := in_seqno s + 1, rcv_ann_right_edge := in_seqno s + 1, lastack := in_ackno s, snd_wnd := hdr_wnd s, snd_wnd_max := hdr_wnd s,
           snd_wl1 := in_seqno s - 1, pcb_state := ESTABLISHED, mss := m, cwnd := LWIP_TCP_CALC_INITIAL_CWND m,
           snd_queuelen := snd_queuelen c - 1\<rparr>)"

definition restart_rtime :: "tcp_pcb \<Rightarrow> tcp_pcb" where
  "restart_rtime c = (if unacked c = [] then c\<lparr>rtime := -1\<rparr> else c\<lparr>rtime := 0, nrtx := 0\<rparr>)"

definition process_syn_sent :: "'d tcp_env \<Rightarrow> nat \<Rightarrow> 'd tcp \<Rightarrow> (err_t \<times> 'd tcp) option" where
  "process_syn_sent E pcb s = do {
     c \<leftarrow> pcbs s pcb;
     if has_flag s TCP_ACK \<and> has_flag s TCP_SYN \<and> in_ackno s = lastack c + 1 then do {
       let c = syn_acked E s c;
       (g, c) \<leftarrow> (case unacked c of g # gs \<Rightarrow> Some (g, c\<lparr>unacked := gs\<rparr>)
         | [] \<Rightarrow> (case unsent c of g # gs \<Rightarrow> Some (g, c\<lparr>unsent := gs\<rparr>) | [] \<Rightarrow> None));
       s \<leftarrow> tcp_seg_free E g s;
       (e, s) \<leftarrow> TCP_EVENT_CONNECTED E pcb ERR_OK (set_pcb pcb (restart_rtime c) s);
       if e = ERR_ABRT then Some (ERR_ABRT, s)
       else do { s \<leftarrow> upd_pcb pcb tcp_ack_now s; Some (ERR_OK, s) }
     }
     else if has_flag s TCP_ACK then do {
       s \<leftarrow> answer_rst E s;
       c \<leftarrow> pcbs s pcb;
       s \<leftarrow> (if nrtx c < TCP_SYNMAXRTX then tcp_rexmit_rto E pcb (set_pcb pcb (c\<lparr>rtime := 0\<rparr>) s) else Some s);
       Some (ERR_OK, s)
     }
     else Some (ERR_OK, s)
   }"

text \<open>After the accept callback: the data of the segment, the congestion window, a FIN.\<close>

definition accepted :: "'d tcp_env \<Rightarrow> nat \<Rightarrow> 'd tcp \<Rightarrow> (err_t \<times> 'd tcp) option" where
  "accepted E pcb s = do {
     s \<leftarrow> tcp_receive E pcb s;
     let s = s\<lparr>recv_acked := (if recv_acked s \<noteq> 0 then recv_acked s - 1 else 0)\<rparr>;
     c \<leftarrow> pcbs s pcb;
     let c = c\<lparr>cwnd := LWIP_TCP_CALC_INITIAL_CWND (mss c)\<rparr>;
     let c = (if recv_flags s AND TF_GOT_FIN \<noteq> 0 then (tcp_ack_now c)\<lparr>pcb_state := CLOSE_WAIT\<rparr> else c);
     Some (ERR_OK, set_pcb pcb c s)
   }"

definition process_syn_rcvd :: "'d tcp_env \<Rightarrow> nat \<Rightarrow> 'd tcp \<Rightarrow> (err_t \<times> 'd tcp) option" where
  "process_syn_rcvd E pcb s = do {
     c \<leftarrow> pcbs s pcb;
     if has_flag s TCP_ACK then
       (if TCP_SEQ_BETWEEN (in_ackno s) (lastack c + 1) (snd_nxt c) then do {
          let s = set_pcb pcb (c\<lparr>pcb_state := ESTABLISHED\<rparr>) s;
          (e, s) \<leftarrow> (if listener c = 0 then Some (ERR_VAL, s) else TCP_EVENT_ACCEPT E (listener c) pcb (callback_arg c) ERR_OK s);
          if e \<noteq> ERR_OK then do {
            s \<leftarrow> (if e \<noteq> ERR_ABRT then tcp_abort E pcb s else Some s);
            Some (ERR_ABRT, s)
          }
          else accepted E pcb s
        }
        else do { s \<leftarrow> answer_rst E s; Some (ERR_OK, s) })
     else if has_flag s TCP_SYN \<and> in_seqno s = rcv_nxt c - 1 then Some (ERR_OK, set_pcb pcb (tcp_rexmit (mem_of s) c) s)
     else Some (ERR_OK, s)
   }"

definition our_fin_acked :: "'d tcp \<Rightarrow> tcp_pcb \<Rightarrow> bool" where
  "our_fin_acked s c \<longleftrightarrow> has_flag s TCP_ACK \<and> in_ackno s = snd_nxt c \<and> unsent c = []"

definition to_time_wait :: "'d tcp_env \<Rightarrow> nat \<Rightarrow> 'd tcp \<Rightarrow> 'd tcp option" where
  "to_time_wait E pcb s = do {
     s \<leftarrow> tcp_pcb_purge E pcb s;
     s \<leftarrow> upd_pcb pcb (\<lambda>c. c\<lparr>pcb_state := TIME_WAIT\<rparr>) (TCP_RMV_ACTIVE pcb s);
     Some (TCP_REG E TW pcb s)
   }"

text \<open>The states in which data arrives, after \<^verbatim>\<open>tcp_receive\<close>: \<open>st\<close> is the state the segment met.\<close>

definition after_receive :: "'d tcp_env \<Rightarrow> nat \<Rightarrow> tcp_state \<Rightarrow> 'd tcp \<Rightarrow> 'd tcp option" where
  "after_receive E pcb st s = do {
     c \<leftarrow> pcbs s pcb;
     let got_fin = (recv_flags s AND TF_GOT_FIN \<noteq> 0);
     (case st of
        ESTABLISHED \<Rightarrow> Some (if got_fin then set_pcb pcb ((tcp_ack_now c)\<lparr>pcb_state := CLOSE_WAIT\<rparr>) s else s)
      | CLOSE_WAIT \<Rightarrow> Some (if got_fin then set_pcb pcb ((tcp_ack_now c)\<lparr>pcb_state := CLOSE_WAIT\<rparr>) s else s)
      | FIN_WAIT_1 \<Rightarrow>
          (if got_fin then
             (if our_fin_acked s c then to_time_wait E pcb (set_pcb pcb (tcp_ack_now c) s)
              else Some (set_pcb pcb ((tcp_ack_now c)\<lparr>pcb_state := CLOSING\<rparr>) s))
           else Some (if our_fin_acked s c then set_pcb pcb (c\<lparr>pcb_state := FIN_WAIT_2\<rparr>) s else s))
      | FIN_WAIT_2 \<Rightarrow> (if got_fin then to_time_wait E pcb (set_pcb pcb (tcp_ack_now c) s) else Some s)
      | CLOSING \<Rightarrow> (if our_fin_acked s c then to_time_wait E pcb s else Some s)
      | LAST_ACK \<Rightarrow> Some (if our_fin_acked s c then s\<lparr>recv_flags := recv_flags s OR TF_CLOSED\<rparr> else s)
      | _ \<Rightarrow> Some s)
   }"

definition process_state :: "'d tcp_env \<Rightarrow> nat \<Rightarrow> tcp_state \<Rightarrow> 'd tcp \<Rightarrow> (err_t \<times> 'd tcp) option" where
  "process_state E pcb st s =
     (if st = SYN_SENT then process_syn_sent E pcb s
      else if st = SYN_RCVD then process_syn_rcvd E pcb s
      else if st \<in> {CLOSE_WAIT, ESTABLISHED, FIN_WAIT_1, FIN_WAIT_2, CLOSING, LAST_ACK} then do {
        s \<leftarrow> tcp_receive E pcb s;
        s \<leftarrow> after_receive E pcb st s;
        Some (ERR_OK, s)
      }
      else Some (ERR_OK, s))"

definition tcp_process :: "'d tcp_env \<Rightarrow> nat \<Rightarrow> 'd tcp \<Rightarrow> (err_t \<times> 'd tcp) option" where
  "tcp_process E pcb s = do {
     c \<leftarrow> pcbs s pcb;
     if has_flag s TCP_RST then process_rst pcb s
     else if has_flag s TCP_SYN \<and> pcb_state c \<noteq> SYN_SENT \<and> pcb_state c \<noteq> SYN_RCVD then Some (ERR_OK, set_pcb pcb (tcp_ack_now c) s)
     else do {
       let c = c\<lparr>tmr := (if tflags c AND TF_RXCLOSED = 0 then tcp_ticks s else tmr c), keep_cnt_sent := 0\<rparr>;
       s \<leftarrow> tcp_parseopt pcb (set_pcb pcb c s);
       process_state E pcb (pcb_state c) s
     }
   }"

section \<open>Listening and waiting blocks\<close>

definition passive_open :: "'d tcp \<Rightarrow> u32 \<Rightarrow> nat \<Rightarrow> tcp_pcb_listen \<Rightarrow> tcp_pcb \<Rightarrow> tcp_pcb" where
  "passive_open s iss lpcb l c =
     c\<lparr>local_ip := current_iphdr_dest s, remote_ip := current_iphdr_src s, local_port := l_local_port l, remote_port := hdr_src s,
       pcb_state := SYN_RCVD, rcv_nxt := in_seqno s + 1, rcv_ann_right_edge := in_seqno s + 1, snd_wl2 := iss, snd_nxt := iss, lastack := iss,
       snd_lbb := iss, snd_wl1 := in_seqno s - 1, callback_arg := l_callback_arg l, listener := lpcb, so_options := l_so_options l AND SOF_INHERITED\<rparr>"

definition tcp_listen_input :: "'d tcp_env \<Rightarrow> nat \<Rightarrow> 'd tcp \<Rightarrow> 'd tcp option" where
  "tcp_listen_input E lpcb s = do {
     l \<leftarrow> lpcbs s lpcb;
     if has_flag s TCP_RST then Some s
     else if has_flag s TCP_ACK then answer_rst E s
     else if has_flag s TCP_SYN then do {
       (npcb, s) \<leftarrow> tcp_alloc E (l_prio l) s;
       l \<leftarrow> lpcbs s lpcb;
       if npcb = 0 then do { (e, s) \<leftarrow> TCP_EVENT_ACCEPT E lpcb 0 (l_callback_arg l) ERR_MEM s; Some s }
       else do {
         let (iss, s) = tcp_next_iss s;
         s \<leftarrow> upd_pcb npcb (passive_open s iss lpcb l) s;
         s \<leftarrow> tcp_parseopt npcb (TCP_REG_ACTIVE E npcb s);
         s \<leftarrow> upd_pcb npcb (\<lambda>c. c\<lparr>snd_wnd := hdr_wnd s, snd_wnd_max := hdr_wnd s, mss := tcp_eff_send_mss E (mss c) (remote_ip c)\<rparr>) s;
         (rc, s) \<leftarrow> tcp_enqueue_flags E npcb (TCP_SYN OR TCP_ACK) s;
         if rc \<noteq> ERR_OK then tcp_abandon E npcb False s
         else do { (e, s) \<leftarrow> tcp_output E npcb s; Some s }
       }
     }
     else Some s
   }"

definition tcp_timewait_input :: "'d tcp_env \<Rightarrow> nat \<Rightarrow> 'd tcp \<Rightarrow> 'd tcp option" where
  "tcp_timewait_input E pcb s = do {
     c \<leftarrow> pcbs s pcb;
     if has_flag s TCP_RST then Some s
     else if has_flag s TCP_SYN \<and> TCP_SEQ_BETWEEN (in_seqno s) (rcv_nxt c) (rcv_nxt c + ucast (rcv_wnd c)) then answer_rst E s
     else do {
       let c = (if \<not> has_flag s TCP_SYN \<and> has_flag s TCP_FIN then c\<lparr>tmr := tcp_ticks s\<rparr> else c);
       if 0 < tcplen s then do { (e, s) \<leftarrow> tcp_output E pcb (set_pcb pcb (set_tflags TF_ACK_NOW c) s); Some s }
       else Some (set_pcb pcb c s)
     }
   }"

section \<open>Input\<close>

definition tcp_input_delayed_close :: "'d tcp_env \<Rightarrow> nat \<Rightarrow> 'd tcp \<Rightarrow> (bool \<times> 'd tcp) option" where
  "tcp_input_delayed_close E pcb s =
     (if recv_flags s AND TF_CLOSED \<noteq> 0 then do {
        c \<leftarrow> pcbs s pcb;
        s \<leftarrow> (if tflags c AND TF_RXCLOSED = 0 then TCP_EVENT_ERR E (err_fn c) (callback_arg c) ERR_CLSD s else Some s);
        s \<leftarrow> tcp_pcb_remove E ACTIVE pcb s;
        Some (True, free_pcb pcb s)
      }
      else Some (False, s))"

text \<open>
  What follows \<^verbatim>\<open>tcp_process\<close>, up to the label \<^verbatim>\<open>aborted\<close>. The parts return whether to jump there.
\<close>

definition input_sent :: "'d tcp_env \<Rightarrow> nat \<Rightarrow> 'd tcp \<Rightarrow> (bool \<times> 'd tcp) option" where
  "input_sent E pcb s =
     (if 0 < recv_acked s then do {
        (e, s) \<leftarrow> TCP_EVENT_SENT E pcb (recv_acked s) s;
        if e = ERR_ABRT then Some (True, s) else Some (False, s\<lparr>recv_acked := 0\<rparr>)
      }
      else Some (False, s))"

definition input_recv :: "'d tcp_env \<Rightarrow> nat \<Rightarrow> 'd tcp \<Rightarrow> (bool \<times> 'd tcp) option" where
  "input_recv E pcb s =
     (if recv_data s \<noteq> 0 then do {
        c \<leftarrow> pcbs s pcb;
        if tflags c AND TF_RXCLOSED \<noteq> 0 then do {
          s \<leftarrow> free_packet (ip_env E) (recv_data s) s;
          s \<leftarrow> tcp_abort E pcb s;
          Some (True, s)
        }
        else do {
          (e, s) \<leftarrow> TCP_EVENT_RECV E pcb (recv_data s) ERR_OK s;
          if e = ERR_ABRT then Some (True, s)
          else if e \<noteq> ERR_OK then do { s \<leftarrow> upd_pcb pcb (\<lambda>c. c\<lparr>refused_data := recv_data s\<rparr>) s; Some (False, s) }
          else Some (False, s)
        }
      }
      else Some (False, s))"

definition input_fin :: "'d tcp_env \<Rightarrow> nat \<Rightarrow> 'd tcp \<Rightarrow> (bool \<times> 'd tcp) option" where
  "input_fin E pcb s =
     (if recv_flags s AND TF_GOT_FIN \<noteq> 0 then do {
        c \<leftarrow> pcbs s pcb;
        if refused_data c \<noteq> 0 then do {
          b \<leftarrow> pb (mem_of s) (refused_data c);
          Some (False, s\<lparr>mem_of := put_pbuf (refused_data c) (b\<lparr>pflags := pflags b OR PBUF_FLAG_TCP_FIN\<rparr>) (mem_of s)\<rparr>)
        }
        else do {
          (e, s) \<leftarrow> TCP_EVENT_CLOSED E pcb (set_pcb pcb (fin_wnd c) s);
          Some (e = ERR_ABRT, s)
        }
      }
      else Some (False, s))"

definition input_end :: "'d tcp_env \<Rightarrow> nat \<Rightarrow> 'd tcp \<Rightarrow> (bool \<times> 'd tcp) option" where
  "input_end E pcb s = do {
     (closed, s) \<leftarrow> tcp_input_delayed_close E pcb (s\<lparr>tcp_input_pcb := 0\<rparr>);
     if closed then Some (True, s)
     else do { (e, s) \<leftarrow> tcp_output E pcb s; Some (False, s) }
   }"

fun unless_aborted :: "('d tcp \<Rightarrow> (bool \<times> 'd tcp) option) list \<Rightarrow> 'd tcp \<Rightarrow> 'd tcp option" where
  "unless_aborted [] s = Some s"
| "unless_aborted (f # fs) s = do { (stop, s) \<leftarrow> f s; if stop then Some s else unless_aborted fs s }"

definition input_deliver :: "'d tcp_env \<Rightarrow> nat \<Rightarrow> 'd tcp \<Rightarrow> 'd tcp option" where
  "input_deliver E pcb s =
     (if recv_flags s AND TF_RESET \<noteq> 0 then do {
        c \<leftarrow> pcbs s pcb;
        s \<leftarrow> TCP_EVENT_ERR E (err_fn c) (callback_arg c) ERR_RST s;
        s \<leftarrow> tcp_pcb_remove E ACTIVE pcb s;
        Some (free_pcb pcb s)
      }
      else unless_aborted [input_sent E pcb, tcp_input_delayed_close E pcb, input_recv E pcb, input_fin E pcb, input_end E pcb] s)"

definition input_aborted :: "'d tcp_env \<Rightarrow> 'd tcp \<Rightarrow> 'd tcp option" where
  "input_aborted E s = do {
     let s = s\<lparr>tcp_input_pcb := 0, recv_data := 0\<rparr>;
     if inseg_p s \<noteq> 0 then do { s \<leftarrow> free_packet (ip_env E) (inseg_p s) s; Some (s\<lparr>inseg_p := 0\<rparr>) }
     else Some s
   }"

text \<open>A segment of a connection: first the data the application refused before.\<close>

definition input_segment :: "'d tcp_env \<Rightarrow> nat \<Rightarrow> nat \<Rightarrow> 'd tcp \<Rightarrow> 'd tcp option" where
  "input_segment E pcb p s = do {
     b \<leftarrow> pb (mem_of s) p;
     let h = (if has_flag s TCP_PSH then put_pbuf p (b\<lparr>pflags := pflags b OR PBUF_FLAG_PUSH\<rparr>) (mem_of s) else mem_of s);
     let s = s\<lparr>mem_of := h, inseg_len := tot_len b, inseg_p := p, recv_data := 0, recv_flags := 0, recv_acked := 0\<rparr>;
     c \<leftarrow> pcbs s pcb;
     (drop, s) \<leftarrow> (if refused_data c \<noteq> 0 then do {
         (e, s) \<leftarrow> tcp_process_refused_data E pcb s;
         c \<leftarrow> pcbs s pcb;
         Some (e = ERR_ABRT \<or> refused_data c \<noteq> 0 \<and> 0 < tcplen s, s)
       } else Some (False, s));
     s \<leftarrow> (if drop then do {
         c \<leftarrow> pcbs s pcb;
         if rcv_ann_wnd c = 0 then do { (e, s) \<leftarrow> tcp_send_empty_ack E pcb s; Some s } else Some s
       }
       else do {
         (e, s) \<leftarrow> tcp_process E pcb (s\<lparr>tcp_input_pcb := pcb\<rparr>);
         if e \<noteq> ERR_ABRT then input_deliver E pcb s else Some s
       });
     input_aborted E s
   }"

definition for_pcb :: "'d tcp \<Rightarrow> nat \<Rightarrow> bool" where
  "for_pcb s p \<longleftrightarrow> (case pcbs s p of None \<Rightarrow> False
     | Some c \<Rightarrow> remote_port c = hdr_src s \<and> local_port c = hdr_dest s \<and> remote_ip c = current_iphdr_src s \<and> local_ip c = current_iphdr_dest s)"

definition for_lpcb :: "'d tcp \<Rightarrow> nat \<Rightarrow> bool" where
  "for_lpcb s p \<longleftrightarrow> (case lpcbs s p of None \<Rightarrow> False
     | Some l \<Rightarrow> l_local_port l = hdr_dest s \<and> (l_local_ip l = current_iphdr_dest s \<or> ip4_addr_isany (l_local_ip l)))"

definition to_front :: "nat \<Rightarrow> nat list \<Rightarrow> nat list" where
  "to_front p ps = p # remove1 p ps"

definition tcp_demux :: "'d tcp_env \<Rightarrow> nat \<Rightarrow> 'd tcp \<Rightarrow> 'd tcp option" where
  "tcp_demux E p s =
     (case find (for_pcb s) (tcp_active_pcbs s) of
        Some pcb \<Rightarrow> input_segment E pcb p (s\<lparr>tcp_active_pcbs := to_front pcb (tcp_active_pcbs s)\<rparr>)
      | None \<Rightarrow>
          (case find (for_pcb s) (tcp_tw_pcbs s) of
             Some pcb \<Rightarrow> do { s \<leftarrow> tcp_timewait_input E pcb s; free_packet (ip_env E) p s }
           | None \<Rightarrow>
               (case find (for_lpcb s) (tcp_listen_pcbs s) of
                  Some lpcb \<Rightarrow> do {
                    s \<leftarrow> tcp_listen_input E lpcb (s\<lparr>tcp_listen_pcbs := to_front lpcb (tcp_listen_pcbs s)\<rparr>);
                    free_packet (ip_env E) p s
                  }
                | None \<Rightarrow> do {
                    s \<leftarrow> (if in_hdr_flags s AND TCP_RST = 0 then answer_rst E s else Some s);
                    free_packet (ip_env E) p s
                  })))"

text \<open>
  The options end in the first pbuf or in the second; \<open>None\<close> in the pair when they do not. The payload then starts behind them.
\<close>

definition hide_header :: "nat \<Rightarrow> nat \<Rightarrow> 'd tcp \<Rightarrow> (bool \<times> 'd tcp) option" where
  "hide_header p hdrlen s = do {
     b \<leftarrow> pb (mem_of s) p;
     let optlen = of_nat hdrlen - TCP_HLEN;
     let s = s\<lparr>tcphdr_optlen := optlen, tcphdr_opt2 := 0\<rparr>;
     if hdrlen \<le> unat (plen b) then do {
       (e, h) \<leftarrow> pbuf_header p (- int hdrlen) (mem_of s);
       Some (True, s\<lparr>mem_of := h, tcphdr_opt1len := optlen\<rparr>)
     }
     else do {
       (e, h) \<leftarrow> pbuf_header p (- int (unat TCP_HLEN)) (mem_of s);
       b \<leftarrow> pb h p;
       let opt1len = plen b;
       let opt2len = optlen - opt1len;
       (e, h) \<leftarrow> pbuf_header p (- int (unat opt1len)) h;
       b \<leftarrow> pb h p;
       d \<leftarrow> pb h (pnext b);
       let s = s\<lparr>mem_of := h, tcphdr_opt1len := opt1len\<rparr>;
       if plen d < opt2len then Some (False, s)
       else do {
         (e, h) \<leftarrow> pbuf_header (pnext b) (- int (unat opt2len)) h;
         b \<leftarrow> pb h p;
         Some (True, s\<lparr>mem_of := put_pbuf p (b\<lparr>tot_len := tot_len b - opt2len\<rparr>) h, tcphdr_opt2 := payload d\<rparr>)
       }
     }
   }"

text \<open>Fields of the header to host order, in place.\<close>

definition convert_header :: "'d tcp \<Rightarrow> 'd tcp" where
  "convert_header s =
     (let m = bytes (mem_of s); a = tcphdr s;
          sq = lwip_htonl (net32 m (a + 4)); ak = lwip_htonl (net32 m (a + 8));
          le16 = (\<lambda>w :: u16. [ucast w, ucast (drop_bit 8 w)]);
          h = memcpy_to a (le16 (net16 m a)) (mem_of s);
          h = memcpy_to (a + 2) (le16 (net16 m (a + 2))) h;
          h = memcpy_to (a + 4) (le32_bytes sq) h;
          h = memcpy_to (a + 8) (le32_bytes ak) h;
          h = memcpy_to (a + 14) (le16 (net16 m (a + 14))) h
      in s\<lparr>mem_of := h, in_seqno := sq, in_ackno := ak, in_flags := TCPH_FLAGS m a\<rparr>)"

definition tcp_input :: "'d tcp_env \<Rightarrow> nat \<Rightarrow> nat \<Rightarrow> 'd tcp \<Rightarrow> 'd tcp option" where
  "tcp_input E p inp s = do {
     b \<leftarrow> pb (mem_of s) p;
     let s = s\<lparr>tcphdr := payload b\<rparr>;
     let hdrlen = unat (TCPH_HDRLEN (bytes (mem_of s)) (payload b)) * 4;
     if plen b < TCP_HLEN then free_packet (ip_env E) p s
     else if ip4_addr_isbroadcast (current_iphdr_dest s) (iface (ip_env E) (current_netif s)) \<or> ip4_addr_ismulticast (current_iphdr_dest s)
     then free_packet (ip_env E) p s
     else if hdrlen < unat TCP_HLEN \<or> unat (tot_len b) < hdrlen then free_packet (ip_env E) p s
     else do {
       (fits, s) \<leftarrow> hide_header p hdrlen s;
       if \<not> fits then free_packet (ip_env E) p s
       else do {
         let s = convert_header s;
         b \<leftarrow> pb (mem_of s) p;
         tcp_demux E p (s\<lparr>tcplen := tot_len b + (if in_flags s AND (TCP_FIN OR TCP_SYN) \<noteq> 0 then 1 else 0)\<rparr>)
       }
     }
   }"

end
