(* ===== verification/Tcp_Frame.thy ===== *)
theory Tcp_Frame
  imports Tcp_Process
begin

unbundle bit_operations_syntax

named_theorems send_frame

lemma upd_entry_more [simp]: "arp.more (upd_entry i f s) = arp.more s"
  by (simp add: upd_entry_def)

lemma ethernet_output_more: "ethernet_output A n p a b t s = Some (e, s') \<Longrightarrow> arp.more s' = arp.more s"
  by (auto simp: ethernet_output_def bind_eq_Some_conv Let_def case_prod_beta' split: if_splits)

lemma etharp_raw_more: "etharp_raw A n a b c d f g op s = Some (e, s') \<Longrightarrow> arp.more s' = arp.more s"
  by (auto simp: etharp_raw_def bind_eq_Some_conv Let_def split: if_splits prod.splits dest!: ethernet_output_more)

lemma etharp_request_more: "etharp_request A n ip s = Some (e, s') \<Longrightarrow> arp.more s' = arp.more s"
  "etharp_request_dst A n ip hw s = Some (e, s') \<Longrightarrow> arp.more s' = arp.more s"
  by (auto simp: etharp_request_def etharp_request_dst_def Let_def dest: etharp_raw_more)

lemma etharp_free_entry_more: "etharp_free_entry A i s = Some s' \<Longrightarrow> arp.more s' = arp.more s"
  by (auto simp: etharp_free_entry_def bind_eq_Some_conv Let_def split: if_splits prod.splits)

lemma etharp_find_entry_more: "etharp_find_entry A ip f s = Some (r, s') \<Longrightarrow> arp.more s' = arp.more s"
  by (auto simp: etharp_find_entry_def Let_def split: sum.splits if_splits option.splits dest: etharp_free_entry_more)

lemma etharp_output_to_arp_index_more: "etharp_output_to_arp_index A n q i s = Some (e, s') \<Longrightarrow> arp.more s' = arp.more s"
  by (auto simp: etharp_output_to_arp_index_def Let_def bind_eq_Some_conv split: if_splits prod.splits
      dest!: ethernet_output_more etharp_request_more)

lemma queue_or_send_more: "queue_or_send A n q i r s = Some (e, s') \<Longrightarrow> arp.more s' = arp.more s"
  by (auto simp: queue_or_send_def Let_def bind_eq_Some_conv split: if_splits prod.splits dest!: ethernet_output_more)

lemma etharp_query_more: "etharp_query A n ip q s = Some (e, s') \<Longrightarrow> arp.more s' = arp.more s"
  by (auto simp: etharp_query_def Let_def bind_eq_Some_conv split: if_splits option.splits sum.splits prod.splits
      dest!: queue_or_send_more etharp_request_more etharp_find_entry_more)

lemma etharp_output_more: "etharp_output A n q ip s = Some (e, s') \<Longrightarrow> arp.more s' = arp.more s"
  by (auto simp: etharp_output_def Let_def split: if_splits option.splits
      dest!: ethernet_output_more etharp_output_to_arp_index_more etharp_query_more)

section \<open>IP\<close>

text \<open>
  The state of TCP, which the layers below do not touch. Fragmentation belongs to them as well, and so does the timer.
\<close>

abbreviation tcp_part :: "'d tcp \<Rightarrow> unit tcp_ext" where "tcp_part s \<equiv> ip.more s"

definition tcp_quiet :: "'d tcp_env \<Rightarrow> bool" where
  "tcp_quiet E \<longleftrightarrow> (\<forall>p n d s e s'. ip4_frag (ip_env E) p n d s = Some (e, s') \<longrightarrow> tcp_part s' = tcp_part s) \<and>
     (\<forall>s. tcp_part (timer_needed E s) = tcp_part s)"

lemma ip_more_of_arp: "arp.more s' = arp.more s \<Longrightarrow> tcp_part s' = tcp_part s"
  by (cases s; cases s') simp

lemma ip_route_part:
  assumes "tcp_quiet E" "(if mtu (iface (ip_env E) n) \<noteq> 0 \<and> mtu (iface (ip_env E) n) < k then ip4_frag (ip_env E) p n d s
      else etharp_output (arp_env (ip_env E)) n p d s) = Some (e, s')"
  shows "tcp_part s' = tcp_part s"
proof (cases "mtu (iface (ip_env E) n) \<noteq> 0 \<and> mtu (iface (ip_env E) n) < k")
  case True
  with assms show ?thesis unfolding tcp_quiet_def by auto
next
  case False
  with assms(2) have "etharp_output (arp_env (ip_env E)) n p d s = Some (e, s')" by (simp only: if_False)
  from ip_more_of_arp [OF etharp_output_more [OF this]] show ?thesis .
qed

lemma ip4_output_if_src_part:
  assumes q: "tcp_quiet E" and r: "ip4_output_if_src (ip_env E) p src dst tt ts proto n s = Some (e, s')"
  shows "tcp_part s' = tcp_part s"
proof (cases dst)
  case None
  then show ?thesis using r ip_route_part [OF q] by (auto simp: ip4_output_if_src_def bind_eq_Some_conv)
next
  case (Some d)
  obtain e1 h where h: "pbuf_header p (int IP_HLEN) (mem_of s) = Some (e1, h)"
    using r Some by (auto simp: ip4_output_if_src_def bind_eq_Some_conv)
  show ?thesis
  proof (cases "e1 = 0")
    case False
    then show ?thesis using r Some h by (auto simp: ip4_output_if_src_def)
  next
    case True
    let ?h = "\<lambda>b. memcpy_to (payload b) (ip_hdr 0x45 ts (tot_len b) (ip_id s) tt proto (case src of None \<Rightarrow> IPADDR_ANY | Some a \<Rightarrow> a) d) h"
    obtain b where b: "pb h p = Some b" using r Some h True by (auto simp: ip4_output_if_src_def bind_eq_Some_conv)
    have "(if mtu (iface (ip_env E) n) \<noteq> 0 \<and> mtu (iface (ip_env E) n) < unat (tot_len b) then ip4_frag (ip_env E) p n d (s\<lparr>mem_of := ?h b, ip_id := ip_id s + 1\<rparr>)
      else etharp_output (arp_env (ip_env E)) n p d (s\<lparr>mem_of := ?h b, ip_id := ip_id s + 1\<rparr>)) = Some (e, s')"
      using r Some h True b by (simp add: ip4_output_if_src_def Let_def)
    from ip_route_part [OF q this] show ?thesis by simp
  qed
qed

lemma ip4_output_if_part [send_frame]:
  assumes "ip4_output_if (ip_env E) p src dst tt ts proto n s = Some (e, s')" "tcp_quiet E"
  shows "tcp_part s' = tcp_part s"
  using assms by (auto simp: ip4_output_if_def Let_def intro: ip4_output_if_src_part)

lemma free_packet_part [send_frame]: "free_packet E p s = Some s' \<Longrightarrow> ip.more s' = ip.more s"
  by (auto simp: free_packet_def bind_eq_Some_conv split: prod.splits)

text \<open>States that agree on the part of TCP agree on its variables.\<close>

lemma tcp_part_fields:
  assumes "tcp_part s' = tcp_part s"
  shows "pcbs s' = pcbs s" "lpcbs s' = lpcbs s" "free_pcbs s' = free_pcbs s" "free_segs s' = free_segs s"
    "tcp_bound_pcbs s' = tcp_bound_pcbs s" "tcp_listen_pcbs s' = tcp_listen_pcbs s" "tcp_active_pcbs s' = tcp_active_pcbs s"
    "tcp_tw_pcbs s' = tcp_tw_pcbs s" "tcp_ticks s' = tcp_ticks s" "recv_data s' = recv_data s" "recv_flags s' = recv_flags s"
    "recv_acked s' = recv_acked s" "in_seqno s' = in_seqno s" "in_ackno s' = in_ackno s" "in_flags s' = in_flags s" "tcplen s' = tcplen s"
    "inseg_p s' = inseg_p s" "inseg_len s' = inseg_len s" "tcphdr s' = tcphdr s" "tcp_input_pcb s' = tcp_input_pcb s"
    "free_lpcbs s' = free_lpcbs s" "tcp_active_pcbs_changed s' = tcp_active_pcbs_changed s" "tcp_port s' = tcp_port s"
    "tcp_timer_ctr s' = tcp_timer_ctr s"
  using assms by (cases s; cases s'; simp)+

section \<open>TCP\<close>

text \<open>
  What the functions that acknowledge, send and free segments leave alone: the other blocks, the lists, the incoming segment, what was
  received, and of the block itself its state, the numbers to receive and to send next, the window and the refused data.
\<close>

definition conn :: "tcp_pcb \<Rightarrow> tcp_state \<times> u32 \<times> u16 \<times> nat \<times> u32" where
  "conn c = (pcb_state c, rcv_nxt c, rcv_wnd c, refused_data c, snd_nxt c)"

definition around :: "nat \<Rightarrow> 'd tcp \<Rightarrow> (nat \<Rightarrow> tcp_pcb option) \<times> (nat \<Rightarrow> tcp_pcb_listen option) \<times> nat list list" where
  "around p s = ((pcbs s)(p := None), lpcbs s, [tcp_bound_pcbs s, tcp_listen_pcbs s, tcp_active_pcbs s, tcp_tw_pcbs s, free_pcbs s, free_lpcbs s])"

definition segment_in :: "'d tcp \<Rightarrow> u32 \<times> u32 \<times> u8 \<times> u16 \<times> nat \<times> u16 \<times> nat \<times> nat \<times> u8 \<times> u32 \<times> nat" where
  "segment_in s = (in_seqno s, in_ackno s, in_flags s, tcplen s, inseg_p s, inseg_len s, tcphdr s, recv_data s, recv_flags s, tcp_ticks s, tcp_input_pcb s)"

definition view :: "nat \<Rightarrow> 'd tcp \<Rightarrow> _" where
  "view p s = (map_option conn (pcbs s p), around p s, segment_in s)"

lemma view_part:
  assumes "tcp_part s' = tcp_part s"
  shows "view p s' = view p s"
  by (simp add: view_def around_def segment_in_def tcp_part_fields [OF assms])

lemma view_mem [simp]: "view p (s\<lparr>mem_of := h\<rparr>) = view p s" "view p (s\<lparr>free_segs := n\<rparr>) = view p s"
  "view p (s\<lparr>recv_acked := k\<rparr>) = view p s"
  by (simp_all add: view_def around_def segment_in_def)

lemma set_pcb_simps [simp]: "pcbs (set_pcb p c s) = (pcbs s)(p \<mapsto> c)" "mem_of (set_pcb p c s) = mem_of s" "tcp_ticks (set_pcb p c s) = tcp_ticks s"
  "tcplen (set_pcb p c s) = tcplen s" "in_ackno (set_pcb p c s) = in_ackno s" "in_flags (set_pcb p c s) = in_flags s"
  "recv_flags (set_pcb p c s) = recv_flags s" "recv_data (set_pcb p c s) = recv_data s" "in_seqno (set_pcb p c s) = in_seqno s"
  "inseg_p (set_pcb p c s) = inseg_p s" "inseg_len (set_pcb p c s) = inseg_len s" "tcphdr (set_pcb p c s) = tcphdr s"
  "recv_acked (set_pcb p c s) = recv_acked s" "segment_in (set_pcb p c s) = segment_in s" "around p (set_pcb p c s) = around p s"
  "tcp_active_pcbs (set_pcb p c s) = tcp_active_pcbs s" "tcp_tw_pcbs (set_pcb p c s) = tcp_tw_pcbs s"
  by (simp_all add: set_pcb_def segment_in_def around_def)

lemma view_set: "pcbs s p = Some c \<Longrightarrow> conn d = conn c \<Longrightarrow> view p (set_pcb p d s) = view p s"
  by (simp add: view_def)

lemma upd_pcb_Some: "upd_pcb p f s = Some s' \<longleftrightarrow> (\<exists>c. pcbs s p = Some c \<and> s' = set_pcb p (f c) s)"
  by (auto simp: upd_pcb_def split: option.splits)

lemma view_upd: "upd_pcb p f s = Some s' \<Longrightarrow> (\<And>c. conn (f c) = conn c) \<Longrightarrow> view p s' = view p s"
  by (auto simp: upd_pcb_Some intro: view_set)

lemma conn_flags [simp]: "conn (set_tflags f c) = conn c" "conn (clear_tflags f c) = conn c" "conn (tcp_ack_now c) = conn c"
  by (simp_all add: conn_def set_tflags_def clear_tflags_def tcp_ack_now_def)

lemma send_and_free_part:
  assumes "send_and_free E q a b tt ts s = Some (e, s')" "tcp_quiet E"
  shows "tcp_part s' = tcp_part s"
  using assms(1) by (auto simp: send_and_free_def bind_eq_Some_conv Let_def split: if_splits
      dest!: free_packet_part ip4_output_if_part [OF _ assms(2)])

lemma alloc_header_view:
  assumes "tcp_output_alloc_header E p a b n s = Some (q, s')"
  shows "view p s' = view p s"
proof -
  have c: "conn (c\<lparr>rcv_ann_right_edge := x\<rparr>) = conn c" for c x by (simp add: conn_def)
  show ?thesis using assms
    by (auto simp: tcp_output_alloc_header_def bind_eq_Some_conv Let_def c split: if_splits intro!: trans [OF view_set])
qed

lemma tcp_send_empty_ack_view:
  assumes "tcp_send_empty_ack E p s = Some (e, s')" "tcp_quiet E"
  shows "view p s' = view p s"
  using assms(1) by (auto simp: tcp_send_empty_ack_def bind_eq_Some_conv split: if_splits
      dest!: alloc_header_view view_part [where p = p, OF send_and_free_part [OF _ assms(2)]] view_upd)

lemma tcp_seg_free_view:
  assumes "tcp_seg_free E g s = Some s'"
  shows "view p s' = view p s"
  using assms by (auto simp: tcp_seg_free_def bind_eq_Some_conv split: if_splits dest!: view_part [where p = p, OF free_packet_part])

lemma tcp_segs_free_view: "tcp_segs_free E gs s = Some s' \<Longrightarrow> view p s' = view p s"
  by (induction gs arbitrary: s) (auto simp: bind_eq_Some_conv dest: tcp_seg_free_view [where p = p])

lemma drop_acked_view: "drop_acked E P gs s = Some (rest, k, s') \<Longrightarrow> view p s' = view p s"
  by (induction gs arbitrary: s k rest) (force simp: bind_eq_Some_conv split: if_splits dest: tcp_seg_free_view [where p = p])+

lemma conn_ack [simp]: "conn (update_snd_wnd a b w c) = conn c" "conn (duplicate_ack h x n e c) = conn c" "conn (rtt_estimate t x c) = conn c"
  "new_ack x c = Some d \<Longrightarrow> conn d = conn c"
  by (auto simp: conn_def update_snd_wnd_def start_persist_def duplicate_ack_def inflate_cwnd_def tcp_rexmit_fast_def tcp_rexmit_def count_rexmit_def
      set_tflags_def rtt_estimate_def new_ack_def clear_tflags_def Let_def split: if_splits list.splits)

lemma view_pcb:
  assumes "view p s' = view p s" "pcbs s p = Some c"
  obtains c' where "pcbs s' p = Some c'" "conn c' = conn c"
  using assms by (auto simp: view_def)

lemma ack_unacked_view:
  assumes "ack_unacked E p s = Some s'"
  shows "view p s' = view p s"
proof -
  obtain c d rest k t where c: "pcbs s p = Some c" "new_ack (in_ackno s) c = Some d"
    and t: "drop_acked E (acked_by (in_ackno s)) (unacked d) s = Some (rest, k, t)"
    and s': "s' = set_pcb p (d\<lparr>unacked := rest, snd_queuelen := snd_queuelen d - k, rtime := (if rest = [] then -1 else 0), polltmr := 0\<rparr>) t"
    using assms by (auto simp: ack_unacked_def bind_eq_Some_conv)
  have v: "view p t = view p s" by (rule drop_acked_view [OF t])
  obtain e where e: "pcbs t p = Some e" "conn e = conn c" using view_pcb [OF v c(1)] .
  have "conn d = conn c" using c(2) by simp
  then have "view p s' = view p t" unfolding s' using e by (intro view_set [OF e(1)]) (simp add: conn_def)
  with v show ?thesis by simp
qed

lemma ack_unsent_view:
  assumes "ack_unsent E p s = Some s'"
  shows "view p s' = view p s"
proof -
  obtain c rest k t where c: "pcbs s p = Some c"
    and t: "drop_acked E (acked_unsent (in_ackno s) (snd_nxt c)) (unsent c) s = Some (rest, k, t)"
    and s': "s' = set_pcb p (c\<lparr>unsent := rest, unsent_oversize := (if unsent c \<noteq> [] \<and> rest = [] then 0 else unsent_oversize c),
       snd_queuelen := snd_queuelen c - k, snd_buf := snd_buf c + recv_acked t\<rparr>) t"
    using assms by (auto simp: ack_unsent_def bind_eq_Some_conv)
  have v: "view p t = view p s" by (rule drop_acked_view [OF t])
  obtain e where e: "pcbs t p = Some e" "conn e = conn c" using view_pcb [OF v c] .
  have "view p s' = view p t" unfolding s' using e by (intro view_set [OF e(1)]) (simp add: conn_def)
  with v show ?thesis by simp
qed

lemma receive_ack_view:
  assumes r: "receive_ack E p s = Some s'" and q: "tcp_quiet E"
  shows "view p s' = view p s"
proof -
  obtain c where c: "pcbs s p = Some c" using r by (auto simp: receive_ack_def bind_eq_Some_conv)
  define d where "d = update_snd_wnd (in_seqno s) (in_ackno s) (hdr_wnd s) c"
  define t where "t = set_pcb p d s"
  have v1: "view p t = view p s" unfolding t_def using c by (rule view_set) (simp add: d_def)
  have d: "pcbs t p = Some d" by (simp add: t_def)
  obtain t2 t3 where t2: "(if TCP_SEQ_LEQ (in_ackno s) (lastack d)
          then Some (set_pcb p (duplicate_ack (mem_of t) (in_ackno s) (tcplen t) (ucast (snd_wnd c) + snd_wl2 c) d) t)
          else if TCP_SEQ_BETWEEN (in_ackno s) (lastack d + 1) (snd_nxt d) then ack_unacked E p t
          else tcp_send_empty_ack E p t \<bind> (\<lambda>(e, s). Some s)) = Some t2"
    and t3: "ack_unsent E p t2 = Some t3" "upd_pcb p (rtt_estimate (tcp_ticks t3) (in_ackno s)) t3 = Some s'"
    using r c unfolding receive_ack_def d_def t_def by (simp add: bind_eq_Some_conv Let_def del: set_pcb_simps) blast
  have "view p t2 = view p t"
    using t2 by (auto simp: bind_eq_Some_conv split: if_splits
        dest: ack_unacked_view tcp_send_empty_ack_view [OF _ q] intro: view_set [OF d])
  moreover have "view p t3 = view p t2" using t3(1) by (rule ack_unsent_view)
  moreover have "view p s' = view p t3" using t3(2) by (rule view_upd) simp
  ultimately show ?thesis using v1 by simp
qed

lemma tcp_parseopt_view: "tcp_parseopt p s = Some s' \<Longrightarrow> view p s' = view p s"
  by (auto simp: tcp_parseopt_def bind_eq_Some_conv conn_def intro: view_set)

end
