(* ===== verification/Pbuf_Trim.thy ===== *)
theory Pbuf_Trim
  imports Tcp_In Pbuf_Correct
begin

text \<open>
  The two ways a received segment is trimmed: bytes cut off the front (\<open>trim_front\<close>, a part of \<^verbatim>\<open>tcp_receive\<close>) and the end
  (\<^verbatim>\<open>pbuf_realloc\<close>).
\<close>

unbundle bit_operations_syntax

declare of_nat_unat [simp del]

section \<open>The front\<close>

text \<open>The payload of a pbuf from the heap or a pool lies behind its structure.\<close>

definition placed :: "store \<Rightarrow> nat list \<Rightarrow> bool" where
  "placed h as \<longleftrightarrow> (\<forall>a \<in> set as. ptype (the_pb h a) = PBUF_RAM \<or> ptype (the_pb h a) = PBUF_POOL \<longrightarrow> a + SIZEOF_STRUCT_PBUF \<le> payload (the_pb h a))"

definition shrunk :: "store \<Rightarrow> nat list \<Rightarrow> store \<Rightarrow> bool" where
  "shrunk h as h' \<longleftrightarrow> bytes h' = bytes h \<and> (\<forall>a. a \<notin> set as \<longrightarrow> pb h' a = pb h a) \<and> (\<forall>x. in_bufs h' as x \<longrightarrow> in_bufs h as x) \<and>
     (\<forall>a. ptype (the_pb h' a) = ptype (the_pb h a) \<and> payload (the_pb h a) \<le> payload (the_pb h' a))"

lemma shrunk_placed: "shrunk h as h' \<Longrightarrow> placed h as \<Longrightarrow> placed h' as"
  unfolding shrunk_def placed_def by (metis le_trans)

lemma s16_of_neg: "0 \<le> off \<Longrightarrow> off < 32768 \<Longrightarrow> s16_of (- off) = - off"
  by (simp only: s16_of_def signed_of_int) (simp add: signed_take_bit_int_eq_self_iff)

lemma header_back:
  assumes "pb h p = Some b" "p \<noteq> 0" "placed h [p]" "0 < k" "k \<le> unat (plen b)"
  shows "pbuf_header p (- int k) h = Some (0, put_pbuf p (b\<lparr>payload := payload b + k, plen := plen b - of_nat k, tot_len := tot_len b - of_nat k\<rparr>) h)"
  using assms by (auto simp: pbuf_header_def pbuf_header_impl_def Let_def placed_def the_pb_def nat_add_distrib)

definition cut_front :: "u16 \<Rightarrow> nat \<Rightarrow> int \<Rightarrow> store \<Rightarrow> store option" where
  "cut_front nt p off h = do { (q, off, h) \<leftarrow> trim_loop nt p off h; (e, h) \<leftarrow> pbuf_header q (s16_of (- off)) h; Some h }"

lemma trim_front_cut: "pb h p = Some b \<Longrightarrow> trim_front p off h = cut_front (of_int (int (unat (tot_len b)) - off)) p off h"
proof (cases "int (unat (plen b)) < off")
  case False
  assume "pb h p = Some b"
  with False show ?thesis unfolding trim_front_def cut_front_def by (subst trim_loop.simps) simp
qed (simp add: trim_front_def cut_front_def)

lemma unat_minus_of_nat: "k \<le> unat (x :: u16) \<Longrightarrow> unat (x - of_nat k) = unat x - k"
proof -
  assume k: "k \<le> unat x"
  then have "k < 65536" using unsigned_less [of x, where 'a = nat] by simp
  then have u: "unat (of_nat k :: u16) = k" by (simp add: unat_of_nat)
  with k have "of_nat k \<le> x" by (simp add: word_le_nat_alt)
  then show ?thesis using u by (simp add: Word.unat_sub)
qed

lemma unat_eq: "unat (x :: u16) = n \<Longrightarrow> of_nat n = x"
  by (auto simp: of_nat_unat)

lemma cut_front_ok:
  assumes "chain h p as" "distinct as" "tots h as" "placed h as" "0 < k" "k \<le> total h as" "k < 32768"
    "nt = of_nat (total h as - k)"
  shows "\<exists>h'. cut_front nt p (int k) h = Some h' \<and> chain h' p as \<and> tots h' as \<and> contents h' as = drop k (contents h as) \<and> shrunk h as h'"
  using assms
proof (induction as arbitrary: p k h)
  case (Cons a as)
  then obtain b where b: "p = a" "a \<noteq> 0" "pb h a = Some b" "chain h (pnext b) as" by auto
  have the: "the_pb h a = b" using b by (simp add: the_pb_def)
  have lb: "length (pbuf_bytes h b) = unat (plen b)" by (simp add: pbuf_bytes_def)
  show ?case
  proof (cases "unat (plen b) < k")
    case True
    let ?c = "b\<lparr>tot_len := nt, plen := 0\<rparr>" and ?k = "k - unat (plen b)"
    let ?h = "put_pbuf a ?c h"
    have same: "pb ?h x = pb h x" if "x \<in> set as" for x using that Cons.prems(2) by auto
    have sthe: "the_pb ?h x = the_pb h x" if "x \<in> set as" for x using same [OF that] by (simp add: the_pb_def)
    have tot: "total ?h as = total h as" by (rule total_cong) (use same in auto)
    have rest: "total h (a # as) - k = total h as - ?k" using True the by simp
    have "\<exists>h'. cut_front nt (pnext b) (int ?k) ?h = Some h' \<and> chain h' (pnext b) as \<and> tots h' as \<and>
        contents h' as = drop ?k (contents ?h as) \<and> shrunk ?h as h'"
    proof (rule Cons.IH)
      show "chain ?h (pnext b) as" using b(4) chain_cong [of as ?h h, OF same] by blast
      show "tots ?h as" using Cons.prems(3) tots_cong [of as ?h h, OF same] by simp
      show "placed ?h as" using Cons.prems(4) sthe by (auto simp: placed_def)
      show "nt = of_nat (total ?h as - ?k)"
        using Cons.prems(8) rest unfolding tot by (simp only:)
    qed (use True Cons.prems(2,6,7) the tot in auto)
    then obtain h' where h': "cut_front nt (pnext b) (int ?k) ?h = Some h'" "chain h' (pnext b) as" "tots h' as"
      "contents h' as = drop ?k (contents ?h as)" "shrunk ?h as h'" by blast
    have pa: "pb h' a = Some ?c" using h'(5) Cons.prems(2) by (simp add: shrunk_def)
    then have ta: "the_pb h' a = ?c" by (simp add: the_pb_def)
    have cc: "contents ?h as = contents h as" by (rule contents_cong) (use same in auto)
    have "cut_front nt p (int k) h = Some h'"
      using h'(1) b True unfolding cut_front_def by (subst trim_loop.simps) (simp add: of_nat_diff)
    moreover have "contents h' (a # as) = drop k (contents h (a # as))"
      using h'(4) True ta the lb Cons.prems(5) by (simp add: pbuf_bytes_def cc)
    moreover have "tots h' (a # as)"
    proof -
      have "total h' (a # as) = total h (a # as) - k"
        using calculation(2) by (metis length_contents length_drop)
      moreover have "total h (a # as) < 65536" using Cons.prems(3) by (rule total_tl_less)
      ultimately show ?thesis using h'(3) ta Cons.prems(8) by (simp add: unat_of_nat)
    qed
    moreover have "shrunk h (a # as) h'"
    proof -
      have "in_bufs h (a # as) x" if "in_bufs h' (a # as) x" for x
      proof -
        have "in_bufs h' as x" using that ta by (auto simp: in_bufs_def)
        then have "in_bufs ?h as x" using h'(5) by (simp add: shrunk_def)
        then show ?thesis using sthe by (auto simp: in_bufs_def)
      qed
      moreover have "ptype (the_pb h' x) = ptype (the_pb h x) \<and> payload (the_pb h x) \<le> payload (the_pb h' x)" for x
      proof (cases "x = a")
        case False
        then have "the_pb ?h x = the_pb h x" by simp
        then show ?thesis using h'(5) unfolding shrunk_def by metis
      qed (use the ta in simp)
      ultimately show ?thesis using h'(5) the by (auto simp: shrunk_def)
    qed
    ultimately show ?thesis using b(1,2) h'(2) pa by auto
  next
    case False
    let ?c = "b\<lparr>payload := payload b + k, plen := plen b - of_nat k, tot_len := tot_len b - of_nat k\<rparr>"
    let ?h = "put_pbuf a ?c h"
    have same: "pb ?h x = pb h x" if "x \<in> set as" for x using that Cons.prems(2) by auto
    have le: "k \<le> unat (plen b)" "unat (plen b) \<le> unat (tot_len b)" using False Cons.prems(3) the by auto
    have pl: "unat (plen b - of_nat k) = unat (plen b) - k" "unat (tot_len b - of_nat k) = unat (tot_len b) - k"
      using False le Cons.prems(5) by (auto intro!: unat_minus_of_nat)
    have "cut_front nt p (int k) h = Some ?h"
      using header_back [OF b(3,2) _ Cons.prems(5)] Cons.prems(4,5,7) b False s16_of_neg [of "int k"] unfolding cut_front_def
      by (subst trim_loop.simps) (simp add: placed_def)
    moreover have "chain ?h p (a # as)" using b chain_put [OF Cons.prems(1) b(3), of ?c] by simp
    moreover have "tots ?h (a # as)"
      using Cons.prems(3) the le tots_cong [of as ?h h, OF same] total_cong [of as ?h h, OF same] by (simp add: pl)
    moreover have "contents ?h (a # as) = drop k (contents h (a # as))"
    proof -
      have "pbuf_bytes ?h ?c = drop k (pbuf_bytes h b)"
        by (rule nth_equalityI) (auto simp: pbuf_bytes_def pl ac_simps)
      moreover have "contents ?h as = contents h as" by (rule contents_cong) (use same in auto)
      ultimately show ?thesis using the le lb by simp
    qed
    moreover have "shrunk h (a # as) ?h"
      using the le by (auto simp: shrunk_def in_bufs_def pl split: if_splits)
    ultimately show ?thesis by blast
  qed
qed simp

lemma trim_front_ok:
  assumes "packet h p as" "placed h as" "0 < k" "k \<le> total h as" "k < 32768"
  shows "\<exists>h'. trim_front p (int k) h = Some h' \<and> packet h' p as \<and> contents h' as = drop k (contents h as) \<and> shrunk h as h'"
proof -
  obtain a bs where as: "as = a # bs" using assms(1) by (cases as) (auto simp: packet_def)
  then obtain b where b: "p = a" "pb h a = Some b" using assms(1) by (auto simp: packet_def)
  have t: "unat (tot_len b) = total h as" using assms(1) as b by (simp add: packet_def the_pb_def)
  have "\<exists>h'. cut_front (of_nat (total h as - k)) p (int k) h = Some h' \<and> chain h' p as \<and> tots h' as \<and>
      contents h' as = drop k (contents h as) \<and> shrunk h as h'"
    by (rule cut_front_ok) (use assms in \<open>auto simp: packet_def\<close>)
  moreover have "(of_int (int (unat (tot_len b)) - int k) :: u16) = of_nat (total h as - k)" using t assms(4) by (simp add: of_nat_diff)
  ultimately show ?thesis using b assms(1) trim_front_cut [of h p b "int k"] by (auto simp: packet_def)
qed

section \<open>The end\<close>

context custom_pbufs
begin

lemma free_chain:
  assumes "chain h p as" "distinct as"
  shows "\<exists>n h'. pbuf_free E p h = Some (n, h') \<and> bytes h' = bytes h \<and> (\<forall>a. a \<notin> set as \<longrightarrow> pb h' a = pb h a)"
proof -
  let ?xs = "takeWhile (\<lambda>a. pref (the_pb h a) = 1) as" and ?ys = "dropWhile (\<lambda>a. pref (the_pb h a) = 1) as"
  have d: "\<forall>x \<in> set ?xs. pref (the_pb h x) = 1" "?ys \<noteq> [] \<longrightarrow> pref (the_pb h (hd ?ys)) \<noteq> 1"
    using hd_dropWhile [of "\<lambda>a. pref (the_pb h a) = 1" as] by (auto dest: set_takeWhileD)
  have "set ?xs \<union> set ?ys = set as" by (metis set_append takeWhile_dropWhile_id)
  then have sub: "set ?xs \<subseteq> set as" "?ys \<noteq> [] \<longrightarrow> hd ?ys \<in> set as" using hd_in_set by blast+
  have "pbuf_free_loop E p 0 h = Some (0 + of_nat (length ?xs), if ?ys = [] then freed h ?xs
      else put_pbuf (hd ?ys) ((the_pb h (hd ?ys))\<lparr>pref := pref (the_pb h (hd ?ys)) - 1\<rparr>) (freed h ?xs))"
    by (rule free_loop_ok) (use assms d in auto)
  then show ?thesis using sub by (cases "p = 0") (auto simp: pbuf_free_def freed_def)
qed

end

definition cut_back :: "pbuf_env \<Rightarrow> u16 \<Rightarrow> nat \<Rightarrow> u16 \<Rightarrow> store \<Rightarrow> store option" where
  "cut_back E grow p r h =
     (case realloc_walk grow r p h of None \<Rightarrow> None
      | Some (q, rem_len, h) \<Rightarrow>
          (case pb h q of None \<Rightarrow> None
           | Some c \<Rightarrow>
               let h = put_pbuf q (c\<lparr>plen := rem_len, tot_len := rem_len\<rparr>) h
               in case (if pnext c \<noteq> 0 then map_option snd (pbuf_free E (pnext c) h) else Some h) of None \<Rightarrow> None
                  | Some h \<Rightarrow> Some (put_pbuf q (c\<lparr>plen := rem_len, tot_len := rem_len, pnext := 0\<rparr>) h)))"

lemma realloc_cut:
  "pb h p = Some b \<Longrightarrow> n < tot_len b \<Longrightarrow> pbuf_realloc E p n h = cut_back E (n - tot_len b) p n h"
  by (auto simp: pbuf_realloc_def cut_back_def not_less [symmetric])

definition shortened :: "store \<Rightarrow> nat list \<Rightarrow> nat list \<Rightarrow> store \<Rightarrow> bool" where
  "shortened h as bs h' \<longleftrightarrow> bytes h' = bytes h \<and> (\<forall>a. a \<notin> set as \<longrightarrow> pb h' a = pb h a) \<and> set bs \<subseteq> set as \<and> (\<forall>x. in_bufs h' bs x \<longrightarrow> in_bufs h as x)"

context custom_pbufs
begin

lemma cut_back_last:
  assumes "chain h p (a # as)" "distinct (a # as)" "the_pb h a = b" "r \<le> plen b"
  shows "\<exists>h'. cut_back E grow p r h = Some h' \<and> bytes h' = bytes h \<and> (\<forall>x. x \<notin> set (a # as) \<longrightarrow> pb h' x = pb h x) \<and>
    pb h' a = Some (b\<lparr>plen := r, tot_len := r, pnext := 0\<rparr>)"
proof -
  have b: "p = a" "a \<noteq> 0" "pb h a = Some b" "chain h (pnext b) as" using assms by (auto simp: the_pb_def)
  have w: "realloc_walk grow r p h = Some (a, r, h)" using b assms(4) by (subst realloc_walk.simps) (auto simp: not_less [symmetric])
  let ?h = "put_pbuf a (b\<lparr>plen := r, tot_len := r\<rparr>) h"
  have "chain ?h (pnext b) as = chain h (pnext b) as" by (rule chain_cong) (use assms(2) in auto)
  then have "chain ?h (pnext b) as" using b(4) by simp
  from free_chain [OF this] obtain n h' where f: "pbuf_free E (pnext b) ?h = Some (n, h')" "bytes h' = bytes h"
    "\<forall>x. x \<notin> set as \<longrightarrow> pb h' x = pb ?h x" using assms(2) by auto
  show ?thesis
  proof (cases "pnext b = 0")
    case True
    then show ?thesis using w b by (simp add: cut_back_def Let_def)
  next
    case False
    then show ?thesis using w b f by (simp add: cut_back_def Let_def)
  qed
qed

lemma cut_back_ok:
  assumes "chain h p as" "distinct as" "tots h as" "as \<noteq> []" "unat r \<le> total h as" "grow = r - of_nat (total h as)"
  shows "\<exists>h' bs. cut_back E grow p r h = Some h' \<and> chain h' p bs \<and> distinct bs \<and> tots h' bs \<and>
    contents h' bs = take (unat r) (contents h as) \<and> shortened h as bs h'"
  using assms
proof (induction as arbitrary: p r h)
  case (Cons a as)
  then obtain b where b: "p = a" "a \<noteq> 0" "pb h a = Some b" "chain h (pnext b) as" by auto
  have the: "the_pb h a = b" using b by (simp add: the_pb_def)
  have lb: "length (pbuf_bytes h b) = unat (plen b)" by (simp add: pbuf_bytes_def)
  show ?case
  proof (cases "plen b < r")
    case False
    obtain h' where h': "cut_back E grow p r h = Some h'" "bytes h' = bytes h" "\<forall>x. x \<notin> set (a # as) \<longrightarrow> pb h' x = pb h x"
      "pb h' a = Some (b\<lparr>plen := r, tot_len := r, pnext := 0\<rparr>)"
      using cut_back_last [OF Cons.prems(1,2) the, of r grow] False unfolding not_less by blast
    then have ta: "the_pb h' a = b\<lparr>plen := r, tot_len := r, pnext := 0\<rparr>" by (simp add: the_pb_def)
    have le: "unat r \<le> unat (plen b)" using False by (simp add: word_less_nat_alt)
    have "contents h' [a] = take (unat r) (contents h (a # as))"
      using ta the le lb h'(2) by (simp add: pbuf_bytes_def take_mem_slice min_def)
    moreover have "shortened h (a # as) [a] h'"
      using h' ta the le by (auto simp: shortened_def in_bufs_def)
    moreover have "chain h' p [a] \<and> distinct [a] \<and> tots h' [a]" using b h' ta by simp
    ultimately show ?thesis using h'(1) by blast
  next
    case True
    let ?h = "put_pbuf a (b\<lparr>tot_len := tot_len b + grow\<rparr>) h" and ?r = "r - plen b"
    have same: "pb ?h x = pb h x" if "x \<in> set as" for x using that Cons.prems(2) by auto
    have ur: "unat ?r = unat r - unat (plen b)" using True by (intro Word.unat_sub) (simp add: less_imp_le)
    have lt: "unat (plen b) < unat r" using True by (simp add: word_less_nat_alt)
    have tot: "total ?h as = total h as" by (rule total_cong) (use same in auto)
    have ne: "as \<noteq> []" using Cons.prems(5) lt the by auto
    have "\<exists>h' bs. cut_back E grow (pnext b) ?r ?h = Some h' \<and> chain h' (pnext b) bs \<and> distinct bs \<and> tots h' bs \<and>
        contents h' bs = take (unat ?r) (contents ?h as) \<and> shortened ?h as bs h'"
    proof (rule Cons.IH)
      show "chain ?h (pnext b) as" using b(4) chain_cong [of as ?h h, OF same] by blast
      show "tots ?h as" using Cons.prems(3) tots_cong [of as ?h h, OF same] by simp
      show "grow = ?r - of_nat (total ?h as)" unfolding tot using Cons.prems(6) the by (simp add: of_nat_unat)
    qed (use Cons.prems(2,5) the tot ur ne in auto)
    then obtain h' bs where h': "cut_back E grow (pnext b) ?r ?h = Some h'" "chain h' (pnext b) bs" "distinct bs" "tots h' bs"
      "contents h' bs = take (unat ?r) (contents ?h as)" "shortened ?h as bs h'" by blast
    have sub: "set bs \<subseteq> set as" "a \<notin> set bs" using h'(6) Cons.prems(2) by (auto simp: shortened_def)
    have pa: "pb h' a = Some (b\<lparr>tot_len := tot_len b + grow\<rparr>)" using h'(6) Cons.prems(2) by (simp add: shortened_def)
    then have ta: "the_pb h' a = b\<lparr>tot_len := tot_len b + grow\<rparr>" by (simp add: the_pb_def)
    have "cut_back E grow p r h = Some h'" using h'(1) b True unfolding cut_back_def by (subst realloc_walk.simps) simp
    moreover have "contents ?h as = contents h as" by (rule contents_cong) (use same in auto)
    then have c: "contents h' (a # bs) = take (unat r) (contents h (a # as))"
      using h'(5,6) ta the lb lt ur by (simp add: pbuf_bytes_def shortened_def)
    moreover have "tots h' (a # bs)"
    proof -
      have "total h' (a # bs) = unat r" using c Cons.prems(5) by (metis length_contents length_take min.absorb2)
      moreover have "of_nat (total h (a # as)) = tot_len b" using Cons.prems(3) the by (metis tots.simps(2) unat_eq)
      then have "tot_len b + grow = r" using Cons.prems(6) by simp
      ultimately show ?thesis using h'(4) ta by simp
    qed
    moreover have "shortened h (a # as) (a # bs) h'"
      using h'(6) ta the by (auto simp: shortened_def in_bufs_def the_pb_def same split: if_splits)
    ultimately show ?thesis using b(1,2) h'(2,3) pa sub by (intro exI [of _ h'] exI [of _ "a # bs"]) auto
  qed
qed simp

lemma realloc_ok:
  assumes "packet h p as" "unat n \<le> total h as"
  shows "\<exists>h' bs. pbuf_realloc E p n h = Some h' \<and> packet h' p bs \<and> contents h' bs = take (unat n) (contents h as) \<and> shortened h as bs h'"
proof -
  obtain a cs where as: "as = a # cs" using assms(1) by (cases as) (auto simp: packet_def)
  then obtain b where b: "p = a" "pb h a = Some b" using assms(1) by (auto simp: packet_def)
  have t: "unat (tot_len b) = total h as" using assms(1) as b by (simp add: packet_def the_pb_def)
  show ?thesis
  proof (cases "n < tot_len b")
    case True
    have "of_nat (total h as) = tot_len b" using t by (metis of_nat_unat ucast_id)
    then show ?thesis
      using realloc_cut [of h p b n] b True cut_back_ok [of h p as n "n - tot_len b"] assms as by (auto simp: packet_def)
  next
    case False
    then have "n = tot_len b" using assms(2) t by (metis linorder_not_less nless_le word_le_nat_alt)
    then have "pbuf_realloc E p n h = Some h" using b by (simp add: pbuf_realloc_def)
    moreover have "take (unat n) (contents h as) = contents h as" using t \<open>n = tot_len b\<close> by (simp add: length_contents)
    ultimately show ?thesis using assms(1) by (auto simp: shortened_def)
  qed
qed

end

declare of_nat_unat [simp]

end
