(* ===== verification/Tcp_Stream.thy ===== *)
theory Tcp_Stream
  imports Tcp_Frame Pbuf_Trim Ip4_Correct
begin

text \<open>
  The receiving side of a connection: whatever segments arrive, the application gets the bytes the peer sent, in order, once. The peer's
  bytes are a stream \<open>str\<close>; byte \<open>i\<close> has the sequence number \<open>isn + i\<close>.
\<close>

unbundle bit_operations_syntax

section \<open>Sequence numbers\<close>

definition sq :: "u32 \<Rightarrow> int \<Rightarrow> u32" where
  "sq isn z = isn + of_int z"

lemma sq_diff: "\<bar>a - b\<bar> < 2 ^ 31 \<Longrightarrow> sint (sq isn a - sq isn b) = a - b"
proof -
  assume "\<bar>a - b\<bar> < 2 ^ 31"
  moreover have "sq isn a - sq isn b = of_int (a - b)" by (simp add: sq_def)
  moreover have "sint (of_int (a - b) :: u32) = signed_take_bit 31 (a - b)" by (simp only: signed_of_int) simp
  ultimately show ?thesis by (simp add: signed_take_bit_int_eq_self_iff abs_if split: if_splits)
qed

lemma seq_less:
  assumes "\<bar>a - b\<bar> < 2 ^ 31"
  shows "TCP_SEQ_LT (sq isn a) (sq isn b) \<longleftrightarrow> a < b" "TCP_SEQ_LEQ (sq isn a) (sq isn b) \<longleftrightarrow> a \<le> b"
    "TCP_SEQ_GT (sq isn a) (sq isn b) \<longleftrightarrow> b < a" "TCP_SEQ_GEQ (sq isn a) (sq isn b) \<longleftrightarrow> b \<le> a"
  by (simp_all add: TCP_SEQ_LT_def TCP_SEQ_LEQ_def TCP_SEQ_GT_def TCP_SEQ_GEQ_def sq_diff [OF assms])

lemma seq_between:
  "\<bar>a - b\<bar> < 2 ^ 31 \<Longrightarrow> \<bar>a - c\<bar> < 2 ^ 31 \<Longrightarrow> TCP_SEQ_BETWEEN (sq isn a) (sq isn b) (sq isn c) \<longleftrightarrow> b \<le> a \<and> a \<le> c"
  by (simp add: TCP_SEQ_BETWEEN_def seq_less)

lemma seq_eq: "\<bar>a - b\<bar> < 2 ^ 31 \<Longrightarrow> sq isn a = sq isn b \<longleftrightarrow> a = b"
  using sq_diff [of a b isn] by auto

lemma ucast_u16: "(ucast (w :: u16) :: u32) = of_int (int (unat w))"
  by (simp add: unsigned_ucast_eq)

lemma unat_of_nat_small: "n < 65536 \<Longrightarrow> unat (of_nat n :: u16) = n"
  by (simp add: unat_of_nat)

lemma ucast_16: "(ucast (of_nat n :: u32) :: u16) = of_nat n" "(ucast (ucast w :: u32) :: u16) = w"
  by (transfer, simp)+

lemma sq_add: "sq isn a + of_int b = sq isn (a + b)" "sq isn a + 1 = sq isn (a + 1)" "sq isn a - 1 = sq isn (a - 1)"
  by (simp_all add: sq_def)

section \<open>The incoming segment\<close>

definition fin_len :: "'d tcp \<Rightarrow> nat" where
  "fin_len s = (if in_hdr_flags s AND TCP_FIN \<noteq> 0 then 1 else 0)"

text \<open>
  The pbufs \<open>as\<close> of the segment hold the bytes of the stream from position \<open>k\<close> on; the variables of \<^verbatim>\<open>tcp_input\<close> describe it. Its header is
  none of its data, and there is no SYN in it.
\<close>

definition holds :: "(nat \<Rightarrow> u8) \<Rightarrow> u32 \<Rightarrow> nat \<Rightarrow> nat list \<Rightarrow> 'd tcp \<Rightarrow> bool" where
  "holds str isn k as s \<longleftrightarrow> packet (mem_of s) (inseg_p s) as \<and> placed (mem_of s) as \<and>
     (\<forall>x. tcphdr s \<le> x \<and> x < tcphdr s + 20 \<longrightarrow> \<not> in_bufs (mem_of s) as x) \<and> in_hdr_flags s AND TCP_SYN = 0 \<and>
     contents (mem_of s) as = map str [k..<k + total (mem_of s) as] \<and> total (mem_of s) as < 32768 \<and>
     in_seqno s = sq isn (int k) \<and> inseg_len s = of_nat (total (mem_of s) as)"

lemma contents_bytes:
  assumes "\<And>x. in_bufs h as x \<Longrightarrow> bytes h' x = bytes h x" "\<And>a. a \<in> set as \<Longrightarrow> the_pb h' a = the_pb h a"
  shows "contents h' as = contents h as"
  using assms by (induction as) (auto simp: pbuf_bytes_def in_bufs_def intro!: mem_slice_cong)

lemma contents_memcpy:
  assumes "\<forall>x. a \<le> x \<and> x < a + n \<longrightarrow> \<not> in_bufs h as x" "a \<le> d" "d + length xs \<le> a + n"
  shows "contents (memcpy_to d xs h) as = contents h as"
  by (rule contents_bytes) (use assms in \<open>auto simp: mem_write_def split: if_splits\<close>)

lemma packet_memcpy [simp]: "packet (memcpy_to d xs h) p as = packet h p as" "placed (memcpy_to d xs h) as = placed h as"
  using chain_cong [of as "memcpy_to d xs h" h p] tots_cong [of as "memcpy_to d xs h" h] by (auto simp: packet_def placed_def)

lemma flags_write: "length xs = 4 \<Longrightarrow> TCPH_FLAGS (mem_write m (a + 4) xs) a = TCPH_FLAGS m a"
  by (simp add: TCPH_FLAGS_def net16_def ld16_def mem_write_def)

lemma flags_set: "TCPH_FLAGS (bytes (TCPH_FLAGS_SET a f h)) a = f AND 0x3f"
proof -
  let ?w = "net16 (bytes h) (a + 12) AND NOT TCP_FLAGS OR ucast f"
  have "mem_slice (mem_write (bytes h) (a + 12) (be16 ?w)) (a + 12) 2 = be16 ?w"
    using mem_slice_write_prefix [of "be16 ?w" 2 "bytes h" "a + 12"] by (simp add: be16_def)
  then have "net16 (bytes (TCPH_FLAGS_SET a f h)) (a + 12) = ?w" by (intro net16_be16) (simp add: TCPH_FLAGS_SET_def)
  then have "TCPH_FLAGS (bytes (TCPH_FLAGS_SET a f h)) a = ucast (?w AND TCP_FLAGS)" by (simp add: TCPH_FLAGS_def)
  also have "?w AND TCP_FLAGS = ucast (f AND 0x3f)"
    by (rule bit_word_eqI) (auto simp: bit_simps TCP_FLAGS_def dest: bit_imp_le_length)
  also have "ucast (ucast (f AND 0x3f) :: u16) = f AND 0x3f" by (rule bit_word_eqI) (auto simp: bit_simps)
  finally show ?thesis .
qed

section \<open>Trimming\<close>

lemma trim_to_expected:
  assumes c: "pcbs s p = Some c" "rcv_nxt c = sq isn (int n)" and h: "holds str isn k as s" and near: "\<bar>int k - int n\<bar> < 2 ^ 30"
    and tl: "tcplen s = of_nat (total (mem_of s) as + fin_len s)" and cov: "k \<le> n" "n < k + total (mem_of s) as + fin_len s"
  shows "\<exists>s'. receive_trim E p s = Some s' \<and> holds str isn n as s' \<and> total (mem_of s') as = k + total (mem_of s) as - n \<and>
    fin_len s' = fin_len s \<and> pcbs s' = pcbs s \<and> inseg_p s' = inseg_p s \<and> recv_data s' = recv_data s \<and> recv_flags s' = recv_flags s"
proof -
  let ?L = "total (mem_of s) as"
  have L: "?L < 32768" and f: "fin_len s \<le> 1" using h unfolding holds_def fin_len_def by simp_all
  have u: "unat (tcplen s) = ?L + fin_len s" unfolding tl using L f by (intro unat_of_nat_small) simp
  have tl': "(ucast (tcplen s) :: u32) = of_int (int (?L + fin_len s))" by (simp only: ucast_u16 u)
  have e: "in_seqno s + ucast (tcplen s) - 1 = sq isn (int k + int (?L + fin_len s) - 1)" "in_seqno s + 1 = sq isn (int k + 1)"
    using h unfolding tl' by (simp_all only: holds_def sq_add)
  have b: "TCP_SEQ_BETWEEN (rcv_nxt c) (in_seqno s + 1) (in_seqno s + ucast (tcplen s) - 1) \<longleftrightarrow> k < n"
    unfolding e c(2) using near cov L f by (subst seq_between) auto
  show ?thesis
  proof (cases "k < n")
    case False
    then have "k = n" using cov by simp
    moreover have "\<not> TCP_SEQ_LT (in_seqno s) (rcv_nxt c)" using h c(2) \<open>k = n\<close> by (simp add: holds_def seq_less)
    ultimately have "receive_trim E p s = Some s" using c(1) b by (simp add: receive_trim_def)
    then show ?thesis using h \<open>k = n\<close> by simp
  next
    case True
    have d: "sint (rcv_nxt c - in_seqno s) = int (n - k)" "rcv_nxt c - in_seqno s = of_nat (n - k)"
      using True near h c(2) sq_diff [of "int n" "int k" isn] by (auto simp: holds_def sq_def of_nat_diff)
    have k: "n - k \<le> ?L" using cov f by linarith
    obtain h1 where h1: "trim_front (inseg_p s) (int (n - k)) (mem_of s) = Some h1" "packet h1 (inseg_p s) as"
      "contents h1 as = drop (n - k) (contents (mem_of s) as)" "shrunk (mem_of s) as h1"
      using trim_front_ok [of "mem_of s" "inseg_p s" as "n - k"] h True k L by (auto simp: holds_def)
    have tot: "total h1 as = k + ?L - n" using arg_cong [OF h1(3), of length] True k by (simp add: length_contents)
    let ?h = "memcpy_to (tcphdr s + 4) (le32_bytes (rcv_nxt c)) h1"
    let ?s = "s\<lparr>mem_of := ?h, inseg_len := inseg_len s - ucast (rcv_nxt c - in_seqno s), in_seqno := rcv_nxt c\<rparr>"
    have r: "receive_trim E p s = Some ?s" using c(1) True h1(1) b d(1) by (simp add: receive_trim_def)
    have out: "\<forall>x. tcphdr s \<le> x \<and> x < tcphdr s + 20 \<longrightarrow> \<not> in_bufs h1 as x" using h h1(4) by (auto simp: holds_def shrunk_def)
    have "contents ?h as = map str [n..<n + total h1 as]"
    proof -
      have "contents ?h as = contents h1 as" by (rule contents_memcpy [OF out]) simp_all
      also have "\<dots> = map str (drop (n - k) [k..<k + ?L])" using h1(3) h by (simp add: holds_def drop_map)
      finally show ?thesis using True k by (simp add: drop_upt tot)
    qed
    moreover have fl: "in_hdr_flags ?s = in_hdr_flags s" using h1(4) by (simp add: in_hdr_flags_def flags_write shrunk_def)
    moreover have "inseg_len ?s = of_nat (total ?h as)"
    proof -
      have "inseg_len s = of_nat ?L" using h by (simp add: holds_def)
      moreover have "total ?h as = ?L - (n - k)" using tot True k by simp
      ultimately show ?thesis using k by (simp only: d(2) ucast_16 of_nat_diff) (simp add: d(2) ucast_16 of_nat_diff)
    qed
    moreover have "placed ?h as" using shrunk_placed [OF h1(4)] h by (simp add: holds_def)
    moreover have "k + ?L - n < 32768" using L cov True by linarith
    ultimately have "holds str isn n as ?s" using h h1(2) out c(2) tot by (simp add: holds_def)
    then show ?thesis using r tot fl by (simp add: fin_len_def)
  qed
qed

lemma inseg_tcplen_fin: "in_hdr_flags s AND TCP_SYN = 0 \<Longrightarrow> inseg_tcplen s = inseg_len s + of_nat (fin_len s)"
proof -
  assume "in_hdr_flags s AND TCP_SYN = 0"
  then have "in_hdr_flags s AND (TCP_FIN OR TCP_SYN) = in_hdr_flags s AND TCP_FIN" by (simp add: bit.conj_disj_distrib)
  moreover have "(ucast (ucast w + 1 :: u32) :: u16) = w + 1" for w :: u16
    by transfer (simp add: take_bit_eq_mod mod_mod_cancel mod_simps)
  ultimately show ?thesis by (simp add: inseg_tcplen_def tcplen_of_def fin_len_def in_hdr_flags_def ucast_16)
qed

text \<open>The window: \<open>w\<close> bytes at most are kept, and then no FIN.\<close>

lemma clear_fin_ok:
  assumes "holds str isn n as s"
  shows "fin_len (clear_fin s) = 0" "in_hdr_flags (clear_fin s) AND TCP_SYN = 0" "packet (mem_of (clear_fin s)) (inseg_p s) as"
    "contents (mem_of (clear_fin s)) as = contents (mem_of s) as" "total (mem_of (clear_fin s)) as = total (mem_of s) as"
    "inseg_p (clear_fin s) = inseg_p s" "pcbs (clear_fin s) = pcbs s" "in_seqno (clear_fin s) = in_seqno s"
    "recv_data (clear_fin s) = recv_data s" "recv_flags (clear_fin s) = recv_flags s"
proof -
  let ?f = "in_hdr_flags s AND NOT TCP_FIN"
  have syn: "in_hdr_flags s AND TCP_SYN = 0" using assms by (simp add: holds_def)
  have "in_hdr_flags (s\<lparr>mem_of := TCPH_FLAGS_SET (tcphdr s) ?f (mem_of s)\<rparr>) = ?f AND 0x3f"
    by (simp add: in_hdr_flags_def flags_set)
  moreover have "(?f AND 0x3f) AND TCP_FIN = 0" by (rule bit_word_eqI) (auto simp: bit_simps)
  moreover have "(?f AND 0x3f) AND TCP_SYN = 0"
    using syn by (auto simp: bit_eq_iff bit_simps)
  ultimately show "fin_len (clear_fin s) = 0" "in_hdr_flags (clear_fin s) AND TCP_SYN = 0"
    using syn by (auto simp: fin_len_def clear_fin_def)
  have "contents (TCPH_FLAGS_SET (tcphdr s) ?f (mem_of s)) as = contents (mem_of s) as"
    unfolding TCPH_FLAGS_SET_def by (rule contents_memcpy [where a = "tcphdr s" and n = 20]) (use assms in \<open>auto simp: holds_def be16_def\<close>)
  then show "contents (mem_of (clear_fin s)) as = contents (mem_of s) as" by (simp add: clear_fin_def)
qed (use assms in \<open>auto simp: clear_fin_def TCPH_FLAGS_SET_def holds_def\<close>)

lemma trim_window:
  assumes h: "holds str isn n as s" and w: "0 < w" and free: "\<And>p h. custom_free_function (pbufs E) p h = h\<lparr>RX_POOL := p # RX_POOL h\<rparr>"
  defines "L \<equiv> total (mem_of s) as"
  defines "d \<equiv> min L (unat w)" and "f \<equiv> (if L < unat w then fin_len s else 0)"
  shows "\<exists>s' bs. trim_to_wnd E w s = Some s' \<and> packet (mem_of s') (inseg_p s) bs \<and> contents (mem_of s') bs = map str [n..<n + d] \<and>
    tcplen s' = of_nat (d + f) \<and> fin_len s' = f \<and> pcbs s' = pcbs s \<and> inseg_p s' = inseg_p s \<and>
    in_seqno s' = in_seqno s \<and> recv_data s' = recv_data s \<and> recv_flags s' = recv_flags s"
proof -
  have hL: "L < 32768" "inseg_len s = of_nat L" "in_hdr_flags s AND TCP_SYN = 0" "packet (mem_of s) (inseg_p s) as"
    "contents (mem_of s) as = map str [n..<n + L]" using h by (simp_all add: holds_def L_def)
  have f1: "fin_len s \<le> 1" by (simp add: fin_len_def)
  have tl: "inseg_tcplen s = of_nat (L + fin_len s)" using inseg_tcplen_fin [OF hL(3)] hL(2) by simp
  then have ul: "unat (inseg_tcplen s) = L + fin_len s" using hL(1) f1 by (simp only: unat_of_nat_small)
  show ?thesis
  proof (cases "inseg_tcplen s \<le> w")
    case True
    then have "L + fin_len s \<le> unat w" using ul by (simp add: word_le_nat_alt)
    then have "d = L" "f = fin_len s" using f1 by (simp_all add: d_def f_def)
    then show ?thesis using True hL tl by (intro exI [of _ "s\<lparr>tcplen := inseg_tcplen s\<rparr>"] exI [of _ as])
        (simp add: trim_to_wnd_def fin_len_def in_hdr_flags_def)
  next
    case False
    then have lt: "unat w < L + fin_len s" using ul by (simp add: word_le_nat_alt)
    then have df: "d = unat w" "f = 0" "unat w \<le> L" using f1 by (auto simp: d_def f_def)
    let ?t = "clear_fin (s\<lparr>tcplen := inseg_tcplen s\<rparr>)"
    have "holds str isn n as (s\<lparr>tcplen := inseg_tcplen s\<rparr>)" using h by (simp add: holds_def in_hdr_flags_def)
    note t = clear_fin_ok [OF this]
    have "\<exists>h' bs. pbuf_realloc (pbufs E) (inseg_p s) w (mem_of ?t) = Some h' \<and> packet h' (inseg_p s) bs \<and>
        contents h' bs = take (unat w) (contents (mem_of ?t) as) \<and> shortened (mem_of ?t) as bs h'"
      by (rule custom_pbufs.realloc_ok [OF custom_pbufs.intro [OF free]]) (use t df(3) in \<open>simp_all add: L_def\<close>)
    then obtain h' bs where h': "pbuf_realloc (pbufs E) (inseg_p s) w (mem_of ?t) = Some h'" "packet h' (inseg_p s) bs"
      "contents h' bs = take (unat w) (contents (mem_of ?t) as)" "shortened (mem_of ?t) as bs h'" by blast
    let ?u = "?t\<lparr>inseg_len := w, mem_of := h'\<rparr>"
    have fl: "in_hdr_flags ?u = in_hdr_flags ?t" using h'(4) by (simp add: in_hdr_flags_def shortened_def)
    then have fin: "fin_len ?u = 0" "in_hdr_flags ?u AND TCP_SYN = 0" using t(1,2) by (simp_all add: fin_len_def)
    then have tu: "inseg_tcplen ?u = w" using inseg_tcplen_fin [of ?u] by simp
    have "trim_to_wnd E w s = Some (?u\<lparr>tcplen := inseg_tcplen ?u\<rparr>)"
      using False t(2) h'(1) t(6) by (simp add: trim_to_wnd_def Let_def in_hdr_flags_def inseg_tcplen_def)
    moreover have "contents h' bs = map str [n..<n + d]" using h'(3) t(4) hL(5) df by (simp add: take_map)
    ultimately show ?thesis using h'(2) t fin tu df
      by (intro exI [of _ "?u\<lparr>tcplen := inseg_tcplen ?u\<rparr>"] exI [of _ bs]) (simp add: fin_len_def in_hdr_flags_def)
  qed
qed

section \<open>Delivery\<close>

lemma conn_ann_wnd [simp]: "conn (snd (tcp_update_rcv_ann_wnd c)) = conn c"
  by (simp add: tcp_update_rcv_ann_wnd_def Let_def conn_def)

lemma conn_received: "conn (c\<lparr>rcv_nxt := a, rcv_wnd := w\<rparr>) = (pcb_state c, a, w, refused_data c, snd_nxt c)"
  by (simp add: conn_def)

lemma tcp_ack_fields [simp]: "conn (tcp_ack c) = conn c"
  by (simp add: tcp_ack_def)

lemma receive_in_order_ok:
  assumes c: "pcbs s p = Some c" "rcv_nxt c = sq isn (int n)" and h: "holds str isn n as s" and w: "0 < rcv_wnd c"
    and free: "\<And>p h. custom_free_function (pbufs E) p h = h\<lparr>RX_POOL := p # RX_POOL h\<rparr>"
  defines "L \<equiv> total (mem_of s) as"
  defines "d \<equiv> min L (unat (rcv_wnd c))" and "f \<equiv> (if L < unat (rcv_wnd c) then fin_len s else 0)"
  shows "\<exists>s' c' bs. receive_in_order E p s = Some s' \<and> pcbs s' p = Some c' \<and>
    conn c' = (pcb_state c, sq isn (int (n + d + f)), rcv_wnd c - of_nat (d + f), refused_data c, snd_nxt c) \<and>
    packet (mem_of s') (inseg_p s) bs \<and> contents (mem_of s') bs = map str [n..<n + d] \<and>
    recv_data s' = (if d = 0 then recv_data s else inseg_p s) \<and>
    recv_flags s' = (if f = 0 then recv_flags s else recv_flags s OR TF_GOT_FIN)"
proof -
  obtain t bs where t: "trim_to_wnd E (rcv_wnd c) s = Some t" "packet (mem_of t) (inseg_p s) bs" "contents (mem_of t) bs = map str [n..<n + d]"
    "tcplen t = of_nat (d + f)" "fin_len t = f" "pcbs t = pcbs s" "inseg_p t = inseg_p s" "in_seqno t = in_seqno s"
    "recv_data t = recv_data s" "recv_flags t = recv_flags s"
    using trim_window [OF h w free] unfolding L_def d_def f_def by blast
  obtain b where b: "pb (mem_of t) (inseg_p s) = Some b" "unat (tot_len b) = total (mem_of t) bs"
    using t(2) by (cases bs) (auto simp: packet_def the_pb_def)
  have "total (mem_of t) bs = d" using arg_cong [OF t(3), of length] by (simp add: length_contents)
  then have tot: "0 < tot_len b \<longleftrightarrow> d \<noteq> 0" using b(2) by (simp add: word_less_nat_alt)
  have fin: "in_hdr_flags t AND TCP_FIN = 0 \<longleftrightarrow> f = 0" using t(5) by (auto simp: fin_len_def split: if_splits)
  have "unat (rcv_wnd c) < 65536" using unsigned_less [of "rcv_wnd c", where 'a = nat] by simp
  moreover have "d + f \<le> unat (rcv_wnd c)" by (simp add: d_def f_def fin_len_def)
  ultimately have u: "unat (tcplen t) = d + f" using t(4) by (simp add: unat_of_nat_small del: of_nat_add)
  have nxt: "in_seqno t + ucast (tcplen t) = sq isn (int (n + d + f))"
    using h t(8) by (simp only: ucast_u16 u holds_def sq_add) (simp add: add.assoc)
  let ?c = "snd (tcp_update_rcv_ann_wnd (c\<lparr>rcv_nxt := in_seqno t + ucast (tcplen t), rcv_wnd := rcv_wnd c - tcplen t\<rparr>))"
  let ?u = "set_pcb p ?c t"
  let ?v = "if d = 0 then ?u else ?u\<lparr>recv_data := inseg_p t, inseg_p := 0\<rparr>"
  let ?x = "if f = 0 then ?v else ?v\<lparr>recv_flags := recv_flags ?v OR TF_GOT_FIN\<rparr>"
  have hf: "in_hdr_flags (set_pcb p c t) = in_hdr_flags t" "in_hdr_flags (u\<lparr>recv_data := x, inseg_p := y\<rparr>) = in_hdr_flags u" for c t u x y
    by (simp_all add: in_hdr_flags_def)
  have "receive_in_order E p s = Some (set_pcb p (tcp_ack ?c) ?x)"
    using c(1) t(1,7) b(1) tot fin by (simp add: receive_in_order_def Let_def hf)
  moreover have "conn (tcp_ack ?c) = (pcb_state c, sq isn (int (n + d + f)), rcv_wnd c - of_nat (d + f), refused_data c, snd_nxt c)"
    using nxt t(4) by (simp add: conn_received)
  ultimately show ?thesis using t
    by (intro exI [of _ "set_pcb p (tcp_ack ?c) ?x"] exI [of _ "tcp_ack ?c"] exI [of _ bs]) simp
qed

lemma covered_segment:
  assumes c: "pcbs s p = Some c" "rcv_nxt c = sq isn (int n)" and h: "holds str isn k as s" and near: "\<bar>int k - int n\<bar> < 2 ^ 30"
    and tl: "tcplen s = of_nat (total (mem_of s) as + fin_len s)" and cov: "k \<le> n" "n < k + total (mem_of s) as + fin_len s"
    and w: "0 < rcv_wnd c" and free: "\<And>p h. custom_free_function (pbufs E) p h = h\<lparr>RX_POOL := p # RX_POOL h\<rparr>"
  defines "L \<equiv> k + total (mem_of s) as - n"
  defines "d \<equiv> min L (unat (rcv_wnd c))" and "f \<equiv> (if L < unat (rcv_wnd c) then fin_len s else 0)"
  shows "\<exists>s' c' bs. receive_data E p s = Some s' \<and> pcbs s' p = Some c' \<and>
    conn c' = (pcb_state c, sq isn (int (n + d + f)), rcv_wnd c - of_nat (d + f), refused_data c, snd_nxt c) \<and>
    packet (mem_of s') (inseg_p s) bs \<and> contents (mem_of s') bs = map str [n..<n + d] \<and>
    recv_data s' = (if d = 0 then recv_data s else inseg_p s) \<and>
    recv_flags s' = (if f = 0 then recv_flags s else recv_flags s OR TF_GOT_FIN)"
proof -
  obtain t where t: "receive_trim E p s = Some t" "holds str isn n as t" "total (mem_of t) as = L" "fin_len t = fin_len s" "pcbs t = pcbs s"
    "inseg_p t = inseg_p s" "recv_data t = recv_data s" "recv_flags t = recv_flags s"
    using trim_to_expected [OF c h near tl cov] by (auto simp: L_def)
  have ct: "pcbs t p = Some c" using t(5) c(1) by simp
  have sn: "in_seqno t = rcv_nxt c" using t(2) c(2) by (simp add: holds_def)
  have "unat (rcv_wnd c) < 65536" "0 < unat (rcv_wnd c)"
    using unsigned_less [of "rcv_wnd c", where 'a = nat] w by (simp_all add: word_less_nat_alt)
  then have "TCP_SEQ_BETWEEN (rcv_nxt c) (rcv_nxt c) (rcv_nxt c + ucast (rcv_wnd c) - 1)"
    unfolding c(2) ucast_u16 sq_add by (subst seq_between) (auto simp del: of_nat_unat)
  then have "receive_data E p s = receive_in_order E p t" using t(1) ct sn by (simp add: receive_data_def)
  then show ?thesis using receive_in_order_ok [OF ct c(2) t(2) w free] unfolding d_def f_def by (simp only: t(3,4,6-8))
qed

lemma other_segment:
  assumes r: "receive_data E p s = Some s'" and c: "pcbs s p = Some c" "rcv_nxt c = sq isn (int n)"
    and h: "holds str isn k as s" and near: "\<bar>int k - int n\<bar> < 2 ^ 30"
    and tl: "tcplen s = of_nat (total (mem_of s) as + fin_len s)" "0 < total (mem_of s) as + fin_len s"
    and out: "\<not> (k \<le> n \<and> n < k + total (mem_of s) as + fin_len s \<and> 0 < rcv_wnd c)" and q: "tcp_quiet E"
  shows "\<exists>c'. pcbs s' p = Some c' \<and> conn c' = conn c \<and> recv_data s' = recv_data s \<and> recv_flags s' = recv_flags s"
proof -
  let ?L = "total (mem_of s) as"
  have ack: ?thesis if t: "pcbs t p = Some d" "conn d = conn c" "recv_data t = recv_data s" "recv_flags t = recv_flags s"
    and a: "tcp_send_empty_ack E p t = Some (e, s')" for t d e
  proof -
    have v: "view p s' = view p t" by (rule tcp_send_empty_ack_view [OF a q])
    then obtain c' where "pcbs s' p = Some c'" "conn c' = conn d" using view_pcb t(1) by blast
    then show ?thesis using v t by (simp add: view_def segment_in_def)
  qed
  show ?thesis
  proof (cases "k \<le> n \<and> n < k + ?L + fin_len s")
    case True
    then obtain t where t: "receive_trim E p s = Some t" "pcbs t = pcbs s" "recv_data t = recv_data s" "recv_flags t = recv_flags s"
      using trim_to_expected [OF c h near tl(1)] by blast
    have "rcv_wnd c = 0" using out True by (simp add: word_gt_0)
    moreover have "\<not> TCP_SEQ_BETWEEN (rcv_nxt c) (rcv_nxt c) (rcv_nxt c - 1)" unfolding c(2) sq_add by (subst seq_between) auto
    ultimately obtain e where "tcp_send_empty_ack E p t = Some (e, s')"
      using r t(1,2) c(1) by (auto simp: receive_data_def bind_eq_Some_conv split: if_splits)
    then show ?thesis using ack [of t c] t c by simp
  next
    case False
    have L: "?L < 32768" and f: "fin_len s \<le> 1" using h unfolding holds_def fin_len_def by simp_all
    have u: "unat (tcplen s) = ?L + fin_len s" unfolding tl(1) using L f by (intro unat_of_nat_small) simp
    have sn: "in_seqno s = sq isn (int k)" using h by (simp add: holds_def)
    have e: "in_seqno s + ucast (tcplen s) - 1 = sq isn (int k + int (?L + fin_len s) - 1)" "in_seqno s + 1 = sq isn (int k + 1)"
      unfolding sn ucast_u16 u by (simp_all only: sq_add)
    have ne: "rcv_nxt c \<noteq> in_seqno s" unfolding sn c(2) using near False tl(2) by (subst seq_eq) auto
    have b: "\<not> TCP_SEQ_BETWEEN (rcv_nxt c) (in_seqno s + 1) (in_seqno s + ucast (tcplen s) - 1)"
      unfolding e c(2) using near False L f by (subst seq_between) auto
    define t where "t = (if TCP_SEQ_LT (in_seqno s) (rcv_nxt c) then set_pcb p (tcp_ack_now c) s else s)"
    define d where "d = (if TCP_SEQ_LT (in_seqno s) (rcv_nxt c) then tcp_ack_now c else c)"
    have t: "receive_trim E p s = Some t" using b c(1) by (simp add: receive_trim_def t_def)
    have d: "pcbs t p = Some d" "conn d = conn c" "recv_data t = recv_data s" "recv_flags t = recv_flags s" "in_seqno t = in_seqno s"
      using c(1) by (simp_all add: t_def d_def)
    have "rcv_nxt d = rcv_nxt c" using d(2) by (simp add: conn_def)
    then obtain e where "tcp_send_empty_ack E p t = Some (e, s')"
      using r t d(1,5) ne by (auto simp: receive_data_def bind_eq_Some_conv split: if_splits)
    then show ?thesis using ack [of t d] d by simp
  qed
qed

end
