(* ===== verification/Tcp_Properties.thy ===== *)
theory Tcp_Properties
  imports Tcp_Stream Ip_Properties
begin

text \<open>What TCP promises the application and the peer, each property with its witness.\<close>

unbundle bit_operations_syntax

section \<open>The stream\<close>

text \<open>
  A segment of the stream \<open>str\<close> arrives while byte \<open>n\<close> is expected: it starts at some position \<open>k\<close> within half of the space
  of sequence numbers and is not empty.
\<close>

definition arrives :: "(nat \<Rightarrow> u8) \<Rightarrow> u32 \<Rightarrow> nat \<Rightarrow> nat \<Rightarrow> nat list \<Rightarrow> 'd tcp \<Rightarrow> bool" where
  "arrives str isn n k as s \<longleftrightarrow> holds str isn k as s \<and> \<bar>int k - int n\<bar> < 2 ^ 30 \<and>
     tcplen s = of_nat (total (mem_of s) as + fin_len s) \<and> 0 < total (mem_of s) as + fin_len s"

text \<open>The bytes given to the application.\<close>

definition handed :: "'d tcp \<Rightarrow> u8 list \<Rightarrow> bool" where
  "handed s xs \<longleftrightarrow> (if recv_data s = 0 then xs = [] else \<exists>bs. packet (mem_of s) (recv_data s) bs \<and> xs = contents (mem_of s) bs)"

text \<open>
  A connection over time: \<open>m\<close> is the position expected next, \<open>xs\<close> what the application got, and the flag tells whether the FIN was
  seen. Between two segments anything may happen that leaves \<^verbatim>\<open>rcv_nxt\<close> alone.
\<close>

inductive receives :: "'d tcp_env \<Rightarrow> nat \<Rightarrow> u32 \<Rightarrow> (nat \<Rightarrow> u8) \<Rightarrow> nat \<Rightarrow> nat \<Rightarrow> u8 list \<Rightarrow> bool \<Rightarrow> bool"
  for E p isn str n0 where
  opened: "receives E p isn str n0 n0 [] False"
| segment: "receives E p isn str n0 n xs False \<Longrightarrow> pcbs s p = Some c \<Longrightarrow> rcv_nxt c = sq isn (int n) \<Longrightarrow> arrives str isn n k as s \<Longrightarrow>
    recv_data s = 0 \<Longrightarrow> recv_flags s AND TF_GOT_FIN = 0 \<Longrightarrow> receive_data E p s = Some s' \<Longrightarrow> pcbs s' p = Some c' \<Longrightarrow>
    rcv_nxt c' = sq isn (int m) \<Longrightarrow> n \<le> m \<Longrightarrow> m < n + 2 ^ 30 \<Longrightarrow> handed s' ys \<Longrightarrow>
    receives E p isn str n0 m (xs @ ys) (recv_flags s' AND TF_GOT_FIN \<noteq> 0)"

lemma chain_unique: "chain h p as \<Longrightarrow> chain h p bs \<Longrightarrow> as = bs"
  by (induction as arbitrary: p bs) (case_tac bs; auto)+

lemma handed_packet: "packet (mem_of s) (recv_data s) bs \<Longrightarrow> handed s xs \<longleftrightarrow> xs = contents (mem_of s) bs"
  by (auto simp: handed_def packet_def dest: chain_unique)

lemma got_fin: "x AND TF_GOT_FIN = 0 \<Longrightarrow> (x OR TF_GOT_FIN) AND TF_GOT_FIN \<noteq> 0"
  by (simp add: bit.conj_disj_distrib2 TF_GOT_FIN_def)

lemma receive_step:
  assumes c: "pcbs s p = Some c" "rcv_nxt c = sq isn (int n)" and a: "arrives str isn n k as s"
    and z: "recv_data s = 0" "recv_flags s AND TF_GOT_FIN = 0" and r: "receive_data E p s = Some s'" "pcbs s' p = Some c'"
    and m: "rcv_nxt c' = sq isn (int m)" "n \<le> m" "m < n + 2 ^ 30" and hd: "handed s' ys"
    and q: "tcp_quiet E" and free: "\<And>p h. custom_free_function (pbufs E) p h = h\<lparr>RX_POOL := p # RX_POOL h\<rparr>"
  shows "\<exists>d. ys = map str [n..<n + d] \<and> m = n + d + (if recv_flags s' AND TF_GOT_FIN = 0 then 0 else 1)"
proof -
  note a' = a [unfolded arrives_def]
  let ?L = "total (mem_of s) as"
  show ?thesis
  proof (cases "k \<le> n \<and> n < k + ?L + fin_len s \<and> 0 < rcv_wnd c")
    case True
    define L where "L = k + ?L - n"
    define d where "d = min L (unat (rcv_wnd c))"
    define f where "f = (if L < unat (rcv_wnd c) then fin_len s else 0)"
    obtain bs where b: "rcv_nxt c' = sq isn (int (n + d + f))" "packet (mem_of s') (inseg_p s) bs" "contents (mem_of s') bs = map str [n..<n + d]"
      "recv_data s' = (if d = 0 then recv_data s else inseg_p s)" "recv_flags s' = (if f = 0 then recv_flags s else recv_flags s OR TF_GOT_FIN)"
      using covered_segment [OF c, of str k as E, folded L_def, folded d_def, folded f_def] a' True free r by (auto simp: conn_def)
    have "d < 65536" using unsigned_less [of "rcv_wnd c", where 'a = nat] by (simp add: d_def)
    moreover have f: "f \<le> 1" by (simp add: f_def fin_len_def)
    ultimately have "\<bar>int m - int (n + d + f)\<bar> < 2 ^ 31" using m(2,3) by auto
    then have "m = n + d + f" using b(1) m(1) seq_eq [of "int m" "int (n + d + f)" isn] by simp
    moreover have "f = (if recv_flags s' AND TF_GOT_FIN = 0 then 0 else 1)" using f b(5) z(2) got_fin by auto
    moreover have "ys = map str [n..<n + d]"
    proof (cases "d = 0")
      case False
      then show ?thesis using hd b handed_packet [of s' bs ys] by simp
    qed (use hd b(4) z(1) in \<open>simp add: handed_def\<close>)
    ultimately show ?thesis by (intro exI [of _ d]) simp
  next
    case False
    then have "conn c' = conn c" "recv_data s' = recv_data s" "recv_flags s' = recv_flags s"
      using other_segment [OF r(1) c, of str k as] a' q r(2) by auto
    then have "rcv_nxt c' = rcv_nxt c" "ys = []" "recv_flags s' AND TF_GOT_FIN = 0" using hd z by (auto simp: conn_def handed_def)
    moreover have "m = n" using calculation(1) m c(2) seq_eq [of "int m" "int n" isn] by auto
    ultimately show ?thesis by simp
  qed
qed

section \<open>An example\<close>

text \<open>
  A connection that expects byte 2, with a window of 4 bytes; the segment holds the bytes 0 to 6 in two pbufs, and a FIN.
\<close>

definition demo_pcb :: tcp_pcb where
  "demo_pcb = \<lparr>local_ip = board, remote_ip = pc, so_options = 0, tos = 0, ttl = TCP_TTL, callback_arg = 0, pcb_state = ESTABLISHED, prio = TCP_PRIO_NORMAL,
     local_port = 80, remote_port = 5000, tflags = 0, polltmr = 0, pollinterval = 0, last_timer = 0, tmr = 0, rcv_nxt = 2, rcv_wnd = 4, rcv_ann_wnd = 4,
     rcv_ann_right_edge = 6, rtime = -1, mss = INITIAL_MSS, rttest = 0, rtseq = 0, sa = 0, sv = 6, rto = 6, nrtx = 0, dupacks = 0, lastack = 100,
     cwnd = 1, ssthresh = 5840, snd_nxt = 100, snd_wl1 = 0, snd_wl2 = 0, snd_lbb = 100, snd_wnd = 1000, snd_wnd_max = 1000, snd_buf = TCP_SND_BUF,
     snd_queuelen = 0, unsent_oversize = 0, unsent = [], unacked = [], refused_data = 0, listener = 0, sent_fn = NULL_FN, recv_fn = DEFAULT_FN,
     connected_fn = NULL_FN, poll_fn = NULL_FN, err_fn = NULL_FN, keep_idle = TCP_KEEPIDLE_DEFAULT, persist_cnt = 0, persist_backoff = 0, keep_cnt_sent = 0\<rparr>"

definition demo_str :: "nat \<Rightarrow> u8" where
  "demo_str i = of_nat (i + 65)"

definition demo_segment :: store where
  "demo_segment = memcpy_to 26 (map demo_str [0..<4]) (memcpy_to 66 (map demo_str [4..<7]) (memcpy_to 200 (tcp_hdr 5000 80 0 100 0x5011 1000) demo_packets))"

definition demo_tcp :: "unit tcp" where
  "demo_tcp = \<lparr>arp_table = arp_table demo_arp, etharp_cached_entry = 0, mem_of = demo_segment, dev = (), ip_id = 1, current_netif = 1,
     current_input_netif = 1, current_ip4_header = 180, current_ip_header_tot_len = 47, current_iphdr_src = pc, current_iphdr_dest = board,
     pcbs = [1 \<mapsto> demo_pcb], lpcbs = Map.empty, free_pcbs = [], free_lpcbs = [], free_segs = 16, tcp_bound_pcbs = [], tcp_listen_pcbs = [],
     tcp_active_pcbs = [1], tcp_tw_pcbs = [], tcp_active_pcbs_changed = False, tcp_ticks = 7, tcp_timer = 0, tcp_timer_ctr = 0, tcp_port = 0xc000,
     tcp_iss = 6510, tcp_input_pcb = 1, inseg_p = 10, inseg_len = 7, tcphdr = 200, tcphdr_optlen = 0, tcphdr_opt1len = 0, tcphdr_opt2 = 0,
     in_seqno = 0, in_ackno = 100, in_flags = 0x11, tcplen = 8, recv_acked = 0, recv_flags = 0, recv_data = 0\<rparr>"

definition demo_tcp_env :: "unit tcp_env" where
  "demo_tcp_env = \<lparr>ip_env = \<lparr>arp_env = demo_arp_env\<lparr>penv := driver_env (\<lambda>n h. Some 8000)\<rparr>, netif_list = [1], netif_default = 1,
       ip4_frag = \<lambda>p n d s. Some (ERR_OK, s), ip4_reass = \<lambda>p s. Some (0, s), to_udp = \<lambda>p n s. Some s, to_tcp = \<lambda>p n s. Some s\<rparr>,
     app_sent = \<lambda>f a p n s. Some (ERR_OK, s), app_recv = \<lambda>f a p q e s. Some (ERR_OK, s), app_connected = \<lambda>f a p e s. Some (ERR_OK, s),
     app_poll = \<lambda>f a p s. Some (ERR_OK, s), app_err = \<lambda>f a e s. Some s, app_accept = \<lambda>f a p e s. Some (ERR_OK, s), timer_needed = \<lambda>s. s\<rparr>"

lemma demo_tcp_quiet: "tcp_quiet demo_tcp_env" "custom_free_function (pbufs demo_tcp_env) p h = h\<lparr>RX_POOL := p # RX_POOL h\<rparr>"
  by (simp_all add: tcp_quiet_def demo_tcp_env_def driver_env_def pbuf_free_custom_def)

lemma demo_segment_pb [simp]: "pb demo_segment = pb demo_packets" "the_pb demo_segment a = the_pb demo_packets a"
  by (simp_all add: demo_segment_def the_pb_def)

lemma demo_segment_total: "total demo_segment [10, 50] = 7" "packet demo_segment 10 [10, 50]"
  using demo_packet(1,4) by (simp_all add: demo_segment_def)

lemma demo_tcp_fields: "pcbs demo_tcp 1 = Some demo_pcb" "rcv_nxt demo_pcb = sq 0 (int 2)" "mem_of demo_tcp = demo_segment" "rcv_wnd demo_pcb = 4"
  "inseg_p demo_tcp = 10" "recv_flags demo_tcp = 0" "recv_data demo_tcp = 0" "tcplen demo_tcp = 8"
  by (simp_all add: demo_tcp_def demo_pcb_def sq_def)

lemma demo_arrives: "arrives demo_str 0 2 0 [10, 50] demo_tcp" "fin_len demo_tcp = 1"
proof -
  have fl: "in_hdr_flags demo_tcp = 0x11"
    by (simp add: in_hdr_flags_def demo_tcp_def demo_segment_def TCPH_FLAGS_def net16_def ld16_def mem_write_def tcp_hdr_def be16_def be32_def
        memcpy_to_def TCP_FLAGS_def demo_str_def lwip_htons_def halfword_def)
  then show f: "fin_len demo_tcp = 1" by (simp add: fin_len_def TCP_FIN_def)
  have "contents demo_segment [10, 50] = map demo_str [0..<7]"
    by (simp add: contents_def demo_packet pbuf_bytes_def demo_buf_def mem_slice_def demo_segment_def mem_write_def demo_str_def upt_rec)
  then have "holds demo_str 0 0 [10, 50] demo_tcp"
    using fl demo_segment_total by (auto simp: holds_def demo_tcp_def placed_def in_bufs_def demo_packet demo_buf_def SIZEOF_STRUCT_PBUF_def TCP_SYN_def sq_def)
  then show "arrives demo_str 0 2 0 [10, 50] demo_tcp" using f demo_segment_total by (simp add: arrives_def demo_tcp_fields del: total_simps)
qed

text \<open>
  C23. A segment that covers the position expected next is received: the bytes before it are cut off, as many of the rest as the window
  allows go to the application, a FIN is seen exactly when it fits the window too, and \<^verbatim>\<open>rcv_nxt\<close> and \<^verbatim>\<open>rcv_wnd\<close> move by what was taken.
  Every other segment, and any at a closed window, changes neither these nor what the application gets.
\<close>

theorem segment_delivered:
  assumes "pcbs s p = Some c" "rcv_nxt c = sq isn (int n)" "arrives str isn n k as s" "tcp_quiet E"
    "\<And>p h. custom_free_function (pbufs E) p h = h\<lparr>RX_POOL := p # RX_POOL h\<rparr>"
  defines "L \<equiv> k + total (mem_of s) as - n"
  defines "d \<equiv> min L (unat (rcv_wnd c))" and "f \<equiv> (if L < unat (rcv_wnd c) then fin_len s else 0)"
  shows "if k \<le> n \<and> n < k + total (mem_of s) as + fin_len s \<and> 0 < rcv_wnd c
    then \<exists>s' c' bs. receive_data E p s = Some s' \<and> pcbs s' p = Some c' \<and>
      conn c' = (pcb_state c, sq isn (int (n + d + f)), rcv_wnd c - of_nat (d + f), refused_data c, snd_nxt c) \<and>
      packet (mem_of s') (inseg_p s) bs \<and> contents (mem_of s') bs = map str [n..<n + d] \<and>
      recv_data s' = (if d = 0 then recv_data s else inseg_p s) \<and>
      recv_flags s' = (if f = 0 then recv_flags s else recv_flags s OR TF_GOT_FIN)
    else \<forall>s'. receive_data E p s = Some s' \<longrightarrow>
      (\<exists>c'. pcbs s' p = Some c' \<and> conn c' = conn c \<and> recv_data s' = recv_data s \<and> recv_flags s' = recv_flags s)"
proof (cases "k \<le> n \<and> n < k + total (mem_of s) as + fin_len s \<and> 0 < rcv_wnd c")
  case True
  then show ?thesis using covered_segment [OF assms(1,2), of str k as E] assms(3,5) unfolding L_def d_def f_def arrives_def by simp
next
  case False
  then show ?thesis using other_segment [OF _ assms(1,2), of E _ str k as] assms(3,4) unfolding arrives_def by auto
qed

theorem segment_delivered_witness:
  "\<exists>s' c' bs. receive_data demo_tcp_env 1 demo_tcp = Some s' \<and> pcbs s' 1 = Some c' \<and> rcv_nxt c' = 6 \<and> rcv_wnd c' = 0 \<and>
     packet (mem_of s') 10 bs \<and> contents (mem_of s') bs = [67, 68, 69, 70] \<and> recv_data s' = 10 \<and> recv_flags s' = 0"
proof -
  note c = demo_tcp_fields
  have "map demo_str [2..<6] = [67, 68, 69, 70]" by (simp add: demo_str_def upt_rec)
  then show ?thesis using segment_delivered [OF c(1,2) demo_arrives(1) demo_tcp_quiet] c(3-) demo_arrives(2) demo_segment_total
    by (simp add: conn_def sq_def) blast
qed

text \<open>
  C22. The application of a connection reads the stream its peer sent: in order, every byte once and none made up, whatever segments
  arrive: repeated, overlapping, early or beyond the window. What it got are the bytes from the first position up to the one expected
  next, and the FIN counts as one more position after them.
\<close>

theorem stream_received_in_order:
  assumes "receives E p isn str n0 m xs fin" "tcp_quiet E"
    "\<And>p h. custom_free_function (pbufs E) p h = h\<lparr>RX_POOL := p # RX_POOL h\<rparr>"
  shows "n0 + (if fin then 1 else 0) \<le> m \<and> xs = map str [n0..<m - (if fin then 1 else 0)]"
  using assms(1)
proof (induction rule: receives.induct)
  case (segment n xs s c k as s' c' m ys)
  obtain d where d: "ys = map str [n..<n + d]" "m = n + d + (if recv_flags s' AND TF_GOT_FIN = 0 then 0 else 1)"
    using receive_step [OF segment.hyps(2-12) assms(2,3)] by blast
  moreover have "[n0..<n + d] = [n0..<n] @ [n..<n + d]" using segment.IH upt_add_eq_append [of n0 n d] by simp
  ultimately show ?case using segment.IH by simp
qed simp

theorem stream_received_in_order_witness:
  "\<exists>m xs fin. receives demo_tcp_env 1 0 demo_str 2 m xs fin \<and> m = 6 \<and> xs = map demo_str [2..<6] \<and> \<not> fin"
proof -
  note c = demo_tcp_fields
  have a: "holds demo_str 0 0 [10, 50] demo_tcp" "tcplen demo_tcp = of_nat (total (mem_of demo_tcp) [10, 50] + fin_len demo_tcp)"
    using demo_arrives(1) by (simp_all add: arrives_def)
  obtain s' c' bs where s': "receive_data demo_tcp_env 1 demo_tcp = Some s'" "pcbs s' 1 = Some c'" "rcv_nxt c' = sq 0 (int 6)"
    "packet (mem_of s') 10 bs" "recv_data s' = 10" "recv_flags s' = 0"
    using covered_segment [OF c(1,2) a(1) _ a(2) _ _ _ demo_tcp_quiet(2)] c demo_arrives(2) demo_segment_total by (auto simp: conn_def)
  have "handed s' (contents (mem_of s') bs)" using s'(4,5) by (simp add: handed_packet)
  from receives.segment [OF receives.opened c(1,2) demo_arrives(1) c(7) _ s'(1-3) _ _ this]
  have r: "receives demo_tcp_env 1 0 demo_str 2 6 (contents (mem_of s') bs) False" using c(6) s'(6) by simp
  show ?thesis using r stream_received_in_order [OF r demo_tcp_quiet] by auto
qed

end
