(* ===== verification/Tcp_State.thy ===== *)
theory Tcp_State
  imports Tcp_Properties
begin

text \<open>The state machine of a connection, against the diagram of RFC 793.\<close>

unbundle bit_operations_syntax

section \<open>What reception leaves alone\<close>

text \<open>The block of the connection and the header of the segment, as far as the state machine depends on them.\<close>

definition keeps :: "nat \<Rightarrow> 'd tcp \<Rightarrow> 'd tcp \<Rightarrow> bool" where
  "keeps p s s' \<longleftrightarrow> in_flags s' = in_flags s \<and> in_ackno s' = in_ackno s \<and>
     (\<forall>c. pcbs s p = Some c \<longrightarrow> (\<exists>c'. pcbs s' p = Some c' \<and> pcb_state c' = pcb_state c \<and> snd_nxt c' = snd_nxt c))"

lemma keeps_refl [simp]: "keeps p s s"
  by (simp add: keeps_def)

lemma keeps_trans: "keeps p s t \<Longrightarrow> keeps p t u \<Longrightarrow> keeps p s u"
  unfolding keeps_def by (metis (no_types, lifting))

lemma keeps_view: "view p s' = view p s \<Longrightarrow> keeps p s s' \<and> recv_flags s' = recv_flags s"
  by (auto simp: keeps_def view_def segment_in_def conn_def)

text \<open>The flag of a FIN is the only one reception sets.\<close>

definition fin_only :: "'d tcp \<Rightarrow> 'd tcp \<Rightarrow> bool" where
  "fin_only s s' \<longleftrightarrow> recv_flags s' = recv_flags s \<or> recv_flags s' = recv_flags s OR TF_GOT_FIN"

lemma clear_fin_keeps [simp]: "pcbs (clear_fin s) = pcbs s" "recv_flags (clear_fin s) = recv_flags s" "in_flags (clear_fin s) = in_flags s"
  "in_ackno (clear_fin s) = in_ackno s"
  by (simp_all add: clear_fin_def)

lemma trim_to_wnd_keeps:
  "trim_to_wnd E w s = Some s' \<Longrightarrow> pcbs s' = pcbs s \<and> recv_flags s' = recv_flags s \<and> in_flags s' = in_flags s \<and> in_ackno s' = in_ackno s"
  by (auto simp: trim_to_wnd_def bind_eq_Some_conv Let_def split: if_splits)

lemma receive_trim_keeps: "receive_trim E p s = Some s' \<Longrightarrow> keeps p s s' \<and> recv_flags s' = recv_flags s"
  by (auto simp: receive_trim_def bind_eq_Some_conv keeps_def tcp_ack_now_def set_tflags_def split: if_splits)

lemma receive_in_order_keeps:
  assumes "receive_in_order E p s = Some s'"
  shows "keeps p s s' \<and> fin_only s s'"
proof -
  obtain c t where c: "pcbs s p = Some c" and t: "trim_to_wnd E (rcv_wnd c) s = Some t"
    using assms by (auto simp: receive_in_order_def bind_eq_Some_conv)
  define d where "d = snd (tcp_update_rcv_ann_wnd (c\<lparr>rcv_nxt := in_seqno t + ucast (tcplen t), rcv_wnd := rcv_wnd c - tcplen t\<rparr>))"
  have d: "pcb_state (tcp_ack d) = pcb_state c" "snd_nxt (tcp_ack d) = snd_nxt c"
    by (simp_all add: d_def tcp_ack_def set_tflags_def clear_tflags_def tcp_update_rcv_ann_wnd_def Let_def)
  have "pcbs s' p = Some (tcp_ack d)" "recv_flags s' = recv_flags t \<or> recv_flags s' = recv_flags t OR TF_GOT_FIN"
    "in_flags s' = in_flags t" "in_ackno s' = in_ackno t"
    using assms c t unfolding receive_in_order_def d_def by (auto simp: bind_eq_Some_conv Let_def split: if_splits)
  then show ?thesis using trim_to_wnd_keeps [OF t] c d by (auto simp: keeps_def fin_only_def)
qed

lemma receive_data_keeps:
  assumes r: "receive_data E p s = Some s'" and q: "tcp_quiet E"
  shows "keeps p s s' \<and> fin_only s s'"
proof -
  obtain t where t: "receive_trim E p s = Some t" using r by (auto simp: receive_data_def bind_eq_Some_conv)
  have k: "keeps p s t" "recv_flags t = recv_flags s" using receive_trim_keeps [OF t] by simp_all
  have "keeps p t s' \<and> fin_only t s'"
    using r t receive_in_order_keeps [of E p t s'] keeps_view [OF tcp_send_empty_ack_view [OF _ q], of p t _ s']
    by (auto simp: receive_data_def bind_eq_Some_conv fin_only_def split: if_splits)
  then show ?thesis using k keeps_trans [of p s t s'] by (auto simp: fin_only_def)
qed

lemma tcp_receive_keeps:
  assumes r: "tcp_receive E p s = Some s'" and q: "tcp_quiet E"
  shows "keeps p s s' \<and> fin_only s s'"
proof -
  obtain t c where t: "(if in_flags s AND TCP_ACK \<noteq> 0 then receive_ack E p s else Some s) = Some t" and c: "pcbs t p = Some c"
    using r by (auto simp: tcp_receive_def bind_eq_Some_conv)
  have k: "keeps p s t" "recv_flags t = recv_flags s"
    using t keeps_view [OF receive_ack_view [OF _ q], of p s t] by (auto split: if_splits)
  have "keeps p t (set_pcb p (tcp_ack_now c) t)" using c by (simp add: keeps_def tcp_ack_now_def set_tflags_def)
  moreover have "(if 0 < tcplen t \<and> pcb_state c < CLOSE_WAIT then receive_data E p t
      else if \<not> TCP_SEQ_BETWEEN (in_seqno t) (rcv_nxt c) (rcv_nxt c + ucast (rcv_wnd c) - 1) then Some (set_pcb p (tcp_ack_now c) t)
      else Some t) = Some s'"
    using r t c unfolding tcp_receive_def by (simp only: bind.simps)
  ultimately have "keeps p t s' \<and> fin_only t s'"
    using receive_data_keeps [OF _ q] by (auto simp: fin_only_def split: if_splits)
  then show ?thesis using k keeps_trans [of p s t s'] by (auto simp: fin_only_def)
qed

lemma free_packet_view: "free_packet (ip_env E) q s = Some s' \<Longrightarrow> view p s' = view p s"
  by (rule view_part [OF free_packet_part])

lemma purge_keeps:
  assumes "tcp_pcb_purge E p s = Some s'"
  shows "keeps p s s' \<and> recv_flags s' = recv_flags s \<and> tcp_tw_pcbs s' = tcp_tw_pcbs s"
proof -
  obtain c where c: "pcbs s p = Some c" using assms by (auto simp: tcp_pcb_purge_def bind_eq_Some_conv)
  show ?thesis
  proof (cases "pcb_state c \<noteq> CLOSED \<and> pcb_state c \<noteq> TIME_WAIT \<and> pcb_state c \<noteq> LISTEN")
    case True
    then obtain t u v where t: "(if refused_data c \<noteq> 0 then free_packet (ip_env E) (refused_data c) s else Some s) = Some t"
      "tcp_segs_free E (unsent c) t = Some u" "tcp_segs_free E (unacked c) u = Some v"
      and s': "s' = set_pcb p (c\<lparr>refused_data := 0, rtime := -1, unsent := [], unacked := [], unsent_oversize := 0\<rparr>) v"
      using assms c by (auto simp: tcp_pcb_purge_def bind_eq_Some_conv)
    have "view p t = view p s" using t(1) by (auto split: if_splits dest: free_packet_view)
    then have v: "view p v = view p s" using tcp_segs_free_view [OF t(2), of p] tcp_segs_free_view [OF t(3), of p] by simp
    then have "tcp_tw_pcbs v = tcp_tw_pcbs s" by (simp add: view_def around_def)
    then show ?thesis using keeps_view [OF v] c unfolding s' by (auto simp: keeps_def)
  qed (use assms c in \<open>auto simp: tcp_pcb_purge_def\<close>)
qed

lemma purge_unsent:
  assumes "tcp_pcb_purge E p s = Some s'" "pcbs s p = Some c" "unsent c = []"
  shows "\<exists>c'. pcbs s' p = Some c' \<and> unsent c' = []"
proof (cases "pcb_state c \<noteq> CLOSED \<and> pcb_state c \<noteq> TIME_WAIT \<and> pcb_state c \<noteq> LISTEN")
  case True
  then show ?thesis using assms by (auto simp: tcp_pcb_purge_def bind_eq_Some_conv)
qed (use assms in \<open>auto simp: tcp_pcb_purge_def\<close>)

section \<open>The diagram\<close>

text \<open>
  RFC 793 for a segment without RST and SYN in the synchronized states: whether it completes the peer's stream with its FIN and
  whether it acknowledges our FIN.
\<close>

fun rfc793 :: "tcp_state \<Rightarrow> bool \<Rightarrow> bool \<Rightarrow> tcp_state" where
  "rfc793 ESTABLISHED fin acked = (if fin then CLOSE_WAIT else ESTABLISHED)"
| "rfc793 FIN_WAIT_1 fin acked = (if fin then if acked then TIME_WAIT else CLOSING else if acked then FIN_WAIT_2 else FIN_WAIT_1)"
| "rfc793 FIN_WAIT_2 fin acked = (if fin then TIME_WAIT else FIN_WAIT_2)"
| "rfc793 CLOSING fin acked = (if acked then TIME_WAIT else CLOSING)"
| "rfc793 st fin acked = st"

lemma to_time_wait_ok:
  assumes r: "to_time_wait E p s = Some s'" and q: "tcp_quiet E" and c: "pcbs s p = Some c"
  shows "recv_flags s' = recv_flags s \<and> (\<exists>c'. pcbs s' p = Some c' \<and> pcb_state c' = TIME_WAIT \<and> (unsent c = [] \<longrightarrow> unsent c' = [])) \<and>
    p \<in> set (tcp_tw_pcbs s')"
proof -
  obtain t u where t: "tcp_pcb_purge E p s = Some t" "upd_pcb p (\<lambda>c. c\<lparr>pcb_state := TIME_WAIT\<rparr>) (TCP_RMV_ACTIVE p t) = Some u"
    and s': "s' = TCP_REG E TW p u" using r by (auto simp: to_time_wait_def bind_eq_Some_conv)
  obtain d where u: "pcbs (TCP_RMV_ACTIVE p t) p = Some d" "u = set_pcb p (d\<lparr>pcb_state := TIME_WAIT\<rparr>) (TCP_RMV_ACTIVE p t)"
    using t(2) by (auto simp: upd_pcb_Some)
  let ?v = "u\<lparr>tcp_tw_pcbs := p # tcp_tw_pcbs u\<rparr>"
  have part: "tcp_part s' = tcp_part ?v" using q unfolding s' TCP_REG_def tcp_quiet_def by simp
  have "recv_flags u = recv_flags s" using purge_keeps [OF t(1)] u(2) by (simp add: TCP_RMV_ACTIVE_def TCP_RMV_def)
  moreover have "unsent c = [] \<longrightarrow> unsent d = []"
    using purge_unsent [OF t(1) c] u(1) by (auto simp: TCP_RMV_ACTIVE_def TCP_RMV_def)
  ultimately show ?thesis using u(2) by (simp add: tcp_part_fields [OF part])
qed

text \<open>Whether the segment acknowledges everything sent, our FIN included, with \<open>c\<close> before and \<open>c'\<close> after it.\<close>

definition all_acked :: "'d tcp \<Rightarrow> tcp_pcb \<Rightarrow> tcp_pcb \<Rightarrow> bool" where
  "all_acked s c c' \<longleftrightarrow> has_flag s TCP_ACK \<and> in_ackno s = snd_nxt c \<and> unsent c' = []"

lemma after_receive_ok:
  assumes r: "after_receive E p st s = Some s'" and q: "tcp_quiet E" and c: "pcbs s p = Some c" "pcb_state c = st"
    and st: "ESTABLISHED \<le> st" "st \<le> LAST_ACK"
  shows "\<exists>c'. pcbs s' p = Some c' \<and> pcb_state c' = rfc793 st (recv_flags s AND TF_GOT_FIN \<noteq> 0) (all_acked s c c') \<and>
    recv_flags s' = (if st = LAST_ACK \<and> all_acked s c c' then recv_flags s OR TF_CLOSED else recv_flags s) \<and>
    (pcb_state c' = TIME_WAIT \<longrightarrow> p \<in> set (tcp_tw_pcbs s'))"
proof -
  let ?fin = "recv_flags s AND TF_GOT_FIN \<noteq> 0" and ?s = "set_pcb p (tcp_ack_now c) s"
  have ack: "unsent (tcp_ack_now c) = unsent c" by (simp add: tcp_ack_now_def set_tflags_def)
  have tw: "recv_flags s' = recv_flags s \<and> (\<exists>c'. pcbs s' p = Some c' \<and> pcb_state c' = TIME_WAIT \<and> (unsent c = [] \<longrightarrow> unsent c' = [])) \<and>
      p \<in> set (tcp_tw_pcbs s')"
    if "to_time_wait E p s = Some s' \<or> to_time_wait E p ?s = Some s'"
    using that to_time_wait_ok [OF _ q, of p s s' c] to_time_wait_ok [OF _ q, of p ?s s' "tcp_ack_now c"] c ack by auto
  show ?thesis
  proof (cases st)
    case FIN_WAIT_1
    then have "(if ?fin then if our_fin_acked s c then to_time_wait E p ?s = Some s' else s' = set_pcb p ((tcp_ack_now c)\<lparr>pcb_state := CLOSING\<rparr>) s
        else s' = (if our_fin_acked s c then set_pcb p (c\<lparr>pcb_state := FIN_WAIT_2\<rparr>) s else s))"
      using r c(1) by (auto simp: after_receive_def split: if_splits)
    then show ?thesis using FIN_WAIT_1 c tw ack by (cases ?fin; cases "our_fin_acked s c") (auto simp: our_fin_acked_def all_acked_def)
  next
    case FIN_WAIT_2
    then have "if ?fin then to_time_wait E p ?s = Some s' else s' = s" using r c(1) by (auto simp: after_receive_def split: if_splits)
    then show ?thesis using FIN_WAIT_2 c tw by (cases ?fin) auto
  next
    case CLOSING
    then have "if our_fin_acked s c then to_time_wait E p s = Some s' else s' = s" using r c(1) by (auto simp: after_receive_def split: if_splits)
    then show ?thesis using CLOSING c tw by (cases "our_fin_acked s c") (auto simp: our_fin_acked_def all_acked_def)
  qed (use r c st in \<open>auto simp: after_receive_def less_eq_tcp_state_def our_fin_acked_def all_acked_def split: if_splits\<close>)
qed

lemma processed:
  assumes r: "process_state E p (pcb_state c) s = Some (e, s')" and q: "tcp_quiet E" and c: "pcbs s p = Some c"
    and st: "ESTABLISHED \<le> pcb_state c" "pcb_state c \<le> LAST_ACK" and z: "recv_flags s = 0"
  shows "\<exists>c' fin. e = ERR_OK \<and> pcbs s' p = Some c' \<and> pcb_state c' = rfc793 (pcb_state c) fin (all_acked s c c') \<and>
    recv_flags s' = (if fin then TF_GOT_FIN else 0) OR (if pcb_state c = LAST_ACK \<and> all_acked s c c' then TF_CLOSED else 0) \<and>
    (pcb_state c' = TIME_WAIT \<longrightarrow> p \<in> set (tcp_tw_pcbs s'))"
proof -
  have "pcb_state c \<in> {CLOSE_WAIT, ESTABLISHED, FIN_WAIT_1, FIN_WAIT_2, CLOSING, LAST_ACK}"
    using st by (cases "pcb_state c") (simp_all add: less_eq_tcp_state_def)
  then obtain t where t: "tcp_receive E p s = Some t" "after_receive E p (pcb_state c) t = Some s'" "e = ERR_OK"
    using r by (auto simp: process_state_def bind_eq_Some_conv)
  obtain d where d: "pcbs t p = Some d" "pcb_state d = pcb_state c" "snd_nxt d = snd_nxt c" "in_flags t = in_flags s" "in_ackno t = in_ackno s"
    "fin_only s t" using tcp_receive_keeps [OF t(1) q] c by (auto simp: keeps_def)
  have f: "recv_flags t = (if recv_flags t AND TF_GOT_FIN \<noteq> 0 then TF_GOT_FIN else 0)" using d(6) z by (auto simp: fin_only_def TF_GOT_FIN_def)
  have a: "all_acked t d c' = all_acked s c c'" for c' using d by (simp add: all_acked_def)
  from after_receive_ok [OF t(2) q d(1,2) st, unfolded a] f t(3) show ?thesis
    by (auto intro!: exI [of _ "recv_flags t AND TF_GOT_FIN \<noteq> 0"])
qed

text \<open>
  C24. A connection in one of the states from ESTABLISHED to LAST_ACK goes through the diagram of RFC 793. A reset ends it only if it carries
  exactly the sequence number expected next, and leaves the state alone otherwise, as does a SYN. Any other segment takes it
  to the state of the diagram, where the peer's FIN counts when reception reports it and our FIN counts as acknowledged exactly
  if the segment acknowledges everything sent and nothing is left to send; the last
  acknowledgement closes the connection, and a connection in TIME_WAIT is in the list of those.
\<close>

theorem state_diagram:
  assumes "tcp_process E p s = Some (e, s')" "tcp_quiet E" "pcbs s p = Some c" "ESTABLISHED \<le> pcb_state c" "pcb_state c \<le> LAST_ACK" "recv_flags s = 0"
  shows "\<exists>c'. pcbs s' p = Some c' \<and>
    (if has_flag s TCP_RST then pcb_state c' = pcb_state c \<and> rcv_nxt c' = rcv_nxt c \<and>
        (if in_seqno s = rcv_nxt c then e = ERR_RST \<and> recv_flags s' = TF_RESET else e = ERR_OK \<and> recv_flags s' = 0)
     else e = ERR_OK \<and>
       (if has_flag s TCP_SYN then conn c' = conn c \<and> recv_flags s' = 0
        else let fin = (recv_flags s' AND TF_GOT_FIN \<noteq> 0);
                 acked = (has_flag s TCP_ACK \<and> in_ackno s = snd_nxt c \<and> unsent c' = [])
          in pcb_state c' = rfc793 (pcb_state c) fin acked \<and>
          recv_flags s' = (if fin then TF_GOT_FIN else 0) OR (if pcb_state c = LAST_ACK \<and> acked then TF_CLOSED else 0) \<and>
          (pcb_state c' = TIME_WAIT \<longrightarrow> p \<in> set (tcp_tw_pcbs s'))))"
proof (cases "has_flag s TCP_RST \<or> has_flag s TCP_SYN")
  case True
  moreover have "pcb_state c \<noteq> SYN_SENT" "pcb_state c \<noteq> SYN_RCVD" using assms(4) by (auto simp: less_eq_tcp_state_def)
  ultimately show ?thesis using assms(1,3,6)
    by (auto simp: tcp_process_def process_rst_def Let_def clear_tflags_def tcp_ack_now_def set_tflags_def conn_def split: if_splits)
next
  case False
  define d where "d = c\<lparr>tmr := (if tflags c AND TF_RXCLOSED = 0 then tcp_ticks s else tmr c), keep_cnt_sent := 0\<rparr>"
  obtain t where t: "tcp_parseopt p (set_pcb p d s) = Some t" "process_state E p (pcb_state d) t = Some (e, s')"
    using assms(1,3) False unfolding tcp_process_def d_def by (auto simp: bind_eq_Some_conv Let_def)
  have "view p (set_pcb p d s) = view p s" by (rule view_set [OF assms(3)]) (simp add: d_def conn_def)
  then have v: "view p t = view p s" using tcp_parseopt_view [OF t(1)] by simp
  obtain b where b: "pcbs t p = Some b" "conn b = conn c" using view_pcb [OF v assms(3)] .
  have i: "in_flags t = in_flags s" "in_ackno t = in_ackno s" "recv_flags t = 0" using v assms(6) by (auto simp: view_def segment_in_def)
  have j: "pcb_state b = pcb_state c" "snd_nxt b = snd_nxt c" "pcb_state d = pcb_state c" using b(2) by (simp_all add: conn_def d_def)
  have a: "all_acked t b c' = all_acked s c c'" for c' using i j by (simp add: all_acked_def)
  obtain c' fin where c': "e = ERR_OK" "pcbs s' p = Some c'" "pcb_state c' = rfc793 (pcb_state c) fin (all_acked s c c')"
    "recv_flags s' = (if fin then TF_GOT_FIN else 0) OR (if pcb_state c = LAST_ACK \<and> all_acked s c c' then TF_CLOSED else 0)"
    "pcb_state c' = TIME_WAIT \<longrightarrow> p \<in> set (tcp_tw_pcbs s')"
    using processed [of E p b t e s'] t(2) b(1) assms(2,4,5) i j unfolding a by auto
  have "(recv_flags s' AND TF_GOT_FIN \<noteq> 0) = fin" unfolding c'(4) by (simp add: TF_GOT_FIN_def TF_CLOSED_def)
  then show ?thesis
    using c'(1,2,3,5) False by (intro exI [of _ c']) (simp add: Let_def all_acked_def, simp add: c'(4) all_acked_def)
qed

text \<open>The segment of the example with its FIN inside the window, and a reset for the same connection.\<close>

definition demo_fin :: "unit tcp" where
  "demo_fin = set_pcb 1 (demo_pcb\<lparr>rcv_wnd := TCP_WND\<rparr>) (demo_tcp\<lparr>in_flags := TCP_FIN\<rparr>)"

lemma demo_fin_processed: "\<exists>s'. tcp_process demo_tcp_env 1 demo_fin = Some (ERR_OK, s') \<and> recv_flags s' = TF_GOT_FIN"
proof -
  let ?c = "demo_pcb\<lparr>rcv_wnd := TCP_WND, tmr := 7, keep_cnt_sent := 0\<rparr>"
  let ?s = "set_pcb 1 ?c (demo_tcp\<lparr>in_flags := TCP_FIN\<rparr>)"
  have h: "holds demo_str 0 0 [10, 50] ?s" "tcplen ?s = of_nat (total (mem_of ?s) [10, 50] + fin_len ?s)" "fin_len ?s = 1"
    using demo_arrives by (simp_all add: arrives_def holds_def fin_len_def in_hdr_flags_def)
  have c: "pcbs ?s 1 = Some ?c" "rcv_nxt ?c = sq 0 (int 2)" by (simp_all add: demo_pcb_def sq_def)
  obtain t d where t: "receive_data demo_tcp_env 1 ?s = Some t" "pcbs t 1 = Some d" "recv_flags t = TF_GOT_FIN"
    using covered_segment [OF c h(1) _ h(2) _ _ _ demo_tcp_quiet(2)] h(3) demo_segment_total(1) by (auto simp: demo_tcp_fields TCP_WND_def)
  have "tcp_receive demo_tcp_env 1 ?s = Some t"
    using t(1) by (simp add: tcp_receive_def TCP_FIN_def TCP_ACK_def demo_tcp_fields demo_pcb_def less_tcp_state_def)
  moreover have "tcp_process demo_tcp_env 1 demo_fin = process_state demo_tcp_env 1 ESTABLISHED ?s"
  proof -
    have "parse_loop u m 0 = Some m" if "tcphdr_optlen u = 0" for u :: "unit tcp" and m using that by (subst parse_loop.simps) simp
    then show ?thesis
      by (simp add: tcp_process_def demo_fin_def TCP_FIN_def TCP_RST_def TCP_SYN_def demo_pcb_def demo_tcp_def tcp_parseopt_def set_pcb_def)
  qed
  ultimately show ?thesis using t(2,3) by (simp add: process_state_def after_receive_def TF_GOT_FIN_def)
qed

theorem state_diagram_witness:
  "(\<exists>s'. tcp_process demo_tcp_env 1 demo_fin = Some (ERR_OK, s') \<and> map_option pcb_state (pcbs s' 1) = Some CLOSE_WAIT) \<and>
   (\<exists>s'. tcp_process demo_tcp_env 1 (demo_fin\<lparr>in_flags := TCP_RST\<rparr>) = Some (ERR_OK, s') \<and> recv_flags s' = 0)"
proof
  have c: "pcbs demo_fin 1 = Some (demo_pcb\<lparr>rcv_wnd := TCP_WND\<rparr>)" "recv_flags demo_fin = 0" "in_flags demo_fin = TCP_FIN" "in_seqno demo_fin = 0"
    by (simp_all add: demo_fin_def demo_tcp_def)
  have st: "pcb_state (demo_pcb\<lparr>rcv_wnd := TCP_WND\<rparr>) = ESTABLISHED" "ESTABLISHED \<le> LAST_ACK" by (simp_all add: demo_pcb_def less_eq_tcp_state_def)
  obtain s' where s': "tcp_process demo_tcp_env 1 demo_fin = Some (ERR_OK, s')" "recv_flags s' = TF_GOT_FIN" using demo_fin_processed by blast
  show "\<exists>s'. tcp_process demo_tcp_env 1 demo_fin = Some (ERR_OK, s') \<and> map_option pcb_state (pcbs s' 1) = Some CLOSE_WAIT"
    using state_diagram [OF s'(1) demo_tcp_quiet(1) c(1)] s' c st by (auto simp: TCP_FIN_def TCP_RST_def TCP_SYN_def TF_GOT_FIN_def split: if_splits)
  have "\<exists>s'. tcp_process demo_tcp_env 1 (demo_fin\<lparr>in_flags := TCP_RST\<rparr>) = Some (ERR_OK, s')"
    using c by (simp add: tcp_process_def process_rst_def TCP_RST_def demo_pcb_def)
  then obtain s2 where s2: "tcp_process demo_tcp_env 1 (demo_fin\<lparr>in_flags := TCP_RST\<rparr>) = Some (ERR_OK, s2)" by blast
  have "recv_flags s2 = 0" using state_diagram [OF s2 demo_tcp_quiet(1), of "demo_pcb\<lparr>rcv_wnd := TCP_WND\<rparr>"] c st
    by (auto simp: TCP_RST_def demo_pcb_def)
  with s2 show "\<exists>s'. tcp_process demo_tcp_env 1 (demo_fin\<lparr>in_flags := TCP_RST\<rparr>) = Some (ERR_OK, s') \<and> recv_flags s' = 0" by blast
qed

end
