(* ===== verification/Tcp_Bounds.thy ===== *)
theory Tcp_Bounds
  imports Tcp_Properties
begin

text \<open>The receive window, the options and the ports of TCP.\<close>

unbundle bit_operations_syntax

declare of_nat_unat [simp del]

section \<open>The announced window\<close>

text \<open>
  The right edge announced to the peer is not beyond what \<^verbatim>\<open>rcv_wnd\<close> allows, and not further behind than a quarter of the numbers.
\<close>

definition wnd_ok :: "tcp_pcb \<Rightarrow> bool" where
  "wnd_ok c \<longleftrightarrow> - (2 ^ 30) \<le> sint (rcv_ann_right_edge c - rcv_nxt c) \<and> sint (rcv_ann_right_edge c - rcv_nxt c) \<le> int (unat (rcv_wnd c)) \<and>
     rcv_wnd c \<le> TCP_WND"

lemma sint_edge: "sint (x - y :: u32) = d \<Longrightarrow> x = sq y d"
proof -
  assume "sint (x - y) = d"
  then have "(of_int d :: u32) = x - y" by auto
  then show ?thesis by (simp add: sq_def)
qed

lemma sq_0: "sq y 0 = (y :: u32)"
  by (simp add: sq_def)

lemma wnd_le: "wnd_ok c \<Longrightarrow> unat (rcv_wnd c) \<le> 2920"
  by (simp add: wnd_ok_def word_le_nat_alt TCP_WND_def)

lemma small_mss: "unat (min (TCP_WND div 2) m) \<le> 1460"
proof -
  have "min (TCP_WND div 2) m \<le> TCP_WND div 2" by simp
  also have "TCP_WND div 2 = 1460" by (simp add: TCP_WND_def)
  finally show ?thesis by (simp add: word_le_nat_alt)
qed

lemma ann_wnd_step:
  assumes "wnd_ok c"
  defines "c' \<equiv> snd (tcp_update_rcv_ann_wnd c)"
  shows "rcv_ann_wnd c' \<le> rcv_wnd c" "TCP_SEQ_GEQ (rcv_nxt c + ucast (rcv_ann_wnd c')) (rcv_ann_right_edge c)"
    "c' = c\<lparr>rcv_ann_wnd := rcv_ann_wnd c'\<rparr>"
proof -
  define d where "d = sint (rcv_ann_right_edge c - rcv_nxt c)"
  let ?n = "rcv_nxt c" and ?w = "unat (rcv_wnd c)" and ?m = "unat (min (TCP_WND div 2) (mss c))"
  have d: "- (2 ^ 30) \<le> d" "d \<le> int ?w" "?w \<le> 2920" "?m \<le> 1460" using wnd_le [OF assms(1)] assms(1) small_mss by (simp_all add: wnd_ok_def d_def)
  have edge: "rcv_ann_right_edge c = sq ?n d" by (rule sint_edge) (simp add: d_def)
  have e: "rcv_nxt c + ucast w = sq ?n (int (unat w))" "sq ?n d + ucast w = sq ?n (d + int (unat w))" for w :: u16
    by (simp_all only: ucast_u16 sq_add [symmetric] sq_0) (simp add: sq_def)
  have g1: "TCP_SEQ_GEQ (?n + ucast (rcv_wnd c)) (rcv_ann_right_edge c + ucast (min (TCP_WND div 2) (mss c))) \<longleftrightarrow> d + int ?m \<le> int ?w"
    unfolding edge e using d by (intro seq_less(4)) auto
  have g2: "TCP_SEQ_GT ?n (rcv_ann_right_edge c) \<longleftrightarrow> d < 0"
    using d seq_less(3) [of 0 d ?n] unfolding edge by (auto simp: sq_0)
  have geq: "TCP_SEQ_GEQ (?n + ucast w) (rcv_ann_right_edge c) \<longleftrightarrow> d \<le> int (unat w)" if "unat w \<le> 2920" for w :: u16
    unfolding edge e using d that by (intro seq_less(4)) auto
  have "rcv_ann_wnd c' \<le> rcv_wnd c \<and> d \<le> int (unat (rcv_ann_wnd c'))"
  proof (cases "d + int ?m \<le> int ?w \<or> d < 0")
    case True
    then show ?thesis using g1 g2 d by (auto simp: c'_def tcp_update_rcv_ann_wnd_def Let_def)
  next
    case False
    then have "rcv_ann_wnd c' = ucast (sq ?n d - ?n)" using g1 g2 by (simp add: c'_def tcp_update_rcv_ann_wnd_def Let_def edge)
    also have "sq ?n d - ?n = of_nat (nat d)" using False by (simp add: sq_def)
    finally have "rcv_ann_wnd c' = of_nat (nat d)" by (simp only: ucast_16)
    then have "unat (rcv_ann_wnd c') = nat d" using d by (simp add: unat_of_nat_small)
    then show ?thesis using d False by (simp add: word_le_nat_alt)
  qed
  then show "rcv_ann_wnd c' \<le> rcv_wnd c" "TCP_SEQ_GEQ (?n + ucast (rcv_ann_wnd c')) (rcv_ann_right_edge c)"
    using d by (auto simp: geq word_le_nat_alt)
  show "c' = c\<lparr>rcv_ann_wnd := rcv_ann_wnd c'\<rparr>" by (simp add: c'_def tcp_update_rcv_ann_wnd_def Let_def)
qed

lemma announce_ok:
  assumes "wnd_ok c" "rcv_ann_wnd c \<le> rcv_wnd c"
  shows "wnd_ok (c\<lparr>rcv_ann_right_edge := rcv_nxt c + ucast (rcv_ann_wnd c)\<rparr>)"
proof -
  have "rcv_nxt c + ucast (rcv_ann_wnd c) - rcv_nxt c = sq 0 (int (unat (rcv_ann_wnd c))) - sq 0 0" by (simp add: sq_def ucast_u16)
  moreover have "unat (rcv_ann_wnd c) \<le> unat (rcv_wnd c)" "unat (rcv_wnd c) \<le> 2920"
    using assms(2) wnd_le [OF assms(1)] by (simp_all add: word_le_nat_alt)
  ultimately show ?thesis using assms(1) sq_diff [of "int (unat (rcv_ann_wnd c))" 0 0] by (simp add: wnd_ok_def)
qed

lemma grow_ok: "wnd_ok c \<Longrightarrow> n \<le> TCP_WND \<Longrightarrow> wnd_ok (grow_rcv_wnd n c) \<and> rcv_wnd c \<le> rcv_wnd (grow_rcv_wnd n c)"
proof -
  assume c: "wnd_ok c" "n \<le> TCP_WND"
  have w: "rcv_wnd c \<le> TCP_WND" using c(1) by (simp add: wnd_ok_def)
  then have "unat (rcv_wnd c + n) = unat (rcv_wnd c) + unat n"
    using c(2) by (simp add: unat_word_ariths word_le_nat_alt TCP_WND_def)
  then have "rcv_wnd c \<le> rcv_wnd c + n" by (simp add: word_le_nat_alt)
  then have g: "rcv_wnd c \<le> rcv_wnd (grow_rcv_wnd n c)" "rcv_wnd (grow_rcv_wnd n c) \<le> TCP_WND"
    using w by (auto simp: grow_rcv_wnd_def Let_def)
  moreover have "rcv_nxt (grow_rcv_wnd n c) = rcv_nxt c" "rcv_ann_right_edge (grow_rcv_wnd n c) = rcv_ann_right_edge c"
    by (simp_all add: grow_rcv_wnd_def Let_def)
  ultimately show ?thesis using c(1) by (auto simp: wnd_ok_def word_le_nat_alt)
qed

text \<open>
  C27. The window announced to the peer never shrinks and never promises more than there is: after every change of
  \<^verbatim>\<open>rcv_wnd\<close> the new right edge is at or right of the old one and within \<^verbatim>\<open>rcv_wnd\<close>, and announcing it and giving back received bytes keep this so.
\<close>

theorem window_never_shrinks:
  assumes "wnd_ok c" "n \<le> TCP_WND"
  defines "c' \<equiv> snd (tcp_update_rcv_ann_wnd (grow_rcv_wnd n c))"
  shows "wnd_ok c' \<and> rcv_wnd c \<le> rcv_wnd c' \<and> rcv_ann_wnd c' \<le> rcv_wnd c' \<and> TCP_SEQ_GEQ (rcv_nxt c' + ucast (rcv_ann_wnd c')) (rcv_ann_right_edge c) \<and>
    wnd_ok (c'\<lparr>rcv_ann_right_edge := rcv_nxt c' + ucast (rcv_ann_wnd c')\<rparr>)"
proof -
  let ?g = "grow_rcv_wnd n c"
  have g: "wnd_ok ?g" "rcv_wnd c \<le> rcv_wnd ?g" using grow_ok [OF assms(1,2)] by simp_all
  note a = ann_wnd_step [OF g(1), folded c'_def]
  have f: "rcv_wnd c' = rcv_wnd ?g" "rcv_nxt c' = rcv_nxt ?g" "rcv_ann_right_edge c' = rcv_ann_right_edge ?g" "rcv_ann_right_edge ?g = rcv_ann_right_edge c"
    by (subst a(3), simp)+ (simp add: grow_rcv_wnd_def Let_def)
  then have "wnd_ok c'" using g(1) by (simp add: wnd_ok_def)
  then show ?thesis using a f g(2) announce_ok [of c'] by simp
qed

theorem window_never_shrinks_witness:
  "wnd_ok demo_pcb \<and> rcv_ann_wnd (snd (tcp_update_rcv_ann_wnd (grow_rcv_wnd 1000 demo_pcb))) = 1004 \<and>
   TCP_SEQ_GEQ (rcv_nxt demo_pcb + 1004) (rcv_ann_right_edge demo_pcb)"
proof -
  have w: "wnd_ok demo_pcb" "1000 \<le> TCP_WND" by (simp_all add: wnd_ok_def demo_pcb_def TCP_WND_def)
  have v: "rcv_ann_wnd (snd (tcp_update_rcv_ann_wnd (grow_rcv_wnd 1000 demo_pcb))) = 1004"
    "rcv_nxt (snd (tcp_update_rcv_ann_wnd (grow_rcv_wnd 1000 demo_pcb))) = rcv_nxt demo_pcb"
    by (simp_all add: tcp_update_rcv_ann_wnd_def grow_rcv_wnd_def demo_pcb_def TCP_WND_def TCP_SEQ_GEQ_def INITIAL_MSS_def Let_def min_def)
  show ?thesis using window_never_shrinks [OF w] w v by simp
qed

section \<open>Options\<close>

lemma limit_mss_range: "1 \<le> limit_mss m \<and> limit_mss m \<le> TCP_MSS"
  by (auto simp: limit_mss_def TCP_MSS_def word_le_nat_alt word_less_nat_alt unat_eq_0 [symmetric] simp del: unat_eq_0)

lemma unat_step: "i < n \<Longrightarrow> unat (n :: u16) \<le> 40 \<Longrightarrow> unat k \<le> 255 \<Longrightarrow> unat (i + k) = unat i + unat k"
  by (simp add: unat_word_ariths word_less_nat_alt)

lemma parse_loop_ends:
  assumes "unat (tcphdr_optlen s) \<le> 40"
  shows "\<exists>r. parse_loop s m i = Some r \<and> (r = m \<or> 1 \<le> r \<and> r \<le> TCP_MSS)"
proof (induction "unat (tcphdr_optlen s) - unat i" arbitrary: m i rule: less_induct)
  case less
  let ?b = "tcp_getoptbyte s i" and ?c = "tcp_getoptbyte s (i + 1)"
  show ?case
  proof (cases "i < tcphdr_optlen s \<and> ?b \<noteq> LWIP_TCP_OPT_EOL")
    case True
    then have i: "unat i < unat (tcphdr_optlen s)" by (simp add: word_less_nat_alt)
    have step: "\<exists>r. parse_loop s m' (i + k) = Some r \<and> (r = m' \<or> 1 \<le> r \<and> r \<le> TCP_MSS)" if "0 < unat k" "unat k \<le> 255" for m' k
      using less [of "i + k" m'] unat_step [of i "tcphdr_optlen s" k] True i that assms by simp
    have len: "0 < unat (2 + ucast (?c - 2) :: u16)" "unat (2 + ucast (?c - 2) :: u16) \<le> 255" if "\<not> ?c < 2"
    proof -
      have "unat (?c - 2) = unat ?c - 2" using that by (subst Word.unat_sub) (simp_all add: not_less)
      moreover have "unat ?c < 256" "2 \<le> unat ?c" using that unsigned_less [of ?c, where 'a = nat] by (simp_all add: not_less word_le_nat_alt)
      moreover have "take_bit 16 (unat ?c - 2) = unat ?c - 2" using calculation by (intro take_bit_nat_eq_self) simp
      ultimately show "0 < unat (2 + ucast (?c - 2) :: u16)" "unat (2 + ucast (?c - 2) :: u16) \<le> 255"
        by (simp_all add: unat_word_ariths unsigned_ucast_eq)
    qed
    have mss: "\<exists>r. parse_loop s (limit_mss x) (i + 4) = Some r \<and> (r = m \<or> 1 \<le> r \<and> r \<le> TCP_MSS)" for x
      using step [of 4 "limit_mss x"] limit_mss_range [of x] by auto
    show ?thesis using True step [of 1 m] mss step [of "2 + ucast (?c - 2)" m] len
      by (subst parse_loop.simps) (auto simp: add.assoc)
  qed (subst parse_loop.simps; auto)
qed

text \<open>
  C28. Parsing the options of a header ends, whatever bytes they are: at a length below 2 or at the end of the options. Only the maximum
  segment size may change, and then to a value from 1 to \<^verbatim>\<open>TCP_MSS\<close>.
\<close>

theorem options_parsed:
  assumes "unat (tcphdr_optlen s) \<le> 40" "pcbs s p = Some c"
  shows "\<exists>m. tcp_parseopt p s = Some (set_pcb p (c\<lparr>mss := m\<rparr>) s) \<and> (m = mss c \<or> 1 \<le> m \<and> m \<le> TCP_MSS)"
proof -
  obtain m where "parse_loop s (mss c) 0 = Some m" "m = mss c \<or> 1 \<le> m \<and> m \<le> TCP_MSS" using parse_loop_ends [OF assms(1)] by blast
  then show ?thesis using assms(2) by (intro exI [of _ m]) (simp add: tcp_parseopt_def)
qed

text \<open>An MSS option of 1400 behind two others, the first of unknown kind and length 7.\<close>

definition demo_options :: "unit tcp" where
  "demo_options = demo_tcp\<lparr>tcphdr_optlen := 12, mem_of := memcpy_to 220 [9, 7, 0, 0, 0, 0, 0, 1, 2, 4, 5, 120] demo_segment\<rparr>"

theorem options_parsed_witness:
  "(\<exists>m. tcp_parseopt 1 demo_options = Some (set_pcb 1 (demo_pcb\<lparr>mss := m\<rparr>) demo_options) \<and> m \<le> TCP_MSS) \<and> parse_loop demo_options 536 0 = Some 1400"
proof
  have o: "unat (tcphdr_optlen demo_options) \<le> 40" "pcbs demo_options 1 = Some demo_pcb" "mss demo_pcb \<le> TCP_MSS"
    by (simp_all add: demo_options_def demo_tcp_def) (simp add: demo_pcb_def INITIAL_MSS_def TCP_MSS_def)
  then show "\<exists>m. tcp_parseopt 1 demo_options = Some (set_pcb 1 (demo_pcb\<lparr>mss := m\<rparr>) demo_options) \<and> m \<le> TCP_MSS"
    using options_parsed [OF o(1,2)] by auto
  have b: "tcp_getoptbyte demo_options i = [9, 7, 0, 0, 0, 0, 0, 1, 2, 4, 5, 120] ! unat i" if "unat i < 12" for i
    using that by (simp add: tcp_getoptbyte_def demo_options_def demo_tcp_def memcpy_to_def mem_write_def TCP_HLEN_def)
  have n: "tcphdr_optlen demo_options = 12" by (simp add: demo_options_def)
  note o = b n LWIP_TCP_OPT_EOL_def LWIP_TCP_OPT_NOP_def LWIP_TCP_OPT_MSS_def LWIP_TCP_OPT_LEN_MSS_def limit_mss_def TCP_MSS_def
  have "parse_loop demo_options 1400 12 = Some 1400" by (subst parse_loop.simps) (simp add: o)
  then have "parse_loop demo_options 536 8 = Some 1400" by (subst parse_loop.simps) (simp add: o)
  then have "parse_loop demo_options 536 7 = Some 1400" by (subst parse_loop.simps) (simp add: o)
  then show "parse_loop demo_options 536 0 = Some 1400" by (subst parse_loop.simps) (simp add: o)
qed

section \<open>Ports\<close>

text \<open>The port \<open>i\<close> steps after \<open>q\<close> in the range of local ports, which is a cycle.\<close>

definition port_after :: "u16 \<Rightarrow> nat \<Rightarrow> u16" where
  "port_after q i = of_nat (0xc000 + (unat q - 0xc000 + i) mod 0x4000)"

definition port_used :: "'d tcp \<Rightarrow> u16 \<Rightarrow> bool" where
  "port_used s q \<longleftrightarrow> bound_to s (\<lambda>q' a. q' = q)"

lemma bound_to_port [simp]: "bound_to (s\<lparr>tcp_port := q\<rparr>) P = bound_to s P"
  by (simp add: bound_to_def)

lemma unat_port_after: "unat (port_after q i) = 0xc000 + (unat q - 0xc000 + i) mod 0x4000"
proof -
  have "(unat q - 0xc000 + i) mod 0x4000 < 0x4000" by simp
  then show ?thesis unfolding port_after_def by (intro unat_of_nat_small) linarith
qed

lemma port_after_range: "TCP_LOCAL_PORT_RANGE_START \<le> port_after q i"
  by (simp add: word_le_nat_alt unat_port_after TCP_LOCAL_PORT_RANGE_START_def)

lemma port_after_add: "port_after (port_after q i) j = port_after q (i + j)"
  unfolding port_after_def [of "port_after q i"] unat_port_after by (simp add: port_after_def mod_add_left_eq add.assoc)

lemma next_port_after: "TCP_LOCAL_PORT_RANGE_START \<le> q \<Longrightarrow> next_port q = port_after q 1"
proof -
  assume "TCP_LOCAL_PORT_RANGE_START \<le> q"
  then have q: "0xc000 \<le> unat q" "unat q < 0x10000"
    using unsigned_less [of q, where 'a = nat] by (simp_all add: word_le_nat_alt TCP_LOCAL_PORT_RANGE_START_def)
  have "unat (next_port q) = unat (port_after q 1)"
  proof (cases "q = TCP_LOCAL_PORT_RANGE_END")
    case False
    then have "unat q \<noteq> 0xffff" by (metis TCP_LOCAL_PORT_RANGE_END_def unat_eq of_nat_numeral)
    then show ?thesis using q False by (simp add: next_port_def unat_port_after unat_word_ariths)
  qed (simp add: next_port_def unat_port_after TCP_LOCAL_PORT_RANGE_END_def TCP_LOCAL_PORT_RANGE_START_def)
  then show ?thesis by (simp only: word_unat_eq_iff)
qed

lemma new_port_loop_ok:
  assumes "new_port_loop n s = (q, s')" "TCP_LOCAL_PORT_RANGE_START \<le> tcp_port s" "unat n < 0x4000"
  shows "s' = s\<lparr>tcp_port := tcp_port s'\<rparr> \<and>
    (if q = 0 then \<forall>i. 1 \<le> i \<and> i \<le> 0x4000 - unat n \<longrightarrow> port_used s (port_after (tcp_port s) i)
     else q = tcp_port s' \<and> TCP_LOCAL_PORT_RANGE_START \<le> q \<and> \<not> port_used s q)"
  using assms
proof (induction n s rule: new_port_loop.induct)
  case (1 n s)
  let ?q = "port_after (tcp_port s) 1" and ?s = "s\<lparr>tcp_port := next_port (tcp_port s)\<rparr>"
  have nq: "next_port (tcp_port s) = ?q" by (rule next_port_after [OF 1(3)])
  have n1: "unat (n + 1) = unat n + 1" using 1(4) by (simp add: unat_word_ariths)
  have lt: "TCP_LOCAL_PORT_RANGE_END - TCP_LOCAL_PORT_RANGE_START < n + 1 \<longleftrightarrow> unat n = 0x3fff"
    using 1(4) n1 by (auto simp: TCP_LOCAL_PORT_RANGE_END_def TCP_LOCAL_PORT_RANGE_START_def word_less_nat_alt)
  have nz: "?q \<noteq> 0" using port_after_range [of "tcp_port s" 1] by (auto simp: TCP_LOCAL_PORT_RANGE_START_def)
  show ?case
  proof (cases "port_used s ?q")
    case False
    then have "(q, s') = (?q, ?s)" using 1(2) by (subst (asm) new_port_loop.simps) (auto simp: nq port_used_def)
    then show ?thesis using False nz port_after_range by (auto simp: nq)
  next
    case used: True
    then have b: "bound_to ?s (\<lambda>q' a. q' = tcp_port ?s)" by (simp add: port_used_def nq)
    show ?thesis
    proof (cases "unat n = 0x3fff")
      case True
      then have "(q, s') = (0, ?s)" using 1(2) b lt by (subst (asm) new_port_loop.simps) (simp add: nq)
      moreover have "i = 1" if "1 \<le> i" "i \<le> 0x4000 - unat n" for i using that True by simp
      ultimately show ?thesis using used by auto
    next
      case False
      then have r: "new_port_loop (n + 1) ?s = (q, s')" using 1(2) b lt by (subst (asm) (1) new_port_loop.simps) simp
      have IH: "s' = ?s\<lparr>tcp_port := tcp_port s'\<rparr> \<and>
          (if q = 0 then \<forall>i. 1 \<le> i \<and> i \<le> 0x4000 - unat (n + 1) \<longrightarrow> port_used ?s (port_after (tcp_port ?s) i)
           else q = tcp_port s' \<and> TCP_LOCAL_PORT_RANGE_START \<le> q \<and> \<not> port_used ?s q)"
        by (rule 1(1) [OF refl b _ r]) (use False lt 1(4) n1 port_after_range in \<open>simp_all add: nq\<close>)
      have "port_used s (port_after (tcp_port s) i)"
        if all: "\<forall>i. 1 \<le> i \<and> i \<le> 0x4000 - unat (n + 1) \<longrightarrow> port_used s (port_after ?q i)" and i: "1 \<le> i" "i \<le> 0x4000 - unat n" for i
      proof (cases "i = 1")
        case False
        then have "1 \<le> i - 1" "i - 1 \<le> 0x4000 - unat (n + 1)" using i n1 by linarith+
        then have "port_used s (port_after ?q (i - 1))" using all by blast
        then show ?thesis using i by (simp add: port_after_add)
      qed (use used in simp)
      then show ?thesis using IH by (auto simp: port_used_def nq)
    qed
  qed
qed

text \<open>
  C29. The search for a local port ends with a port of the dynamic range that no control block uses, if there is one, and with 0
  exactly if all of them are in use; only the place to go on searching from changes.
\<close>

theorem new_port_found:
  assumes "tcp_new_port s = (q, s')" "TCP_LOCAL_PORT_RANGE_START \<le> tcp_port s"
  shows "s' = s\<lparr>tcp_port := tcp_port s'\<rparr> \<and>
    (if q = 0 then \<forall>r \<ge> TCP_LOCAL_PORT_RANGE_START. port_used s r else TCP_LOCAL_PORT_RANGE_START \<le> q \<and> \<not> port_used s q)"
proof -
  have r: "s' = s\<lparr>tcp_port := tcp_port s'\<rparr> \<and>
    (if q = 0 then \<forall>i. 1 \<le> i \<and> i \<le> 0x4000 - unat (0 :: u16) \<longrightarrow> port_used s (port_after (tcp_port s) i)
     else q = tcp_port s' \<and> TCP_LOCAL_PORT_RANGE_START \<le> q \<and> \<not> port_used s q)"
    by (rule new_port_loop_ok) (use assms in \<open>simp_all add: tcp_new_port_def\<close>)
  have "port_used s r" if all: "\<forall>i. 1 \<le> i \<and> i \<le> 0x4000 \<longrightarrow> port_used s (port_after (tcp_port s) i)" and "TCP_LOCAL_PORT_RANGE_START \<le> r" for r
  proof -
    have u: "0xc000 \<le> unat r" "unat r < 0x10000" "0xc000 \<le> unat (tcp_port s)" "unat (tcp_port s) < 0x10000"
      using that(2) assms(2) unsigned_less [of r, where 'a = nat] unsigned_less [of "tcp_port s", where 'a = nat]
      by (simp_all add: word_le_nat_alt TCP_LOCAL_PORT_RANGE_START_def)
    define i where "i = (if unat r \<le> unat (tcp_port s) then unat r + 0x4000 - unat (tcp_port s) else unat r - unat (tcp_port s))"
    have i: "1 \<le> i" "i \<le> 0x4000" using u by (auto simp: i_def)
    have "(unat (tcp_port s) - 0xc000 + i) mod 0x4000 = unat r - 0xc000"
    proof (cases "unat r \<le> unat (tcp_port s)")
      case True
      then have "unat (tcp_port s) - 0xc000 + i = (unat r - 0xc000) + 0x4000" using u by (simp add: i_def)
      moreover have "(unat r - 0xc000) mod 0x4000 = unat r - 0xc000" by (rule mod_less) (use u in linarith)
      ultimately show ?thesis by (simp only: mod_add_self2)
    next
      case False
      then have "unat (tcp_port s) - 0xc000 + i = unat r - 0xc000" using u by (simp add: i_def)
      then show ?thesis using u by simp
    qed
    then have "unat (port_after (tcp_port s) i) = unat r" using u by (simp add: unat_port_after)
    then have "port_after (tcp_port s) i = r" by (simp only: word_unat_eq_iff)
    then show ?thesis using all i by metis
  qed
  then show ?thesis using r by (auto split: if_splits)
qed

theorem new_port_found_witness:
  "fst (tcp_new_port demo_tcp) = 0xc001 \<and> \<not> port_used demo_tcp 0xc001"
proof -
  have u: "\<not> port_used demo_tcp 0xc001" by (simp add: port_used_def bound_to_def demo_tcp_def demo_pcb_def)
  have p: "tcp_port demo_tcp = 0xc000" by (simp add: demo_tcp_def)
  have "tcp_new_port demo_tcp = (0xc001, demo_tcp\<lparr>tcp_port := 0xc001\<rparr>)"
    unfolding tcp_new_port_def using u
    by (subst new_port_loop.simps) (simp add: port_used_def next_port_def TCP_LOCAL_PORT_RANGE_END_def p Let_def)
  from new_port_found [OF this] this u show ?thesis by (simp add: TCP_LOCAL_PORT_RANGE_START_def p)
qed

declare of_nat_unat [simp]

end
