(* ===== verification/Tcp_Queue.thy ===== *)
theory Tcp_Queue
  imports Tcp_Properties
begin

text \<open>The queues of segments on the sending side: what is acknowledged leaves them, and the send buffer accounts for every byte in them.\<close>

unbundle bit_operations_syntax

section \<open>Memory\<close>

lemma pbuf_free_loop_bytes:
  assumes free: "\<And>p h. custom_free_function E p h = h\<lparr>RX_POOL := p # RX_POOL h\<rparr>"
  shows "pbuf_free_loop E p n h = Some r \<Longrightarrow> bytes (snd r) = bytes h"
proof -
  have d: "bytes (pbuf_dealloc E p b h) = bytes h" for p b h by (simp add: pbuf_dealloc_def free Let_def)
  assume "pbuf_free_loop E p n h = Some r"
  then have "E = E \<longrightarrow> bytes (snd r) = bytes h"
  proof (rule pbuf_free_loop.raw_induct [where P = "\<lambda>E' p n h r. E' = E \<longrightarrow> bytes (snd r) = bytes h", rotated])
    fix f E' p n h r
    assume IH: "\<And>E' p n h r. f E' p n h = Some r \<Longrightarrow> E' = E \<longrightarrow> bytes (snd r) = bytes h"
      and "(if p = 0 then Some (n, h) else case pb h p of None \<Rightarrow> None
        | Some b \<Rightarrow> if pref b - 1 = 0 then f E' (pnext b) (n + 1) (pbuf_dealloc E' p (b\<lparr>pref := 0\<rparr>) h)
            else Some (n, put_pbuf p (b\<lparr>pref := pref b - 1\<rparr>) h)) = Some (r :: 8 word \<times> store)"
    then show "E' = E \<longrightarrow> bytes (snd r) = bytes h" using d by (auto split: if_splits option.splits dest!: IH)
  qed
  then show ?thesis by simp
qed

lemma tcp_seg_free_bytes:
  assumes "tcp_seg_free E g s = Some s'" "\<And>p h. custom_free_function (pbufs E) p h = h\<lparr>RX_POOL := p # RX_POOL h\<rparr>"
  shows "bytes (mem_of s') = bytes (mem_of s)"
  using assms(1) pbuf_free_loop_bytes [OF assms(2)]
  by (fastforce simp: tcp_seg_free_def free_packet_def pbuf_free_def bind_eq_Some_conv split: if_splits)

section \<open>Queues\<close>

definition queue_bytes :: "tcp_seg list \<Rightarrow> nat" where
  "queue_bytes gs = sum_list (map (\<lambda>g. unat (seg_len g)) gs)"

lemma queue_bytes_simps [simp]: "queue_bytes [] = 0" "queue_bytes (g # gs) = unat (seg_len g) + queue_bytes gs" "queue_bytes (fs @ gs) = queue_bytes fs + queue_bytes gs"
  by (simp_all add: queue_bytes_def)

lemma queue_bytes_insert [simp]: "queue_bytes (seq_insert h g gs) = unat (seg_len g) + queue_bytes gs" "queue_bytes (to_unacked h g gs) = unat (seg_len g) + queue_bytes gs"
proof -
  show i: "queue_bytes (seq_insert h g gs) = unat (seg_len g) + queue_bytes gs" by (induction gs) auto
  show "queue_bytes (to_unacked h g gs) = unat (seg_len g) + queue_bytes gs" using i by (auto simp: to_unacked_def)
qed

text \<open>The free room and the bytes queued are the whole send buffer.\<close>

definition buffer_ok :: "tcp_pcb \<Rightarrow> bool" where
  "buffer_ok c \<longleftrightarrow> unat (snd_buf c) + queue_bytes (unacked c) + queue_bytes (unsent c) = unat TCP_SND_BUF"

lemma drop_acked_ok:
  assumes "drop_acked E P gs s = Some (rest, k, s')" "\<And>p h. custom_free_function (pbufs E) p h = h\<lparr>RX_POOL := p # RX_POOL h\<rparr>"
    "\<And>h h' g. bytes h = bytes h' \<Longrightarrow> P h g = P h' g"
  shows "rest = dropWhile (P (mem_of s)) gs \<and> recv_acked s' = recv_acked s + of_nat (queue_bytes (takeWhile (P (mem_of s)) gs)) \<and>
    bytes (mem_of s') = bytes (mem_of s)"
  using assms(1)
proof (induction gs arbitrary: s rest k)
  case (Cons g gs)
  show ?case
  proof (cases "P (mem_of s) g")
    case True
    then obtain t rest' k' where t: "tcp_seg_free E g (s\<lparr>recv_acked := recv_acked s + seg_len g\<rparr>) = Some t" "drop_acked E P gs t = Some (rest, k', s')"
      using Cons.prems by (auto simp: bind_eq_Some_conv)
    have b: "bytes (mem_of t) = bytes (mem_of s)" using tcp_seg_free_bytes [OF t(1) assms(2)] by simp
    have r: "recv_acked t = recv_acked s + seg_len g"
      using t(1) by (auto simp: tcp_seg_free_def bind_eq_Some_conv split: if_splits dest!: free_packet_part dest: tcp_part_fields)
    have "P (mem_of t) = P (mem_of s)" by (rule ext) (rule assms(3) [OF b])
    then show ?thesis using Cons.IH [OF t(2)] b r True by (simp add: add.assoc)
  next
    case False
    then show ?thesis using Cons.prems by auto
  qed
qed simp

section \<open>Acknowledgements\<close>

text \<open>The fields of a block that belong to the queues.\<close>

definition queues :: "tcp_pcb \<Rightarrow> u16 \<times> tcp_seg list \<times> tcp_seg list \<times> u32 \<times> u32" where
  "queues c = (snd_buf c, unacked c, unsent c, lastack c, snd_nxt c)"

lemma queues_flags [simp]: "queues (set_tflags f c) = queues c" "queues (clear_tflags f c) = queues c" "queues (update_snd_wnd a b w c) = queues c"
  "queues (rtt_estimate t x c) = queues c" "queues (start_persist c) = queues c" "queues (inflate_cwnd c) = queues c"
  by (auto simp: queues_def set_tflags_def clear_tflags_def update_snd_wnd_def start_persist_def rtt_estimate_def inflate_cwnd_def Let_def split: if_splits)

lemma new_ack_queues: "new_ack x c = Some d \<Longrightarrow> queues d = (snd_buf c, unacked c, unsent c, x, snd_nxt c)"
  by (auto simp: queues_def new_ack_def clear_tflags_def inflate_cwnd_def Let_def split: if_splits)

lemma alloc_header_queues:
  assumes "tcp_output_alloc_header E p a b n s = Some (q, s')" "pcbs s p = Some c"
  shows "(\<exists>c'. pcbs s' p = Some c' \<and> queues c' = queues c) \<and> recv_acked s' = recv_acked s"
  using assms by (auto simp: tcp_output_alloc_header_def bind_eq_Some_conv Let_def queues_def split: if_splits)

lemma empty_ack_queues:
  assumes "tcp_send_empty_ack E p s = Some (e, s')" "pcbs s p = Some c" "tcp_quiet E"
  shows "(\<exists>c'. pcbs s' p = Some c' \<and> queues c' = queues c) \<and> recv_acked s' = recv_acked s"
proof -
  obtain q t where t: "tcp_output_alloc_header E p 0 0 (snd_nxt c) s = Some (q, t)"
    using assms(1,2) by (auto simp: tcp_send_empty_ack_def bind_eq_Some_conv)
  obtain d where d: "pcbs t p = Some d" "queues d = queues c" "recv_acked t = recv_acked s" using alloc_header_queues [OF t assms(2)] by auto
  show ?thesis
  proof (cases "q = 0")
    case True
    then show ?thesis using assms(1,2) t d by (auto simp: tcp_send_empty_ack_def bind_eq_Some_conv upd_pcb_Some)
  next
    case False
    then obtain u f where u: "send_and_free E q (local_ip c) (remote_ip c) (ttl c) (tos c) t = Some (e, u)" "upd_pcb p f u = Some s'"
      and f: "f = (if e \<noteq> ERR_OK then set_tflags else clear_tflags) (TF_ACK_DELAY OR TF_ACK_NOW)"
      using assms(1,2) t by (auto simp: tcp_send_empty_ack_def bind_eq_Some_conv)
    have "pcbs u = pcbs t" "recv_acked u = recv_acked t" using tcp_part_fields [OF send_and_free_part [OF u(1) assms(3)]] by simp_all
    then show ?thesis using u(2) d f by (auto simp: upd_pcb_Some)
  qed
qed

lemma dup_ack_queues:
  "snd_buf (duplicate_ack h a n e c) = snd_buf c" "lastack (duplicate_ack h a n e c) = lastack c" "snd_nxt (duplicate_ack h a n e c) = snd_nxt c"
  "queue_bytes (unacked (duplicate_ack h a n e c)) + queue_bytes (unsent (duplicate_ack h a n e c)) = queue_bytes (unacked c) + queue_bytes (unsent c)"
  by (auto simp: duplicate_ack_def inflate_cwnd_def tcp_rexmit_fast_def tcp_rexmit_def count_rexmit_def set_tflags_def Let_def split: list.splits)

lemma bytes_only: "bytes h = bytes h' \<Longrightarrow> acked_by a h g = acked_by a h' g" "bytes h = bytes h' \<Longrightarrow> acked_unsent a n h g = acked_unsent a n h' g"
  by (simp_all add: acked_by_def acked_unsent_def seg_seqno_def TCP_TCPLEN_def)

text \<open>While an acknowledgement is processed, the bytes already counted as acknowledged are missing in the account.\<close>

definition accounted :: "'d tcp \<Rightarrow> tcp_pcb \<Rightarrow> bool" where
  "accounted s c \<longleftrightarrow> unat (snd_buf c) + queue_bytes (unacked c) + queue_bytes (unsent c) + unat (recv_acked s) = unat TCP_SND_BUF"

lemma take_drop_queue: "queue_bytes gs = queue_bytes (takeWhile P gs) + queue_bytes (dropWhile P gs)"
  by (metis queue_bytes_simps(3) takeWhile_dropWhile_id)

lemma unat_acked: "unat a + n \<le> unat TCP_SND_BUF \<Longrightarrow> unat (a + of_nat n :: u16) = unat a + n"
  by (simp add: unat_word_ariths unat_of_nat TCP_SND_BUF_def)

lemma ack_unacked_queues:
  assumes "ack_unacked E p s = Some s'" "pcbs s p = Some c" "accounted s c"
    "\<And>p h. custom_free_function (pbufs E) p h = h\<lparr>RX_POOL := p # RX_POOL h\<rparr>"
  shows "\<exists>c'. pcbs s' p = Some c' \<and> accounted s' c' \<and> bytes (mem_of s') = bytes (mem_of s) \<and>
    queues c' = (snd_buf c, dropWhile (acked_by (in_ackno s) (mem_of s)) (unacked c), unsent c, in_ackno s, snd_nxt c)"
proof -
  obtain d rest k t where d: "new_ack (in_ackno s) c = Some d"
    and t: "drop_acked E (acked_by (in_ackno s)) (unacked d) s = Some (rest, k, t)"
    and s': "s' = set_pcb p (d\<lparr>unacked := rest, snd_queuelen := snd_queuelen d - k, rtime := (if rest = [] then -1 else 0), polltmr := 0\<rparr>) t"
    using assms(1,2) by (auto simp: ack_unacked_def bind_eq_Some_conv)
  have q: "snd_buf d = snd_buf c" "unacked d = unacked c" "unsent d = unsent c" "lastack d = in_ackno s" "snd_nxt d = snd_nxt c"
    using new_ack_queues [OF d] by (simp_all add: queues_def)
  note r = drop_acked_ok [OF t assms(4) bytes_only(1), unfolded q]
  have "unat (recv_acked t) = unat (recv_acked s) + queue_bytes (takeWhile (acked_by (in_ackno s) (mem_of s)) (unacked c))"
    using r assms(3) take_drop_queue [of "unacked c" "acked_by (in_ackno s) (mem_of s)"] by (auto intro!: unat_acked simp: accounted_def)
  then show ?thesis using r q assms(3) take_drop_queue [of "unacked c" "acked_by (in_ackno s) (mem_of s)"]
    by (simp add: s' accounted_def queues_def)
qed

lemma ack_unsent_queues:
  assumes "ack_unsent E p s = Some s'" "pcbs s p = Some c" "accounted s c"
    "\<And>p h. custom_free_function (pbufs E) p h = h\<lparr>RX_POOL := p # RX_POOL h\<rparr>"
  shows "\<exists>c'. pcbs s' p = Some c' \<and> buffer_ok c' \<and> unat (snd_buf c') = unat (snd_buf c) + unat (recv_acked s') \<and>
    queues c' = (snd_buf c', unacked c, dropWhile (acked_unsent (in_ackno s) (snd_nxt c) (mem_of s)) (unsent c), lastack c, snd_nxt c)"
proof -
  obtain rest k t where t: "drop_acked E (acked_unsent (in_ackno s) (snd_nxt c)) (unsent c) s = Some (rest, k, t)"
    and s': "s' = set_pcb p (c\<lparr>unsent := rest, unsent_oversize := (if unsent c \<noteq> [] \<and> rest = [] then 0 else unsent_oversize c),
       snd_queuelen := snd_queuelen c - k, snd_buf := snd_buf c + recv_acked t\<rparr>) t"
    using assms(1,2) by (auto simp: ack_unsent_def bind_eq_Some_conv)
  let ?P = "acked_unsent (in_ackno s) (snd_nxt c) (mem_of s)"
  note r = drop_acked_ok [OF t assms(4) bytes_only(2)]
  have a: "unat (recv_acked t) = unat (recv_acked s) + queue_bytes (takeWhile ?P (unsent c))"
    using r assms(3) take_drop_queue [of "unsent c" ?P] by (auto intro!: unat_acked simp: accounted_def)
  have "unat (snd_buf c) + unat (recv_acked t) \<le> unat TCP_SND_BUF"
    using a assms(3) take_drop_queue [of "unsent c" ?P] by (simp add: accounted_def)
  from unat_acked [OF this] have "unat (snd_buf c + recv_acked t) = unat (snd_buf c) + unat (recv_acked t)" by simp
  then show ?thesis using r a assms(3) take_drop_queue [of "unsent c" ?P] by (simp add: s' buffer_ok_def accounted_def queues_def)
qed

lemma receive_ack_queues:
  assumes r: "receive_ack E p s = Some s'" and c: "pcbs s p = Some c" and b: "buffer_ok c" "recv_acked s = 0" and q: "tcp_quiet E"
    and free: "\<And>p h. custom_free_function (pbufs E) p h = h\<lparr>RX_POOL := p # RX_POOL h\<rparr>"
  shows "\<exists>c'. pcbs s' p = Some c' \<and> buffer_ok c' \<and> unat (snd_buf c') = unat (snd_buf c) + unat (recv_acked s') \<and>
    (if \<not> TCP_SEQ_LEQ (in_ackno s) (lastack c) \<and> TCP_SEQ_BETWEEN (in_ackno s) (lastack c + 1) (snd_nxt c)
     then lastack c' = in_ackno s \<and> unacked c' = dropWhile (acked_by (in_ackno s) (mem_of s)) (unacked c) \<and>
       unsent c' = dropWhile (acked_unsent (in_ackno s) (snd_nxt c) (mem_of s)) (unsent c)
     else lastack c' = lastack c)"
proof -
  define d where "d = update_snd_wnd (in_seqno s) (in_ackno s) (hdr_wnd s) c"
  define t where "t = set_pcb p d s"
  have d: "snd_buf d = snd_buf c" "unacked d = unacked c" "unsent d = unsent c" "lastack d = lastack c" "snd_nxt d = snd_nxt c"
    using queues_flags(3) [of "in_seqno s" "in_ackno s" "hdr_wnd s" c] by (simp_all add: d_def queues_def)
  have t: "pcbs t p = Some d" "accounted t d" "in_ackno t = in_ackno s" "mem_of t = mem_of s" using b d by (simp_all add: t_def accounted_def buffer_ok_def)
  let ?dup = "duplicate_ack (mem_of t) (in_ackno s) (tcplen t) (ucast (snd_wnd c) + snd_wl2 c) d"
  let ?new = "\<not> TCP_SEQ_LEQ (in_ackno s) (lastack c) \<and> TCP_SEQ_BETWEEN (in_ackno s) (lastack c + 1) (snd_nxt c)"
  obtain t2 t3 where t2: "(if TCP_SEQ_LEQ (in_ackno s) (lastack d) then Some (set_pcb p ?dup t)
          else if TCP_SEQ_BETWEEN (in_ackno s) (lastack d + 1) (snd_nxt d) then ack_unacked E p t
          else tcp_send_empty_ack E p t \<bind> (\<lambda>(e, s). Some s)) = Some t2"
    and t3: "ack_unsent E p t2 = Some t3" "upd_pcb p (rtt_estimate (tcp_ticks t3) (in_ackno s)) t3 = Some s'"
    using r c unfolding receive_ack_def d_def t_def by (simp add: bind_eq_Some_conv Let_def del: set_pcb_simps) blast
  have v: "in_ackno t2 = in_ackno s"
  proof -
    have "view p t2 = view p t"
      using t2 by (auto simp: bind_eq_Some_conv split: if_splits dest: ack_unacked_view tcp_send_empty_ack_view [OF _ q] intro: view_set [OF t(1)])
    then show ?thesis using t(3) by (simp add: view_def segment_in_def)
  qed
  have "\<exists>d2. pcbs t2 p = Some d2 \<and> accounted t2 d2 \<and> snd_buf d2 = snd_buf c \<and> snd_nxt d2 = snd_nxt c \<and>
      (if ?new then bytes (mem_of t2) = bytes (mem_of s) \<and> lastack d2 = in_ackno s \<and> unacked d2 = dropWhile (acked_by (in_ackno s) (mem_of s)) (unacked c) \<and> unsent d2 = unsent c
       else lastack d2 = lastack c)"
  proof (cases "TCP_SEQ_LEQ (in_ackno s) (lastack c)")
    case True
    then have "t2 = set_pcb p ?dup t" using t2 d by simp
    then show ?thesis using True t(2) d dup_ack_queues [of "mem_of t" "in_ackno s" "tcplen t" "ucast (snd_wnd c) + snd_wl2 c" d]
      by (simp add: accounted_def add.assoc)
  next
    case old: False
    show ?thesis
    proof (cases "TCP_SEQ_BETWEEN (in_ackno s) (lastack c + 1) (snd_nxt c)")
      case True
      then have "ack_unacked E p t = Some t2" using t2 old d by simp
      from ack_unacked_queues [OF this t(1,2) free] show ?thesis using True old t(3,4) d by (auto simp: queues_def)
    next
      case False
      then obtain e where "tcp_send_empty_ack E p t = Some (e, t2)" using t2 old d by (auto simp: bind_eq_Some_conv)
      from empty_ack_queues [OF this t(1) q] show ?thesis using False t(2) d by (auto simp: queues_def accounted_def)
    qed
  qed
  then obtain d2 where d2: "pcbs t2 p = Some d2" "accounted t2 d2" "snd_buf d2 = snd_buf c" "snd_nxt d2 = snd_nxt c"
    "if ?new then bytes (mem_of t2) = bytes (mem_of s) \<and> lastack d2 = in_ackno s \<and> unacked d2 = dropWhile (acked_by (in_ackno s) (mem_of s)) (unacked c) \<and> unsent d2 = unsent c
       else lastack d2 = lastack c" by blast
  obtain d3 where d3: "pcbs t3 p = Some d3" "buffer_ok d3" "unat (snd_buf d3) = unat (snd_buf d2) + unat (recv_acked t3)"
    "queues d3 = (snd_buf d3, unacked d2, dropWhile (acked_unsent (in_ackno t2) (snd_nxt d2) (mem_of t2)) (unsent d2), lastack d2, snd_nxt d2)"
    using ack_unsent_queues [OF t3(1) d2(1,2) free] by blast
  let ?c = "rtt_estimate (tcp_ticks t3) (in_ackno s) d3"
  have s': "s' = set_pcb p ?c t3" using t3(2) d3(1) by (simp add: upd_pcb_Some)
  have "queues ?c = queues d3" by simp
  then have "buffer_ok ?c" "unat (snd_buf ?c) = unat (snd_buf c) + unat (recv_acked t3)" "unacked ?c = unacked d2" "lastack ?c = lastack d2"
    "unsent ?c = dropWhile (acked_unsent (in_ackno s) (snd_nxt c) (mem_of t2)) (unsent d2)"
    using d3 d2(3,4) v by (simp_all add: queues_def buffer_ok_def)
  moreover have "acked_unsent (in_ackno s) (snd_nxt c) (mem_of t2) = acked_unsent (in_ackno s) (snd_nxt c) (mem_of s)" if ?new
    by (rule ext, rule bytes_only(2)) (use that d2(5) in simp)
  ultimately show ?thesis using d2(5) unfolding s' by auto
qed

section \<open>Sending\<close>

lemma output_segment_queues:
  assumes "tcp_output_segment E g p n s = Some (e, s')" "pcbs s p = Some c" "tcp_quiet E"
  shows "\<exists>c'. pcbs s' p = Some c' \<and> queues c' = queues c"
proof -
  obtain b where b: "pb (mem_of s) (seg_p g) = Some b" using assms(1) by (auto simp: tcp_output_segment_def bind_eq_Some_conv)
  show ?thesis
  proof (cases "pref b = 1")
    case True
    let ?c = "\<lambda>x. segment_timed (tcp_ticks s) x c"
    obtain h x where "ip4_output_if (ip_env E) (seg_p g) (Some (local_ip c)) (Some (remote_ip c)) (ttl c) (tos c) IP_PROTO_TCP n
        ((set_pcb p (?c x) s)\<lparr>mem_of := h\<rparr>) = Some (e, s')"
      using assms(1,2) b True by (simp add: tcp_output_segment_def Let_def)
    from tcp_part_fields(1) [OF ip4_output_if_part [OF this assms(3)]] have "pcbs s' p = Some (?c x)" by simp
    moreover have "queues (?c x) = queues c" by (simp add: segment_timed_def queues_def Let_def)
    ultimately show ?thesis by blast
  qed (use assms b in \<open>simp add: tcp_output_segment_def\<close>)
qed

definition same_bytes :: "tcp_pcb \<Rightarrow> tcp_pcb \<Rightarrow> bool" where
  "same_bytes c c' \<longleftrightarrow> snd_buf c' = snd_buf c \<and> lastack c' = lastack c \<and>
     queue_bytes (unacked c') + queue_bytes (unsent c') = queue_bytes (unacked c) + queue_bytes (unsent c)"

lemma same_bytes_trans: "same_bytes c d \<Longrightarrow> same_bytes d e \<Longrightarrow> same_bytes c e"
  by (simp add: same_bytes_def)

lemma same_bytes_queues: "queues c' = queues c \<Longrightarrow> same_bytes c c'"
  by (simp add: same_bytes_def queues_def)

lemma same_bytes_ok: "same_bytes c c' \<Longrightarrow> buffer_ok c \<Longrightarrow> buffer_ok c'"
  by (simp add: same_bytes_def buffer_ok_def)

lemma output_loop_bytes:
  assumes "output_loop E p n w gs s = Some (r, s')" "pcbs s p = Some c" "unsent c = gs" "tcp_quiet E"
  shows "\<exists>c'. pcbs s' p = Some c' \<and> same_bytes c c'"
  using assms(1-3)
proof (induction gs arbitrary: s c)
  case Nil
  then show ?case by (auto simp: same_bytes_def)
next
  case (Cons g gs)
  let ?s = "if pcb_state c \<noteq> SYN_SENT then s\<lparr>mem_of := TCPH_SET_FLAG (seg_tcphdr g) TCP_ACK (mem_of s)\<rparr> else s"
  show ?case
  proof (cases "\<not> in_wnd w c (mem_of s) g \<or> (\<not> tcp_do_output_nagle c \<and> tflags c AND (TF_NAGLEMEMERR OR TF_FIN) = 0)")
    case True
    then show ?thesis using Cons.prems by (auto simp: same_bytes_def)
  next
    case False
    then obtain e t where t: "tcp_output_segment E g p n ?s = Some (e, t)"
      using Cons.prems(1,2) by (auto simp: bind_eq_Some_conv Let_def)
    have "pcbs ?s p = Some c" using Cons.prems(2) by simp
    from output_segment_queues [OF t this assms(4)] obtain d where d: "pcbs t p = Some d" "queues d = queues c" by blast
    show ?thesis
    proof (cases "e = ERR_OK")
      case no: False
      then show ?thesis using Cons.prems(1,2) False t d by (auto simp: bind_eq_Some_conv Let_def upd_pcb_Some intro!: same_bytes_queues)
    next
      case True
      define d1 where "d1 = raise_snd_nxt (seg_seqno (mem_of t) g + TCP_TCPLEN (mem_of t) g)
        (if pcb_state (d\<lparr>unsent := gs\<rparr>) \<noteq> SYN_SENT then clear_tflags (TF_ACK_DELAY OR TF_ACK_NOW) (d\<lparr>unsent := gs\<rparr>) else d\<lparr>unsent := gs\<rparr>)"
      have d1: "snd_buf d1 = snd_buf c" "unacked d1 = unacked c" "unsent d1 = gs" "lastack d1 = lastack c"
        using d(2) by (simp_all add: d1_def raise_snd_nxt_def clear_tflags_def queues_def)
      let ?T = "TCP_TCPLEN (mem_of t) g"
      have "(if 0 < ?T then Some (set_pcb p (d1\<lparr>unacked := to_unacked (mem_of t) g (unacked d1)\<rparr>) t) else tcp_seg_free E g (set_pcb p d1 t)) \<bind>
          output_loop E p n w gs = Some (r, s')"
        using Cons.prems(1) unfolding d1_def
        by (simp only: output_loop.simps Cons.prems(2) bind.simps if_not_P [OF False] Let_def t prod.case d(1) True simp_thms if_False)
      then obtain u where u: "(if 0 < ?T then Some (set_pcb p (d1\<lparr>unacked := to_unacked (mem_of t) g (unacked d1)\<rparr>) t) else tcp_seg_free E g (set_pcb p d1 t)) = Some u"
        "output_loop E p n w gs u = Some (r, s')" unfolding bind_eq_Some_conv by blast
      have "\<exists>d2. pcbs u p = Some d2 \<and> unsent d2 = gs \<and> same_bytes c d2"
      proof (cases "0 < ?T")
        case True
        then show ?thesis using u(1) d1 Cons.prems(3) by (auto simp: same_bytes_def)
      next
        case False
        have "seg_len g = 0"
        proof (rule ccontr)
          assume "seg_len g \<noteq> 0"
          then have "0 < unat (seg_len g)" "unat (seg_len g) < 65536"
            using unsigned_less [of "seg_len g", where 'a = nat] by (simp_all add: unat_gt_0)
          then have "0 < unat ?T" by (simp add: TCP_TCPLEN_def tcplen_of_def unat_word_ariths unsigned_ucast_eq take_bit_nat_eq_self)
          with False show False by (simp add: word_less_nat_alt)
        qed
        moreover have "pcbs u = pcbs (set_pcb p d1 t)"
          using u(1) False by (auto simp: tcp_seg_free_def bind_eq_Some_conv split: if_splits dest!: free_packet_part dest: tcp_part_fields)
        ultimately show ?thesis using d1 Cons.prems(3) by (auto simp: same_bytes_def)
      qed
      then obtain d2 where d2: "pcbs u p = Some d2" "unsent d2 = gs" "same_bytes c d2" by blast
      from Cons.IH [OF u(2) d2(1,2)] show ?thesis using same_bytes_trans [OF d2(3)] by blast
    qed
  qed
qed

lemma tcp_output_bytes:
  assumes "tcp_output E p s = Some (e, s')" "pcbs s p = Some c" "tcp_quiet E"
  shows "\<exists>c'. pcbs s' p = Some c' \<and> same_bytes c c'"
proof -
  let ?w = "ucast (min (snd_wnd c) (cwnd c)) :: u32" and ?n = "ip4_route (ip_env E) (remote_ip c)"
  let ?fits = "in_wnd ?w c (mem_of s)"
  define d where "d = (if ip4_addr_isany (local_ip c) then c\<lparr>local_ip := netif_ip4_addr (iface (ip_env E) ?n)\<rparr> else c)"
  have d: "same_bytes c d" "unsent d = unsent c" "queues d = queues c" by (auto simp: d_def queues_def intro!: same_bytes_queues)
  consider "s' = s" | "tcp_send_empty_ack E p s = Some (e, s')"
    | r t where "(if unsent d \<noteq> [] \<and> \<not> ?fits (hd (unsent d)) \<and> 0 < ?w \<and> ?w = ucast (snd_wnd d) \<and> unacked d = []
          then Some (None, set_pcb p (start_persist d) (set_pcb p d s)) else output_loop E p ?n ?w (unsent d) (set_pcb p d s)) = Some (r, t)"
        "(case r of Some e \<Rightarrow> Some (e, t) | None \<Rightarrow> upd_pcb p output_done t \<bind> (\<lambda>s. Some (ERR_OK, s))) = Some (e, s')"
    using assms(1,2) unfolding tcp_output_def d_def by (auto simp: bind_eq_Some_conv Let_def split: if_splits)
  then show ?thesis
  proof cases
    case 1
    then show ?thesis using assms(2) by (auto simp: same_bytes_def)
  next
    case 2
    then show ?thesis using empty_ack_queues [OF 2 assms(2,3)] same_bytes_queues by blast
  next
    case 3
    have "\<exists>d2. pcbs t p = Some d2 \<and> same_bytes d d2"
    proof (cases "unsent d \<noteq> [] \<and> \<not> ?fits (hd (unsent d)) \<and> 0 < ?w \<and> ?w = ucast (snd_wnd d) \<and> unacked d = []")
      case True
      then show ?thesis using 3(1) same_bytes_queues [of "start_persist d" d] by auto
    next
      case False
      then have "output_loop E p ?n ?w (unsent d) (set_pcb p d s) = Some (r, t)" using 3(1) by (simp only: if_False)
      from output_loop_bytes [OF this _ refl assms(3)] show ?thesis by simp
    qed
    then obtain d2 where d2: "pcbs t p = Some d2" "same_bytes d d2" by blast
    have "queues (output_done d2) = queues d2" by (simp add: output_done_def) (simp add: queues_def)
    then have "same_bytes d2 (output_done d2)" by (rule same_bytes_queues)
    then have "same_bytes c (output_done d2)" "same_bytes c d2" using d(1) d2(2) same_bytes_trans by blast+
    then show ?thesis using 3(2) d2(1) by (auto simp: bind_eq_Some_conv upd_pcb_Some split: option.splits)
  qed
qed

lemma rexmit_bytes: "same_bytes c (count_rexmit (c\<lparr>unsent := unacked c @ unsent c, unacked := []\<rparr>))"
  by (simp add: same_bytes_def count_rexmit_def)

lemma tcp_rexmit_rto_bytes:
  assumes r: "tcp_rexmit_rto E p s = Some s'" and c: "pcbs s p = Some c" and q: "tcp_quiet E"
  shows "\<exists>c'. pcbs s' p = Some c' \<and> same_bytes c c'"
proof (cases "unacked c = []")
  case False
  let ?c = "count_rexmit (c\<lparr>unsent := unacked c @ unsent c, unacked := []\<rparr>)"
  obtain e where o: "tcp_output E p (set_pcb p ?c s) = Some (e, s')"
    using r c False by (auto simp: tcp_rexmit_rto_def bind_eq_Some_conv)
  have "pcbs (set_pcb p ?c s) p = Some ?c" by simp
  from tcp_output_bytes [OF o this q] show ?thesis using same_bytes_trans [OF rexmit_bytes] by blast
qed (use r c in \<open>simp add: tcp_rexmit_rto_def same_bytes_def\<close>)

text \<open>
  C25. The send buffer is accounted for: the bytes free in it and the bytes in the two queues are always \<^verbatim>\<open>TCP_SND_BUF\<close>. A new
  acknowledgement takes exactly the segments it covers from the front of the queues, sets \<^verbatim>\<open>lastack\<close>, and what the application is told
  to be acknowledged is what becomes free; sending and retransmission move segments between the queues and lose none.
\<close>

theorem send_buffer_accounted:
  assumes "pcbs s p = Some c" "buffer_ok c" "recv_acked s = 0" "tcp_quiet E"
    "\<And>p h. custom_free_function (pbufs E) p h = h\<lparr>RX_POOL := p # RX_POOL h\<rparr>"
  shows "(receive_ack E p s = Some s' \<longrightarrow> (\<exists>c'. pcbs s' p = Some c' \<and> buffer_ok c' \<and> unat (snd_buf c') = unat (snd_buf c) + unat (recv_acked s') \<and>
      (if \<not> TCP_SEQ_LEQ (in_ackno s) (lastack c) \<and> TCP_SEQ_BETWEEN (in_ackno s) (lastack c + 1) (snd_nxt c)
       then lastack c' = in_ackno s \<and> unacked c' = dropWhile (acked_by (in_ackno s) (mem_of s)) (unacked c) \<and>
         unsent c' = dropWhile (acked_unsent (in_ackno s) (snd_nxt c) (mem_of s)) (unsent c)
       else lastack c' = lastack c))) \<and>
    (tcp_output E p s = Some (e, s') \<or> tcp_rexmit_rto E p s = Some s' \<longrightarrow>
      (\<exists>c'. pcbs s' p = Some c' \<and> buffer_ok c' \<and> snd_buf c' = snd_buf c \<and> lastack c' = lastack c))"
proof (rule conjI; rule impI)
  assume "tcp_output E p s = Some (e, s') \<or> tcp_rexmit_rto E p s = Some s'"
  then obtain c' where "pcbs s' p = Some c'" "same_bytes c c'"
    using tcp_output_bytes [OF _ assms(1,4)] tcp_rexmit_rto_bytes [OF _ assms(1,4)] by blast
  then show "\<exists>c'. pcbs s' p = Some c' \<and> buffer_ok c' \<and> snd_buf c' = snd_buf c \<and> lastack c' = lastack c"
    using same_bytes_ok [OF _ assms(2)] by (auto simp: same_bytes_def)
qed (rule receive_ack_queues [OF _ assms])

text \<open>Two bytes sent and not acknowledged yet, in the pbuf at 90; the segment received acknowledges them.\<close>

definition demo_sent :: tcp_seg where
  "demo_sent = \<lparr>seg_p = 90, seg_len = 2, seg_flags = 0, seg_tcphdr = 300\<rparr>"

definition demo_waiting :: tcp_pcb where
  "demo_waiting = demo_pcb\<lparr>snd_nxt := 102, snd_buf := 5838, unacked := [demo_sent]\<rparr>"

definition demo_acked :: "unit tcp" where
  "demo_acked = demo_tcp\<lparr>mem_of := memcpy_to 300 (tcp_hdr 80 5000 100 0 0x5010 2920) demo_segment, pcbs := [1 \<mapsto> demo_waiting], in_ackno := 102\<rparr>"

lemma demo_acked_by: "acked_by 102 (mem_of demo_acked) demo_sent"
  by (simp add: acked_by_def seg_seqno_def TCP_TCPLEN_def tcplen_of_def TCPH_FLAGS_def demo_acked_def demo_sent_def demo_segment_def memcpy_to_def
      mem_write_def tcp_hdr_def be32_def be16_def net32_def net16_def lwip_htonl_def lwip_htons_def ld16_def ld32_def halfword_def TCP_SEQ_LEQ_def TCP_FLAGS_def TCP_FIN_def TCP_SYN_def
      mem_slice_def upt_rec le32_def)

lemma demo_acked_returns: "\<exists>s'. receive_ack demo_tcp_env 1 demo_acked = Some s'"
proof -
  let ?s = "demo_acked" and ?g = "demo_sent" and ?E = "demo_tcp_env"
  have m: "pb (mem_of ?s) 90 = Some (demo_buf 90 0 2 2)" by (simp add: demo_acked_def demo_packets_def)
  have seg: "seg_p ?g = 90" "seg_len ?g = 2" by (simp_all add: demo_sent_def)
  have clen: "pbuf_clen 90 (mem_of s) = Some 1" if "pb (mem_of s) 90 = Some (demo_buf 90 0 2 2)" for s :: "unit tcp"
    using that by (simp add: pbuf_clen_def pbuf_clen_loop.simps demo_buf_def)
  have fr: "\<exists>s'. tcp_seg_free ?E ?g s = Some s'" if "pb (mem_of s) 90 = Some (demo_buf 90 0 2 2)" for s :: "unit tcp"
    using that seg by (simp add: tcp_seg_free_def free_packet_def pbuf_free_def pbuf_free_loop.simps demo_buf_def)
  have drop: "\<exists>t. drop_acked ?E (acked_by 102) [?g] s = Some ([], 1, t)" if "mem_of s = mem_of ?s" for s :: "unit tcp"
    using that m demo_acked_by clen [of s] fr [of "s\<lparr>recv_acked := recv_acked s + 2\<rparr>"] by (auto simp: seg)
  define d where "d = update_snd_wnd (in_seqno ?s) 102 (hdr_wnd ?s) demo_waiting"
  have "queues d = queues demo_waiting" by (simp add: d_def)
  then have q: "unacked d = [?g]" "unsent d = []" "lastack d = 100" "snd_nxt d = 102" by (simp_all add: queues_def demo_waiting_def demo_pcb_def)
  have "cwnd d = 1" "ssthresh d = 5840" by (simp_all add: d_def update_snd_wnd_def start_persist_def demo_waiting_def demo_pcb_def Let_def)
  then have "new_ack 102 d \<noteq> None" by (simp add: new_ack_def clear_tflags_def Let_def)
  then obtain d1 where d1: "new_ack 102 d = Some d1" by blast
  then have q1: "unacked d1 = [?g]" "unsent d1 = []" using new_ack_queues [OF d1] q by (simp_all add: queues_def)
  let ?t = "set_pcb 1 d ?s"
  obtain t where t: "drop_acked ?E (acked_by 102) [?g] ?t = Some ([], 1, t)" using drop [of ?t] by auto
  have a: "in_ackno ?s = 102" "pcbs ?s 1 = Some demo_waiting" by (simp_all add: demo_acked_def)
  have "\<exists>u v. ack_unacked ?E 1 ?t = Some u \<and> pcbs u 1 = Some v \<and> unsent v = []"
    using t d1 q1 a by (simp add: ack_unacked_def)
  moreover have "\<not> TCP_SEQ_LEQ 102 100" "TCP_SEQ_BETWEEN 102 101 102" by (simp_all add: TCP_SEQ_LEQ_def TCP_SEQ_BETWEEN_def TCP_SEQ_GEQ_def)
  moreover have "pcbs (set_pcb p c s) p = Some c" for p c and s :: "unit tcp" by simp
  ultimately show ?thesis using a q d_def
    by (auto simp: receive_ack_def Let_def ack_unsent_def upd_pcb_def simp del: set_pcb_simps)
qed

theorem send_buffer_accounted_witness:
  "\<exists>s' c'. receive_ack demo_tcp_env 1 demo_acked = Some s' \<and> pcbs s' 1 = Some c' \<and> unacked c' = [] \<and> snd_buf c' = TCP_SND_BUF \<and> lastack c' = 102"
proof -
  obtain s' where s': "receive_ack demo_tcp_env 1 demo_acked = Some s'" using demo_acked_returns by blast
  have c: "pcbs demo_acked 1 = Some demo_waiting" "in_ackno demo_acked = 102" "recv_acked demo_acked = 0" by (simp_all add: demo_acked_def demo_tcp_def)
  have w: "unacked demo_waiting = [demo_sent]" "unsent demo_waiting = []" "lastack demo_waiting = 100" "snd_nxt demo_waiting = 102"
    by (simp_all add: demo_waiting_def demo_pcb_def)
  have b: "buffer_ok demo_waiting" by (simp add: buffer_ok_def demo_waiting_def demo_sent_def demo_pcb_def TCP_SND_BUF_def)
  have "\<not> TCP_SEQ_LEQ 102 100" "TCP_SEQ_BETWEEN 102 101 102" by (simp_all add: TCP_SEQ_LEQ_def TCP_SEQ_BETWEEN_def TCP_SEQ_GEQ_def)
  then obtain c' where c': "pcbs s' 1 = Some c'" "buffer_ok c'" "unacked c' = []" "unsent c' = []" "lastack c' = 102"
    using send_buffer_accounted [OF c(1) b c(3) demo_tcp_quiet] s' demo_acked_by unfolding c w by auto
  then show ?thesis using s' by (auto simp: buffer_ok_def word_unat_eq_iff)
qed

end
