(* ===== verification/Tcp_Send.thy ===== *)
theory Tcp_Send
  imports Tcp_Properties
begin

text \<open>\<^verbatim>\<open>tcp_write\<close> queues all of the data or nothing.\<close>

unbundle bit_operations_syntax

text \<open>
  The state without the store and the pool of segments: all control blocks, their lists, the incoming segment. It is the same afterwards,
  and \<open>k\<close> segments more are free.
\<close>

definition outside :: "'d tcp \<Rightarrow> _" where
  "outside s = (pcbs s, view 0 s)"

definition leaves :: "nat \<Rightarrow> 'd tcp \<Rightarrow> 'd tcp \<Rightarrow> bool" where
  "leaves k s s' \<longleftrightarrow> outside s' = outside s \<and> free_segs s' = free_segs s + k"

lemma outside_simps [simp]: "outside (s\<lparr>mem_of := h\<rparr>) = outside s" "outside (s\<lparr>free_segs := n\<rparr>) = outside s"
  by (simp_all add: outside_def)

lemma leaves_0 [simp]: "leaves 0 s s" "leaves 0 s (s\<lparr>mem_of := h\<rparr>)" "leaves k (s\<lparr>mem_of := h\<rparr>) t = leaves k s t"
  by (simp_all add: leaves_def)


















end
