(* ===== verification/Spec2Isabelle.thy ===== *)
theory Spec2Isabelle
  imports Lifecycle Console_Properties Eth_Properties Board_Properties Mem_Properties Arp_Properties Chksum_Correct Ip_Properties
    Tcp_Properties Tcp_State Tcp_Bounds Tcp_Queue Tcp_Send
begin

text \<open>
  \<^bold>\<open>An Ethernet OTA bootloader for the STM32H743, verified\<close>

  \<^bold>\<open>The program.\<close> All paths are below \<^verbatim>\<open>src/STM32/Bootloader/User/\<close>. After a reset \<^verbatim>\<open>main\<close> configures memory
  protection, clock, LEDs, UART and keys, takes the boot decision from a 64-byte metadata record in
  internal flash (\<^verbatim>\<open>Boot_Metadata_Step\<close>) and either starts the application in bank 2, under the watchdog
  when it is on trial, or enters a console. The console asks a version server over TCP, receives a
  firmware image over TCP into RAM, stages it in a NOR flash, checks it twice by CRC-32 and, after the
  user's consent, backs the old application up to the NOR flash, programs the new one into bank 2 and
  records a pending update. An application that does not survive its trial run is rolled back at
  the next boot. Below lie lwIP (memory, timers, packet buffers, ARP, IP, ICMP, TCP), the Ethernet driver and the board support.

  \<^bold>\<open>Shape of the model.\<close> Code that touches the hardware is a program of the state monad over an
  arbitrary device state \<open>'d\<close>, with the calls of the HAL as a record argument (\<open>'d hal\<close>, \<open>'d bsp\<close>, \<open>'d eth\<close>):
  the HAL, CMSIS and the chips are not in the repository. Globals of a C file are one record, passed
  and returned. Status codes are the C values; a write outside an array, a null dereference or a call
  that does not return is a value of its own (\<open>None\<close>, \<open>Undef\<close>, \<open>Undefined\<close>, \<open>Rx_Undef\<close>). 8, 16 and 32-bit
  integers are words; addresses and sizes that the code keeps below \<open>2 ^ 32\<close> are natural numbers. What
  lwIP, the user and the clock do is input: lists of events, keys and ticks, one entry per pass of a
  loop.

  \<^bold>\<open>Theories, in the order of the imports.\<close>
  \<^item> \<^verbatim>\<open>Prelude\<close>: word and memory types, slices and writes of memories, cells that are half programmed
    (\<open>between\<close>), weakest preconditions (\<open>wp\<close>), preserved predicates (\<open>pres\<close>), the collections
    \<open>wp_simps\<close> and \<open>pres_rules\<close>.
  \<^item> \<^verbatim>\<open>Crc32\<close>: \<^verbatim>\<open>crc32/crc32.c\<close> and the bitwise loop of \<^verbatim>\<open>ota.c\<close>; linearity and burst detection.
  \<^item> \<^verbatim>\<open>Hal\<close>, \<^verbatim>\<open>Fault_Budget\<close>: the HAL record and the hardware contracts, as locales. \<open>hal_laws\<close> is what
    the data sheets promise whatever calls fail (write-enable latch, wrap inside a page, erase
    granularity, busy bit, flash words, lock, and that a failed call touches only the cells it addresses);
    \<open>hal_budget\<close> adds that a device has finitely many faults left, each failing call using one up.
  \<^item> \<^verbatim>\<open>Qspi_Flash\<close>, \<^verbatim>\<open>Nor_Store\<close>, \<^verbatim>\<open>Qspi_Correct\<close>: \<^verbatim>\<open>flash/bsp_qspi_flash.c\<close>, the contract of the driver
    towards its clients (locale \<open>nor_store\<close>), and that the driver keeps it (a sublocale).
  \<^item> \<^verbatim>\<open>Metadata\<close>: \<^verbatim>\<open>metadata/metadata.c\<close>, the record, its bytes, reading and writing with retries.
  \<^item> \<^verbatim>\<open>Ota_Receive\<close>, \<^verbatim>\<open>Ota_Flash\<close>, \<^verbatim>\<open>Ota_Correct\<close>: \<^verbatim>\<open>ota/ota.c\<close>, the TCP server and its callbacks; staging,
    checking, backup, programming and recording; their correctness under any faults.
  \<^item> \<^verbatim>\<open>Menu\<close>, \<^verbatim>\<open>Menu_Correct\<close>: \<^verbatim>\<open>menu/menu.c\<close>, backup, restore, rollback, boot decision, watchdog, jump.
  \<^item> \<^verbatim>\<open>Liveness\<close>: what succeeds when faults are few, and the refinement of the abstract boot machine
    \<open>boot_spec\<close>.
  \<^item> \<^verbatim>\<open>Version_Check\<close>: \<^verbatim>\<open>version_check/version_check.c\<close> with \<^verbatim>\<open>strtok\<close>, \<^verbatim>\<open>strtoul\<close> and \<^verbatim>\<open>strncpy\<close>.
  \<^item> \<^verbatim>\<open>Console\<close>, \<^verbatim>\<open>Console_Correct\<close>, \<^verbatim>\<open>Consent\<close>: the rest of \<^verbatim>\<open>menu.c\<close> and \<^verbatim>\<open>main.c\<close>, that no input leads to
    undefined behaviour, and that only consent changes the application.
  \<^item> \<^verbatim>\<open>Delay\<close>: \<^verbatim>\<open>delay/core_delay.c\<close>. \<^verbatim>\<open>Timeouts\<close>: \<^verbatim>\<open>lwip-2.0.3/src/core/timeouts.c\<close>, the delta list as a queue
    of absolute due times. \<^verbatim>\<open>Pbuf\<close>, \<^verbatim>\<open>Pbuf_Correct\<close>: \<^verbatim>\<open>lwip-2.0.3/src/core/pbuf.c\<close> on an explicit store of
    linked structures, with chains, packets and their contents.
  \<^item> \<^verbatim>\<open>Allocator\<close>: the contract of an allocator (locale \<open>allocator\<close>) and what a client may rely on. \<^verbatim>\<open>Mem\<close>,
    \<^verbatim>\<open>Mem_Correct\<close>: \<^verbatim>\<open>lwip-2.0.3/src/core/mem.c\<close>, the heap as a list of blocks (\<open>heap_rep\<close>). \<^verbatim>\<open>Memp\<close>:
    \<^verbatim>\<open>lwip-2.0.3/src/core/memp.c\<close>, the pools as free lists. Both provide the contract.
  \<^item> \<^verbatim>\<open>Board\<close>, \<^verbatim>\<open>Ethernetif\<close>: keys, LEDs, UART, clock and memory protection; PHY, \<^verbatim>\<open>APP/ethernetif.c\<close> and
    \<^verbatim>\<open>APP/app_ethernet.c\<close>.
  \<^item> \<^verbatim>\<open>Ip4_Addr\<close>: \<^verbatim>\<open>lwip-2.0.3/src/core/ipv4/ip4_addr.c\<close>. \<^verbatim>\<open>Etharp\<close>, \<^verbatim>\<open>Etharp_Correct\<close>: \<^verbatim>\<open>lwip-2.0.3/src/netif/ethernet.c\<close> and
    \<^verbatim>\<open>core/ipv4/etharp.c\<close> on the store of packet buffers, with the layer above (\<^verbatim>\<open>ip4_input\<close>) and the driver below
    (\<^verbatim>\<open>linkoutput\<close>) as arguments.
  \<^item> \<^verbatim>\<open>Inet_Chksum\<close>, \<^verbatim>\<open>Chksum_Correct\<close>: \<^verbatim>\<open>lwip-2.0.3/src/core/inet_chksum.c\<close>, the three versions of the Internet checksum and the
    checksums of packets, against the sum of the bytes (\<open>wsum\<close>).
  \<^item> \<^verbatim>\<open>Ip4\<close>, \<^verbatim>\<open>Icmp\<close>, \<^verbatim>\<open>Ip4_Input\<close>: \<^verbatim>\<open>lwip-2.0.3/src/core/ipv4/ip4.c\<close> and \<^verbatim>\<open>icmp.c\<close>, in the order of the calls; the state of ARP
    extended by that of IP. \<^verbatim>\<open>Ip4_Correct\<close>, \<^verbatim>\<open>Icmp_Correct\<close>: what they do with a packet in a single pbuf, from frame to frame.
  \<^item> \<^verbatim>\<open>Tcp\<close>: control blocks, segments, sequence numbers and headers of TCP; the state of IP extended by the variables of
    \<^verbatim>\<open>tcp.c\<close> and \<^verbatim>\<open>tcp_in.c\<close>. \<^verbatim>\<open>Tcp_Out\<close>, \<^verbatim>\<open>Tcp_Write\<close>: \<^verbatim>\<open>lwip-2.0.3/src/core/tcp_out.c\<close>. \<^verbatim>\<open>Tcp_Pcb\<close>, \<^verbatim>\<open>Tcp_Api\<close>, \<^verbatim>\<open>Tcp_Tmr\<close>:
    \<^verbatim>\<open>lwip-2.0.3/src/core/tcp.c\<close>. \<^verbatim>\<open>Tcp_In\<close>, \<^verbatim>\<open>Tcp_Process\<close>: \<^verbatim>\<open>lwip-2.0.3/src/core/tcp_in.c\<close>. The callbacks of the application are
    fields of an argument (\<open>'d tcp_env\<close>); a callback may call back into TCP.
  \<^item> \<^verbatim>\<open>Tcp_Frame\<close>: what sending leaves alone (\<open>view\<close>). \<^verbatim>\<open>Pbuf_Trim\<close>, \<^verbatim>\<open>Tcp_Stream\<close>: trimming of a received segment at both ends, and
    what becomes of its bytes. \<^verbatim>\<open>Tcp_Properties\<close>, \<^verbatim>\<open>Tcp_State\<close>, \<^verbatim>\<open>Tcp_Bounds\<close>, \<^verbatim>\<open>Tcp_Queue\<close>, \<^verbatim>\<open>Tcp_Send\<close>: the received stream, the state
    machine against RFC 793, window, options and ports, the queues of the sender, \<^verbatim>\<open>tcp_write\<close>.
  \<^item> \<^verbatim>\<open>Sim_Device\<close>: an executable device with a schedule of faults, on which both contracts are
    interpreted; the witnesses run on it.
  \<^item> \<^verbatim>\<open>Flash_Properties\<close>, \<^verbatim>\<open>Update_Properties\<close>, \<^verbatim>\<open>Console_Properties\<close>, \<^verbatim>\<open>Eth_Properties\<close>, \<^verbatim>\<open>Board_Properties\<close>,
    \<^verbatim>\<open>Mem_Properties\<close>, \<^verbatim>\<open>Arp_Properties\<close>, \<^verbatim>\<open>Ip_Properties\<close>: the properties of the parts with their witnesses; those of \<^verbatim>\<open>Version_Check\<close>, \<^verbatim>\<open>Delay\<close>,
    \<^verbatim>\<open>Timeouts\<close>, \<^verbatim>\<open>Ip4_Addr\<close>, \<^verbatim>\<open>Chksum_Correct\<close> and \<^verbatim>\<open>Pbuf_Correct\<close> stand at the end of these theories.
  \<^item> \<^verbatim>\<open>Lifecycle\<close> and this theory: sequences of updates, boots, resets and confirmations.

  \<^bold>\<open>What is shown.\<close> Safety for every pattern of failing HAL calls: which cells each operation may
  change, what success means byte for byte, that a failed update leaves the old application in the
  slot or in the backup, that the boot decision only ever runs the application as it was or as the
  backup has it. Memory safety of every network callback for every segmentation of every byte
  stream. Success when the hardware has no faults (for the metadata, at most two), and with it the
  life of the machine: the last confirmed image survives, and a bad update is rolled back. The
  console changes the application only with consent. The checksum equals its bitwise definition and
  detects bursts. Packet buffers keep their invariant and their pools, timers fire and polling ends,
  frames carry exactly the packet, the heap is first fit on a list of blocks that stays well formed
  through every sequence of calls, the pools are free lists. The ARP table
  is a bounded map that learns only from messages for this host, forgets in time and decides where
  packets go. The Internet checksum is the same in its three versions, covers a packet however it is cut into buffers
  and detects changes; IP delivers exactly the data of the datagrams for this host, reads what it sends, and a
  ping is answered byte for byte, from the received frame to the frame sent. TCP hands the application the peer's stream in order, each
  byte once, follows the state diagram, accepts a reset only with the exact number, accounts for every byte of the send
  buffer, writes all or nothing, never takes an announced window back, and its parsing of options and search for ports end. Pins are disjoint and the clock is within its limits.

  \<^bold>\<open>Bounds and fuel.\<close> Retry loops and guards have the source's counts. Loops over data terminate by
  a measure. Where the source waits without a bound (the watchdog's oscillator, the voltage scaling,
  a key's release, the timers' poll, the receive loop) the model has fuel or a list of inputs;
  that the poll and the receive loop end is proved, with the hypotheses it needs; for the other three
  running out of fuel is a value of the result. The loops of TCP over data are recursion on lists or partial
  functions with the value \<open>None\<close> where they do not return; for the options and the ports it is proved that they do. The loops of its timers run
  over lists that callbacks of the application change; for them nothing of the kind is claimed.

  \<^bold>\<open>Hypotheses.\<close> \<open>hal_laws\<close> and \<open>hal_budget\<close> as above; for updates without faults also that
  \<^verbatim>\<open>BSP_QSPI_Init\<close> succeeds; a reset keeps the memories; the layout of the record (\<open>layout_ok\<close>) names
  the fields \<^verbatim>\<open>cur_*\<close>, \<^verbatim>\<open>ota_*\<close> and \<^verbatim>\<open>bak_*\<close>, which the sources use but \<^verbatim>\<open>metadata.h\<close> does not declare.
  \<^verbatim>\<open>Version_Check_GetVersionNumbers\<close>, which no file defines, is an argument (\<open>ver\<close>). For TCP: fragmentation and
  the request for its timer leave its variables alone (\<open>tcp_quiet\<close>), and freeing a custom pbuf gives it back to \<^verbatim>\<open>RX_POOL\<close>, as the
  driver does.

  \<^bold>\<open>Not modelled.\<close> UDP, DHCP, fragmentation and the interface list of lwIP and its unused applications (they appear as
  arguments of the IP layer and as the hypothesis \<open>input_contract\<close>; towards the programs \<^verbatim>\<open>ota.c\<close> and \<^verbatim>\<open>version_check.c\<close> TCP appears as arbitrary sequences
  of events, which allows more than its model does), the operating-system layer (not built), the fault
  handlers of \<^verbatim>\<open>stm32h7xx_it.c\<close> (endless loops), the text of progress messages, the loss of power in
  the middle of a flash operation, and the physical behaviour of caches and DMA.
\<close>

section \<open>An update that fails its trial run\<close>





section \<open>The last good image\<close>




text \<open>
  The update of an application on trial: the image to fall back to is then the unproven one, whatever was confirmed
  before, and a rollback marks it as confirmed.
\<close>

theorem update_on_trial_gives_up_good_image:
  assumes "hal_budget H nor locked budget" and "hal_budget.good nor budget d" and "ota_received g \<le> APP_SIZE"
    and "run_state (OTA_Flash_Write H lay ver g) d = (w, d')"
  shows "mem_slice (nv_mem (nor d')) BACKUP_OFFSET APP_SIZE = mem_slice (ld8 H d) APP_ADDR APP_SIZE"
  using hal_budget.update_written [OF assms] by simp

end
